(* ===== verification/Prelude.thy ===== *)
theory Prelude
  imports Main
begin

text \<open>
  Shared vocabulary of the development: results that may be an error, JavaScript's insertion-ordered
  \<open>Map\<close>, the safe-integer arithmetic every money and token figure of the repository goes
  through, and the string tests the code uses. Nothing here is specific to one component.
\<close>

named_theorems guard_simps "unfolding rules of guards and error propagation"
named_theorems inv_intros "introduction rules of component invariants"

section \<open>Results\<close>

text \<open>A call that may throw is \<open>'e + 'a\<close>: \<open>Inl\<close> is the thrown error, \<open>Inr\<close> the value.\<close>

type_synonym ('e, 'a) result = "'e + 'a"

fun ebind :: "('e, 'a) result \<Rightarrow> ('a \<Rightarrow> ('e, 'b) result) \<Rightarrow> ('e, 'b) result" where
  "ebind (Inl e) f = Inl e"
| "ebind (Inr x) f = f x"

definition echeck :: "bool \<Rightarrow> 'e \<Rightarrow> ('e, unit) result" where
  "echeck ok e = (if ok then Inr () else Inl e)"

lemma ebind_Inr_iff [guard_simps]: "ebind m f = Inr y \<longleftrightarrow> (\<exists>x. m = Inr x \<and> f x = Inr y)"
  by (cases m) auto

lemma ebind_Inl_iff: "ebind m f = Inl e \<longleftrightarrow> m = Inl e \<or> (\<exists>x. m = Inr x \<and> f x = Inl e)"
  by (cases m) auto

lemma echeck_Inr_iff [guard_simps]: "echeck ok e = Inr u \<longleftrightarrow> ok"
  by (cases u) (simp add: echeck_def)

lemma echeck_Inl_iff [simp]: "echeck ok e = Inl e' \<longleftrightarrow> \<not> ok \<and> e' = e"
  by (auto simp: echeck_def)

lemma echeck_True [simp]: "echeck True e = Inr ()"
  by (simp add: echeck_def)

lemma echeck_False [simp]: "echeck False e = Inl e"
  by (simp add: echeck_def)

lemma ebind_cong [fundef_cong]:
  "m = m' \<Longrightarrow> (\<And>x. m' = Inr x \<Longrightarrow> f x = f' x) \<Longrightarrow> ebind m f = ebind m' f'"
  by (cases m') auto

definition is_ok :: "('e, 'a) result \<Rightarrow> bool" where
  "is_ok r = (case r of Inl _ \<Rightarrow> False | Inr _ \<Rightarrow> True)"

lemma is_ok_simps [simp]: "is_ok (Inl e) = False" "is_ok (Inr x) = True"
  by (simp_all add: is_ok_def)

lemma is_ok_iff: "is_ok r \<longleftrightarrow> (\<exists>x. r = Inr x)"
  by (cases r) auto

text \<open>\<open>HarnessError\<close> of \<open>packages/contracts/src/mcp-results.ts\<close>: code, message, HTTP status, retryable.\<close>

datatype harness_error =
  HarnessError (he_code: string) (he_message: string) (he_status: int) (he_retryable: bool)

section \<open>Finite maps with insertion order\<close>

text \<open>
  JavaScript's \<open>Map\<close> iterates in insertion order, and writing an existing key keeps its place. The
  model is an association list with distinct keys.
\<close>

type_synonym ('k, 'v) jmap = "('k \<times> 'v) list"

definition jget :: "('k, 'v) jmap \<Rightarrow> 'k \<Rightarrow> 'v option" where
  "jget m k = map_of m k"

fun jset :: "'k \<Rightarrow> 'v \<Rightarrow> ('k, 'v) jmap \<Rightarrow> ('k, 'v) jmap" where
  "jset k v [] = [(k, v)]"
| "jset k v ((a, b) # m) = (if a = k then (a, v) # m else (a, b) # jset k v m)"

definition jdel :: "'k \<Rightarrow> ('k, 'v) jmap \<Rightarrow> ('k, 'v) jmap" where
  "jdel k m = filter (\<lambda>p. fst p \<noteq> k) m"

definition jhas :: "('k, 'v) jmap \<Rightarrow> 'k \<Rightarrow> bool" where
  "jhas m k = (jget m k \<noteq> None)"

definition jkeys :: "('k, 'v) jmap \<Rightarrow> 'k list" where
  "jkeys m = map fst m"

definition jok :: "('k, 'v) jmap \<Rightarrow> bool" where
  "jok m = distinct (map fst m)"

text \<open>The interface the components rely on; only these laws are used by their invariants.\<close>

locale finite_map =
  fixes empty :: "'m"
    and get :: "'m \<Rightarrow> 'k \<Rightarrow> 'v option"
    and put :: "'k \<Rightarrow> 'v \<Rightarrow> 'm \<Rightarrow> 'm"
    and remove :: "'k \<Rightarrow> 'm \<Rightarrow> 'm"
    and size_of :: "'m \<Rightarrow> nat"
    and ok :: "'m \<Rightarrow> bool"
  assumes get_empty: "get empty k = None"
    and get_put: "get (put k v m) k' = (if k' = k then Some v else get m k')"
    and get_remove: "get (remove k m) k' = (if k' = k then None else get m k')"
    and size_card: "ok m \<Longrightarrow> size_of m = card (dom (get m))"
    and finite_dom: "finite (dom (get m))"
    and ok_empty: "ok empty"
    and ok_put: "ok m \<Longrightarrow> ok (put k v m)"
    and ok_remove: "ok m \<Longrightarrow> ok (remove k m)"
begin

lemma dom_put: "dom (get (put k v m)) = insert k (dom (get m))"
  by (auto simp: dom_def get_put)

lemma dom_remove: "dom (get (remove k m)) = dom (get m) - {k}"
  by (auto simp: dom_def get_remove)

lemma size_empty: "size_of empty = 0"
proof -
  have "dom (get empty) = {}"
    by (auto simp: dom_def get_empty)
  then show ?thesis
    by (simp add: size_card ok_empty)
qed

lemma size_put_new: "ok m \<Longrightarrow> get m k = None \<Longrightarrow> size_of (put k v m) = Suc (size_of m)"
  by (simp add: size_card ok_put dom_put finite_dom card_insert_if domIff)

lemma size_put_old: "ok m \<Longrightarrow> get m k \<noteq> None \<Longrightarrow> size_of (put k v m) = size_of m"
  by (simp add: size_card ok_put dom_put insert_absorb domIff)

lemma size_remove: "ok m \<Longrightarrow> get m k \<noteq> None \<Longrightarrow> Suc (size_of (remove k m)) = size_of m"
  using card_Suc_Diff1 [OF finite_dom, of k m]
  by (simp add: size_card ok_remove dom_remove domIff)

lemma remove_absent: "get m k = None \<Longrightarrow> get (remove k m) = get m"
  by (rule ext) (simp add: get_remove)

end

lemma jset_map_of: "map_of (jset k v m) = (map_of m)(k \<mapsto> v)"
  by (induction k v m rule: jset.induct) auto

lemma jset_keys: "set (map fst (jset k v m)) = insert k (set (map fst m))"
  by (induction k v m rule: jset.induct) auto

lemma jset_distinct: "distinct (map fst m) \<Longrightarrow> distinct (map fst (jset k v m))"
  by (induction k v m rule: jset.induct) (auto simp: jset_keys simp del: set_map)

lemma jdel_map_of: "map_of (jdel k m) k' = (if k' = k then None else map_of m k')"
  by (induction m) (auto simp: jdel_def)

lemma jdel_distinct: "distinct (map fst m) \<Longrightarrow> distinct (map fst (jdel k m))"
  by (induction m) (auto simp: jdel_def)

lemma jmap_size: "jok m \<Longrightarrow> length m = card (dom (jget m))"
proof -
  assume ok: "jok m"
  have "dom (jget m) = set (map fst m)"
    by (auto simp: jget_def dom_map_of_conv_image_fst [symmetric] dom_def)
  then have "card (dom (jget m)) = length (map fst m)"
    using ok by (simp only: distinct_card jok_def)
  then show ?thesis by simp
qed

interpretation jm: finite_map "[]" jget jset jdel length jok
proof
  fix m :: "('a, 'b) jmap" and k k' :: 'a and v :: 'b
  show "jget [] k = (None :: 'b option)" by (simp add: jget_def)
  show "jget (jset k v m) k' = (if k' = k then Some v else jget m k')"
    by (simp add: jget_def jset_map_of)
  show "jget (jdel k m) k' = (if k' = k then None else jget m k')"
    by (simp add: jget_def jdel_map_of)
  show "jok m \<Longrightarrow> length m = card (dom (jget m))" by (rule jmap_size)
  have "jget m = map_of m" by (rule ext) (simp add: jget_def)
  then show "finite (dom (jget m))" by (simp add: finite_dom_map_of)
  show "jok ([] :: ('a, 'b) jmap)" by (simp add: jok_def)
  show "jok m \<Longrightarrow> jok (jset k v m)" by (simp only: jok_def jset_distinct)
  show "jok m \<Longrightarrow> jok (jdel k m)" by (simp only: jok_def jdel_distinct)
qed

lemmas jmap_simps [simp] = jm.get_empty jm.get_put jm.get_remove

lemma jget_Nil [simp]: "jget [] k = None"
  by (rule jm.get_empty)

lemma jget_Cons: "jget ((a, b) # m) k = (if a = k then Some b else jget m k)"
  by (simp add: jget_def)

lemma jget_in_set: "jget m k = Some v \<Longrightarrow> (k, v) \<in> set m"
  by (simp add: jget_def map_of_SomeD)

lemma jget_set_iff: "jok m \<Longrightarrow> (k, v) \<in> set m \<longleftrightarrow> jget m k = Some v"
  by (auto simp: jget_def jok_def)

lemma jhas_simps [simp]:
  "jhas (jset k v m) k' \<longleftrightarrow> k' = k \<or> jhas m k'"
  "jhas (jdel k m) k' \<longleftrightarrow> k' \<noteq> k \<and> jhas m k'"
  by (auto simp: jhas_def)

lemma jhas_keys: "jhas m k \<longleftrightarrow> k \<in> set (jkeys m)"
  by (auto simp: jhas_def jget_def jkeys_def map_of_eq_None_iff)

lemma jdel_absent: "jget m k = None \<Longrightarrow> jdel k m = m"
  by (induction m) (auto simp: jdel_def jget_Cons split: if_splits)

lemma length_jdel: "jok m \<Longrightarrow> jget m k = Some v \<Longrightarrow> Suc (length (jdel k m)) = length m"
  by (rule jm.size_remove) simp_all

lemma length_jset: "jok m \<Longrightarrow> length (jset k v m) = (if jget m k = None then Suc (length m) else length m)"
  using jm.size_put_new jm.size_put_old by (metis (no_types, lifting))

lemma jok_simps [simp]: "jok []" "jok m \<Longrightarrow> jok (jset k v m)" "jok m \<Longrightarrow> jok (jdel k m)"
  by (simp_all add: jm.ok_empty jm.ok_put jm.ok_remove)

lemma jok_distinct: "jok m \<Longrightarrow> distinct (map fst m)"
  by (simp add: jok_def)

lemma jget_map_of: "jget m k = map_of m k"
  by (simp add: jget_def)

text \<open>A figure summed over the values of a map.\<close>

definition msum :: "('v \<Rightarrow> int) \<Rightarrow> ('k, 'v) jmap \<Rightarrow> int" where
  "msum f m = sum_list (map (\<lambda>p. f (snd p)) m)"

lemma msum_Nil [simp]: "msum f [] = 0"
  by (simp add: msum_def)

lemma msum_jdel: "jok m \<Longrightarrow> jget m k = Some v \<Longrightarrow> msum f (jdel k m) = msum f m - f v"
proof (induction m)
  case Nil
  then show ?case by simp
next
  case (Cons p m)
  obtain a b where p: "p = (a, b)" by (cases p)
  show ?case
  proof (cases "a = k")
    case True
    then have "jget m k = None"
      using Cons.prems(1) by (simp add: jok_def p jget_def map_of_eq_None_iff)
    then show ?thesis
      using True Cons.prems(2) jdel_absent [of m k] by (simp add: p msum_def jget_Cons jdel_def)
  next
    case False
    then show ?thesis
      using Cons by (simp add: p msum_def jget_Cons jok_def jdel_def)
  qed
qed

lemma msum_jset: "msum f (jset k v m) = msum f m - (case jget m k of Some u \<Rightarrow> f u | None \<Rightarrow> 0) + f v"
  by (induction k v m rule: jset.induct) (auto simp: msum_def jget_Cons split: option.split)

section \<open>Safe integers\<close>

text \<open>
  \<open>Number.MAX_SAFE_INTEGER\<close>. Integers up to it are exact in a JavaScript number, so sums and
  differences of validated counters are the mathematical ones; the code saturates or moves to
  \<open>BigInt\<close> wherever a product could leave the range.
\<close>

definition max_safe :: int where
  "max_safe = 9007199254740991"

definition is_safe :: "int \<Rightarrow> bool" where
  "is_safe n = (\<bar>n\<bar> \<le> max_safe)"

lemma max_safe_pos [simp]: "0 < max_safe" "0 \<le> max_safe"
  by (simp_all add: max_safe_def)

section \<open>Strings\<close>

fun starts_with :: "'a list \<Rightarrow> 'a list \<Rightarrow> bool" where
  "starts_with [] _ = True"
| "starts_with (p # ps) [] = False"
| "starts_with (p # ps) (x # xs) = (p = x \<and> starts_with ps xs)"

fun str_includes :: "'a list \<Rightarrow> 'a list \<Rightarrow> bool" where
  "str_includes p [] = (p = [])"
| "str_includes p (x # xs) = (starts_with p (x # xs) \<or> str_includes p xs)"

definition ends_with :: "'a list \<Rightarrow> 'a list \<Rightarrow> bool" where
  "ends_with p xs = starts_with (rev p) (rev xs)"

lemma starts_with_iff: "starts_with p xs \<longleftrightarrow> (\<exists>ys. xs = p @ ys)"
  by (induction p xs rule: starts_with.induct) auto

lemma str_includes_iff: "str_includes p xs \<longleftrightarrow> (\<exists>us vs. xs = us @ p @ vs)"
proof (induction xs)
  case Nil
  then show ?case by auto
next
  case (Cons x xs)
  show ?case
  proof
    assume "str_includes p (x # xs)"
    then consider "starts_with p (x # xs)" | "str_includes p xs" by auto
    then show "\<exists>us vs. x # xs = us @ p @ vs"
    proof cases
      case 1
      then show ?thesis by (metis append_Nil starts_with_iff)
    next
      case 2
      then show ?thesis using Cons.IH by (metis append_Cons)
    qed
  next
    assume "\<exists>us vs. x # xs = us @ p @ vs"
    then obtain us vs where eq: "x # xs = us @ p @ vs" by blast
    show "str_includes p (x # xs)"
    proof (cases us)
      case Nil
      with eq have "starts_with p (x # xs)" by (simp add: starts_with_iff)
      then show ?thesis by simp
    next
      case (Cons u us')
      with eq have "\<exists>us vs. xs = us @ p @ vs" by auto
      with Cons.IH show ?thesis by simp
    qed
  qed
qed

definition code :: "char \<Rightarrow> nat" where
  "code c = of_char c"

definition is_digit_char :: "char \<Rightarrow> bool" where
  "is_digit_char c = (48 \<le> code c \<and> code c \<le> 57)"

definition is_lower_char :: "char \<Rightarrow> bool" where
  "is_lower_char c = (97 \<le> code c \<and> code c \<le> 122)"

definition is_upper_char :: "char \<Rightarrow> bool" where
  "is_upper_char c = (65 \<le> code c \<and> code c \<le> 90)"

definition is_alnum_char :: "char \<Rightarrow> bool" where
  "is_alnum_char c = (is_digit_char c \<or> is_lower_char c \<or> is_upper_char c)"

text \<open>\<open>toLowerCase\<close> on ASCII.\<close>

definition lower_char :: "char \<Rightarrow> char" where
  "lower_char c = (if is_upper_char c then char_of (code c + 32) else c)"

definition to_lower :: "string \<Rightarrow> string" where
  "to_lower s = map lower_char s"

text \<open>The decimal rendering of a natural number, as template strings and array keys print it.\<close>

fun digits_rev :: "nat \<Rightarrow> string" where
  "digits_rev n = (if n < 10 then [char_of (48 + n)] else char_of (48 + n mod 10) # digits_rev (n div 10))"

declare digits_rev.simps [simp del]

definition show_nat :: "nat \<Rightarrow> string" where
  "show_nat n = rev (digits_rev n)"

lemma digits_rev_digits: "c \<in> set (digits_rev n) \<Longrightarrow> is_digit_char c"
proof (induction n rule: digits_rev.induct)
  case (1 n)
  then show ?case
    by (subst (asm) digits_rev.simps)
      (auto simp: is_digit_char_def code_def split: if_splits)
qed

lemma digits_rev_not_Nil: "digits_rev n \<noteq> []"
  by (subst digits_rev.simps) simp

lemma show_nat_digits: "c \<in> set (show_nat n) \<Longrightarrow> is_digit_char c"
  by (simp add: show_nat_def digits_rev_digits)

text \<open>
  Resource identifiers: a kind, an underscore and 20 to 80 identifier characters, as \<open>opaqueId\<close> of
  \<open>packages/contracts/src/opaque-ids.ts\<close> and the runner's own identifier patterns accept them.
\<close>

definition id_char :: "char \<Rightarrow> bool" where
  "id_char c = (is_alnum_char c \<or> c = CHR ''_'' \<or> c = CHR ''-'')"

definition opaque_id :: "string \<Rightarrow> string \<Rightarrow> bool" where
  "opaque_id prefix s =
     (starts_with (prefix @ ''_'') s
      \<and> (let body = drop (length prefix + 1) s in 20 \<le> length body \<and> length body \<le> 80 \<and> list_all id_char body))"

section \<open>Ordered queries\<close>

text \<open>SQLite's binary collation, and \<open>ORDER BY\<close> as an insertion sort; ties keep the table order.\<close>

fun str_less :: "string \<Rightarrow> string \<Rightarrow> bool" where
  "str_less _ [] = False"
| "str_less [] (y # ys) = True"
| "str_less (x # xs) (y # ys) = (code x < code y \<or> (x = y \<and> str_less xs ys))"

fun insert_by :: "('a \<Rightarrow> 'a \<Rightarrow> bool) \<Rightarrow> 'a \<Rightarrow> 'a list \<Rightarrow> 'a list" where
  "insert_by prior x [] = [x]"
| "insert_by prior x (y # ys) = (if prior y x then y # insert_by prior x ys else x # y # ys)"

definition order_by :: "('a \<Rightarrow> 'a \<Rightarrow> bool) \<Rightarrow> 'a list \<Rightarrow> 'a list" where
  "order_by prior xs = foldr (insert_by prior) xs []"

lemma insert_by_set [simp]: "set (insert_by prior x xs) = insert x (set xs)"
  by (induction xs) auto

lemma insert_by_length [simp]: "length (insert_by prior x xs) = Suc (length xs)"
  by (induction xs) auto

lemma order_by_set [simp]: "set (order_by prior xs) = set xs"
  by (induction xs) (simp_all add: order_by_def)

lemma order_by_length [simp]: "length (order_by prior xs) = length xs"
  by (induction xs) (simp_all add: order_by_def)

lemma insert_by_distinct: "distinct (map g (insert_by prior x xs)) \<longleftrightarrow> g x \<notin> g ` set xs \<and> distinct (map g xs)"
  by (induction xs) auto

lemma order_by_Cons: "order_by prior (x # xs) = insert_by prior x (order_by prior xs)"
  by (simp add: order_by_def)

lemma order_by_distinct: "distinct (map g (order_by prior xs)) = distinct (map g xs)"
  by (induction xs) (auto simp: insert_by_distinct order_by_Cons order_by_def [of _ "[]"])

end
