(* ===== verification/Json.thy ===== *)
theory Json
  imports Complex_Main Prelude
begin

text \<open>
  JSON values as the gateway receives them from \<open>JSON.parse\<close>: numbers are doubles (a finite double is
  a rational; an overflowing literal parses to an infinity), objects are their own properties in
  enumeration order. A field lookup returns \<open>None\<close> for \<open>undefined\<close>. Arrays and objects are the two
  \<open>typeof value === 'object'\<close> shapes besides \<open>null\<close>.
\<close>

datatype jnum = Fin rat | PosInf | NegInf

datatype json = JNull | JBool bool | JNum jnum | JStr string | JArr "json list" | JObj "(string \<times> json) list"

type_synonym jobject = "(string \<times> json) list"

abbreviation JInt :: "int \<Rightarrow> json" where
  "JInt n \<equiv> JNum (Fin (of_int n))"

definition field :: "jobject \<Rightarrow> string \<Rightarrow> json option" where
  "field ob k = jget ob k"

text \<open>\<open>value !== undefined && value !== null\<close>.\<close>

definition present :: "json option \<Rightarrow> bool" where
  "present v = (v \<noteq> None \<and> v \<noteq> Some JNull)"

text \<open>\<open>Number.isInteger\<close> and \<open>Number.isSafeInteger\<close>, returning the integer.\<close>

definition as_integer :: "json \<Rightarrow> int option" where
  "as_integer v =
     (case v of JNum (Fin r) \<Rightarrow> (if of_int \<lfloor>r\<rfloor> = r then Some \<lfloor>r\<rfloor> else None) | _ \<Rightarrow> None)"

definition as_safe_integer :: "json \<Rightarrow> int option" where
  "as_safe_integer v =
     (case as_integer v of Some n \<Rightarrow> (if is_safe n then Some n else None) | None \<Rightarrow> None)"

lemma as_integer_JInt [simp]: "as_integer (JInt n) = Some n"
  by (simp add: as_integer_def)

lemma as_safe_integer_JInt [simp]: "as_safe_integer (JInt n) = (if is_safe n then Some n else None)"
  by (simp add: as_safe_integer_def)

lemma as_safe_integer_SomeD: "as_safe_integer v = Some n \<Longrightarrow> is_safe n"
  by (simp add: as_safe_integer_def split: option.splits if_splits)

definition is_object :: "json \<Rightarrow> bool" where
  "is_object v = (case v of JArr _ \<Rightarrow> True | JObj _ \<Rightarrow> True | _ \<Rightarrow> False)"

text \<open>\<open>Object.entries\<close>; the keys of an array are its indices in decimal.\<close>

fun entries :: "json \<Rightarrow> (string \<times> json) list" where
  "entries (JObj ob) = ob"
| "entries (JArr xs) = zip (map show_nat [0..<length xs]) xs"
| "entries _ = []"

definition child_values :: "json \<Rightarrow> json list" where
  "child_values v = map snd (entries v)"

text \<open>The number of nodes of a value: the measure of the work-list traversals.\<close>

fun nodes :: "json \<Rightarrow> nat" where
  "nodes (JArr xs) = Suc (sum_list (map nodes xs))"
| "nodes (JObj ob) = Suc (sum_list (map (\<lambda>p. nodes (snd p)) ob))"
| "nodes _ = 1"

lemma nodes_pos [simp]: "0 < nodes v"
  by (cases v) auto

lemma child_values_simps [simp]:
  "child_values (JObj ob) = map snd ob"
  "child_values (JArr xs) = xs"
  by (simp_all add: child_values_def)

lemma nodes_child_values: "sum_list (map nodes (child_values v)) < nodes v"
  by (cases v) (auto simp: child_values_def comp_def)

lemma entries_child_values: "(k, w) \<in> set (entries v) \<Longrightarrow> w \<in> set (child_values v)"
  by (force simp: child_values_def)

lemma sum_list_filter_le: "sum_list (map f (filter P xs)) \<le> sum_list (map f (xs :: 'a list)) " for f :: "'a \<Rightarrow> nat"
  by (induction xs) auto

lemma nodes_filtered_children: "sum_list (map nodes (filter P (child_values v))) < nodes v"
  by (rule le_less_trans [OF sum_list_filter_le nodes_child_values])

text \<open>The sub-values reachable through arrays and objects, the value itself included.\<close>

inductive subvalue :: "json \<Rightarrow> json \<Rightarrow> bool" where
  self: "subvalue v v"
| child: "w \<in> set (child_values v) \<Longrightarrow> subvalue u w \<Longrightarrow> subvalue u v"

inductive_cases subvalueE: "subvalue u v"

lemma subvalue_step_iff: "subvalue u v \<longleftrightarrow> u = v \<or> (\<exists>w \<in> set (child_values v). subvalue u w)"
  by (auto elim: subvalueE intro: subvalue.intros)

lemma subvalue_trans: "subvalue u v \<Longrightarrow> subvalue v w \<Longrightarrow> subvalue u w"
  by (rotate_tac 1) (induction rule: subvalue.induct, auto intro: subvalue.intros)

section \<open>Object updates\<close>

text \<open>\<open>delete o.k\<close> and \<open>o.k = v\<close>.\<close>

definition delete_field :: "string \<Rightarrow> jobject \<Rightarrow> jobject" where
  "delete_field k ob = jdel k ob"

definition set_field :: "string \<Rightarrow> json \<Rightarrow> jobject \<Rightarrow> jobject" where
  "set_field k v ob = jset k v ob"

lemma field_delete [simp]: "field (delete_field k ob) k' = (if k' = k then None else field ob k')"
  by (simp add: field_def delete_field_def)

lemma field_set [simp]: "field (set_field k v ob) k' = (if k' = k then Some v else field ob k')"
  by (simp add: field_def set_field_def)

lemma field_Cons: "field ((a, v) # ob) k = (if a = k then Some v else field ob k)"
  by (simp add: field_def jget_Cons)

lemma field_Nil [simp]: "field [] k = None"
  by (simp add: field_def)

lemma field_in_set: "field ob k = Some v \<Longrightarrow> (k, v) \<in> set ob"
  by (simp add: field_def jget_in_set)

end
