(* ===== verification/Pricing.thy ===== *)
theory Pricing
  imports Prelude
begin

text \<open>
  The runner's price contract, \<open>packages/contracts/src/model-pricing.ts\<close>: prices pinned on a saved
  revision, where a cache price may be unknown, and the concrete prices resolved from them. All
  prices are integer micro-dollars per million tokens.
\<close>

section \<open>Price levels\<close>

text \<open>\<open>EffectivePriceLevel\<close>, the same four fields as the gateway's \<open>TokenPrices\<close>, and a long-prompt tier.\<close>

record token_prices =
  input_price :: int
  output_price :: int
  read_price :: int
  write_price :: int

record price_tier = token_prices +
  tier_from :: int

text \<open>\<open>PriceLevel\<close>: a cache price that is null or absent is unknown.\<close>

record pinned_level =
  pin_input :: int
  pin_output :: int
  pin_read :: "int option"
  pin_write :: "int option"

record pinned_tier = pinned_level +
  pin_from :: int

record pinned_pricing = pinned_level +
  pin_tiers :: "pinned_tier list"

text \<open>\<open>PRICE_KEYS\<close>, and the indexed access \<open>level[key]\<close>.\<close>

datatype price_key = KInput | KOutput | KRead | KWrite

definition price_keys :: "price_key list" where
  "price_keys = [KInput, KOutput, KRead, KWrite]"

fun price_of :: "price_key \<Rightarrow> ('a) token_prices_scheme \<Rightarrow> int" where
  "price_of KInput p = input_price p"
| "price_of KOutput p = output_price p"
| "price_of KRead p = read_price p"
| "price_of KWrite p = write_price p"

fun pinned_of :: "price_key \<Rightarrow> ('a) pinned_level_scheme \<Rightarrow> int option" where
  "pinned_of KInput p = Some (pin_input p)"
| "pinned_of KOutput p = Some (pin_output p)"
| "pinned_of KRead p = pin_read p"
| "pinned_of KWrite p = pin_write p"

lemma set_price_keys [simp]: "set price_keys = UNIV"
proof -
  have "k \<in> set price_keys" for k
    by (cases k) (simp_all add: price_keys_def)
  then show ?thesis by auto
qed

definition prices_le :: "('a) token_prices_scheme \<Rightarrow> ('b) token_prices_scheme \<Rightarrow> bool" where
  "prices_le p q = (input_price p \<le> input_price q \<and> output_price p \<le> output_price q
     \<and> read_price p \<le> read_price q \<and> write_price p \<le> write_price q)"

lemma prices_le_iff: "prices_le p q \<longleftrightarrow> (\<forall>k. price_of k p \<le> price_of k q)"
proof
  assume le: "prices_le p q"
  show "\<forall>k. price_of k p \<le> price_of k q"
  proof
    fix k show "price_of k p \<le> price_of k q"
      using le by (cases k) (simp_all add: prices_le_def)
  qed
next
  assume "\<forall>k. price_of k p \<le> price_of k q"
  then have "price_of k p \<le> price_of k q" for k by blast
  from this [of KInput] this [of KOutput] this [of KRead] this [of KWrite]
  show "prices_le p q" by (simp add: prices_le_def)
qed

lemma prices_le_refl [simp]: "prices_le p p"
  by (simp add: prices_le_def)

lemma prices_le_trans: "prices_le p q \<Longrightarrow> prices_le q r \<Longrightarrow> prices_le p r"
  by (auto simp: prices_le_def)

section \<open>The schema of pinned pricing\<close>

text \<open>\<open>MAX_PRICE_TIER_MIN_PROMPT_TOKENS\<close> and \<open>MAX_MODEL_PRICE_TIERS\<close>.\<close>

definition max_tier_from :: int where
  "max_tier_from = 10000000"

definition max_tiers :: nat where
  "max_tiers = 4"

definition price_in_range :: "int \<Rightarrow> bool" where
  "price_in_range n = (0 \<le> n \<and> n \<le> max_safe)"

definition opt_price_in_range :: "int option \<Rightarrow> bool" where
  "opt_price_in_range v = (case v of None \<Rightarrow> True | Some n \<Rightarrow> price_in_range n)"

definition level_in_range :: "('a) pinned_level_scheme \<Rightarrow> bool" where
  "level_in_range p = (price_in_range (pin_input p) \<and> price_in_range (pin_output p)
     \<and> opt_price_in_range (pin_read p) \<and> opt_price_in_range (pin_write p))"

definition tier_in_range :: "pinned_tier \<Rightarrow> bool" where
  "tier_in_range t = (level_in_range t \<and> 1 \<le> pin_from t \<and> pin_from t \<le> max_tier_from)"

datatype tier_issue = NotAscending nat | FallsBelow nat price_key

text \<open>\<open>addPriceTierIssues\<close>: one issue per threshold that does not rise and per stated price that falls.\<close>

fun add_price_tier_issues :: "nat \<Rightarrow> int \<Rightarrow> pinned_level \<Rightarrow> pinned_tier list \<Rightarrow> tier_issue list" where
  "add_price_tier_issues i prev below [] = []"
| "add_price_tier_issues i prev below (t # ts) =
     (if pin_from t \<le> prev then [NotAscending i] else [])
     @ map (FallsBelow i) (filter (\<lambda>k. case (pinned_of k below, pinned_of k t) of
          (Some lower, Some upper) \<Rightarrow> upper < lower | _ \<Rightarrow> False) price_keys)
     @ add_price_tier_issues (Suc i) (pin_from t) (pinned_level.truncate t) ts"

text \<open>\<open>AgentModelPricingSchema\<close>: the pricing a revision can be saved with.\<close>

definition pricing_schema_ok :: "pinned_pricing \<Rightarrow> bool" where
  "pricing_schema_ok p = (level_in_range p \<and> list_all tier_in_range (pin_tiers p)
     \<and> length (pin_tiers p) \<le> max_tiers
     \<and> add_price_tier_issues 0 0 (pinned_level.truncate p) (pin_tiers p) = [])"

section \<open>Which providers bill cache writes\<close>

datatype provider_kind = Openai | Anthropic | Openrouter | Google | Deepseek | Opencode_Go | Custom

text \<open>The \<open>billsCacheWrites\<close> column of the provider registry.\<close>

fun provider_bills_cache_writes :: "provider_kind \<Rightarrow> bool" where
  "provider_bills_cache_writes Openai = False"
| "provider_bills_cache_writes Anthropic = False"
| "provider_bills_cache_writes Openrouter = True"
| "provider_bills_cache_writes Google = False"
| "provider_bills_cache_writes Deepseek = False"
| "provider_bills_cache_writes Opencode_Go = True"
| "provider_bills_cache_writes Custom = True"

datatype price_basis = Registry provider_kind | Explicit bool

fun bills_cache_writes :: "price_basis \<Rightarrow> bool" where
  "bills_cache_writes (Registry p) = provider_bills_cache_writes p"
| "bills_cache_writes (Explicit b) = b"

section \<open>Resolving unknown prices\<close>

definition resolve_level :: "('a) pinned_level_scheme \<Rightarrow> bool \<Rightarrow> token_prices" where
  "resolve_level l bills_writes =
     \<lparr>input_price = pin_input l,
      output_price = pin_output l,
      read_price = (case pin_read l of Some n \<Rightarrow> n | None \<Rightarrow> pin_input l),
      write_price = (case pin_write l of Some n \<Rightarrow> n
        | None \<Rightarrow> if bills_writes then min max_safe (pin_input l * 2) else pin_input l)\<rparr>"

definition with_from :: "int \<Rightarrow> token_prices \<Rightarrow> price_tier" where
  "with_from n p = token_prices.extend p \<lparr>tier_from = n\<rparr>"

definition resolve_levels :: "pinned_pricing \<Rightarrow> price_basis \<Rightarrow> token_prices \<times> price_tier list" where
  "resolve_levels p basis = (let bw = bills_cache_writes basis in
     (resolve_level p bw, map (\<lambda>t. with_from (pin_from t) (resolve_level t bw)) (pin_tiers p)))"

text \<open>\<open>findResolvedPriceTierIssues\<close>: index, key, the tier's price and the price one level down.\<close>

fun resolved_issues_from :: "nat \<Rightarrow> token_prices \<Rightarrow> price_tier list \<Rightarrow> (nat \<times> price_key \<times> int \<times> int) list" where
  "resolved_issues_from i below [] = []"
| "resolved_issues_from i below (t # ts) =
     map (\<lambda>k. (i, k, price_of k t, price_of k below)) (filter (\<lambda>k. price_of k t < price_of k below) price_keys)
     @ resolved_issues_from (Suc i) (token_prices.truncate t) ts"

definition find_resolved_price_tier_issues :: "pinned_pricing \<Rightarrow> price_basis \<Rightarrow> (nat \<times> price_key \<times> int \<times> int) list" where
  "find_resolved_price_tier_issues p basis =
     (let (base, tiers) = resolve_levels p basis in resolved_issues_from 0 base tiers)"

text \<open>\<open>resolveEffectivePricing\<close>: every tier price is raised to at least the price one level below.\<close>

definition raise_tier :: "token_prices \<Rightarrow> price_tier \<Rightarrow> price_tier" where
  "raise_tier below t = t
     \<lparr>input_price := max (input_price t) (input_price below),
      output_price := max (output_price t) (output_price below),
      read_price := max (read_price t) (read_price below),
      write_price := max (write_price t) (write_price below)\<rparr>"

fun raise_tiers :: "token_prices \<Rightarrow> price_tier list \<Rightarrow> price_tier list" where
  "raise_tiers below [] = []"
| "raise_tiers below (t # ts) =
     (let raised = raise_tier below t in raised # raise_tiers (token_prices.truncate raised) ts)"

record effective_pricing = token_prices +
  eff_tiers :: "price_tier list"

definition resolve_effective_pricing :: "pinned_pricing \<Rightarrow> price_basis \<Rightarrow> effective_pricing" where
  "resolve_effective_pricing p basis = (let (base, tiers) = resolve_levels p basis in
     token_prices.extend base \<lparr>eff_tiers = raise_tiers base tiers\<rparr>)"

section \<open>Ordered tiers\<close>

text \<open>What the gateway relies on: thresholds rise strictly and no price falls from a level to the next.\<close>

fun tiers_ordered :: "int \<Rightarrow> token_prices \<Rightarrow> price_tier list \<Rightarrow> bool" where
  "tiers_ordered prev below [] = True"
| "tiers_ordered prev below (t # ts) =
     (prev < tier_from t \<and> prices_le below t \<and> tiers_ordered (tier_from t) (token_prices.truncate t) ts)"

lemma with_from_simps [simp]:
  "input_price (with_from n p) = input_price p"
  "output_price (with_from n p) = output_price p"
  "read_price (with_from n p) = read_price p"
  "write_price (with_from n p) = write_price p"
  "tier_from (with_from n p) = n"
  by (simp_all add: with_from_def token_prices.extend_def)

lemma truncate_simps [simp]:
  "input_price (token_prices.truncate p) = input_price p"
  "output_price (token_prices.truncate p) = output_price p"
  "read_price (token_prices.truncate p) = read_price p"
  "write_price (token_prices.truncate p) = write_price p"
  by (simp_all add: token_prices.truncate_def)

lemma truncate_with_from [simp]: "token_prices.truncate (with_from n p) = p"
  by (simp add: token_prices.truncate_def)

lemma prices_le_truncate [simp]:
  "prices_le (token_prices.truncate p) q = prices_le p q"
  "prices_le p (token_prices.truncate q) = prices_le p q"
  by (simp_all add: prices_le_def)

lemma price_of_raise: "price_of k (raise_tier below t) = max (price_of k t) (price_of k below)"
  by (cases k) (simp_all add: raise_tier_def)

lemma raise_tier_le: "prices_le below (raise_tier below t)" "prices_le t (raise_tier below t)"
  by (simp_all add: prices_le_iff price_of_raise)

lemma raise_tier_from [simp]: "tier_from (raise_tier below t) = tier_from t"
  by (simp add: raise_tier_def)

fun ascending_from :: "int \<Rightarrow> int list \<Rightarrow> bool" where
  "ascending_from prev [] = True"
| "ascending_from prev (n # ns) = (prev < n \<and> ascending_from n ns)"

lemma tiers_ordered_ascending: "tiers_ordered prev below ts \<Longrightarrow> ascending_from prev (map tier_from ts)"
  by (induction prev below ts rule: tiers_ordered.induct) auto

lemma raise_tiers_ordered:
  "ascending_from prev (map tier_from ts) \<Longrightarrow> tiers_ordered prev below (raise_tiers below ts)"
  by (induction below ts arbitrary: prev rule: raise_tiers.induct) (simp_all add: Let_def raise_tier_le)

lemma length_raise_tiers [simp]: "length (raise_tiers below ts) = length ts"
  by (induction below ts rule: raise_tiers.induct) (simp_all add: Let_def)

lemma raise_tiers_from [simp]: "map tier_from (raise_tiers below ts) = map tier_from ts"
  by (induction below ts rule: raise_tiers.induct) (simp_all add: Let_def)

text \<open>Raising is the cheapest correction: any ordered prices above the resolved ones are above the raised ones.\<close>

lemma raise_tiers_least:
  assumes "list_all2 (\<lambda>t u. prices_le t u \<and> tier_from t = tier_from u) ts us"
    and "tiers_ordered prev below' us" and "prices_le below below'"
  shows "list_all2 prices_le (raise_tiers below ts) us"
  using assms
proof (induction ts us arbitrary: prev below below' rule: list_all2_induct)
  case Nil
  then show ?case by simp
next
  case (Cons t ts u us)
  have "prices_le (raise_tier below t) u"
    using Cons.hyps Cons.prems
    by (auto simp: prices_le_iff price_of_raise intro: order_trans)
  moreover have "list_all2 prices_le (raise_tiers (token_prices.truncate (raise_tier below t)) ts) us"
    using Cons.prems calculation by (intro Cons.IH [where below' = "token_prices.truncate u"]) auto
  ultimately show ?case by (simp add: Let_def)
qed

lemma add_price_tier_issues_ascending:
  "add_price_tier_issues i prev below ts = [] \<Longrightarrow> ascending_from prev (map pin_from ts)"
  by (induction i prev below ts rule: add_price_tier_issues.induct) (auto split: if_splits)

lemma resolve_level_in_range:
  assumes "level_in_range l"
  shows "price_in_range (price_of k (resolve_level l bw))"
  using assms
  by (cases k)
    (auto simp: level_in_range_def resolve_level_def price_in_range_def opt_price_in_range_def
      split: option.splits)

lemma raise_tiers_in_range:
  assumes "\<And>k. price_in_range (price_of k below)"
    and "\<And>t k. t \<in> set ts \<Longrightarrow> price_in_range (price_of k t)"
    and "u \<in> set (raise_tiers below ts)"
  shows "price_in_range (price_of k u)"
  using assms
proof (induction below ts arbitrary: u k rule: raise_tiers.induct)
  case (1 below)
  then show ?case by simp
next
  case (2 below t ts)
  have trunc: "price_of k (token_prices.truncate q) = price_of k q" for k and q :: price_tier
    by (cases k) simp_all
  have raised: "price_in_range (price_of k (raise_tier below t))" for k
    using "2.prems"(1) [of k] "2.prems"(2) [of t k] by (auto simp: price_of_raise price_in_range_def)
  from "2.prems"(3) consider "u = raise_tier below t"
    | "u \<in> set (raise_tiers (token_prices.truncate (raise_tier below t)) ts)"
    by (auto simp: Let_def)
  then show ?case
  proof cases
    case 1
    then show ?thesis using raised by simp
  next
    case u: 2
    show ?thesis
      by (rule "2.IH" [OF refl _ _ u]) (use raised "2.prems"(2) in \<open>auto simp: trunc\<close>)
  qed
qed

lemma resolved_issues_none:
  "resolved_issues_from i below ts = [] \<Longrightarrow> raise_tiers below ts = ts"
proof (induction i below ts rule: resolved_issues_from.induct)
  case (1 i below)
  then show ?case by simp
next
  case (2 i below t ts)
  have "filter (\<lambda>k. price_of k t < price_of k below) price_keys = []"
    using "2.prems" by simp
  then have "\<not> price_of k t < price_of k below" for k
    by (auto simp: filter_empty_conv)
  from this [of KInput] this [of KOutput] this [of KRead] this [of KWrite]
  have "raise_tier below t = t"
    by (simp add: raise_tier_def)
  with "2.IH" "2.prems" show ?case by (simp add: Let_def)
qed

end
