(* ===== verification/GatewayPricing.thy ===== *)
theory GatewayPricing
  imports Json Pricing
begin

text \<open>
  The model gateway's side of pricing, \<open>apps/model-gateway/src/config.ts\<close>: validation of a profile's
  \<open>pricing\<close> object (\<open>parsePricing\<close>), from a static profile file or from a runner snapshot, and the
  price lookup \<open>pricesForPrompt\<close> of \<open>budget.ts\<close>. A thrown error is a value of \<open>config_error\<close>.
\<close>

datatype config_error =
    NotAnObject
  | UnsupportedField string
  | BadInteger string
  | BadTierArray
  | TierNotAscending nat
  | TierBelow nat price_key

section \<open>Validators\<close>

definition cfg_object :: "json option \<Rightarrow> (config_error, jobject) result" where
  "cfg_object v = (case v of Some (JObj ob) \<Rightarrow> Inr ob | _ \<Rightarrow> Inl NotAnObject)"

fun exact_keys :: "string list \<Rightarrow> jobject \<Rightarrow> (config_error, unit) result" where
  "exact_keys allowed [] = Inr ()"
| "exact_keys allowed ((k, v) # ob) = (if k \<in> set allowed then exact_keys allowed ob else Inl (UnsupportedField k))"

definition cfg_integer :: "json option \<Rightarrow> string \<Rightarrow> int \<Rightarrow> int \<Rightarrow> (config_error, int) result" where
  "cfg_integer v label lo hi =
     (case v of None \<Rightarrow> Inl (BadInteger label)
      | Some j \<Rightarrow> (case as_safe_integer j of None \<Rightarrow> Inl (BadInteger label)
          | Some n \<Rightarrow> if n < lo \<or> n > hi then Inl (BadInteger label) else Inr n))"

definition cfg_price :: "json option \<Rightarrow> string \<Rightarrow> (config_error, int) result" where
  "cfg_price v label = cfg_integer v label 0 max_safe"

definition cfg_optional_price :: "json option \<Rightarrow> string \<Rightarrow> (config_error, int option) result" where
  "cfg_optional_price v label =
     (if present v then ebind (cfg_price v label) (\<lambda>n. Inr (Some n)) else Inr None)"

definition input_key :: string where "input_key = ''inputMicrosPerMillionTokens''"
definition output_key :: string where "output_key = ''outputMicrosPerMillionTokens''"
definition read_key :: string where "read_key = ''cacheReadMicrosPerMillionTokens''"
definition write_key :: string where "write_key = ''cacheWriteMicrosPerMillionTokens''"
definition from_key :: string where "from_key = ''minPromptTokens''"
definition tiers_key :: string where "tiers_key = ''tiers''"

lemmas pricing_key_defs = input_key_def output_key_def read_key_def write_key_def from_key_def tiers_key_def

definition pricing_keys :: "string list" where
  "pricing_keys = [input_key, output_key, read_key, write_key, tiers_key]"

definition tier_keys :: "string list" where
  "tier_keys = [from_key, input_key, output_key, read_key, write_key]"

definition max_price_tiers :: nat where
  "max_price_tiers = 4"

section \<open>parsePricing\<close>

text \<open>\<open>ProfilePricing\<close>: an absent cache price stays absent; an empty or absent tier list is flat pricing.\<close>

record profile_pricing =
  base_input :: int
  base_output :: int
  base_read :: "int option"
  base_write :: "int option"
  price_tiers :: "price_tier list"

definition cfg_base_price :: "jobject \<Rightarrow> int option \<Rightarrow> string \<Rightarrow> (config_error, int) result" where
  "cfg_base_price ob base_default key =
     (case (field ob key, base_default) of
        (None, Some d) \<Rightarrow> Inr d
      | (v, _) \<Rightarrow> cfg_price v key)"

definition first_key_below :: "price_tier \<Rightarrow> token_prices \<Rightarrow> price_key option" where
  "first_key_below t below = List.find (\<lambda>k. price_of k t < price_of k below) price_keys"

text \<open>One pass of the tier loop: the tier read from element \<open>index\<close>, checked against the level below.\<close>

definition parse_tier :: "bool \<Rightarrow> nat \<Rightarrow> int \<Rightarrow> token_prices \<Rightarrow> json \<Rightarrow> (config_error, price_tier) result" where
  "parse_tier strict index prev below raw_value =
     ebind (cfg_object (Some raw_value)) (\<lambda>raw.
     ebind (if strict then exact_keys tier_keys raw else Inr ()) (\<lambda>_.
     ebind (cfg_price (field raw input_key) input_key) (\<lambda>tier_input.
     ebind (cfg_integer (field raw from_key) from_key 1 10000000) (\<lambda>threshold.
     ebind (cfg_price (field raw output_key) output_key) (\<lambda>tier_output.
     ebind (cfg_optional_price (field raw read_key) read_key) (\<lambda>tier_read.
     ebind (cfg_optional_price (field raw write_key) write_key) (\<lambda>tier_write.
       let tier = \<lparr>input_price = tier_input, output_price = tier_output,
             read_price = (case tier_read of Some n \<Rightarrow> n | None \<Rightarrow> tier_input),
             write_price = (case tier_write of Some n \<Rightarrow> n | None \<Rightarrow> tier_input),
             tier_from = threshold\<rparr>
       in if threshold \<le> prev then Inl (TierNotAscending index)
          else case first_key_below tier below of
                 Some k \<Rightarrow> Inl (TierBelow index k)
               | None \<Rightarrow> Inr tier)))))))"

fun parse_tiers :: "bool \<Rightarrow> nat \<Rightarrow> int \<Rightarrow> token_prices \<Rightarrow> json list \<Rightarrow> (config_error, price_tier list) result" where
  "parse_tiers strict index prev below [] = Inr []"
| "parse_tiers strict index prev below (v # vs) =
     ebind (parse_tier strict index prev below v) (\<lambda>tier.
     ebind (parse_tiers strict (Suc index) (tier_from tier) (token_prices.truncate tier) vs) (\<lambda>tiers.
       Inr (tier # tiers)))"

definition base_prices :: "profile_pricing \<Rightarrow> token_prices" where
  "base_prices p = \<lparr>input_price = base_input p, output_price = base_output p,
     read_price = (case base_read p of Some n \<Rightarrow> n | None \<Rightarrow> base_input p),
     write_price = (case base_write p of Some n \<Rightarrow> n | None \<Rightarrow> base_input p)\<rparr>"

definition parse_pricing :: "json option \<Rightarrow> bool \<Rightarrow> int option \<Rightarrow> (config_error, profile_pricing) result" where
  "parse_pricing value strict base_default =
     ebind (cfg_object value) (\<lambda>pricing.
     ebind (if strict then exact_keys pricing_keys pricing else Inr ()) (\<lambda>_.
     ebind (cfg_base_price pricing base_default input_key) (\<lambda>input.
     ebind (cfg_base_price pricing base_default output_key) (\<lambda>output.
     ebind (cfg_optional_price (field pricing read_key) read_key) (\<lambda>cache_read.
     ebind (cfg_optional_price (field pricing write_key) write_key) (\<lambda>cache_write.
       let result = \<lparr>base_input = input, base_output = output, base_read = cache_read,
             base_write = cache_write, price_tiers = []\<rparr>
       in if \<not> present (field pricing tiers_key) then Inr result
          else case field pricing tiers_key of
            Some (JArr raw_tiers) \<Rightarrow>
              if length raw_tiers > max_price_tiers then Inl BadTierArray
              else ebind (parse_tiers strict 0 0 (base_prices result) raw_tiers)
                     (\<lambda>tiers. Inr (result\<lparr>price_tiers := tiers\<rparr>))
          | _ \<Rightarrow> Inl BadTierArray))))))"

section \<open>Prices for a prompt\<close>

text \<open>\<open>pricesForPrompt\<close>: the loop over the ascending tiers stops at the first threshold above the prompt.\<close>

fun tier_prices_from :: "token_prices \<Rightarrow> price_tier list \<Rightarrow> int \<Rightarrow> token_prices" where
  "tier_prices_from prices [] n = prices"
| "tier_prices_from prices (t # ts) n =
     (if tier_from t > n then prices else tier_prices_from (token_prices.truncate t) ts n)"

definition prices_for_prompt :: "profile_pricing \<Rightarrow> int \<Rightarrow> token_prices" where
  "prices_for_prompt p n = tier_prices_from (base_prices p) (price_tiers p) n"

section \<open>What validation guarantees\<close>

definition level_ok :: "('a) token_prices_scheme \<Rightarrow> bool" where
  "level_ok p = (price_in_range (input_price p) \<and> price_in_range (output_price p)
     \<and> price_in_range (read_price p) \<and> price_in_range (write_price p))"

lemma level_ok_iff: "level_ok p \<longleftrightarrow> (\<forall>k. price_in_range (price_of k p))"
proof
  assume "level_ok p"
  then have "price_in_range (price_of k p)" for k
    by (cases k) (simp_all add: level_ok_def)
  then show "\<forall>k. price_in_range (price_of k p)" by blast
next
  assume "\<forall>k. price_in_range (price_of k p)"
  then have "price_in_range (price_of k p)" for k by blast
  from this [of KInput] this [of KOutput] this [of KRead] this [of KWrite]
  show "level_ok p" by (simp add: level_ok_def)
qed

lemma level_ok_truncate [simp]: "level_ok (token_prices.truncate p) = level_ok p"
  by (simp add: level_ok_def)

definition pricing_valid :: "profile_pricing \<Rightarrow> bool" where
  "pricing_valid p = (level_ok (base_prices p) \<and> list_all level_ok (price_tiers p)
     \<and> tiers_ordered 0 (base_prices p) (price_tiers p) \<and> length (price_tiers p) \<le> max_price_tiers)"

lemma cfg_integer_Inr_iff:
  "cfg_integer v label lo hi = Inr n \<longleftrightarrow> (\<exists>j. v = Some j \<and> as_safe_integer j = Some n \<and> lo \<le> n \<and> n \<le> hi)"
  by (auto simp: cfg_integer_def split: option.splits)

lemma cfg_price_Inr: "cfg_price v label = Inr n \<Longrightarrow> price_in_range n"
  by (auto simp: cfg_price_def cfg_integer_Inr_iff price_in_range_def)

lemma cfg_optional_price_Inr: "cfg_optional_price v label = Inr (Some n) \<Longrightarrow> price_in_range n"
  by (auto simp: cfg_optional_price_def guard_simps cfg_price_Inr split: if_splits)

lemma first_key_below_None: "first_key_below t below = None \<longleftrightarrow> prices_le below t"
  by (auto simp: first_key_below_def find_None_iff prices_le_iff not_less)

lemma parse_tier_InrE:
  assumes "parse_tier strict i prev below v = Inr t"
  obtains raw inp thr out rd wr where
    "cfg_price (field raw input_key) input_key = Inr inp"
    "cfg_integer (field raw from_key) from_key 1 10000000 = Inr thr"
    "cfg_price (field raw output_key) output_key = Inr out"
    "cfg_optional_price (field raw read_key) read_key = Inr rd"
    "cfg_optional_price (field raw write_key) write_key = Inr wr"
    "t = \<lparr>input_price = inp, output_price = out,
       read_price = (case rd of Some n \<Rightarrow> n | None \<Rightarrow> inp),
       write_price = (case wr of Some n \<Rightarrow> n | None \<Rightarrow> inp), tier_from = thr\<rparr>"
    "prev < thr" "first_key_below t below = None"
proof -
  from assms obtain raw inp thr out rd wr where
    reads: "cfg_price (field raw input_key) input_key = Inr inp"
    "cfg_integer (field raw from_key) from_key 1 10000000 = Inr thr"
    "cfg_price (field raw output_key) output_key = Inr out"
    "cfg_optional_price (field raw read_key) read_key = Inr rd"
    "cfg_optional_price (field raw write_key) write_key = Inr wr"
    and final: "(let tier = \<lparr>input_price = inp, output_price = out,
             read_price = (case rd of Some n \<Rightarrow> n | None \<Rightarrow> inp),
             write_price = (case wr of Some n \<Rightarrow> n | None \<Rightarrow> inp),
             tier_from = thr\<rparr>
       in if thr \<le> prev then Inl (TierNotAscending i)
          else case first_key_below tier below of
                 Some k \<Rightarrow> Inl (TierBelow i k)
               | None \<Rightarrow> Inr tier) = Inr t"
    unfolding parse_tier_def ebind_Inr_iff by blast
  show thesis
    by (rule that [OF reads]) (use final in \<open>simp_all add: Let_def split: if_splits option.splits\<close>)
qed

lemma parse_tier_ok:
  assumes "parse_tier strict i prev below v = Inr t"
  shows "prev < tier_from t \<and> prices_le below t \<and> level_ok t"
  using assms
proof (rule parse_tier_InrE)
  fix raw inp thr out rd wr
  assume reads: "cfg_price (field raw input_key) input_key = Inr inp"
    "cfg_price (field raw output_key) output_key = Inr out"
    "cfg_optional_price (field raw read_key) read_key = Inr rd"
    "cfg_optional_price (field raw write_key) write_key = Inr wr"
    and t: "t = \<lparr>input_price = inp, output_price = out,
       read_price = (case rd of Some n \<Rightarrow> n | None \<Rightarrow> inp),
       write_price = (case wr of Some n \<Rightarrow> n | None \<Rightarrow> inp), tier_from = thr\<rparr>"
    and order: "prev < thr" "first_key_below t below = None"
  have "level_ok t"
    using reads t cfg_price_Inr cfg_optional_price_Inr
    by (auto simp: level_ok_def split: option.split)
  moreover have "tier_from t = thr"
    using t by simp
  ultimately show ?thesis
    using order by (simp add: first_key_below_None)
qed

lemma parse_tiers_ok:
  "parse_tiers strict i prev below vs = Inr ts \<Longrightarrow>
     tiers_ordered prev below ts \<and> list_all level_ok ts \<and> length ts = length vs"
proof (induction strict i prev below vs arbitrary: ts rule: parse_tiers.induct)
  case (1 strict i prev below)
  then show ?case by simp
next
  case (2 strict i prev below v vs)
  then show ?case
    by (auto simp: guard_simps dest: parse_tier_ok)
qed

lemma cfg_base_price_Inr:
  assumes "cfg_base_price ob d key = Inr n" and "\<And>m. d = Some m \<Longrightarrow> price_in_range m"
  shows "price_in_range n"
  using assms by (auto simp: cfg_base_price_def split: option.splits dest: cfg_price_Inr)

lemma base_prices_tiers [simp]: "base_prices (r\<lparr>price_tiers := ts\<rparr>) = base_prices r"
  by (simp add: base_prices_def split: option.split)

lemma parse_pricing_InrE:
  assumes "parse_pricing v strict d = Inr p"
  obtains ob inp outp rd wr ts where
    "cfg_base_price ob d input_key = Inr inp" "cfg_base_price ob d output_key = Inr outp"
    "cfg_optional_price (field ob read_key) read_key = Inr rd"
    "cfg_optional_price (field ob write_key) write_key = Inr wr"
    "p = \<lparr>base_input = inp, base_output = outp, base_read = rd, base_write = wr, price_tiers = ts\<rparr>"
    "ts = [] \<or> (\<exists>vs. length vs \<le> max_price_tiers \<and> parse_tiers strict 0 0 (base_prices p) vs = Inr ts)"
proof -
  from assms obtain ob inp outp rd wr where
    reads: "cfg_base_price ob d input_key = Inr inp" "cfg_base_price ob d output_key = Inr outp"
    "cfg_optional_price (field ob read_key) read_key = Inr rd"
    "cfg_optional_price (field ob write_key) write_key = Inr wr"
    and final: "(let result = \<lparr>base_input = inp, base_output = outp, base_read = rd,
             base_write = wr, price_tiers = []\<rparr>
       in if \<not> present (field ob tiers_key) then Inr result
          else case field ob tiers_key of
            Some (JArr raw_tiers) \<Rightarrow>
              if length raw_tiers > max_price_tiers then Inl BadTierArray
              else ebind (parse_tiers strict 0 0 (base_prices result) raw_tiers)
                     (\<lambda>tiers. Inr (result\<lparr>price_tiers := tiers\<rparr>))
          | _ \<Rightarrow> Inl BadTierArray) = Inr p"
    unfolding parse_pricing_def ebind_Inr_iff by blast
  show thesis
    by (rule that [OF reads, of "price_tiers p"])
      (use final in \<open>auto simp: Let_def guard_simps base_prices_def split: if_splits option.splits json.splits\<close>)
qed

lemma parse_pricing_valid:
  assumes "parse_pricing v strict d = Inr p" and d: "\<And>n. d = Some n \<Longrightarrow> price_in_range n"
  shows "pricing_valid p"
  using assms(1)
proof (rule parse_pricing_InrE)
  fix ob inp outp rd wr ts
  assume reads: "cfg_base_price ob d input_key = Inr inp" "cfg_base_price ob d output_key = Inr outp"
      "cfg_optional_price (field ob read_key) read_key = Inr rd"
      "cfg_optional_price (field ob write_key) write_key = Inr wr"
    and p: "p = \<lparr>base_input = inp, base_output = outp, base_read = rd, base_write = wr, price_tiers = ts\<rparr>"
    and ts: "ts = [] \<or> (\<exists>vs. length vs \<le> max_price_tiers \<and> parse_tiers strict 0 0 (base_prices p) vs = Inr ts)"
  have "level_ok (base_prices p)"
    using reads p cfg_base_price_Inr d cfg_optional_price_Inr
    by (auto simp: level_ok_def base_prices_def split: option.split)
  moreover have "list_all level_ok ts \<and> tiers_ordered 0 (base_prices p) ts \<and> length ts \<le> max_price_tiers"
    using ts parse_tiers_ok by fastforce
  moreover have "price_tiers p = ts" using p by simp
  ultimately show ?thesis by (simp add: pricing_valid_def)
qed

section \<open>The pricing the runner exports\<close>

text \<open>
  The object \<open>resolveEffectivePricing\<close> builds, as it is serialized into the control snapshot: an
  empty tier list is not written.
\<close>

definition tier_json :: "price_tier \<Rightarrow> json" where
  "tier_json t = JObj [(from_key, JInt (tier_from t)), (input_key, JInt (input_price t)),
     (output_key, JInt (output_price t)), (read_key, JInt (read_price t)), (write_key, JInt (write_price t))]"

definition effective_pricing_json :: "effective_pricing \<Rightarrow> json" where
  "effective_pricing_json e = JObj ([(input_key, JInt (input_price e)), (output_key, JInt (output_price e)),
       (read_key, JInt (read_price e)), (write_key, JInt (write_price e))]
     @ (if eff_tiers e = [] then [] else [(tiers_key, JArr (map tier_json (eff_tiers e)))]))"

definition profile_pricing_of :: "effective_pricing \<Rightarrow> profile_pricing" where
  "profile_pricing_of e = \<lparr>base_input = input_price e, base_output = output_price e,
     base_read = Some (read_price e), base_write = Some (write_price e), price_tiers = eff_tiers e\<rparr>"

lemma pricing_keys_distinct [simp]:
  "input_key \<noteq> output_key" "input_key \<noteq> read_key" "input_key \<noteq> write_key" "input_key \<noteq> from_key"
  "input_key \<noteq> tiers_key" "output_key \<noteq> read_key" "output_key \<noteq> write_key" "output_key \<noteq> from_key"
  "output_key \<noteq> tiers_key" "read_key \<noteq> write_key" "read_key \<noteq> from_key" "read_key \<noteq> tiers_key"
  "write_key \<noteq> from_key" "write_key \<noteq> tiers_key" "from_key \<noteq> tiers_key"
  by (simp_all add: pricing_key_defs)

lemmas pricing_keys_distinct' [simp] = pricing_keys_distinct [symmetric]

lemma cfg_price_JInt: "price_in_range n \<Longrightarrow> cfg_price (Some (JInt n)) label = Inr n"
  by (simp add: cfg_price_def cfg_integer_def price_in_range_def is_safe_def)

lemma cfg_optional_price_JInt: "price_in_range n \<Longrightarrow> cfg_optional_price (Some (JInt n)) label = Inr (Some n)"
  by (simp add: cfg_optional_price_def present_def cfg_price_JInt)

lemma parse_tier_json:
  assumes "level_ok t" "prev < tier_from t" "1 \<le> tier_from t" "tier_from t \<le> 10000000" "prices_le below t"
  shows "parse_tier False i prev below (tier_json t) = Inr t"
proof -
  have safe: "is_safe (tier_from t)"
    using assms(3,4) by (simp add: is_safe_def max_safe_def)
  have "first_key_below t below = None"
    using assms(5) by (simp add: first_key_below_None)
  with assms safe show ?thesis
    by (cases t) (simp add: parse_tier_def tier_json_def cfg_object_def field_Cons cfg_price_JInt
        cfg_optional_price_JInt level_ok_def cfg_integer_def Let_def)
qed

lemma parse_tiers_json:
  assumes "list_all level_ok ts" "tiers_ordered prev below ts" "list_all (\<lambda>t. tier_from t \<le> 10000000) ts"
    "0 \<le> prev"
  shows "parse_tiers False i prev below (map tier_json ts) = Inr ts"
  using assms
proof (induction ts arbitrary: i prev below)
  case Nil
  then show ?case by simp
next
  case (Cons t ts)
  then have "parse_tier False i prev below (tier_json t) = Inr t"
    by (intro parse_tier_json) auto
  with Cons show ?case by simp
qed

lemma parse_effective_pricing:
  assumes "level_ok e" "list_all level_ok (eff_tiers e)" "tiers_ordered 0 (token_prices.truncate e) (eff_tiers e)"
    "list_all (\<lambda>t. tier_from t \<le> 10000000) (eff_tiers e)" "length (eff_tiers e) \<le> max_price_tiers"
  shows "parse_pricing (Some (effective_pricing_json e)) False (Some 0) = Inr (profile_pricing_of e)"
proof -
  have base: "base_prices \<lparr>base_input = input_price e, base_output = output_price e,
      base_read = Some (read_price e), base_write = Some (write_price e), price_tiers = []\<rparr>
      = token_prices.truncate e"
    by (simp add: base_prices_def token_prices.truncate_def)
  have "parse_tiers False 0 0 (token_prices.truncate e) (map tier_json (eff_tiers e)) = Inr (eff_tiers e)"
    using assms by (intro parse_tiers_json) auto
  with assms(1,5) base show ?thesis
    by (auto simp: parse_pricing_def effective_pricing_json_def cfg_object_def cfg_base_price_def field_Cons
        cfg_price_JInt cfg_optional_price_JInt level_ok_def Let_def present_def profile_pricing_of_def)
qed

lemma effective_pricing_ok:
  assumes "pricing_schema_ok p" and e_def: "e = resolve_effective_pricing p basis"
  shows "level_ok e" "list_all level_ok (eff_tiers e)" "tiers_ordered 0 (token_prices.truncate e) (eff_tiers e)"
    "list_all (\<lambda>t. tier_from t \<le> 10000000) (eff_tiers e)" "length (eff_tiers e) \<le> max_price_tiers"
proof -
  let ?bw = "bills_cache_writes basis"
  let ?base = "resolve_level p ?bw"
  let ?ts = "map (\<lambda>t. with_from (pin_from t) (resolve_level t ?bw)) (pin_tiers p)"
  have e: "e = token_prices.extend ?base \<lparr>eff_tiers = raise_tiers ?base ?ts\<rparr>"
    by (simp add: e_def resolve_effective_pricing_def resolve_levels_def Let_def)
  have tiers: "eff_tiers e = raise_tiers ?base ?ts" and trunc: "token_prices.truncate e = ?base"
    by (simp_all add: e token_prices.extend_def token_prices.truncate_def)
  have schema: "level_in_range p" "list_all tier_in_range (pin_tiers p)" "length (pin_tiers p) \<le> max_tiers"
    "add_price_tier_issues 0 0 (pinned_level.truncate p) (pin_tiers p) = []"
    using assms(1) by (simp_all add: pricing_schema_ok_def)
  have base_ok: "price_in_range (price_of k ?base)" for k
    using schema(1) by (rule resolve_level_in_range)
  then show "level_ok e"
    by (metis level_ok_iff level_ok_truncate trunc)
  have from_ok: "map tier_from ?ts = map pin_from (pin_tiers p)"
    by simp
  have price_with: "price_of k (with_from n l) = price_of k l" for k n l
    by (cases k) simp_all
  have level: "price_in_range (price_of k (resolve_level u ?bw))" if "u \<in> set (pin_tiers p)" for u k
    by (rule resolve_level_in_range) (use that schema(2) in \<open>auto simp: list_all_iff tier_in_range_def\<close>)
  have resolved: "price_in_range (price_of k t)" if "t \<in> set ?ts" for t k
    using that level by (auto simp: price_with)
  have "level_ok u" if "u \<in> set (raise_tiers ?base ?ts)" for u
    unfolding level_ok_iff using raise_tiers_in_range [OF base_ok resolved that] by blast
  then show "list_all level_ok (eff_tiers e)"
    by (simp add: list_all_iff tiers)
  show "tiers_ordered 0 (token_prices.truncate e) (eff_tiers e)"
    unfolding trunc tiers
    by (rule raise_tiers_ordered) (use add_price_tier_issues_ascending [OF schema(4)] in \<open>simp add: comp_def\<close>)
  have "map tier_from (eff_tiers e) = map pin_from (pin_tiers p)"
    by (simp only: tiers raise_tiers_from from_ok)
  then show "list_all (\<lambda>t. tier_from t \<le> 10000000) (eff_tiers e)"
    using schema(2)
    by (metis (no_types, lifting) length_map list_all_length max_tier_from_def nth_map tier_in_range_def)
  show "length (eff_tiers e) \<le> max_price_tiers"
    using schema(3) by (simp add: tiers max_tiers_def max_price_tiers_def)
qed

end
