(* ===== verification/UsageNormalizer.thy ===== *)
theory UsageNormalizer
  imports Json "HOL-Library.Log_Nat"
begin

text \<open>
  \<open>apps/model-gateway/src/usage-normalizer.ts\<close>: one shape for the token usage OpenAI-compatible
  providers report. Where a report is ambiguous every reading is kept, and the caller charges the
  most expensive one. A malformed report is no report (\<open>None\<close>), so the request settles at its
  reservation.
\<close>

record prompt_split =
  sp_prompt :: int
  sp_uncached :: int
  sp_read :: int
  sp_write :: int

record normalized_usage =
  nu_prompt :: "prompt_split list"
  nu_output :: int
  nu_reasoning :: int
  nu_provider_cost :: "int option"

section \<open>Fields\<close>

text \<open>\<open>Field\<close>: absent, a clamped count, or the \<open>INVALID\<close> symbol.\<close>

datatype count_field = Absent | Count int | Invalid

definition max_reported_tokens :: int where
  "max_reported_tokens = 1000000000"

text \<open>\<open>record\<close>: a plain object, not an array.\<close>

definition as_record :: "json option \<Rightarrow> jobject option" where
  "as_record v = (case v of Some (JObj ob) \<Rightarrow> Some ob | _ \<Rightarrow> None)"

definition count :: "json option \<Rightarrow> count_field" where
  "count v = (case v of None \<Rightarrow> Absent | Some JNull \<Rightarrow> Absent
     | Some j \<Rightarrow> (case as_integer j of
         Some n \<Rightarrow> if 0 \<le> n then Count (min n max_reported_tokens) else Invalid
       | None \<Rightarrow> Invalid))"

definition larger :: "int option \<Rightarrow> int option \<Rightarrow> int option" where
  "larger a b = (case (a, b) of (None, _) \<Rightarrow> b | (_, None) \<Rightarrow> a | (Some x, Some y) \<Rightarrow> Some (max x y))"

definition nested :: "jobject \<Rightarrow> string \<Rightarrow> string \<Rightarrow> count_field" where
  "nested container details_key key = (case field container details_key of
     None \<Rightarrow> Absent | Some JNull \<Rightarrow> Absent
   | Some (JObj details) \<Rightarrow> count (field details key)
   | Some _ \<Rightarrow> Invalid)"

text \<open>\<open>usageRecord\<close>: top-level \<open>usage\<close>, else \<open>response.usage\<close>.\<close>

definition usage_record :: "json \<Rightarrow> jobject option" where
  "usage_record event = (case as_record (Some event) of None \<Rightarrow> None
     | Some ob \<Rightarrow> (case as_record (field ob ''usage'') of
         Some u \<Rightarrow> Some u
       | None \<Rightarrow> (case as_record (field ob ''response'') of
           Some resp \<Rightarrow> as_record (field resp ''usage'')
         | None \<Rightarrow> None)))"

definition carries_usage :: "json \<Rightarrow> bool" where
  "carries_usage event = (usage_record event \<noteq> None)"

definition inclusive_or_additive :: "int \<Rightarrow> int \<Rightarrow> int \<Rightarrow> prompt_split" where
  "inclusive_or_additive prompt read write =
     (if read + write \<le> prompt
      then \<lparr>sp_prompt = prompt, sp_uncached = prompt - read - write, sp_read = read, sp_write = write\<rparr>
      else \<lparr>sp_prompt = prompt + read + write, sp_uncached = prompt, sp_read = read, sp_write = write\<rparr>)"

section \<open>The provider's own cost\<close>

text \<open>
  Multiplication and division of doubles round to the nearest double, ties to even: 53 significant
  bits. Only non-negative values occur here. Overflow to infinity and the subnormal range are left
  out, because both end in the value the exact figure ends in: a product that overflows is cut to
  \<open>MAX_SAFE_INTEGER\<close>, and a subnormal product rounds to 0 picodollars.
\<close>

definition pow2 :: "int \<Rightarrow> rat" where
  "pow2 k = (if 0 \<le> k then 2 ^ nat k else 1 / 2 ^ nat (- k))"

definition round_half_even :: "rat \<Rightarrow> int" where
  "round_half_even x = (let f = \<lfloor>x\<rfloor>; d = x - of_int f in
     if d < 1 / 2 then f else if 1 / 2 < d then f + 1 else if even f then f else f + 1)"

definition to_double :: "rat \<Rightarrow> rat" where
  "to_double x = (if x \<le> 0 then 0 else
     let (p, q) = quotient_of x;
         k0 = bitlen p - bitlen q;
         e = (if pow2 k0 \<le> x then k0 else k0 - 1);
         ulp = pow2 (e - 52)
     in of_int (round_half_even (x / ulp)) * ulp)"

text \<open>\<open>Math.min(Math.ceil(Math.round(cost * 1e12) / 1e6), MAX_SAFE_INTEGER)\<close>; \<open>Math.round\<close> is half up.\<close>

definition provider_cost_micros :: "rat \<Rightarrow> int" where
  "provider_cost_micros cost =
     min \<lceil>to_double (of_int \<lfloor>to_double (cost * 10 ^ 12) + 1 / 2\<rfloor> / 10 ^ 6)\<rceil> max_safe"

definition provider_cost :: "json option \<Rightarrow> int option option" where
  "provider_cost v = (if \<not> present v then Some None else
     case v of Some (JNum (Fin c)) \<Rightarrow> if c < 0 then None else Some (Some (provider_cost_micros c))
     | _ \<Rightarrow> None)"

section \<open>normalizeProviderUsage\<close>

definition count_value :: "count_field \<Rightarrow> int option" where
  "count_value f = (case f of Count n \<Rightarrow> Some n | _ \<Rightarrow> None)"

definition or_zero :: "int option \<Rightarrow> int" where
  "or_zero v = (case v of Some n \<Rightarrow> n | None \<Rightarrow> 0)"

record usage_fields =
  f_prompt :: count_field
  f_input :: count_field
  f_completion :: count_field
  f_output :: count_field
  f_total :: count_field
  f_chat_cached :: count_field
  f_chat_cache_write :: count_field
  f_deepseek_hit :: count_field
  f_responses_cached :: count_field
  f_anthropic_read :: count_field
  f_anthropic_write :: count_field
  f_chat_reasoning :: count_field
  f_responses_reasoning :: count_field

definition usage_fields_of :: "jobject \<Rightarrow> usage_fields" where
  "usage_fields_of u = \<lparr>
     f_prompt = count (field u ''prompt_tokens''),
     f_input = count (field u ''input_tokens''),
     f_completion = count (field u ''completion_tokens''),
     f_output = count (field u ''output_tokens''),
     f_total = count (field u ''total_tokens''),
     f_chat_cached = nested u ''prompt_tokens_details'' ''cached_tokens'',
     f_chat_cache_write = nested u ''prompt_tokens_details'' ''cache_write_tokens'',
     f_deepseek_hit = count (field u ''prompt_cache_hit_tokens''),
     f_responses_cached = nested u ''input_tokens_details'' ''cached_tokens'',
     f_anthropic_read = count (field u ''cache_read_input_tokens''),
     f_anthropic_write = count (field u ''cache_creation_input_tokens''),
     f_chat_reasoning = nested u ''completion_tokens_details'' ''reasoning_tokens'',
     f_responses_reasoning = nested u ''output_tokens_details'' ''reasoning_tokens''\<rparr>"

definition all_fields :: "usage_fields \<Rightarrow> count_field list" where
  "all_fields f = [f_prompt f, f_input f, f_completion f, f_output f, f_total f, f_chat_cached f,
     f_chat_cache_write f, f_deepseek_hit f, f_responses_cached f, f_anthropic_read f,
     f_anthropic_write f, f_chat_reasoning f, f_responses_reasoning f]"

text \<open>The prompt readings, from the reported prompt and the cache counts.\<close>

definition prompt_readings :: "bool \<Rightarrow> bool \<Rightarrow> int \<Rightarrow> int \<Rightarrow> int \<Rightarrow> prompt_split list" where
  "prompt_readings anthropic_names has_prompt_tokens prompt read write =
     (let additive = \<lparr>sp_prompt = prompt + read + write, sp_uncached = prompt, sp_read = read, sp_write = write\<rparr>;
          primary = inclusive_or_additive prompt read write
      in if anthropic_names \<and> \<not> has_prompt_tokens then [additive]
         else if anthropic_names then [primary, additive] else [primary])"

definition output_total :: "int \<Rightarrow> int \<Rightarrow> int option \<Rightarrow> int \<Rightarrow> int" where
  "output_total reported_output reasoning tot reported_prompt =
     (let out = (if reasoning > reported_output then reported_output + reasoning else reported_output)
      in case tot of Some t \<Rightarrow> max out (t - reported_prompt) | None \<Rightarrow> out)"

definition normalize_fields :: "usage_fields \<Rightarrow> int option \<Rightarrow> normalized_usage option" where
  "normalize_fields f cost =
     (let v = (\<lambda>sel. count_value (sel f));
          reported_prompt = larger (v f_prompt) (v f_input);
          reported_output = larger (v f_completion) (v f_output);
          anthropic_names = (v f_anthropic_read \<noteq> None \<or> v f_anthropic_write \<noteq> None)
      in case (reported_prompt, reported_output) of
           (Some prompt, Some outp) \<Rightarrow>
             (let cached = (case larger (v f_chat_cached) (v f_responses_cached) of
                    Some n \<Rightarrow> n | None \<Rightarrow> or_zero (v f_deepseek_hit));
                  read = max cached (or_zero (v f_anthropic_read));
                  write = max (or_zero (v f_chat_cache_write)) (or_zero (v f_anthropic_write));
                  reasoning = or_zero (larger (v f_chat_reasoning) (v f_responses_reasoning))
              in Some \<lparr>nu_prompt = prompt_readings anthropic_names (v f_prompt \<noteq> None) prompt read write,
                    nu_output = output_total outp reasoning (v f_total) prompt,
                    nu_reasoning = reasoning,
                    nu_provider_cost = cost\<rparr>)
         | _ \<Rightarrow> None)"

definition normalize_provider_usage :: "json \<Rightarrow> normalized_usage option" where
  "normalize_provider_usage event = (case usage_record event of None \<Rightarrow> None
     | Some u \<Rightarrow> (let f = usage_fields_of u in
         if Invalid \<in> set (all_fields f) then None
         else case provider_cost (field u ''cost'') of
             None \<Rightarrow> None
           | Some cost \<Rightarrow> normalize_fields f cost))"

section \<open>Well-formed readings\<close>

definition split_ok :: "prompt_split \<Rightarrow> bool" where
  "split_ok s = (0 \<le> sp_uncached s \<and> 0 \<le> sp_read s \<and> 0 \<le> sp_write s
     \<and> sp_prompt s = sp_uncached s + sp_read s + sp_write s \<and> sp_prompt s \<le> 3 * max_reported_tokens)"

definition usage_ok :: "normalized_usage \<Rightarrow> bool" where
  "usage_ok n = (nu_prompt n \<noteq> [] \<and> (\<forall>s \<in> set (nu_prompt n). split_ok s)
     \<and> 0 \<le> nu_reasoning n \<and> nu_reasoning n \<le> nu_output n \<and> nu_output n \<le> 2 * max_reported_tokens
     \<and> (\<forall>c. nu_provider_cost n = Some c \<longrightarrow> c \<le> max_safe))"

definition count_ok :: "count_field \<Rightarrow> bool" where
  "count_ok f = (\<forall>n. f = Count n \<longrightarrow> 0 \<le> n \<and> n \<le> max_reported_tokens)"

lemma count_count_ok: "count_ok (count v)"
  by (auto simp: count_ok_def count_def max_reported_tokens_def
      split: option.splits json.splits if_splits)

lemma nested_count_ok: "count_ok (nested u d k)"
  using count_count_ok
  by (auto simp: nested_def count_ok_def split: option.splits json.splits)

lemma count_value_Some: "count_value f = Some n \<Longrightarrow> f = Count n"
  by (auto simp: count_value_def split: count_field.splits)

definition range_ok :: "int option \<Rightarrow> bool" where
  "range_ok v = (\<forall>n. v = Some n \<longrightarrow> 0 \<le> n \<and> n \<le> max_reported_tokens)"

lemma range_ok_value: "count_ok f \<Longrightarrow> range_ok (count_value f)"
  by (auto simp: count_ok_def range_ok_def dest: count_value_Some)

lemma range_ok_larger: "range_ok a \<Longrightarrow> range_ok b \<Longrightarrow> range_ok (larger a b)"
  by (auto simp: range_ok_def larger_def split: option.splits)

lemma range_ok_zero: "range_ok v \<Longrightarrow> 0 \<le> or_zero v \<and> or_zero v \<le> max_reported_tokens"
  by (auto simp: range_ok_def or_zero_def max_reported_tokens_def split: option.splits)

lemma larger_None [simp]: "larger a b = None \<longleftrightarrow> a = None \<and> b = None"
  by (auto simp: larger_def split: option.splits)

lemma prompt_readings_ok:
  assumes "0 \<le> p" "p \<le> max_reported_tokens" "0 \<le> r" "r \<le> max_reported_tokens"
    "0 \<le> w" "w \<le> max_reported_tokens" "s \<in> set (prompt_readings a h p r w)"
  shows "split_ok s \<and> p \<le> sp_prompt s"
  using assms
  by (auto simp: prompt_readings_def inclusive_or_additive_def split_ok_def Let_def split: if_splits)

lemma prompt_readings_not_Nil [simp]: "prompt_readings a h p r w \<noteq> []"
  by (simp add: prompt_readings_def Let_def)

lemma output_total_bounds:
  assumes "0 \<le> outp" "outp \<le> max_reported_tokens" "0 \<le> rs" "rs \<le> max_reported_tokens" "0 \<le> p"
    "range_ok tot"
  shows "rs \<le> output_total outp rs tot p" "outp \<le> output_total outp rs tot p"
    "output_total outp rs tot p \<le> 2 * max_reported_tokens"
    "tot = Some t \<Longrightarrow> t \<le> p + output_total outp rs tot p"
  using assms by (auto simp: output_total_def range_ok_def Let_def split: option.splits)

lemma all_fields_count_ok: "\<forall>f \<in> set (all_fields (usage_fields_of u)). count_ok f"
  by (simp add: all_fields_def usage_fields_of_def count_count_ok nested_count_ok)

lemma normalize_fields_SomeE:
  assumes "normalize_fields f cost = Some n"
  obtains prompt outp cached where
    "larger (count_value (f_prompt f)) (count_value (f_input f)) = Some prompt"
    "larger (count_value (f_completion f)) (count_value (f_output f)) = Some outp"
    "cached = (case larger (count_value (f_chat_cached f)) (count_value (f_responses_cached f)) of
       Some m \<Rightarrow> m | None \<Rightarrow> or_zero (count_value (f_deepseek_hit f)))"
    "nu_prompt n = prompt_readings
       (count_value (f_anthropic_read f) \<noteq> None \<or> count_value (f_anthropic_write f) \<noteq> None)
       (count_value (f_prompt f) \<noteq> None) prompt
       (max cached (or_zero (count_value (f_anthropic_read f))))
       (max (or_zero (count_value (f_chat_cache_write f))) (or_zero (count_value (f_anthropic_write f))))"
    "nu_reasoning n = or_zero (larger (count_value (f_chat_reasoning f)) (count_value (f_responses_reasoning f)))"
    "nu_output n = output_total outp (nu_reasoning n) (count_value (f_total f)) prompt"
    "nu_provider_cost n = cost"
proof -
  from assms obtain prompt outp where
    "larger (count_value (f_prompt f)) (count_value (f_input f)) = Some prompt"
    "larger (count_value (f_completion f)) (count_value (f_output f)) = Some outp"
    unfolding normalize_fields_def Let_def by (simp split: option.splits)
  with assms show thesis
    by (intro that [OF _ _ refl]) (auto simp: normalize_fields_def Let_def)
qed

lemma range_ok_SomeD: "range_ok v \<Longrightarrow> v = Some n \<Longrightarrow> 0 \<le> n \<and> n \<le> max_reported_tokens"
  by (simp add: range_ok_def)

lemma normalize_fields_ok:
  assumes n: "normalize_fields f cost = Some n"
    and fields: "\<forall>x \<in> set (all_fields f). count_ok x"
    and cost: "\<And>c. cost = Some c \<Longrightarrow> c \<le> max_safe"
  shows "usage_ok n \<and> (\<forall>s \<in> set (nu_prompt n). \<forall>t. f_total f = Count t \<longrightarrow> t \<le> sp_prompt s + nu_output n)"
  using n
proof (rule normalize_fields_SomeE)
  fix prompt outp cached
  assume prompt: "larger (count_value (f_prompt f)) (count_value (f_input f)) = Some prompt"
    and outp: "larger (count_value (f_completion f)) (count_value (f_output f)) = Some outp"
    and cached: "cached = (case larger (count_value (f_chat_cached f)) (count_value (f_responses_cached f)) of
       Some m \<Rightarrow> m | None \<Rightarrow> or_zero (count_value (f_deepseek_hit f)))"
    and readings: "nu_prompt n = prompt_readings
       (count_value (f_anthropic_read f) \<noteq> None \<or> count_value (f_anthropic_write f) \<noteq> None)
       (count_value (f_prompt f) \<noteq> None) prompt
       (max cached (or_zero (count_value (f_anthropic_read f))))
       (max (or_zero (count_value (f_chat_cache_write f))) (or_zero (count_value (f_anthropic_write f))))"
    and reasoning: "nu_reasoning n = or_zero (larger (count_value (f_chat_reasoning f)) (count_value (f_responses_reasoning f)))"
    and out: "nu_output n = output_total outp (nu_reasoning n) (count_value (f_total f)) prompt"
    and nc: "nu_provider_cost n = cost"
  have rng: "range_ok (count_value (sel f))"
    if "sel \<in> {f_prompt, f_input, f_completion, f_output, f_total, f_chat_cached, f_chat_cache_write,
      f_deepseek_hit, f_responses_cached, f_anthropic_read, f_anthropic_write, f_chat_reasoning,
      f_responses_reasoning}" for sel
    using that fields by (auto simp: all_fields_def intro!: range_ok_value)
  have p: "0 \<le> prompt \<and> prompt \<le> max_reported_tokens"
    by (rule range_ok_SomeD [OF range_ok_larger prompt]) (simp_all add: rng)
  have ob: "0 \<le> outp \<and> outp \<le> max_reported_tokens"
    by (rule range_ok_SomeD [OF range_ok_larger outp]) (simp_all add: rng)
  have r: "0 \<le> nu_reasoning n \<and> nu_reasoning n \<le> max_reported_tokens"
    unfolding reasoning by (rule range_ok_zero, rule range_ok_larger) (simp_all add: rng)
  have "range_ok (larger (count_value (f_chat_cached f)) (count_value (f_responses_cached f)))"
    by (rule range_ok_larger) (simp_all add: rng)
  moreover have zero: "0 \<le> or_zero (count_value (sel f)) \<and> or_zero (count_value (sel f)) \<le> max_reported_tokens"
    if "sel \<in> {f_deepseek_hit, f_anthropic_read, f_anthropic_write, f_chat_cache_write}" for sel
    using that by (intro range_ok_zero rng) auto
  ultimately have c: "0 \<le> cached \<and> cached \<le> max_reported_tokens"
    using zero [of f_deepseek_hit] by (auto simp: cached range_ok_def split: option.splits)
  have splits: "split_ok s \<and> prompt \<le> sp_prompt s" if "s \<in> set (nu_prompt n)" for s
    using that c zero [of f_anthropic_read] zero [of f_anthropic_write] zero [of f_chat_cache_write] p
    unfolding readings by (intro prompt_readings_ok) auto
  have tot: "range_ok (count_value (f_total f))" by (rule rng) simp
  note bounds = output_total_bounds [of outp "nu_reasoning n" prompt "count_value (f_total f)", folded out]
  have "t \<le> prompt + nu_output n" if "f_total f = Count t" for t
    using bounds(4) [of t] ob r p tot that by (simp add: count_value_def)
  with splits have "\<forall>s \<in> set (nu_prompt n). \<forall>t. f_total f = Count t \<longrightarrow> t \<le> sp_prompt s + nu_output n"
    by fastforce
  moreover have "usage_ok n"
    unfolding usage_ok_def nc using splits bounds(1-3) ob r p tot cost by (auto simp: readings)
  ultimately show ?thesis by blast
qed

lemma provider_cost_safe: "provider_cost v = Some (Some c) \<Longrightarrow> c \<le> max_safe"
  by (auto simp: provider_cost_def provider_cost_micros_def
      split: if_splits option.splits json.splits jnum.splits)

lemma normalize_provider_usage_SomeE:
  assumes "normalize_provider_usage event = Some n"
  obtains u cost where "usage_record event = Some u" "Invalid \<notin> set (all_fields (usage_fields_of u))"
    "provider_cost (field u ''cost'') = Some cost" "normalize_fields (usage_fields_of u) cost = Some n"
  using assms by (auto simp: normalize_provider_usage_def Let_def split: option.splits if_splits)

lemma normalize_usage_ok: "normalize_provider_usage event = Some n \<Longrightarrow> usage_ok n"
  by (erule normalize_provider_usage_SomeE)
    (use normalize_fields_ok all_fields_count_ok provider_cost_safe in blast)

end
