(* ===== verification/Budget.thy ===== *)
theory Budget
  imports GatewayPricing UsageNormalizer
begin

text \<open>
  \<open>apps/model-gateway/src/budget.ts\<close> with the records of \<open>types.ts\<close>: pricing of reported usage,
  the checks that keep a request's context bounded, the worst-case reservation taken from a lease
  before a request goes upstream, and the settlement after it. A lease is updated in place by the
  code; here every operation returns it.
\<close>

section \<open>Types\<close>

record profile_limits =
  max_request_bytes :: int
  max_response_bytes :: int
  max_header_bytes :: int
  max_headers :: int
  deadline_ms :: int
  max_input_tokens :: int
  max_output_tokens :: int
  max_cost_micros :: int
  max_stream_line_bytes :: int

text \<open>\<open>GatewayProfile\<close>; of the upstream URL the budget reads the host name only.\<close>

record gateway_profile =
  gp_id :: string
  gp_provider :: string
  gp_model :: string
  gp_downstream_path :: string
  gp_upstream_host :: string
  gp_pricing :: profile_pricing
  gp_limits :: profile_limits

record lease_accounting =
  initial_input :: int
  initial_output :: int
  initial_cost :: int
  overrun_cost :: int
  unabsorbed_cost :: int
  acc_prompt :: int
  acc_read :: int
  acc_write :: int
  acc_output :: int
  acc_reasoning :: int
  acc_requests :: int
  acc_without_usage :: int

record lease_grant =
  lg_agent :: string
  lg_profile :: string
  lg_expires :: int
  rem_input :: int
  rem_output :: int
  rem_cost :: int
  lg_acc :: lease_accounting

record usage =
  us_input :: int
  us_read :: int
  us_write :: int
  us_output :: int
  us_reasoning :: int
  us_cost :: int

text \<open>\<open>BudgetReservation\<close> without its reference to the lease, which the callers here pass along.\<close>

record reservation =
  rs_input :: int
  rs_output :: int
  rs_cost :: int

section \<open>Cost arithmetic\<close>

definition saturating_add :: "int list \<Rightarrow> int" where
  "saturating_add values = min (sum_list values) max_safe"

text \<open>\<open>BigInt\<close> arithmetic, rounded up to a whole micro and cut to the safe range.\<close>

definition cost_micros :: "int \<Rightarrow> int \<Rightarrow> int" where
  "cost_micros tokens price_per_million =
     (let micros = (tokens * price_per_million + 999999) div 1000000 in
      if micros > max_safe then max_safe else micros)"

definition price_split :: "profile_pricing \<Rightarrow> normalized_usage \<Rightarrow> prompt_split \<Rightarrow> usage" where
  "price_split pricing n s =
     (let prices = prices_for_prompt pricing (sp_prompt s) in
      \<lparr>us_input = sp_prompt s, us_read = sp_read s, us_write = sp_write s,
       us_output = nu_output n, us_reasoning = nu_reasoning n,
       us_cost = saturating_add
         [cost_micros (sp_uncached s) (input_price prices),
          cost_micros (sp_read s) (read_price prices),
          cost_micros (sp_write s) (write_price prices),
          cost_micros (nu_output n) (output_price prices)]\<rparr>)"

text \<open>\<open>reduce\<close> to the first most expensive candidate.\<close>

fun most_expensive :: "usage \<Rightarrow> usage list \<Rightarrow> usage" where
  "most_expensive best [] = best"
| "most_expensive best (c # cs) = most_expensive (if us_cost c > us_cost best then c else best) cs"

definition cost_usage :: "normalized_usage \<Rightarrow> profile_pricing \<Rightarrow> usage" where
  "cost_usage n pricing =
     (let priced = map (price_split pricing n) (nu_prompt n);
          charged = most_expensive (hd priced) (tl priced)
      in charged\<lparr>us_cost := max (us_cost charged) (or_zero (nu_provider_cost n))\<rparr>)"

definition usage_from_provider :: "json \<Rightarrow> profile_pricing \<Rightarrow> usage option" where
  "usage_from_provider v pricing =
     (case normalize_provider_usage v of None \<Rightarrow> None | Some n \<Rightarrow> Some (cost_usage n pricing))"

section \<open>Bounded requests\<close>

datatype refusal =
    ProviderSideField string
  | StatefulField string
  | ObjectPrompt
  | ToolsNotArray
  | ToolWithoutType
  | UnsupportedTool string
  | MediaReference string string
  | RemoteMedia string string

datatype budget_error =
    Refused refusal
  | InputTokenBudget
  | InputCostBudget
  | OutputCostExhausted
  | BadOutputField string

definition media_part_reserve_tokens :: int where
  "media_part_reserve_tokens = 8192"

definition media_part_types :: "string list" where
  "media_part_types = [''image'', ''image_url'', ''input_image'', ''audio'', ''input_audio'', ''video'',
     ''video_url'', ''input_video'', ''file'', ''input_file'']"

definition media_url_keys :: "string list" where
  "media_url_keys = [''url'', ''image_url'', ''video_url'', ''audio_url'', ''file_url'']"

definition media_data_keys :: "string list" where
  "media_data_keys = [''data'', ''file_data'']"

definition media_reference_keys :: "string list" where
  "media_reference_keys = [''file_id'']"

text \<open>\<open>/^data:/i\<close> and \<open>/^[a-z][a-z0-9+.-]*:/i\<close>.\<close>

definition is_data_url :: "string \<Rightarrow> bool" where
  "is_data_url s = starts_with ''data:'' (map lower_char s)"

fun scheme_rest :: "string \<Rightarrow> bool" where
  "scheme_rest [] = False"
| "scheme_rest (c # cs) =
     (if c = CHR '':'' then True
      else (is_alnum_char c \<or> c \<in> set ''+.-'') \<and> scheme_rest cs)"

definition has_url_scheme :: "string \<Rightarrow> bool" where
  "has_url_scheme s = (case s of [] \<Rightarrow> False
     | c # cs \<Rightarrow> (is_lower_char c \<or> is_upper_char c) \<and> scheme_rest cs)"

definition responses_path :: string where
  "responses_path = ''/v1/responses''"

definition chat_path :: string where
  "chat_path = ''/v1/chat/completions''"

fun first_present :: "jobject \<Rightarrow> string list \<Rightarrow> string option" where
  "first_present ob [] = None"
| "first_present ob (k # ks) = (if present (field ob k) then Some k else first_present ob ks)"

definition caller_tool_types :: "string list" where
  "caller_tool_types = [''function'', ''custom'']"

fun check_tools :: "json list \<Rightarrow> (refusal, unit) result" where
  "check_tools [] = Inr ()"
| "check_tools (t # ts) =
     (case (case t of JObj ob \<Rightarrow> field ob ''type'' | _ \<Rightarrow> None) of
        Some (JStr ty) \<Rightarrow> if ty \<in> set caller_tool_types then check_tools ts else Inl (UnsupportedTool ty)
      | _ \<Rightarrow> Inl ToolWithoutType)"

definition assert_bounded_request :: "jobject \<Rightarrow> gateway_profile \<Rightarrow> (refusal, unit) result" where
  "assert_bounded_request body profile =
     (case first_present body [''plugins'', ''web_search_options''] of
        Some k \<Rightarrow> Inl (ProviderSideField k)
      | None \<Rightarrow>
     (let responses = (gp_downstream_path profile = responses_path) in
      (case (if responses then first_present body [''previous_response_id'', ''conversation''] else None) of
        Some k \<Rightarrow> Inl (StatefulField k)
      | None \<Rightarrow>
      (if responses \<and> (case field body ''prompt'' of Some v \<Rightarrow> is_object v | None \<Rightarrow> False) then Inl ObjectPrompt
      else if \<not> present (field body ''tools'') then Inr ()
      else (case field body ''tools'' of
        Some (JArr tools) \<Rightarrow> check_tools tools
      | _ \<Rightarrow> Inl ToolsNotArray)))))"

section \<open>Inline media\<close>

definition is_remote_media :: "string \<Rightarrow> string \<Rightarrow> bool" where
  "is_remote_media key s =
     (if key \<in> set media_url_keys then \<not> is_data_url s
      else key \<in> set media_data_keys \<and> has_url_scheme s \<and> \<not> is_data_url s)"

text \<open>One pass of the entry loop of \<open>assertInlineMedia\<close>; the result is what it pushes on its stack.\<close>

fun scan_media_entries :: "string \<Rightarrow> (string \<times> json) list \<Rightarrow> (refusal, json list) result" where
  "scan_media_entries ty [] = Inr []"
| "scan_media_entries ty ((k, v) # es) =
     (if v = JNull then scan_media_entries ty es
      else if k \<in> set media_reference_keys then Inl (MediaReference ty k)
      else case v of
        JStr s \<Rightarrow> if is_remote_media k s then Inl (RemoteMedia ty k) else scan_media_entries ty es
      | _ \<Rightarrow> if is_object v then ebind (scan_media_entries ty es) (\<lambda>ws. Inr (v # ws))
             else scan_media_entries ty es)"

lemma scan_media_entries_sub:
  "scan_media_entries ty es = Inr ws \<Longrightarrow> ws = filter is_object (map snd es)"
proof (induction ty es arbitrary: ws rule: scan_media_entries.induct)
  case (1 ty)
  then show ?case by simp
next
  case (2 ty k v es)
  then show ?case
    by (cases v) (auto simp: guard_simps is_object_def split: if_splits)
qed

text \<open>The stack loop: the last pushed child is looked at first.\<close>

function inline_media_loop :: "string \<Rightarrow> json list \<Rightarrow> (refusal, unit) result" where
  "inline_media_loop ty [] = Inr ()"
| "inline_media_loop ty (v # rest) =
     (case scan_media_entries ty (entries v) of
        Inl e \<Rightarrow> Inl e
      | Inr pushed \<Rightarrow> inline_media_loop ty (rev pushed @ rest))"
  by pat_completeness auto
termination
proof (relation "measure (\<lambda>(ty, vs). sum_list (map nodes vs))")
  fix ty v rest pushed
  assume "scan_media_entries ty (entries v) = Inr pushed"
  then have "pushed = filter is_object (child_values v)"
    by (simp add: scan_media_entries_sub child_values_def)
  then have "sum_list (map nodes pushed) < nodes v"
    by (simp add: nodes_filtered_children)
  then show "((ty, rev pushed @ rest), ty, v # rest) \<in> measure (\<lambda>(ty, vs). sum_list (map nodes vs))"
    by (simp add: rev_map [symmetric])
qed simp

definition assert_inline_media :: "json \<Rightarrow> string \<Rightarrow> (refusal, unit) result" where
  "assert_inline_media part ty = inline_media_loop ty [part]"

definition media_type :: "json \<Rightarrow> string option" where
  "media_type v = (case v of
     JObj ob \<Rightarrow> (case field ob ''type'' of
        Some (JStr s) \<Rightarrow> if s \<in> set media_part_types then Some s else None | _ \<Rightarrow> None)
   | _ \<Rightarrow> None)"

function count_media_loop :: "json list \<Rightarrow> int \<Rightarrow> (refusal, int) result" where
  "count_media_loop [] parts = Inr parts"
| "count_media_loop (v # rest) parts =
     (let stack = rev (filter is_object (child_values v)) @ rest in
      case media_type v of
        Some ty \<Rightarrow> (case assert_inline_media v ty of
            Inl e \<Rightarrow> Inl e
          | Inr _ \<Rightarrow> count_media_loop stack (parts + 1))
      | None \<Rightarrow> count_media_loop stack parts)"
  by pat_completeness auto
termination
proof (relation "measure (\<lambda>(vs, n). sum_list (map nodes vs))")
  fix v :: json and rest stack :: "json list" and n m :: int
  assume "stack = rev (filter is_object (child_values v)) @ rest"
  then have "sum_list (map nodes stack) < sum_list (map nodes (v # rest))"
    by (simp add: nodes_filtered_children rev_map [symmetric])
  then show "((stack, n), v # rest, m) \<in> measure (\<lambda>(vs, n). sum_list (map nodes vs))"
    "((stack, n), v # rest, m) \<in> measure (\<lambda>(vs, n). sum_list (map nodes vs))"
    by simp_all
qed simp_all

definition media_part_count :: "jobject \<Rightarrow> (refusal, int) result" where
  "media_part_count body = count_media_loop [JObj body] 0"

section \<open>Reservation\<close>

definition lower_string :: "string \<Rightarrow> string" where
  "lower_string s = map lower_char s"

definition output_token_field :: "gateway_profile \<Rightarrow> string" where
  "output_token_field p =
     (if gp_downstream_path p = responses_path then ''max_output_tokens''
      else if lower_string (gp_provider p) = ''openai'' \<or> lower_string (gp_upstream_host p) = ''api.openai.com''
      then ''max_completion_tokens'' else ''max_tokens'')"

fun collect_requested :: "jobject \<Rightarrow> string list \<Rightarrow> (budget_error, int list) result" where
  "collect_requested body [] = Inr []"
| "collect_requested body (k # ks) =
     (case field body k of None \<Rightarrow> collect_requested body ks
      | Some v \<Rightarrow> (case as_safe_integer v of
          Some n \<Rightarrow> if n < 1 then Inl (BadOutputField k)
            else ebind (collect_requested body ks) (\<lambda>ns. Inr (n # ns))
        | None \<Rightarrow> Inl (BadOutputField k)))"

definition requested_output_tokens :: "jobject \<Rightarrow> gateway_profile \<Rightarrow> (budget_error, int) result" where
  "requested_output_tokens body p =
     (let fields = (if gp_downstream_path p = responses_path then [''max_output_tokens'']
        else [''max_tokens'', ''max_completion_tokens''])
      in ebind (collect_requested body fields) (\<lambda>ns.
        Inr (case ns of [] \<Rightarrow> max_output_tokens (gp_limits p) | n # ns' \<Rightarrow> foldl min n ns')))"

text \<open>The body sent upstream: the reserved cap is its only output limit.\<close>

definition outbound_body :: "jobject \<Rightarrow> gateway_profile \<Rightarrow> int \<Rightarrow> jobject" where
  "outbound_body body p cap =
     (let b1 = delete_field ''max_completion_tokens'' (delete_field ''max_tokens'' body);
          b2 = set_field (output_token_field p) (JInt cap) b1;
          b3 = (if gp_downstream_path p = chat_path
                then set_field ''stream_options'' (JObj [(''include_usage'', JBool True)]) b2 else b2)
      in set_field ''stream'' (JBool True) (set_field ''model'' (JStr (gp_model p)) b3))"

definition highest_input_price :: "token_prices \<Rightarrow> int" where
  "highest_input_price prices = max (input_price prices) (max (read_price prices) (write_price prices))"

definition estimate_input :: "int \<Rightarrow> int \<Rightarrow> int" where
  "estimate_input body_bytes media_parts = max 1 body_bytes + media_parts * media_part_reserve_tokens"

definition affordable_output :: "int \<Rightarrow> int \<Rightarrow> int \<Rightarrow> int" where
  "affordable_output requested budget price =
     (if price \<noteq> 0 then min requested (budget * 1000000 div price) else requested)"

definition take_reservation :: "reservation \<Rightarrow> lease_grant \<Rightarrow> lease_grant" where
  "take_reservation r lease = lease
     \<lparr>rem_input := rem_input lease - rs_input r,
      rem_output := rem_output lease - rs_output r,
      rem_cost := rem_cost lease - rs_cost r,
      lg_acc := (lg_acc lease)\<lparr>acc_requests := acc_requests (lg_acc lease) + 1\<rparr>\<rparr>"

definition reserve_budget :: "jobject \<Rightarrow> int \<Rightarrow> lease_grant \<Rightarrow> gateway_profile \<Rightarrow>
    (budget_error, reservation \<times> lease_grant \<times> jobject) result" where
  "reserve_budget body body_bytes lease p =
     (case assert_bounded_request body p of Inl e \<Rightarrow> Inl (Refused e) | Inr _ \<Rightarrow>
     (case media_part_count body of Inl e \<Rightarrow> Inl (Refused e) | Inr parts \<Rightarrow>
     (let estimated = estimate_input body_bytes parts;
          input_tokens = min (min estimated (rem_input lease)) (max_input_tokens (gp_limits p))
      in if estimated > input_tokens then Inl InputTokenBudget else
     (let prices = prices_for_prompt (gp_pricing p) estimated;
          input_cost = cost_micros input_tokens (highest_input_price prices)
      in if input_cost > rem_cost lease then Inl InputCostBudget else
     ebind (requested_output_tokens body p) (\<lambda>req.
      let requested = min (min req (rem_output lease)) (max_output_tokens (gp_limits p));
          output_tokens = min requested
            (affordable_output requested (rem_cost lease - input_cost) (output_price prices))
      in if output_tokens < 1 then Inl OutputCostExhausted else
      let r = \<lparr>rs_input = input_tokens, rs_output = output_tokens,
            rs_cost = saturating_add [input_cost, cost_micros output_tokens (output_price prices)]\<rparr>
      in Inr (r, take_reservation r lease, outbound_body body p output_tokens))))))"

section \<open>Settlement\<close>

definition reservation_as_usage :: "reservation \<Rightarrow> usage" where
  "reservation_as_usage r = \<lparr>us_input = rs_input r, us_read = 0, us_write = 0,
     us_output = rs_output r, us_reasoning = 0, us_cost = rs_cost r\<rparr>"

text \<open>\<open>settleComponent\<close>: the new remaining amount, and the overrun it could not absorb.\<close>

definition settle_component :: "int \<Rightarrow> int \<Rightarrow> int \<Rightarrow> bool \<Rightarrow> int \<times> int" where
  "settle_component remaining reserved charged refund =
     (if charged \<le> reserved then ((if refund then remaining + (reserved - charged) else remaining), 0)
      else let overrun = charged - reserved; absorbed = min overrun remaining
           in (remaining - absorbed, overrun - absorbed))"

definition record_usage :: "lease_accounting \<Rightarrow> usage \<Rightarrow> bool \<Rightarrow> lease_accounting" where
  "record_usage a u reported = a
     \<lparr>acc_prompt := saturating_add [acc_prompt a, us_input u],
      acc_read := saturating_add [acc_read a, us_read u],
      acc_write := saturating_add [acc_write a, us_write u],
      acc_output := saturating_add [acc_output a, us_output u],
      acc_reasoning := saturating_add [acc_reasoning a, us_reasoning u],
      acc_without_usage := acc_without_usage a + (if reported then 0 else 1)\<rparr>"

text \<open>\<open>charge\<close>: the updated lease, the usage charged, and the cost beyond the reservation.\<close>

definition charge :: "reservation \<Rightarrow> lease_grant \<Rightarrow> usage \<Rightarrow> bool \<Rightarrow> bool \<Rightarrow> lease_grant \<times> usage \<times> int" where
  "charge r lease charged refund reported =
     (let (inp, _) = settle_component (rem_input lease) (rs_input r) (us_input charged) refund;
          (out, _) = settle_component (rem_output lease) (rs_output r) (us_output charged) refund;
          (cost, unabsorbed) = settle_component (rem_cost lease) (rs_cost r) (us_cost charged) refund;
          overrun = max 0 (us_cost charged - rs_cost r);
          acc = lg_acc lease;
          acc' = acc\<lparr>overrun_cost := saturating_add [overrun_cost acc, overrun],
                    unabsorbed_cost := saturating_add [unabsorbed_cost acc, unabsorbed]\<rparr>
      in (lease\<lparr>rem_input := inp, rem_output := out, rem_cost := cost,
                lg_acc := record_usage acc' charged reported\<rparr>, charged, overrun))"

definition reconcile_budget :: "reservation \<Rightarrow> lease_grant \<Rightarrow> usage option \<Rightarrow> lease_grant \<times> usage \<times> int" where
  "reconcile_budget r lease actual =
     charge r lease (case actual of Some u \<Rightarrow> u | None \<Rightarrow> reservation_as_usage r) True (actual \<noteq> None)"

definition failed_charge :: "reservation \<Rightarrow> usage option \<Rightarrow> usage" where
  "failed_charge r actual = (case actual of None \<Rightarrow> reservation_as_usage r
     | Some u \<Rightarrow> u\<lparr>us_input := max (us_input u) (rs_input r),
         us_output := max (us_output u) (rs_output r),
         us_cost := max (us_cost u) (rs_cost r)\<rparr>)"

definition settle_failed_request :: "reservation \<Rightarrow> lease_grant \<Rightarrow> usage option \<Rightarrow> lease_grant \<times> usage \<times> int" where
  "settle_failed_request r lease actual = charge r lease (failed_charge r actual) False (actual \<noteq> None)"

end
