(* ===== verification/BudgetFacts.thy ===== *)
theory BudgetFacts
  imports Budget
begin

text \<open>
  The facts about the budget the properties rest on: cost arithmetic and its rounding, the order of
  prices, the traversal that finds media parts, and what a successful reservation guarantees.
\<close>

section \<open>Cost arithmetic\<close>

text \<open>The cost before it is cut to the safe range.\<close>

definition raw_cost :: "int \<Rightarrow> int \<Rightarrow> int" where
  "raw_cost t p = (t * p + 999999) div 1000000"

lemma cost_micros_raw: "cost_micros t p = min (raw_cost t p) max_safe"
  by (simp add: cost_micros_def raw_cost_def Let_def)

lemma raw_cost_mono: "0 \<le> t \<Longrightarrow> t \<le> t' \<Longrightarrow> 0 \<le> p \<Longrightarrow> p \<le> p' \<Longrightarrow> raw_cost t p \<le> raw_cost t' p'"
  unfolding raw_cost_def by (intro zdiv_mono1 add_mono mult_mono) auto

lemma raw_cost_nonneg: "0 \<le> t \<Longrightarrow> 0 \<le> p \<Longrightarrow> 0 \<le> raw_cost t p"
  by (simp add: raw_cost_def pos_imp_zdiv_nonneg_iff)

lemma raw_cost_bounds: "t * p \<le> raw_cost t p * 1000000" "raw_cost t p * 1000000 \<le> t * p + 999999"
  by (simp_all add: raw_cost_def)

lemma raw_cost_zero [simp]: "raw_cost t 0 = 0" "raw_cost 0 p = 0"
  by (simp_all add: raw_cost_def)

text \<open>Rounding a sum up once costs at most one micro less than rounding both parts up.\<close>

lemma raw_cost_split: "raw_cost a p + raw_cost b p \<le> raw_cost (a + b) p + 1"
proof -
  have "raw_cost a p * 1000000 \<le> a * p + 999999" "raw_cost b p * 1000000 \<le> b * p + 999999"
    by (rule raw_cost_bounds)+
  moreover have "a * p + b * p \<le> raw_cost (a + b) p * 1000000"
    using raw_cost_bounds(1) [of "a + b" p] by (simp add: distrib_right)
  ultimately show ?thesis by linarith
qed

lemma raw_cost_split3: "raw_cost a p + raw_cost b p + raw_cost c p \<le> raw_cost (a + b + c) p + 2"
  using raw_cost_split [of a p b] raw_cost_split [of "a + b" p c] by linarith

lemma cost_micros_nonneg: "0 \<le> t \<Longrightarrow> 0 \<le> p \<Longrightarrow> 0 \<le> cost_micros t p"
  by (simp add: cost_micros_raw raw_cost_nonneg)

lemma cost_micros_mono:
  "0 \<le> t \<Longrightarrow> t \<le> t' \<Longrightarrow> 0 \<le> p \<Longrightarrow> p \<le> p' \<Longrightarrow> cost_micros t p \<le> cost_micros t' p'"
  using raw_cost_mono [of t t' p p'] by (simp add: cost_micros_raw min_def)

lemma cost_micros_within:
  assumes "0 \<le> budget" "0 < p" "t \<le> budget * 1000000 div p"
  shows "cost_micros t p \<le> budget"
proof -
  have "t * p \<le> (budget * 1000000 div p) * p"
    using assms by (intro mult_right_mono) auto
  also have "\<dots> \<le> budget * 1000000"
    using assms(2) by (metis (no_types) div_mult_mod_eq le_add_same_cancel1 pos_mod_sign)
  finally have "raw_cost t p \<le> budget"
    by (simp add: raw_cost_def)
  then show ?thesis by (simp add: cost_micros_raw)
qed

text \<open>The same for costs that are cut to the safe range.\<close>

lemma cut_sum_slack:
  fixes a b c i u v m :: int
  assumes "a + b + c \<le> i + 2" "u \<le> v" "0 \<le> u" "0 \<le> m"
  shows "min (min a m + (min b m + (min c m + min u m))) m \<le> min (min i m + min v m) m + 2"
proof -
  have "min a m \<le> a" "min b m \<le> b" "min c m \<le> c" "min u m \<le> min v m" "0 \<le> min v m"
    using assms by auto
  then have "min a m + (min b m + (min c m + min u m)) \<le> i + 2 + min v m"
    using assms(1) by linarith
  moreover have "min x m \<le> min y m + 2" if "x \<le> y + 2" for x y
    using that by (auto simp: min_def)
  ultimately show ?thesis
    using \<open>0 \<le> min v m\<close> by (cases "i \<le> m") (auto simp: add.assoc add.commute add.left_commute min.coboundedI2)
qed

section \<open>The order of prices\<close>

lemma tier_prices_ge_base:
  "tiers_ordered prev below ts \<Longrightarrow> prices_le below (tier_prices_from below ts n)"
proof (induction ts arbitrary: prev below)
  case Nil
  then show ?case by simp
next
  case (Cons t ts)
  then have "prices_le below (token_prices.truncate t)" by simp
  moreover have "prices_le (token_prices.truncate t) (tier_prices_from (token_prices.truncate t) ts n)"
    using Cons.IH [of "tier_from t" "token_prices.truncate t"] Cons.prems by simp
  ultimately have "prices_le below (tier_prices_from (token_prices.truncate t) ts n)"
    by (rule prices_le_trans)
  with Cons.prems show ?case by simp
qed

lemma tier_prices_mono:
  "tiers_ordered prev below ts \<Longrightarrow> m \<le> n \<Longrightarrow> prices_le (tier_prices_from below ts m) (tier_prices_from below ts n)"
proof (induction ts arbitrary: prev below)
  case Nil
  then show ?case by simp
next
  case (Cons t ts)
  then have later: "prices_le below (tier_prices_from (token_prices.truncate t) ts n)"
    using tier_prices_ge_base [of "tier_from t" "token_prices.truncate t" ts n]
    by (auto intro: prices_le_trans)
  have step: "prices_le (tier_prices_from (token_prices.truncate t) ts m)
      (tier_prices_from (token_prices.truncate t) ts n)"
    using Cons by auto
  from later step Cons.prems(2) show ?case by auto
qed

lemma tier_prices_ok:
  "level_ok below \<Longrightarrow> list_all level_ok ts \<Longrightarrow> level_ok (tier_prices_from below ts n)"
  by (induction below ts n rule: tier_prices_from.induct) auto

lemma prices_for_prompt_mono:
  "pricing_valid p \<Longrightarrow> m \<le> n \<Longrightarrow> prices_le (prices_for_prompt p m) (prices_for_prompt p n)"
  by (auto simp: pricing_valid_def prices_for_prompt_def intro: tier_prices_mono)

lemma prices_for_prompt_ok: "pricing_valid p \<Longrightarrow> level_ok (prices_for_prompt p n)"
  by (auto simp: pricing_valid_def prices_for_prompt_def intro: tier_prices_ok)

lemma level_ok_nonneg:
  assumes "level_ok p"
  shows "0 \<le> input_price p" "0 \<le> output_price p" "0 \<le> read_price p" "0 \<le> write_price p"
  using assms by (simp_all add: level_ok_def price_in_range_def)

lemma highest_input_price_le:
  "input_price p \<le> highest_input_price p" "read_price p \<le> highest_input_price p"
  "write_price p \<le> highest_input_price p"
  by (simp_all add: highest_input_price_def)

section \<open>Media parts\<close>

fun media_nodes :: "json \<Rightarrow> int" where
  "media_nodes (JArr xs) = sum_list (map media_nodes xs)"
| "media_nodes (JObj ob) = (if media_type (JObj ob) = None then 0 else 1) + sum_list (map (\<lambda>p. media_nodes (snd p)) ob)"
| "media_nodes _ = 0"

lemma media_nodes_unfold:
  "media_nodes v = (if media_type v = None then 0 else 1) + sum_list (map media_nodes (child_values v))"
  by (cases v) (auto simp: media_type_def child_values_def comp_def)

lemma not_object_leaf: "\<not> is_object v \<Longrightarrow> entries v = [] \<and> media_type v = None"
  by (cases v) (auto simp: is_object_def media_type_def)

lemma not_object_child_values: "\<not> is_object v \<Longrightarrow> child_values v = []"
  by (simp add: child_values_def not_object_leaf)

lemma media_nodes_leaf: "\<not> is_object v \<Longrightarrow> media_nodes v = 0"
  by (subst media_nodes_unfold) (simp add: not_object_leaf not_object_child_values)

lemma sum_media_objects: "sum_list (map media_nodes (filter is_object vs)) = sum_list (map media_nodes vs)"
  by (induction vs) (auto simp: media_nodes_leaf)

lemma media_nodes_nonneg: "0 \<le> media_nodes v"
proof (induction v rule: media_nodes.induct)
  case (1 xs)
  then show ?case by (auto intro!: sum_list_nonneg)
next
  case (2 ob)
  then show ?case by (fastforce intro!: sum_list_nonneg add_nonneg_nonneg)
qed auto

text \<open>An entry that points outside the request: a provider file id, or a URL that is not inline.\<close>

definition remote_entry :: "string \<times> json \<Rightarrow> bool" where
  "remote_entry e = (case e of (k, w) \<Rightarrow> w \<noteq> JNull
     \<and> (k \<in> set media_reference_keys \<or> (\<exists>s. w = JStr s \<and> is_remote_media k s)))"

definition inline_part :: "json \<Rightarrow> bool" where
  "inline_part v = (\<forall>u e. subvalue u v \<and> e \<in> set (entries u) \<longrightarrow> \<not> remote_entry e)"

lemma remote_entry_pair: "remote_entry (k, w) \<longleftrightarrow> w \<noteq> JNull
     \<and> (k \<in> set media_reference_keys \<or> (\<exists>s. w = JStr s \<and> is_remote_media k s))"
  by (simp add: remote_entry_def)

lemma scan_media_entries_ok:
  "is_ok (scan_media_entries ty es) \<longleftrightarrow> (\<forall>e \<in> set es. \<not> remote_entry e)"
proof (induction ty es rule: scan_media_entries.induct)
  case (1 ty)
  then show ?case by simp
next
  case (2 ty k v es)
  have ebind_ok: "is_ok (ebind m (\<lambda>ws. Inr (v # ws))) = is_ok m"
    for m :: "(refusal, json list) result" and v
    by (cases m) simp_all
  show ?case
    using 2 by (cases v) (simp_all add: remote_entry_pair is_object_def ebind_ok)
qed

lemma inline_part_step:
  "inline_part v \<longleftrightarrow> (\<forall>e \<in> set (entries v). \<not> remote_entry e) \<and> (\<forall>w \<in> set (child_values v). inline_part w)"
  unfolding inline_part_def by (subst (1) subvalue_step_iff) blast

lemma inline_part_leaf: "\<not> is_object v \<Longrightarrow> inline_part v"
  by (subst inline_part_step) (simp add: not_object_leaf not_object_child_values)

lemma inline_media_loop_iff:
  "is_ok (inline_media_loop ty vs) \<longleftrightarrow> (\<forall>v \<in> set vs. inline_part v)"
proof (induction ty vs rule: inline_media_loop.induct)
  case (1 ty)
  then show ?case by simp
next
  case (2 ty v rest)
  show ?case
  proof (cases "scan_media_entries ty (entries v)")
    case (Inl e)
    then have "\<not> is_ok (scan_media_entries ty (entries v))" by simp
    then have "\<not> inline_part v"
      by (subst inline_part_step) (simp add: scan_media_entries_ok)
    with Inl show ?thesis by simp
  next
    case (Inr pushed)
    then have entries: "\<forall>e \<in> set (entries v). \<not> remote_entry e"
      using scan_media_entries_ok [of ty "entries v"] by simp
    have "pushed = filter is_object (child_values v)"
      using Inr by (simp add: scan_media_entries_sub child_values_def)
    then have "(\<forall>w \<in> set pushed. inline_part w) \<longleftrightarrow> (\<forall>w \<in> set (child_values v). inline_part w)"
      using inline_part_leaf by auto
    then have "inline_part v \<longleftrightarrow> (\<forall>w \<in> set pushed. inline_part w)"
      by (subst inline_part_step) (use entries in simp)
    with Inr 2 show ?thesis by auto
  qed
qed

lemma assert_inline_media_ok: "is_ok (assert_inline_media v ty) \<longleftrightarrow> inline_part v"
  unfolding assert_inline_media_def inline_media_loop_iff by simp

definition media_inline :: "json \<Rightarrow> bool" where
  "media_inline v = (\<forall>u. subvalue u v \<and> media_type u \<noteq> None \<longrightarrow> inline_part u)"

lemma media_inline_step:
  "media_inline v \<longleftrightarrow> (media_type v \<noteq> None \<longrightarrow> inline_part v) \<and> (\<forall>w \<in> set (child_values v). media_inline w)"
  unfolding media_inline_def by (subst (1) subvalue_step_iff) blast

lemma media_inline_leaf: "\<not> is_object v \<Longrightarrow> media_inline v"
  by (subst media_inline_step) (simp add: not_object_leaf not_object_child_values)

text \<open>The traversal counts every media part of the request, and succeeds exactly when all are inline.\<close>

lemma count_media_loop_iff:
  "count_media_loop vs n = Inr m \<longleftrightarrow>
     (\<forall>v \<in> set vs. media_inline v) \<and> m = n + sum_list (map media_nodes vs)"
proof (induction vs n rule: count_media_loop.induct)
  case (1 n)
  then show ?case by auto
next
  case (2 v rest n)
  let ?stack = "rev (filter is_object (child_values v)) @ rest"
  have kids: "(\<forall>w \<in> set (filter is_object (child_values v)). media_inline w)
      \<longleftrightarrow> (\<forall>w \<in> set (child_values v). media_inline w)"
    using media_inline_leaf by auto
  have sums: "sum_list (map media_nodes ?stack)
      = sum_list (map media_nodes (child_values v)) + sum_list (map media_nodes rest)"
    by (simp add: rev_map [symmetric] sum_media_objects)
  show ?case
  proof (cases "media_type v")
    case None
    with "2.IH"(1) [OF refl None] kids sums show ?thesis
      by (auto simp: Let_def media_inline_step [of v] media_nodes_unfold [of v])
  next
    case (Some ty)
    show ?thesis
    proof (cases "assert_inline_media v ty")
      case (Inl e)
      then have "\<not> inline_part v"
        using assert_inline_media_ok [of v ty] by simp
      with Inl Some show ?thesis
        by (auto simp: Let_def media_inline_step [of v])
    next
      case (Inr u)
      then have "inline_part v"
        using assert_inline_media_ok [of v ty] by simp
      with "2.IH"(2) [OF refl Some Inr] Inr Some kids sums show ?thesis
        by (auto simp: Let_def media_inline_step [of v] media_nodes_unfold [of v])
    qed
  qed
qed

lemma media_part_count_iff:
  "media_part_count body = Inr m \<longleftrightarrow> media_inline (JObj body) \<and> m = media_nodes (JObj body)"
  unfolding media_part_count_def count_media_loop_iff by simp

section \<open>A successful reservation\<close>

lemma reserve_budget_InrE:
  assumes "reserve_budget body bytes lease p = Inr (r, lease', out)"
  obtains req where
    "assert_bounded_request body p = Inr ()" "media_inline (JObj body)"
    "rs_input r = estimate_input bytes (media_nodes (JObj body))"
    "rs_input r \<le> rem_input lease" "rs_input r \<le> max_input_tokens (gp_limits p)"
    "cost_micros (rs_input r) (highest_input_price (prices_for_prompt (gp_pricing p) (rs_input r))) \<le> rem_cost lease"
    "requested_output_tokens body p = Inr req"
    "rs_output r = min (min (min req (rem_output lease)) (max_output_tokens (gp_limits p)))
       (affordable_output (min (min req (rem_output lease)) (max_output_tokens (gp_limits p)))
         (rem_cost lease - cost_micros (rs_input r) (highest_input_price (prices_for_prompt (gp_pricing p) (rs_input r))))
         (output_price (prices_for_prompt (gp_pricing p) (rs_input r))))"
    "1 \<le> rs_output r"
    "rs_cost r = saturating_add
       [cost_micros (rs_input r) (highest_input_price (prices_for_prompt (gp_pricing p) (rs_input r))),
        cost_micros (rs_output r) (output_price (prices_for_prompt (gp_pricing p) (rs_input r)))]"
    "lease' = take_reservation r lease" "out = outbound_body body p (rs_output r)"
proof -
  from assms obtain parts where ok: "assert_bounded_request body p = Inr ()"
    and parts: "media_part_count body = Inr parts"
    by (auto simp: reserve_budget_def split: sum.splits)
  from parts have media: "media_inline (JObj body)" "parts = media_nodes (JObj body)"
    by (simp_all only: media_part_count_iff)
  let ?est = "estimate_input bytes parts"
  from assms have fits: "?est \<le> rem_input lease" "?est \<le> max_input_tokens (gp_limits p)"
    by (auto simp: reserve_budget_def ok parts Let_def split: if_splits)
  then have least: "min (min ?est (rem_input lease)) (max_input_tokens (gp_limits p)) = ?est"
    by simp
  note body = assms [unfolded reserve_budget_def ok parts, simplified, unfolded Let_def least]
  let ?prices = "prices_for_prompt (gp_pricing p) ?est"
  let ?cost = "cost_micros ?est (highest_input_price ?prices)"
  have cost: "?cost \<le> rem_cost lease"
    using body by (auto split: if_splits)
  from body obtain req where req: "requested_output_tokens body p = Inr req"
    by (auto simp: guard_simps split: if_splits)
  let ?requested = "min (min req (rem_output lease)) (max_output_tokens (gp_limits p))"
  let ?tokens = "min ?requested (affordable_output ?requested (rem_cost lease - ?cost) (output_price ?prices))"
  have final: "(if ?tokens < 1 then Inl OutputCostExhausted
      else Inr (\<lparr>rs_input = ?est, rs_output = ?tokens,
          rs_cost = saturating_add [?cost, cost_micros ?tokens (output_price ?prices)]\<rparr>,
        take_reservation \<lparr>rs_input = ?est, rs_output = ?tokens,
          rs_cost = saturating_add [?cost, cost_micros ?tokens (output_price ?prices)]\<rparr> lease,
        outbound_body body p ?tokens)) = Inr (r, lease', out)"
    using body fits cost req by simp
  then have tokens: "\<not> ?tokens < 1" by (auto split: if_splits)
  then have r: "r = \<lparr>rs_input = ?est, rs_output = ?tokens,
          rs_cost = saturating_add [?cost, cost_micros ?tokens (output_price ?prices)]\<rparr>"
    and rest: "lease' = take_reservation r lease" "out = outbound_body body p ?tokens"
    using final unfolding if_not_P [OF tokens] sum.inject prod.inject by blast+
  have sel: "rs_input r = ?est" "rs_output r = ?tokens"
    "rs_cost r = saturating_add [?cost, cost_micros ?tokens (output_price ?prices)]"
    unfolding r by simp_all
  show thesis
    using that [OF ok media(1), of req] fits cost req tokens rest
    unfolding sel media(2) [symmetric] not_less by blast
qed

lemma saturating_pair: "saturating_add [a, b] = min (a + b) max_safe"
  by (simp add: saturating_add_def)

lemma affordable_output_cost:
  assumes "0 \<le> budget" "0 \<le> price" "t \<le> affordable_output req budget price"
  shows "cost_micros t price \<le> budget"
proof (cases "price = 0")
  case True
  then show ?thesis using assms(1) by (simp add: cost_micros_raw)
next
  case False
  then have "t \<le> budget * 1000000 div price"
    using assms(3) by (simp add: affordable_output_def)
  then show ?thesis
    using False assms by (intro cost_micros_within) auto
qed

lemma estimate_input_pos: "1 \<le> estimate_input bytes (media_nodes v)"
  using media_nodes_nonneg [of v] by (simp add: estimate_input_def media_part_reserve_tokens_def)

lemma reserve_budget_ok:
  assumes "pricing_valid (gp_pricing p)" "0 \<le> rem_cost lease"
    and "reserve_budget body bytes lease p = Inr (r, lease', out)"
  shows "media_inline (JObj body)
    \<and> rs_input r = max 1 bytes + media_nodes (JObj body) * media_part_reserve_tokens
    \<and> rs_input r \<le> min (rem_input lease) (max_input_tokens (gp_limits p))
    \<and> 1 \<le> rs_output r \<and> rs_output r \<le> min (rem_output lease) (max_output_tokens (gp_limits p))
    \<and> 0 \<le> rs_cost r \<and> rs_cost r \<le> rem_cost lease
    \<and> rem_input lease' = rem_input lease - rs_input r
    \<and> rem_output lease' = rem_output lease - rs_output r
    \<and> rem_cost lease' = rem_cost lease - rs_cost r"
  using assms(3)
proof (rule reserve_budget_InrE)
  fix req
  let ?prices = "prices_for_prompt (gp_pricing p) (rs_input r)"
  let ?cost = "cost_micros (rs_input r) (highest_input_price ?prices)"
  let ?req = "min (min req (rem_output lease)) (max_output_tokens (gp_limits p))"
  assume media: "media_inline (JObj body)" "rs_input r = estimate_input bytes (media_nodes (JObj body))"
    and fits: "rs_input r \<le> rem_input lease" "rs_input r \<le> max_input_tokens (gp_limits p)"
    and cost: "?cost \<le> rem_cost lease"
    and outp: "rs_output r = min ?req (affordable_output ?req (rem_cost lease - ?cost) (output_price ?prices))"
      "1 \<le> rs_output r"
    and rcost: "rs_cost r = saturating_add [?cost, cost_micros (rs_output r) (output_price ?prices)]"
    and lease': "lease' = take_reservation r lease"
  have ok: "level_ok ?prices"
    using assms(1) by (rule prices_for_prompt_ok)
  then have "0 \<le> output_price ?prices" "0 \<le> highest_input_price ?prices"
    by (simp_all add: level_ok_nonneg highest_input_price_def le_max_iff_disj)
  moreover have "1 \<le> rs_input r"
    unfolding media(2) by (rule estimate_input_pos)
  moreover have "rs_output r \<le> affordable_output ?req (rem_cost lease - ?cost) (output_price ?prices)"
    by (subst outp(1)) (rule min.cobounded2)
  then have "cost_micros (rs_output r) (output_price ?prices) \<le> rem_cost lease - ?cost"
    using cost calculation(1) by (intro affordable_output_cost) auto
  ultimately have "0 \<le> rs_cost r \<and> rs_cost r \<le> rem_cost lease"
    using outp(2) cost_micros_nonneg [of "rs_input r"] cost_micros_nonneg [of "rs_output r"]
    by (auto simp: rcost saturating_pair)
  moreover have "rs_output r \<le> ?req"
    by (subst outp(1)) (rule min.cobounded1)
  ultimately show ?thesis
    using media(1) fits outp(2) unfolding media(2) [unfolded estimate_input_def, symmetric]
    by (simp add: lease' take_reservation_def)
qed

lemma reserve_budget_solvent:
  assumes "pricing_valid (gp_pricing p)" "reserve_budget body bytes lease p = Inr (r, lease', out)"
  shows "0 \<le> rem_cost lease"
  using assms(2)
proof (rule reserve_budget_InrE)
  let ?prices = "prices_for_prompt (gp_pricing p) (rs_input r)"
  assume "rs_input r = estimate_input bytes (media_nodes (JObj body))"
    and cost: "cost_micros (rs_input r) (highest_input_price ?prices) \<le> rem_cost lease"
  then have "0 \<le> rs_input r"
    using estimate_input_pos [of bytes "JObj body"] by linarith
  moreover have "0 \<le> highest_input_price ?prices"
    using level_ok_nonneg(1) [OF prices_for_prompt_ok [OF assms(1), of "rs_input r"]]
      highest_input_price_le(1) [of ?prices] by linarith
  ultimately have "0 \<le> cost_micros (rs_input r) (highest_input_price ?prices)"
    by (rule cost_micros_nonneg)
  with cost show ?thesis by linarith
qed

section \<open>Settlement of one component\<close>

text \<open>With a refund the remaining amount is what was left before the reservation, less the charge, never below 0.\<close>

lemma settle_component_refund:
  "0 \<le> rem \<Longrightarrow> settle_component rem res chg True = (max 0 (rem + res - chg), max 0 (chg - (rem + res)))"
  by (auto simp: settle_component_def Let_def)

lemma settle_component_keep:
  "0 \<le> rem \<Longrightarrow> settle_component rem res chg False
     = (max 0 (rem - max 0 (chg - res)), max 0 (chg - res - rem))"
  by (auto simp: settle_component_def Let_def)

lemma most_expensive_max:
  "us_cost best \<le> us_cost (most_expensive best cs) \<and> (\<forall>c \<in> set cs. us_cost c \<le> us_cost (most_expensive best cs))"
  by (induction best cs rule: most_expensive.induct) (force split: if_splits)+

lemma most_expensive_in: "most_expensive best cs \<in> set (best # cs)"
  by (induction best cs rule: most_expensive.induct) auto

lemma price_split_simps [simp]:
  "us_input (price_split pricing n s) = sp_prompt s" "us_output (price_split pricing n s) = nu_output n"
  "us_read (price_split pricing n s) = sp_read s" "us_write (price_split pricing n s) = sp_write s"
  "us_reasoning (price_split pricing n s) = nu_reasoning n"
  by (simp_all add: price_split_def Let_def)

lemma cost_usage_cases:
  assumes "usage_ok n"
  obtains s where "s \<in> set (nu_prompt n)"
    "us_input (cost_usage n pricing) = sp_prompt s" "us_output (cost_usage n pricing) = nu_output n"
    "us_read (cost_usage n pricing) = sp_read s" "us_write (cost_usage n pricing) = sp_write s"
    "us_reasoning (cost_usage n pricing) = nu_reasoning n"
    "us_cost (cost_usage n pricing) = max (us_cost (price_split pricing n s)) (or_zero (nu_provider_cost n))"
    "\<And>s'. s' \<in> set (nu_prompt n) \<Longrightarrow> us_cost (price_split pricing n s') \<le> us_cost (price_split pricing n s)"
proof -
  let ?priced = "map (price_split pricing n) (nu_prompt n)"
  from assms have ne: "nu_prompt n \<noteq> []" by (simp add: usage_ok_def)
  then obtain c cs where priced: "?priced = c # cs" by (cases "nu_prompt n") auto
  have "most_expensive c cs \<in> set ?priced"
    unfolding priced by (rule most_expensive_in)
  then obtain s where s: "s \<in> set (nu_prompt n)" "most_expensive c cs = price_split pricing n s"
    by auto
  have best: "us_cost u \<le> us_cost (most_expensive c cs)" if "u \<in> set ?priced" for u
    using that most_expensive_max [of c cs] unfolding priced by auto
  have eq: "cost_usage n pricing = (price_split pricing n s)
      \<lparr>us_cost := max (us_cost (price_split pricing n s)) (or_zero (nu_provider_cost n))\<rparr>"
    by (simp only: cost_usage_def Let_def priced list.sel s(2))
  show thesis
    by (rule that [OF s(1)]) (use best s(2) in \<open>simp_all add: eq\<close>)
qed

section \<open>What a settlement does to a lease\<close>

lemma reconcile_budget_lease:
  assumes "0 \<le> rem_cost lease" "reconcile_budget r lease actual = (lease', charged, overrun)"
  shows "rem_cost lease' = max 0 (rem_cost lease + rs_cost r - us_cost charged)"
    "unabsorbed_cost (lg_acc lease') = saturating_add [unabsorbed_cost (lg_acc lease),
       max 0 (us_cost charged - (rem_cost lease + rs_cost r))]"
    "initial_cost (lg_acc lease') = initial_cost (lg_acc lease)"
    "lg_expires lease' = lg_expires lease" "lg_agent lease' = lg_agent lease" "lg_profile lease' = lg_profile lease"
    "charged = (case actual of Some u \<Rightarrow> u | None \<Rightarrow> reservation_as_usage r)"
  using assms(2)
  by (auto simp: reconcile_budget_def charge_def Let_def record_usage_def
      settle_component_refund [OF assms(1)] split: prod.splits)

lemma settle_failed_lease:
  assumes "0 \<le> rem_cost lease" "settle_failed_request r lease actual = (lease', charged, overrun)"
  shows "rs_cost r \<le> us_cost charged" "rem_cost lease' = max 0 (rem_cost lease - (us_cost charged - rs_cost r))"
    "unabsorbed_cost (lg_acc lease') = saturating_add [unabsorbed_cost (lg_acc lease),
       max 0 (us_cost charged - rs_cost r - rem_cost lease)]"
    "initial_cost (lg_acc lease') = initial_cost (lg_acc lease)"
    "lg_expires lease' = lg_expires lease" "lg_agent lease' = lg_agent lease" "lg_profile lease' = lg_profile lease"
proof -
  have charged: "charged = failed_charge r actual"
    using assms(2) by (auto simp: settle_failed_request_def charge_def Let_def split: prod.splits)
  show least: "rs_cost r \<le> us_cost charged"
    by (simp add: charged failed_charge_def reservation_as_usage_def split: option.split)
  then have "max 0 (us_cost charged - rs_cost r) = us_cost charged - rs_cost r" by simp
  then show "rem_cost lease' = max 0 (rem_cost lease - (us_cost charged - rs_cost r))"
    "unabsorbed_cost (lg_acc lease') = saturating_add [unabsorbed_cost (lg_acc lease),
       max 0 (us_cost charged - rs_cost r - rem_cost lease)]"
    "initial_cost (lg_acc lease') = initial_cost (lg_acc lease)"
    "lg_expires lease' = lg_expires lease" "lg_agent lease' = lg_agent lease" "lg_profile lease' = lg_profile lease"
    using assms(2) unfolding settle_failed_request_def charged [symmetric]
    by (auto simp: charge_def Let_def record_usage_def
        settle_component_keep [OF assms(1)] split: prod.splits)
qed

lemma usage_from_provider_cost_nonneg:
  assumes "pricing_valid pricing" "usage_from_provider v pricing = Some u"
  shows "0 \<le> us_cost u"
proof -
  from assms(2) obtain n where n: "normalize_provider_usage v = Some n" and u: "u = cost_usage n pricing"
    by (auto simp: usage_from_provider_def split: option.splits)
  have ok: "usage_ok n" using n by (rule normalize_usage_ok)
  show ?thesis
  proof (rule cost_usage_cases [OF ok, of pricing])
    fix s
    assume s: "s \<in> set (nu_prompt n)"
      and cost: "us_cost (cost_usage n pricing) = max (us_cost (price_split pricing n s)) (or_zero (nu_provider_cost n))"
    let ?P = "prices_for_prompt pricing (sp_prompt s)"
    have P: "level_ok ?P" using assms(1) by (rule prices_for_prompt_ok)
    have "0 \<le> sp_uncached s" "0 \<le> sp_read s" "0 \<le> sp_write s" "0 \<le> nu_output n"
      using ok s by (auto simp: usage_ok_def split_ok_def)
    then have "0 \<le> cost_micros (sp_uncached s) (input_price ?P)" "0 \<le> cost_micros (sp_read s) (read_price ?P)"
      "0 \<le> cost_micros (sp_write s) (write_price ?P)" "0 \<le> cost_micros (nu_output n) (output_price ?P)"
      using level_ok_nonneg [OF P] by (auto intro: cost_micros_nonneg)
    then have "0 \<le> us_cost (price_split pricing n s)"
      by (simp add: price_split_def Let_def saturating_add_def)
    then show ?thesis
      by (simp add: u cost)
  qed
qed

end
