(* ===== verification/PricingProperties.thy ===== *)
theory PricingProperties
  imports BudgetFacts
begin

text \<open>
  The properties of prices and of reported usage: what the runner exports the gateway accepts, longer
  prompts never get cheaper, raised tier prices are the least ordered ones, and a usage report is
  charged at its most expensive reading.
\<close>

definition sample_pinned :: pinned_pricing where
  "sample_pinned = \<lparr>pin_input = 100, pin_output = 200, pin_read = Some 150, pin_write = None,
     pin_tiers = [\<lparr>pin_input = 120, pin_output = 200, pin_read = None, pin_write = None, pin_from = 1000\<rparr>]\<rparr>"

lemma sample_pinned_ok: "pricing_schema_ok sample_pinned"
  by code_simp

text \<open>
  The runner and the gateway agree on prices. Whatever pricing a revision can be saved with, resolved for
  any provider and exported in the control snapshot, the gateway's parser accepts it and
  reads back exactly the exported prices and tiers.
\<close>

theorem runner_pricing_accepted:
  assumes "pricing_schema_ok p"
  shows "parse_pricing (Some (effective_pricing_json (resolve_effective_pricing p basis))) False (Some 0)
    = Inr (profile_pricing_of (resolve_effective_pricing p basis))"
  by (rule parse_effective_pricing; rule effective_pricing_ok [OF assms refl])

theorem runner_pricing_accepted_witness:
  "is_ok (parse_pricing (Some (effective_pricing_json (resolve_effective_pricing sample_pinned (Registry Custom))))
     False (Some 0))"
  using runner_pricing_accepted [OF sample_pinned_ok, of "Registry Custom"] by simp

text \<open>
  The gateway never picks a cheaper level for a longer prompt. Pricing its parser accepts charges a longer prompt at
  least as much for every kind of token, and every price in use is a safe non-negative integer.
\<close>

theorem parsed_prices_monotone:
  assumes "parse_pricing v strict base_default = Inr p" "\<forall>d. base_default = Some d \<longrightarrow> 0 \<le> d \<and> d \<le> max_safe"
    and "m \<le> n"
  shows "prices_le (prices_for_prompt p m) (prices_for_prompt p n) \<and> level_ok (prices_for_prompt p n)"
proof -
  have "pricing_valid p"
    by (rule parse_pricing_valid [OF assms(1)]) (use assms(2) in \<open>simp add: price_in_range_def\<close>)
  then show ?thesis
    using assms(3) by (simp add: prices_for_prompt_mono prices_for_prompt_ok)
qed

theorem parsed_prices_monotone_witness:
  "prices_le (prices_for_prompt (profile_pricing_of (resolve_effective_pricing sample_pinned (Registry Custom))) 10)
     (prices_for_prompt (profile_pricing_of (resolve_effective_pricing sample_pinned (Registry Custom))) 2000)"
proof -
  have parsed: "parse_pricing (Some (effective_pricing_json (resolve_effective_pricing sample_pinned (Registry Custom))))
      False (Some 0) = Inr (profile_pricing_of (resolve_effective_pricing sample_pinned (Registry Custom)))"
    by (rule parse_effective_pricing; rule effective_pricing_ok [OF sample_pinned_ok refl])
  show ?thesis
    using parsed_prices_monotone [OF parsed, of 10 2000] by simp
qed

text \<open>
  Resolved tiers are raised only as far as the ordering needs. The exported tiers keep the thresholds, are ordered, charge at least the
  resolved prices, are below any other ordered prices that do, and equal the resolved ones when no issue is reported.
\<close>

theorem raised_pricing_least:
  assumes "pricing_schema_ok p" "resolve_levels p basis = (base, tiers)"
  shows "tiers_ordered 0 base (eff_tiers (resolve_effective_pricing p basis))
    \<and> map tier_from (eff_tiers (resolve_effective_pricing p basis)) = map pin_from (pin_tiers p)
    \<and> list_all2 prices_le tiers (eff_tiers (resolve_effective_pricing p basis))
    \<and> (\<forall>us. tiers_ordered 0 base us \<and> list_all2 (\<lambda>t u. prices_le t u \<and> tier_from t = tier_from u) tiers us
         \<longrightarrow> list_all2 prices_le (eff_tiers (resolve_effective_pricing p basis)) us)
    \<and> (find_resolved_price_tier_issues p basis = [] \<longrightarrow> eff_tiers (resolve_effective_pricing p basis) = tiers)"
proof -
  let ?e = "resolve_effective_pricing p basis"
  have tiers: "eff_tiers ?e = raise_tiers base tiers" and trunc: "token_prices.truncate ?e = base"
    using assms(2) by (simp_all add: resolve_effective_pricing_def token_prices.extend_def token_prices.truncate_def)
  have froms: "map tier_from tiers = map pin_from (pin_tiers p)"
    using assms(2) by (auto simp: resolve_levels_def Let_def)
  have "tiers_ordered 0 base (eff_tiers ?e)"
    using effective_pricing_ok(3) [OF assms(1) refl, of basis] unfolding trunc .
  moreover have "list_all2 prices_le tiers (eff_tiers ?e)"
    unfolding tiers
    by (induction base tiers rule: raise_tiers.induct) (simp_all add: Let_def raise_tier_le)
  moreover have "list_all2 prices_le (eff_tiers ?e) us"
    if "tiers_ordered 0 base us" "list_all2 (\<lambda>t u. prices_le t u \<and> tier_from t = tier_from u) tiers us" for us
    unfolding tiers using that(2,1) by (rule raise_tiers_least) simp
  moreover have "eff_tiers ?e = tiers" if "find_resolved_price_tier_issues p basis = []"
    using that assms(2) unfolding tiers
    by (auto simp: find_resolved_price_tier_issues_def intro: resolved_issues_none)
  ultimately show ?thesis
    using froms by (simp add: tiers)
qed

theorem raised_pricing_least_witness:
  "map tier_from (eff_tiers (resolve_effective_pricing sample_pinned (Registry Google))) = [1000]"
proof -
  obtain base tiers where "resolve_levels sample_pinned (Registry Google) = (base, tiers)"
    by (metis surj_pair)
  from raised_pricing_least [OF sample_pinned_ok this] show ?thesis
    by (simp add: sample_pinned_def)
qed

section \<open>Reported usage\<close>

text \<open>
  A usage report that normalizes has no malformed count, at least one reading, and every reading is well formed: the prompt is the
  sum of its uncached, read and written tokens, reasoning is part of the output, and whatever total
  the provider reported is covered by prompt plus output in every reading.
\<close>

theorem normalized_usage_covers_total:
  assumes "normalize_provider_usage event = Some n"
  shows "nu_prompt n \<noteq> []
    \<and> (\<forall>s \<in> set (nu_prompt n). 0 \<le> sp_uncached s \<and> 0 \<le> sp_read s \<and> 0 \<le> sp_write s
         \<and> sp_prompt s = sp_uncached s + sp_read s + sp_write s)
    \<and> 0 \<le> nu_reasoning n \<and> nu_reasoning n \<le> nu_output n
    \<and> (\<exists>u. usage_record event = Some u \<and> Invalid \<notin> set (all_fields (usage_fields_of u))
         \<and> (\<forall>s \<in> set (nu_prompt n). \<forall>t. count (field u ''total_tokens'') = Count t \<longrightarrow> t \<le> sp_prompt s + nu_output n))"
  using assms
proof (rule normalize_provider_usage_SomeE)
  fix u cost
  assume u: "usage_record event = Some u" "Invalid \<notin> set (all_fields (usage_fields_of u))"
    and cost: "provider_cost (field u ''cost'') = Some cost"
    and n: "normalize_fields (usage_fields_of u) cost = Some n"
  have "usage_ok n \<and> (\<forall>s \<in> set (nu_prompt n). \<forall>t. f_total (usage_fields_of u) = Count t \<longrightarrow> t \<le> sp_prompt s + nu_output n)"
    by (rule normalize_fields_ok [OF n all_fields_count_ok]) (use cost provider_cost_safe in blast)
  with u show ?thesis
    by (auto simp: usage_ok_def split_ok_def usage_fields_of_def)
qed

definition sample_event :: json where
  "sample_event = JObj [(''usage'', JObj [(''input_tokens'', JInt 10), (''output_tokens'', JInt 4),
     (''cache_read_input_tokens'', JInt 6), (''total_tokens'', JInt 25)])]"

lemma sample_event_usage: "normalize_provider_usage sample_event = Some
    \<lparr>nu_prompt = [\<lparr>sp_prompt = 16, sp_uncached = 10, sp_read = 6, sp_write = 0\<rparr>],
     nu_output = 15, nu_reasoning = 0, nu_provider_cost = None\<rparr>"
  by code_simp

theorem normalized_usage_covers_total_witness:
  "\<exists>u. usage_record sample_event = Some u \<and> Invalid \<notin> set (all_fields (usage_fields_of u))"
  using normalized_usage_covers_total [OF sample_event_usage] by blast

text \<open>
  A report is charged at its most expensive reading. The charge is the price of one of the
  readings, raised to the provider's own stated cost where that is higher, so no other reading and no stated cost exceeds
  it, and it stays a safe integer.
\<close>

theorem usage_charged_at_most_expensive:
  assumes "usage_from_provider event pricing = Some u"
  shows "\<exists>n. normalize_provider_usage event = Some n
    \<and> (\<exists>s \<in> set (nu_prompt n). us_input u = sp_prompt s \<and> us_read u = sp_read s \<and> us_write u = sp_write s
         \<and> us_cost u = max (us_cost (price_split pricing n s)) (or_zero (nu_provider_cost n)))
    \<and> us_output u = nu_output n
    \<and> (\<forall>s \<in> set (nu_prompt n). us_cost (price_split pricing n s) \<le> us_cost u)
    \<and> or_zero (nu_provider_cost n) \<le> us_cost u \<and> us_cost u \<le> max_safe"
proof -
  from assms obtain n where n: "normalize_provider_usage event = Some n" and u: "u = cost_usage n pricing"
    by (auto simp: usage_from_provider_def split: option.splits)
  have ok: "usage_ok n" using n by (rule normalize_usage_ok)
  then have safe: "or_zero (nu_provider_cost n) \<le> max_safe"
    by (auto simp: usage_ok_def or_zero_def split: option.split)
  have split_safe: "us_cost (price_split pricing n s) \<le> max_safe" for s
    by (simp add: price_split_def Let_def saturating_add_def)
  show ?thesis
  proof (rule cost_usage_cases [OF ok, of pricing, folded u])
    fix s
    assume s: "s \<in> set (nu_prompt n)" "us_input u = sp_prompt s" "us_output u = nu_output n"
      "us_read u = sp_read s" "us_write u = sp_write s"
      and cost: "us_cost u = max (us_cost (price_split pricing n s)) (or_zero (nu_provider_cost n))"
      and best: "\<And>s'. s' \<in> set (nu_prompt n) \<Longrightarrow> us_cost (price_split pricing n s') \<le> us_cost (price_split pricing n s)"
    have "us_cost (price_split pricing n s') \<le> us_cost u" if "s' \<in> set (nu_prompt n)" for s'
      using best [OF that] cost by linarith
    moreover have "or_zero (nu_provider_cost n) \<le> us_cost u" "us_cost u \<le> max_safe"
      using cost safe split_safe [of s] by linarith+
    ultimately show ?thesis
      using n s cost by blast
  qed
qed

theorem usage_charged_at_most_expensive_witness:
  "\<exists>n. normalize_provider_usage sample_event = Some n"
proof -
  have "\<exists>u. usage_from_provider sample_event
      \<lparr>base_input = 1, base_output = 2, base_read = None, base_write = None, price_tiers = []\<rparr> = Some u"
    by (simp add: usage_from_provider_def sample_event_usage)
  then obtain u where "usage_from_provider sample_event
      \<lparr>base_input = 1, base_output = 2, base_read = None, base_write = None, price_tiers = []\<rparr> = Some u" ..
  from usage_charged_at_most_expensive [OF this] show ?thesis by blast
qed

end
