(* ===== verification/LeaseRegistry.thy ===== *)
theory LeaseRegistry
  imports Budget
begin

text \<open>
  \<open>apps/model-gateway/src/lease-registry.ts\<close>: issuing, consuming, revoking and settling leases.

  Grants are objects that in-flight requests keep and update, so they live in a heap here and the
  registry's maps hold their addresses. The SHA-256 digest is the parameter \<open>dg\<close>; the random tokens
  an issue draws are a list. Every operation takes the clock readings it makes: \<open>t\<close> for the prune
  it starts with and \<open>t'\<close> for what it reads afterwards.
\<close>

section \<open>State\<close>

datatype retire_reason = Revoked | Expired

record lease_settlement =
  st_lease :: string
  st_reason :: retire_reason
  st_at :: int
  st_initial_input :: int
  st_initial_output :: int
  st_initial_cost :: int
  st_cost :: int
  st_overrun :: int
  st_prompt :: int
  st_read :: int
  st_write :: int
  st_output :: int
  st_reasoning :: int
  st_requests :: int
  st_without_usage :: int

record retired_lease =
  rt_at :: int
  rt_reason :: retire_reason
  rt_grant :: nat
  rt_frozen :: "lease_settlement option"

record registry =
  lr_heap :: "nat \<Rightarrow> lease_grant"
  lr_fresh :: nat
  leases :: "(string, nat) jmap"
  active :: "(string, nat) jmap"
  used :: "(string, retired_lease) jmap"
  keys_by_id :: "(string, string) jmap"
  ids_by_key :: "(string, string) jmap"
  max_entries :: int

definition empty_grant :: lease_grant where
  "empty_grant = \<lparr>lg_agent = [], lg_profile = [], lg_expires = 0, rem_input = 0, rem_output = 0, rem_cost = 0,
     lg_acc = \<lparr>initial_input = 0, initial_output = 0, initial_cost = 0, overrun_cost = 0, unabsorbed_cost = 0,
       acc_prompt = 0, acc_read = 0, acc_write = 0, acc_output = 0, acc_reasoning = 0, acc_requests = 0,
       acc_without_usage = 0\<rparr>\<rparr>"

definition new_registry :: "int \<Rightarrow> registry" where
  "new_registry n = \<lparr>lr_heap = (\<lambda>_. empty_grant), lr_fresh = 0, leases = [], active = [], used = [],
     keys_by_id = [], ids_by_key = [], max_entries = n\<rparr>"

definition retention_ms :: int where
  "retention_ms = 86400000"

text \<open>\<open>LeaseIssueInput\<close> as the control command carries it: the numbers are checked by \<open>boundedInteger\<close>.\<close>

record issue_input =
  li_lease_id :: string
  li_agent :: string
  li_profile :: string
  li_ttl :: json
  li_input :: json
  li_output :: json
  li_cost :: json

datatype lease_error =
    CapacityReached | LeaseIdInvalid | LeaseIdRegistered | AgentIdInvalid | ProfileMismatch
  | OutOfBounds string | InvalidLease | RevokedOrExpired | LeaseExpired | BindingMismatch

section \<open>Patterns\<close>

definition is_token_char :: "char \<Rightarrow> bool" where
  "is_token_char c = (is_alnum_char c \<or> c = CHR ''_'' \<or> c = CHR ''-'')"

definition all_in_class :: "(char \<Rightarrow> bool) \<Rightarrow> nat \<Rightarrow> nat \<Rightarrow> string \<Rightarrow> bool" where
  "all_in_class P lo hi s = (lo \<le> length s \<and> length s \<le> hi \<and> list_all P s)"

text \<open>\<open>AGENT_ID_PATTERN\<close>, \<open>LEASE_PATTERN\<close> and the pattern of lease ids.\<close>

definition agent_id_ok :: "string \<Rightarrow> bool" where
  "agent_id_ok s = (take 6 s = ''agent_'' \<and> all_in_class is_token_char 20 80 (drop 6 s))"

definition lease_token_ok :: "string \<Rightarrow> bool" where
  "lease_token_ok s = all_in_class is_token_char 43 256 s"

definition lease_id_ok :: "string \<Rightarrow> bool" where
  "lease_id_ok s = all_in_class (\<lambda>c. is_alnum_char c \<or> c \<in> set ''._:-'') 1 128 s"

section \<open>Grants and settlements\<close>

definition create_lease_grant :: "string \<Rightarrow> string \<Rightarrow> int \<Rightarrow> int \<Rightarrow> int \<Rightarrow> int \<Rightarrow> lease_grant" where
  "create_lease_grant agent profile expires inp outp cost =
     \<lparr>lg_agent = agent, lg_profile = profile, lg_expires = expires,
      rem_input = inp, rem_output = outp, rem_cost = cost,
      lg_acc = \<lparr>initial_input = inp, initial_output = outp, initial_cost = cost, overrun_cost = 0,
        unabsorbed_cost = 0, acc_prompt = 0, acc_read = 0, acc_write = 0, acc_output = 0,
        acc_reasoning = 0, acc_requests = 0, acc_without_usage = 0\<rparr>\<rparr>"

definition settlement_of :: "string \<Rightarrow> retired_lease \<Rightarrow> lease_grant \<Rightarrow> lease_settlement" where
  "settlement_of lease_id rt g = (let a = lg_acc g in
     \<lparr>st_lease = lease_id, st_reason = rt_reason rt, st_at = rt_at rt,
      st_initial_input = initial_input a, st_initial_output = initial_output a,
      st_initial_cost = initial_cost a,
      st_cost = saturating_add [initial_cost a - rem_cost g, unabsorbed_cost a],
      st_overrun = overrun_cost a, st_prompt = acc_prompt a, st_read = acc_read a,
      st_write = acc_write a, st_output = acc_output a, st_reasoning = acc_reasoning a,
      st_requests = acc_requests a, st_without_usage = acc_without_usage a\<rparr>)"

definition bounded_integer :: "json \<Rightarrow> string \<Rightarrow> int \<Rightarrow> int \<Rightarrow> (lease_error, int) result" where
  "bounded_integer v label lo hi = (case as_safe_integer v of
     None \<Rightarrow> Inl (OutOfBounds label)
   | Some n \<Rightarrow> if n < lo \<or> n > hi then Inl (OutOfBounds label) else Inr n)"

section \<open>Retirement and pruning\<close>

definition retire :: "string \<Rightarrow> nat \<Rightarrow> retire_reason \<Rightarrow> int \<Rightarrow> registry \<Rightarrow> registry" where
  "retire key a reason t r = r
     \<lparr>leases := jdel key (leases r), active := jdel key (active r),
      used := jset key \<lparr>rt_at = t, rt_reason = reason, rt_grant = a, rt_frozen = None\<rparr> (used r)\<rparr>"

text \<open>The loop over one of the live maps: the map's entries when the loop starts, each retired when expired.\<close>

fun prune_expired :: "int \<Rightarrow> (string \<times> nat) list \<Rightarrow> registry \<Rightarrow> registry" where
  "prune_expired t [] r = r"
| "prune_expired t ((k, a) # es) r =
     prune_expired t es (if lg_expires (lr_heap r a) \<le> t then retire k a Expired t r else r)"

definition remove_lease_id :: "string \<Rightarrow> registry \<Rightarrow> registry" where
  "remove_lease_id key r = r
     \<lparr>keys_by_id := (case jget (ids_by_key r) key of Some i \<Rightarrow> jdel i (keys_by_id r) | None \<Rightarrow> keys_by_id r),
      ids_by_key := jdel key (ids_by_key r)\<rparr>"

definition forget :: "string \<Rightarrow> registry \<Rightarrow> registry" where
  "forget key r = remove_lease_id key (r\<lparr>used := jdel key (used r)\<rparr>)"

fun prune_used :: "int \<Rightarrow> (string \<times> retired_lease) list \<Rightarrow> registry \<Rightarrow> registry" where
  "prune_used horizon [] r = r"
| "prune_used horizon ((k, rt) # es) r =
     prune_used horizon es (if rt_at rt < horizon then forget k r else r)"

definition prune :: "int \<Rightarrow> registry \<Rightarrow> registry" where
  "prune t r = (let r1 = prune_expired t (leases r) r;
                    r2 = prune_expired t (active r1) r1
                in prune_used (t - retention_ms) (used r2) r2)"

section \<open>Operations\<close>

definition active_count :: "int \<Rightarrow> registry \<Rightarrow> nat \<times> registry" where
  "active_count t r = (let r1 = prune t r in (length (leases r1) + length (active r1), r1))"

definition key_known :: "registry \<Rightarrow> string \<Rightarrow> bool" where
  "key_known r key = (jhas (leases r) key \<or> jhas (active r) key \<or> jhas (used r) key)"

text \<open>The drawing loop of \<open>issue\<close>: the first token whose digest is not known; \<open>None\<close> when it draws on.\<close>

fun draw_token :: "(string \<Rightarrow> string) \<Rightarrow> registry \<Rightarrow> string list \<Rightarrow> string option" where
  "draw_token dg r [] = None"
| "draw_token dg r (tok # toks) = (if key_known r (dg tok) then draw_token dg r toks else Some tok)"

definition issue :: "(string \<Rightarrow> string) \<Rightarrow> string list \<Rightarrow> int \<Rightarrow> int \<Rightarrow> issue_input \<Rightarrow> gateway_profile \<Rightarrow> registry
    \<Rightarrow> ((lease_error, string) result \<times> registry) option" where
  "issue dg toks t t' inp profile r0 =
     (let r = prune t r0 in
      if int (length (leases r) + length (active r) + length (used r)) \<ge> max_entries r then Some (Inl CapacityReached, r)
      else if \<not> lease_id_ok (li_lease_id inp) then Some (Inl LeaseIdInvalid, r)
      else if jhas (keys_by_id r) (li_lease_id inp) then Some (Inl LeaseIdRegistered, r)
      else if \<not> agent_id_ok (li_agent inp) then Some (Inl AgentIdInvalid, r)
      else if li_profile inp \<noteq> gp_id profile then Some (Inl ProfileMismatch, r)
      else case draw_token dg r toks of None \<Rightarrow> None
      | Some tok \<Rightarrow>
        (let key = dg tok in
         case ebind (bounded_integer (li_ttl inp) ''ttlMs'' 1000 86400000) (\<lambda>ttl.
              ebind (bounded_integer (li_input inp) ''maxInputTokens'' 1 10000000) (\<lambda>i.
              ebind (bounded_integer (li_output inp) ''maxOutputTokens'' 1 2000000) (\<lambda>out.
              ebind (bounded_integer (li_cost inp) ''maxCostMicros'' 0 1000000000000) (\<lambda>c.
                Inr (create_lease_grant (li_agent inp) (li_profile inp) (t' + ttl)
                  (min i (max_input_tokens (gp_limits profile)))
                  (min out (max_output_tokens (gp_limits profile)))
                  (min c (max_cost_micros (gp_limits profile)))))))) of
           Inl e \<Rightarrow> Some (Inl e, r)
         | Inr g \<Rightarrow> Some (Inr tok, r
             \<lparr>lr_heap := (lr_heap r)(lr_fresh r := g), lr_fresh := lr_fresh r + 1,
              leases := jset key (lr_fresh r) (leases r),
              keys_by_id := jset (li_lease_id inp) key (keys_by_id r),
              ids_by_key := jset key (li_lease_id inp) (ids_by_key r)\<rparr>)))"

definition consume :: "(string \<Rightarrow> string) \<Rightarrow> int \<Rightarrow> int \<Rightarrow> string \<Rightarrow> string \<Rightarrow> string \<Rightarrow> registry
    \<Rightarrow> (lease_error, nat) result \<times> registry" where
  "consume dg t t' tok agent profile r0 =
     (let r = prune t r0 in
      if \<not> lease_token_ok tok then (Inl InvalidLease, r)
      else
       (let key = dg tok; pending = jget (leases r) key;
            grant = (case pending of Some a \<Rightarrow> Some a | None \<Rightarrow> jget (active r) key)
        in case grant of
             None \<Rightarrow> (Inl (if list_ex (\<lambda>k. k = key) (jkeys (used r)) then RevokedOrExpired else InvalidLease), r)
           | Some a \<Rightarrow>
              (if lg_expires (lr_heap r a) \<le> t' then (Inl LeaseExpired, retire key a Expired t' r)
               else if lg_agent (lr_heap r a) \<noteq> agent \<or> lg_profile (lr_heap r a) \<noteq> profile
                 then (Inl BindingMismatch, r)
               else if pending \<noteq> None
                 then (Inr a, r\<lparr>leases := jdel key (leases r), active := jset key a (active r)\<rparr>)
               else (Inr a, r))))"

definition binding_for :: "registry \<Rightarrow> string \<Rightarrow> nat option" where
  "binding_for r lease_id = (case jget (keys_by_id r) lease_id of None \<Rightarrow> None
     | Some key \<Rightarrow> (case jget (leases r) key of Some a \<Rightarrow> Some a
        | None \<Rightarrow> (case jget (active r) key of Some a \<Rightarrow> Some a
        | None \<Rightarrow> (case jget (used r) key of Some rt \<Rightarrow> Some (rt_grant rt) | None \<Rightarrow> None))))"

definition revoke :: "int \<Rightarrow> int \<Rightarrow> string \<Rightarrow> registry \<Rightarrow> bool \<times> registry" where
  "revoke t t' lease_id r0 = (let r = prune t r0 in
     case jget (keys_by_id r) lease_id of None \<Rightarrow> (False, r)
     | Some key \<Rightarrow>
        (case (case jget (leases r) key of Some a \<Rightarrow> Some a | None \<Rightarrow> jget (active r) key) of
           None \<Rightarrow> (False, r)
         | Some a \<Rightarrow> (True, retire key a Revoked t' r)))"

definition retired_of :: "registry \<Rightarrow> string \<Rightarrow> retired_lease option" where
  "retired_of r lease_id = (case jget (keys_by_id r) lease_id of None \<Rightarrow> None | Some key \<Rightarrow> jget (used r) key)"

definition settlement_for :: "int \<Rightarrow> string \<Rightarrow> registry \<Rightarrow> lease_settlement option \<times> registry" where
  "settlement_for t lease_id r0 = (let r = prune t r0 in
     case retired_of r lease_id of None \<Rightarrow> (None, r)
     | Some rt \<Rightarrow> (Some (case rt_frozen rt of Some s \<Rightarrow> s
         | None \<Rightarrow> settlement_of lease_id rt (lr_heap r (rt_grant rt))), r))"

definition freeze_settlement :: "int \<Rightarrow> string \<Rightarrow> registry \<Rightarrow> lease_settlement option \<times> registry" where
  "freeze_settlement t lease_id r0 = (let r = prune t r0 in
     case jget (keys_by_id r) lease_id of None \<Rightarrow> (None, r)
     | Some key \<Rightarrow> (case jget (used r) key of None \<Rightarrow> (None, r)
        | Some rt \<Rightarrow>
           (let s = (case rt_frozen rt of Some s \<Rightarrow> s
              | None \<Rightarrow> settlement_of lease_id rt (lr_heap r (rt_grant rt)))
            in (Some s, r\<lparr>used := jset key (rt\<lparr>rt_frozen := Some s\<rparr>) (used r)\<rparr>))))"

text \<open>The in-place updates of a grant by the requests that hold it.\<close>

definition update_grant :: "nat \<Rightarrow> lease_grant \<Rightarrow> registry \<Rightarrow> registry" where
  "update_grant a g r = r\<lparr>lr_heap := (lr_heap r)(a := g)\<rparr>"

end
