(* ===== verification/Decimals.thy ===== *)
theory Decimals
  imports Prelude
begin

text \<open>
  Decimal numerals: reading a digit string, and that printing a natural number and reading it back is
  the identity, also with leading zeros to a fixed width. Used by the address rules and by the window keys of the spend ledger.
\<close>

definition digit_value :: "char \<Rightarrow> int" where
  "digit_value c = int (code c) - 48"

definition dec_number :: "string \<Rightarrow> int" where
  "dec_number s = foldl (\<lambda>n c. 10 * n + digit_value c) 0 s"

lemma dec_number_snoc: "dec_number (s @ [c]) = 10 * dec_number s + digit_value c"
  by (simp add: dec_number_def)

lemma digit_value_char: "n < 10 \<Longrightarrow> digit_value (char_of (48 + n)) = int n"
  by (simp add: digit_value_def code_def)

lemma show_nat_small: "n < 10 \<Longrightarrow> show_nat n = [char_of (48 + n)]"
  by (simp add: show_nat_def digits_rev.simps [of n])

lemma show_nat_step: "10 \<le> n \<Longrightarrow> show_nat n = show_nat (n div 10) @ [char_of (48 + n mod 10)]"
  by (simp add: show_nat_def digits_rev.simps [of n])

lemma show_nat_not_Nil [simp]: "show_nat n \<noteq> []"
  by (simp add: show_nat_def digits_rev_not_Nil)

lemma dec_number_show: "dec_number (show_nat n) = int n"
proof (induction n rule: digits_rev.induct)
  case (1 n)
  show ?case
  proof (cases "n < 10")
    case True
    then show ?thesis by (simp add: show_nat_small dec_number_def digit_value_char)
  next
    case False
    then have "dec_number (show_nat (n div 10)) = int (n div 10)"
      using 1 by blast
    with False show ?thesis
      by (simp add: show_nat_step dec_number_snoc digit_value_char zdiv_int zmod_int)
  qed
qed

lemma show_nat_leading: "0 < n \<Longrightarrow> hd (show_nat n) \<noteq> CHR ''0''"
proof (induction n rule: digits_rev.induct)
  case (1 n)
  show ?case
  proof (cases "n < 10")
    case True
    have "code (char_of (48 + n)) = 48 + n" "code CHR ''0'' = 48" using True by (simp_all add: code_def)
    then have "char_of (48 + n) \<noteq> CHR ''0''" using 1(2) by (metis add_cancel_right_right less_numeral_extra(3))
    with True show ?thesis by (simp add: show_nat_small)
  next
    case False
    then have "hd (show_nat (n div 10)) \<noteq> CHR ''0''" using 1(1) by simp
    with False show ?thesis by (simp add: show_nat_step)
  qed
qed

lemma show_nat_length: "n < 1000 \<Longrightarrow> length (show_nat n) \<le> 3" "n < 100 \<Longrightarrow> length (show_nat n) \<le> 2"
  "n < 10 \<Longrightarrow> length (show_nat n) = 1"
proof -
  show one: "length (show_nat m) = 1" if "m < 10" for m using that by (simp add: show_nat_small)
  show two: "length (show_nat m) \<le> 2" if "m < 100" for m
    using that one [of m] one [of "m div 10"] show_nat_step [of m] by (cases "m < 10") auto
  show "length (show_nat m) \<le> 3" if "m < 1000" for m
    using that one [of m] two [of "m div 10"] show_nat_step [of m] by (cases "m < 10") auto
qed

lemma show_nat_inject: "show_nat m = show_nat n \<longleftrightarrow> m = n"
  using dec_number_show by (metis of_nat_eq_iff)

section \<open>Fixed width\<close>

definition pad_digits :: "nat \<Rightarrow> int \<Rightarrow> string" where
  "pad_digits w n = (let s = show_nat (nat n) in replicate (w - length s) CHR ''0'' @ s)"

lemma dec_number_zeros: "dec_number (replicate k CHR ''0'' @ s) = dec_number s"
proof (induction k)
  case 0
  then show ?case by simp
next
  case (Suc k)
  have "digit_value CHR ''0'' = 0" by (simp add: digit_value_def code_def)
  with Suc show ?case by (simp add: dec_number_def)
qed

lemma dec_number_pad: "0 \<le> n \<Longrightarrow> dec_number (pad_digits w n) = n"
  by (simp add: pad_digits_def Let_def dec_number_zeros dec_number_show)

lemma pad_digits_inject: "0 \<le> m \<Longrightarrow> 0 \<le> n \<Longrightarrow> pad_digits w m = pad_digits w n \<longleftrightarrow> m = n"
  by (metis dec_number_pad)

lemma show_nat_width: "n < 10 ^ w \<Longrightarrow> 0 < w \<Longrightarrow> length (show_nat n) \<le> w"
proof (induction w arbitrary: n)
  case 0
  then show ?case by simp
next
  case (Suc w)
  show ?case
  proof (cases "n < 10")
    case True
    then show ?thesis by (simp add: show_nat_small)
  next
    case False
    then have "w \<noteq> 0" using Suc.prems by (cases w) simp_all
    then have "length (show_nat (n div 10)) \<le> w"
      using Suc by (simp add: less_mult_imp_div_less mult.commute)
    with False show ?thesis by (simp add: show_nat_step)
  qed
qed

lemma length_pad_digits: "0 \<le> n \<Longrightarrow> n < 10 ^ w \<Longrightarrow> 0 < w \<Longrightarrow> length (pad_digits w n) = w"
  using show_nat_width [of "nat n" w] by (simp add: pad_digits_def Let_def nat_less_iff)

end
