(* ===== verification/AddressPolicy.thy ===== *)
theory AddressPolicy
  imports Decimals "HOL-Library.Word"
begin

text \<open>
  The address rules of \<open>apps/model-gateway/src/config.ts\<close>: \<open>privateIpv4\<close>, \<open>ipv6Words\<close>,
  \<open>isUnsafeAddress\<close> and \<open>assertProductionHostname\<close>. Host names are ASCII: \<open>URL.hostname\<close> and the
  resolver return punycode and address literals. \<open>is_ipv4\<close> and \<open>is_ipv6\<close> are Node's \<open>net.isIP\<close>.
\<close>

section \<open>Strings\<close>

text \<open>\<open>s.split(c)\<close>: one element more than there are separators.\<close>

fun split_char :: "char \<Rightarrow> string \<Rightarrow> string list" where
  "split_char c [] = [[]]"
| "split_char c (x # xs) =
     (if x = c then [] # split_char c xs
      else (case split_char c xs of [] \<Rightarrow> [[x]] | w # ws \<Rightarrow> (x # w) # ws))"

text \<open>\<open>s.split('::')\<close>: non-overlapping, from the left.\<close>

fun split_double :: "string \<Rightarrow> string list" where
  "split_double [] = [[]]"
| "split_double [x] = [[x]]"
| "split_double (x # y # xs) =
     (if x = CHR '':'' \<and> y = CHR '':'' then [] # split_double xs
      else (case split_double (y # xs) of [] \<Rightarrow> [[x]] | w # ws \<Rightarrow> (x # w) # ws))"

definition hex_value :: "char \<Rightarrow> int option" where
  "hex_value c = (if is_digit_char c then Some (int (code c) - 48)
     else if 97 \<le> code c \<and> code c \<le> 102 then Some (int (code c) - 87)
     else if 65 \<le> code c \<and> code c \<le> 70 then Some (int (code c) - 55) else None)"

text \<open>\<open>Number.parseInt(s, 16)\<close> on a word of hexadecimal digits; \<open>None\<close> is \<open>NaN\<close>.\<close>

fun hex_digits :: "int \<Rightarrow> string \<Rightarrow> int" where
  "hex_digits n [] = n"
| "hex_digits n (c # cs) = (case hex_value c of Some d \<Rightarrow> hex_digits (16 * n + d) cs | None \<Rightarrow> n)"

definition parse_hex :: "string \<Rightarrow> int option" where
  "parse_hex s = (case s of [] \<Rightarrow> None | c # cs \<Rightarrow> (case hex_value c of None \<Rightarrow> None | Some d \<Rightarrow> Some (hex_digits d cs)))"

section \<open>net.isIP\<close>

definition is_v4_segment :: "string \<Rightarrow> bool" where
  "is_v4_segment s = (s \<noteq> [] \<and> length s \<le> 3 \<and> list_all is_digit_char s
     \<and> (length s = 1 \<or> hd s \<noteq> CHR ''0'') \<and> dec_number s \<le> 255)"

definition is_ipv4 :: "string \<Rightarrow> bool" where
  "is_ipv4 s = (let parts = split_char CHR ''.'' s in length parts = 4 \<and> list_all is_v4_segment parts)"

definition is_hextet :: "string \<Rightarrow> bool" where
  "is_hextet s = (s \<noteq> [] \<and> length s \<le> 4 \<and> list_all (\<lambda>c. hex_value c \<noteq> None) s)"

text \<open>How many 16-bit words one side of \<open>::\<close> writes; \<open>None\<close> when it is not a list of words. A dotted tail is two words.\<close>

definition side_words :: "bool \<Rightarrow> string \<Rightarrow> nat option" where
  "side_words tail_ok s = (if s = [] then Some 0 else
     (let parts = split_char CHR '':'' s in
      if list_all is_hextet parts then Some (length parts)
      else if tail_ok \<and> list_all is_hextet (butlast parts) \<and> is_ipv4 (last parts) then Some (length parts + 1)
      else None))"

definition is_ipv6 :: "string \<Rightarrow> bool" where
  "is_ipv6 s = (case split_double s of
     [a] \<Rightarrow> side_words True a = Some 8
   | [a, b] \<Rightarrow> (case (side_words False a, side_words True b) of (Some m, Some n) \<Rightarrow> m + n \<le> 7 | _ \<Rightarrow> False)
   | _ \<Rightarrow> False)"

section \<open>Private ranges\<close>

definition private_ipv4 :: "string \<Rightarrow> bool" where
  "private_ipv4 address =
     (let parts = map dec_number (split_char CHR ''.'' address);
          part = (\<lambda>i. if i < length parts then parts ! i else -1);
          f = part 0; s = part 1; t = part 2
      in f = 0 \<or> f = 10 \<or> f = 127
       \<or> (f = 169 \<and> s = 254) \<or> (f = 172 \<and> s \<ge> 16 \<and> s \<le> 31)
       \<or> (f = 192 \<and> (s = 168 \<or> s = 0 \<or> (s = 0 \<and> t = 2)))
       \<or> (f = 100 \<and> s \<ge> 64 \<and> s \<le> 127) \<or> (f = 198 \<and> (s = 18 \<or> s = 19 \<or> s = 51))
       \<or> (f = 203 \<and> s = 0 \<and> t = 113) \<or> f \<ge> 224)"

text \<open>The text up to and including the last colon, and what follows it.\<close>

definition after_last_colon :: "string \<Rightarrow> string" where
  "after_last_colon s = rev (takeWhile (\<lambda>c. c \<noteq> CHR '':'') (rev s))"

definition upto_last_colon :: "string \<Rightarrow> string" where
  "upto_last_colon s = rev (dropWhile (\<lambda>c. c \<noteq> CHR '':'') (rev s))"

definition parse_side :: "string \<Rightarrow> int option list" where
  "parse_side s = (if s = [] then [] else map parse_hex (split_char CHR '':'' s))"

text \<open>
  \<open>ipv6Words\<close>. A dotted tail is replaced by one word \<open>0\<close>, which is dropped again once the sides are
  parsed. \<open>Array(8 - n).fill(0)\<close> throws for a negative count, which no literal accepted by
  \<open>is_ipv6\<close> reaches; the model returns \<open>None\<close> there.
\<close>

definition ipv6_words :: "string \<Rightarrow> int list option" where
  "ipv6_words address =
     (let embedded = after_last_colon address;
          octets = map dec_number (split_char CHR ''.'' embedded);
          dotted = is_ipv4 embedded;
          tail = (if dotted then [Some (octets ! 0 * 256 + octets ! 1), Some (octets ! 2 * 256 + octets ! 3)] else []);
          text = (if dotted then upto_last_colon address @ ''0'' else address);
          halves = split_double text
      in if length halves > 2 then None else
     (let head0 = parse_side (halves ! 0);
          rest0 = (if length halves = 2 then parse_side (halves ! 1) else []);
          head = (if dotted \<and> rest0 = [] then butlast head0 else head0);
          rest = (if dotted then butlast rest0 else rest0);
          explicit = head @ rest @ tail;
          words = (if length halves = 2 then head @ replicate (8 - length explicit) (Some 0) @ rest @ tail else explicit)
      in if length halves = 2 \<and> length explicit > 8 then None
         else if length words = 8 \<and> list_all (\<lambda>w. case w of Some n \<Rightarrow> 0 \<le> n \<and> n \<le> 65535 | None \<Rightarrow> False) words
         then Some (map the words) else None))"

text \<open>The ranges refused, on the eight words; the words are 16-bit, so the masks are word operations.\<close>

definition unsafe_words :: "int list \<Rightarrow> bool" where
  "unsafe_words ws =
     (let w = (\<lambda>i. word_of_int (ws ! i) :: 16 word);
          zero_prefix = (w 0 = 0 \<and> w 1 = 0 \<and> w 2 = 0 \<and> w 3 = 0)
      in (zero_prefix \<and> ((w 4 = 0 \<and> (w 5 = 0 \<or> w 5 = 0xffff)) \<or> (w 4 = 0xffff \<and> w 5 = 0)))
       \<or> (w 0 = 0x64 \<and> w 1 = 0xff9b \<and> (w 2 = 1 \<or> (w 2 = 0 \<and> w 3 = 0 \<and> w 4 = 0 \<and> w 5 = 0)))
       \<or> (w 0 = 0x2002 \<or> (w 0 = 0x2001 \<and> w 1 = 0))
       \<or> and (w 0) 0xfe00 = 0xfc00 \<or> and (w 0) 0xffc0 = 0xfe80 \<or> and (w 0) 0xff00 = 0xff00
       \<or> (w 0 = 0x2001 \<and> (w 1 = 0xdb8 \<or> w 1 = 2)) \<or> w 0 = 0x100)"

definition is_unsafe_address :: "string \<Rightarrow> bool" where
  "is_unsafe_address address =
     (let normalized = hd (split_char CHR ''%'' (to_lower address)) in
      if is_ipv4 normalized then private_ipv4 normalized
      else if is_ipv6 normalized then (case ipv6_words normalized of None \<Rightarrow> True | Some ws \<Rightarrow> unsafe_words ws)
      else True)"

definition unsafe_suffixes :: "string list" where
  "unsafe_suffixes = [''.localhost'', ''.local'', ''.internal'', ''.home'', ''.lan'', ''.corp'', ''.test'',
     ''.invalid'', ''.example'', ''.arpa'']"

text \<open>\<open>.replace(/\.$/u, '')\<close>.\<close>

definition drop_final_dot :: "string \<Rightarrow> string" where
  "drop_final_dot s = (if s \<noteq> [] \<and> last s = CHR ''.'' then butlast s else s)"

text \<open>\<open>assertProductionHostname\<close> as a test: it throws exactly when this is false.\<close>

definition production_hostname_ok :: "string \<Rightarrow> bool" where
  "production_hostname_ok hostname =
     (let lower = drop_final_dot (to_lower hostname) in
      \<not> (lower = ''localhost'' \<or> list_ex (\<lambda>s. ends_with s lower) unsafe_suffixes
         \<or> lower = ''metadata.google.internal'' \<or> CHR ''.'' \<notin> set lower)
      \<and> \<not> ((is_ipv4 lower \<or> is_ipv6 lower) \<and> is_unsafe_address lower))"

section \<open>The address an upstream request connects to\<close>

text \<open>
  \<open>upstreamHost\<close> and \<open>resolveAddress\<close> of \<open>upstream.ts\<close>. The resolver is the list of addresses and
  families it returns for the host; it may be empty.
\<close>

definition upstream_host :: "string \<Rightarrow> string" where
  "upstream_host hostname =
     (if starts_with ''['' hostname \<and> ends_with '']'' hostname then butlast (tl hostname) else hostname)"

definition ip_family :: "string \<Rightarrow> int" where
  "ip_family s = (if is_ipv4 s then 4 else if is_ipv6 s then 6 else 0)"

definition resolve_address :: "(string \<Rightarrow> (string \<times> int) list) \<Rightarrow> bool \<Rightarrow> string \<Rightarrow> (string, string \<times> int) result" where
  "resolve_address lookup allow_private hostname =
     (let host = upstream_host hostname; literal = ip_family host in
      if literal = 4 \<or> literal = 6 then
        (if \<not> allow_private \<and> is_unsafe_address host then Inl ''unsafe upstream address'' else Inr (host, literal))
      else
        (let addresses = lookup host in
         if addresses = [] then Inl ''upstream hostname did not resolve''
         else case find (\<lambda>p. allow_private \<or> \<not> is_unsafe_address (fst p)) addresses of
                None \<Rightarrow> Inl ''upstream hostname resolved only to unsafe addresses''
              | Some p \<Rightarrow> (if snd p \<noteq> 4 \<and> snd p \<noteq> 6
                  then Inl ''upstream hostname resolved to an unsupported address family'' else Inr p)))"

section \<open>Splitting\<close>

lemma split_char_not_Nil [simp]: "split_char c s \<noteq> []"
  by (induction c s rule: split_char.induct) (auto split: list.split)

lemma split_double_not_Nil [simp]: "split_double s \<noteq> []"
  by (induction s rule: split_double.induct) (auto split: list.split)

end
