(* ===== verification/GatewayControl.thy ===== *)
theory GatewayControl
  imports LeaseRegistry AddressPolicy
begin

text \<open>
  \<open>apps/model-gateway/src/control.ts\<close>: the gateway's routing state and the commands of its control
  socket. A command is a parsed JSON object. \<open>new URL\<close> is the parameter \<open>host_of\<close>: the host name of
  a URL string, \<open>None\<close> when it throws; the record digest is the parameter \<open>digest\<close>.
\<close>

section \<open>Routing state\<close>

text \<open>The parts of \<open>GatewayProfile\<close> that routing adds to what the budget reads.\<close>

record routed_profile = gateway_profile +
  rp_upstream :: string
  rp_secret :: "string option"
  rp_header :: string
  rp_scheme :: string
  rp_test_only :: bool
  rp_allow_private :: bool
  rp_tls_ca :: "string option"
  rp_session :: "string option"

record credential =
  cr_provider :: string
  cr_auth_mode :: string
  cr_secret :: string
  cr_session :: "string option"

record dynamic_registry =
  dr_profiles :: "(string, routed_profile) jmap"
  dr_credentials :: "(string, credential) jmap"
  dr_digest :: string
  dr_boot_id :: string

record gateway_config =
  gc_test_mode :: bool
  gc_profiles :: "(string, routed_profile) jmap"
  gc_tls_ca :: "string option"

text \<open>\<open>createGatewayRuntime\<close> starts with the configured profiles and no credentials.\<close>

definition initial_registry :: "gateway_config \<Rightarrow> string \<Rightarrow> dynamic_registry" where
  "initial_registry config boot = \<lparr>dr_profiles = gc_profiles config, dr_credentials = [], dr_digest = [], dr_boot_id = boot\<rparr>"

datatype control_error =
    InvalidProvider string | InvalidSecret string | InvalidSessionHeader string
  | SessionHeaderName string | ReservedSessionHeader string
  | CollidesWithConfigured string | UnresolvedCredential string
  | BadLimits string | BadPricing config_error | BadUrl string | UnsafeHostname string
  | NotARecord string

section \<open>Session headers\<close>

definition reserved_upstream_headers :: "string list" where
  "reserved_upstream_headers = [''accept'', ''content-type'', ''content-length'', ''host'', ''user-agent'',
     ''authorization'', ''x-api-key'', ''transfer-encoding'', ''te'', ''connection'', ''keep-alive'', ''upgrade'',
     ''trailer'', ''expect'', ''proxy-authorization'', ''proxy-connection'', ''cookie'', ''accept-encoding'',
     ''content-encoding'']"

definition is_header_char :: "char \<Rightarrow> bool" where
  "is_header_char c = (is_lower_char c \<or> is_digit_char c)"

text \<open>\<open>assertSessionHeaderName\<close>: \<open>/^[a-z0-9][a-z0-9-]{1,62}$/u\<close> and not a header the gateway sets.\<close>

definition session_header_name :: "string \<Rightarrow> (control_error, string) result" where
  "session_header_name v =
     (if \<not> (2 \<le> length v \<and> length v \<le> 63 \<and> is_header_char (hd v)
            \<and> list_all (\<lambda>c. is_header_char c \<or> c = CHR ''-'') (tl v)) then Inl (SessionHeaderName v)
      else if v \<in> set reserved_upstream_headers then Inl (ReservedSessionHeader v)
      else Inr v)"

section \<open>Staging a snapshot\<close>

text \<open>\<open>command.x ?? {}\<close> used with \<open>Object.entries\<close>: absent and null read as no entries, a string lists its characters.\<close>

definition entries_or_empty :: "json option \<Rightarrow> (string \<times> json) list" where
  "entries_or_empty v = (case v of None \<Rightarrow> []
     | Some (JStr s) \<Rightarrow> zip (map show_nat [0..<length s]) (map (\<lambda>c. JStr [c]) s)
     | Some j \<Rightarrow> entries j)"

definition stage_credential :: "string \<Rightarrow> json \<Rightarrow> (control_error, credential) result" where
  "stage_credential cid v =
     (case v of JObj ob \<Rightarrow>
        (case field ob ''provider'' of Some (JStr provider) \<Rightarrow>
           (case field ob ''secret'' of Some (JStr secret) \<Rightarrow>
              (if secret = [] then Inl (InvalidSecret cid) else
               (let mode = (if field ob ''authMode'' = Some (JStr ''x-api-key'') then ''x-api-key'' else ''authorization'')
                in case field ob ''sessionHeader'' of
                     None \<Rightarrow> Inr \<lparr>cr_provider = provider, cr_auth_mode = mode, cr_secret = secret, cr_session = None\<rparr>
                   | Some (JStr h) \<Rightarrow> ebind (session_header_name h) (\<lambda>name.
                       Inr \<lparr>cr_provider = provider, cr_auth_mode = mode, cr_secret = secret, cr_session = Some name\<rparr>)
                   | Some _ \<Rightarrow> Inl (InvalidSessionHeader cid)))
            | _ \<Rightarrow> Inl (InvalidSecret cid))
         | _ \<Rightarrow> Inl (InvalidProvider cid))
      | _ \<Rightarrow> Inl (InvalidProvider cid))"

fun stage_credentials :: "(string \<times> json) list \<Rightarrow> (string, credential) jmap \<Rightarrow> (control_error, (string, credential) jmap) result" where
  "stage_credentials [] staged = Inr staged"
| "stage_credentials ((cid, v) # es) staged =
     ebind (stage_credential cid v) (\<lambda>c. stage_credentials es (jset cid c staged))"

definition default_limits :: profile_limits where
  "default_limits = \<lparr>max_request_bytes = 4194304, max_response_bytes = 16777216, max_header_bytes = 16384,
     max_headers = 32, deadline_ms = 300000, max_input_tokens = 400000, max_output_tokens = 128000,
     max_cost_micros = 100000000, max_stream_line_bytes = 1048576\<rparr>"

text \<open>
  \<open>revData.limits.x ?? d\<close>: the runner's schema stores integers here. The code does not check them
  again; a value that is not an integer has no counterpart in the limits record and is rejected by the model.
\<close>

definition limit_or :: "jobject \<Rightarrow> string \<Rightarrow> int \<Rightarrow> (control_error, int) result" where
  "limit_or ob key d = (if \<not> present (field ob key) then Inr d
     else case as_integer (the (field ob key)) of Some n \<Rightarrow> Inr n | None \<Rightarrow> Inl (BadLimits key))"

definition stage_limits :: "json option \<Rightarrow> (control_error, profile_limits) result" where
  "stage_limits v = (case v of
     Some (JObj ob) \<Rightarrow>
       ebind (limit_or ob ''maxInputTokens'' 400000) (\<lambda>i.
       ebind (limit_or ob ''maxOutputTokens'' 128000) (\<lambda>out.
       ebind (limit_or ob ''maxCostMicros'' 100000000) (\<lambda>c.
         Inr (default_limits\<lparr>max_input_tokens := i, max_output_tokens := out, max_cost_micros := c\<rparr>))))
   | _ \<Rightarrow> Inr default_limits)"

text \<open>\<open>revData.x ?? default\<close> for the fields the runner's schema stores as strings.\<close>

definition string_or :: "json option \<Rightarrow> string \<Rightarrow> string" where
  "string_or v d = (case v of Some (JStr s) \<Rightarrow> s | _ \<Rightarrow> d)"

definition stage_profile :: "(string \<Rightarrow> string option) \<Rightarrow> gateway_config \<Rightarrow> (string, credential) jmap
    \<Rightarrow> string \<Rightarrow> json \<Rightarrow> (control_error, routed_profile) result" where
  "stage_profile host_of config creds rid v =
     (if jhas (gc_profiles config) rid then Inl (CollidesWithConfigured rid)
      else case v of JObj ob \<Rightarrow>
       (case (case field ob ''credentialId'' of Some (JStr cid) \<Rightarrow> jget creds cid | _ \<Rightarrow> None) of
          None \<Rightarrow> Inl (UnresolvedCredential rid)
        | Some cred \<Rightarrow>
           ebind (stage_limits (field ob ''limits'')) (\<lambda>limits.
           ebind (case parse_pricing (Some (if present (field ob ''pricing'') then the (field ob ''pricing'') else JObj [])) False (Some 0) of
                    Inl e \<Rightarrow> Inl (BadPricing e) | Inr p \<Rightarrow> Inr p) (\<lambda>pricing.
            let url = string_or (field ob ''upstreamUrl'') ''https://api.openai.com/v1/chat/completions'' in
            case host_of url of None \<Rightarrow> Inl (BadUrl url)
            | Some host \<Rightarrow>
               (if \<not> gc_test_mode config \<and> \<not> production_hostname_ok host then Inl (UnsafeHostname host)
                else Inr \<lparr>gp_id = rid, gp_provider = cr_provider cred,
                  gp_model = string_or (field ob ''model'') ''default'',
                  gp_downstream_path = string_or (field ob ''downstreamPath'') ''/v1/chat/completions'',
                  gp_upstream_host = host, gp_pricing = pricing, gp_limits = limits,
                  rp_upstream = url, rp_secret = Some (cr_secret cred),
                  rp_header = (if cr_auth_mode cred = ''x-api-key'' then ''x-api-key'' else ''authorization''),
                  rp_scheme = (if cr_auth_mode cred = ''x-api-key'' then '''' else ''Bearer''),
                  rp_test_only = gc_test_mode config, rp_allow_private = gc_test_mode config,
                  rp_tls_ca = (if gc_test_mode config then gc_tls_ca config else None),
                  rp_session = cr_session cred\<rparr>))))
      | JNull \<Rightarrow> Inl (NotARecord rid)
      | _ \<Rightarrow> Inl (UnresolvedCredential rid))"

fun stage_profiles :: "(string \<Rightarrow> string option) \<Rightarrow> gateway_config \<Rightarrow> (string, credential) jmap
    \<Rightarrow> (string \<times> json) list \<Rightarrow> (string, routed_profile) jmap \<Rightarrow> (control_error, (string, routed_profile) jmap) result" where
  "stage_profiles host_of config creds [] staged = Inr staged"
| "stage_profiles host_of config creds ((rid, v) # es) staged =
     ebind (stage_profile host_of config creds rid v) (\<lambda>p. stage_profiles host_of config creds es (jset rid p staged))"

section \<open>apply_snapshot\<close>

text \<open>\<open>for (const [k, v] of m) target.set(k, v)\<close>.\<close>

fun set_all :: "('k, 'v) jmap \<Rightarrow> ('k, 'v) jmap \<Rightarrow> ('k, 'v) jmap" where
  "set_all [] m = m"
| "set_all ((k, v) # es) m = set_all es (jset k v m)"

text \<open>
  The registry is a mutable object, so a rejected snapshot's registry is what the failed command left
  in it: the staged maps are built first and nothing is written before they are complete.
\<close>

definition apply_snapshot :: "(string \<Rightarrow> string option) \<Rightarrow> (string \<Rightarrow> string) \<Rightarrow> gateway_config \<Rightarrow> jobject \<Rightarrow> string
    \<Rightarrow> dynamic_registry \<Rightarrow> (control_error, nat \<times> nat) result \<times> dynamic_registry" where
  "apply_snapshot host_of digest config command rec reg =
     (case stage_credentials (entries_or_empty (field command ''credentials'')) [] of
        Inl e \<Rightarrow> (Inl e, reg)
      | Inr creds \<Rightarrow>
     (case stage_profiles host_of config creds (entries_or_empty (field command ''profiles'')) [] of
        Inl e \<Rightarrow> (Inl e, reg)
      | Inr profiles \<Rightarrow>
          (let reg1 = reg\<lparr>dr_credentials := set_all creds []\<rparr>;
               reg2 = reg1\<lparr>dr_profiles := set_all profiles (set_all (gc_profiles config) [])\<rparr>;
               reg3 = reg2\<lparr>dr_digest := ''sha256:'' @ digest rec\<rparr>
           in (Inr (length (dr_profiles reg3), length (dr_credentials reg3)), reg3))))"

section \<open>Looking a profile up\<close>

definition lookup_profile :: "gateway_config \<Rightarrow> dynamic_registry \<Rightarrow> string \<Rightarrow> routed_profile option" where
  "lookup_profile config reg pid = (case jget (dr_profiles reg) pid of Some p \<Rightarrow> Some p
     | None \<Rightarrow> jget (gc_profiles config) pid)"

section \<open>Facts\<close>

lemma set_all_get: "jget (set_all es m) k = (case map_of (rev es) k of Some v \<Rightarrow> Some v | None \<Rightarrow> jget m k)"
  by (induction es m rule: set_all.induct) (auto simp: map_add_def split: option.split)

lemma set_all_jok: "jok es \<Longrightarrow> jget (set_all es m) k = (case jget es k of Some v \<Rightarrow> Some v | None \<Rightarrow> jget m k)"
proof -
  assume ok: "jok es"
  then have "distinct (map fst (rev es))"
    by (simp add: rev_map [symmetric] jok_distinct)
  with ok have "map_of (rev es) = map_of es"
    by (simp add: map_of_inject_set jok_distinct)
  then show ?thesis
    unfolding set_all_get by (simp add: jget_map_of split: option.split)
qed

lemma stage_credentials_jok: "stage_credentials es staged = Inr creds \<Longrightarrow> jok staged \<Longrightarrow> jok creds"
  by (induction es staged rule: stage_credentials.induct) (auto simp: guard_simps)

lemma stage_credentials_from:
  "stage_credentials es staged = Inr creds \<Longrightarrow> jget creds i = Some c
     \<Longrightarrow> jget staged i = Some c \<or> (\<exists>v. (i, v) \<in> set es \<and> stage_credential i v = Inr c)"
  by (induction es staged rule: stage_credentials.induct) (fastforce simp: guard_simps split: if_splits)+

lemma stage_credentials_dom:
  "stage_credentials es staged = Inr creds \<Longrightarrow>
     jget creds i = None \<longleftrightarrow> jget staged i = None \<and> i \<notin> fst ` set es"
proof (induction es staged rule: stage_credentials.induct)
  case (1 staged)
  then show ?case by simp
next
  case (2 cid v es staged)
  from 2(2) obtain c where "stage_credential cid v = Inr c" "stage_credentials es (jset cid c staged) = Inr creds"
    by (auto simp: guard_simps)
  from 2(1) [OF this] show ?case by auto
qed

lemma stage_profiles_jok: "stage_profiles host_of config creds es staged = Inr ps \<Longrightarrow> jok staged \<Longrightarrow> jok ps"
  by (induction host_of config creds es staged rule: stage_profiles.induct) (auto simp: guard_simps)

lemma stage_profiles_from:
  "stage_profiles host_of config creds es staged = Inr ps \<Longrightarrow> jget ps i = Some p
     \<Longrightarrow> jget staged i = Some p \<or> (\<exists>v. (i, v) \<in> set es \<and> stage_profile host_of config creds i v = Inr p)"
  by (induction host_of config creds es staged rule: stage_profiles.induct) (fastforce simp: guard_simps split: if_splits)+

lemma stage_profiles_dom:
  "stage_profiles host_of config creds es staged = Inr ps \<Longrightarrow>
     jget ps i = None \<longleftrightarrow> jget staged i = None \<and> i \<notin> fst ` set es"
proof (induction host_of config creds es staged rule: stage_profiles.induct)
  case (1 host_of config creds staged)
  then show ?case by simp
next
  case (2 host_of config creds rid v es staged)
  from 2(2) obtain p where "stage_profile host_of config creds rid v = Inr p"
      "stage_profiles host_of config creds es (jset rid p staged) = Inr ps"
    by (auto simp: guard_simps)
  from 2(1) [OF this] show ?case by auto
qed

lemma stage_profile_ok:
  assumes "stage_profile host_of config creds rid v = Inr p"
  shows "\<not> jhas (gc_profiles config) rid" "pricing_valid (gp_pricing p)" "gp_id p = rid"
    "gc_test_mode config \<or> production_hostname_ok (gp_upstream_host p)"
    "\<exists>cid c. jget creds cid = Some c \<and> rp_secret p = Some (cr_secret c) \<and> gp_provider p = cr_provider c"
proof -
  from assms obtain ob where v: "v = JObj ob" and fresh: "\<not> jhas (gc_profiles config) rid"
    by (auto simp: stage_profile_def split: if_splits json.splits)
  from assms v fresh obtain cid cred pricing host where
    cred: "jget creds cid = Some cred"
    and pricing: "parse_pricing (Some (if present (field ob ''pricing'') then the (field ob ''pricing'') else JObj [])) False (Some 0) = Inr pricing"
    and host: "gc_test_mode config \<or> production_hostname_ok host"
    and p: "gp_id p = rid" "gp_pricing p = pricing" "gp_upstream_host p = host" "rp_secret p = Some (cr_secret cred)"
      "gp_provider p = cr_provider cred"
    by (auto simp: stage_profile_def guard_simps Let_def split: option.splits json.splits sum.splits if_splits)
  show "\<not> jhas (gc_profiles config) rid" by (rule fresh)
  show "pricing_valid (gp_pricing p)"
    unfolding p(2) by (rule parse_pricing_valid [OF pricing]) (simp add: price_in_range_def)
  show "gp_id p = rid" by (rule p(1))
  show "gc_test_mode config \<or> production_hostname_ok (gp_upstream_host p)"
    using host p(3) by simp
  show "\<exists>cid c. jget creds cid = Some c \<and> rp_secret p = Some (cr_secret c) \<and> gp_provider p = cr_provider c"
    using cred p(4,5) by blast
qed

end
