(* ===== verification/LeaseRegistryFacts.thy ===== *)
theory LeaseRegistryFacts
  imports LeaseRegistry
begin

text \<open>
  The invariant of the lease registry and what pruning does to each map: a lease is in exactly one of
  the three maps, the two id maps are inverse to each other and cover exactly the known keys, no two
  leases share a grant, and the registry never holds more entries than its capacity.
\<close>

section \<open>The invariant\<close>

definition live_grant :: "registry \<Rightarrow> string \<Rightarrow> nat option" where
  "live_grant r k = (case jget (leases r) k of Some a \<Rightarrow> Some a | None \<Rightarrow> jget (active r) k)"

definition grant_of :: "registry \<Rightarrow> string \<Rightarrow> nat option" where
  "grant_of r k = (case live_grant r k of Some a \<Rightarrow> Some a
     | None \<Rightarrow> map_option rt_grant (jget (used r) k))"

definition maps_ok :: "registry \<Rightarrow> bool" where
  "maps_ok r = (jok (leases r) \<and> jok (active r) \<and> jok (used r) \<and> jok (keys_by_id r) \<and> jok (ids_by_key r))"

definition place_ok :: "registry \<Rightarrow> string \<Rightarrow> bool" where
  "place_ok r k = ((jget (leases r) k = None \<or> jget (active r) k = None)
     \<and> (live_grant r k = None \<or> jget (used r) k = None))"

definition places_disjoint :: "registry \<Rightarrow> bool" where
  "places_disjoint r = (\<forall>k. place_ok r k)"

lemma places_disjointD: "places_disjoint r \<Longrightarrow> place_ok r k"
  by (simp add: places_disjoint_def)

definition ids_ok :: "registry \<Rightarrow> bool" where
  "ids_ok r = ((\<forall>k. jget (ids_by_key r) k = None \<longleftrightarrow> grant_of r k = None)
     \<and> (\<forall>i k. jget (keys_by_id r) i = Some k \<longleftrightarrow> jget (ids_by_key r) k = Some i))"

definition grants_ok :: "registry \<Rightarrow> bool" where
  "grants_ok r = ((\<forall>k a. grant_of r k = Some a \<longrightarrow> a < lr_fresh r)
     \<and> (\<forall>k k' a. grant_of r k = Some a \<and> grant_of r k' = Some a \<longrightarrow> k = k'))"

definition entries_held :: "registry \<Rightarrow> int" where
  "entries_held r = int (length (leases r) + length (active r) + length (used r))"

definition registry_inv :: "registry \<Rightarrow> bool" where
  "registry_inv r = (maps_ok r \<and> places_disjoint r \<and> ids_ok r \<and> grants_ok r \<and> entries_held r \<le> max_entries r)"

lemma registry_invI [inv_intros]:
  "maps_ok r \<Longrightarrow> places_disjoint r \<Longrightarrow> ids_ok r \<Longrightarrow> grants_ok r \<Longrightarrow> entries_held r \<le> max_entries r \<Longrightarrow> registry_inv r"
  by (simp add: registry_inv_def)

lemma key_known_iff: "key_known r k \<longleftrightarrow> grant_of r k \<noteq> None"
  by (auto simp: key_known_def jhas_def grant_of_def live_grant_def split: option.splits)

lemma new_registry_inv: "0 \<le> n \<Longrightarrow> registry_inv (new_registry n)"
  by (simp add: new_registry_def registry_inv_def maps_ok_def places_disjoint_def place_ok_def ids_ok_def
      grants_ok_def entries_held_def live_grant_def grant_of_def)

section \<open>Retiring and forgetting one key\<close>

lemma retire_fields [simp]:
  "lr_heap (retire k a c t r) = lr_heap r" "lr_fresh (retire k a c t r) = lr_fresh r"
  "keys_by_id (retire k a c t r) = keys_by_id r" "ids_by_key (retire k a c t r) = ids_by_key r"
  "max_entries (retire k a c t r) = max_entries r"
  "leases (retire k a c t r) = jdel k (leases r)" "active (retire k a c t r) = jdel k (active r)"
  "used (retire k a c t r) = jset k \<lparr>rt_at = t, rt_reason = c, rt_grant = a, rt_frozen = None\<rparr> (used r)"
  by (simp_all add: retire_def)

lemma forget_fields [simp]:
  "lr_heap (forget k r) = lr_heap r" "lr_fresh (forget k r) = lr_fresh r"
  "leases (forget k r) = leases r" "active (forget k r) = active r"
  "used (forget k r) = jdel k (used r)" "max_entries (forget k r) = max_entries r"
  "ids_by_key (forget k r) = jdel k (ids_by_key r)"
  "keys_by_id (forget k r) = (case jget (ids_by_key r) k of Some i \<Rightarrow> jdel i (keys_by_id r) | None \<Rightarrow> keys_by_id r)"
  by (simp_all add: forget_def remove_lease_id_def split: option.split)

lemma retire_grant_of: "live_grant r k = Some a \<Longrightarrow> grant_of (retire k a c t r) = grant_of r"
  by (rule ext) (auto simp: grant_of_def live_grant_def split: option.splits)

lemma retire_held:
  assumes "maps_ok r" "places_disjoint r" "live_grant r k = Some a"
  shows "entries_held (retire k a c t r) = entries_held r"
proof -
  have unused: "jget (used r) k = None"
    using places_disjointD [OF assms(2), of k] assms(3) by (auto simp: place_ok_def)
  show ?thesis
  proof (cases "jget (leases r) k")
    case (Some b)
    then have "jget (active r) k = None"
      using places_disjointD [OF assms(2), of k] by (simp add: place_ok_def)
    then show ?thesis
      using assms(1) Some unused length_jdel [of "leases r" k b]
      by (simp add: entries_held_def maps_ok_def jdel_absent length_jset)
  next
    case None
    then have "jget (active r) k = Some a"
      using assms(3) by (simp add: live_grant_def)
    then show ?thesis
      using assms(1) None unused length_jdel [of "active r" k a]
      by (simp add: entries_held_def maps_ok_def jdel_absent length_jset)
  qed
qed

lemma retire_inv:
  assumes "registry_inv r" "live_grant r k = Some a"
  shows "registry_inv (retire k a c t r)"
proof (rule registry_invI)
  have inv: "maps_ok r" "places_disjoint r" "ids_ok r" "grants_ok r" "entries_held r \<le> max_entries r"
    using assms(1) by (simp_all add: registry_inv_def)
  show "maps_ok (retire k a c t r)"
    using inv(1) by (simp add: maps_ok_def)
  show "places_disjoint (retire k a c t r)"
    unfolding places_disjoint_def
  proof
    fix j show "place_ok (retire k a c t r) j"
      using places_disjointD [OF inv(2), of j] by (auto simp: place_ok_def live_grant_def split: option.splits)
  qed
  show "ids_ok (retire k a c t r)"
    using inv(3) by (simp add: ids_ok_def retire_grant_of [OF assms(2)])
  show "grants_ok (retire k a c t r)"
    using inv(4) by (simp add: grants_ok_def retire_grant_of [OF assms(2)])
  show "entries_held (retire k a c t r) \<le> max_entries (retire k a c t r)"
    using inv(5) retire_held [OF inv(1,2) assms(2)] by simp
qed

lemma forget_grant_of:
  assumes "places_disjoint r" "jget (used r) k \<noteq> None"
  shows "grant_of (forget k r) = (grant_of r)(k := None)"
proof
  fix j show "grant_of (forget k r) j = ((grant_of r)(k := None)) j"
    using places_disjointD [OF assms(1), of k] assms(2)
    by (auto simp: grant_of_def live_grant_def place_ok_def split: option.splits)
qed

lemma forget_inv:
  assumes "registry_inv r" "jget (used r) k \<noteq> None"
  shows "registry_inv (forget k r)"
proof (rule registry_invI)
  have inv: "maps_ok r" "places_disjoint r" "ids_ok r" "grants_ok r" "entries_held r \<le> max_entries r"
    using assms(1) by (simp_all add: registry_inv_def)
  note grants = forget_grant_of [OF inv(2) assms(2)]
  have "grant_of r k \<noteq> None"
    using assms(2) by (auto simp: grant_of_def split: option.splits)
  then obtain i where i: "jget (ids_by_key r) k = Some i"
    using inv(3) by (cases "jget (ids_by_key r) k") (auto simp: ids_ok_def)
  have unique: "j = k" if "jget (ids_by_key r) j = Some i" for j
    using inv(3) i that by (metis ids_ok_def option.inject)
  show "maps_ok (forget k r)"
    using inv(1) i by (simp add: maps_ok_def)
  show "places_disjoint (forget k r)"
    unfolding places_disjoint_def
  proof
    fix j show "place_ok (forget k r) j"
      using places_disjointD [OF inv(2), of j] by (auto simp: place_ok_def live_grant_def split: option.splits)
  qed
  show "ids_ok (forget k r)"
    using inv(3) i by (auto simp: ids_ok_def grants dest: unique)
  show "grants_ok (forget k r)"
    using inv(4) unfolding grants_ok_def grants by (auto split: if_splits)
  have "length (jdel k (used r)) \<le> length (used r)"
    by (simp add: jdel_def)
  then show "entries_held (forget k r) \<le> max_entries (forget k r)"
    using inv(5) by (simp add: entries_held_def)
qed

section \<open>Pruning\<close>

text \<open>The entries a prune loop walks: distinct keys, each live in the registry it runs on.\<close>

definition live_entries :: "registry \<Rightarrow> (string \<times> nat) list \<Rightarrow> bool" where
  "live_entries r es = (distinct (map fst es) \<and> (\<forall>(k, a) \<in> set es. live_grant r k = Some a))"

definition used_entries :: "registry \<Rightarrow> (string \<times> retired_lease) list \<Rightarrow> bool" where
  "used_entries r es = (distinct (map fst es) \<and> (\<forall>(k, rt) \<in> set es. jget (used r) k = Some rt))"

lemma live_entries_retire:
  assumes "live_entries r ((k, a) # es)"
  shows "live_entries (retire k a c t r) es"
proof -
  have same: "live_grant (retire k a c t r) j = live_grant r j" if "j \<noteq> k" for j
    using that by (simp add: live_grant_def split: option.split)
  have "live_grant (retire k a c t r) j = Some b" if "(j, b) \<in> set es" for j b
  proof -
    from that have "j \<in> set (map fst es)"
      by (metis fst_conv image_eqI list.set_map)
    with assms that have "j \<noteq> k" "live_grant r j = Some b"
      by (auto simp: live_entries_def)
    with same show ?thesis by simp
  qed
  with assms show ?thesis
    by (auto simp: live_entries_def)
qed

lemma live_entries_Cons: "live_entries r ((k, a) # es) \<Longrightarrow> live_grant r k = Some a \<and> live_entries r es"
  by (simp add: live_entries_def)

lemma used_entries_forget: "used_entries r ((k, rt) # es) \<Longrightarrow> used_entries (forget k r) es"
  by (force simp: used_entries_def)

lemma used_entries_Cons: "used_entries r ((k, rt) # es) \<Longrightarrow> jget (used r) k = Some rt \<and> used_entries r es"
  by (simp add: used_entries_def)

lemma prune_expired_fields [simp]:
  "lr_heap (prune_expired t es r) = lr_heap r" "lr_fresh (prune_expired t es r) = lr_fresh r"
  "keys_by_id (prune_expired t es r) = keys_by_id r" "ids_by_key (prune_expired t es r) = ids_by_key r"
  "max_entries (prune_expired t es r) = max_entries r"
  by (induction t es r rule: prune_expired.induct) simp_all

lemma prune_used_fields [simp]:
  "lr_heap (prune_used h es r) = lr_heap r" "lr_fresh (prune_used h es r) = lr_fresh r"
  "leases (prune_used h es r) = leases r" "active (prune_used h es r) = active r"
  "max_entries (prune_used h es r) = max_entries r"
  by (induction h es r rule: prune_used.induct) simp_all

lemma prune_expired_inv:
  "registry_inv r \<Longrightarrow> live_entries r es \<Longrightarrow> registry_inv (prune_expired t es r)"
proof (induction t es r rule: prune_expired.induct)
  case (1 t r)
  then show ?case by simp
next
  case (2 t k a es r)
  then show ?case
    using live_entries_Cons [OF 2(3)] live_entries_retire [OF 2(3)] retire_inv [OF 2(2)] by simp
qed

lemma prune_expired_grants:
  "live_entries r es \<Longrightarrow> grant_of (prune_expired t es r) = grant_of r"
proof (induction t es r rule: prune_expired.induct)
  case (1 t r)
  then show ?case by simp
next
  case (2 t k a es r)
  then show ?case
    using live_entries_Cons [OF 2(2)] live_entries_retire [OF 2(2)] by (simp add: retire_grant_of)
qed

text \<open>Where a key is: its three map entries at once.\<close>

definition places :: "registry \<Rightarrow> string \<Rightarrow> nat option \<times> nat option \<times> retired_lease option" where
  "places r k = (jget (leases r) k, jget (active r) k, jget (used r) k)"

definition expired_place :: "int \<Rightarrow> nat \<Rightarrow> nat option \<times> nat option \<times> retired_lease option" where
  "expired_place t a = (None, None, Some \<lparr>rt_at = t, rt_reason = Expired, rt_grant = a, rt_frozen = None\<rparr>)"

lemma places_retire: "places (retire k a Expired t r) j = (if j = k then expired_place t a else places r j)"
  by (simp add: places_def expired_place_def)

lemma prune_expired_places:
  "live_entries r es \<Longrightarrow> places (prune_expired t es r) k
     = (case map_of es k of Some a \<Rightarrow> if lg_expires (lr_heap r a) \<le> t then expired_place t a else places r k
        | None \<Rightarrow> places r k)"
proof (induction t es r rule: prune_expired.induct)
  case (1 t r)
  then show ?case by simp
next
  case (2 t k' a es r)
  have "map_of es k' = None"
    using 2(2) by (simp add: live_entries_def map_of_eq_None_iff)
  with "2.IH" live_entries_Cons [OF 2(2)] live_entries_retire [OF 2(2)] show ?case
    by (cases "k = k'") (simp_all add: places_retire split: option.split)
qed

lemma prune_used_inv:
  "registry_inv r \<Longrightarrow> used_entries r es \<Longrightarrow> registry_inv (prune_used h es r)"
proof (induction h es r rule: prune_used.induct)
  case (1 h r)
  then show ?case by simp
next
  case (2 h k rt es r)
  then show ?case
    using used_entries_Cons [OF 2(3)] used_entries_forget [OF 2(3)] forget_inv [OF 2(2)] by simp
qed

lemma prune_used_map:
  "used_entries r es \<Longrightarrow> jget (used (prune_used h es r)) k
     = (case map_of es k of Some rt \<Rightarrow> if rt_at rt < h then None else jget (used r) k | None \<Rightarrow> jget (used r) k)"
proof (induction h es r rule: prune_used.induct)
  case (1 h r)
  then show ?case by simp
next
  case (2 h k' rt es r)
  have "map_of es k' = None"
    using 2(2) by (simp add: used_entries_def map_of_eq_None_iff)
  with "2.IH" used_entries_Cons [OF 2(2)] used_entries_forget [OF 2(2)] show ?case
    by (cases "k = k'") (simp_all split: option.split)
qed

lemma live_entries_leases: "registry_inv r \<Longrightarrow> live_entries r (leases r)"
  by (auto simp: live_entries_def registry_inv_def maps_ok_def jok_distinct live_grant_def jget_set_iff)

lemma live_entries_active: "registry_inv r \<Longrightarrow> live_entries r (active r)"
proof -
  assume inv: "registry_inv r"
  then have ok: "jok (active r)" and dis: "places_disjoint r"
    by (simp_all add: registry_inv_def maps_ok_def)
  have "live_grant r k = Some a" if "(k, a) \<in> set (active r)" for k a
    using that ok places_disjointD [OF dis, of k]
    by (auto simp: jget_set_iff live_grant_def place_ok_def split: option.split)
  with ok show ?thesis
    by (auto simp: live_entries_def jok_distinct)
qed

lemma used_entries_used: "registry_inv r \<Longrightarrow> used_entries r (used r)"
  by (auto simp: used_entries_def registry_inv_def maps_ok_def jok_distinct jget_set_iff)

lemma prune_inv: "registry_inv r \<Longrightarrow> registry_inv (prune t r)"
  unfolding prune_def Let_def
  by (intro prune_used_inv prune_expired_inv used_entries_used live_entries_active live_entries_leases)

lemma prune_fields [simp]:
  "lr_heap (prune t r) = lr_heap r" "lr_fresh (prune t r) = lr_fresh r" "max_entries (prune t r) = max_entries r"
  by (simp_all add: prune_def Let_def)

text \<open>What pruning does to one key: an expired live lease is retired, an old retired one is forgotten.\<close>

lemma prune_places:
  assumes "registry_inv r"
  shows "places (prune t r) k = (case live_grant r k of
      Some a \<Rightarrow> if lg_expires (lr_heap r a) \<le> t then expired_place t a else places r k
    | None \<Rightarrow> (None, None, (case jget (used r) k of
        Some rt \<Rightarrow> if rt_at rt < t - retention_ms then None else Some rt | None \<Rightarrow> None)))"
proof -
  let ?r1 = "prune_expired t (leases r) r"
  let ?r2 = "prune_expired t (active ?r1) ?r1"
  have inv1: "registry_inv ?r1" and inv2: "registry_inv ?r2"
    using assms by (simp_all add: prune_expired_inv live_entries_leases live_entries_active)
  have p1: "places ?r1 k = (case jget (leases r) k of
      Some a \<Rightarrow> if lg_expires (lr_heap r a) \<le> t then expired_place t a else places r k | None \<Rightarrow> places r k)"
    using prune_expired_places [OF live_entries_leases [OF assms], of t k] by (simp add: jget_map_of)
  have p2: "places ?r2 k = (case jget (active ?r1) k of
      Some a \<Rightarrow> if lg_expires (lr_heap r a) \<le> t then expired_place t a else places ?r1 k | None \<Rightarrow> places ?r1 k)"
    using prune_expired_places [OF live_entries_active [OF inv1], of t k]
    by (simp add: jget_map_of split: option.split)
  have p3: "jget (used (prune t r)) k = (case jget (used ?r2) k of
      Some rt \<Rightarrow> if rt_at rt < t - retention_ms then None else Some rt | None \<Rightarrow> None)"
    using prune_used_map [OF used_entries_used [OF inv2], of "t - retention_ms" k]
    by (auto simp: prune_def Let_def jget_map_of split: option.split)
  have keep: "leases (prune t r) = leases ?r2" "active (prune t r) = active ?r2"
    by (simp_all add: prune_def Let_def)
  have "place_ok r k"
    using assms by (simp add: registry_inv_def places_disjointD)
  then show ?thesis
    using p1 p2 p3 keep
    by (auto simp: places_def place_ok_def live_grant_def expired_place_def retention_ms_def split: option.splits if_splits)
qed

end
