(* ===== verification/LeaseProperties.thy ===== *)
theory LeaseProperties
  imports LeaseRegistryFacts
begin

text \<open>
  Runs of the lease registry and what holds along them: the registry's invariant, which leases a
  token can be used for, and settlements that stay as they were frozen.
\<close>

section \<open>Every operation keeps the invariant\<close>

lemma registry_invE:
  assumes "registry_inv r"
  obtains "maps_ok r" "places_disjoint r" "ids_ok r" "grants_ok r" "entries_held r \<le> max_entries r"
  using assms by (simp add: registry_inv_def)

lemma prune_key_known: "registry_inv r \<Longrightarrow> key_known (prune t r) k \<Longrightarrow> key_known r k"
  using prune_places [of r t k]
  by (auto simp: key_known_def jhas_def places_def live_grant_def expired_place_def
      split: option.splits if_splits)

lemma draw_token_Some: "draw_token dg r toks = Some tok \<Longrightarrow> tok \<in> set toks \<and> \<not> key_known r (dg tok)"
  by (induction dg r toks rule: draw_token.induct) (auto split: if_splits)

lemma draw_token_exists:
  "(\<exists>tok \<in> set toks. \<not> key_known r (dg tok)) \<Longrightarrow> draw_token dg r toks \<noteq> None"
  by (induction dg r toks rule: draw_token.induct) auto

definition add_lease :: "string \<Rightarrow> string \<Rightarrow> lease_grant \<Rightarrow> registry \<Rightarrow> registry" where
  "add_lease key lease_id g r = r
     \<lparr>lr_heap := (lr_heap r)(lr_fresh r := g), lr_fresh := lr_fresh r + 1,
      leases := jset key (lr_fresh r) (leases r),
      keys_by_id := jset lease_id key (keys_by_id r),
      ids_by_key := jset key lease_id (ids_by_key r)\<rparr>"

lemma add_lease_grant_of:
  "grant_of (add_lease key i g r) = (grant_of r)(key \<mapsto> lr_fresh r)"
  by (rule ext) (auto simp: add_lease_def grant_of_def live_grant_def split: option.split)

lemma add_lease_inv:
  assumes "registry_inv r" "\<not> key_known r key" "\<not> jhas (keys_by_id r) i" "entries_held r < max_entries r"
  shows "registry_inv (add_lease key i g r)"
  using assms(1)
proof (rule registry_invE)
  assume inv: "maps_ok r" "places_disjoint r" "ids_ok r" "grants_ok r"
  have unknown: "grant_of r key = None"
    using assms(2) by (simp add: key_known_iff)
  then have absent: "jget (leases r) key = None" "jget (active r) key = None" "jget (used r) key = None"
    by (auto simp: grant_of_def live_grant_def split: option.splits)
  have noid: "jget (keys_by_id r) i = None"
    using assms(3) by (simp add: jhas_def)
  show ?thesis
  proof (rule registry_invI)
    show "maps_ok (add_lease key i g r)"
      using inv(1) by (simp add: maps_ok_def add_lease_def)
    show "places_disjoint (add_lease key i g r)"
      unfolding places_disjoint_def
    proof
      fix j show "place_ok (add_lease key i g r) j"
        using places_disjointD [OF inv(2), of j] absent
        by (auto simp: place_ok_def add_lease_def live_grant_def split: option.splits)
    qed
    have "jget (ids_by_key r) key = None"
      using inv(3) unknown by (simp add: ids_ok_def)
    moreover have "jget (ids_by_key r) k \<noteq> Some i" for k
      using inv(3) noid by (metis ids_ok_def option.distinct(1))
    moreover have "jget (keys_by_id r) j \<noteq> Some key" for j
      using inv(3) calculation(1) by (metis ids_ok_def option.distinct(1))
    ultimately show "ids_ok (add_lease key i g r)"
      using inv(3) unfolding ids_ok_def add_lease_grant_of
      by (auto simp: add_lease_def)
    show "grants_ok (add_lease key i g r)"
      using inv(4) unfolding grants_ok_def add_lease_grant_of
      by (auto simp: add_lease_def less_Suc_eq split: if_splits)
    show "entries_held (add_lease key i g r) \<le> max_entries (add_lease key i g r)"
      using assms(4) absent inv(1) by (simp add: entries_held_def add_lease_def length_jset maps_ok_def)
  qed
qed

lemma issue_InrE:
  assumes "issue dg toks t t' inp p r0 = Some (Inr tok, r')"
  obtains ttl i outp c where
    "entries_held (prune t r0) < max_entries (prune t r0)" "lease_id_ok (li_lease_id inp)"
    "\<not> jhas (keys_by_id (prune t r0)) (li_lease_id inp)" "agent_id_ok (li_agent inp)"
    "li_profile inp = gp_id p" "draw_token dg (prune t r0) toks = Some tok"
    "bounded_integer (li_ttl inp) ''ttlMs'' 1000 86400000 = Inr ttl"
    "bounded_integer (li_input inp) ''maxInputTokens'' 1 10000000 = Inr i"
    "bounded_integer (li_output inp) ''maxOutputTokens'' 1 2000000 = Inr outp"
    "bounded_integer (li_cost inp) ''maxCostMicros'' 0 1000000000000 = Inr c"
    "r' = add_lease (dg tok) (li_lease_id inp) (create_lease_grant (li_agent inp) (li_profile inp) (t' + ttl)
       (min i (max_input_tokens (gp_limits p))) (min outp (max_output_tokens (gp_limits p)))
       (min c (max_cost_micros (gp_limits p)))) (prune t r0)"
proof -
  let ?r = "prune t r0"
  from assms have ok: "entries_held ?r < max_entries ?r" "lease_id_ok (li_lease_id inp)"
    "\<not> jhas (keys_by_id ?r) (li_lease_id inp)" "agent_id_ok (li_agent inp)" "li_profile inp = gp_id p"
    by (auto simp: issue_def Let_def entries_held_def split: if_splits)
  then have tok: "draw_token dg ?r toks = Some tok"
    using assms by (auto simp: issue_def Let_def entries_held_def split: if_splits option.splits sum.splits)
  show thesis
  proof (cases "ebind (bounded_integer (li_ttl inp) ''ttlMs'' 1000 86400000) (\<lambda>ttl.
        ebind (bounded_integer (li_input inp) ''maxInputTokens'' 1 10000000) (\<lambda>i.
        ebind (bounded_integer (li_output inp) ''maxOutputTokens'' 1 2000000) (\<lambda>outp.
        ebind (bounded_integer (li_cost inp) ''maxCostMicros'' 0 1000000000000) (\<lambda>c.
          Inr (create_lease_grant (li_agent inp) (li_profile inp) (t' + ttl)
            (min i (max_input_tokens (gp_limits p))) (min outp (max_output_tokens (gp_limits p)))
            (min c (max_cost_micros (gp_limits p))))))))")
    case (Inl e)
    then show thesis
      using assms ok tok by (simp add: issue_def Let_def entries_held_def)
  next
    case (Inr g)
    then have "r' = add_lease (dg tok) (li_lease_id inp) g ?r"
      using assms ok tok by (simp add: issue_def Let_def entries_held_def add_lease_def)
    with Inr ok tok that show thesis
      unfolding ebind_Inr_iff by blast
  qed
qed

lemma issue_InlE:
  assumes "issue dg toks t t' inp p r0 = Some (Inl e, r')"
  shows "r' = prune t r0"
  using assms unfolding issue_def Let_def by (simp split: if_splits option.splits sum.splits)

lemma issue_inv:
  assumes "registry_inv r" "issue dg toks t t' inp p r = Some (res, r')"
  shows "registry_inv r'"
proof (cases res)
  case (Inl e)
  with assms show ?thesis by (auto dest!: issue_InlE simp: prune_inv)
next
  case (Inr tok)
  have known: "\<not> key_known (prune t r) (dg tok)" if "draw_token dg (prune t r) toks = Some tok"
    using draw_token_Some [OF that] by simp
  show ?thesis
    by (rule issue_InrE [OF assms(2) [unfolded Inr]])
      (simp add: add_lease_inv prune_inv assms(1) known)
qed

lemma move_to_active_inv:
  assumes "registry_inv r" "jget (leases r) key = Some a"
  defines "r' \<equiv> r\<lparr>leases := jdel key (leases r), active := jset key a (active r)\<rparr>"
  shows "registry_inv r'" "grant_of r' = grant_of r" "live_grant r' = live_grant r"
proof -
  have inv: "maps_ok r" "places_disjoint r" "ids_ok r" "grants_ok r" "entries_held r \<le> max_entries r"
    using assms(1) by (simp_all add: registry_inv_def)
  show live: "live_grant r' = live_grant r"
    by (rule ext) (use assms(2) in \<open>auto simp: r'_def live_grant_def split: option.split\<close>)
  have same: "used r' = used r" "ids_by_key r' = ids_by_key r" "keys_by_id r' = keys_by_id r"
    "lr_fresh r' = lr_fresh r" "max_entries r' = max_entries r"
    by (simp_all add: r'_def)
  show grants: "grant_of r' = grant_of r"
    by (rule ext) (simp add: grant_of_def live same split: option.split)
  have "jget (active r) key = None"
    using places_disjointD [OF inv(2), of key] assms(2) by (simp add: place_ok_def)
  moreover have "Suc (length (jdel key (leases r))) = length (leases r)"
    using inv(1) assms(2) by (simp add: length_jdel maps_ok_def)
  ultimately have held: "entries_held r' = entries_held r"
    using inv(1) by (simp add: entries_held_def r'_def length_jset maps_ok_def)
  show "registry_inv r'"
  proof (rule registry_invI)
    show "maps_ok r'" using inv(1) by (simp add: maps_ok_def r'_def)
    show "places_disjoint r'"
      unfolding places_disjoint_def
    proof
      fix j show "place_ok r' j"
        using places_disjointD [OF inv(2), of j] by (auto simp: place_ok_def live same) (auto simp: r'_def)
    qed
    show "ids_ok r'" using inv(3) by (simp add: ids_ok_def grants same)
    show "grants_ok r'" using inv(4) by (simp add: grants_ok_def grants same)
    show "entries_held r' \<le> max_entries r'" using inv(5) held by (simp add: same)
  qed
qed

lemma consume_cases:
  assumes "consume dg t t' tok agent profile r = (res, r')"
  obtains (refused) e where "res = Inl e" "r' = prune t r"
    | (late) a where "res = Inl LeaseExpired" "live_grant (prune t r) (dg tok) = Some a"
        "lg_expires (lr_heap r a) \<le> t'" "r' = retire (dg tok) a Expired t' (prune t r)"
    | (first) a where "res = Inr a" "jget (leases (prune t r)) (dg tok) = Some a"
        "\<not> lg_expires (lr_heap r a) \<le> t'" "lg_agent (lr_heap r a) = agent" "lg_profile (lr_heap r a) = profile"
        "r' = (prune t r)\<lparr>leases := jdel (dg tok) (leases (prune t r)), active := jset (dg tok) a (active (prune t r))\<rparr>"
    | (again) a where "res = Inr a" "jget (leases (prune t r)) (dg tok) = None"
        "jget (active (prune t r)) (dg tok) = Some a"
        "\<not> lg_expires (lr_heap r a) \<le> t'" "lg_agent (lr_heap r a) = agent" "lg_profile (lr_heap r a) = profile"
        "r' = prune t r"
proof -
  let ?r = "prune t r" and ?key = "dg tok"
  note body = assms [unfolded consume_def Let_def]
  show thesis
  proof (cases "lease_token_ok tok")
    case False
    then show thesis using body by (intro refused) auto
  next
    case tok: True
    show thesis
    proof (cases "live_grant ?r ?key")
      case None
      then have "jget (leases ?r) ?key = None" "jget (active ?r) ?key = None"
        by (simp_all add: live_grant_def split: option.splits)
      then show thesis using body tok by (intro refused) auto
    next
      case (Some a)
      then have eq: "(case jget (leases ?r) ?key of Some a \<Rightarrow> Some a | None \<Rightarrow> jget (active ?r) ?key) = Some a"
        by (simp add: live_grant_def)
      note body' = body [unfolded eq]
      consider (exp) "lg_expires (lr_heap r a) \<le> t'"
        | (wrong) "\<not> lg_expires (lr_heap r a) \<le> t'"
            "lg_agent (lr_heap r a) \<noteq> agent \<or> lg_profile (lr_heap r a) \<noteq> profile"
        | (ok) "\<not> lg_expires (lr_heap r a) \<le> t'" "lg_agent (lr_heap r a) = agent" "lg_profile (lr_heap r a) = profile"
        by blast
      then show thesis
      proof cases
        case exp
        with body' tok Some show thesis by (intro late [of a]) auto
      next
        case wrong
        with body' tok show thesis by (intro refused [of BindingMismatch]) auto
      next
        case ok
        show thesis
        proof (cases "jget (leases ?r) ?key")
          case None
          with eq have "jget (active ?r) ?key = Some a" by simp
          with None ok body' tok show thesis by (intro again [of a]) auto
        next
          case (Some b)
          with eq have "b = a" by simp
          with Some ok body' tok show thesis by (intro first [of a]) auto
        qed
      qed
    qed
  qed
qed

lemma consume_inv:
  assumes "registry_inv r" "consume dg t t' tok agent profile r = (res, r')"
  shows "registry_inv r'"
  by (rule consume_cases [OF assms(2)])
    (simp_all add: assms(1) prune_inv retire_inv move_to_active_inv)

lemma revoke_cases:
  assumes "revoke t t' i r = (ok, r')"
  obtains "\<not> ok" "r' = prune t r"
  | key a where "ok" "jget (keys_by_id (prune t r)) i = Some key" "live_grant (prune t r) key = Some a"
      "r' = retire key a Revoked t' (prune t r)"
proof (cases "jget (keys_by_id (prune t r)) i")
  case None
  with assms that(1) show thesis by (simp add: revoke_def Let_def)
next
  case key: (Some key)
  show thesis
  proof (cases "live_grant (prune t r) key")
    case None
    with key assms that(1) show thesis by (simp add: revoke_def Let_def live_grant_def)
  next
    case (Some a)
    with key assms that(2) show thesis by (simp add: revoke_def Let_def live_grant_def)
  qed
qed

lemma revoke_inv: "registry_inv r \<Longrightarrow> revoke t t' i r = (ok, r') \<Longrightarrow> registry_inv r'"
  by (erule revoke_cases) (simp_all add: prune_inv retire_inv)

lemma refreeze_inv:
  assumes "registry_inv r" "jget (used r) key = Some rt"
  shows "registry_inv (r\<lparr>used := jset key (rt\<lparr>rt_frozen := s\<rparr>) (used r)\<rparr>)"
proof -
  let ?r = "r\<lparr>used := jset key (rt\<lparr>rt_frozen := s\<rparr>) (used r)\<rparr>"
  have inv: "maps_ok r" "places_disjoint r" "ids_ok r" "grants_ok r" "entries_held r \<le> max_entries r"
    using assms(1) by (simp_all add: registry_inv_def)
  have live: "live_grant ?r = live_grant r"
    by (rule ext) (simp add: live_grant_def split: option.split)
  have grants: "grant_of ?r = grant_of r"
    by (rule ext) (use assms(2) in \<open>simp add: grant_of_def live split: option.split\<close>)
  show ?thesis
  proof (rule registry_invI)
    show "maps_ok ?r" using inv(1) by (simp add: maps_ok_def)
    show "places_disjoint ?r"
      unfolding places_disjoint_def
    proof
      fix j show "place_ok ?r j"
        using places_disjointD [OF inv(2), of j] assms(2) by (auto simp: place_ok_def live)
    qed
    show "ids_ok ?r" using inv(3) by (simp add: ids_ok_def grants)
    show "grants_ok ?r" using inv(4) by (simp add: grants_ok_def grants)
    show "entries_held ?r \<le> max_entries ?r"
      using inv(1,5) assms(2) by (simp add: entries_held_def length_jset maps_ok_def)
  qed
qed

lemma freeze_cases:
  assumes "freeze_settlement t i r = (res, r')"
  obtains "res = None" "r' = prune t r" "retired_of (prune t r) i = None"
  | key rt s where "jget (keys_by_id (prune t r)) i = Some key" "jget (used (prune t r)) key = Some rt"
      "res = Some s" "s = (case rt_frozen rt of Some s \<Rightarrow> s
         | None \<Rightarrow> settlement_of i rt (lr_heap r (rt_grant rt)))"
      "r' = (prune t r)\<lparr>used := jset key (rt\<lparr>rt_frozen := Some s\<rparr>) (used (prune t r))\<rparr>"
proof (cases "jget (keys_by_id (prune t r)) i")
  case None
  with assms that(1) show thesis by (simp add: freeze_settlement_def Let_def retired_of_def)
next
  case key: (Some key)
  show thesis
  proof (cases "jget (used (prune t r)) key")
    case None
    with key assms that(1) show thesis by (simp add: freeze_settlement_def Let_def retired_of_def)
  next
    case (Some rt)
    show thesis
      by (rule that(2) [OF key Some _ refl])
        (use assms key Some in \<open>auto simp: freeze_settlement_def Let_def cong: option.case_cong\<close>)
  qed
qed

lemma freeze_inv: "registry_inv r \<Longrightarrow> freeze_settlement t i r = (res, r') \<Longrightarrow> registry_inv r'"
  by (erule freeze_cases) (simp_all add: prune_inv refreeze_inv)

lemma settlement_for_state: "settlement_for t i r = (res, r') \<Longrightarrow> r' = prune t r"
  by (auto simp: settlement_for_def Let_def split: option.splits)

lemma update_grant_inv: "registry_inv r \<Longrightarrow> registry_inv (update_grant a g r)"
proof -
  assume inv: "registry_inv r"
  have live: "live_grant (update_grant a g r) = live_grant r"
    by (rule ext) (simp add: update_grant_def live_grant_def split: option.split)
  have grants: "grant_of (update_grant a g r) = grant_of r"
  proof
    fix k show "grant_of (update_grant a g r) k = grant_of r k"
      unfolding grant_of_def live by (simp add: update_grant_def cong: option.case_cong)
  qed
  show ?thesis
    using inv
    by (simp add: registry_inv_def maps_ok_def places_disjoint_def place_ok_def ids_ok_def grants_ok_def
        entries_held_def live grants)
      (simp add: update_grant_def)
qed

section \<open>Runs\<close>

text \<open>
  One step of the registry: any public operation, or a request updating the grant it holds. The time is
  the step's first clock reading.
\<close>

inductive registry_step :: "(string \<Rightarrow> string) \<Rightarrow> int \<Rightarrow> registry \<Rightarrow> registry \<Rightarrow> bool" for dg where
  step_issue: "issue dg toks t t' inp p r = Some (res, r') \<Longrightarrow> registry_step dg t r r'"
| step_consume: "consume dg t t' tok agent profile r = (res, r') \<Longrightarrow> registry_step dg t r r'"
| step_revoke: "revoke t t' i r = (ok, r') \<Longrightarrow> registry_step dg t r r'"
| step_read: "settlement_for t i r = (res, r') \<Longrightarrow> registry_step dg t r r'"
| step_freeze: "freeze_settlement t i r = (res, r') \<Longrightarrow> registry_step dg t r r'"
| step_count: "active_count t r = (n, r') \<Longrightarrow> registry_step dg t r r'"
| step_update: "registry_step dg t r (update_grant a g r)"

inductive registry_run :: "(string \<Rightarrow> string) \<Rightarrow> int \<Rightarrow> registry \<Rightarrow> bool" for dg n where
  run_new: "0 \<le> n \<Longrightarrow> registry_run dg n (new_registry n)"
| run_step: "registry_run dg n r \<Longrightarrow> registry_step dg t r r' \<Longrightarrow> registry_run dg n r'"

lemma registry_step_inv: "registry_step dg t r r' \<Longrightarrow> registry_inv r \<Longrightarrow> registry_inv r'"
proof (induction rule: registry_step.induct)
  case (step_issue toks t t' inp p r res r')
  then show ?case by (rule issue_inv [rotated])
next
  case (step_consume t t' tok agent profile r res r')
  then show ?case by (rule consume_inv [rotated])
next
  case (step_revoke t t' i r ok r')
  then show ?case by (rule revoke_inv [rotated])
next
  case (step_read t i r res r')
  then show ?case by (auto dest: settlement_for_state simp: prune_inv)
next
  case (step_freeze t i r res r')
  then show ?case by (rule freeze_inv [rotated])
next
  case (step_count t r n r')
  then show ?case by (auto simp: active_count_def Let_def prune_inv)
next
  case (step_update t r a g)
  then show ?case by (simp add: update_grant_inv)
qed

lemma registry_run_inv: "registry_run dg n r \<Longrightarrow> registry_inv r"
  by (induction rule: registry_run.induct) (auto simp: new_registry_inv intro: registry_step_inv)

lemma issue_max_entries: "issue dg toks t t' inp p r = Some (res, r') \<Longrightarrow> max_entries r' = max_entries r"
proof (cases res)
  case (Inl e)
  then show "issue dg toks t t' inp p r = Some (res, r') \<Longrightarrow> max_entries r' = max_entries r"
    by (auto dest!: issue_InlE)
next
  case (Inr tok)
  assume "issue dg toks t t' inp p r = Some (res, r')"
  then show "max_entries r' = max_entries r"
    unfolding Inr by (rule issue_InrE) (simp add: add_lease_def)
qed

lemma registry_step_max: "registry_step dg t r r' \<Longrightarrow> max_entries r' = max_entries r"
proof (induction rule: registry_step.induct)
  case (step_issue toks t t' inp p r res r')
  then show ?case by (rule issue_max_entries)
next
  case (step_consume t t' tok agent profile r res r')
  then show ?case by (rule consume_cases) simp_all
next
  case (step_revoke t t' i r ok r')
  then show ?case by (rule revoke_cases) simp_all
next
  case (step_read t i r res r')
  then show ?case by (auto dest: settlement_for_state)
next
  case (step_freeze t i r res r')
  then show ?case by (rule freeze_cases) simp_all
next
  case (step_count t r n r')
  then show ?case by (auto simp: active_count_def Let_def)
next
  case (step_update t r a g)
  then show ?case by (simp add: update_grant_def)
qed

lemma registry_run_max: "registry_run dg n r \<Longrightarrow> max_entries r = n"
  by (induction rule: registry_run.induct) (auto simp: new_registry_def dest: registry_step_max)

section \<open>A retired lease stays retired\<close>

lemma prune_used_ids: "jget (ids_by_key (prune_used h es r)) k = Some j \<Longrightarrow> jget (ids_by_key r) k = Some j"
  by (induction h es r rule: prune_used.induct) (auto split: if_splits)

lemma prune_ids: "jget (ids_by_key (prune t r)) k = Some j \<Longrightarrow> jget (ids_by_key r) k = Some j"
  unfolding prune_def Let_def by (drule prune_used_ids) simp

lemma inv_used_not_live: "registry_inv r \<Longrightarrow> jget (used r) k = Some rt \<Longrightarrow> live_grant r k = None"
  using places_disjointD [of r k] by (simp add: registry_inv_def place_ok_def)

lemma inv_used_known: "registry_inv r \<Longrightarrow> jget (used r) k = Some rt \<Longrightarrow> key_known r k"
  by (simp add: key_known_def jhas_def)

lemma inv_known_id: "registry_inv r \<Longrightarrow> key_known r k \<Longrightarrow> \<exists>i. jget (ids_by_key r) k = Some i"
  by (cases "jget (ids_by_key r) k") (auto simp: registry_inv_def ids_ok_def key_known_iff)

text \<open>A retired entry that keeps its time and grant, its lease id, and a settlement once frozen.\<close>

definition still_retired :: "string \<Rightarrow> string \<Rightarrow> retired_lease \<Rightarrow> registry \<Rightarrow> bool" where
  "still_retired k i rt r = (jget (ids_by_key r) k = Some i \<and> (\<exists>rt'. jget (used r) k = Some rt'
     \<and> rt_at rt' = rt_at rt \<and> rt_reason rt' = rt_reason rt \<and> rt_grant rt' = rt_grant rt
     \<and> (\<forall>s. rt_frozen rt = Some s \<longrightarrow> rt_frozen rt' = Some s)))"

lemma prune_still_retired:
  assumes "registry_inv r" "still_retired k i rt r" "t \<le> rt_at rt + retention_ms"
  shows "still_retired k i rt (prune t r)"
proof -
  obtain rt' where rt': "jget (used r) k = Some rt'" "rt_at rt' = rt_at rt" and i: "jget (ids_by_key r) k = Some i"
    using assms(2) by (auto simp: still_retired_def)
  have used: "jget (used (prune t r)) k = Some rt'"
    using prune_places [OF assms(1), of t k] inv_used_not_live [OF assms(1) rt'(1)] rt' assms(3)
    by (simp add: places_def)
  have "key_known (prune t r) k"
    using prune_inv [OF assms(1)] used by (rule inv_used_known)
  then obtain j where "jget (ids_by_key (prune t r)) k = Some j"
    using inv_known_id prune_inv [OF assms(1)] by blast
  with prune_ids [OF this] i used rt' assms(2) show ?thesis
    by (auto simp: still_retired_def)
qed

lemma retire_still_retired:
  "still_retired k i rt r \<Longrightarrow> registry_inv r \<Longrightarrow> live_grant r k' = Some a \<Longrightarrow> still_retired k i rt (retire k' a c t r)"
  using inv_used_not_live [of r k] by (auto simp: still_retired_def)

lemma step_still_retired:
  "registry_step dg t r r' \<Longrightarrow> registry_inv r \<Longrightarrow> still_retired k i rt r \<Longrightarrow> t \<le> rt_at rt + retention_ms
     \<Longrightarrow> still_retired k i rt r'"
proof (induction rule: registry_step.induct)
  case (step_issue toks t t' inp p r res r')
  note kept = prune_still_retired [OF step_issue(2-4)]
  show ?case
  proof (cases res)
    case (Inl e)
    with step_issue(1) kept show ?thesis by (auto dest!: issue_InlE)
  next
    case (Inr tok)
    have known: "key_known (prune t r) k"
      using kept prune_inv [OF step_issue(2)] by (auto simp: still_retired_def intro: inv_used_known)
    show ?thesis
      by (rule issue_InrE [OF step_issue(1) [unfolded Inr]])
        (use kept known in \<open>auto simp: still_retired_def add_lease_def dest: draw_token_Some\<close>)
  qed
next
  case (step_consume t t' tok agent profile r res r')
  note kept = prune_still_retired [OF step_consume(2-4)]
  show ?case
    by (rule consume_cases [OF step_consume(1)])
      (use kept retire_still_retired [OF kept prune_inv [OF step_consume(2)]] in \<open>simp_all add: still_retired_def\<close>)
next
  case (step_revoke t t' i' r ok r')
  note kept = prune_still_retired [OF step_revoke(2-4)]
  show ?case
    by (rule revoke_cases [OF step_revoke(1)])
      (use kept retire_still_retired [OF kept prune_inv [OF step_revoke(2)]] in simp_all)
next
  case (step_read t i' r res r')
  then show ?case by (auto dest!: settlement_for_state simp: prune_still_retired)
next
  case (step_freeze t i' r res r')
  note kept = prune_still_retired [OF step_freeze(2-4)]
  show ?case
    by (rule freeze_cases [OF step_freeze(1)])
      (use kept in \<open>auto simp: still_retired_def split: option.splits\<close>)
next
  case (step_count t r n r')
  then show ?case by (auto simp: active_count_def Let_def prune_still_retired)
next
  case (step_update t r a g)
  then show ?case by (simp add: still_retired_def update_grant_def)
qed

definition step_until :: "(string \<Rightarrow> string) \<Rightarrow> int \<Rightarrow> registry \<Rightarrow> registry \<Rightarrow> bool" where
  "step_until dg T r r' = (\<exists>t. t \<le> T \<and> registry_step dg t r r')"

lemma steps_still_retired:
  assumes "rtranclp (step_until dg (rt_at rt + retention_ms)) r r'" "registry_inv r" "still_retired k i rt r"
  shows "registry_inv r' \<and> still_retired k i rt r'"
  using assms
  by (induction rule: rtranclp_induct)
    (auto simp: step_until_def intro: registry_step_inv step_still_retired)

lemma consume_retired:
  assumes "registry_inv r" "still_retired (dg tok) i rt r"
  shows "\<exists>e. fst (consume dg t t' tok agent profile r) = Inl e
    \<and> (t \<le> rt_at rt + retention_ms \<and> lease_token_ok tok \<longrightarrow> e = RevokedOrExpired)"
proof -
  obtain rt' where rt': "jget (used r) (dg tok) = Some rt'" "rt_at rt' = rt_at rt"
    using assms(2) by (auto simp: still_retired_def)
  have places: "places (prune t r) (dg tok) = (None, None,
      if rt_at rt < t - retention_ms then None else Some rt')"
    using prune_places [OF assms(1), of t "dg tok"] inv_used_not_live [OF assms(1) rt'(1)] rt' by simp
  then have "jget (leases (prune t r)) (dg tok) = None" "jget (active (prune t r)) (dg tok) = None"
    by (simp_all add: places_def)
  moreover have "list_ex (\<lambda>k. k = dg tok) (jkeys (used (prune t r)))" if "t \<le> rt_at rt + retention_ms"
  proof -
    have "jhas (used (prune t r)) (dg tok)"
      using places that by (simp add: places_def jhas_def)
    then show ?thesis by (auto simp: jhas_keys list_ex_iff)
  qed
  ultimately show ?thesis
    by (auto simp: consume_def Let_def)
qed

lemma settlement_for_retired:
  assumes "registry_inv r" "still_retired k i rt r" "rt_frozen rt = Some s" "t \<le> rt_at rt + retention_ms"
  shows "fst (settlement_for t i r) = Some s"
proof -
  have kept: "still_retired k i rt (prune t r)"
    using assms by (intro prune_still_retired)
  then have "jget (keys_by_id (prune t r)) i = Some k"
    using prune_inv [OF assms(1)] by (auto simp: still_retired_def registry_inv_def ids_ok_def)
  with kept assms(3) show ?thesis
    by (auto simp: settlement_for_def Let_def retired_of_def still_retired_def split: option.splits)
qed

end
