(* ===== verification/GatewayRequests.thy ===== *)
theory GatewayRequests
  imports GatewayControl BudgetFacts LeaseProperties
begin

text \<open>
  \<open>apps/model-gateway/src/gateway.ts\<close>: what a model request passes before it is accepted, and the
  requests in flight as a step relation. Requests interleave; each holds a grant of the lease registry and, once reserved,
  a reservation. Provider traffic itself is a parameter of the steps: what usage it reported, or how
  it failed.
\<close>

section \<open>Headers\<close>

type_synonym raw_headers = "(string \<times> string) list"

text \<open>\<open>Buffer.byteLength\<close> of a header string, whose characters are below 256.\<close>

definition byte_length :: "string \<Rightarrow> nat" where
  "byte_length s = sum_list (map (\<lambda>c. if code c < 128 then 1 else 2) s)"

definition forbidden_header_prefixes :: "string list" where
  "forbidden_header_prefixes = [''proxy-authenticate'', ''proxy-authorization'', ''forwarded'', ''x-forwarded-'',
     ''x-real-ip'', ''via'', ''x-api-key'', ''x-upstream'']"

definition sensitive_headers :: "string list" where
  "sensitive_headers = [''authorization'', ''x-agent-id'', ''x-model-profile'', ''x-request-id'']"

fun join_comma :: "string list \<Rightarrow> string" where
  "join_comma [] = []"
| "join_comma [s] = s"
| "join_comma (s # ss) = s @ '', '' @ join_comma ss"

text \<open>
  \<open>request.headers[name]\<close>: Node keeps the first value of \<open>authorization\<close>, \<open>content-type\<close> and
  \<open>content-length\<close>, and joins repeated custom headers.
\<close>

definition header_value :: "raw_headers \<Rightarrow> string \<Rightarrow> string option" where
  "header_value hs name = (case map snd (filter (\<lambda>h. to_lower (fst h) = name) hs) of
     [] \<Rightarrow> None
   | v # vs \<Rightarrow> Some (if name \<in> set [''authorization'', ''content-type'', ''content-length''] then v else join_comma (v # vs)))"

definition is_space_char :: "char \<Rightarrow> bool" where
  "is_space_char c = (code c = 32 \<or> (9 \<le> code c \<and> code c \<le> 13) \<or> code c = 160)"

text \<open>\<open>/^application\/json(?:\s*;\s*charset=utf-8)?$/iu\<close>.\<close>

definition json_content_type :: "string \<Rightarrow> bool" where
  "json_content_type s =
     (let low = to_lower s; rest = drop 16 low in
      starts_with ''application/json'' low
      \<and> (rest = [] \<or> (case dropWhile is_space_char rest of
            c # cs \<Rightarrow> c = CHR '';'' \<and> dropWhile is_space_char cs = ''charset=utf-8'' | [] \<Rightarrow> False)))"

datatype header_error = TooManyHeaders | ForbiddenHeader | HeadersTooLarge | RepeatedHeader | BadContentType

definition forbidden_header :: "string \<Rightarrow> bool" where
  "forbidden_header name = list_ex (\<lambda>p. starts_with p name) forbidden_header_prefixes"

definition header_bytes :: "raw_headers \<Rightarrow> nat" where
  "header_bytes hs = sum_list (map (\<lambda>h. byte_length (to_lower (fst h)) + byte_length (snd h) + 4) hs)"

definition header_count :: "raw_headers \<Rightarrow> string \<Rightarrow> nat" where
  "header_count hs name = length (filter (\<lambda>h. to_lower (fst h) = name) hs)"

definition validate_headers :: "raw_headers \<Rightarrow> int \<Rightarrow> int \<Rightarrow> (header_error, unit) result" where
  "validate_headers hs max_hdrs max_bytes =
     (if int (length hs) > max_hdrs then Inl TooManyHeaders
      else if list_ex (\<lambda>h. forbidden_header (to_lower (fst h))) hs then Inl ForbiddenHeader
      else if int (header_bytes hs) > max_bytes then Inl HeadersTooLarge
      else if list_ex (\<lambda>n. header_count hs n > 1) sensitive_headers then Inl RepeatedHeader
      else case header_value hs ''content-type'' of
             Some ct \<Rightarrow> if json_content_type ct then Inr () else Inl BadContentType
           | None \<Rightarrow> Inl BadContentType)"

section \<open>Accepting a request\<close>

definition request_id_ok :: "string \<Rightarrow> bool" where
  "request_id_ok s = all_in_class is_token_char 8 128 s"

definition profile_id_ok :: "string \<Rightarrow> bool" where
  "profile_id_ok s = all_in_class (\<lambda>c. is_alnum_char c \<or> c \<in> set ''._-'') 1 80 s"

text \<open>\<open>/^Bearer ([A-Za-z0-9_-]{43,256})$/u\<close>.\<close>

definition bearer_token :: "string \<Rightarrow> string option" where
  "bearer_token v = (if take 7 v = ''Bearer '' \<and> lease_token_ok (drop 7 v) then Some (drop 7 v) else None)"

record http_request =
  hr_method :: string
  hr_url :: string
  hr_headers :: raw_headers

text \<open>A request in flight: \<open>ActiveRequest\<close> with the reservation its handler holds.\<close>

record active_request =
  ar_grant :: nat
  ar_profile :: routed_profile
  ar_cancelled :: bool
  ar_reservation :: "reservation option"

record gateway_state =
  gs_config :: gateway_config
  gs_routing :: dynamic_registry
  gs_leases :: registry
  gs_active :: "(string, active_request) jmap"

text \<open>The refusals before a lease is touched, as HTTP status codes, or what the request is let through with.\<close>

definition screen_request :: "gateway_state \<Rightarrow> http_request \<Rightarrow> string \<Rightarrow> (nat, routed_profile \<times> string \<times> string \<times> string) result" where
  "screen_request st hr uuid =
     (let hs = hr_headers hr;
          pid = (case header_value hs ''x-model-profile'' of Some v \<Rightarrow> v | None \<Rightarrow> []);
          agent = (case header_value hs ''x-agent-id'' of Some v \<Rightarrow> v | None \<Rightarrow> [])
      in case lookup_profile (gs_config st) (gs_routing st) pid of
           None \<Rightarrow> Inl 401
         | Some profile \<Rightarrow>
            (if \<not> profile_id_ok pid \<or> \<not> agent_id_ok agent then Inl 401
             else if hr_method hr \<noteq> ''POST'' \<or> hr_url hr \<noteq> gp_downstream_path profile then Inl 404
             else
              (let rid = (case header_value hs ''x-request-id'' of Some v \<Rightarrow> v | None \<Rightarrow> uuid) in
               if \<not> request_id_ok rid \<or> jhas (gs_active st) rid then Inl 409
               else case validate_headers hs (max_headers (gp_limits profile)) (max_header_bytes (gp_limits profile)) of
                      Inl _ \<Rightarrow> Inl 400
                    | Inr _ \<Rightarrow>
                       (case bearer_token (case header_value hs ''authorization'' of Some v \<Rightarrow> v | None \<Rightarrow> []) of
                          None \<Rightarrow> Inl 401
                        | Some tok \<Rightarrow> Inr (profile, rid, agent, tok)))))"

definition accept_request :: "(string \<Rightarrow> string) \<Rightarrow> int \<Rightarrow> int \<Rightarrow> string \<Rightarrow> http_request \<Rightarrow> gateway_state
    \<Rightarrow> (nat, string) result \<times> gateway_state" where
  "accept_request dg t t' uuid hr st =
     (case screen_request st hr uuid of Inl status \<Rightarrow> (Inl status, st)
      | Inr (profile, rid, agent, tok) \<Rightarrow>
        (case consume dg t t' tok agent (case header_value (hr_headers hr) ''x-model-profile'' of Some v \<Rightarrow> v | None \<Rightarrow> [])
            (gs_leases st) of
           (Inl _, leases') \<Rightarrow> (Inl 401, st\<lparr>gs_leases := leases'\<rparr>)
         | (Inr a, leases') \<Rightarrow> (Inr rid, st\<lparr>gs_leases := leases',
             gs_active := jset rid \<lparr>ar_grant = a, ar_profile = profile, ar_cancelled = False, ar_reservation = None\<rparr>
               (gs_active st)\<rparr>)))"

section \<open>Bodies\<close>

datatype body_error = BodyTooLarge | BodyMissing | BodyNotJson | BodyNotObject | BodyForbiddenField

definition forbidden_body_fields :: "string list" where
  "forbidden_body_fields = [''api_key'', ''base_url'', ''upstream_url'', ''url'', ''headers'']"

text \<open>\<open>readBoundedBody\<close>: the declared length, then the chunk sizes as they arrive.\<close>

fun read_chunks :: "int \<Rightarrow> int \<Rightarrow> int list \<Rightarrow> (body_error, int) result" where
  "read_chunks max_bytes bytes [] = (if bytes = 0 then Inl BodyMissing else Inr bytes)"
| "read_chunks max_bytes bytes (n # ns) =
     (if bytes + n > max_bytes then Inl BodyTooLarge else read_chunks max_bytes (bytes + n) ns)"

definition declared_too_large :: "string option \<Rightarrow> int \<Rightarrow> bool" where
  "declared_too_large declared max_bytes = (case declared of None \<Rightarrow> False
     | Some d \<Rightarrow> d = [] \<or> \<not> list_all is_digit_char d \<or> dec_number d > max_bytes)"

definition read_bounded_body :: "string option \<Rightarrow> int \<Rightarrow> int list \<Rightarrow> (body_error, int) result" where
  "read_bounded_body declared max_bytes chunks =
     (if declared_too_large declared max_bytes then Inl BodyTooLarge else read_chunks max_bytes 0 chunks)"

text \<open>\<open>parseObjectBody\<close> on the decoded and parsed body; \<open>None\<close> when it is not UTF-8 JSON.\<close>

definition parse_object_body :: "json option \<Rightarrow> (body_error, jobject) result" where
  "parse_object_body v = (case v of None \<Rightarrow> Inl BodyNotJson
     | Some (JObj ob) \<Rightarrow> if list_ex (\<lambda>k. field ob k \<noteq> None) forbidden_body_fields then Inl BodyForbiddenField else Inr ob
     | Some _ \<Rightarrow> Inl BodyNotObject)"

section \<open>Errors and HTTP status\<close>

text \<open>The errors thrown inside a request, with their messages.\<close>

datatype request_error =
    EBody body_error | EBudget budget_error | EClampedTooLarge | EUpstream string

definition body_message :: "body_error \<Rightarrow> string" where
  "body_message e = (case e of BodyTooLarge \<Rightarrow> ''request body too large'' | BodyMissing \<Rightarrow> ''request body is required''
     | BodyNotJson \<Rightarrow> ''request body must be valid UTF-8 JSON'' | BodyNotObject \<Rightarrow> ''request body must be an object''
     | BodyForbiddenField \<Rightarrow> ''request body contains a forbidden routing or credential field'')"

definition error_message :: "request_error \<Rightarrow> string" where
  "error_message e = (case e of EBody b \<Rightarrow> body_message b
     | EBudget (Refused r) \<Rightarrow> []
     | EBudget InputTokenBudget \<Rightarrow> ''input token budget exceeded''
     | EBudget InputCostBudget \<Rightarrow> ''input cost budget exceeded''
     | EBudget OutputCostExhausted \<Rightarrow> ''output cost budget exhausted''
     | EBudget (BadOutputField k) \<Rightarrow> k @ '' must be a positive integer''
     | EClampedTooLarge \<Rightarrow> ''clamped request body is too large''
     | EUpstream m \<Rightarrow> m)"

definition message_status :: "string \<Rightarrow> nat" where
  "message_status reason =
     (if str_includes ''too large'' reason \<or> str_includes ''limit exceeded'' reason then 413
      else if str_includes ''budget'' reason \<or> str_includes ''cost'' reason then 429
      else if str_includes ''request body'' reason then 400
      else if str_includes ''cancel'' reason \<or> str_includes ''downstream closed'' reason then 499 else 502)"

definition status_code :: "nat \<Rightarrow> string" where
  "status_code status = (if status = 429 then ''model_budget_exhausted'' else if status = 413 then ''model_bound_exceeded''
     else if status = 400 then ''invalid_model_request'' else ''model_gateway_failed'')"

text \<open>A \<open>ModelRequestError\<close> is answered 400 with its message; any other error by the words of its message.\<close>

definition error_status :: "request_error \<Rightarrow> nat" where
  "error_status e = (case e of EBudget (Refused _) \<Rightarrow> 400 | _ \<Rightarrow> message_status (error_message e))"

section \<open>Requests in flight\<close>

definition set_grant :: "nat \<Rightarrow> lease_grant \<Rightarrow> gateway_state \<Rightarrow> gateway_state" where
  "set_grant a g st = st\<lparr>gs_leases := update_grant a g (gs_leases st)\<rparr>"

definition grant_at :: "gateway_state \<Rightarrow> nat \<Rightarrow> lease_grant" where
  "grant_at st a = lr_heap (gs_leases st) a"

text \<open>From the body to the reservation: any error leaves the grant as it was.\<close>

definition reserve_request :: "string option \<Rightarrow> int list \<Rightarrow> json option \<Rightarrow> string \<Rightarrow> active_request \<Rightarrow> gateway_state
    \<Rightarrow> (request_error, jobject) result \<times> gateway_state" where
  "reserve_request declared chunks parsed rid q st =
     (case read_bounded_body declared (max_request_bytes (gp_limits (ar_profile q))) chunks of
        Inl e \<Rightarrow> (Inl (EBody e), st)
      | Inr bytes \<Rightarrow> (case parse_object_body parsed of
          Inl e \<Rightarrow> (Inl (EBody e), st)
        | Inr body \<Rightarrow> (case reserve_budget body bytes (grant_at st (ar_grant q)) (gateway_profile.truncate (ar_profile q)) of
            Inl e \<Rightarrow> (Inl (EBudget e), st)
          | Inr (r, lease', out) \<Rightarrow> (Inr out, (set_grant (ar_grant q) lease' st)
              \<lparr>gs_active := jset rid (q\<lparr>ar_reservation := Some r\<rparr>) (gs_active st)\<rparr>))))"

definition finish_request :: "string \<Rightarrow> gateway_state \<Rightarrow> gateway_state" where
  "finish_request rid st = st\<lparr>gs_active := jdel rid (gs_active st)\<rparr>"

text \<open>The handler's success path: \<open>reconcileBudget\<close>, then the \<open>finally\<close> block. It returns the usage charged.\<close>

definition complete_request :: "string \<Rightarrow> active_request \<Rightarrow> reservation \<Rightarrow> usage option \<Rightarrow> gateway_state
    \<Rightarrow> usage \<times> gateway_state" where
  "complete_request rid q r actual st =
     (let (lease', charged, overrun) = reconcile_budget r (grant_at st (ar_grant q)) actual
      in (charged, finish_request rid (set_grant (ar_grant q) lease' st)))"

text \<open>The handler's \<open>catch\<close> path: a reservation taken is settled as failed, then the \<open>finally\<close> block.\<close>

definition fail_request :: "string \<Rightarrow> active_request \<Rightarrow> usage option \<Rightarrow> gateway_state \<Rightarrow> usage option \<times> gateway_state" where
  "fail_request rid q actual st = (case ar_reservation q of
     None \<Rightarrow> (None, finish_request rid st)
   | Some r \<Rightarrow> (let (lease', charged, overrun) = settle_failed_request r (grant_at st (ar_grant q)) actual
       in (Some charged, finish_request rid (set_grant (ar_grant q) lease' st))))"

text \<open>\<open>cancelAndDrain\<close> up to its first \<open>await\<close>.\<close>

definition cancel_request :: "string \<Rightarrow> gateway_state \<Rightarrow> bool \<times> gateway_state" where
  "cancel_request rid st = (case jget (gs_active st) rid of None \<Rightarrow> (False, st)
     | Some q \<Rightarrow> (True, st\<lparr>gs_active := jset rid (q\<lparr>ar_cancelled := True\<rparr>) (gs_active st)\<rparr>))"

text \<open>\<open>revokeAndDrain\<close> up to the drain: the lease is retired and every request on its grant cancelled.\<close>

fun cancel_all :: "string list \<Rightarrow> gateway_state \<Rightarrow> gateway_state" where
  "cancel_all [] st = st"
| "cancel_all (rid # rids) st = cancel_all rids (snd (cancel_request rid st))"

definition bound_requests :: "nat \<Rightarrow> gateway_state \<Rightarrow> string list" where
  "bound_requests a st = map fst (filter (\<lambda>e. ar_grant (snd e) = a) (gs_active st))"

definition revoke_request :: "int \<Rightarrow> int \<Rightarrow> string \<Rightarrow> gateway_state \<Rightarrow> bool \<times> gateway_state" where
  "revoke_request t t' lease_id st =
     (let binding = binding_for (gs_leases st) lease_id;
          (revoked, leases') = revoke t t' lease_id (gs_leases st);
          st1 = st\<lparr>gs_leases := leases'\<rparr>
      in case binding of None \<Rightarrow> (revoked, st1) | Some a \<Rightarrow> (revoked, cancel_all (bound_requests a st1) st1))"

definition initial_gateway :: "gateway_config \<Rightarrow> string \<Rightarrow> gateway_state" where
  "initial_gateway config boot = \<lparr>gs_config = config, gs_routing = initial_registry config boot,
     gs_leases = new_registry 10000, gs_active = []\<rparr>"

end
