(* ===== verification/GatewayAccounting.thy ===== *)
theory GatewayAccounting
  imports GatewayRequests
begin

text \<open>
  The gateway as a step relation, with two ghost figures per grant: the cost every finished request
  was charged, and the part of it the lease could not absorb. The invariant ties them to the lease's
  own accounting, over every interleaving of requests, cancellations, revocations and snapshots.
\<close>

section \<open>Steps\<close>

record ghost =
  gh_charged :: "nat \<Rightarrow> int"
  gh_lost :: "nat \<Rightarrow> int"

definition no_ghost :: ghost where
  "no_ghost = \<lparr>gh_charged = (\<lambda>_. 0), gh_lost = (\<lambda>_. 0)\<rparr>"

text \<open>A request on grant \<open>a\<close> was charged \<open>cost\<close>; \<open>room\<close> is what its lease could still give.\<close>

definition note_charge :: "nat \<Rightarrow> int \<Rightarrow> int \<Rightarrow> ghost \<Rightarrow> ghost" where
  "note_charge a cost room g = g
     \<lparr>gh_charged := (gh_charged g)(a := gh_charged g a + cost),
      gh_lost := (gh_lost g)(a := gh_lost g a + max 0 (cost - room))\<rparr>"

text \<open>The usage a step settles with: none, or what a provider event prices to under the request's profile.\<close>

definition reported :: "active_request \<Rightarrow> usage option \<Rightarrow> bool" where
  "reported q actual = (case actual of None \<Rightarrow> True
     | Some u \<Rightarrow> (\<exists>event. usage_from_provider event (gp_pricing (ar_profile q)) = Some u))"

definition drained :: "gateway_state \<Rightarrow> string \<Rightarrow> bool" where
  "drained st lease_id = (case binding_for (gs_leases st) lease_id of None \<Rightarrow> True
     | Some a \<Rightarrow> bound_requests a st = [])"

inductive gateway_step :: "(string \<Rightarrow> string) \<Rightarrow> (string \<Rightarrow> string option) \<Rightarrow> (string \<Rightarrow> string)
    \<Rightarrow> gateway_state \<times> ghost \<Rightarrow> gateway_state \<times> ghost \<Rightarrow> bool" for dg host_of digest where
  gw_accept: "accept_request dg t t' uuid hr st = (res, st')
     \<Longrightarrow> gateway_step dg host_of digest (st, g) (st', g)"
| gw_reserve: "jget (gs_active st) rid = Some q \<Longrightarrow> ar_reservation q = None
     \<Longrightarrow> reserve_request declared chunks parsed rid q st = (Inr out, st')
     \<Longrightarrow> gateway_step dg host_of digest (st, g) (st', g)"
| gw_reject: "jget (gs_active st) rid = Some q \<Longrightarrow> ar_reservation q = None
     \<Longrightarrow> fail_request rid q actual st = (None, st')
     \<Longrightarrow> gateway_step dg host_of digest (st, g) (st', g)"
| gw_complete: "jget (gs_active st) rid = Some q \<Longrightarrow> ar_reservation q = Some r \<Longrightarrow> reported q actual
     \<Longrightarrow> complete_request rid q r actual st = (u, st')
     \<Longrightarrow> gateway_step dg host_of digest (st, g)
          (st', note_charge (ar_grant q) (us_cost u) (rem_cost (grant_at st (ar_grant q)) + rs_cost r) g)"
| gw_fail: "jget (gs_active st) rid = Some q \<Longrightarrow> ar_reservation q = Some r \<Longrightarrow> reported q actual
     \<Longrightarrow> fail_request rid q actual st = (Some u, st')
     \<Longrightarrow> gateway_step dg host_of digest (st, g)
          (st', note_charge (ar_grant q) (us_cost u) (rem_cost (grant_at st (ar_grant q)) + rs_cost r) g)"
| gw_cancel: "cancel_request rid st = (ok, st') \<Longrightarrow> gateway_step dg host_of digest (st, g) (st', g)"
| gw_issue: "lookup_profile (gs_config st) (gs_routing st) (li_profile inp) = Some p
     \<Longrightarrow> issue dg toks t t' inp (gateway_profile.truncate p) (gs_leases st) = Some (res, ls)
     \<Longrightarrow> gateway_step dg host_of digest (st, g) (st\<lparr>gs_leases := ls\<rparr>, g)"
| gw_revoke: "revoke_request t t' i st = (ok, st') \<Longrightarrow> gateway_step dg host_of digest (st, g) (st', g)"
| gw_freeze: "drained st i \<Longrightarrow> freeze_settlement t i (gs_leases st) = (res, ls)
     \<Longrightarrow> gateway_step dg host_of digest (st, g) (st\<lparr>gs_leases := ls\<rparr>, g)"
| gw_count: "active_count t (gs_leases st) = (n, ls)
     \<Longrightarrow> gateway_step dg host_of digest (st, g) (st\<lparr>gs_leases := ls\<rparr>, g)"
| gw_snapshot: "apply_snapshot host_of digest (gs_config st) command rec (gs_routing st) = (res, reg)
     \<Longrightarrow> gateway_step dg host_of digest (st, g) (st\<lparr>gs_routing := reg\<rparr>, g)"

inductive gateway_run :: "(string \<Rightarrow> string) \<Rightarrow> (string \<Rightarrow> string option) \<Rightarrow> (string \<Rightarrow> string) \<Rightarrow> gateway_config
    \<Rightarrow> gateway_state \<times> ghost \<Rightarrow> bool" for dg host_of digest config where
  gw_start: "gateway_run dg host_of digest config (initial_gateway config boot, no_ghost)"
| gw_step: "gateway_run dg host_of digest config s \<Longrightarrow> gateway_step dg host_of digest s s'
     \<Longrightarrow> gateway_run dg host_of digest config s'"

text \<open>The configured profiles passed \<open>parsePricing\<close>.\<close>

definition config_ok :: "gateway_config \<Rightarrow> bool" where
  "config_ok config = (jok (gc_profiles config) \<and> (\<forall>pid p. jget (gc_profiles config) pid = Some p \<longrightarrow> pricing_valid (gp_pricing p)))"

section \<open>The invariant\<close>

definition reserved_cost :: "nat \<Rightarrow> active_request \<Rightarrow> int" where
  "reserved_cost a q = (if ar_grant q = a then (case ar_reservation q of Some r \<Rightarrow> rs_cost r | None \<Rightarrow> 0) else 0)"

definition in_flight :: "nat \<Rightarrow> gateway_state \<Rightarrow> int" where
  "in_flight a st = msum (reserved_cost a) (gs_active st)"

definition grant_inv :: "gateway_state \<Rightarrow> ghost \<Rightarrow> nat \<Rightarrow> bool" where
  "grant_inv st g a = (let l = grant_at st a in
     0 \<le> gh_lost g a
     \<and> rem_cost l + in_flight a st \<le> initial_cost (lg_acc l)
     \<and> initial_cost (lg_acc l) - rem_cost l + gh_lost g a = in_flight a st + gh_charged g a
     \<and> unabsorbed_cost (lg_acc l) = min (gh_lost g a) max_safe)"

definition requests_ok :: "gateway_state \<Rightarrow> bool" where
  "requests_ok st = (jok (gs_active st) \<and> (\<forall>rid q. jget (gs_active st) rid = Some q \<longrightarrow>
     ar_grant q < lr_fresh (gs_leases st) \<and> pricing_valid (gp_pricing (ar_profile q))
     \<and> (\<forall>r. ar_reservation q = Some r \<longrightarrow> 0 \<le> rs_cost r \<and> 0 \<le> rem_cost (grant_at st (ar_grant q)))))"

definition routing_ok :: "gateway_state \<Rightarrow> bool" where
  "routing_ok st = (config_ok (gs_config st)
     \<and> (\<forall>pid p. jget (dr_profiles (gs_routing st)) pid = Some p \<longrightarrow> pricing_valid (gp_pricing p)))"

definition unborn_ok :: "gateway_state \<Rightarrow> ghost \<Rightarrow> bool" where
  "unborn_ok st g = (\<forall>a \<ge> lr_fresh (gs_leases st). gh_charged g a = 0 \<and> gh_lost g a = 0)"

definition gateway_inv :: "gateway_state \<Rightarrow> ghost \<Rightarrow> bool" where
  "gateway_inv st g = (registry_inv (gs_leases st) \<and> requests_ok st \<and> routing_ok st \<and> unborn_ok st g
     \<and> (\<forall>a. a < lr_fresh (gs_leases st) \<longrightarrow> grant_inv st g a))"

section \<open>What the steps change\<close>

lemma in_flight_jset:
  "in_flight a (st\<lparr>gs_active := jset rid q (gs_active st)\<rparr>)
     = in_flight a st - (case jget (gs_active st) rid of Some p \<Rightarrow> reserved_cost a p | None \<Rightarrow> 0) + reserved_cost a q"
  by (simp add: in_flight_def msum_jset)

lemma in_flight_finish:
  "jok (gs_active st) \<Longrightarrow> jget (gs_active st) rid = Some q
     \<Longrightarrow> in_flight a (finish_request rid st) = in_flight a st - reserved_cost a q"
  by (simp add: in_flight_def finish_request_def msum_jdel)

lemma set_grant_fields [simp]:
  "gs_active (set_grant a l st) = gs_active st" "gs_config (set_grant a l st) = gs_config st"
  "gs_routing (set_grant a l st) = gs_routing st" "grant_at (set_grant a l st) b = (if b = a then l else grant_at st b)"
  "gs_leases (set_grant a l st) = update_grant a l (gs_leases st)"
  by (simp_all add: set_grant_def grant_at_def update_grant_def)

lemma finish_fields [simp]:
  "gs_leases (finish_request rid st) = gs_leases st" "gs_config (finish_request rid st) = gs_config st"
  "gs_routing (finish_request rid st) = gs_routing st" "grant_at (finish_request rid st) b = grant_at st b"
  "gs_active (finish_request rid st) = jdel rid (gs_active st)"
  by (simp_all add: finish_request_def grant_at_def)

lemma active_update_fields [simp]:
  "gs_leases (st\<lparr>gs_active := m\<rparr>) = gs_leases st" "grant_at (st\<lparr>gs_active := m\<rparr>) b = grant_at st b"
  by (simp_all add: grant_at_def)

lemma update_grant_fresh [simp]: "lr_fresh (update_grant a l r) = lr_fresh r"
  by (simp add: update_grant_def)

lemma in_flight_set_grant [simp]: "in_flight a (set_grant b l st) = in_flight a st"
  by (simp add: in_flight_def)

lemma in_flight_leases [simp]: "in_flight a (st\<lparr>gs_leases := ls\<rparr>) = in_flight a st"
  by (simp add: in_flight_def)

lemma gateway_invE:
  assumes "gateway_inv st g"
  obtains "registry_inv (gs_leases st)" "requests_ok st" "routing_ok st" "unborn_ok st g"
    "\<And>a. a < lr_fresh (gs_leases st) \<Longrightarrow> grant_inv st g a"
  using assms by (simp add: gateway_inv_def)

lemma requests_okD:
  assumes "requests_ok st" "jget (gs_active st) rid = Some q"
  shows "ar_grant q < lr_fresh (gs_leases st)" "pricing_valid (gp_pricing (ar_profile q))"
    "\<And>r. ar_reservation q = Some r \<Longrightarrow> 0 \<le> rs_cost r \<and> 0 \<le> rem_cost (grant_at st (ar_grant q))"
  using assms by (auto simp: requests_ok_def)

lemma requests_ok_jok: "requests_ok st \<Longrightarrow> jok (gs_active st)"
  by (simp add: requests_ok_def)

text \<open>The accounting of a grant depends on the grant and on the reservations held against it only.\<close>

lemma grant_inv_same:
  assumes "grant_inv st g a" "grant_at st' a = grant_at st a" "in_flight a st' = in_flight a st"
  shows "grant_inv st' g a"
  using assms by (simp add: grant_inv_def Let_def)

text \<open>A step that moves leases around without touching grants.\<close>

lemma leases_step_inv:
  assumes inv: "gateway_inv st g" and ls: "registry_inv ls" "lr_heap ls = lr_heap (gs_leases st)"
    "lr_fresh ls = lr_fresh (gs_leases st)"
  shows "gateway_inv (st\<lparr>gs_leases := ls\<rparr>) g"
  using inv
proof (rule gateway_invE)
  assume parts: "requests_ok st" "routing_ok st" "unborn_ok st g"
    "\<And>a. a < lr_fresh (gs_leases st) \<Longrightarrow> grant_inv st g a"
  have same: "grant_at (st\<lparr>gs_leases := ls\<rparr>) a = grant_at st a" for a
    by (simp add: grant_at_def ls)
  have "grant_inv (st\<lparr>gs_leases := ls\<rparr>) g a" if "a < lr_fresh (gs_leases st)" for a
    by (rule grant_inv_same [OF parts(4) [OF that] same]) simp
  with parts show ?thesis
    by (simp add: gateway_inv_def ls requests_ok_def routing_ok_def unborn_ok_def same)
qed

text \<open>A step that replaces a request by one with the same grant, profile and reservation.\<close>

lemma same_request_inv:
  assumes inv: "gateway_inv st g" and q: "jget (gs_active st) rid = Some q"
    and q': "ar_grant q' = ar_grant q" "ar_profile q' = ar_profile q" "ar_reservation q' = ar_reservation q"
  shows "gateway_inv (st\<lparr>gs_active := jset rid q' (gs_active st)\<rparr>) g"
  using inv
proof (rule gateway_invE)
  let ?st = "st\<lparr>gs_active := jset rid q' (gs_active st)\<rparr>"
  assume parts: "registry_inv (gs_leases st)" "requests_ok st" "routing_ok st" "unborn_ok st g"
    "\<And>a. a < lr_fresh (gs_leases st) \<Longrightarrow> grant_inv st g a"
  have "reserved_cost a q' = reserved_cost a q" for a
    by (simp add: reserved_cost_def q')
  then have flight: "in_flight a ?st = in_flight a st" for a
    by (simp add: in_flight_jset q)
  have grants: "grant_inv ?st g a" if "a < lr_fresh (gs_leases st)" for a
    by (rule grant_inv_same [OF parts(5) [OF that] _ flight]) simp
  have "requests_ok ?st"
    using parts(2) requests_okD [OF parts(2) q] q' by (auto simp: requests_ok_def)
  with parts grants show ?thesis
    by (simp add: gateway_inv_def routing_ok_def unborn_ok_def)
qed

text \<open>A step that settles one request and drops it.\<close>

lemma settle_step_inv:
  assumes inv: "gateway_inv st g" and q: "jget (gs_active st) rid = Some q" and r: "ar_reservation q = Some r"
    and l': "rem_cost l' = max 0 (rem_cost l + rs_cost r - cost)"
      "initial_cost (lg_acc l') = initial_cost (lg_acc l)"
      "unabsorbed_cost (lg_acc l') = saturating_add [unabsorbed_cost (lg_acc l), max 0 (cost - (rem_cost l + rs_cost r))]"
    and l: "l = grant_at st (ar_grant q)" and cost: "0 \<le> cost"
  shows "gateway_inv (finish_request rid (set_grant (ar_grant q) l' st))
    (note_charge (ar_grant q) cost (rem_cost l + rs_cost r) g)"
  using inv
proof (rule gateway_invE)
  let ?a = "ar_grant q"
  let ?st = "finish_request rid (set_grant ?a l' st)" and ?g = "note_charge ?a cost (rem_cost l + rs_cost r) g"
  assume parts: "registry_inv (gs_leases st)" "requests_ok st" "routing_ok st" "unborn_ok st g"
    "\<And>a. a < lr_fresh (gs_leases st) \<Longrightarrow> grant_inv st g a"
  note rem = l'(1)
  note ok = requests_okD [OF parts(2) q]
  have res: "0 \<le> rs_cost r" "0 \<le> rem_cost l"
    using ok(3) [OF r] by (simp_all add: l)
  have ok': "jok (gs_active (set_grant ?a l' st))"
    using parts(2) by (simp add: requests_ok_jok)
  have flight: "in_flight a ?st = in_flight a st - reserved_cost a q" for a
    using in_flight_finish [OF ok', of rid q a] q by simp
  have "grant_inv ?st ?g a" if a: "a < lr_fresh (gs_leases st)" for a
  proof (cases "a = ?a")
    case False
    then show ?thesis
      using parts(5) [OF a] by (simp add: grant_inv_def Let_def flight reserved_cost_def note_charge_def)
  next
    case True
    have "reserved_cost a q = rs_cost r"
      by (simp add: True reserved_cost_def r)
    then show ?thesis
      using parts(5) [OF a] res rem l'(2,3) cost
      unfolding True grant_inv_def Let_def flight
      by (auto simp: l [symmetric] note_charge_def saturating_add_def min_def max_def split: if_splits)
  qed
  moreover have "requests_ok ?st"
    using parts(2) rem by (auto simp: requests_ok_def)
  moreover have "unborn_ok ?st ?g"
    using parts(4) ok(1) by (auto simp: unborn_ok_def note_charge_def)
  ultimately show ?thesis
    using parts(1,3) by (simp add: gateway_inv_def routing_ok_def update_grant_inv)
qed

section \<open>Every step keeps the invariant\<close>

lemma consume_memory:
  assumes "consume dg t t' tok agent profile r = (res, r')"
  shows "lr_heap r' = lr_heap r" "lr_fresh r' = lr_fresh r"
  by (rule consume_cases [OF assms]; simp)+

lemma consume_grant_born:
  assumes "registry_inv r" "consume dg t t' tok agent profile r = (Inr a, r')"
  shows "a < lr_fresh r"
proof -
  have "live_grant (prune t r) (dg tok) = Some a"
    by (rule consume_cases [OF assms(2)]) (simp_all add: live_grant_def)
  then have "grant_of (prune t r) (dg tok) = Some a"
    by (simp add: grant_of_def)
  then show ?thesis
    using prune_inv [OF assms(1), of t] by (auto simp: registry_inv_def grants_ok_def)
qed

lemma routing_lookup: "routing_ok st \<Longrightarrow> lookup_profile (gs_config st) (gs_routing st) pid = Some p \<Longrightarrow> pricing_valid (gp_pricing p)"
  by (auto simp: routing_ok_def config_ok_def lookup_profile_def split: option.splits)

lemma screen_request_InrE:
  assumes "screen_request st hr uuid = Inr (profile, rid, agent, tok)"
  obtains pid where "lookup_profile (gs_config st) (gs_routing st) pid = Some profile" "\<not> jhas (gs_active st) rid"
    "request_id_ok rid" "lease_token_ok tok" "agent_id_ok agent"
    "pid = (case header_value (hr_headers hr) ''x-model-profile'' of Some v \<Rightarrow> v | None \<Rightarrow> [])"
proof -
  let ?hs = "hr_headers hr"
  let ?pid = "(case header_value ?hs ''x-model-profile'' of Some v \<Rightarrow> v | None \<Rightarrow> [])"
  let ?bearer = "bearer_token (case header_value ?hs ''authorization'' of Some v \<Rightarrow> v | None \<Rightarrow> [])"
  note body = assms [unfolded screen_request_def Let_def]
  obtain p where p: "lookup_profile (gs_config st) (gs_routing st) ?pid = Some p"
    using body by (cases "lookup_profile (gs_config st) (gs_routing st) ?pid") simp_all
  let ?agent = "(case header_value ?hs ''x-agent-id'' of Some v \<Rightarrow> v | None \<Rightarrow> [])"
  let ?rid = "(case header_value ?hs ''x-request-id'' of Some v \<Rightarrow> v | None \<Rightarrow> uuid)"
  note body2 = body [unfolded p option.case]
  have c1: "\<not> (\<not> profile_id_ok ?pid \<or> \<not> agent_id_ok ?agent)"
    by (rule notI, use body2 in \<open>simp only: if_True\<close>) auto
  note body3 = body2 [unfolded if_not_P [OF c1]]
  have c2: "\<not> (hr_method hr \<noteq> ''POST'' \<or> hr_url hr \<noteq> gp_downstream_path p)"
    by (rule notI, use body3 in \<open>simp only: if_True\<close>) auto
  note body4 = body3 [unfolded if_not_P [OF c2]]
  have c3: "\<not> (\<not> request_id_ok ?rid \<or> jhas (gs_active st) ?rid)"
    by (rule notI, use body4 in \<open>simp only: if_True\<close>) auto
  note body5 = body4 [unfolded if_not_P [OF c3]]
  from body5 obtain tk where tk: "?bearer = Some tk"
    and result: "Inr (p, ?rid, ?agent, tk) = (Inr (profile, rid, agent, tok) :: (nat, routed_profile \<times> string \<times> string \<times> string) result)"
    by (simp split: sum.splits option.splits)
  have "lease_token_ok tk"
    using tk by (simp add: bearer_token_def split: if_splits)
  with result c1 c3 p show thesis
    by (intro that [of ?pid]) simp_all
qed

lemma accept_inv:
  assumes inv: "gateway_inv st g" and step: "accept_request dg t t' uuid hr st = (res, st')"
  shows "gateway_inv st' g"
  using inv
proof (rule gateway_invE)
  assume parts: "registry_inv (gs_leases st)" "requests_ok st" "routing_ok st" "unborn_ok st g"
    "\<And>a. a < lr_fresh (gs_leases st) \<Longrightarrow> grant_inv st g a"
  show ?thesis
  proof (cases "screen_request st hr uuid")
    case (Inl status)
    with step inv show ?thesis by (simp add: accept_request_def)
  next
    case (Inr x)
    obtain profile rid agent tok where x: "x = (profile, rid, agent, tok)" by (cases x)
    obtain pid where screened: "lookup_profile (gs_config st) (gs_routing st) pid = Some profile"
        "\<not> jhas (gs_active st) rid"
        "pid = (case header_value (hr_headers hr) ''x-model-profile'' of Some v \<Rightarrow> v | None \<Rightarrow> [])"
      by (rule screen_request_InrE [OF Inr [unfolded x]])
    obtain cres ls where c: "consume dg t t' tok agent pid (gs_leases st) = (cres, ls)"
      by (metis surj_pair)
    note ls = consume_inv [OF parts(1) c] consume_memory [OF c]
    have base: "gateway_inv (st\<lparr>gs_leases := ls\<rparr>) g"
      using inv ls by (rule leases_step_inv)
    show ?thesis
    proof (cases cres)
      case (Inl e)
      with step Inr x c screened(3) base show ?thesis
        by (simp add: accept_request_def)
    next
      case (Inr a)
      let ?q = "\<lparr>ar_grant = a, ar_profile = profile, ar_cancelled = False, ar_reservation = None\<rparr>"
      let ?st = "st\<lparr>gs_leases := ls, gs_active := jset rid ?q (gs_active st)\<rparr>"
      have st': "st' = ?st"
        using step \<open>screen_request st hr uuid = Inr x\<close> x c screened(3) Inr by (simp add: accept_request_def)
      have "grant_inv ?st g b" if "b < lr_fresh ls" for b
      proof (rule grant_inv_same)
        show "grant_inv (st\<lparr>gs_leases := ls\<rparr>) g b"
          using base that by (simp add: gateway_inv_def)
        show "grant_at ?st b = grant_at (st\<lparr>gs_leases := ls\<rparr>) b"
          by (simp add: grant_at_def)
        show "in_flight b ?st = in_flight b (st\<lparr>gs_leases := ls\<rparr>)"
          using screened(2) by (simp add: in_flight_def msum_jset jhas_def reserved_cost_def)
      qed
      moreover have "a < lr_fresh ls"
        using consume_grant_born [OF parts(1) c [unfolded Inr]] ls(3) by simp
      moreover have "pricing_valid (gp_pricing profile)"
        using parts(3) screened(1) by (rule routing_lookup)
      ultimately show ?thesis
        using base unfolding st'
        by (auto simp: gateway_inv_def requests_ok_def routing_ok_def unborn_ok_def grant_at_def)
    qed
  qed
qed

lemma reserve_inv:
  assumes inv: "gateway_inv st g" and q: "jget (gs_active st) rid = Some q" "ar_reservation q = None"
    and step: "reserve_request declared chunks parsed rid q st = (Inr out, st')"
  shows "gateway_inv st' g"
  using inv
proof (rule gateway_invE)
  let ?a = "ar_grant q"
  assume parts: "registry_inv (gs_leases st)" "requests_ok st" "routing_ok st" "unborn_ok st g"
    "\<And>a. a < lr_fresh (gs_leases st) \<Longrightarrow> grant_inv st g a"
  note ok = requests_okD [OF parts(2) q(1)]
  from step obtain bytes body r lease' where
    res: "reserve_budget body bytes (grant_at st ?a) (gateway_profile.truncate (ar_profile q)) = Inr (r, lease', out)"
    and st': "st' = (set_grant ?a lease' st)\<lparr>gs_active := jset rid (q\<lparr>ar_reservation := Some r\<rparr>) (gs_active st)\<rparr>"
    by (auto simp: reserve_request_def split: sum.splits)
  have valid: "pricing_valid (gp_pricing (gateway_profile.truncate (ar_profile q)))"
    using ok(2) by (simp add: gateway_profile.truncate_def)
  have taken: "0 \<le> rs_cost r" "rs_cost r \<le> rem_cost (grant_at st ?a)" "rem_cost lease' = rem_cost (grant_at st ?a) - rs_cost r"
      "lg_acc lease' = (lg_acc (grant_at st ?a))\<lparr>acc_requests := acc_requests (lg_acc (grant_at st ?a)) + 1\<rparr>"
  proof -
    have "0 \<le> rem_cost (grant_at st ?a)"
      using valid res by (rule reserve_budget_solvent)
    from reserve_budget_ok [OF valid this res]
    show "0 \<le> rs_cost r" "rs_cost r \<le> rem_cost (grant_at st ?a)" "rem_cost lease' = rem_cost (grant_at st ?a) - rs_cost r"
      by simp_all
    have "lease' = take_reservation r (grant_at st ?a)"
      using res by (rule reserve_budget_InrE) assumption
    then show "lg_acc lease' = (lg_acc (grant_at st ?a))\<lparr>acc_requests := acc_requests (lg_acc (grant_at st ?a)) + 1\<rparr>"
      by (simp add: take_reservation_def)
  qed
  have flight: "in_flight b st' = in_flight b st + (if b = ?a then rs_cost r else 0)" for b
    using q by (simp add: st' in_flight_def msum_jset reserved_cost_def)
  have grants: "grant_at st' b = (if b = ?a then lease' else grant_at st b)" for b
    by (simp add: st' grant_at_def set_grant_def update_grant_def)
  have "grant_inv st' g b" if "b < lr_fresh (gs_leases st)" for b
    using parts(5) [OF that] taken by (auto simp: grant_inv_def Let_def flight grants)
  moreover have "requests_ok st'"
  proof -
    have active: "gs_active st' = jset rid (q\<lparr>ar_reservation := Some r\<rparr>) (gs_active st)"
      and fresh: "lr_fresh (gs_leases st') = lr_fresh (gs_leases st)"
      by (simp_all add: st')
    have "0 \<le> rem_cost lease'"
      using taken(2,3) by linarith
    moreover have "0 \<le> rem_cost (grant_at st' b)" if "0 \<le> rem_cost (grant_at st b)" for b
      using calculation that by (simp add: grants)
    ultimately have "ar_grant p < lr_fresh (gs_leases st) \<and> pricing_valid (gp_pricing (ar_profile p))
        \<and> (\<forall>r. ar_reservation p = Some r \<longrightarrow> 0 \<le> rs_cost r \<and> 0 \<le> rem_cost (grant_at st' (ar_grant p)))"
      if "jget (gs_active st') k = Some p" for k p
    proof (cases "k = rid")
      case True
      then show ?thesis
        using that ok(1,2) taken(1) \<open>0 \<le> rem_cost lease'\<close> by (auto simp: active grants)
    next
      case False
      then show ?thesis
        using that requests_okD [OF parts(2), of k p] \<open>\<And>b. 0 \<le> rem_cost (grant_at st b) \<Longrightarrow> 0 \<le> rem_cost (grant_at st' b)\<close>
        by (simp add: active)
    qed
    then show ?thesis
      using requests_ok_jok [OF parts(2)] by (simp add: requests_ok_def fresh active)
  qed
  ultimately show ?thesis
    using parts by (simp add: gateway_inv_def st' routing_ok_def unborn_ok_def update_grant_inv)
qed

lemma drop_unreserved_inv:
  assumes inv: "gateway_inv st g" and q: "jget (gs_active st) rid = Some q" "ar_reservation q = None"
  shows "gateway_inv (finish_request rid st) g"
  using inv
proof (rule gateway_invE)
  assume parts: "registry_inv (gs_leases st)" "requests_ok st" "routing_ok st" "unborn_ok st g"
    "\<And>a. a < lr_fresh (gs_leases st) \<Longrightarrow> grant_inv st g a"
  have "in_flight a (finish_request rid st) = in_flight a st" for a
    using in_flight_finish [OF requests_ok_jok [OF parts(2)] q(1), of a] q(2) by (simp add: reserved_cost_def)
  then have "grant_inv (finish_request rid st) g a" if "a < lr_fresh (gs_leases st)" for a
    by (intro grant_inv_same [OF parts(5) [OF that]]) simp_all
  with parts show ?thesis
    by (simp add: gateway_inv_def routing_ok_def unborn_ok_def requests_ok_def)
qed

lemma complete_inv:
  assumes inv: "gateway_inv st g" and q: "jget (gs_active st) rid = Some q" "ar_reservation q = Some r"
    and actual: "reported q actual" and step: "complete_request rid q r actual st = (u, st')"
  shows "gateway_inv st' (note_charge (ar_grant q) (us_cost u) (rem_cost (grant_at st (ar_grant q)) + rs_cost r) g)"
proof -
  have ok: "requests_ok st" using inv by (simp add: gateway_inv_def)
  obtain l' charged ov where rec: "reconcile_budget r (grant_at st (ar_grant q)) actual = (l', charged, ov)"
    by (metis prod_cases3)
  have st': "st' = finish_request rid (set_grant (ar_grant q) l' st)" and u: "u = charged"
    using step rec by (simp_all add: complete_request_def)
  have "0 \<le> rem_cost (grant_at st (ar_grant q))" "0 \<le> rs_cost r"
    using requests_okD(3) [OF ok q] by simp_all
  note lease = reconcile_budget_lease [OF this(1) rec]
  have "0 \<le> us_cost charged"
    using actual requests_okD(2) [OF ok q(1)] \<open>0 \<le> rs_cost r\<close> unfolding lease(7)
    by (auto simp: reported_def reservation_as_usage_def usage_from_provider_cost_nonneg split: option.splits)
  then show ?thesis
    unfolding st' u
    by (intro settle_step_inv [OF inv q, where l = "grant_at st (ar_grant q)"]) (use lease in simp_all)
qed

lemma fail_inv:
  assumes inv: "gateway_inv st g" and q: "jget (gs_active st) rid = Some q" "ar_reservation q = Some r"
    and step: "fail_request rid q actual st = (Some u, st')"
  shows "gateway_inv st' (note_charge (ar_grant q) (us_cost u) (rem_cost (grant_at st (ar_grant q)) + rs_cost r) g)"
proof -
  have ok: "requests_ok st" using inv by (simp add: gateway_inv_def)
  obtain l' charged ov where rec: "settle_failed_request r (grant_at st (ar_grant q)) actual = (l', charged, ov)"
    by (metis prod_cases3)
  have st': "st' = finish_request rid (set_grant (ar_grant q) l' st)" and u: "u = charged"
    using step rec q(2) by (simp_all add: fail_request_def)
  have res: "0 \<le> rem_cost (grant_at st (ar_grant q))" "0 \<le> rs_cost r"
    using requests_okD(3) [OF ok q] by simp_all
  note lease = settle_failed_lease [OF res(1) rec]
  have same: "rem_cost (grant_at st (ar_grant q)) - (us_cost charged - rs_cost r)
      = rem_cost (grant_at st (ar_grant q)) + rs_cost r - us_cost charged"
    "us_cost charged - rs_cost r - rem_cost (grant_at st (ar_grant q))
      = us_cost charged - (rem_cost (grant_at st (ar_grant q)) + rs_cost r)"
    by simp_all
  show ?thesis
    unfolding st' u
    by (intro settle_step_inv [OF inv q, where l = "grant_at st (ar_grant q)"])
      (use lease [unfolded same] res(2) in simp_all)
qed

lemma cancel_inv:
  assumes "gateway_inv st g" "cancel_request rid st = (ok, st')"
  shows "gateway_inv st' g"
proof (cases "jget (gs_active st) rid")
  case None
  with assms show ?thesis by (simp add: cancel_request_def)
next
  case (Some q)
  with assms same_request_inv [OF assms(1) Some, of "q\<lparr>ar_cancelled := True\<rparr>"] show ?thesis
    by (simp add: cancel_request_def)
qed

lemma cancel_all_inv: "gateway_inv st g \<Longrightarrow> gateway_inv (cancel_all rids st) g"
proof (induction rids st rule: cancel_all.induct)
  case (1 st)
  then show ?case by simp
next
  case (2 rid rids st)
  have "gateway_inv (snd (cancel_request rid st)) g"
    using 2(2) by (rule cancel_inv) (rule prod.collapse [symmetric])
  with 2 show ?case by simp
qed

lemma revoke_memory:
  assumes "revoke t t' i r = (ok, r')"
  shows "lr_heap r' = lr_heap r" "lr_fresh r' = lr_fresh r"
  by (rule revoke_cases [OF assms]; simp)+

lemma revoke_request_inv:
  assumes inv: "gateway_inv st g" and step: "revoke_request t t' i st = (ok, st')"
  shows "gateway_inv st' g"
proof -
  obtain rv ls where rv: "revoke t t' i (gs_leases st) = (rv, ls)"
    by (metis surj_pair)
  have "registry_inv (gs_leases st)" using inv by (simp add: gateway_inv_def)
  then have "gateway_inv (st\<lparr>gs_leases := ls\<rparr>) g"
    using inv revoke_memory [OF rv] by (intro leases_step_inv revoke_inv [OF _ rv])
  with step rv show ?thesis
    by (auto simp: revoke_request_def Let_def cancel_all_inv split: option.splits)
qed

lemma freeze_memory:
  assumes "freeze_settlement t i r = (res, r')"
  shows "lr_heap r' = lr_heap r" "lr_fresh r' = lr_fresh r"
  by (rule freeze_cases [OF assms]; simp)+

lemma issue_step_inv:
  assumes inv: "gateway_inv st g" and step: "issue dg toks t t' inp p (gs_leases st) = Some (res, ls)"
  shows "gateway_inv (st\<lparr>gs_leases := ls\<rparr>) g"
  using inv
proof (rule gateway_invE)
  assume parts: "registry_inv (gs_leases st)" "requests_ok st" "routing_ok st" "unborn_ok st g"
    "\<And>a. a < lr_fresh (gs_leases st) \<Longrightarrow> grant_inv st g a"
  have ls: "registry_inv ls" using parts(1) step by (rule issue_inv)
  show ?thesis
  proof (cases res)
    case (Inl e)
    with step have "ls = prune t (gs_leases st)" by (auto dest: issue_InlE)
    then show ?thesis using inv ls by (intro leases_step_inv) simp_all
  next
    case (Inr tok)
    let ?n = "lr_fresh (gs_leases st)"
    obtain ttl i outp c where heap: "lr_heap ls = (lr_heap (gs_leases st))(?n := create_lease_grant (li_agent inp) (li_profile inp)
        (t' + ttl) i outp c)" and fresh: "lr_fresh ls = ?n + 1"
      by (rule issue_InrE [OF step [unfolded Inr]]) (auto simp: add_lease_def)
    have old: "grant_at (st\<lparr>gs_leases := ls\<rparr>) a = grant_at st a" if "a < ?n" for a
      using that by (simp add: grant_at_def heap)
    have "in_flight ?n st = 0"
    proof -
      have "reserved_cost ?n q = 0" if "(rid, q) \<in> set (gs_active st)" for rid q
        using that requests_okD(1) [OF parts(2), of rid q] requests_ok_jok [OF parts(2)]
        by (auto simp: reserved_cost_def jget_set_iff)
      then have "map (\<lambda>p. reserved_cost ?n (snd p)) (gs_active st) = map (\<lambda>_. 0) (gs_active st)"
        by auto
      then show ?thesis
        unfolding in_flight_def msum_def by (simp only: sum_list_0)
    qed
    then have "grant_inv (st\<lparr>gs_leases := ls\<rparr>) g ?n"
      using parts(4) by (simp add: grant_inv_def grant_at_def heap create_lease_grant_def unborn_ok_def)
    moreover have "grant_inv (st\<lparr>gs_leases := ls\<rparr>) g a" if "a < ?n" for a
      by (rule grant_inv_same [OF parts(5) [OF that] old [OF that]]) simp
    ultimately have "grant_inv (st\<lparr>gs_leases := ls\<rparr>) g a" if "a < lr_fresh ls" for a
      using that fresh by (cases "a = ?n") auto
    moreover have "requests_ok (st\<lparr>gs_leases := ls\<rparr>)"
      using parts(2) old fresh by (fastforce simp: requests_ok_def)
    ultimately show ?thesis
      using ls parts(3,4) fresh by (simp add: gateway_inv_def routing_ok_def unborn_ok_def)
  qed
qed

lemma apply_snapshot_InrE:
  assumes "apply_snapshot host_of digest config command rec reg = (Inr n, reg')"
  obtains creds profiles where
    "stage_credentials (entries_or_empty (field command ''credentials'')) [] = Inr creds"
    "stage_profiles host_of config creds (entries_or_empty (field command ''profiles'')) [] = Inr profiles"
    "dr_credentials reg' = set_all creds []" "dr_profiles reg' = set_all profiles (set_all (gc_profiles config) [])"
    "dr_digest reg' = ''sha256:'' @ digest rec" "dr_boot_id reg' = dr_boot_id reg"
    "n = (length (dr_profiles reg'), length (dr_credentials reg'))"
proof -
  obtain creds where creds: "stage_credentials (entries_or_empty (field command ''credentials'')) [] = Inr creds"
    using assms by (auto simp: apply_snapshot_def split: sum.splits)
  obtain profiles where
    profiles: "stage_profiles host_of config creds (entries_or_empty (field command ''profiles'')) [] = Inr profiles"
    using assms creds by (auto simp: apply_snapshot_def split: sum.splits)
  show thesis
    by (rule that [OF creds profiles]) (use assms creds profiles in \<open>auto simp: apply_snapshot_def Let_def\<close>)
qed

lemma apply_snapshot_rejected: "apply_snapshot host_of digest config command rec reg = (Inl e, reg') \<Longrightarrow> reg' = reg"
  by (auto simp: apply_snapshot_def Let_def split: sum.splits)

lemma snapshot_inv:
  assumes inv: "gateway_inv st g"
    and step: "apply_snapshot host_of digest (gs_config st) command rec (gs_routing st) = (res, reg)"
  shows "gateway_inv (st\<lparr>gs_routing := reg\<rparr>) g"
proof -
  have ok: "routing_ok st" using inv by (simp add: gateway_inv_def)
  have "routing_ok (st\<lparr>gs_routing := reg\<rparr>)"
  proof (cases res)
    case (Inl e)
    with step ok show ?thesis by (auto dest!: apply_snapshot_rejected simp: routing_ok_def)
  next
    case (Inr n)
    show ?thesis
    proof (rule apply_snapshot_InrE [OF step [unfolded Inr]])
      fix creds profiles
      assume staged: "stage_profiles host_of (gs_config st) creds (entries_or_empty (field command ''profiles'')) [] = Inr profiles"
        and set: "dr_profiles reg = set_all profiles (set_all (gc_profiles (gs_config st)) [])"
      have jok: "jok profiles" using staged by (rule stage_profiles_jok) simp
      have config: "jok (gc_profiles (gs_config st))"
        using ok by (simp add: routing_ok_def config_ok_def)
      have "pricing_valid (gp_pricing p)" if "jget (dr_profiles reg) pid = Some p" for pid p
      proof (cases "jget profiles pid")
        case (Some p')
        with that have "jget profiles pid = Some p"
          by (simp add: set set_all_jok [OF jok])
        from stage_profiles_from [OF staged this] show ?thesis
          by (auto intro: stage_profile_ok(2))
      next
        case None
        with that have "jget (gc_profiles (gs_config st)) pid = Some p"
          by (simp add: set set_all_jok [OF jok] set_all_jok [OF config] split: option.splits)
        with ok show ?thesis by (auto simp: routing_ok_def config_ok_def)
      qed
      with ok show ?thesis by (simp add: routing_ok_def)
    qed
  qed
  with inv show ?thesis
    by (auto simp: gateway_inv_def requests_ok_def unborn_ok_def grant_at_def in_flight_def grant_inv_def)
qed

lemma gateway_step_inv:
  "gateway_step dg host_of digest s s' \<Longrightarrow> gateway_inv (fst s) (snd s) \<Longrightarrow> gateway_inv (fst s') (snd s')"
proof (induction rule: gateway_step.induct)
  case (gw_accept t t' uuid hr st res st' g)
  then show ?case using accept_inv by simp
next
  case (gw_reserve st rid q declared chunks parsed out st' g)
  then show ?case using reserve_inv by simp
next
  case (gw_reject st rid q actual st' g)
  then have "st' = finish_request rid st" by (simp add: fail_request_def)
  with gw_reject show ?case using drop_unreserved_inv by simp
next
  case (gw_complete st rid q r actual u st' g)
  then show ?case using complete_inv by simp
next
  case (gw_fail st rid q r actual u st' g)
  then show ?case using fail_inv by simp
next
  case (gw_cancel rid st ok st' g)
  then show ?case using cancel_inv by simp
next
  case (gw_issue st inp p toks t t' res ls g)
  then show ?case using issue_step_inv by simp
next
  case (gw_revoke t t' i st ok st' g)
  then show ?case using revoke_request_inv by simp
next
  case (gw_freeze st i t res ls g)
  then have "registry_inv ls" "lr_heap ls = lr_heap (gs_leases st)" "lr_fresh ls = lr_fresh (gs_leases st)"
    using freeze_inv freeze_memory [OF gw_freeze(2)] by (auto simp: gateway_inv_def)
  with gw_freeze show ?case using leases_step_inv by simp
next
  case (gw_count t st n ls g)
  then have ls: "ls = prune t (gs_leases st)" by (simp add: active_count_def Let_def)
  have "registry_inv (prune t (gs_leases st))"
    using gw_count by (simp add: gateway_inv_def prune_inv)
  with gw_count ls show ?case using leases_step_inv by simp
next
  case (gw_snapshot st command rec res reg g)
  then show ?case using snapshot_inv by simp
qed

lemma initial_gateway_inv: "config_ok config \<Longrightarrow> gateway_inv (initial_gateway config boot) no_ghost"
  using new_registry_inv [of 10000]
  by (simp add: gateway_inv_def initial_gateway_def initial_registry_def new_registry_def requests_ok_def
      routing_ok_def unborn_ok_def no_ghost_def config_ok_def)

lemma gateway_run_inv:
  "gateway_run dg host_of digest config s \<Longrightarrow> config_ok config \<Longrightarrow> gateway_inv (fst s) (snd s)"
  by (induction rule: gateway_run.induct) (auto simp: initial_gateway_inv intro: gateway_step_inv)

section \<open>Grants that are finished with\<close>

text \<open>No live lease and no request refers to the grant any more.\<close>

definition grant_done :: "gateway_state \<Rightarrow> nat \<Rightarrow> bool" where
  "grant_done st a = (a < lr_fresh (gs_leases st) \<and> (\<forall>k. live_grant (gs_leases st) k \<noteq> Some a)
     \<and> (\<forall>rid q. jget (gs_active st) rid = Some q \<longrightarrow> ar_grant q \<noteq> a))"

definition no_new_live :: "registry \<Rightarrow> registry \<Rightarrow> bool" where
  "no_new_live r r' = (\<forall>k a. live_grant r' k = Some a \<longrightarrow> a < lr_fresh r \<longrightarrow> (\<exists>k'. live_grant r k' = Some a))"

lemma prune_live: "registry_inv r \<Longrightarrow> live_grant (prune t r) k = Some a \<Longrightarrow> live_grant r k = Some a"
  using prune_places [of r t k]
  by (auto simp: places_def live_grant_def expired_place_def split: option.splits if_splits)

lemma live_retire: "live_grant (retire k a c t r) k' = Some b \<Longrightarrow> live_grant r k' = Some b"
  by (auto simp: live_grant_def split: option.splits if_splits)

lemma live_refreeze [simp]: "live_grant (r\<lparr>used := u\<rparr>) k = live_grant r k"
  by (simp add: live_grant_def split: option.split)

lemma no_new_live_prune: "registry_inv r \<Longrightarrow> no_new_live r (prune t r)"
  by (auto simp: no_new_live_def intro: prune_live)

lemma no_new_live_retire:
  "registry_inv r \<Longrightarrow> no_new_live r (retire k a c t' (prune t r))"
  by (auto simp: no_new_live_def dest!: live_retire intro: prune_live)

lemma consume_no_new_live:
  assumes "registry_inv r" "consume dg t t' tok agent profile r = (res, r')"
  shows "no_new_live r r'"
  using assms(2)
proof (cases rule: consume_cases)
  case (refused e)
  then show ?thesis using no_new_live_prune [OF assms(1)] by simp
next
  case (late a)
  then show ?thesis using no_new_live_retire [OF assms(1)] by simp
next
  case (first a)
  have "live_grant r' = live_grant (prune t r)"
    unfolding first(6) by (rule move_to_active_inv(3) [OF prune_inv [OF assms(1)] first(2)])
  then show ?thesis
    using no_new_live_prune [OF assms(1), of t] by (simp add: no_new_live_def)
next
  case (again a)
  then show ?thesis using no_new_live_prune [OF assms(1)] by simp
qed

lemma revoke_no_new_live:
  assumes "registry_inv r" "revoke t t' i r = (ok, r')"
  shows "no_new_live r r'"
  by (rule revoke_cases [OF assms(2)])
    (simp_all add: no_new_live_prune [OF assms(1)] no_new_live_retire [OF assms(1)])

lemma freeze_no_new_live:
  assumes "registry_inv r" "freeze_settlement t i r = (res, r')"
  shows "no_new_live r r'"
  by (rule freeze_cases [OF assms(2)])
    (use no_new_live_prune [OF assms(1), of t] in \<open>simp_all add: no_new_live_def\<close>)

lemma issue_no_new_live:
  assumes "registry_inv r" "issue dg toks t t' inp p r = Some (res, r')"
  shows "no_new_live r r' \<and> lr_fresh r \<le> lr_fresh r'"
proof (cases res)
  case (Inl e)
  with assms show ?thesis by (auto dest!: issue_InlE simp: no_new_live_prune)
next
  case (Inr tok)
  obtain g where r': "r' = add_lease (dg tok) (li_lease_id inp) g (prune t r)"
    using assms(2) unfolding Inr by (rule issue_InrE) simp
  have live: "live_grant r' k = (if k = dg tok then Some (lr_fresh r) else live_grant (prune t r) k)" for k
    by (simp add: r' add_lease_def live_grant_def split: option.split)
  have "\<exists>k'. live_grant r k' = Some a" if "live_grant r' k = Some a" "a < lr_fresh r" for k a
    using that prune_live [OF assms(1), of t k a] by (auto simp: live split: if_splits)
  then show ?thesis
    by (auto simp: no_new_live_def) (simp add: r' add_lease_def)
qed

lemma grant_done_leases:
  "grant_done st a \<Longrightarrow> no_new_live (gs_leases st) ls \<Longrightarrow> lr_fresh (gs_leases st) \<le> lr_fresh ls
     \<Longrightarrow> grant_done (st\<lparr>gs_leases := ls\<rparr>) a"
  by (auto simp: grant_done_def no_new_live_def)

lemma live_update_grant [simp]: "live_grant (update_grant a l r) k = live_grant r k"
  by (simp add: live_grant_def update_grant_def split: option.split)

lemma grant_done_finish:
  "grant_done st a \<Longrightarrow> grant_done (finish_request rid (set_grant b l st)) a" "grant_done st a \<Longrightarrow> grant_done (finish_request rid st) a"
  by (auto simp: grant_done_def)

lemma cancel_done:
  assumes "grant_done st a" "cancel_request rid st = (ok, st')"
  shows "grant_done st' a"
proof (cases "jget (gs_active st) rid")
  case None
  with assms show ?thesis by (simp add: cancel_request_def)
next
  case (Some q)
  then have "ar_grant q \<noteq> a"
    using assms(1) by (simp add: grant_done_def)
  moreover have "st' = st\<lparr>gs_active := jset rid (q\<lparr>ar_cancelled := True\<rparr>) (gs_active st)\<rparr>"
    using assms(2) Some by (simp add: cancel_request_def)
  ultimately show ?thesis
    using assms(1) by (simp add: grant_done_def)
qed

lemma cancel_all_done: "grant_done st a \<Longrightarrow> grant_done (cancel_all rids st) a"
proof (induction rids st rule: cancel_all.induct)
  case (1 st)
  then show ?case by simp
next
  case (2 rid rids st)
  have "grant_done (snd (cancel_request rid st)) a"
    using 2(2) by (rule cancel_done) (rule prod.collapse [symmetric])
  with 2 show ?case by simp
qed

lemma accept_done:
  assumes inv: "registry_inv (gs_leases st)" and don: "grant_done st a"
    and step: "accept_request dg t t' uuid hr st = (res, st')"
  shows "grant_done st' a"
proof (cases "screen_request st hr uuid")
  case (Inl status)
  with step don show ?thesis by (simp add: accept_request_def)
next
  case (Inr x)
  obtain profile rid agent tok where x: "x = (profile, rid, agent, tok)" by (cases x)
  define pid where "pid = (case header_value (hr_headers hr) ''x-model-profile'' of Some v \<Rightarrow> v | None \<Rightarrow> [])"
  obtain cres ls where c: "consume dg t t' tok agent pid (gs_leases st) = (cres, ls)"
    by (metis surj_pair)
  have base: "grant_done (st\<lparr>gs_leases := ls\<rparr>) a"
    using don consume_no_new_live [OF inv c] consume_memory [OF c] by (intro grant_done_leases) simp_all
  show ?thesis
  proof (cases cres)
    case (Inl e)
    with step Inr x c pid_def base show ?thesis by (simp add: accept_request_def)
  next
    case granted: (Inr b)
    have "live_grant (prune t (gs_leases st)) (dg tok) = Some b"
      by (rule consume_cases [OF c [unfolded granted]]) (simp_all add: live_grant_def)
    then have "b \<noteq> a"
      using don prune_live [OF inv] by (auto simp: grant_done_def)
    moreover have "st' = st\<lparr>gs_leases := ls, gs_active := jset rid
        \<lparr>ar_grant = b, ar_profile = profile, ar_cancelled = False, ar_reservation = None\<rparr> (gs_active st)\<rparr>"
      using step Inr x c pid_def granted by (simp add: accept_request_def)
    ultimately show ?thesis
      using base by (auto simp: grant_done_def)
  qed
qed

lemma reserve_done:
  assumes "grant_done st a" "jget (gs_active st) rid = Some q"
    and "reserve_request declared chunks parsed rid q st = (Inr out, st')"
  shows "grant_done st' a"
proof -
  from assms(3) obtain r lease' where
    st': "st' = (set_grant (ar_grant q) lease' st)\<lparr>gs_active := jset rid (q\<lparr>ar_reservation := Some r\<rparr>) (gs_active st)\<rparr>"
    by (auto simp: reserve_request_def split: sum.splits)
  have "ar_grant q \<noteq> a"
    using assms(1,2) by (simp add: grant_done_def)
  moreover have "gs_active st' = jset rid (q\<lparr>ar_reservation := Some r\<rparr>) (gs_active st)"
    "lr_fresh (gs_leases st') = lr_fresh (gs_leases st)" "live_grant (gs_leases st') k = live_grant (gs_leases st) k" for k
    by (simp_all add: st')
  ultimately show ?thesis
    using assms(1) by (simp add: grant_done_def)
qed

lemma gateway_step_done:
  "gateway_step dg host_of digest s s' \<Longrightarrow> registry_inv (gs_leases (fst s)) \<Longrightarrow> grant_done (fst s) a
     \<Longrightarrow> grant_done (fst s') a \<and> gh_charged (snd s') a = gh_charged (snd s) a"
proof (induction rule: gateway_step.induct)
  case (gw_accept t t' uuid hr st res st' g)
  then show ?case using accept_done by simp
next
  case (gw_reserve st rid q declared chunks parsed out st' g)
  then show ?case using reserve_done by simp
next
  case (gw_reject st rid q actual st' g)
  then show ?case by (auto simp: fail_request_def grant_done_finish)
next
  case (gw_complete st rid q r actual u st' g)
  moreover have "ar_grant q \<noteq> a" using gw_complete by (simp add: grant_done_def)
  ultimately show ?case
    by (auto simp: complete_request_def note_charge_def grant_done_finish split: prod.splits)
next
  case (gw_fail st rid q r actual u st' g)
  moreover have "ar_grant q \<noteq> a" using gw_fail by (simp add: grant_done_def)
  ultimately show ?case
    by (auto simp: fail_request_def note_charge_def grant_done_finish split: prod.splits)
next
  case (gw_cancel rid st ok st' g)
  then show ?case using cancel_done by simp
next
  case (gw_issue st inp p toks t t' res ls g)
  then show ?case using issue_no_new_live grant_done_leases by (metis fst_conv snd_conv)
next
  case (gw_revoke t t' i st ok st' g)
  obtain rv ls where rv: "revoke t t' i (gs_leases st) = (rv, ls)" by (metis surj_pair)
  have "grant_done (st\<lparr>gs_leases := ls\<rparr>) a"
    using gw_revoke revoke_no_new_live [OF _ rv] revoke_memory [OF rv] by (intro grant_done_leases) simp_all
  with gw_revoke rv show ?case
    by (auto simp: revoke_request_def Let_def cancel_all_done split: option.splits)
next
  case (gw_freeze st i t res ls g)
  then show ?case
    using freeze_no_new_live [OF _ gw_freeze(2)] freeze_memory [OF gw_freeze(2)] grant_done_leases [of st a ls] by simp
next
  case (gw_count t st n ls g)
  then show ?case
    using no_new_live_prune [of "gs_leases st" t] grant_done_leases [of st a ls]
    by (auto simp: active_count_def Let_def)
next
  case (gw_snapshot st command rec res reg g)
  then show ?case by (simp add: grant_done_def)
qed

lemma gateway_steps_done:
  assumes "rtranclp (gateway_step dg host_of digest) s s'" "gateway_inv (fst s) (snd s)" "grant_done (fst s) a"
  shows "gateway_inv (fst s') (snd s') \<and> grant_done (fst s') a \<and> gh_charged (snd s') a = gh_charged (snd s) a"
  using assms
proof (induction rule: rtranclp_induct)
  case base
  then show ?case by simp
next
  case (step s1 s2)
  then have "registry_inv (gs_leases (fst s1))" by (simp add: gateway_inv_def)
  with step show ?case
    using gateway_step_done [OF step(2)] gateway_step_inv [OF step(2)] by simp
qed

end
