(* ===== verification/BudgetProperties.thy ===== *)
theory BudgetProperties
  imports BudgetFacts
begin

text \<open>
  The properties of the gateway's budget: what a reservation takes and guarantees, how far it covers
  the usage reported afterwards, and how settlement moves the remaining budgets of a lease.
\<close>

section \<open>A sample profile and lease\<close>

definition sample_pricing :: profile_pricing where
  "sample_pricing = \<lparr>base_input = 1000001, base_output = 2000000, base_read = None, base_write = None,
     price_tiers = []\<rparr>"

definition sample_limits :: profile_limits where
  "sample_limits = \<lparr>max_request_bytes = 1024, max_response_bytes = 1024, max_header_bytes = 1024,
     max_headers = 16, deadline_ms = 1000, max_input_tokens = 1000, max_output_tokens = 10,
     max_cost_micros = 100000, max_stream_line_bytes = 128\<rparr>"

definition sample_profile :: gateway_profile where
  "sample_profile = \<lparr>gp_id = ''p'', gp_provider = ''openai'', gp_model = ''m'',
     gp_downstream_path = ''/v1/chat/completions'', gp_upstream_host = ''api.openai.com'',
     gp_pricing = sample_pricing, gp_limits = sample_limits\<rparr>"

definition sample_lease :: lease_grant where
  "sample_lease = \<lparr>lg_agent = ''a'', lg_profile = ''p'', lg_expires = 1000, rem_input = 500,
     rem_output = 50, rem_cost = 5000,
     lg_acc = \<lparr>initial_input = 500, initial_output = 50, initial_cost = 5000, overrun_cost = 0,
       unabsorbed_cost = 0, acc_prompt = 0, acc_read = 0, acc_write = 0, acc_output = 0,
       acc_reasoning = 0, acc_requests = 0, acc_without_usage = 0\<rparr>\<rparr>"

definition sample_body :: jobject where
  "sample_body = [(''model'', JStr ''x''), (''messages'', JArr [])]"

definition sample_reservation :: reservation where
  "sample_reservation = \<lparr>rs_input = 3, rs_output = 10, rs_cost = 24\<rparr>"

lemmas sample_defs = sample_pricing_def sample_limits_def sample_profile_def sample_lease_def
  sample_body_def sample_reservation_def

lemma sample_pricing_valid: "pricing_valid sample_pricing"
  by (simp add: pricing_valid_def sample_pricing_def base_prices_def level_ok_def price_in_range_def
      max_safe_def)

lemma sample_profile_valid: "pricing_valid (gp_pricing sample_profile)"
  by (simp add: sample_profile_def sample_pricing_valid)

lemma sample_media: "media_part_count sample_body = Inr 0"
  unfolding media_part_count_iff
  by (simp add: sample_body_def media_inline_step [of "JObj xs" for xs] media_type_def field_Cons
      media_inline_leaf is_object_def media_inline_step [of "JArr xs" for xs])

lemma sample_reserve: "reserve_budget sample_body 3 sample_lease sample_profile
    = Inr (sample_reservation, take_reservation sample_reservation sample_lease,
        outbound_body sample_body sample_profile 10)"
proof -
  have "assert_bounded_request sample_body sample_profile = Inr ()"
    by (simp add: assert_bounded_request_def sample_defs responses_path_def present_def field_Cons)
  moreover have "requested_output_tokens sample_body sample_profile = Inr 10"
    by (simp add: requested_output_tokens_def sample_defs responses_path_def field_Cons)
  ultimately show ?thesis
    by (simp add: reserve_budget_def sample_media)
      (simp add: sample_defs estimate_input_def media_part_reserve_tokens_def prices_for_prompt_def
        base_prices_def highest_input_price_def cost_micros_def affordable_output_def
        saturating_add_def max_safe_def Let_def)
qed

section \<open>Reservation\<close>

text \<open>
  C1: A successful reservation covers the request and fits the lease and the profile. Every media part of
  the body is inline; the reserved input is one token per body byte plus the media allowance for each part;
  input and output stay within the remaining lease budget and the profile limit; the reserved
  cost is within the remaining cost budget; and the lease loses exactly the reserved amounts, so no
  remaining budget becomes negative.
\<close>

theorem reserve_budget_bounds:
  assumes "pricing_valid (gp_pricing p)" "0 \<le> rem_cost lease"
    and "reserve_budget body bytes lease p = Inr (r, lease', out)"
  shows "media_inline (JObj body)
    \<and> rs_input r = max 1 bytes + media_nodes (JObj body) * media_part_reserve_tokens
    \<and> rs_input r \<le> min (rem_input lease) (max_input_tokens (gp_limits p))
    \<and> 1 \<le> rs_output r \<and> rs_output r \<le> min (rem_output lease) (max_output_tokens (gp_limits p))
    \<and> 0 \<le> rs_cost r \<and> rs_cost r \<le> rem_cost lease
    \<and> rem_input lease' = rem_input lease - rs_input r
    \<and> rem_output lease' = rem_output lease - rs_output r
    \<and> rem_cost lease' = rem_cost lease - rs_cost r"
  using assms by (rule reserve_budget_ok)

theorem reserve_budget_bounds_witness:
  "rs_cost sample_reservation \<le> rem_cost sample_lease \<and> rs_input sample_reservation = 3"
proof -
  have "0 \<le> rem_cost sample_lease"
    by (simp add: sample_lease_def)
  from reserve_budget_bounds [OF sample_profile_valid this sample_reserve] show ?thesis
    by (simp add: sample_reservation_def)
qed

text \<open>
  C2: The reserved cost covers what the provider then reports, up to rounding. When every reading of the reported usage
  stays within the reserved input and output tokens, the usage is charged at most the reserved cost
  plus two micros, or the provider's own stated cost where that is higher: the reservation rounds
  its input cost up once, the charge rounds uncached, cached-read and cached-write input each.
\<close>

theorem reservation_covers_usage:
  assumes "pricing_valid (gp_pricing p)" "reserve_budget body bytes lease p = Inr (r, lease', out)"
    and "usage_ok n" "\<forall>s \<in> set (nu_prompt n). sp_prompt s \<le> rs_input r" "nu_output n \<le> rs_output r"
  shows "us_cost (cost_usage n (gp_pricing p)) \<le> max (rs_cost r + 2) (or_zero (nu_provider_cost n))"
proof -
  obtain s where s: "s \<in> set (nu_prompt n)"
    and cost: "us_cost (cost_usage n (gp_pricing p))
      = max (us_cost (price_split (gp_pricing p) n s)) (or_zero (nu_provider_cost n))"
    by (rule cost_usage_cases [OF assms(3), of "gp_pricing p"]) (rule that, assumption+)
  let ?P = "prices_for_prompt (gp_pricing p) (rs_input r)"
  let ?Q = "prices_for_prompt (gp_pricing p) (sp_prompt s)"
  let ?hi = "highest_input_price ?P"
  have split: "0 \<le> sp_uncached s" "0 \<le> sp_read s" "0 \<le> sp_write s"
    "sp_prompt s = sp_uncached s + sp_read s + sp_write s"
    using s assms(3) by (auto simp: usage_ok_def split_ok_def)
  have outp: "0 \<le> nu_output n"
    using assms(3) by (auto simp: usage_ok_def)
  have le: "prices_le ?Q ?P" and okQ: "level_ok ?Q" and okP: "level_ok ?P"
    using assms(1,4) s by (auto intro: prices_for_prompt_mono prices_for_prompt_ok)
  have hi: "input_price ?Q \<le> ?hi" "read_price ?Q \<le> ?hi" "write_price ?Q \<le> ?hi"
    using le highest_input_price_le [of ?P] by (auto simp: prices_le_def)
  have parts: "raw_cost (sp_uncached s) (input_price ?Q) \<le> raw_cost (sp_uncached s) ?hi"
    "raw_cost (sp_read s) (read_price ?Q) \<le> raw_cost (sp_read s) ?hi"
    "raw_cost (sp_write s) (write_price ?Q) \<le> raw_cost (sp_write s) ?hi"
    using hi split okQ by (auto intro!: raw_cost_mono simp: level_ok_nonneg)
  have whole: "raw_cost (sp_prompt s) ?hi \<le> raw_cost (rs_input r) ?hi"
    using assms(4) s split hi level_ok_nonneg(1) [OF okQ] by (intro raw_cost_mono) auto
  have outs: "raw_cost (nu_output n) (output_price ?Q) \<le> raw_cost (rs_output r) (output_price ?P)"
    using assms(5) outp le level_ok_nonneg(2) [OF okQ] by (intro raw_cost_mono) (auto simp: prices_le_def)
  have nonneg: "0 \<le> raw_cost (nu_output n) (output_price ?Q)"
    using outp level_ok_nonneg(2) [OF okQ] by (rule raw_cost_nonneg)
  have "rs_cost r = saturating_add [cost_micros (rs_input r) ?hi, cost_micros (rs_output r) (output_price ?P)]"
    using assms(2) by (rule reserve_budget_InrE) assumption
  then have reserved: "rs_cost r = min (min (raw_cost (rs_input r) ?hi) max_safe
      + min (raw_cost (rs_output r) (output_price ?P)) max_safe) max_safe"
    by (simp only: saturating_pair cost_micros_raw)
  have charged: "us_cost (price_split (gp_pricing p) n s)
    = min (min (raw_cost (sp_uncached s) (input_price ?Q)) max_safe
        + (min (raw_cost (sp_read s) (read_price ?Q)) max_safe
        + (min (raw_cost (sp_write s) (write_price ?Q)) max_safe
        + min (raw_cost (nu_output n) (output_price ?Q)) max_safe))) max_safe"
    by (simp add: price_split_def Let_def saturating_add_def cost_micros_raw)
  have "raw_cost (sp_uncached s) (input_price ?Q) + raw_cost (sp_read s) (read_price ?Q)
      + raw_cost (sp_write s) (write_price ?Q) \<le> raw_cost (rs_input r) ?hi + 2"
    using parts whole raw_cost_split3 [of "sp_uncached s" ?hi "sp_read s" "sp_write s"]
    unfolding split(4) by linarith
  then have "us_cost (price_split (gp_pricing p) n s) \<le> rs_cost r + 2"
    unfolding reserved charged using outs nonneg by (rule cut_sum_slack) simp
  with cost show ?thesis by simp
qed

text \<open>The bound is reached: three single tokens cost one micro more each than three tokens together.\<close>

definition sample_usage :: normalized_usage where
  "sample_usage = \<lparr>nu_prompt = [\<lparr>sp_prompt = 3, sp_uncached = 1, sp_read = 1, sp_write = 1\<rparr>],
     nu_output = 10, nu_reasoning = 0, nu_provider_cost = None\<rparr>"

lemma sample_usage_ok: "usage_ok sample_usage"
  by (simp add: usage_ok_def sample_usage_def split_ok_def max_reported_tokens_def)

theorem reservation_covers_usage_witness:
  "us_cost (cost_usage sample_usage (gp_pricing sample_profile)) \<le> max (rs_cost sample_reservation + 2) 0
   \<and> us_cost (cost_usage sample_usage (gp_pricing sample_profile)) = rs_cost sample_reservation + 2"
proof
  show "us_cost (cost_usage sample_usage (gp_pricing sample_profile)) \<le> max (rs_cost sample_reservation + 2) 0"
    using reservation_covers_usage [OF sample_profile_valid sample_reserve sample_usage_ok]
    by (simp add: sample_usage_def sample_reservation_def or_zero_def)
  show "us_cost (cost_usage sample_usage (gp_pricing sample_profile)) = rs_cost sample_reservation + 2"
    by code_simp
qed

text \<open>
  The body sent upstream carries exactly one output limit, the reserved one, under the name the endpoint
  reads; it names the profile's model, streams, asks a chat endpoint for usage, and changes no other field
  the caller sent.
\<close>

theorem outbound_body_capped:
  assumes "gp_downstream_path p \<in> {chat_path, responses_path}"
    and "reserve_budget body bytes lease p = Inr (r, lease', out)"
  shows "field out (output_token_field p) = Some (JInt (rs_output r))
    \<and> (\<forall>k. k \<in> {''max_tokens'', ''max_completion_tokens''} \<and> k \<noteq> output_token_field p \<longrightarrow> field out k = None)
    \<and> field out ''model'' = Some (JStr (gp_model p)) \<and> field out ''stream'' = Some (JBool True)
    \<and> (gp_downstream_path p = chat_path \<longrightarrow>
         field out ''stream_options'' = Some (JObj [(''include_usage'', JBool True)]))
    \<and> (\<forall>k. k \<notin> {''max_tokens'', ''max_completion_tokens'', ''max_output_tokens'', ''model'', ''stream'',
         ''stream_options''} \<longrightarrow> field out k = field body k)"
proof -
  have paths: "chat_path \<noteq> responses_path"
    by (simp add: chat_path_def responses_path_def)
  have "out = outbound_body body p (rs_output r)"
    using assms(2) by (rule reserve_budget_InrE) assumption
  then show ?thesis
    using assms(1) paths by (auto simp: outbound_body_def output_token_field_def Let_def)
qed

theorem outbound_body_capped_witness:
  "field (outbound_body sample_body sample_profile 10) ''max_completion_tokens'' = Some (JInt 10)"
proof -
  have "gp_downstream_path sample_profile \<in> {chat_path, responses_path}"
    by (simp add: sample_profile_def chat_path_def)
  from outbound_body_capped [OF this sample_reserve]
  have "field (outbound_body sample_body sample_profile 10) (output_token_field sample_profile) = Some (JInt 10)"
    by (simp add: sample_reservation_def)
  then show ?thesis
    by (simp add: output_token_field_def sample_profile_def responses_path_def lower_string_def
        lower_char_def is_upper_char_def code_def)
qed

section \<open>Bounded requests\<close>

text \<open>
  A request is accepted as bounded exactly when nothing in it can grow the context on the provider's side: no plugin or search
  options, no stored conversation or stored prompt on the Responses endpoint, and only function or
  custom tools, in an array whose entries all name their type.
\<close>

theorem assert_bounded_request_iff:
  "is_ok (assert_bounded_request body p) \<longleftrightarrow>
     \<not> present (field body ''plugins'') \<and> \<not> present (field body ''web_search_options'')
     \<and> \<not> (gp_downstream_path p = responses_path
          \<and> (present (field body ''previous_response_id'') \<or> present (field body ''conversation'')
             \<or> (\<exists>v. field body ''prompt'' = Some v \<and> is_object v)))
     \<and> \<not> (present (field body ''tools'') \<and> \<not> (\<exists>ts. field body ''tools'' = Some (JArr ts)
          \<and> list_all (\<lambda>t. \<exists>ob ty. t = JObj ob \<and> field ob ''type'' = Some (JStr ty) \<and> ty \<in> set caller_tool_types) ts))"
proof -
  let ?good = "list_all (\<lambda>t. \<exists>ob ty. t = JObj ob \<and> field ob ''type'' = Some (JStr ty) \<and> ty \<in> set caller_tool_types)"
  have tools: "is_ok (check_tools ts) = ?good ts" for ts
  proof (induction ts rule: check_tools.induct)
    case 1
    then show ?case by simp
  next
    case (2 t ts)
    show ?case
      using 2 by (cases t) (auto split: option.splits json.splits)
  qed
  have first: "first_present body [k, l] = None \<longleftrightarrow> \<not> present (field body k) \<and> \<not> present (field body l)" for k l
    by simp
  have notools: "is_ok (if \<not> present (field body ''tools'') then Inr ()
        else (case field body ''tools'' of Some (JArr tools) \<Rightarrow> check_tools tools | _ \<Rightarrow> Inl ToolsNotArray))
      \<longleftrightarrow> \<not> (present (field body ''tools'') \<and> \<not> (\<exists>ts. field body ''tools'' = Some (JArr ts) \<and> ?good ts))"
    by (auto simp: tools split: option.splits json.splits)
  show ?thesis
    unfolding assert_bounded_request_def Let_def
    by (cases "first_present body [''plugins'', ''web_search_options'']";
        cases "first_present body [''previous_response_id'', ''conversation'']")
      (auto simp: notools split: if_splits option.splits)
qed

text \<open>
  The media scan is exhaustive. It succeeds exactly when every media part anywhere in the body, however deeply nested, holds its
  content inline (no provider file id and no remote URL below it), and then it returns the number of
  media parts.
\<close>

theorem media_part_count_exact:
  "media_part_count body = Inr m \<longleftrightarrow>
     (\<forall>u. subvalue u (JObj body) \<and> media_type u \<noteq> None \<longrightarrow> inline_part u) \<and> m = media_nodes (JObj body)"
  unfolding media_part_count_iff media_inline_def by (rule refl)

theorem media_part_count_exact_witness:
  "\<not> inline_part (JObj [(''type'', JStr ''file''), (''file_id'', JStr ''f'')])"
proof -
  have "scan_media_entries ''file'' [(''type'', JStr ''file''), (''file_id'', JStr ''f'')] = Inl (MediaReference ''file'' ''file_id'')"
    by (simp add: media_reference_keys_def is_remote_media_def media_url_keys_def media_data_keys_def)
  then have "media_part_count [(''type'', JStr ''file''), (''file_id'', JStr ''f'')] = Inl (MediaReference ''file'' ''file_id'')"
    by (simp add: media_part_count_def media_type_def field_Cons media_part_types_def assert_inline_media_def)
  then have "\<not> (\<exists>m. media_part_count [(''type'', JStr ''file''), (''file_id'', JStr ''f'')] = Inr m)"
    by simp
  then have "\<exists>u. subvalue u (JObj [(''type'', JStr ''file''), (''file_id'', JStr ''f'')]) \<and> media_type u \<noteq> None \<and> \<not> inline_part u"
    using media_part_count_exact by blast
  then show ?thesis
    by (subst (asm) subvalue_step_iff)
      (auto simp: media_type_def field_Cons subvalue_step_iff [of _ "JStr s" for s] child_values_def)
qed

section \<open>Settlement\<close>

text \<open>
  Settling a completed request returns the reservation and takes the charge. For input, output and cost the budget left is
  what was left plus what was reserved minus what is charged, and never below zero; what the lease could not absorb is added
  to its unabsorbed cost, and without a usable report the whole reservation is charged.
\<close>

theorem reconcile_budget_exact:
  assumes "0 \<le> rem_input lease" "0 \<le> rem_output lease" "0 \<le> rem_cost lease"
    and "reconcile_budget r lease actual = (lease', charged, overrun)"
  shows "charged = (case actual of Some u \<Rightarrow> u | None \<Rightarrow> reservation_as_usage r)
    \<and> rem_input lease' = max 0 (rem_input lease + rs_input r - us_input charged)
    \<and> rem_output lease' = max 0 (rem_output lease + rs_output r - us_output charged)
    \<and> rem_cost lease' = max 0 (rem_cost lease + rs_cost r - us_cost charged)
    \<and> overrun = max 0 (us_cost charged - rs_cost r)
    \<and> unabsorbed_cost (lg_acc lease') = saturating_add [unabsorbed_cost (lg_acc lease),
        max 0 (us_cost charged - (rem_cost lease + rs_cost r))]
    \<and> acc_without_usage (lg_acc lease') = acc_without_usage (lg_acc lease) + (if actual = None then 1 else 0)"
  using assms(4)
  by (auto simp: reconcile_budget_def charge_def Let_def record_usage_def
      settle_component_refund [OF assms(1)] settle_component_refund [OF assms(2)]
      settle_component_refund [OF assms(3)])

theorem reconcile_budget_exact_witness:
  "rem_cost (fst (reconcile_budget sample_reservation sample_lease
      (Some \<lparr>us_input = 3, us_read = 0, us_write = 0, us_output = 1, us_reasoning = 0, us_cost = 20\<rparr>))) = 5004"
proof -
  let ?u = "\<lparr>us_input = 3, us_read = 0, us_write = 0, us_output = 1, us_reasoning = 0, us_cost = 20\<rparr>"
  obtain lease' charged ovr where eq: "reconcile_budget sample_reservation sample_lease (Some ?u) = (lease', charged, ovr)"
    by (metis prod_cases3)
  have "0 \<le> rem_input sample_lease" "0 \<le> rem_output sample_lease" "0 \<le> rem_cost sample_lease"
    by (simp_all add: sample_lease_def)
  from reconcile_budget_exact [OF this eq] eq show ?thesis
    by (simp add: sample_reservation_def sample_lease_def)
qed

text \<open>
  A failed request never earns a refund. Its charge is at least the reservation in every component, and no remaining
  budget of the lease grows.
\<close>

theorem failed_request_not_refunded:
  assumes "0 \<le> rem_input lease" "0 \<le> rem_output lease" "0 \<le> rem_cost lease"
    and "settle_failed_request r lease actual = (lease', charged, overrun)"
  shows "rs_input r \<le> us_input charged \<and> rs_output r \<le> us_output charged \<and> rs_cost r \<le> us_cost charged
    \<and> 0 \<le> rem_input lease' \<and> rem_input lease' \<le> rem_input lease
    \<and> 0 \<le> rem_output lease' \<and> rem_output lease' \<le> rem_output lease
    \<and> 0 \<le> rem_cost lease' \<and> rem_cost lease' = max 0 (rem_cost lease - (us_cost charged - rs_cost r))"
proof -
  have "charged = failed_charge r actual"
    using assms(4) by (auto simp: settle_failed_request_def charge_def Let_def split: prod.splits)
  then have least: "rs_input r \<le> us_input charged" "rs_output r \<le> us_output charged" "rs_cost r \<le> us_cost charged"
    by (simp_all add: failed_charge_def reservation_as_usage_def split: option.split)
  have "charge r lease charged False (actual \<noteq> None) = (lease', charged, overrun)"
    using assms(4) \<open>charged = failed_charge r actual\<close> by (simp add: settle_failed_request_def)
  then have "rem_input lease' = max 0 (rem_input lease - max 0 (us_input charged - rs_input r))"
    "rem_output lease' = max 0 (rem_output lease - max 0 (us_output charged - rs_output r))"
    "rem_cost lease' = max 0 (rem_cost lease - max 0 (us_cost charged - rs_cost r))"
    by (auto simp: charge_def Let_def settle_component_keep [OF assms(1)]
        settle_component_keep [OF assms(2)] settle_component_keep [OF assms(3)])
  with least assms show ?thesis by simp
qed

theorem failed_request_not_refunded_witness:
  "rem_cost (fst (settle_failed_request sample_reservation sample_lease None)) \<le> rem_cost sample_lease"
proof -
  obtain lease' charged ovr where eq: "settle_failed_request sample_reservation sample_lease None = (lease', charged, ovr)"
    by (metis prod_cases3)
  have "0 \<le> rem_input sample_lease" "0 \<le> rem_output sample_lease" "0 \<le> rem_cost sample_lease"
    by (simp_all add: sample_lease_def)
  from failed_request_not_refunded [OF this eq] this eq show ?thesis
    by (simp add: sample_lease_def)
qed

end
