(* ===== verification/LeaseTheorems.thy ===== *)
theory LeaseTheorems
  imports LeaseProperties BudgetProperties
begin

text \<open>
  The properties of the lease registry, stated for every state its operations can reach, with the
  runs that show their hypotheses can hold. In the samples the digest is the identity.
\<close>

definition sample_issue :: issue_input where
  "sample_issue = \<lparr>li_lease_id = ''l1'', li_agent = ''agent_xxxxxxxxxxxxxxxxxxxx'', li_profile = ''p'',
     li_ttl = JInt 5000, li_input = JInt 100, li_output = JInt 10, li_cost = JInt 1000\<rparr>"

definition sample_token :: string where
  "sample_token = replicate 43 CHR ''t''"

definition sample_issued :: registry where
  "sample_issued = snd (the (issue (\<lambda>s. s) [sample_token] 0 0 sample_issue sample_profile (new_registry 10)))"

definition sample_revoked :: registry where
  "sample_revoked = snd (revoke 1 1 ''l1'' sample_issued)"

lemma sample_issued: "issue (\<lambda>s. s) [sample_token] 0 0 sample_issue sample_profile (new_registry 10)
    = Some (Inr sample_token, sample_issued)"
proof -
  have "map_option fst (issue (\<lambda>s. s) [sample_token] 0 0 sample_issue sample_profile (new_registry 10))
      = Some (Inr sample_token)"
    by code_simp
  then show ?thesis
    by (auto simp: sample_issued_def)
qed

lemma sample_revoked: "revoke 1 1 ''l1'' sample_issued = (True, sample_revoked)"
proof -
  have "fst (revoke 1 1 ''l1'' sample_issued)"
    by code_simp
  then show ?thesis by (simp add: sample_revoked_def prod_eq_iff)
qed

lemma sample_run: "registry_run (\<lambda>s. s) 10 sample_issued"
  by (rule run_step [OF run_new step_issue [OF sample_issued]]) simp

lemma sample_token_ok: "lease_token_ok sample_token"
  by code_simp

text \<open>
  C4: In every reachable state of the lease registry a lease is pending, active or retired, never two at once; the lease ids and the
  token digests are in one-to-one correspondence, covering exactly the leases known; two leases never share a
  grant, so a budget is spent by one lease only; and the registry stays within its capacity.
\<close>

theorem registry_state_sound:
  assumes "registry_run dg n r"
  shows "(\<forall>k. \<not> (jhas (leases r) k \<and> jhas (active r) k) \<and> \<not> ((jhas (leases r) k \<or> jhas (active r) k) \<and> jhas (used r) k))
    \<and> (\<forall>k. key_known r k \<longleftrightarrow> (\<exists>i. jget (keys_by_id r) i = Some k))
    \<and> (\<forall>i k. jget (keys_by_id r) i = Some k \<longleftrightarrow> jget (ids_by_key r) k = Some i)
    \<and> (\<forall>k k' a. grant_of r k = Some a \<and> grant_of r k' = Some a \<longrightarrow> k = k')
    \<and> int (length (leases r) + length (active r) + length (used r)) \<le> n"
proof -
  have inv: "registry_inv r" using assms by (rule registry_run_inv)
  have "\<not> (jhas (leases r) k \<and> jhas (active r) k) \<and> \<not> ((jhas (leases r) k \<or> jhas (active r) k) \<and> jhas (used r) k)" for k
  proof -
    have "place_ok r k"
      using inv by (simp add: registry_inv_def places_disjointD)
    then show ?thesis
      by (auto simp: place_ok_def jhas_def live_grant_def split: option.splits)
  qed
  then have "\<forall>k. \<not> (jhas (leases r) k \<and> jhas (active r) k) \<and> \<not> ((jhas (leases r) k \<or> jhas (active r) k) \<and> jhas (used r) k)"
    by blast
  moreover have ids: "jget (keys_by_id r) i = Some k \<longleftrightarrow> jget (ids_by_key r) k = Some i" for i k
    using inv by (simp add: registry_inv_def ids_ok_def)
  moreover have "key_known r k \<longleftrightarrow> (\<exists>i. jget (keys_by_id r) i = Some k)" for k
  proof -
    have "jget (ids_by_key r) k = None \<longleftrightarrow> grant_of r k = None"
      using inv by (simp add: registry_inv_def ids_ok_def)
    then show ?thesis
      by (cases "jget (ids_by_key r) k") (auto simp: ids key_known_iff)
  qed
  moreover have "entries_held r \<le> n"
    using inv registry_run_max [OF assms] by (simp add: registry_inv_def)
  ultimately show ?thesis
    using inv by (auto simp: registry_inv_def grants_ok_def entries_held_def)
qed

theorem registry_state_sound_witness:
  "int (length (leases sample_issued) + length (active sample_issued) + length (used sample_issued)) \<le> 10"
  using registry_state_sound [OF sample_run] by blast

text \<open>
  A lease that was issued works. Until it expires, the returned token with the agent and profile it was issued for is
  accepted, and gives a fresh grant whose budgets are the requested ones cut to the profile limits; from then on the lease is active and found
  under its lease id.
\<close>

theorem issued_lease_usable:
  assumes "registry_run dg n r" "issue dg toks t t' inp p r = Some (Inr tok, r1)" "lease_token_ok tok"
    and "as_safe_integer (li_ttl inp) = Some ttl" "u \<le> u'" "u' < t' + ttl"
  shows "\<exists>a r2 i outp c. consume dg u u' tok (li_agent inp) (li_profile inp) r1 = (Inr a, r2)
    \<and> jget (active r2) (dg tok) = Some a \<and> binding_for r2 (li_lease_id inp) = Some a
    \<and> as_safe_integer (li_input inp) = Some i \<and> as_safe_integer (li_output inp) = Some outp
    \<and> as_safe_integer (li_cost inp) = Some c
    \<and> lr_heap r2 a = create_lease_grant (li_agent inp) (li_profile inp) (t' + ttl)
        (min i (max_input_tokens (gp_limits p))) (min outp (max_output_tokens (gp_limits p)))
        (min c (max_cost_micros (gp_limits p)))"
  using assms(2)
proof (rule issue_InrE)
  fix ttl' i outp c
  assume nums: "bounded_integer (li_ttl inp) ''ttlMs'' 1000 86400000 = Inr ttl'"
    "bounded_integer (li_input inp) ''maxInputTokens'' 1 10000000 = Inr i"
    "bounded_integer (li_output inp) ''maxOutputTokens'' 1 2000000 = Inr outp"
    "bounded_integer (li_cost inp) ''maxCostMicros'' 0 1000000000000 = Inr c"
    and tok: "draw_token dg (prune t r) toks = Some tok"
    and r1: "r1 = add_lease (dg tok) (li_lease_id inp) (create_lease_grant (li_agent inp) (li_profile inp) (t' + ttl')
       (min i (max_input_tokens (gp_limits p))) (min outp (max_output_tokens (gp_limits p)))
       (min c (max_cost_micros (gp_limits p)))) (prune t r)"
  have vals: "ttl' = ttl" "as_safe_integer (li_input inp) = Some i" "as_safe_integer (li_output inp) = Some outp"
    "as_safe_integer (li_cost inp) = Some c"
    using nums assms(4) by (auto simp: bounded_integer_def split: option.splits if_splits)
  let ?a = "lr_fresh r" and ?k = "dg tok"
  have inv: "registry_inv r" using assms(1) by (rule registry_run_inv)
  have inv1: "registry_inv r1" using inv assms(2) by (rule issue_inv)
  have live: "jget (leases r1) ?k = Some ?a" and grant: "lr_heap r1 ?a = create_lease_grant (li_agent inp) (li_profile inp)
      (t' + ttl) (min i (max_input_tokens (gp_limits p))) (min outp (max_output_tokens (gp_limits p)))
      (min c (max_cost_micros (gp_limits p)))"
    and id: "jget (ids_by_key r1) ?k = Some (li_lease_id inp)"
    by (simp_all add: r1 add_lease_def vals)
  have "live_grant r1 ?k = Some ?a"
    using live by (simp add: live_grant_def)
  moreover have fresh: "lg_expires (lr_heap r1 ?a) = t' + ttl" "lg_agent (lr_heap r1 ?a) = li_agent inp"
    "lg_profile (lr_heap r1 ?a) = li_profile inp"
    by (simp_all add: grant create_lease_grant_def)
  ultimately have places: "places (prune u r1) ?k = places r1 ?k"
    using prune_places [OF inv1, of u ?k] assms(5,6) by simp
  then have pending: "jget (leases (prune u r1)) ?k = Some ?a"
    using live by (simp add: places_def)
  let ?r2 = "(prune u r1)\<lparr>leases := jdel ?k (leases (prune u r1)), active := jset ?k ?a (active (prune u r1))\<rparr>"
  have consumed: "consume dg u u' tok (li_agent inp) (li_profile inp) r1 = (Inr ?a, ?r2)"
    using pending fresh assms(3,6) by (simp add: consume_def Let_def)
  have inv2: "registry_inv (prune u r1)" using inv1 by (rule prune_inv)
  then obtain j where "jget (ids_by_key (prune u r1)) ?k = Some j"
    using inv_known_id [of "prune u r1" ?k] pending by (auto simp: key_known_def jhas_def)
  with prune_ids [OF this] id have "jget (keys_by_id (prune u r1)) (li_lease_id inp) = Some ?k"
    using inv2 by (simp add: registry_inv_def ids_ok_def)
  then have "binding_for ?r2 (li_lease_id inp) = Some ?a"
    by (simp add: binding_for_def)
  with consumed vals(2-4) grant show ?thesis
    by (intro exI [of _ ?a] exI [of _ ?r2] exI [of _ i] exI [of _ outp] exI [of _ c]) simp
qed

theorem issued_lease_usable_witness:
  "\<exists>a r2. consume (\<lambda>s. s) 10 20 sample_token (li_agent sample_issue) (li_profile sample_issue) sample_issued = (Inr a, r2)"
proof -
  have "as_safe_integer (li_ttl sample_issue) = Some 5000"
    by (simp add: sample_issue_def is_safe_def max_safe_def del: of_int_numeral)
  from issued_lease_usable [OF run_new sample_issued sample_token_ok this, of 10 20] show ?thesis
    by auto
qed

text \<open>
  The gateway spends only on a live lease that is bound to the caller. When a token is accepted, its grant belongs to the agent
  and the profile presented, has not expired, is active afterwards, and its digest was not retired.
\<close>

theorem consumed_lease_bound:
  assumes "registry_run dg n r" "consume dg t t' tok agent profile r = (Inr a, r')"
  shows "lg_agent (lr_heap r' a) = agent \<and> lg_profile (lr_heap r' a) = profile \<and> t' < lg_expires (lr_heap r' a)
    \<and> jget (active r') (dg tok) = Some a \<and> \<not> jhas (used r') (dg tok) \<and> \<not> jhas (leases r') (dg tok)
    \<and> grant_of r (dg tok) = Some a \<and> \<not> jhas (used r) (dg tok)"
proof -
  have inv: "registry_inv r" using assms(1) by (rule registry_run_inv)
  have inv': "registry_inv r'" using inv assms(2) by (rule consume_inv)
  have before: "grant_of r (dg tok) = Some a \<and> \<not> jhas (used r) (dg tok)" if "live_grant (prune t r) (dg tok) = Some a"
  proof -
    have "live_grant r (dg tok) = Some a"
      using that prune_places [OF inv, of t "dg tok"]
      by (auto simp: places_def live_grant_def expired_place_def split: option.splits if_splits)
    then show ?thesis
      using inv_used_not_live [OF inv, of "dg tok"]
      by (cases "jget (used r) (dg tok)") (simp_all add: grant_of_def jhas_def)
  qed
  have active: "jget (active r') (dg tok) = Some a \<and> lr_heap r' = lr_heap r \<and> live_grant (prune t r) (dg tok) = Some a
      \<and> lg_agent (lr_heap r a) = agent \<and> lg_profile (lr_heap r a) = profile \<and> t' < lg_expires (lr_heap r a)"
    by (rule consume_cases [OF assms(2)]) (simp_all add: live_grant_def)
  then have "place_ok r' (dg tok)" "live_grant r' (dg tok) \<noteq> None"
    using inv' by (auto simp: registry_inv_def places_disjointD live_grant_def split: option.splits)
  then have "\<not> jhas (used r') (dg tok) \<and> \<not> jhas (leases r') (dg tok)"
    using active by (auto simp: place_ok_def jhas_def)
  with active before show ?thesis by simp
qed

theorem consumed_lease_bound_witness:
  "\<exists>a. consume (\<lambda>s. s) 10 20 sample_token ''agent_xxxxxxxxxxxxxxxxxxxx'' ''p'' sample_issued
      = (Inr a, snd (consume (\<lambda>s. s) 10 20 sample_token ''agent_xxxxxxxxxxxxxxxxxxxx'' ''p'' sample_issued))
    \<and> grant_of sample_issued sample_token = Some a"
proof -
  have "fst (consume (\<lambda>s. s) 10 20 sample_token ''agent_xxxxxxxxxxxxxxxxxxxx'' ''p'' sample_issued) = Inr 0"
    by code_simp
  then have "consume (\<lambda>s. s) 10 20 sample_token ''agent_xxxxxxxxxxxxxxxxxxxx'' ''p'' sample_issued
      = (Inr 0, snd (consume (\<lambda>s. s) 10 20 sample_token ''agent_xxxxxxxxxxxxxxxxxxxx'' ''p'' sample_issued))"
    by (simp add: prod_eq_iff)
  from this consumed_lease_bound [OF sample_run this] show ?thesis by blast
qed

text \<open>
  C3: Replay is refused. After a lease is revoked, no run of registry operations within the retention
  period makes its token usable again: every later attempt is refused as revoked or expired, whoever presents it.
\<close>

theorem revoked_lease_refused:
  assumes "registry_run dg n r" "revoke t t' i r = (True, r1)" "jget (keys_by_id r1) i = Some (dg tok)"
    and "rtranclp (step_until dg (t' + retention_ms)) r1 r2" "u \<le> t' + retention_ms" "lease_token_ok tok"
  shows "fst (consume dg u u' tok agent profile r2) = Inl RevokedOrExpired"
proof -
  have inv1: "registry_inv r1"
    using registry_run_inv [OF assms(1)] assms(2) by (rule revoke_inv)
  from assms(2) obtain key a where key: "jget (keys_by_id (prune t r)) i = Some key"
    and r1: "r1 = retire key a Revoked t' (prune t r)"
    by (rule revoke_cases) simp_all
  have "key = dg tok"
    using key assms(3) by (simp add: r1)
  then have "jget (used r1) (dg tok) = Some \<lparr>rt_at = t', rt_reason = Revoked, rt_grant = a, rt_frozen = None\<rparr>"
    by (simp add: r1)
  moreover have "jget (ids_by_key r1) (dg tok) = Some i"
    using inv1 assms(3) by (simp add: registry_inv_def ids_ok_def)
  ultimately have "still_retired (dg tok) i \<lparr>rt_at = t', rt_reason = Revoked, rt_grant = a, rt_frozen = None\<rparr> r1"
    by (simp add: still_retired_def)
  from steps_still_retired [OF _ inv1 this, of dg r2] assms(4)
  have "registry_inv r2" "still_retired (dg tok) i \<lparr>rt_at = t', rt_reason = Revoked, rt_grant = a, rt_frozen = None\<rparr> r2"
    by simp_all
  from consume_retired [where dg = dg and tok = tok, OF this, of u u' agent profile] assms(5,6)
  show ?thesis by auto
qed

theorem revoked_lease_refused_witness:
  "fst (consume (\<lambda>s. s) 50 50 sample_token ''x'' ''y'' sample_revoked) = Inl RevokedOrExpired"
proof -
  have "jget (keys_by_id sample_revoked) ''l1'' = Some sample_token"
    by code_simp
  from revoked_lease_refused [OF sample_run sample_revoked this rtranclp.rtrancl_refl, of 50] show ?thesis
    by (simp add: retention_ms_def sample_token_ok)
qed

text \<open>
  A frozen settlement is final. Once a settlement has been frozen, any later run of operations within the
  retention period, including updates of the grant by requests, leaves it as it was: reading or freezing it again returns the same record.
\<close>

theorem frozen_settlement_final:
  assumes "registry_run dg n r" "freeze_settlement t i r = (Some s, r1)" "retired_of r1 i = Some rt"
    and "rtranclp (step_until dg (rt_at rt + retention_ms)) r1 r2" "u \<le> rt_at rt + retention_ms"
  shows "fst (settlement_for u i r2) = Some s \<and> fst (freeze_settlement u i r2) = Some s"
proof -
  have inv1: "registry_inv r1"
    using registry_run_inv [OF assms(1)] assms(2) by (rule freeze_inv)
  obtain k where k: "jget (keys_by_id r1) i = Some k" "jget (used r1) k = Some rt"
    using assms(3) by (auto simp: retired_of_def split: option.splits)
  have frozen: "rt_frozen rt = Some s"
    by (rule freeze_cases [OF assms(2)]) (use k in auto)
  have "still_retired k i rt r1"
    using k inv1 by (auto simp: still_retired_def registry_inv_def ids_ok_def)
  from steps_still_retired [OF assms(4) inv1 this]
  have inv2: "registry_inv r2" and kept: "still_retired k i rt r2" by simp_all
  have read: "fst (settlement_for u i r2) = Some s"
    using inv2 kept frozen assms(5) by (rule settlement_for_retired)
  then have "retired_of (prune u r2) i \<noteq> None"
    by (auto simp: settlement_for_def Let_def split: option.splits)
  then have "fst (freeze_settlement u i r2) = fst (settlement_for u i r2)"
    by (auto simp: settlement_for_def freeze_settlement_def Let_def retired_of_def split: option.splits)
  with read show ?thesis by simp
qed

theorem frozen_settlement_final_witness:
  "\<exists>s. fst (settlement_for 60 ''l1'' (update_grant 0 empty_grant (snd (freeze_settlement 2 ''l1'' sample_revoked)))) = Some s"
proof -
  have run: "registry_run (\<lambda>s. s) 10 sample_revoked"
    by (rule run_step [OF sample_run step_revoke [OF sample_revoked]])
  let ?r1 = "snd (freeze_settlement 2 ''l1'' sample_revoked)"
  have "fst (freeze_settlement 2 ''l1'' sample_revoked) \<noteq> None"
    by code_simp
  then obtain s where s: "freeze_settlement 2 ''l1'' sample_revoked = (Some s, ?r1)"
    by (auto simp: prod_eq_iff)
  have "map_option rt_at (retired_of ?r1 ''l1'') = Some 1"
    by code_simp
  then obtain rt where rt: "retired_of ?r1 ''l1'' = Some rt" "rt_at rt = 1" by auto
  have "step_until (\<lambda>s. s) (rt_at rt + retention_ms) ?r1 (update_grant 0 empty_grant ?r1)"
    unfolding step_until_def using step_update [of _ 5 ?r1 0 empty_grant] rt(2)
    by (intro exI [of _ 5]) (simp add: retention_ms_def)
  then have steps: "rtranclp (step_until (\<lambda>s. s) (rt_at rt + retention_ms)) ?r1 (update_grant 0 empty_grant ?r1)"
    by (rule r_into_rtranclp [of "step_until (\<lambda>s. s) (rt_at rt + retention_ms)"])
  from frozen_settlement_final [OF run s rt(1) steps, of 60] rt(2)
  show ?thesis by (simp add: retention_ms_def)
qed

end
