(* ===== verification/GatewayTheorems.thy ===== *)
theory GatewayTheorems
  imports GatewayAccounting LeaseTheorems
begin

text \<open>
  The properties of the gateway as a whole: settlements count every request over all interleavings,
  a settlement frozen after the drain is complete, and snapshots replace the routing state all at once.
\<close>

definition sample_routed :: routed_profile where
  "sample_routed = gateway_profile.extend sample_profile
     \<lparr>rp_upstream = ''https://api.openai.com/v1/chat/completions'', rp_secret = None, rp_header = ''authorization'',
      rp_scheme = ''Bearer'', rp_test_only = False, rp_allow_private = False, rp_tls_ca = None, rp_session = None\<rparr>"

definition sample_config :: gateway_config where
  "sample_config = \<lparr>gc_test_mode = False, gc_profiles = [(''p'', sample_routed)], gc_tls_ca = None\<rparr>"

lemma sample_config_ok: "config_ok sample_config"
  by (auto simp: config_ok_def sample_config_def jget_Cons jok_def sample_routed_def gateway_profile.extend_def
      sample_profile_def sample_pricing_valid split: if_splits)

definition sample_start :: gateway_state where
  "sample_start = initial_gateway sample_config ''boot''"

definition sample_with_lease :: gateway_state where
  "sample_with_lease = sample_start\<lparr>gs_leases := snd (the (issue (\<lambda>s. s) [sample_token] 0 0 sample_issue sample_profile
     (new_registry 10000)))\<rparr>"

definition sample_gw_revoked :: gateway_state where
  "sample_gw_revoked = snd (revoke_request 1 1 ''l1'' sample_with_lease)"

lemma sample_gateway_run:
  "gateway_run (\<lambda>s. s) (\<lambda>_. None) (\<lambda>s. s) sample_config (sample_gw_revoked, no_ghost)"
proof -
  have profile: "lookup_profile (gs_config sample_start) (gs_routing sample_start) (li_profile sample_issue) = Some sample_routed"
    by (simp add: lookup_profile_def sample_start_def initial_gateway_def initial_registry_def sample_config_def
        sample_issue_def jget_Cons)
  have trunc: "gateway_profile.truncate sample_routed = sample_profile"
    by (simp add: sample_routed_def gateway_profile.extend_def gateway_profile.truncate_def)
  have "map_option fst (issue (\<lambda>s. s) [sample_token] 0 0 sample_issue sample_profile (new_registry 10000))
      = Some (Inr sample_token)"
    by code_simp
  then have issued: "issue (\<lambda>s. s) [sample_token] 0 0 sample_issue (gateway_profile.truncate sample_routed) (gs_leases sample_start)
      = Some (Inr sample_token, gs_leases sample_with_lease)"
    by (auto simp: sample_start_def initial_gateway_def sample_with_lease_def trunc)
  have same: "sample_with_lease = sample_start\<lparr>gs_leases := gs_leases sample_with_lease\<rparr>"
    by (simp add: sample_with_lease_def)
  have "gateway_run (\<lambda>s. s) (\<lambda>_. None) (\<lambda>s. s) sample_config (sample_with_lease, no_ghost)"
    using gw_step [OF gw_start [of _ _ _ sample_config "''boot''", folded sample_start_def] gw_issue [OF profile issued]]
    by (simp add: same [symmetric])
  moreover have "revoke_request 1 1 ''l1'' sample_with_lease = (fst (revoke_request 1 1 ''l1'' sample_with_lease), sample_gw_revoked)"
    by (simp add: sample_gw_revoked_def)
  ultimately show ?thesis
    by (rule gw_step [OF _ gw_revoke])
qed

lemma sample_gw_retired:
  obtains rt where "retired_of (gs_leases sample_gw_revoked) ''l1'' = Some rt" "rt_frozen rt = None" "rt_grant rt = 0" "rt_at rt = 1"
proof -
  have "map_option (\<lambda>rt. (rt_frozen rt = None, rt_grant rt, rt_at rt)) (retired_of (gs_leases sample_gw_revoked) ''l1'')
      = Some (True, 0, 1)"
    by code_simp
  with that show thesis by auto
qed

text \<open>
  C5: A settlement counts every request. In every state the gateway can reach, whatever the interleaving, the settlement read
  for a retired lease charges exactly the cost all finished requests on it were charged plus the
  reservations still in flight, cut to the safe range; and budget is neither lost nor invented: what remains plus what is in flight plus what was charged
  is the initial budget plus the overrun the lease could not absorb.
\<close>

theorem settlement_counts_every_request:
  assumes "gateway_run dg host_of digest config (st, g)" "config_ok config"
    and "retired_of (gs_leases st) i = Some rt" "a = rt_grant rt"
  shows "st_cost (settlement_of i rt (grant_at st a)) = min (in_flight a st + gh_charged g a) max_safe
    \<and> rem_cost (grant_at st a) + in_flight a st + gh_charged g a
        = initial_cost (lg_acc (grant_at st a)) + gh_lost g a"
proof -
  have inv: "gateway_inv st g"
    using gateway_run_inv [OF assms(1,2)] by simp
  obtain k where "jget (used (gs_leases st)) k = Some rt"
    using assms(3) by (auto simp: retired_of_def split: option.splits)
  moreover have reg: "registry_inv (gs_leases st)"
    using inv by (simp add: gateway_inv_def)
  ultimately have "grant_of (gs_leases st) k = Some a"
    using inv_used_not_live [OF reg] assms(4) by (simp add: grant_of_def)
  with reg have "a < lr_fresh (gs_leases st)"
    by (auto simp: registry_inv_def grants_ok_def)
  with inv have grant: "grant_inv st g a"
    by (simp add: gateway_inv_def)
  have "0 \<le> in_flight a st"
  proof -
    have "0 \<le> reserved_cost a q" if "(rid, q) \<in> set (gs_active st)" for rid q
      using that inv by (auto simp: gateway_inv_def requests_ok_def reserved_cost_def jget_set_iff split: option.split)
    then show ?thesis
      by (auto simp: in_flight_def msum_def intro!: sum_list_nonneg)
  qed
  with grant show ?thesis
    by (auto simp: grant_inv_def Let_def settlement_of_def saturating_add_def min_def)
qed

theorem settlement_counts_every_request_witness:
  "\<exists>rt. st_cost (settlement_of ''l1'' rt (grant_at sample_gw_revoked (rt_grant rt))) = min (in_flight (rt_grant rt) sample_gw_revoked) max_safe"
proof -
  obtain rt where rt: "retired_of (gs_leases sample_gw_revoked) ''l1'' = Some rt"
    by (rule sample_gw_retired)
  from settlement_counts_every_request [OF sample_gateway_run sample_config_ok rt refl] show ?thesis
    by (auto simp: no_ghost_def)
qed

text \<open>
  C6: A settlement frozen after the drain is complete. When a revoked or expired lease is first frozen with none of its requests left in
  flight, the frozen cost is what its requests were charged in total, and no later behaviour of the
  gateway charges that lease again.
\<close>

theorem frozen_settlement_complete:
  assumes "gateway_run dg host_of digest config (st, g)" "config_ok config"
    and "drained st i" "retired_of (prune t (gs_leases st)) i = Some rt" "rt_frozen rt = None"
    and "freeze_settlement t i (gs_leases st) = (Some s, ls)"
    and "rtranclp (gateway_step dg host_of digest) (st\<lparr>gs_leases := ls\<rparr>, g) (st2, g2)"
  shows "st_cost s = min (gh_charged g (rt_grant rt)) max_safe \<and> gh_charged g2 (rt_grant rt) = gh_charged g (rt_grant rt)"
proof -
  let ?a = "rt_grant rt"
  let ?ls = "prune t (gs_leases st)"
  let ?st1 = "st\<lparr>gs_leases := ls\<rparr>"
  have inv: "gateway_inv st g"
    using gateway_run_inv [OF assms(1,2)] by simp
  then have reg: "registry_inv (gs_leases st)" and jok: "jok (gs_active st)"
    by (simp_all add: gateway_inv_def requests_ok_def)
  have reg': "registry_inv ?ls" using reg by (rule prune_inv)
  obtain k where k: "jget (keys_by_id ?ls) i = Some k" "jget (used ?ls) k = Some rt"
    using assms(4) by (auto simp: retired_of_def split: option.splits)
  have grant: "grant_of ?ls k = Some ?a"
    using k(2) inv_used_not_live [OF reg' k(2)] by (simp add: grant_of_def)
  have dead: "live_grant ?ls j \<noteq> Some ?a" for j
  proof
    assume "live_grant ?ls j = Some ?a"
    then have "grant_of ?ls j = Some ?a" by (simp add: grant_of_def)
    with grant reg' have "j = k" by (auto simp: registry_inv_def grants_ok_def)
    with \<open>live_grant ?ls j = Some ?a\<close> inv_used_not_live [OF reg' k(2)] show False by simp
  qed
  have born: "?a < lr_fresh (gs_leases st)"
    using grant reg' by (auto simp: registry_inv_def grants_ok_def)
  have "binding_for (gs_leases st) i = Some ?a"
  proof -
    have ids: "jget (ids_by_key ?ls) k = Some i"
      using k(1) reg' by (simp add: registry_inv_def ids_ok_def)
    then have key: "jget (keys_by_id (gs_leases st)) i = Some k"
      using prune_ids [OF ids] reg by (simp add: registry_inv_def ids_ok_def)
    have "grant_of (gs_leases st) k = Some ?a"
      using prune_places [OF reg, of t k] k(2) inv_used_not_live [OF reg, of k]
      by (cases "jget (used (gs_leases st)) k")
        (auto simp: places_def grant_of_def expired_place_def split: option.splits if_splits)
    then show ?thesis
      using key by (auto simp: binding_for_def grant_of_def live_grant_def split: option.splits)
  qed
  then have "bound_requests ?a st = []"
    using assms(3) by (simp add: drained_def)
  then have idle: "ar_grant q \<noteq> ?a" if "jget (gs_active st) rid = Some q" for rid q
    using jget_in_set [OF that] by (auto simp: bound_requests_def filter_empty_conv)
  have flight: "in_flight ?a st = 0"
  proof -
    have "reserved_cost ?a q = 0" if "(rid, q) \<in> set (gs_active st)" for rid q
      using idle that jok by (auto simp: reserved_cost_def jget_set_iff)
    then have "map (\<lambda>p. reserved_cost ?a (snd p)) (gs_active st) = map (\<lambda>_. 0) (gs_active st)"
      by auto
    then show ?thesis
      unfolding in_flight_def msum_def by (simp only: sum_list_0)
  qed
  have cost: "st_cost s = min (gh_charged g ?a) max_safe"
  proof -
    have "s = settlement_of i rt (lr_heap (gs_leases st) ?a)"
      by (rule freeze_cases [OF assms(6)]) (use k assms(5) in auto)
    moreover have "grant_inv st g ?a"
      using inv born by (simp add: gateway_inv_def)
    ultimately show ?thesis
      using flight by (auto simp: grant_inv_def Let_def settlement_of_def saturating_add_def min_def grant_at_def)
  qed
  have step1: "gateway_step dg host_of digest (st, g) (?st1, g)"
    using assms(3,6) by (rule gw_freeze)
  have "live_grant ls j \<noteq> Some ?a" for j
    by (rule freeze_cases [OF assms(6)]) (use dead in simp_all)
  then have "grant_done ?st1 ?a"
    using born idle freeze_memory [OF assms(6)] by (simp add: grant_done_def)
  with gateway_steps_done [OF assms(7), of ?a] gateway_step_inv [OF step1] inv
  have "gh_charged g2 ?a = gh_charged g ?a" by simp
  with cost show ?thesis by blast
qed

theorem frozen_settlement_complete_witness:
  "\<exists>s. fst (freeze_settlement 2 ''l1'' (gs_leases sample_gw_revoked)) = Some s \<and> st_cost s = 0"
proof -
  let ?ls = "snd (freeze_settlement 2 ''l1'' (gs_leases sample_gw_revoked))"
  have drained: "drained sample_gw_revoked ''l1''"
    by code_simp
  have "map_option (\<lambda>rt. rt_frozen rt = None) (retired_of (prune 2 (gs_leases sample_gw_revoked)) ''l1'') = Some True"
    by code_simp
  then obtain rt where rt: "retired_of (prune 2 (gs_leases sample_gw_revoked)) ''l1'' = Some rt" "rt_frozen rt = None"
    by auto
  have "fst (freeze_settlement 2 ''l1'' (gs_leases sample_gw_revoked)) \<noteq> None"
    by code_simp
  then obtain s where s: "freeze_settlement 2 ''l1'' (gs_leases sample_gw_revoked) = (Some s, ?ls)"
    by (auto simp: prod_eq_iff)
  from frozen_settlement_complete [OF sample_gateway_run sample_config_ok drained rt s rtranclp.rtrancl_refl]
  have "st_cost s = 0" by (simp add: no_ghost_def)
  then show ?thesis using s by (metis fst_conv)
qed

text \<open>
  A snapshot is all or nothing. A rejected snapshot leaves profiles, credentials and digest as they were. An accepted one replaces them: the
  credentials are exactly the snapshot's; every configured profile is kept unchanged; every other profile is a snapshot entry, named by its key,
  with valid prices, a credential from the same snapshot, and outside test mode a public host name.
\<close>

theorem snapshot_all_or_nothing:
  assumes "jok (gc_profiles config)" "apply_snapshot host_of digest config command rec reg = (res, reg')"
  shows "(case res of Inl e \<Rightarrow> reg' = reg
    | Inr n \<Rightarrow> dr_digest reg' = ''sha256:'' @ digest rec
      \<and> (\<forall>cid. jhas (dr_credentials reg') cid \<longleftrightarrow> cid \<in> fst ` set (entries_or_empty (field command ''credentials'')))
      \<and> (\<forall>pid. jhas (gc_profiles config) pid \<longrightarrow> jget (dr_profiles reg') pid = jget (gc_profiles config) pid)
      \<and> (\<forall>pid. jhas (dr_profiles reg') pid \<longleftrightarrow> jhas (gc_profiles config) pid
            \<or> pid \<in> fst ` set (entries_or_empty (field command ''profiles'')))
      \<and> (\<forall>pid p. jget (dr_profiles reg') pid = Some p \<and> \<not> jhas (gc_profiles config) pid \<longrightarrow>
            gp_id p = pid \<and> pricing_valid (gp_pricing p)
            \<and> (gc_test_mode config \<or> production_hostname_ok (gp_upstream_host p))
            \<and> (\<exists>cid c. jget (dr_credentials reg') cid = Some c \<and> rp_secret p = Some (cr_secret c))))"
proof (cases res)
  case (Inl e)
  with assms show ?thesis by (auto dest: apply_snapshot_rejected)
next
  case (Inr n)
  show ?thesis
  proof (rule apply_snapshot_InrE [OF assms(2) [unfolded Inr]])
    fix creds profiles
    assume staged: "stage_credentials (entries_or_empty (field command ''credentials'')) [] = Inr creds"
        "stage_profiles host_of config creds (entries_or_empty (field command ''profiles'')) [] = Inr profiles"
      and set: "dr_credentials reg' = set_all creds []" "dr_profiles reg' = set_all profiles (set_all (gc_profiles config) [])"
      and dig: "dr_digest reg' = ''sha256:'' @ digest rec"
    have jok: "jok creds" "jok profiles"
      using stage_credentials_jok [OF staged(1)] stage_profiles_jok [OF staged(2)] by simp_all
    have creds: "jget (dr_credentials reg') cid = jget creds cid" for cid
      by (simp add: set set_all_jok [OF jok(1)] split: option.split)
    have profs: "jget (dr_profiles reg') pid = (case jget profiles pid of Some p \<Rightarrow> Some p | None \<Rightarrow> jget (gc_profiles config) pid)" for pid
      by (simp add: set set_all_jok [OF jok(2)] set_all_jok [OF assms(1)] split: option.split)
    have from_entry: "\<exists>v. stage_profile host_of config creds pid v = Inr p" if "jget profiles pid = Some p" for pid p
      using stage_profiles_from [OF staged(2) that] by auto
    have no_clash: "jget profiles pid = None" if "jhas (gc_profiles config) pid" for pid
    proof (cases "jget profiles pid")
      case (Some p)
      with from_entry obtain v where "stage_profile host_of config creds pid v = Inr p" by blast
      with that stage_profile_ok(1) show ?thesis by blast
    qed
    have dom: "jhas (dr_profiles reg') pid \<longleftrightarrow> jhas (gc_profiles config) pid
        \<or> pid \<in> fst ` set (entries_or_empty (field command ''profiles''))" for pid
      using stage_profiles_dom [OF staged(2), of pid] by (auto simp: jhas_def profs split: option.splits)
    have cred_dom: "jhas (dr_credentials reg') cid \<longleftrightarrow> cid \<in> fst ` set (entries_or_empty (field command ''credentials''))" for cid
      using stage_credentials_dom [OF staged(1), of cid] by (auto simp: jhas_def creds)
    have entry: "gp_id p = pid \<and> pricing_valid (gp_pricing p) \<and> (gc_test_mode config \<or> production_hostname_ok (gp_upstream_host p))
        \<and> (\<exists>cid c. jget (dr_credentials reg') cid = Some c \<and> rp_secret p = Some (cr_secret c))"
      if "jget (dr_profiles reg') pid = Some p" "\<not> jhas (gc_profiles config) pid" for pid p
    proof -
      have "jget profiles pid = Some p"
        using that by (auto simp: profs jhas_def split: option.splits)
      with from_entry obtain v where v: "stage_profile host_of config creds pid v = Inr p" by blast
      show ?thesis
        using stage_profile_ok [OF v] by (auto simp: creds)
    qed
    have kept: "jget (dr_profiles reg') pid = jget (gc_profiles config) pid" if "jhas (gc_profiles config) pid" for pid
      using no_clash [OF that] by (simp add: profs)
    show ?thesis
      unfolding Inr sum.case
      by (intro conjI allI impI dig cred_dom kept dom) (use entry in blast)+
  qed
qed

theorem snapshot_all_or_nothing_witness:
  "snd (apply_snapshot (\<lambda>_. None) (\<lambda>s. s) sample_config [(''credentials'', JObj [(''c'', JNull)])] ''r'' (initial_registry sample_config ''b''))
    = initial_registry sample_config ''b''"
proof -
  have jok: "jok (gc_profiles sample_config)"
    using sample_config_ok by (simp add: config_ok_def)
  have "apply_snapshot (\<lambda>_. None) (\<lambda>s. s) sample_config [(''credentials'', JObj [(''c'', JNull)])] ''r'' (initial_registry sample_config ''b'')
      = (Inl (InvalidProvider ''c''), snd (apply_snapshot (\<lambda>_. None) (\<lambda>s. s) sample_config
          [(''credentials'', JObj [(''c'', JNull)])] ''r'' (initial_registry sample_config ''b'')))"
    by (simp add: apply_snapshot_def field_Cons entries_or_empty_def stage_credential_def)
  from snapshot_all_or_nothing [OF jok this] show ?thesis by simp
qed

text \<open>
  How a refused or failed request is answered. A request the gateway refuses to bound, and a missing, malformed or
  forbidden body, answers 400; a body that is too large, as received or after clamping, answers 413; an exhausted token
  or cost budget answers 429. An output limit that is not a positive integer matches none of the words
  the classification looks for and answers 502.
\<close>

theorem error_status_by_kind:
  "error_status (EBudget (Refused why)) = 400
   \<and> map (\<lambda>e. error_status (EBody e)) [BodyTooLarge, BodyMissing, BodyNotJson, BodyNotObject, BodyForbiddenField]
      = [413, 400, 400, 400, 400]
   \<and> error_status EClampedTooLarge = 413
   \<and> map (\<lambda>e. error_status (EBudget e)) [InputTokenBudget, InputCostBudget, OutputCostExhausted] = [429, 429, 429]
   \<and> map (\<lambda>k. error_status (EBudget (BadOutputField k))) [''max_tokens'', ''max_completion_tokens'', ''max_output_tokens'']
      = [502, 502, 502]"
  by (simp add: error_status_def error_message_def body_message_def message_status_def)

end
