(* ===== verification/UpstreamStream.thy ===== *)
theory UpstreamStream
  imports Budget AddressPolicy
begin

text \<open>
  The response path of \<open>apps/model-gateway/src/upstream.ts\<close>: what of a provider's stream is forwarded,
  which usage is kept, and when the request is aborted. Bytes are characters below 256. Parameters
  are Node's UTF-8 decoding \<open>dec\<close> of a chunk, the encoded length \<open>blen\<close> of a string, and
  \<open>JSON.parse\<close> (\<open>None\<close> when it throws).
\<close>

section \<open>Usage in a stream line\<close>

record line_result =
  lr_usage :: "usage option"
  lr_malformed :: bool

definition trim_start :: "string \<Rightarrow> string" where
  "trim_start s = dropWhile (\<lambda>c. code c = 32 \<or> (9 \<le> code c \<and> code c \<le> 13) \<or> code c = 160) s"

definition extract_usage :: "(string \<Rightarrow> json option) \<Rightarrow> profile_pricing \<Rightarrow> string \<Rightarrow> line_result" where
  "extract_usage parse pricing line =
     (let payload = (if starts_with ''data:'' line then trim_start (drop 5 line) else line) in
      if payload = [] \<or> payload = ''[DONE]'' \<or> hd payload \<noteq> CHR ''{'' then \<lparr>lr_usage = None, lr_malformed = False\<rparr>
      else case parse payload of
             None \<Rightarrow> \<lparr>lr_usage = None, lr_malformed = False\<rparr>
           | Some event \<Rightarrow> (case usage_from_provider event pricing of
               None \<Rightarrow> \<lparr>lr_usage = None, lr_malformed = carries_usage event\<rparr>
             | Some u \<Rightarrow> \<lparr>lr_usage = Some u, lr_malformed = False\<rparr>))"

section \<open>Stream state\<close>

text \<open>\<open>sm_sent\<close> is what was written downstream; the other fields are the closure's variables.\<close>

record stream_state =
  sm_bytes :: int
  sm_line :: string
  sm_held :: string
  sm_sent :: string
  sm_usage :: "usage option"
  sm_discarded :: bool
  sm_exceeded :: "usage option"
  sm_abort :: "string option"

definition new_stream :: stream_state where
  "new_stream = \<lparr>sm_bytes = 0, sm_line = [], sm_held = [], sm_sent = [], sm_usage = None,
     sm_discarded = False, sm_exceeded = None, sm_abort = None\<rparr>"

record stream_config =
  sc_credential :: string
  sc_pricing :: profile_pricing
  sc_limits :: profile_limits
  sc_max_output :: int

text \<open>\<open>recordUsage\<close>.\<close>

definition note_usage :: "line_result \<Rightarrow> stream_state \<Rightarrow> stream_state" where
  "note_usage lr st = st
     \<lparr>sm_discarded := (sm_discarded st \<or> (lr_malformed lr \<and> sm_usage st \<noteq> None)),
      sm_usage := (case lr_usage lr of Some u \<Rightarrow> Some u | None \<Rightarrow> sm_usage st)\<rparr>"

definition abort_with :: "string \<Rightarrow> stream_state \<Rightarrow> stream_state" where
  "abort_with reason st = st\<lparr>sm_abort := Some reason\<rparr>"

definition exceeds :: "stream_config \<Rightarrow> line_result \<Rightarrow> usage option" where
  "exceeds cfg lr = (case lr_usage lr of Some u \<Rightarrow> if us_output u > sc_max_output cfg then Some u else None | None \<Rightarrow> None)"

text \<open>One completed line; a carriage return before the newline is dropped.\<close>

definition drop_cr :: "string \<Rightarrow> string" where
  "drop_cr s = (if s \<noteq> [] \<and> code (last s) = 13 then butlast s else s)"

definition stream_line :: "(string \<Rightarrow> json option) \<Rightarrow> (string \<Rightarrow> int) \<Rightarrow> stream_config \<Rightarrow> string \<Rightarrow> stream_state \<Rightarrow> stream_state" where
  "stream_line parse blen cfg raw st =
     (let line = drop_cr raw in
      if blen line > max_stream_line_bytes (sc_limits cfg) then abort_with ''stream line limit exceeded'' st
      else (let lr = extract_usage parse (sc_pricing cfg) line in
        case exceeds cfg lr of
          Some u \<Rightarrow> abort_with ''provider output token limit exceeded'' (st\<lparr>sm_exceeded := Some u\<rparr>)
        | None \<Rightarrow> note_usage lr st))"

fun stream_lines :: "(string \<Rightarrow> json option) \<Rightarrow> (string \<Rightarrow> int) \<Rightarrow> stream_config \<Rightarrow> string list \<Rightarrow> stream_state \<Rightarrow> stream_state" where
  "stream_lines parse blen cfg [] st = st"
| "stream_lines parse blen cfg (l # ls) st =
     (let st' = stream_line parse blen cfg l st in
      if sm_abort st' \<noteq> None then st' else stream_lines parse blen cfg ls st')"

text \<open>
  The end of the \<open>data\<close> handler: the credential is searched for in what was held back and the chunk,
  and all but one byte less than its length is written.
\<close>

definition forward :: "string \<Rightarrow> string \<Rightarrow> stream_state \<Rightarrow> stream_state" where
  "forward cred chunk st =
     (let pending = sm_held st @ chunk in
      if str_includes cred pending then abort_with ''provider attempted credential disclosure'' (st\<lparr>sm_held := pending\<rparr>)
      else (let n = length pending - (length cred - 1) in
        st\<lparr>sm_sent := sm_sent st @ take n pending, sm_held := drop n pending\<rparr>))"

definition newline :: char where
  "newline = char_of (10 :: nat)"

definition on_data :: "(string \<Rightarrow> json option) \<Rightarrow> (string \<Rightarrow> int) \<Rightarrow> (string \<Rightarrow> string) \<Rightarrow> stream_config \<Rightarrow> string \<Rightarrow> stream_state \<Rightarrow> stream_state" where
  "on_data parse blen dec cfg chunk st0 =
     (if sm_abort st0 \<noteq> None then st0 else
      (let st = st0\<lparr>sm_bytes := sm_bytes st0 + int (length chunk)\<rparr> in
       if sm_bytes st > max_response_bytes (sc_limits cfg) then abort_with ''response byte limit exceeded'' st
       else
        (let parts = split_char newline (sm_line st @ dec chunk);
             st1 = stream_lines parse blen cfg (butlast parts) (st\<lparr>sm_line := last parts\<rparr>)
         in if sm_abort st1 \<noteq> None then st1
            else if blen (sm_line st1) > max_stream_line_bytes (sc_limits cfg)
              then abort_with ''stream line limit exceeded'' st1
            else forward (sc_credential cfg) chunk st1)))"

datatype stream_outcome = Resolved "usage option" | Rejected string "usage option"

text \<open>The \<open>end\<close> handler; an aborted stream is rejected with its reason and the usage that tripped the limit.\<close>

definition on_end :: "(string \<Rightarrow> json option) \<Rightarrow> stream_config \<Rightarrow> stream_state \<Rightarrow> stream_outcome \<times> stream_state" where
  "on_end parse cfg st =
     (case sm_abort st of Some reason \<Rightarrow> (Rejected reason (sm_exceeded st), st)
      | None \<Rightarrow>
        (let lr = (if sm_line st = [] then \<lparr>lr_usage = None, lr_malformed = False\<rparr>
                   else extract_usage parse (sc_pricing cfg) (sm_line st))
         in case exceeds cfg lr of
              Some u \<Rightarrow> (let st' = abort_with ''provider output token limit exceeded'' (st\<lparr>sm_exceeded := Some u\<rparr>)
                        in (Rejected ''provider output token limit exceeded'' (Some u), st'))
            | None \<Rightarrow> (let st' = note_usage lr st in
                (Resolved (if sm_discarded st' then None else sm_usage st'),
                 st'\<lparr>sm_sent := sm_sent st' @ sm_held st', sm_held := []\<rparr>))))"

text \<open>A whole response: its chunks in order, then its end.\<close>

fun on_chunks :: "(string \<Rightarrow> json option) \<Rightarrow> (string \<Rightarrow> int) \<Rightarrow> (string \<Rightarrow> string) \<Rightarrow> stream_config \<Rightarrow> string list \<Rightarrow> stream_state \<Rightarrow> stream_state" where
  "on_chunks parse blen dec cfg [] st = st"
| "on_chunks parse blen dec cfg (c # cs) st = on_chunks parse blen dec cfg cs (on_data parse blen dec cfg c st)"

definition run_stream :: "(string \<Rightarrow> json option) \<Rightarrow> (string \<Rightarrow> int) \<Rightarrow> (string \<Rightarrow> string) \<Rightarrow> stream_config \<Rightarrow> string list
    \<Rightarrow> stream_outcome \<times> stream_state" where
  "run_stream parse blen dec cfg chunks = on_end parse cfg (on_chunks parse blen dec cfg chunks new_stream)"

section \<open>Forwarding\<close>

text \<open>A search window that keeps one byte less than the needle never misses an occurrence across its edge.\<close>

lemma window_search:
  assumes "\<not> str_includes c (sent @ held)" "\<not> str_includes c (held @ chunk)"
    and "sent = [] \<or> length c - 1 \<le> length held" "c \<noteq> []"
  shows "\<not> str_includes c (sent @ held @ chunk)"
proof
  assume "str_includes c (sent @ held @ chunk)"
  then obtain us vs where eq: "sent @ held @ chunk = us @ c @ vs"
    by (auto simp: str_includes_iff)
  show False
  proof (cases "length sent \<le> length us")
    case True
    then obtain ws where "us = sent @ ws"
      using eq by (metis append_eq_append_conv2 append_eq_append_conv_if append_take_drop_id)
    with eq have "held @ chunk = ws @ c @ vs" by simp
    with assms(2) show False by (auto simp: str_includes_iff)
  next
    case False
    then have "sent \<noteq> []" by auto
    with assms(3) have long: "length us + length c \<le> length sent + length held"
      using False by auto
    have "take (length us + length c) (sent @ held @ chunk) = us @ c"
      using eq by simp
    moreover have "take (length us + length c) (sent @ held @ chunk) = take (length us + length c) (sent @ held)"
      using long by (simp add: append_assoc [symmetric] del: append_assoc)
    ultimately have "sent @ held = us @ c @ drop (length us + length c) (sent @ held)"
      by (metis append_assoc append_take_drop_id)
    with assms(1) show False by (auto simp: str_includes_iff)
  qed
qed

definition forward_inv :: "string \<Rightarrow> string \<Rightarrow> stream_state \<Rightarrow> bool" where
  "forward_inv c received st = (if sm_abort st = None
     then received = sm_sent st @ sm_held st \<and> \<not> str_includes c (sm_sent st @ sm_held st)
       \<and> (sm_sent st = [] \<or> length c - 1 \<le> length (sm_held st))
     else \<not> str_includes c (sm_sent st) \<and> (\<exists>rest. received = sm_sent st @ rest))"

lemma str_includes_prefix: "str_includes c xs \<Longrightarrow> str_includes c (xs @ ys)"
  by (auto simp: str_includes_iff) (metis append_assoc)

lemma note_usage_fields [simp]:
  "sm_sent (note_usage lr st) = sm_sent st" "sm_held (note_usage lr st) = sm_held st"
  "sm_abort (note_usage lr st) = sm_abort st" "sm_bytes (note_usage lr st) = sm_bytes st"
  "sm_line (note_usage lr st) = sm_line st" "sm_exceeded (note_usage lr st) = sm_exceeded st"
  by (simp_all add: note_usage_def)

lemma abort_with_fields [simp]:
  "sm_sent (abort_with m st) = sm_sent st" "sm_held (abort_with m st) = sm_held st"
  "sm_abort (abort_with m st) = Some m" "sm_bytes (abort_with m st) = sm_bytes st"
  "sm_usage (abort_with m st) = sm_usage st" "sm_discarded (abort_with m st) = sm_discarded st"
  "sm_exceeded (abort_with m st) = sm_exceeded st" "sm_line (abort_with m st) = sm_line st"
  by (simp_all add: abort_with_def)

lemma stream_line_sent [simp]:
  "sm_sent (stream_line parse blen cfg l st) = sm_sent st" "sm_held (stream_line parse blen cfg l st) = sm_held st"
  "sm_line (stream_line parse blen cfg l st) = sm_line st"
  by (simp_all add: stream_line_def Let_def split: option.split)

lemma stream_lines_sent [simp]:
  "sm_sent (stream_lines parse blen cfg ls st) = sm_sent st" "sm_held (stream_lines parse blen cfg ls st) = sm_held st"
  "sm_line (stream_lines parse blen cfg ls st) = sm_line st"
  by (induction parse blen cfg ls st rule: stream_lines.induct) (simp_all add: Let_def)

lemma forward_forward_inv:
  assumes "forward_inv c received st" "sm_abort st = None" "c \<noteq> []"
  shows "forward_inv c (received @ chunk) (forward c chunk st)"
proof -
  let ?p = "sm_held st @ chunk"
  have inv: "received = sm_sent st @ sm_held st" "\<not> str_includes c (sm_sent st @ sm_held st)"
    "sm_sent st = [] \<or> length c - 1 \<le> length (sm_held st)"
    using assms(1,2) by (simp_all add: forward_inv_def)
  show ?thesis
  proof (cases "str_includes c ?p")
    case True
    then show ?thesis
      using inv str_includes_prefix [of c "sm_sent st" "sm_held st"]
      by (auto simp: forward_def forward_inv_def Let_def)
  next
    case False
    define p where "p = sm_held st @ chunk"
    define n where "n = length p - (length c - 1)"
    have free: "\<not> str_includes c (sm_sent st @ p)"
      using window_search [OF inv(2) False inv(3) assms(3)] by (simp add: p_def)
    have eq: "forward c chunk st = st\<lparr>sm_sent := sm_sent st @ take n p, sm_held := drop n p\<rparr>"
      using False by (simp add: forward_def Let_def p_def n_def)
    have kept: "sm_sent st @ take n p = [] \<or> length c - 1 \<le> length (drop n p)"
    proof (cases "length c - 1 \<le> length p")
      case True
      then show ?thesis by (simp add: n_def)
    next
      case False
      with inv(3) have "sm_sent st = []" by (auto simp: p_def)
      with False show ?thesis by (simp add: n_def)
    qed
    have "received @ chunk = sm_sent st @ p"
      using inv(1) by (simp add: p_def)
    with free kept assms(2) show ?thesis
      unfolding eq forward_inv_def by simp
  qed
qed

lemma on_data_forward_inv:
  assumes "forward_inv (sc_credential cfg) received st" "sc_credential cfg \<noteq> []"
  shows "forward_inv (sc_credential cfg) (received @ chunk) (on_data parse blen dec cfg chunk st)"
proof (cases "sm_abort st")
  case (Some reason)
  with assms show ?thesis by (auto simp: on_data_def forward_inv_def)
next
  case None
  let ?c = "sc_credential cfg"
  let ?st = "st\<lparr>sm_bytes := sm_bytes st + int (length chunk)\<rparr>"
  let ?parts = "split_char newline (sm_line ?st @ dec chunk)"
  let ?st1 = "stream_lines parse blen cfg (butlast ?parts) (?st\<lparr>sm_line := last ?parts\<rparr>)"
  have inv: "received = sm_sent st @ sm_held st" "\<not> str_includes ?c (sm_sent st @ sm_held st)"
    "sm_sent st = [] \<or> length ?c - 1 \<le> length (sm_held st)"
    using assms(1) None by (simp_all add: forward_inv_def)
  have aborted: "forward_inv ?c (received @ chunk) s" if "sm_abort s \<noteq> None" "sm_sent s = sm_sent st" for s
    using that inv str_includes_prefix [of ?c "sm_sent st" "sm_held st"] by (auto simp: forward_inv_def)
  have "forward_inv ?c received ?st1" if "sm_abort ?st1 = None"
    using that inv by (simp add: forward_inv_def)
  then have "forward_inv ?c (received @ chunk) (forward ?c chunk ?st1)" if "sm_abort ?st1 = None"
    using that forward_forward_inv [OF _ that assms(2)] by blast
  then show ?thesis
    using None aborted by (simp add: on_data_def Let_def)
qed

lemma on_chunks_forward_inv:
  "forward_inv (sc_credential cfg) received st \<Longrightarrow> sc_credential cfg \<noteq> []
     \<Longrightarrow> forward_inv (sc_credential cfg) (received @ concat chunks) (on_chunks parse blen dec cfg chunks st)"
proof (induction chunks arbitrary: received st)
  case Nil
  then show ?case by simp
next
  case (Cons c cs)
  from Cons.IH [OF on_data_forward_inv [OF Cons.prems] Cons.prems(2)] show ?case by simp
qed

lemma new_stream_forward_inv: "c \<noteq> [] \<Longrightarrow> forward_inv c [] new_stream"
  by (cases c) (simp_all add: forward_inv_def new_stream_def)

end
