(* ===== verification/StreamTheorems.thy ===== *)
theory StreamTheorems
  imports UpstreamStream GatewayControl
begin

text \<open>
  The properties of the response path: a credential never reaches the agent, a completed stream
  is forwarded byte for byte, and the usage a request settles at is the one a reader of the whole body would take,
  however the provider cut it into chunks.
\<close>

section \<open>Lines of a chunked body\<close>

lemma split_char_append:
  "split_char c (xs @ ys) = butlast (split_char c xs) @ split_char c (last (split_char c xs) @ ys)"
proof (induction xs)
  case Nil
  then show ?case by simp
next
  case (Cons x xs)
  obtain w ws where xs: "split_char c xs = w # ws"
    by (metis split_char_not_Nil list.exhaust)
  show ?case
  proof (cases "ws = []")
    case True
    obtain v vs where "split_char c (w @ ys) = v # vs"
      by (metis split_char_not_Nil list.exhaust)
    then show ?thesis using Cons xs True by simp
  next
    case False
    then show ?thesis using Cons xs by simp
  qed
qed

lemma split_char_last: "split_char c (last (split_char c xs)) = [last (split_char c xs)]"
proof (induction xs)
  case Nil
  then show ?case by simp
next
  case (Cons x xs)
  obtain w ws where xs: "split_char c xs = w # ws"
    by (metis split_char_not_Nil list.exhaust)
  then show ?case using Cons by (cases "ws = []") auto
qed

section \<open>Usage over a list of line results\<close>

definition usage_pair :: "stream_state \<Rightarrow> usage option \<times> bool" where
  "usage_pair st = (sm_usage st, sm_discarded st)"

fun note_pair :: "line_result \<Rightarrow> usage option \<times> bool \<Rightarrow> usage option \<times> bool" where
  "note_pair lr (u, d) = (if lr_usage lr \<noteq> None then lr_usage lr else u, d \<or> (lr_malformed lr \<and> u \<noteq> None))"

lemma note_usage_pair: "usage_pair (note_usage lr st) = note_pair lr (usage_pair st)"
  by (simp add: usage_pair_def note_usage_def split: option.split)

text \<open>What a whole body reports: the last valid report, unless a malformed one follows a valid one.\<close>

definition reports :: "line_result list \<Rightarrow> line_result list" where
  "reports lrs = dropWhile (\<lambda>lr. lr_usage lr = None) lrs"

definition body_usage :: "line_result list \<Rightarrow> usage option" where
  "body_usage lrs = (if (\<exists>lr \<in> set (reports lrs). lr_malformed lr) then None
     else (case rev (filter (\<lambda>lr. lr_usage lr \<noteq> None) lrs) of [] \<Rightarrow> None | lr # _ \<Rightarrow> lr_usage lr))"

definition well_marked :: "line_result \<Rightarrow> bool" where
  "well_marked lr = (lr_malformed lr \<longrightarrow> lr_usage lr = None)"

lemma extract_usage_well_marked: "well_marked (extract_usage parse pricing line)"
  by (simp add: well_marked_def extract_usage_def Let_def split: option.split)

lemma fold_note_pair:
  "list_all well_marked lrs \<Longrightarrow> fold note_pair lrs (None, False) =
     ((case rev (filter (\<lambda>lr. lr_usage lr \<noteq> None) lrs) of [] \<Rightarrow> None | lr # _ \<Rightarrow> lr_usage lr),
      (\<exists>lr \<in> set (reports lrs). lr_malformed lr))"
proof (induction lrs rule: rev_induct)
  case Nil
  then show ?case by (simp add: reports_def)
next
  case (snoc x xs)
  then have IH: "fold note_pair xs (None, False) =
     ((case rev (filter (\<lambda>lr. lr_usage lr \<noteq> None) xs) of [] \<Rightarrow> None | lr # _ \<Rightarrow> lr_usage lr),
      (\<exists>lr \<in> set (reports xs). lr_malformed lr))"
    and x: "well_marked x" by simp_all
  show ?case
  proof (cases "\<exists>lr \<in> set xs. lr_usage lr \<noteq> None")
    case True
    then have "reports (xs @ [x]) = reports xs @ [x]"
      by (auto simp: reports_def dropWhile_append)
    moreover have "rev (filter (\<lambda>lr. lr_usage lr \<noteq> None) xs) \<noteq> []"
      using True by (simp add: filter_empty_conv)
    moreover have "lr_usage (hd (rev (filter (\<lambda>lr. lr_usage lr \<noteq> None) xs))) \<noteq> None"
    proof -
      have "hd (rev (filter (\<lambda>lr. lr_usage lr \<noteq> None) xs)) \<in> set (filter (\<lambda>lr. lr_usage lr \<noteq> None) xs)"
        using \<open>rev _ \<noteq> []\<close> by (metis hd_in_set set_rev)
      then show ?thesis by simp
    qed
    ultimately show ?thesis
      using IH x by (cases "rev (filter (\<lambda>lr. lr_usage lr \<noteq> None) xs)")
        (auto simp: well_marked_def)
  next
    case False
    then have none: "reports xs = []" "filter (\<lambda>lr. lr_usage lr \<noteq> None) xs = []"
      by (simp_all add: reports_def filter_empty_conv)
    then have "fold note_pair xs (None, False) = (None, False)"
      using IH by simp
    moreover have "reports (xs @ [x]) = (if lr_usage x = None then [] else [x])"
      using False by (simp add: reports_def dropWhile_append)
    ultimately show ?thesis
      using x none by (auto simp: well_marked_def)
  qed
qed

lemma fold_note_body_usage:
  assumes "list_all well_marked lrs"
  shows "(if snd (fold note_pair lrs (None, False)) then None else fst (fold note_pair lrs (None, False))) = body_usage lrs"
  by (simp add: fold_note_pair [OF assms] body_usage_def)

lemma body_usage_Some: "body_usage lrs = Some v \<Longrightarrow> \<exists>lr \<in> set lrs. lr_usage lr = Some v"
proof -
  assume v: "body_usage lrs = Some v"
  let ?vs = "rev (filter (\<lambda>lr. lr_usage lr \<noteq> None) lrs)"
  obtain lr ws where "?vs = lr # ws" "lr_usage lr = Some v"
    using v by (cases ?vs) (auto simp: body_usage_def split: if_splits)
  then have "lr \<in> set ?vs" by simp
  then show ?thesis using \<open>lr_usage lr = Some v\<close> by auto
qed

section \<open>The state after some chunks\<close>

definition line_result_of :: "(string \<Rightarrow> json option) \<Rightarrow> stream_config \<Rightarrow> string \<Rightarrow> line_result" where
  "line_result_of parse cfg line = extract_usage parse (sc_pricing cfg) (drop_cr line)"

definition line_fits :: "(string \<Rightarrow> json option) \<Rightarrow> (string \<Rightarrow> int) \<Rightarrow> stream_config \<Rightarrow> string \<Rightarrow> bool" where
  "line_fits parse blen cfg line = (blen (drop_cr line) \<le> max_stream_line_bytes (sc_limits cfg)
     \<and> exceeds cfg (line_result_of parse cfg line) = None)"

lemma stream_lines_completed:
  "sm_abort (stream_lines parse blen cfg ls st) = None \<Longrightarrow>
     usage_pair (stream_lines parse blen cfg ls st) = fold note_pair (map (line_result_of parse cfg) ls) (usage_pair st)
     \<and> list_all (line_fits parse blen cfg) ls"
proof (induction ls arbitrary: st)
  case Nil
  then show ?case by simp
next
  case (Cons l ls)
  let ?st' = "stream_line parse blen cfg l st"
  have ok: "sm_abort ?st' = None" and rest: "sm_abort (stream_lines parse blen cfg ls ?st') = None"
    using Cons.prems by (auto simp: Let_def split: if_splits)
  have "line_fits parse blen cfg l \<and> ?st' = note_usage (line_result_of parse cfg l) st"
    using ok by (auto simp: stream_line_def Let_def line_fits_def line_result_of_def split: if_splits option.splits)
  with Cons.IH [OF rest] ok show ?case by (simp add: Let_def note_usage_pair)
qed

definition usage_inv :: "(string \<Rightarrow> json option) \<Rightarrow> (string \<Rightarrow> int) \<Rightarrow> stream_config \<Rightarrow> string \<Rightarrow> stream_state \<Rightarrow> bool" where
  "usage_inv parse blen cfg body st = (sm_abort st = None \<longrightarrow>
     (let parts = split_char newline body in
      sm_line st = last parts
      \<and> usage_pair st = fold note_pair (map (line_result_of parse cfg) (butlast parts)) (None, False)
      \<and> list_all (line_fits parse blen cfg) (butlast parts)))"

lemma forward_fields [simp]:
  "sm_line (forward c chunk st) = sm_line st" "usage_pair (forward c chunk st) = usage_pair st"
  "sm_bytes (forward c chunk st) = sm_bytes st"
  by (simp_all add: forward_def Let_def usage_pair_def)

lemma on_data_continues:
  assumes "sm_abort (on_data parse blen dec cfg chunk st) = None"
  obtains st1 where "sm_abort st = None"
    "st1 = stream_lines parse blen cfg (butlast (split_char newline (sm_line st @ dec chunk)))
       (st\<lparr>sm_bytes := sm_bytes st + int (length chunk), sm_line := last (split_char newline (sm_line st @ dec chunk))\<rparr>)"
    "sm_abort st1 = None" "on_data parse blen dec cfg chunk st = forward (sc_credential cfg) chunk st1"
    "sm_bytes st + int (length chunk) \<le> max_response_bytes (sc_limits cfg)"
proof -
  have "sm_abort st = None" using assms by (cases "sm_abort st") (simp_all add: on_data_def)
  then show ?thesis
    using assms that by (auto simp: on_data_def Let_def split: if_splits)
qed

lemma on_data_usage_inv:
  assumes "usage_inv parse blen cfg body st"
  shows "usage_inv parse blen cfg (body @ dec chunk) (on_data parse blen dec cfg chunk st)"
proof (cases "sm_abort (on_data parse blen dec cfg chunk st)")
  case (Some e)
  then show ?thesis by (simp add: usage_inv_def)
next
  case None
  let ?parts = "split_char newline body"
  let ?new = "split_char newline (sm_line st @ dec chunk)"
  obtain st1 where live: "sm_abort st = None"
    and st1: "st1 = stream_lines parse blen cfg (butlast ?new)
       (st\<lparr>sm_bytes := sm_bytes st + int (length chunk), sm_line := last ?new\<rparr>)"
    and ok: "sm_abort st1 = None" and eq: "on_data parse blen dec cfg chunk st = forward (sc_credential cfg) chunk st1"
    by (rule on_data_continues [OF None])
  have inv: "sm_line st = last ?parts"
    "usage_pair st = fold note_pair (map (line_result_of parse cfg) (butlast ?parts)) (None, False)"
    "list_all (line_fits parse blen cfg) (butlast ?parts)"
    using assms live by (simp_all add: usage_inv_def Let_def)
  have split: "split_char newline (body @ dec chunk) = butlast ?parts @ ?new"
    by (simp only: split_char_append [of newline body "dec chunk"] inv(1))
  have "usage_pair st1 = fold note_pair (map (line_result_of parse cfg) (butlast ?new)) (usage_pair st)
      \<and> list_all (line_fits parse blen cfg) (butlast ?new)"
    using stream_lines_completed [of parse blen cfg "butlast ?new"] ok by (simp add: st1 usage_pair_def)
  moreover have "sm_line st1 = last ?new" by (simp add: st1)
  ultimately show ?thesis
    using inv by (simp add: usage_inv_def eq split Let_def butlast_append)
qed

lemma on_chunks_usage_inv:
  "usage_inv parse blen cfg body st
     \<Longrightarrow> usage_inv parse blen cfg (body @ concat (map dec chunks)) (on_chunks parse blen dec cfg chunks st)"
proof (induction chunks arbitrary: body st)
  case Nil
  then show ?case by simp
next
  case (Cons c cs)
  from Cons.IH [OF on_data_usage_inv [OF Cons.prems]] show ?case by simp
qed

lemma new_stream_usage_inv: "usage_inv parse blen cfg [] new_stream"
  by (simp add: usage_inv_def new_stream_def usage_pair_def)

lemma on_end_resolved:
  assumes "on_end parse cfg st = (Resolved u, st')"
  shows "sm_abort st = None" "sm_sent st' = sm_sent st @ sm_held st"
    "exceeds cfg (extract_usage parse (sc_pricing cfg) (sm_line st)) = None"
    "u = (if snd (note_pair (extract_usage parse (sc_pricing cfg) (sm_line st)) (usage_pair st)) then None
          else fst (note_pair (extract_usage parse (sc_pricing cfg) (sm_line st)) (usage_pair st)))"
proof -
  define lr where "lr = extract_usage parse (sc_pricing cfg) (sm_line st)"
  have empty: "extract_usage parse (sc_pricing cfg) [] = \<lparr>lr_usage = None, lr_malformed = False\<rparr>"
    by (simp add: extract_usage_def)
  have same: "(if sm_line st = [] then \<lparr>lr_usage = None, lr_malformed = False\<rparr>
      else extract_usage parse (sc_pricing cfg) (sm_line st)) = lr"
    by (simp add: lr_def empty)
  show live: "sm_abort st = None" using assms by (cases "sm_abort st") (simp_all add: on_end_def)
  show ex: "exceeds cfg (extract_usage parse (sc_pricing cfg) (sm_line st)) = None"
    using assms live unfolding on_end_def same by (simp add: lr_def Let_def split: option.splits)
  have res: "(Resolved u, st') = (let s = note_usage lr st in (Resolved (if sm_discarded s then None else sm_usage s),
      s\<lparr>sm_sent := sm_sent s @ sm_held s, sm_held := []\<rparr>))"
    using assms live ex unfolding on_end_def same by (simp add: lr_def)
  then show "sm_sent st' = sm_sent st @ sm_held st" by (simp add: Let_def)
  obtain a b where p: "note_pair lr (usage_pair st) = (a, b)"
    by (cases "note_pair lr (usage_pair st)")
  have "usage_pair (note_usage lr st) = (a, b)" by (simp only: note_usage_pair p)
  then have "sm_usage (note_usage lr st) = a" "sm_discarded (note_usage lr st) = b"
    by (simp_all add: usage_pair_def)
  then have "u = (if b then None else a)"
    using res by (simp add: Let_def)
  then show "u = (if snd (note_pair (extract_usage parse (sc_pricing cfg) (sm_line st)) (usage_pair st)) then None
          else fst (note_pair (extract_usage parse (sc_pricing cfg) (sm_line st)) (usage_pair st)))"
    by (simp add: p lr_def [symmetric])
qed

section \<open>Properties\<close>

text \<open>A provider answering in two chunks, cut inside a line and inside the report.\<close>

definition sample_stream_config :: stream_config where
  "sample_stream_config = \<lparr>sc_credential = ''sk-key'',
     sc_pricing = \<lparr>base_input = 1, base_output = 2, base_read = None, base_write = None, price_tiers = []\<rparr>,
     sc_limits = default_limits, sc_max_output = 20\<rparr>"

definition report_event :: json where
  "report_event = JObj [(''usage'', JObj [(''prompt_tokens'', JInt 10), (''completion_tokens'', JInt 4)])]"

definition sample_parse :: "string \<Rightarrow> json option" where
  "sample_parse s = (if s = ''{U}'' then Some report_event else None)"

definition sample_chunks :: "string list" where
  "sample_chunks = [''data: {'', ''U}'' @ [newline] @ ''data: [DONE]'' @ [newline]]"

lemma sample_stream_resolves:
  "\<exists>u st. run_stream sample_parse (\<lambda>s. int (length s)) (\<lambda>s. s) sample_stream_config sample_chunks = (Resolved (Some u), st)"
proof -
  have "(case run_stream sample_parse (\<lambda>s. int (length s)) (\<lambda>s. s) sample_stream_config sample_chunks of
     (Resolved (Some u), st) \<Rightarrow> True | _ \<Rightarrow> False)"
    by code_simp
  then show ?thesis by (auto split: prod.splits stream_outcome.splits option.splits)
qed

text \<open>
  C7: The credential is never forwarded, and a completed stream is forwarded unchanged. For a
  non-empty credential and any chunking of the provider's bytes, what was written to the agent is a
  prefix of what was received and does not contain the credential, even across chunk boundaries; if
  the stream completes, every received byte was written.
\<close>

theorem credential_never_forwarded:
  assumes "sc_credential cfg \<noteq> []"
    and "run_stream parse blen dec cfg chunks = (out, st)"
  shows "\<not> str_includes (sc_credential cfg) (sm_sent st)
     \<and> (\<exists>rest. concat chunks = sm_sent st @ rest \<and> (\<forall>u. out = Resolved u \<longrightarrow> rest = []))"
proof -
  define s where "s = on_chunks parse blen dec cfg chunks new_stream"
  have run: "on_end parse cfg s = (out, st)" using assms(2) by (simp add: run_stream_def s_def)
  have inv: "forward_inv (sc_credential cfg) (concat chunks) s"
    using on_chunks_forward_inv [OF new_stream_forward_inv [OF assms(1)] assms(1)] by (simp add: s_def)
  show ?thesis
  proof (cases out)
    case (Resolved u)
    with run have res: "on_end parse cfg s = (Resolved u, st)" by simp
    with inv show ?thesis
      using on_end_resolved(1,2) [OF res] by (simp add: forward_inv_def)
  next
    case (Rejected m e)
    have sent: "sm_sent st = sm_sent s"
      using run Rejected by (auto simp: on_end_def Let_def split: option.splits if_splits)
    have "\<not> str_includes (sc_credential cfg) (sm_sent s) \<and> (\<exists>rest. concat chunks = sm_sent s @ rest)"
      using inv str_includes_prefix [of "sc_credential cfg" "sm_sent s" "sm_held s"]
      by (auto simp: forward_inv_def split: if_splits)
    with sent Rejected show ?thesis by simp
  qed
qed

theorem credential_never_forwarded_witness:
  "\<exists>u st. run_stream sample_parse (\<lambda>s. int (length s)) (\<lambda>s. s) sample_stream_config sample_chunks = (Resolved u, st)
     \<and> sm_sent st = concat sample_chunks"
proof -
  obtain u st where run: "run_stream sample_parse (\<lambda>s. int (length s)) (\<lambda>s. s) sample_stream_config sample_chunks
      = (Resolved (Some u), st)"
    using sample_stream_resolves by blast
  have "sc_credential sample_stream_config \<noteq> []" by (simp add: sample_stream_config_def)
  from credential_never_forwarded [OF this run] run show ?thesis by auto
qed

text \<open>
  The usage of a completed stream does not depend on its chunks. It is the last valid report
  among the lines of the whole body, or none if a malformed report follows a valid one, and every line obeyed the
  line limit and every report the output limit.
\<close>

theorem resolved_usage_of_body:
  assumes "run_stream parse blen dec cfg chunks = (Resolved u, st)"
  defines "parts \<equiv> split_char newline (concat (map dec chunks))"
  shows "u = body_usage (map (line_result_of parse cfg) (butlast parts) @ [extract_usage parse (sc_pricing cfg) (last parts)])
    \<and> (\<forall>l \<in> set (butlast parts). blen (drop_cr l) \<le> max_stream_line_bytes (sc_limits cfg))
    \<and> (\<forall>v. u = Some v \<longrightarrow> us_output v \<le> sc_max_output cfg)"
proof -
  define s where "s = on_chunks parse blen dec cfg chunks new_stream"
  have run: "on_end parse cfg s = (Resolved u, st)" using assms(1) by (simp add: run_stream_def s_def)
  note final = on_end_resolved [OF run]
  have inv: "usage_inv parse blen cfg (concat (map dec chunks)) s"
    using on_chunks_usage_inv [OF new_stream_usage_inv, of parse blen cfg dec chunks] by (simp add: s_def)
  then have lines: "sm_line s = last parts" "list_all (line_fits parse blen cfg) (butlast parts)"
    "usage_pair s = fold note_pair (map (line_result_of parse cfg) (butlast parts)) (None, False)"
    using final(1) by (simp_all add: usage_inv_def Let_def parts_def)
  let ?lrs = "map (line_result_of parse cfg) (butlast parts) @ [extract_usage parse (sc_pricing cfg) (last parts)]"
  have marked: "list_all well_marked ?lrs"
    by (simp add: list_all_iff line_result_of_def extract_usage_well_marked)
  have whole: "fold note_pair ?lrs (None, False)
      = note_pair (extract_usage parse (sc_pricing cfg) (last parts)) (usage_pair s)"
    by (simp add: lines(3))
  have "u = body_usage ?lrs"
    using final(4) fold_note_body_usage [OF marked] by (simp only: lines(1) whole)
  moreover have "\<forall>lr \<in> set ?lrs. exceeds cfg lr = None"
    using lines(2) final(3) by (auto simp: lines(1) list_all_iff line_fits_def)
  then have "us_output v \<le> sc_max_output cfg" if "body_usage ?lrs = Some v" for v
    using body_usage_Some [OF that] by (auto simp: exceeds_def split: if_splits)
  ultimately show ?thesis
    using lines(2) by (auto simp: list_all_iff line_fits_def)
qed

theorem resolved_usage_of_body_witness:
  "\<exists>u. Some u = body_usage (map (line_result_of sample_parse sample_stream_config)
     (butlast (split_char newline (concat sample_chunks)))
     @ [extract_usage sample_parse (sc_pricing sample_stream_config) (last (split_char newline (concat sample_chunks)))])"
proof -
  obtain u st where run: "run_stream sample_parse (\<lambda>s. int (length s)) (\<lambda>s. s) sample_stream_config sample_chunks
      = (Resolved (Some u), st)"
    using sample_stream_resolves by blast
  from resolved_usage_of_body [OF run] show ?thesis by auto
qed

end
