(* ===== verification/AddressSpellings.thy ===== *)
theory AddressSpellings
  imports AddressPolicy
begin

text \<open>
  How an address literal is written, apart from the parser that reads it: the dotted form of an IPv4
  address, and every text form of the eight words of an IPv6 address (hexadecimal in either case with or without
  leading zeros, one run of zeros left out, a dotted tail, a zone). What the gateway's functions answer on
  each of these forms.
\<close>

section \<open>Dotted literals\<close>

definition dotted :: "nat \<Rightarrow> nat \<Rightarrow> nat \<Rightarrow> nat \<Rightarrow> string" where
  "dotted a b c d = show_nat a @ ''.'' @ show_nat b @ ''.'' @ show_nat c @ ''.'' @ show_nat d"

lemma split_char_plain: "c \<notin> set w \<Longrightarrow> split_char c w = [w]"
  by (induction w) auto

lemma split_char_step: "c \<notin> set w \<Longrightarrow> split_char c (w @ c # rest) = w # split_char c rest"
  by (induction w) auto

lemma not_digit [simp]:
  "\<not> is_digit_char CHR ''.''" "\<not> is_digit_char CHR '':''" "\<not> is_digit_char CHR ''%''"
  by (simp_all add: is_digit_char_def code_def)

lemma show_nat_free [simp]:
  "CHR ''.'' \<notin> set (show_nat n)" "CHR '':'' \<notin> set (show_nat n)" "CHR ''%'' \<notin> set (show_nat n)"
  using show_nat_digits [of _ n] not_digit by blast+

lemma split_dotted: "split_char CHR ''.'' (dotted a b c d) = [show_nat a, show_nat b, show_nat c, show_nat d]"
  by (simp add: dotted_def split_char_step split_char_plain)

lemma show_nat_segment: "n < 256 \<Longrightarrow> is_v4_segment (show_nat n)"
  using show_nat_length(1,3) [of n] show_nat_leading [of n]
  by (cases "n = 0") (auto simp: is_v4_segment_def dec_number_show list_all_iff show_nat_digits)

lemma is_ipv4_dotted: "a < 256 \<Longrightarrow> b < 256 \<Longrightarrow> c < 256 \<Longrightarrow> d < 256 \<Longrightarrow> is_ipv4 (dotted a b c d)"
  by (simp add: is_ipv4_def split_dotted show_nat_segment)

lemma lower_digit: "is_digit_char c \<Longrightarrow> lower_char c = c"
  by (simp add: lower_char_def is_upper_char_def is_digit_char_def)

lemma to_lower_append: "to_lower (s @ t) = to_lower s @ to_lower t"
  by (simp add: to_lower_def)

lemma to_lower_show [simp]: "to_lower (show_nat n) = show_nat n"
  unfolding to_lower_def by (rule map_idI) (simp add: lower_digit show_nat_digits)

lemma dotted_free [simp]: "CHR '':'' \<notin> set (dotted a b c d)" "CHR ''%'' \<notin> set (dotted a b c d)"
  by (simp_all add: dotted_def)

lemma to_lower_dotted [simp]: "to_lower (dotted a b c d) = dotted a b c d"
proof -
  have "to_lower ''.'' = ''.''" by code_simp
  then show ?thesis by (simp only: dotted_def to_lower_append to_lower_show)
qed

section \<open>Hexadecimal words\<close>

definition hextet_value :: "string \<Rightarrow> int" where
  "hextet_value h = foldl (\<lambda>n c. 16 * n + the (hex_value c)) 0 h"

lemma hex_value_lower: "hex_value (lower_char c) = hex_value c"
proof (cases "is_upper_char c")
  case True
  then have "code (lower_char c) = code c + 32"
    by (simp add: lower_char_def is_upper_char_def code_def)
  with True show ?thesis by (auto simp: hex_value_def is_digit_char_def is_upper_char_def)
qed (simp add: lower_char_def)

lemma hex_value_none [simp]: "hex_value CHR '':'' = None" "hex_value CHR ''.'' = None" "hex_value CHR ''%'' = None"
  by (simp_all add: hex_value_def is_digit_char_def code_def)

lemma hex_value_range: "hex_value c = Some v \<Longrightarrow> 0 \<le> v \<and> v < 16"
  by (auto simp: hex_value_def is_digit_char_def split: if_splits)

lemma is_hextet_free: "is_hextet h \<Longrightarrow> h \<noteq> [] \<and> CHR '':'' \<notin> set h \<and> CHR ''.'' \<notin> set h \<and> CHR ''%'' \<notin> set h"
  by (auto simp: is_hextet_def list_all_iff)

lemma hextet_lower: "is_hextet (to_lower h) = is_hextet h" "hextet_value (to_lower h) = hextet_value h"
  by (simp_all add: is_hextet_def hextet_value_def to_lower_def list_all_iff hex_value_lower foldl_map)

lemma hex_digits_foldl:
  "list_all (\<lambda>c. hex_value c \<noteq> None) s \<Longrightarrow> hex_digits n s = foldl (\<lambda>n c. 16 * n + the (hex_value c)) n s"
  by (induction n s rule: hex_digits.induct) auto

lemma parse_hextet: "is_hextet h \<Longrightarrow> parse_hex h = Some (hextet_value h)"
  by (cases h) (auto simp: parse_hex_def is_hextet_def hextet_value_def hex_digits_foldl)

lemma foldl_hex_range:
  "list_all (\<lambda>c. hex_value c \<noteq> None) s \<Longrightarrow>
     0 \<le> foldl (\<lambda>n c. 16 * n + the (hex_value c)) 0 s \<and> foldl (\<lambda>n c. 16 * n + the (hex_value c)) 0 s < 16 ^ length s"
proof (induction s rule: rev_induct)
  case Nil
  then show ?case by simp
next
  case (snoc c s)
  then obtain v where "hex_value c = Some v" by auto
  with snoc hex_value_range [of c v] show ?case by simp
qed

lemma hextet_range: "is_hextet h \<Longrightarrow> 0 \<le> hextet_value h \<and> hextet_value h \<le> 65535"
proof -
  assume h: "is_hextet h"
  then have "(16 :: int) ^ length h \<le> 16 ^ 4" by (intro power_increasing) (simp_all add: is_hextet_def)
  with foldl_hex_range [of h] h show ?thesis by (simp add: is_hextet_def hextet_value_def)
qed

section \<open>Parts between colons\<close>

fun join_words :: "string list \<Rightarrow> string" where
  "join_words [] = []"
| "join_words [w] = w"
| "join_words (w # v # ws) = w @ CHR '':'' # join_words (v # ws)"

abbreviation plain :: "string list \<Rightarrow> bool" where
  "plain ws \<equiv> list_all (\<lambda>w. w \<noteq> [] \<and> CHR '':'' \<notin> set w) ws"

lemma join_words_Cons: "ws \<noteq> [] \<Longrightarrow> join_words (w # ws) = w @ CHR '':'' # join_words ws"
  by (cases ws) simp_all

lemma join_words_empty: "plain ws \<Longrightarrow> join_words ws = [] \<longleftrightarrow> ws = []"
  by (cases ws rule: join_words.cases) auto

lemma join_words_ends: "plain ws \<Longrightarrow> ws \<noteq> [] \<Longrightarrow>
    hd (join_words ws) \<noteq> CHR '':'' \<and> last (join_words ws) \<noteq> CHR '':''"
proof (induction ws rule: join_words.induct)
  case (2 w)
  then have "w \<noteq> []" "CHR '':'' \<notin> set w" by simp_all
  then show ?case using hd_in_set [of w] last_in_set [of w] by (simp only: join_words.simps) metis
next
  case (3 w v ws)
  then have "join_words (v # ws) \<noteq> []" using join_words_empty [of "v # ws"] by simp
  moreover have "w \<noteq> []" "hd w \<noteq> CHR '':''" using 3(2) hd_in_set [of w] by (auto simp del: hd_in_set)
  ultimately show ?case using 3 by simp
qed simp

lemma join_words_snoc: "join_words (ws @ [w]) = concat (map (\<lambda>v. v @ '':'') ws) @ w"
proof (induction ws)
  case (Cons v ws)
  then show ?case by (cases ws) simp_all
qed simp

lemma join_words_set: "set (join_words ws) \<subseteq> insert CHR '':'' (\<Union> (set ` set ws))"
  by (induction ws rule: join_words.induct) auto

lemma to_lower_join: "to_lower (join_words ws) = join_words (map to_lower ws)"
proof (induction ws rule: join_words.induct)
  case (3 w v ws)
  have "lower_char CHR '':'' = CHR '':''" by code_simp
  with 3 show ?case by (simp add: to_lower_def)
qed (simp_all add: to_lower_def)

lemma split_join_words: "plain ws \<Longrightarrow> ws \<noteq> [] \<Longrightarrow> split_char CHR '':'' (join_words ws) = ws"
  by (induction ws rule: join_words.induct) (simp_all add: split_char_plain split_char_step)

text \<open>A text with no double colon, and where the next one is found.\<close>

fun calm :: "string \<Rightarrow> bool" where
  "calm (x # y # s) = (\<not> (x = CHR '':'' \<and> y = CHR '':'') \<and> calm (y # s))"
| "calm s = True"

lemma split_double_calm: "calm s \<Longrightarrow> split_double s = [s]"
  by (induction s rule: split_double.induct) auto

lemma split_double_step:
  "calm s \<Longrightarrow> s = [] \<or> last s \<noteq> CHR '':'' \<Longrightarrow> split_double (s @ CHR '':'' # CHR '':'' # t) = s # split_double t"
  by (induction s rule: split_double.induct) (auto split: if_splits)

lemma calm_append: "CHR '':'' \<notin> set w \<Longrightarrow> calm s \<Longrightarrow> calm (w @ s)"
proof (induction w)
  case (Cons c w)
  then show ?case by (cases "w @ s") auto
qed simp

lemma calm_join: "plain ws \<Longrightarrow> calm (join_words ws)"
proof (induction ws rule: join_words.induct)
  case (2 w)
  then show ?case using calm_append [of w "[]"] by simp
next
  case (3 w v ws)
  have "hd (join_words (v # ws)) \<noteq> CHR '':''" using join_words_ends [of "v # ws"] 3(2) by simp
  then have "calm (CHR '':'' # join_words (v # ws))" using 3 by (cases "join_words (v # ws)") auto
  then show ?case using 3(2) by (simp add: calm_append)
qed simp

lemma split_double_join:
  "plain ws \<Longrightarrow> split_double (join_words ws) = [join_words ws]"
  "plain vs \<Longrightarrow> plain ws \<Longrightarrow> split_double (join_words vs @ ''::'' @ join_words ws) = [join_words vs, join_words ws]"
proof -
  show one: "split_double (join_words ws) = [join_words ws]" if "plain ws" for ws
    using that by (simp add: split_double_calm calm_join)
  assume "plain vs" "plain ws"
  then show "split_double (join_words vs @ ''::'' @ join_words ws) = [join_words vs, join_words ws]"
    using split_double_step [OF calm_join, of vs "join_words ws"] join_words_ends [of vs] one [of ws]
    by (cases "vs = []") simp_all
qed

lemma parse_side_join: "plain ws \<Longrightarrow> parse_side (join_words ws) = map parse_hex ws"
  by (cases "ws = []") (simp_all add: parse_side_def join_words_empty split_join_words)

section \<open>The text forms\<close>

text \<open>The parts between single colons and the words they write; a dotted tail is the last two.\<close>

inductive written :: "string list \<Rightarrow> int list \<Rightarrow> bool" where
  written_none: "written [] []"
| written_word: "is_hextet h \<Longrightarrow> written ps ws \<Longrightarrow> written (h # ps) (hextet_value h # ws)"
| written_dotted: "a < 256 \<Longrightarrow> b < 256 \<Longrightarrow> c < 256 \<Longrightarrow> d < 256 \<Longrightarrow>
    written [dotted a b c d] [int a * 256 + int b, int c * 256 + int d]"

text \<open>
  The text forms of eight words (RFC 4291, section 2.2): all of them, or two sides of a double colon that stands for the
  zeros between. Only the very last part may be dotted.
\<close>

inductive ipv6_literal :: "string \<Rightarrow> int list \<Rightarrow> bool" where
  literal_full: "written ps ws \<Longrightarrow> length ws = 8 \<Longrightarrow> ipv6_literal (join_words ps) ws"
| literal_short: "list_all is_hextet hs \<Longrightarrow> written ps ws \<Longrightarrow> length hs + length ws \<le> 7 \<Longrightarrow>
    ipv6_literal (join_words hs @ ''::'' @ join_words ps)
      (map hextet_value hs @ replicate (8 - (length hs + length ws)) 0 @ ws)"

text \<open>A literal, in any letter case, may carry a zone.\<close>

inductive spells :: "string \<Rightarrow> int list \<Rightarrow> bool" where
  spells_plain: "ipv6_literal t ws \<Longrightarrow> spells t ws"
| spells_zone: "ipv6_literal t ws \<Longrightarrow> spells (t @ ''%'' @ z) ws"

lemma written_cases:
  assumes "written ps ws"
  obtains (words) "list_all is_hextet ps" "ws = map hextet_value ps"
  | (dotted) hs a b c d where "ps = hs @ [dotted a b c d]" "list_all is_hextet hs"
      "a < 256" "b < 256" "c < 256" "d < 256"
      "ws = map hextet_value hs @ [int a * 256 + int b, int c * 256 + int d]"
  using assms
proof (induction arbitrary: thesis rule: written.induct)
  case written_none
  then show ?case by simp
next
  case (written_word h ps ws)
  show ?case
  proof (rule written_word.IH)
    assume "list_all is_hextet ps" "ws = map hextet_value ps"
    with written_word.hyps(1) show thesis by (intro written_word.prems(1)) simp_all
  next
    fix hs a b c d
    assume "ps = hs @ [dotted a b c d]" "list_all is_hextet hs" "a < 256" "b < 256" "c < 256" "d < 256"
      "ws = map hextet_value hs @ [int a * 256 + int b, int c * 256 + int d]"
    with written_word.hyps(1) show thesis by (intro written_word.prems(2) [of "h # hs" a b c d]) simp_all
  qed
next
  case (written_dotted a b c d)
  show ?case by (rule written_dotted.prems(2) [of "[]" a b c d]) (simp_all add: written_dotted.hyps)
qed

lemma written_words: "list_all is_hextet hs \<Longrightarrow> written hs (map hextet_value hs)"
  by (induction hs) (auto intro: written.intros)

lemma written_words_dotted:
  "list_all is_hextet hs \<Longrightarrow> a < 256 \<Longrightarrow> b < 256 \<Longrightarrow> c < 256 \<Longrightarrow> d < 256 \<Longrightarrow>
     written (hs @ [dotted a b c d]) (map hextet_value hs @ [int a * 256 + int b, int c * 256 + int d])"
  by (induction hs) (auto intro: written.intros)

lemma written_range: "written ps ws \<Longrightarrow> list_all (\<lambda>w. 0 \<le> w \<and> w \<le> 65535) ws"
  by (induction rule: written.induct) (auto simp: hextet_range)

lemma hextets_plain: "list_all is_hextet hs \<Longrightarrow> plain hs"
  using is_hextet_free by (auto simp: list_all_iff)

lemma dotted_not_Nil [simp]: "dotted a b c d \<noteq> []"
  by (simp add: dotted_def)

lemma written_plain: "written ps ws \<Longrightarrow> plain ps"
  by (induction rule: written.induct) (auto simp: is_hextet_free)

lemma literal_words: "ipv6_literal t ws \<Longrightarrow> length ws = 8 \<and> list_all (\<lambda>w. 0 \<le> w \<and> w \<le> 65535) ws"
  by (induction rule: ipv6_literal.induct)
    (auto simp: written_range hextet_range list_all_iff dest: written_range)

lemma written_lower: "written ps ws \<Longrightarrow> written (map to_lower ps) ws"
proof (induction rule: written.induct)
  case (written_word h ps ws)
  then show ?case using written.written_word [of "to_lower h" "map to_lower ps" ws] by (simp add: hextet_lower)
qed (auto intro: written.intros)

lemma literal_lower: "ipv6_literal t ws \<Longrightarrow> ipv6_literal (to_lower t) ws"
proof (induction rule: ipv6_literal.induct)
  case (literal_full ps ws)
  then show ?case by (simp add: to_lower_join ipv6_literal.literal_full written_lower)
next
  case (literal_short hs ps ws)
  have colons: "to_lower ''::'' = ''::''" by code_simp
  show ?case
    using ipv6_literal.literal_short [of "map to_lower hs" "map to_lower ps" ws] literal_short
    by (simp only: to_lower_append to_lower_join colons) (simp add: written_lower hextet_lower list_all_iff comp_def)
qed

lemma written_free: "written ps ws \<Longrightarrow> p \<in> set ps \<Longrightarrow> CHR ''%'' \<notin> set p"
  by (induction rule: written.induct) (auto simp: is_hextet_free)

lemma literal_no_zone: "ipv6_literal t ws \<Longrightarrow> CHR ''%'' \<notin> set t"
proof (induction rule: ipv6_literal.induct)
  case (literal_full ps ws)
  then show ?case using join_words_set [of ps] written_free by fastforce
next
  case (literal_short hs ps ws)
  have "CHR ''%'' \<notin> set (join_words hs)"
    using join_words_set [of hs] literal_short(1) is_hextet_free by (fastforce simp: list_all_iff)
  moreover have "CHR ''%'' \<notin> set (join_words ps)"
    using join_words_set [of ps] literal_short(2) written_free by fastforce
  ultimately show ?case by simp
qed

lemma literal_colon: "ipv6_literal t ws \<Longrightarrow> CHR '':'' \<in> set t"
proof (induction rule: ipv6_literal.induct)
  case (literal_full ps ws)
  have "length ws \<le> length ps + 1" if "written ps ws" for ps ws
    using that by (induction rule: written.induct) auto
  with literal_full have "1 < length ps" by fastforce
  then obtain p q qs where "ps = p # q # qs" by (metis One_nat_def Suc_lessE length_Suc_conv list.size(3) nat_neq_iff length_0_conv neq_Nil_conv)
  then show ?case by simp
qed simp

lemma split_char_set: "x \<in> set s \<Longrightarrow> x \<noteq> c \<Longrightarrow> \<exists>w \<in> set (split_char c s). x \<in> set w"
  by (induction c s rule: split_char.induct) (auto split: list.splits)

lemma colon_not_ipv4: "CHR '':'' \<in> set s \<Longrightarrow> \<not> is_ipv4 s"
proof
  assume colon: "CHR '':'' \<in> set s" and v4: "is_ipv4 s"
  have "CHR '':'' \<noteq> CHR ''.''" by simp
  then obtain w where w: "w \<in> set (split_char CHR ''.'' s)" "CHR '':'' \<in> set w"
    using split_char_set [OF colon] by blast
  have "list_all is_digit_char w" using v4 w(1) by (auto simp: is_ipv4_def Let_def list_all_iff is_v4_segment_def)
  then show False using w(2) not_digit(2) by (metis list_all_iff)
qed

text \<open>Lower-casing and cutting the zone leaves a literal of the same words.\<close>

lemma spells_normalized: "spells s ws \<Longrightarrow> ipv6_literal (hd (split_char CHR ''%'' (to_lower s))) ws"
proof -
  assume "spells s ws"
  then obtain t z where t: "ipv6_literal t ws" "s = t \<or> s = t @ ''%'' @ z" by (auto elim: spells.cases)
  have free: "CHR ''%'' \<notin> set (to_lower t)" by (rule literal_no_zone [OF literal_lower [OF t(1)]])
  have "to_lower ''%'' = ''%''" by code_simp
  moreover have "to_lower (t @ ''%'' @ z) = to_lower t @ to_lower ''%'' @ to_lower z" by (simp only: to_lower_append)
  ultimately have "to_lower s = to_lower t \<or> to_lower s = to_lower t @ CHR ''%'' # to_lower z"
    using t(2) by auto
  then show ?thesis using literal_lower [OF t(1)] free by (auto simp: split_char_plain split_char_step)
qed

section \<open>Reading the text forms\<close>

lemma after_last_colon_split: "u = [] \<or> last u = CHR '':'' \<Longrightarrow> CHR '':'' \<notin> set w \<Longrightarrow>
    after_last_colon (u @ w) = w \<and> upto_last_colon (u @ w) = u"
proof -
  assume u: "u = [] \<or> last u = CHR '':''" and w: "CHR '':'' \<notin> set w"
  then have "CHR '':'' \<notin> set (rev w)" by simp
  then have "takeWhile (\<lambda>c. c \<noteq> CHR '':'') (rev w @ rev u) = rev w @ takeWhile (\<lambda>c. c \<noteq> CHR '':'') (rev u)"
    "dropWhile (\<lambda>c. c \<noteq> CHR '':'') (rev w @ rev u) = dropWhile (\<lambda>c. c \<noteq> CHR '':'') (rev u)"
    by (auto intro: takeWhile_append2 dropWhile_append2)
  moreover have "takeWhile (\<lambda>c. c \<noteq> CHR '':'') (rev u) = []" "dropWhile (\<lambda>c. c \<noteq> CHR '':'') (rev u) = rev u"
    using u by (cases u rule: rev_cases, simp_all)+
  ultimately show ?thesis by (simp add: after_last_colon_def upto_last_colon_def)
qed

text \<open>The last part of a list of words is what the last colon separates, after whatever ends with a colon.\<close>

lemma last_part:
  assumes "u = [] \<or> last u = CHR '':''" "CHR '':'' \<notin> set w"
  shows "after_last_colon (u @ join_words (ws @ [w])) = w"
    "upto_last_colon (u @ join_words (ws @ [w])) @ v = u @ join_words (ws @ [v])"
proof -
  let ?u = "u @ concat (map (\<lambda>v. v @ '':'') ws)"
  have "?u = [] \<or> last ?u = CHR '':''" using assms(1) by (cases ws rule: rev_cases) auto
  from after_last_colon_split [OF this assms(2)]
  show "after_last_colon (u @ join_words (ws @ [w])) = w"
    "upto_last_colon (u @ join_words (ws @ [w])) @ v = u @ join_words (ws @ [v])"
    by (simp_all add: join_words_snoc)
qed

lemma after_last_colon_not_ipv4: "CHR ''.'' \<notin> set s \<Longrightarrow> \<not> is_ipv4 (after_last_colon s)"
proof -
  assume "CHR ''.'' \<notin> set s"
  then have "CHR ''.'' \<notin> set (after_last_colon s)"
    by (auto simp: after_last_colon_def dest: set_takeWhileD)
  then show ?thesis by (simp add: is_ipv4_def split_char_plain)
qed

lemma join_hextets_no_dot: "list_all is_hextet hs \<Longrightarrow> CHR ''.'' \<notin> set (join_words hs)"
  using join_words_set [of hs] is_hextet_free by (fastforce simp: list_all_iff)

lemma parse_hextets: "list_all is_hextet hs \<Longrightarrow> map parse_hex hs = map (Some \<circ> hextet_value) hs"
  by (simp add: list_all_iff parse_hextet)

lemma is_hextet_zero [simp]: "is_hextet ''0''"
  by code_simp

lemma word_options: "list_all (\<lambda>w. 0 \<le> w \<and> w \<le> 65535) ws \<Longrightarrow>
    list_all (\<lambda>w. case w of Some n \<Rightarrow> 0 \<le> n \<and> n \<le> 65535 | None \<Rightarrow> False) (map Some ws) \<and> map the (map Some ws) = ws"
  by (simp add: list_all_iff comp_def)

lemma zero_options: "list_all (case_option False (\<lambda>n. 0 \<le> n \<and> n \<le> 65535)) (replicate n (Some (0 :: int)))"
  by (simp add: list_all_iff)

lemma hextets_range: "list_all is_hextet hs \<Longrightarrow> list_all (\<lambda>w. 0 \<le> w \<and> w \<le> 65535) (map hextet_value hs)"
  using hextet_range by (auto simp: list_all_iff)

lemma ipv6_words_full:
  assumes "list_all is_hextet hs" "length hs = 8"
  shows "ipv6_words (join_words hs) = Some (map hextet_value hs)"
  using word_options [OF hextets_range [OF assms(1)]] assms
  by (simp add: ipv6_words_def after_last_colon_not_ipv4 join_hextets_no_dot split_double_join hextets_plain
      parse_side_join parse_hextets comp_def)

lemma ipv6_words_full_dotted:
  assumes "list_all is_hextet hs" "length hs = 6" "a < 256" "b < 256" "c < 256" "d < 256"
  shows "ipv6_words (join_words (hs @ [dotted a b c d]))
    = Some (map hextet_value hs @ [int a * 256 + int b, int c * 256 + int d])"
proof -
  have part: "after_last_colon (join_words (hs @ [dotted a b c d])) = dotted a b c d"
    "upto_last_colon (join_words (hs @ [dotted a b c d])) @ ''0'' = join_words (hs @ [''0''])"
    using last_part [of "[]" "dotted a b c d" hs] by simp_all
  have "list_all is_hextet (hs @ [''0''])" using assms(1) by simp
  then have halves: "split_double (join_words (hs @ [''0''])) = [join_words (hs @ [''0''])]"
    "parse_side (join_words (hs @ [''0''])) = map parse_hex hs @ [parse_hex ''0'']"
    by (simp_all add: split_double_join parse_side_join hextets_plain)
  show ?thesis
    using word_options [OF hextets_range [OF assms(1)]] assms(2-6)
    by (simp add: ipv6_words_def part halves is_ipv4_dotted split_dotted dec_number_show parse_hextets [OF assms(1)] comp_def)
qed

lemma ipv6_words_short:
  assumes "list_all is_hextet hs" "list_all is_hextet ks" "length hs + length ks \<le> 7"
  shows "ipv6_words (join_words hs @ ''::'' @ join_words ks)
    = Some (map hextet_value hs @ replicate (8 - (length hs + length ks)) 0 @ map hextet_value ks)"
proof -
  have "CHR ''.'' \<notin> set (join_words hs @ ''::'' @ join_words ks)"
    using assms(1,2) by (simp add: join_hextets_no_dot)
  note plain = after_last_colon_not_ipv4 [OF this]
  show ?thesis
    using word_options [OF hextets_range [OF assms(1)]] word_options [OF hextets_range [OF assms(2)]] assms(3)
    by (simp only: ipv6_words_def plain if_False split_double_join(2) [OF hextets_plain hextets_plain, OF assms(1,2)] Let_def)
      (simp add: zero_options parse_side_join hextets_plain assms(1,2) parse_hextets comp_def)
qed

lemma ipv6_words_short_dotted:
  assumes "list_all is_hextet hs" "list_all is_hextet ks" "length hs + length ks \<le> 5"
    "a < 256" "b < 256" "c < 256" "d < 256"
  shows "ipv6_words (join_words hs @ ''::'' @ join_words (ks @ [dotted a b c d]))
    = Some (map hextet_value hs @ replicate (6 - (length hs + length ks)) 0 @ map hextet_value ks
        @ [int a * 256 + int b, int c * 256 + int d])"
proof -
  have part: "after_last_colon (join_words hs @ ''::'' @ join_words (ks @ [dotted a b c d])) = dotted a b c d"
    "upto_last_colon (join_words hs @ ''::'' @ join_words (ks @ [dotted a b c d])) @ ''0''
      = join_words hs @ ''::'' @ join_words (ks @ [''0''])"
    using last_part [of "join_words hs @ ''::''" "dotted a b c d" ks] by simp_all
  have zero: "list_all is_hextet (ks @ [''0''])" using assms(2) by simp
  have halves: "parse_side (join_words (ks @ [''0''])) = map parse_hex ks @ [parse_hex ''0'']"
    using zero by (simp add: parse_side_join hextets_plain)
  show ?thesis
    using word_options [OF hextets_range [OF assms(1)]] word_options [OF hextets_range [OF assms(2)]] assms(3-7)
    by (simp only: ipv6_words_def part is_ipv4_dotted if_True
        split_double_join(2) [OF hextets_plain hextets_plain, OF assms(1) zero] Let_def)
      (simp add: zero_options parse_side_join hextets_plain assms(1) halves parse_hextets [OF assms(1)] parse_hextets [OF assms(2)]
        split_dotted dec_number_show comp_def)
qed

text \<open>The parser reads the words that a literal writes.\<close>

lemma literal_ipv6_words: "ipv6_literal t ws \<Longrightarrow> ipv6_words t = Some ws"
proof (induction rule: ipv6_literal.induct)
  case (literal_full ps ws)
  from literal_full(1) show ?case
    using literal_full(2) by (cases rule: written_cases) (simp_all add: ipv6_words_full ipv6_words_full_dotted)
next
  case (literal_short hs ps ws)
  from literal_short(2) show ?case
    using literal_short(1,3)
    by (cases rule: written_cases) (simp_all add: ipv6_words_short [simplified] ipv6_words_short_dotted [simplified])
qed

section \<open>Every literal has a text form\<close>

lemma show_dec_number:
  "list_all is_digit_char w \<Longrightarrow> w \<noteq> [] \<Longrightarrow> length w = 1 \<or> hd w \<noteq> CHR ''0'' \<Longrightarrow>
     0 \<le> dec_number w \<and> show_nat (nat (dec_number w)) = w"
proof (induction w rule: rev_induct)
  case Nil
  then show ?case by simp
next
  case (snoc c w)
  have digit: "0 \<le> digit_value c" "digit_value c < 10" "char_of (48 + nat (digit_value c)) = c"
    using snoc.prems(1) by (auto simp: digit_value_def is_digit_char_def code_def nat_diff_distrib')
  show ?case
  proof (cases "w = []")
    case True
    then show ?thesis using digit by (simp add: dec_number_def show_nat_small)
  next
    case False
    with snoc.prems have head: "hd w \<noteq> CHR ''0''" by simp
    with snoc False have w: "0 \<le> dec_number w" "show_nat (nat (dec_number w)) = w" by simp_all
    have "show_nat 0 = ''0''" by code_simp
    with w head have "dec_number w \<noteq> 0" by (metis list.sel(1) nat_0)
    let ?n = "nat (10 * dec_number w + digit_value c)"
    have "?n = 10 * nat (dec_number w) + nat (digit_value c)" "nat (digit_value c) < 10" "0 < nat (dec_number w)"
      using w(1) \<open>dec_number w \<noteq> 0\<close> digit(1,2) by linarith+
    then have n: "10 \<le> ?n" "?n div 10 = nat (dec_number w)" "?n mod 10 = nat (digit_value c)"
      by simp_all
    show ?thesis using show_nat_step [OF n(1)] w digit by (simp add: n dec_number_snoc)
  qed
qed

lemma v4_segment_show: "is_v4_segment w \<Longrightarrow> \<exists>n < 256. w = show_nat n"
  using show_dec_number [of w] by (intro exI [of _ "nat (dec_number w)"]) (auto simp: is_v4_segment_def)

lemma split_char_parts: "split_char c s = w # ws \<Longrightarrow> s = w @ concat (map (Cons c) ws)"
proof (induction c s arbitrary: w ws rule: split_char.induct)
  case (2 c x xs)
  obtain v vs where parts: "split_char c xs = v # vs" using split_char_not_Nil by (metis list.exhaust)
  with 2 have xs: "xs = v @ concat (map (Cons c) vs)" by blast
  show ?case using 2(3) by (subst xs) (auto simp: parts split: if_splits)
qed simp

lemma split_double_append: "split_double s = w # ws \<Longrightarrow> s = w @ concat (map (\<lambda>v. CHR '':'' # CHR '':'' # v) ws)"
proof (induction s arbitrary: w ws rule: split_double.induct)
  case (3 x y xs)
  obtain v vs u us where parts: "split_double xs = v # vs" "split_double (y # xs) = u # us"
    using split_double_not_Nil by (metis list.exhaust)
  show ?case
  proof (cases "x = CHR '':'' \<and> y = CHR '':''")
    case True
    have "xs = v @ concat (map (\<lambda>v. CHR '':'' # CHR '':'' # v) vs)" using 3(1) True parts(1) by blast
    moreover have "w = []" "ws = v # vs" using 3(3) True parts(1) by simp_all
    ultimately show ?thesis using True by simp
  next
    case False
    have "y # xs = u @ concat (map (\<lambda>v. CHR '':'' # CHR '':'' # v) us)" using 3(2) False parts(2) by blast
    moreover have "w = x # u" "ws = us" using 3(3) False parts(2) by (simp_all only: split_double.simps if_False list.case list.inject)
    ultimately show ?thesis by simp
  qed
qed simp_all

lemma is_ipv4_iff_dotted: "is_ipv4 q \<longleftrightarrow> (\<exists>a b c d. q = dotted a b c d \<and> a < 256 \<and> b < 256 \<and> c < 256 \<and> d < 256)"
proof
  assume v4: "is_ipv4 q"
  then obtain u v w x where parts: "split_char CHR ''.'' q = [u, v, w, x]"
    by (auto simp: is_ipv4_def Let_def numeral_eq_Suc length_Suc_conv)
  with v4 have "is_v4_segment u" "is_v4_segment v" "is_v4_segment w" "is_v4_segment x" by (simp_all add: is_ipv4_def)
  then obtain a b c d where "u = show_nat a" "v = show_nat b" "w = show_nat c" "x = show_nat d"
    "a < 256" "b < 256" "c < 256" "d < 256"
    by (metis v4_segment_show)
  with split_char_parts [OF parts] show "\<exists>a b c d. q = dotted a b c d \<and> a < 256 \<and> b < 256 \<and> c < 256 \<and> d < 256"
    by (auto simp: dotted_def)
qed (auto simp: is_ipv4_dotted)

lemma join_words_concat: "join_words (w # ws) = w @ concat (map (Cons CHR '':'') ws)"
  by (induction ws arbitrary: w) (simp_all add: join_words_Cons)

lemma join_split_words: "join_words (split_char CHR '':'' s) = s"
proof -
  obtain w ws where "split_char CHR '':'' s = w # ws" using split_char_not_Nil by (metis list.exhaust)
  with split_char_parts [OF this] show ?thesis by (simp add: join_words_concat)
qed

lemma side_words_written:
  "side_words tail_ok s = Some n \<Longrightarrow>
     \<exists>ps ws. s = join_words ps \<and> written ps ws \<and> length ws = n \<and> (tail_ok \<or> list_all is_hextet ps \<and> length ps = n)"
proof -
  let ?parts = "split_char CHR '':'' s"
  assume side: "side_words tail_ok s = Some n"
  consider (empty) "s = []" "n = 0" | (words) "list_all is_hextet ?parts" "n = length ?parts"
    | (dotted) "tail_ok" "list_all is_hextet (butlast ?parts)" "is_ipv4 (last ?parts)" "n = length ?parts + 1"
    using side by (auto simp: side_words_def Let_def split: if_splits)
  then show ?thesis
  proof cases
    case empty
    then show ?thesis using written_none by (intro exI [of _ "[]"]) simp
  next
    case words
    then show ?thesis using written_words [OF words(1)] join_split_words [of s] by (metis length_map)
  next
    case dotted
    then obtain a b c d where q: "last ?parts = dotted a b c d" "a < 256" "b < 256" "c < 256" "d < 256"
      by (auto simp: is_ipv4_iff_dotted)
    have parts: "?parts = butlast ?parts @ [dotted a b c d]" by (metis append_butlast_last_id q(1) split_char_not_Nil)
    have "written ?parts (map hextet_value (butlast ?parts) @ [int a * 256 + int b, int c * 256 + int d])"
      using written_words_dotted [OF dotted(2) q(2-5)] parts by simp
    moreover have "length (map hextet_value (butlast ?parts) @ [int a * 256 + int b, int c * 256 + int d]) = n"
      using dotted(4) by (subst (asm) parts) simp
    ultimately show ?thesis using dotted(1) join_split_words [of s] by metis
  qed
qed

lemma written_side_words:
  assumes "written ps ws"
  shows "side_words True (join_words ps) = Some (length ws)"
proof (cases "ps = []")
  case True
  with assms show ?thesis by (auto simp: side_words_def elim: written.cases)
next
  case False
  have parts: "split_char CHR '':'' (join_words ps) = ps" "join_words ps \<noteq> []"
    using split_join_words [OF written_plain [OF assms] False] join_words_empty [OF written_plain [OF assms]] False by simp_all
  have no_hextet: "\<not> is_hextet (dotted a b c d)" for a b c d
    using is_hextet_free [of "dotted a b c d"] by (auto simp: dotted_def)
  have expand: "side_words True (join_words ps) = (if list_all is_hextet ps then Some (length ps)
      else if list_all is_hextet (butlast ps) \<and> is_ipv4 (last ps) then Some (length ps + 1) else None)"
    by (simp add: side_words_def parts)
  from assms show ?thesis
    unfolding expand by (cases rule: written_cases) (simp_all add: no_hextet is_ipv4_dotted)
qed

lemma hextets_side_words: "list_all is_hextet hs \<Longrightarrow> side_words False (join_words hs) = Some (length hs)"
  by (cases "hs = []") (auto simp: side_words_def join_words_empty hextets_plain split_join_words)

text \<open>The text forms are exactly what \<open>net.isIP\<close> accepts as IPv6 (without a zone, which the code cuts off first).\<close>

lemma is_ipv6_iff_literal: "is_ipv6 t \<longleftrightarrow> (\<exists>ws. ipv6_literal t ws)"
proof
  assume v6: "is_ipv6 t"
  consider (one) a where "split_double t = [a]" "side_words True a = Some 8"
    | (two) a b m n where "split_double t = [a, b]" "side_words False a = Some m" "side_words True b = Some n" "m + n \<le> 7"
    using v6 by (auto simp: is_ipv6_def split: list.splits option.splits)
  then show "\<exists>ws. ipv6_literal t ws"
  proof cases
    case one
    then show ?thesis
      using side_words_written [OF one(2)] split_double_append [OF one(1)] literal_full by fastforce
  next
    case two
    obtain hs where h: "a = join_words hs" "list_all is_hextet hs" "length hs = m"
      using side_words_written [OF two(2)] by auto
    obtain ps ws where p: "b = join_words ps" "written ps ws" "length ws = n"
      using side_words_written [OF two(3)] by auto
    show ?thesis
      using literal_short [OF h(2) p(2)] two(4) h p split_double_append [OF two(1)] by auto
  qed
next
  assume "\<exists>ws. ipv6_literal t ws"
  then obtain ws where "ipv6_literal t ws" by blast
  then show "is_ipv6 t"
  proof (induction rule: ipv6_literal.induct)
    case (literal_full ps ws)
    then show ?case by (simp add: is_ipv6_def split_double_join written_plain written_side_words)
  next
    case (literal_short hs ps ws)
    then show ?case
      using split_double_join(2) [OF hextets_plain written_plain, of hs ps ws]
      by (simp add: is_ipv6_def written_side_words hextets_side_words)
  qed
qed

end
