(* ===== verification/AddressTheorems.thy ===== *)
theory AddressTheorems
  imports AddressSpellings
begin

text \<open>
  Which addresses the gateway refuses to connect to: every private IPv4 range, and the IPv6 networks that
  are private or embed or tunnel IPv4, in every spelling; so what address an upstream request may use.
\<close>

section \<open>IPv4\<close>

lemma normalized_dotted: "hd (split_char CHR ''%'' (to_lower (dotted a b c d))) = dotted a b c d"
  by (simp add: split_char_plain)

text \<open>
  The dotted IPv4 addresses refused are exactly these ranges: this network, private,
  loopback, link-local, carrier-grade NAT, protocol assignments, benchmarking, documentation, multicast and reserved.
\<close>

theorem ipv4_unsafe_ranges:
  assumes "a < 256" "b < 256" "c < 256" "d < 256"
  shows "is_unsafe_address (dotted a b c d) \<longleftrightarrow>
    a = 0 \<or> a = 10 \<or> a = 127 \<or> (a = 169 \<and> b = 254) \<or> (a = 172 \<and> 16 \<le> b \<and> b \<le> 31)
    \<or> (a = 192 \<and> (b = 168 \<or> b = 0)) \<or> (a = 100 \<and> 64 \<le> b \<and> b \<le> 127)
    \<or> (a = 198 \<and> (b = 18 \<or> b = 19 \<or> b = 51)) \<or> (a = 203 \<and> b = 0 \<and> c = 113) \<or> 224 \<le> a"
  using assms
  by (simp add: is_unsafe_address_def normalized_dotted is_ipv4_dotted Let_def private_ipv4_def split_dotted dec_number_show del: to_lower_dotted)
    auto

theorem ipv4_unsafe_ranges_witness: "is_unsafe_address (dotted 169 254 169 254) \<and> \<not> is_unsafe_address (dotted 8 8 8 8)"
  using ipv4_unsafe_ranges [of 169 254 169 254] ipv4_unsafe_ranges [of 8 8 8 8] by simp

section \<open>IPv6 networks\<close>

text \<open>The 128-bit number of eight words, and the addresses that share the first \<open>n\<close> bits of a prefix.\<close>

definition address_number :: "int list \<Rightarrow> int" where
  "address_number ws = foldl (\<lambda>n w. 65536 * n + w) 0 ws"

definition in_network :: "int list \<Rightarrow> int list \<times> nat \<Rightarrow> bool" where
  "in_network ws net = (case net of (ps, n) \<Rightarrow>
     address_number ws div 2 ^ (128 - n) = address_number ps div 2 ^ (128 - n))"

text \<open>
  The networks refused. Those that embed or tunnel IPv4: IPv4-compatible (with \<open>::\<close> and \<open>::1\<close>), IPv4-mapped,
  SIIT, both NAT64 prefixes, 6to4 and Teredo. Then unique local, link-local, multicast, documentation,
  benchmarking and discard.
\<close>

definition refused_networks :: "(int list \<times> nat) list" where
  "refused_networks =
    [([0, 0, 0, 0, 0, 0, 0, 0], 96), ([0, 0, 0, 0, 0, 0xffff, 0, 0], 96), ([0, 0, 0, 0, 0xffff, 0, 0, 0], 96),
     ([0x64, 0xff9b, 0, 0, 0, 0, 0, 0], 96), ([0x64, 0xff9b, 1, 0, 0, 0, 0, 0], 48),
     ([0x2002, 0, 0, 0, 0, 0, 0, 0], 16), ([0x2001, 0, 0, 0, 0, 0, 0, 0], 32),
     ([0xfc00, 0, 0, 0, 0, 0, 0, 0], 7), ([0xfe80, 0, 0, 0, 0, 0, 0, 0], 10), ([0xff00, 0, 0, 0, 0, 0, 0, 0], 8),
     ([0x2001, 0xdb8, 0, 0, 0, 0, 0, 0], 32), ([0x2001, 2, 0, 0, 0, 0, 0, 0], 32), ([0x100, 0, 0, 0, 0, 0, 0, 0], 16)]"

abbreviation words16 :: "int list \<Rightarrow> bool" where
  "words16 ws \<equiv> list_all (\<lambda>w. 0 \<le> w \<and> w \<le> 65535) ws"

lemma address_number_snoc: "address_number (ws @ [w]) = 65536 * address_number ws + w"
  by (simp add: address_number_def)

lemma address_number_take:
  "words16 ws \<Longrightarrow> k \<le> length ws \<Longrightarrow> address_number ws div 65536 ^ (length ws - k) = address_number (take k ws)"
proof (induction ws rule: rev_induct)
  case (snoc w ws)
  show ?case
  proof (cases "k = length ws + 1")
    case False
    with snoc.prems(2) have k: "k \<le> length ws" by simp
    have "(65536 * address_number ws + w) div 65536 = address_number ws" using snoc.prems(1) by simp
    then have "address_number (ws @ [w]) div 65536 ^ Suc (length ws - k) = address_number ws div 65536 ^ (length ws - k)"
      by (simp add: address_number_snoc zdiv_zmult2_eq)
    with k snoc show ?thesis by (simp add: Suc_diff_le)
  qed simp
qed simp

lemma address_number_inject:
  "words16 vs \<Longrightarrow> words16 ws \<Longrightarrow> length vs = length ws \<Longrightarrow> address_number vs = address_number ws \<longleftrightarrow> vs = ws"
proof (induction vs arbitrary: ws rule: rev_induct)
  case (snoc v vs)
  then obtain u us where ws: "ws = us @ [u]" by (cases ws rule: rev_cases) auto
  have "0 \<le> v" "v \<le> 65535" "0 \<le> u" "u \<le> 65535" using snoc.prems(1,2) by (simp_all add: ws)
  then have "(65536 * m + v) div 65536 = m" "(65536 * m + u) div 65536 = m" for m by simp_all
  then have step: "65536 * m + v = 65536 * n + u \<longleftrightarrow> m = n \<and> v = u" for m n by (metis add_left_cancel)
  have "address_number vs = address_number us \<longleftrightarrow> vs = us"
    using snoc.prems by (intro snoc.IH) (simp_all add: ws)
  then show ?case by (simp only: ws address_number_snoc step append1_eq_conv)
qed simp

lemma in_network_words:
  assumes "words16 ws" "words16 ps" "length ws = 8" "length ps = 8" "k \<le> 8"
  shows "in_network ws (ps, 16 * k) \<longleftrightarrow> take k ws = take k ps"
proof -
  have "(2 :: int) ^ (128 - 16 * k) = 65536 ^ (8 - k)" using power_mult [of "2 :: int" 16 "8 - k"] by (simp add: diff_mult_distrib2)
  moreover have "words16 (take k ws)" "words16 (take k ps)" using assms(1,2) by (auto simp: list_all_iff dest: in_set_takeD)
  ultimately show ?thesis
    using address_number_take [OF assms(1), of k] address_number_take [OF assms(2), of k] assms(3-5)
      address_number_inject [of "take k ws" "take k ps"]
    by (simp add: in_network_def)
qed

lemma in_network_bits:
  assumes "words16 ws" "words16 ps" "length ws = 8" "length ps = 8" "n < 16"
  shows "in_network ws (ps, n) \<longleftrightarrow> ws ! 0 div 2 ^ (16 - n) = ps ! 0 div 2 ^ (16 - n)"
proof -
  have "address_number vs div 2 ^ (128 - n) = vs ! 0 div 2 ^ (16 - n)" if "words16 vs" "length vs = 8" for vs
  proof -
    have "128 - n = 112 + (16 - n)" using assms(5) by simp
    then have "address_number vs div 2 ^ (128 - n) = address_number vs div 65536 ^ 7 div 2 ^ (16 - n)"
      by (simp only: power_add) (simp add: zdiv_zmult2_eq)
    also have "address_number vs div 65536 ^ 7 = vs ! 0"
      using address_number_take [OF that(1), of 1] that(2) by (cases vs) (simp_all add: address_number_def)
    finally show ?thesis .
  qed
  then show ?thesis using assms by (simp add: in_network_def)
qed

section \<open>The masks\<close>

lemma word_eq: "0 \<le> w \<Longrightarrow> w \<le> 65535 \<Longrightarrow> 0 \<le> k \<Longrightarrow> k \<le> 65535 \<Longrightarrow>
    (word_of_int w :: 16 word) = word_of_int k \<longleftrightarrow> w = k"
  by (simp add: word_of_int_eq_iff take_bit_int_eq_self)

lemma drop_word: "0 \<le> w \<Longrightarrow> w \<le> 65535 \<Longrightarrow> drop_bit n (word_of_int w :: 16 word) = word_of_int (w div 2 ^ n)"
proof -
  assume "0 \<le> w" "w \<le> 65535"
  then have "take_bit 16 w = w" by (simp add: take_bit_int_eq_self)
  then have "bit w m \<Longrightarrow> m < 16" for m by (metis bit_take_bit_iff)
  then show ?thesis
    by (intro bit_word_eqI) (auto simp: bit_simps simp flip: drop_bit_eq_div)
qed

lemma mask_word:
  assumes "0 \<le> w" "w \<le> 65535" "n \<le> 16" "0 \<le> k" "k < 2 ^ (16 - n)"
  shows "and (word_of_int w :: 16 word) (push_bit n (- 1)) = push_bit n (word_of_int k) \<longleftrightarrow> w div 2 ^ n = k"
proof -
  let ?w = "word_of_int w :: 16 word" and ?k = "word_of_int k :: 16 word"
  have "(2 :: int) ^ (16 - n) \<le> 2 ^ 16" by (rule power_increasing) simp_all
  then have bound: "k \<le> 65535" using assms(5) by simp
  have "take_bit (16 - n) k = k" using assms(4,5) by (simp add: take_bit_int_eq_self)
  then have low: "bit k m \<Longrightarrow> n + m < 16" for m by (metis add.commute bit_take_bit_iff less_diff_conv)
  have mask: "and ?w (push_bit n (- 1)) = push_bit n (drop_bit n ?w)"
    by (rule bit_word_eqI) (auto simp: bit_simps)
  have cancel: "drop_bit n (push_bit n (drop_bit n ?w)) = drop_bit n ?w"
    by (rule bit_word_eqI) (auto simp: bit_simps)
  have fits: "drop_bit n (push_bit n ?k) = ?k"
    using low by (intro bit_word_eqI) (auto simp: bit_simps)
  have "push_bit n (drop_bit n ?w) = push_bit n ?k \<longleftrightarrow> drop_bit n ?w = ?k"
    using cancel fits by metis
  moreover have "0 \<le> w div 2 ^ n" "w div 2 ^ n \<le> 65535"
    using assms(1,2) zdiv_mono2 [of w 1 "2 ^ n"] by (simp_all add: pos_imp_zdiv_nonneg_iff)
  ultimately show ?thesis
    using assms bound by (simp only: mask drop_word word_eq)
qed

lemma unsafe_words_networks:
  assumes "words16 ws" "length ws = 8"
  shows "unsafe_words ws \<longleftrightarrow> list_ex (in_network ws) refused_networks"
proof -
  obtain a b c d e f g h where ws: "ws = [a, b, c, d, e, f, g, h]"
    using assms(2) by (auto simp: numeral_eq_Suc length_Suc_conv)
  note net = in_network_words [OF assms(1) _ assms(2)] 
  have nets:
    "in_network ws ([0, 0, 0, 0, 0, 0, 0, 0], 96) \<longleftrightarrow> a = 0 \<and> b = 0 \<and> c = 0 \<and> d = 0 \<and> e = 0 \<and> f = 0"
    "in_network ws ([0, 0, 0, 0, 0, 0xffff, 0, 0], 96) \<longleftrightarrow> a = 0 \<and> b = 0 \<and> c = 0 \<and> d = 0 \<and> e = 0 \<and> f = 0xffff"
    "in_network ws ([0, 0, 0, 0, 0xffff, 0, 0, 0], 96) \<longleftrightarrow> a = 0 \<and> b = 0 \<and> c = 0 \<and> d = 0 \<and> e = 0xffff \<and> f = 0"
    "in_network ws ([0x64, 0xff9b, 0, 0, 0, 0, 0, 0], 96) \<longleftrightarrow> a = 0x64 \<and> b = 0xff9b \<and> c = 0 \<and> d = 0 \<and> e = 0 \<and> f = 0"
    using net [of _ 6] by (simp_all add: ws)
  have nets48: "in_network ws ([0x64, 0xff9b, 1, 0, 0, 0, 0, 0], 48) \<longleftrightarrow> a = 0x64 \<and> b = 0xff9b \<and> c = 1"
    using net [of _ 3] by (simp_all add: ws)
  have nets32: 
    "in_network ws ([0x2001, 0, 0, 0, 0, 0, 0, 0], 32) \<longleftrightarrow> a = 0x2001 \<and> b = 0"
    "in_network ws ([0x2001, 0xdb8, 0, 0, 0, 0, 0, 0], 32) \<longleftrightarrow> a = 0x2001 \<and> b = 0xdb8"
    "in_network ws ([0x2001, 2, 0, 0, 0, 0, 0, 0], 32) \<longleftrightarrow> a = 0x2001 \<and> b = 2"
    using net [of _ 2] by (simp_all add: ws)
  have nets16:
    "in_network ws ([0x2002, 0, 0, 0, 0, 0, 0, 0], 16) \<longleftrightarrow> a = 0x2002"
    "in_network ws ([0x100, 0, 0, 0, 0, 0, 0, 0], 16) \<longleftrightarrow> a = 0x100"
    using net [of _ 1] by (simp_all add: ws)
  have bits:
    "in_network ws ([0xfc00, 0, 0, 0, 0, 0, 0, 0], 7) \<longleftrightarrow> a div 2 ^ 9 = 126"
    "in_network ws ([0xfe80, 0, 0, 0, 0, 0, 0, 0], 10) \<longleftrightarrow> a div 2 ^ 6 = 1018"
    "in_network ws ([0xff00, 0, 0, 0, 0, 0, 0, 0], 8) \<longleftrightarrow> a div 2 ^ 8 = 255"
    using in_network_bits [OF assms(1) _ assms(2)] by (simp_all add: ws)
  have range: "0 \<le> a" "a \<le> 65535" "0 \<le> b" "b \<le> 65535" "0 \<le> c" "c \<le> 65535" "0 \<le> d" "d \<le> 65535"
    "0 \<le> e" "e \<le> 65535" "0 \<le> f" "f \<le> 65535" using assms(1) by (simp_all add: ws)
  have eqs: "word_of_int w = (0 :: 16 word) \<longleftrightarrow> w = 0" "word_of_int w = (1 :: 16 word) \<longleftrightarrow> w = 1"
    "word_of_int w = (2 :: 16 word) \<longleftrightarrow> w = 2" "word_of_int w = (0x64 :: 16 word) \<longleftrightarrow> w = 0x64"
    "word_of_int w = (0x100 :: 16 word) \<longleftrightarrow> w = 0x100" "word_of_int w = (0xdb8 :: 16 word) \<longleftrightarrow> w = 0xdb8"
    "word_of_int w = (0x2001 :: 16 word) \<longleftrightarrow> w = 0x2001" "word_of_int w = (0x2002 :: 16 word) \<longleftrightarrow> w = 0x2002"
    "word_of_int w = (0xff9b :: 16 word) \<longleftrightarrow> w = 0xff9b" "word_of_int w = (0xffff :: 16 word) \<longleftrightarrow> w = 0xffff"
    if "0 \<le> w" "w \<le> 65535" for w
    using that word_eq [of w 0] word_eq [of w 1] word_eq [of w 2] word_eq [of w "0x64"] word_eq [of w "0x100"]
      word_eq [of w "0xdb8"] word_eq [of w "0x2001"] word_eq [of w "0x2002"] word_eq [of w "0xff9b"] word_eq [of w "0xffff"]
    by simp_all
  have literals: "push_bit 9 (- 1) = (0xfe00 :: 16 word)" "push_bit 9 (word_of_int 126) = (0xfc00 :: 16 word)"
    "push_bit 6 (- 1) = (0xffc0 :: 16 word)" "push_bit 6 (word_of_int 1018) = (0xfe80 :: 16 word)"
    "push_bit 8 (- 1) = (0xff00 :: 16 word)" "push_bit 8 (word_of_int 255) = (0xff00 :: 16 word)"
    by (simp_all add: push_bit_eq_mult)
  have masks: "and (word_of_int a) 0xfe00 = (0xfc00 :: 16 word) \<longleftrightarrow> a div 2 ^ 9 = 126"
    "and (word_of_int a) 0xffc0 = (0xfe80 :: 16 word) \<longleftrightarrow> a div 2 ^ 6 = 1018"
    "and (word_of_int a) 0xff00 = (0xff00 :: 16 word) \<longleftrightarrow> a div 2 ^ 8 = 255"
    using mask_word [OF range(1,2), of 9 126] mask_word [OF range(1,2), of 6 1018] mask_word [OF range(1,2), of 8 255]
    unfolding literals by simp_all
  show ?thesis
    unfolding refused_networks_def list_ex_Nil_iff list_ex_Cons_iff nets nets48 nets32 nets16 bits
    by (simp add: unsafe_words_def ws eqs range masks, simp only: conj_disj_distribL conj_disj_distribR conj_assoc disj_ac)
qed

section \<open>IPv6\<close>

text \<open>
  C8: An IPv6 literal, in any spelling, is refused exactly when its address lies in one of the refused
  networks, among them every prefix that embeds or tunnels IPv4. The spelling plays no part: compressed or
  expanded, in either letter case, with leading zeros, with a dotted tail or with a zone, what counts is the eight words it writes.
\<close>

theorem ipv6_refused_exactly:
  assumes "spells s ws"
  shows "is_unsafe_address s \<longleftrightarrow> list_ex (in_network ws) refused_networks"
proof -
  let ?t = "hd (split_char CHR ''%'' (to_lower s))"
  have literal: "ipv6_literal ?t ws" by (rule spells_normalized [OF assms])
  then have "\<not> is_ipv4 ?t" "is_ipv6 ?t" "ipv6_words ?t = Some ws"
    using colon_not_ipv4 literal_colon is_ipv6_iff_literal literal_ipv6_words by blast+
  then show ?thesis
    using literal_words [OF literal] by (simp add: is_unsafe_address_def Let_def unsafe_words_networks)
qed

text \<open>The metadata address in a mapped hexadecimal form with a zone, upper-case 6to4 and Teredo are refused; a public address is not.\<close>

lemma sample_spellings:
  "spells ''::FFFF:a9fe:A9FE%eth0'' [0, 0, 0, 0, 0, 0xffff, 0xa9fe, 0xa9fe]"
  "spells ''2002:A9FE:a9fe::'' [0x2002, 0xa9fe, 0xa9fe, 0, 0, 0, 0, 0]"
  "spells ''2001:0:0000:0:0::127.0.0.1'' [0x2001, 0, 0, 0, 0, 0, 0x7f00, 1]"
  "spells ''2606:4700:4700::1111'' [0x2606, 0x4700, 0x4700, 0, 0, 0, 0, 0x1111]"
proof -
  have hextets: "is_hextet ''FFFF''" "is_hextet ''a9fe''" "is_hextet ''A9FE''" "is_hextet ''2002''" "is_hextet ''2001''"
    "is_hextet ''0000''" "is_hextet ''2606''" "is_hextet ''4700''" "is_hextet ''1111''"
    by code_simp+
  have vals: "hextet_value ''FFFF'' = 0xffff" "hextet_value ''a9fe'' = 0xa9fe" "hextet_value ''A9FE'' = 0xa9fe"
    "hextet_value ''2002'' = 0x2002" "hextet_value ''2001'' = 0x2001" "hextet_value ''0'' = 0" "hextet_value ''0000'' = 0"
    "hextet_value ''2606'' = 0x2606" "hextet_value ''4700'' = 0x4700" "hextet_value ''1111'' = 0x1111"
    by code_simp+
  have local_host: "dotted 127 0 0 1 = ''127.0.0.1''" by code_simp
  have tails: "written [''FFFF'', ''a9fe'', ''A9FE''] [0xffff, 0xa9fe, 0xa9fe]" "written [''127.0.0.1''] [0x7f00, 1]"
    "written [''1111''] [0x1111]"
    using written_words [of "[''FFFF'', ''a9fe'', ''A9FE'']"] written_words [of "[''1111'']"]
      written_dotted [of 127 0 0 1, unfolded local_host]
    by (simp_all add: hextets vals)
  note written = hextets vals numeral_eq_Suc
  show "spells ''::FFFF:a9fe:A9FE%eth0'' [0, 0, 0, 0, 0, 0xffff, 0xa9fe, 0xa9fe]"
    using spells_zone [OF literal_short [of "[]", OF _ tails(1)], of "''eth0''"] by (simp add: written)
  show "spells ''2002:A9FE:a9fe::'' [0x2002, 0xa9fe, 0xa9fe, 0, 0, 0, 0, 0]"
    using spells_plain [OF literal_short [of "[''2002'', ''A9FE'', ''a9fe'']", OF _ written_none]] by (simp add: written)
  show "spells ''2001:0:0000:0:0::127.0.0.1'' [0x2001, 0, 0, 0, 0, 0, 0x7f00, 1]"
    using spells_plain [OF literal_short [of "[''2001'', ''0'', ''0000'', ''0'', ''0'']", OF _ tails(2)]] by (simp add: written)
  show "spells ''2606:4700:4700::1111'' [0x2606, 0x4700, 0x4700, 0, 0, 0, 0, 0x1111]"
    using spells_plain [OF literal_short [of "[''2606'', ''4700'', ''4700'']", OF _ tails(3)]] by (simp add: written)
qed

theorem ipv6_refused_exactly_witness:
  "is_unsafe_address ''::FFFF:a9fe:A9FE%eth0'' \<and> is_unsafe_address ''2002:A9FE:a9fe::''
    \<and> is_unsafe_address ''2001:0:0000:0:0::127.0.0.1'' \<and> \<not> is_unsafe_address ''2606:4700:4700::1111''"
  unfolding ipv6_refused_exactly [OF sample_spellings(1)] ipv6_refused_exactly [OF sample_spellings(2)]
    ipv6_refused_exactly [OF sample_spellings(3)] ipv6_refused_exactly [OF sample_spellings(4)]
  by (simp add: refused_networks_def in_network_def address_number_def)

text \<open>Nothing else is accepted: an address that is not refused is a public dotted IPv4 address, or an IPv6 literal outside those networks.\<close>

lemma accepted_address_form:
  assumes "\<not> is_unsafe_address s"
  shows "(\<exists>a b c d. hd (split_char CHR ''%'' (to_lower s)) = dotted a b c d \<and> \<not> private_ipv4 (dotted a b c d))
    \<or> (\<exists>ws. ipv6_literal (hd (split_char CHR ''%'' (to_lower s))) ws \<and> \<not> list_ex (in_network ws) refused_networks)"
proof -
  let ?t = "hd (split_char CHR ''%'' (to_lower s))"
  consider (v4) "is_ipv4 ?t" "\<not> private_ipv4 ?t" | (v6) ws where "ipv6_literal ?t ws" "\<not> unsafe_words ws"
    using assms literal_ipv6_words by (auto simp: is_unsafe_address_def Let_def is_ipv6_iff_literal split: if_splits)
  then show ?thesis
  proof cases
    case v4
    then show ?thesis by (auto simp: is_ipv4_iff_dotted)
  next
    case v6
    then show ?thesis using literal_words unsafe_words_networks by blast
  qed
qed

section \<open>Upstream connections\<close>

definition sample_lookup :: "string \<Rightarrow> (string \<times> int) list" where
  "sample_lookup host = [(dotted 10 0 0 1, 4), (dotted 8 8 8 8, 4), (dotted 9 9 9 9, 4)]"

text \<open>
  A production profile connects only to a safe address: the literal host itself, or the first
  of the resolver's answers that is not refused, with an IPv4 or IPv6 family.
\<close>

theorem resolved_address_safe:
  assumes "resolve_address lookup False hostname = Inr (addr, family)"
  shows "\<not> is_unsafe_address addr \<and> family \<in> {4, 6}
    \<and> (if ip_family (upstream_host hostname) = 0
        then find (\<lambda>p. \<not> is_unsafe_address (fst p)) (lookup (upstream_host hostname)) = Some (addr, family)
        else addr = upstream_host hostname \<and> family = ip_family addr)"
proof (cases "ip_family (upstream_host hostname) = 0")
  case True
  then have found: "find (\<lambda>p. \<not> is_unsafe_address (fst p)) (lookup (upstream_host hostname)) = Some (addr, family)"
    and fam: "family = 4 \<or> family = 6"
    using assms by (auto simp: resolve_address_def Let_def split: if_splits option.splits)
  have "\<not> is_unsafe_address (fst (addr, family))"
    using found unfolding find_Some_iff by metis
  with found fam True show ?thesis by auto
next
  case False
  then have "ip_family (upstream_host hostname) = 4 \<or> ip_family (upstream_host hostname) = 6"
    by (simp add: ip_family_def split: if_splits)
  then show ?thesis
    using assms by (auto simp: resolve_address_def Let_def split: if_splits)
qed

theorem resolved_address_safe_witness: "\<exists>f. f \<in> {4, 6} \<and> resolve_address sample_lookup False ''api.openai.com'' = Inr (dotted 8 8 8 8, f)"
proof -
  have "resolve_address sample_lookup False ''api.openai.com'' = Inr (dotted 8 8 8 8, 4)"
    by code_simp
  from resolved_address_safe [OF this] this show ?thesis by blast
qed

end
