(* ===== verification/RunnerSettlement.thy ===== *)
theory RunnerSettlement
  imports Json LeaseRegistry "HOL-Library.Monad_Syntax"
begin

text \<open>
  The runner's side of a revocation: \<open>revokeAndDrain\<close>, \<open>issue\<close> and the settlement schema of
  \<open>apps/runner/src/agent-gateway-control.ts\<close>, with the answer the gateway's \<open>control.ts\<close> sends. The
  settlement record is shared with the lease registry: the schema's fields are the gateway's.
\<close>

section \<open>The gateway's answer\<close>

definition reason_json :: "retire_reason \<Rightarrow> json" where
  "reason_json r = JStr (case r of Revoked \<Rightarrow> ''revoked'' | Expired \<Rightarrow> ''expired'')"

definition settlement_json :: "lease_settlement \<Rightarrow> json" where
  "settlement_json s = JObj
     [(''leaseId'', JStr (st_lease s)), (''reason'', reason_json (st_reason s)), (''settledAt'', JInt (st_at s)),
      (''initialInputTokens'', JInt (st_initial_input s)), (''initialOutputTokens'', JInt (st_initial_output s)),
      (''initialCostMicros'', JInt (st_initial_cost s)), (''costMicros'', JInt (st_cost s)),
      (''overrunCostMicros'', JInt (st_overrun s)), (''promptTokens'', JInt (st_prompt s)),
      (''cacheReadTokens'', JInt (st_read s)), (''cacheWriteTokens'', JInt (st_write s)),
      (''outputTokens'', JInt (st_output s)), (''reasoningTokens'', JInt (st_reasoning s)),
      (''requests'', JInt (st_requests s)), (''requestsWithoutUsage'', JInt (st_without_usage s))]"

definition revoke_answer :: "bool \<Rightarrow> string \<Rightarrow> lease_settlement option \<Rightarrow> jobject" where
  "revoke_answer revoked boot settlement =
     [(''ok'', JBool True), (''revoked'', JBool revoked), (''gatewayBootId'', JStr boot)]
     @ (case settlement of None \<Rightarrow> [] | Some s \<Rightarrow> [(''settlement'', settlement_json s)])"

section \<open>The schema\<close>

definition settlement_cost_max :: int where
  "settlement_cost_max = 10000000000000"

text \<open>\<open>z.number().int().nonnegative().max(...)\<close> on a field that may be absent.\<close>

definition counter_upto :: "int \<Rightarrow> json option \<Rightarrow> int option" where
  "counter_upto hi v = (case v of None \<Rightarrow> None | Some j \<Rightarrow> (case as_safe_integer j of None \<Rightarrow> None
     | Some n \<Rightarrow> if 0 \<le> n \<and> n \<le> hi then Some n else None))"

abbreviation counter :: "json option \<Rightarrow> int option" where
  "counter \<equiv> counter_upto max_safe"

abbreviation cost_counter :: "json option \<Rightarrow> int option" where
  "cost_counter \<equiv> counter_upto settlement_cost_max"

definition bounded_string :: "json option \<Rightarrow> string option" where
  "bounded_string v = (case v of Some (JStr s) \<Rightarrow> (if s \<noteq> [] \<and> length s \<le> 256 then Some s else None) | _ \<Rightarrow> None)"

definition reason_of :: "json option \<Rightarrow> retire_reason option" where
  "reason_of v = (if v = Some (JStr ''revoked'') then Some Revoked
     else if v = Some (JStr ''expired'') then Some Expired else None)"

text \<open>\<open>AgentLeaseSettlementSchema.safeParse\<close>: all fields or nothing; unknown keys are stripped.\<close>

definition parse_settlement :: "json \<Rightarrow> lease_settlement option" where
  "parse_settlement v = (case v of JObj ob \<Rightarrow>
     do {
       lease \<leftarrow> bounded_string (field ob ''leaseId'');
       reason \<leftarrow> reason_of (field ob ''reason'');
       settled_at \<leftarrow> counter (field ob ''settledAt'');
       inp \<leftarrow> counter (field ob ''initialInputTokens'');
       outp \<leftarrow> counter (field ob ''initialOutputTokens'');
       initial \<leftarrow> cost_counter (field ob ''initialCostMicros'');
       cost \<leftarrow> cost_counter (field ob ''costMicros'');
       overrun \<leftarrow> cost_counter (field ob ''overrunCostMicros'');
       prompt \<leftarrow> counter (field ob ''promptTokens'');
       cache_read \<leftarrow> counter (field ob ''cacheReadTokens'');
       cache_write \<leftarrow> counter (field ob ''cacheWriteTokens'');
       produced \<leftarrow> counter (field ob ''outputTokens'');
       reasoning \<leftarrow> counter (field ob ''reasoningTokens'');
       requests \<leftarrow> counter (field ob ''requests'');
       without \<leftarrow> counter (field ob ''requestsWithoutUsage'');
       Some \<lparr>st_lease = lease, st_reason = reason, st_at = settled_at, st_initial_input = inp, st_initial_output = outp,
         st_initial_cost = initial, st_cost = cost, st_overrun = overrun, st_prompt = prompt, st_read = cache_read,
         st_write = cache_write, st_output = produced, st_reasoning = reasoning, st_requests = requests,
         st_without_usage = without\<rparr>
     }
   | _ \<Rightarrow> None)"

section \<open>Revocations\<close>

record revocation =
  rv_revoked :: bool
  rv_boot :: "string option"
  rv_settlement :: "lease_settlement option"
  rv_invalid :: bool

text \<open>\<open>revokeAndDrain\<close> after \<open>control\<close> returned an object with \<open>ok: true\<close>.\<close>

definition read_revocation :: "string \<Rightarrow> jobject \<Rightarrow> revocation" where
  "read_revocation lease_id response =
     (let revoked = (field response ''revoked'' = Some (JBool True));
          boot = bounded_string (field response ''gatewayBootId'');
          boot_unreadable = (field response ''gatewayBootId'' \<noteq> None \<and> boot = None);
          answer = \<lparr>rv_revoked = revoked, rv_boot = boot, rv_settlement = None, rv_invalid = False\<rparr>
      in case field response ''settlement'' of
           None \<Rightarrow> answer
         | Some v \<Rightarrow> (case parse_settlement v of
             None \<Rightarrow> answer\<lparr>rv_invalid := True\<rparr>
           | Some s \<Rightarrow> (if st_lease s \<noteq> lease_id \<or> boot_unreadable then answer\<lparr>rv_invalid := True\<rparr>
                       else answer\<lparr>rv_settlement := Some s\<rparr>)))"

section \<open>The control answer\<close>

datatype runner_control_error = ControlUnavailable string | ControlRejection string

text \<open>
  \<open>control\<close> after the client process ended: a failed process, an answer that is not JSON or has no
  boolean \<open>ok\<close>, and a refusal are errors of three kinds. \<open>parse\<close> is \<open>JSON.parse\<close> of the trimmed output.
\<close>

definition control_answer :: "(string \<Rightarrow> json option) \<Rightarrow> int \<Rightarrow> string \<Rightarrow> (runner_control_error, jobject) result" where
  "control_answer parse exit_code stdout =
     (if exit_code \<noteq> 0 then Inl (ControlUnavailable ''model gateway control request failed'')
      else case parse stdout of
        Some (JObj ob) \<Rightarrow>
          (if field ob ''ok'' = Some (JBool True) then Inr ob
           else if field ob ''ok'' = Some (JBool False)
             then Inl (ControlRejection (case field ob ''error'' of Some (JStr e) \<Rightarrow> e | _ \<Rightarrow> ''unknown error''))
           else Inl (ControlUnavailable ''model gateway returned an invalid control response''))
      | _ \<Rightarrow> Inl (ControlUnavailable ''model gateway returned an invalid control response''))"

definition issued_token_ok :: "string \<Rightarrow> bool" where
  "issued_token_ok s = (43 \<le> length s \<and> length s \<le> 512
     \<and> list_all (\<lambda>c. is_alnum_char c \<or> c = CHR ''_'' \<or> c = CHR ''-'') s)"

text \<open>\<open>issue\<close> on the answer: the lease token and the boot id of the gateway that issued it.\<close>

definition read_issue :: "jobject \<Rightarrow> (runner_control_error, string \<times> string option) result" where
  "read_issue response =
     (case field response ''lease'' of
        Some (JStr token) \<Rightarrow>
          (if \<not> issued_token_ok token then Inl (ControlUnavailable ''model gateway omitted the issued lease'')
           else case field response ''gatewayBootId'' of
             None \<Rightarrow> Inr (token, None)
           | Some v \<Rightarrow> (case bounded_string (Some v) of
               None \<Rightarrow> Inl (ControlUnavailable ''model gateway returned an invalid lease issue response'')
             | Some boot \<Rightarrow> Inr (token, Some boot)))
      | _ \<Rightarrow> Inl (ControlUnavailable ''model gateway omitted the issued lease''))"

text \<open>\<open>isDefiniteIssueRefusal\<close>: only these errors prove that no lease exists for the id.\<close>

definition is_definite_issue_refusal :: "runner_control_error \<Rightarrow> bool" where
  "is_definite_issue_refusal e = (case e of ControlRejection m \<Rightarrow> m \<noteq> ''leaseId already registered'' | _ \<Rightarrow> False)"

section \<open>Reading back what the gateway sent\<close>

definition settlement_in_range :: "lease_settlement \<Rightarrow> bool" where
  "settlement_in_range s =
     (st_lease s \<noteq> [] \<and> length (st_lease s) \<le> 256
      \<and> (\<forall>n \<in> {st_at s, st_initial_input s, st_initial_output s, st_prompt s, st_read s, st_write s,
               st_output s, st_reasoning s, st_requests s, st_without_usage s}. 0 \<le> n \<and> n \<le> max_safe)
      \<and> (\<forall>n \<in> {st_initial_cost s, st_cost s, st_overrun s}. 0 \<le> n \<and> n \<le> settlement_cost_max))"

lemma counter_JInt [simp]: "counter_upto hi (Some (JInt n)) = (if is_safe n \<and> 0 \<le> n \<and> n \<le> hi then Some n else None)"
  by (simp add: counter_upto_def)

lemma reason_of_json [simp]: "reason_of (Some (reason_json r)) = Some r"
  by (cases r) (simp_all add: reason_of_def reason_json_def)

lemma settlement_json_parses: "settlement_in_range s \<Longrightarrow> parse_settlement (settlement_json s) = Some s"
  by (cases s) (simp add: settlement_in_range_def parse_settlement_def settlement_json_def field_Cons bounded_string_def
      is_safe_def settlement_cost_max_def max_safe_def)

lemma settlement_json_out_of_range:
  "\<not> settlement_in_range s \<Longrightarrow> parse_settlement (settlement_json s) = None"
  by (auto simp: settlement_in_range_def parse_settlement_def settlement_json_def field_Cons bounded_string_def)

end
