(* ===== verification/SpendCalendar.thy ===== *)
theory SpendCalendar
  imports Decimals
begin

text \<open>
  UTC days and months of a timestamp in milliseconds, as \<open>Date\<close> computes them, and the window keys
  and bounds of \<open>model-spend-ledger.ts\<close> (\<open>utcDayKey\<close>, \<open>utcMonthKey\<close>, \<open>windowBounds\<close>). Timestamps are
  in the range of \<open>Date\<close>, outside which \<open>toISOString\<close> throws.
\<close>

section \<open>The calendar of Date\<close>

definition ms_per_day :: int where
  "ms_per_day = 86400000"

definition day_from_year :: "int \<Rightarrow> int" where
  "day_from_year y = 365 * (y - 1970) + (y - 1969) div 4 - (y - 1901) div 100 + (y - 1601) div 400"

definition is_leap :: "int \<Rightarrow> bool" where
  "is_leap y = (y mod 4 = 0 \<and> (y mod 100 \<noteq> 0 \<or> y mod 400 = 0))"

text \<open>The greatest year that starts no later than the day, by an estimate that is off by at most one.\<close>

definition year_from_day :: "int \<Rightarrow> int" where
  "year_from_day d = (let y = 1970 + (400 * d) div 146097 in
     if d < day_from_year y then y - 1 else if day_from_year (y + 1) \<le> d then y + 1 else y)"

definition month_start :: "bool \<Rightarrow> int \<Rightarrow> int" where
  "month_start leap m = (let k = (if leap then 1 else 0) in
     if m \<le> 0 then 0 else if m = 1 then 31 else if m = 2 then 59 + k else if m = 3 then 90 + k
     else if m = 4 then 120 + k else if m = 5 then 151 + k else if m = 6 then 181 + k
     else if m = 7 then 212 + k else if m = 8 then 243 + k else if m = 9 then 273 + k
     else if m = 10 then 304 + k else if m = 11 then 334 + k else 365 + k)"

text \<open>The month, from 0, that a day of the year falls in.\<close>

definition month_of :: "bool \<Rightarrow> int \<Rightarrow> int" where
  "month_of leap doy = (let before = (\<lambda>m. doy < month_start leap m) in
     if before 1 then 0 else if before 2 then 1 else if before 3 then 2 else if before 4 then 3
     else if before 5 then 4 else if before 6 then 5 else if before 7 then 6 else if before 8 then 7
     else if before 9 then 8 else if before 10 then 9 else if before 11 then 10 else 11)"

record civil =
  cv_year :: int
  cv_month :: int
  cv_date :: int

definition civil_of_day :: "int \<Rightarrow> civil" where
  "civil_of_day d = (let y = year_from_day d; doy = d - day_from_year y; m = month_of (is_leap y) doy
     in \<lparr>cv_year = y, cv_month = m, cv_date = doy - month_start (is_leap y) m + 1\<rparr>)"

definition civil_of :: "int \<Rightarrow> civil" where
  "civil_of t = civil_of_day (t div ms_per_day)"

text \<open>\<open>Date.UTC(year, month, date)\<close>: months past December move the year on.\<close>

definition date_utc :: "int \<Rightarrow> int \<Rightarrow> int \<Rightarrow> int" where
  "date_utc y m date = (let y' = y + m div 12 in
     (day_from_year y' + month_start (is_leap y') (m mod 12) + date - 1) * ms_per_day)"

section \<open>Window keys\<close>

text \<open>The start of \<open>toISOString\<close>: a four-digit year, or a signed six-digit one.\<close>

definition iso_date :: "civil \<Rightarrow> string" where
  "iso_date c = (if 0 \<le> cv_year c \<and> cv_year c \<le> 9999 then pad_digits 4 (cv_year c)
      else if cv_year c < 0 then ''-'' @ pad_digits 6 (- cv_year c) else ''+'' @ pad_digits 6 (cv_year c))
     @ ''-'' @ pad_digits 2 (cv_month c + 1) @ ''-'' @ pad_digits 2 (cv_date c)"

definition utc_day_key :: "int \<Rightarrow> string" where
  "utc_day_key now = take 10 (iso_date (civil_of now))"

definition utc_month_key :: "int \<Rightarrow> string" where
  "utc_month_key now = take 7 (iso_date (civil_of now))"

datatype spend_period = Day | Month

text \<open>The window's start and end in milliseconds; the code prints both with \<open>toISOString\<close>.\<close>

definition window_bounds :: "spend_period \<Rightarrow> int \<Rightarrow> int \<times> int" where
  "window_bounds period now = (let c = civil_of now in
     (case period of Day \<Rightarrow> date_utc (cv_year c) (cv_month c) (cv_date c) | Month \<Rightarrow> date_utc (cv_year c) (cv_month c) 1,
      case period of Day \<Rightarrow> date_utc (cv_year c) (cv_month c) (cv_date c + 1) | Month \<Rightarrow> date_utc (cv_year c) (cv_month c + 1) 1))"

definition window_key :: "spend_period \<Rightarrow> int \<Rightarrow> string" where
  "window_key period now = (case period of Day \<Rightarrow> utc_day_key now | Month \<Rightarrow> utc_month_key now)"

section \<open>Calendar facts\<close>

lemma div_range: "0 < k \<Longrightarrow> k * (x div k) \<le> x \<and> x < k * (x div k) + k" for x k :: int
  using mult_div_mod_eq [of k x] pos_mod_sign [of k x] pos_mod_bound [of k x] by linarith

lemma div_step: "(x + 1) div k = x div k + (if (x + 1) mod k = 0 then 1 else 0)" if "0 < k" for x k :: int
proof -
  define q where "q = x div k"
  define r where "r = x mod k"
  have r: "0 \<le> r" "r < k" "x = k * q + r"
    using that by (simp_all add: q_def r_def)
  show ?thesis
  proof (cases "r + 1 = k")
    case True
    then have x: "x + 1 = k * (q + 1)" using r(3) by (simp add: algebra_simps)
    then show ?thesis using that by (simp only: x q_def [symmetric]) simp
  next
    case False
    then have "(x + 1) div k = q" "(x + 1) mod k = r + 1"
      using r by (simp_all add: int_div_pos_eq [of _ k q "r + 1"] int_mod_pos_eq [of _ k q "r + 1"])
    then show ?thesis using r(1) by (simp add: q_def)
  qed
qed

lemma mod_shift: "(y - k * c) mod k = y mod k" for y k c :: int
  by (metis mod_diff_right_eq mod_mult_self1_is_0 diff_zero)

lemma mod_divides: "(m :: int) dvd k \<Longrightarrow> y mod k = 0 \<Longrightarrow> y mod m = 0"
  by (metis dvd_trans mod_0_imp_dvd dvd_imp_mod_0)

lemma day_from_year_next: "day_from_year (y + 1) = day_from_year y + 365 + (if is_leap y then 1 else 0)"
proof -
  have 4: "(y + 1 - 1969) div 4 = (y - 1969) div 4 + (if y mod 4 = 0 then 1 else 0)"
    using div_step [of 4 "y - 1969"] mod_shift [of y 4 492] by simp
  have 100: "(y + 1 - 1901) div 100 = (y - 1901) div 100 + (if y mod 100 = 0 then 1 else 0)"
    using div_step [of 100 "y - 1901"] mod_shift [of y 100 19] by simp
  have 400: "(y + 1 - 1601) div 400 = (y - 1601) div 400 + (if y mod 400 = 0 then 1 else 0)"
    using div_step [of 400 "y - 1601"] mod_shift [of y 400 4] by simp
  have m4: "y mod 100 = 0 \<Longrightarrow> y mod 4 = 0" by (rule mod_divides [of 4 100]) simp_all
  have m100: "y mod 400 = 0 \<Longrightarrow> y mod 100 = 0" by (rule mod_divides [of 100 400]) simp_all
  have eq: "day_from_year (y + 1) = 365 * (y - 1970) + 365
      + ((y - 1969) div 4 + (if y mod 4 = 0 then 1 else 0)) - ((y - 1901) div 100 + (if y mod 100 = 0 then 1 else 0))
      + ((y - 1601) div 400 + (if y mod 400 = 0 then 1 else 0))"
    by (simp only: day_from_year_def 4 100 400) simp
  show ?thesis
    using m4 m100 unfolding eq day_from_year_def [of y] is_leap_def
    by (cases "y mod 4 = 0"; cases "y mod 100 = 0"; cases "y mod 400 = 0"; simp)
qed

lemma day_from_year_bounds:
  "400 * day_from_year y \<le> 146097 * (y - 1970) + 800" "146097 * (y - 1970) - 800 \<le> 400 * day_from_year y"
proof -
  define a where "a = (y - 1969) div 4"
  define b where "b = (y - 1901) div 100"
  define c where "c = (y - 1601) div 400"
  have "4 * a \<le> y - 1969" "y - 1969 < 4 * a + 4" "100 * b \<le> y - 1901" "y - 1901 < 100 * b + 100"
    "400 * c \<le> y - 1601" "y - 1601 < 400 * c + 400"
    using div_range [of 4 "y - 1969"] div_range [of 100 "y - 1901"] div_range [of 400 "y - 1601"]
    by (simp_all add: a_def b_def c_def)
  then show "400 * day_from_year y \<le> 146097 * (y - 1970) + 800" "146097 * (y - 1970) - 800 \<le> 400 * day_from_year y"
    unfolding day_from_year_def a_def [symmetric] b_def [symmetric] c_def [symmetric] by (simp_all add: algebra_simps)
qed

lemma year_from_day: "day_from_year (year_from_day d) \<le> d" "d < day_from_year (year_from_day d + 1)"
proof -
  define y where "y = 1970 + (400 * d) div 146097"
  have est: "146097 * (y - 1970) \<le> 400 * d" "400 * d < 146097 * (y - 1970) + 146097"
    using div_range [of 146097 "400 * d"] by (simp_all add: y_def)
  have low: "day_from_year (y - 1) \<le> d" using est day_from_year_bounds(1) [of "y - 1"] by (simp add: algebra_simps)
  have high: "d < day_from_year (y + 1 + 1)" using est day_from_year_bounds(2) [of "y + 1 + 1"] by (simp add: algebra_simps)
  have eq: "year_from_day d = (if d < day_from_year y then y - 1 else if day_from_year (y + 1) \<le> d then y + 1 else y)"
    by (simp only: year_from_day_def y_def [symmetric] Let_def)
  have "day_from_year (year_from_day d) \<le> d \<and> d < day_from_year (year_from_day d + 1)"
    unfolding eq using low high by (simp only: if_split [of "\<lambda>z. day_from_year z \<le> d \<and> d < day_from_year (z + 1)"]) simp
  then show "day_from_year (year_from_day d) \<le> d" "d < day_from_year (year_from_day d + 1)" by simp_all
qed

lemma day_from_year_mono: "x \<le> y \<Longrightarrow> day_from_year x \<le> day_from_year y"
proof (induction rule: int_ge_induct)
  case base
  then show ?case by simp
next
  case (step i)
  then show ?case using day_from_year_next [of i] by (simp split: if_splits)
qed

lemma year_from_day_unique: "day_from_year y \<le> d \<Longrightarrow> d < day_from_year (y + 1) \<Longrightarrow> year_from_day d = y"
  using year_from_day [of d] day_from_year_mono [of "y + 1" "year_from_day d"] day_from_year_mono [of "year_from_day d + 1" y]
  by linarith

lemma month_start_values:
  "month_start leap 0 = 0" "month_start leap 1 = 31" "month_start leap 12 = 365 + (if leap then 1 else 0)"
  by (simp_all add: month_start_def Let_def)

lemma month_of_cases:
  assumes "P 0" "P 1" "P 2" "P 3" "P 4" "P 5" "P 6" "P 7" "P 8" "P 9" "P 10" "P (11 :: int)"
  shows "0 \<le> m \<Longrightarrow> m \<le> 11 \<Longrightarrow> P m"
proof -
  assume "0 \<le> m" "m \<le> 11"
  then have "m = 0 \<or> m = 1 \<or> m = 2 \<or> m = 3 \<or> m = 4 \<or> m = 5 \<or> m = 6 \<or> m = 7 \<or> m = 8 \<or> m = 9 \<or> m = 10 \<or> m = 11"
    by arith
  with assms show "P m" by fast
qed

lemma month_of_range:
  assumes "0 \<le> doy" "doy < 365 + (if leap then 1 else 0)"
  shows "0 \<le> month_of leap doy \<and> month_of leap doy \<le> 11
    \<and> month_start leap (month_of leap doy) \<le> doy \<and> doy < month_start leap (month_of leap doy + 1)"
proof -
  have split: "P (month_of leap doy)" if "doy < month_start leap 1 \<Longrightarrow> P 0"
    "month_start leap 1 \<le> doy \<Longrightarrow> doy < month_start leap 2 \<Longrightarrow> P 1"
    "month_start leap 2 \<le> doy \<Longrightarrow> doy < month_start leap 3 \<Longrightarrow> P 2"
    "month_start leap 3 \<le> doy \<Longrightarrow> doy < month_start leap 4 \<Longrightarrow> P 3"
    "month_start leap 4 \<le> doy \<Longrightarrow> doy < month_start leap 5 \<Longrightarrow> P 4"
    "month_start leap 5 \<le> doy \<Longrightarrow> doy < month_start leap 6 \<Longrightarrow> P 5"
    "month_start leap 6 \<le> doy \<Longrightarrow> doy < month_start leap 7 \<Longrightarrow> P 6"
    "month_start leap 7 \<le> doy \<Longrightarrow> doy < month_start leap 8 \<Longrightarrow> P 7"
    "month_start leap 8 \<le> doy \<Longrightarrow> doy < month_start leap 9 \<Longrightarrow> P 8"
    "month_start leap 9 \<le> doy \<Longrightarrow> doy < month_start leap 10 \<Longrightarrow> P 9"
    "month_start leap 10 \<le> doy \<Longrightarrow> doy < month_start leap 11 \<Longrightarrow> P 10"
    "month_start leap 11 \<le> doy \<Longrightarrow> P 11" for P
    unfolding month_of_def Let_def using that by (simp only: not_less split: if_split) blast
  show ?thesis
    by (rule split) (use assms in \<open>simp_all add: month_start_values\<close>)
qed

lemma month_of_unique:
  "0 \<le> m \<Longrightarrow> m \<le> 11 \<Longrightarrow> month_start leap m \<le> doy \<Longrightarrow> doy < month_start leap (m + 1) \<Longrightarrow> month_of leap doy = m"
proof -
  assume "0 \<le> m" "m \<le> 11"
  then have "month_start leap m \<le> doy \<longrightarrow> doy < month_start leap (m + 1) \<longrightarrow> month_of leap doy = m"
    by (rule month_of_cases [rotated 12]; simp add: month_of_def month_start_def Let_def)
  then show "month_start leap m \<le> doy \<Longrightarrow> doy < month_start leap (m + 1) \<Longrightarrow> month_of leap doy = m" by blast
qed

section \<open>Windows\<close>

definition civil_ok :: "civil \<Rightarrow> bool" where
  "civil_ok c = (0 \<le> cv_month c \<and> cv_month c \<le> 11 \<and> 1 \<le> cv_date c
     \<and> cv_date c \<le> month_start (is_leap (cv_year c)) (cv_month c + 1) - month_start (is_leap (cv_year c)) (cv_month c))"

definition day_of_civil :: "civil \<Rightarrow> int" where
  "day_of_civil c = day_from_year (cv_year c) + month_start (is_leap (cv_year c)) (cv_month c) + cv_date c - 1"

lemma civil_of_day_roundtrip: "day_of_civil (civil_of_day d) = d"
  by (simp add: day_of_civil_def civil_of_day_def Let_def)

lemma day_of_year_range:
  "0 \<le> d - day_from_year (year_from_day d) \<and> d - day_from_year (year_from_day d) < 365 + (if is_leap (year_from_day d) then 1 else 0)"
  using year_from_day [of d] day_from_year_next [of "year_from_day d"] by (simp split: if_splits)

lemma civil_of_day_ok: "civil_ok (civil_of_day d)"
  using month_of_range [of "d - day_from_year (year_from_day d)" "is_leap (year_from_day d)"] day_of_year_range [of d]
  by (simp add: civil_ok_def civil_of_day_def Let_def)

text \<open>The first day of the next month: month 12 of a year is the first day of the next one.\<close>

definition month_begin :: "int \<Rightarrow> int \<Rightarrow> int" where
  "month_begin y m = day_from_year y + month_start (is_leap y) m"

lemma month_begin_range:
  assumes "0 \<le> m" "m \<le> 11"
  shows "cv_year (civil_of_day d) = y \<and> cv_month (civil_of_day d) = m
    \<longleftrightarrow> month_begin y m \<le> d \<and> d < month_begin y (m + 1)"
proof
  assume "cv_year (civil_of_day d) = y \<and> cv_month (civil_of_day d) = m"
  then show "month_begin y m \<le> d \<and> d < month_begin y (m + 1)"
    using civil_of_day_ok [of d] civil_of_day_roundtrip [of d]
    by (simp add: civil_ok_def day_of_civil_def month_begin_def)
next
  assume range: "month_begin y m \<le> d \<and> d < month_begin y (m + 1)"
  have "0 \<le> month_start (is_leap y) m \<and> month_start (is_leap y) (m + 1) \<le> 365 + (if is_leap y then 1 else 0)"
    by (rule month_of_cases [OF _ _ _ _ _ _ _ _ _ _ _ _ assms]) (simp_all add: month_start_def Let_def)
  then have "year_from_day d = y"
    using range day_from_year_next [of y] by (intro year_from_day_unique) (simp_all add: month_begin_def)
  moreover from this have "month_of (is_leap y) (d - day_from_year y) = m"
    using range assms by (intro month_of_unique) (simp_all add: month_begin_def)
  ultimately show "cv_year (civil_of_day d) = y \<and> cv_month (civil_of_day d) = m"
    by (simp add: civil_of_day_def Let_def)
qed

lemma date_utc_month:
  assumes "0 \<le> m" "m \<le> 12"
  shows "date_utc y m 1 = month_begin y m * ms_per_day"
proof (cases "m = 12")
  case True
  then show ?thesis
    using day_from_year_next [of y] by (simp add: date_utc_def month_begin_def Let_def month_start_values)
next
  case False
  with assms have "m div 12 = 0" "m mod 12 = m" by simp_all
  then show ?thesis by (simp add: date_utc_def month_begin_def Let_def)
qed

lemma ms_range: "a * ms_per_day \<le> t \<and> t < b * ms_per_day \<longleftrightarrow> a \<le> t div ms_per_day \<and> t div ms_per_day < b"
proof -
  have r: "ms_per_day * (t div ms_per_day) \<le> t" "t < ms_per_day * (t div ms_per_day) + ms_per_day"
    using div_range [of ms_per_day t] by (simp_all add: ms_per_day_def)
  show ?thesis using r unfolding ms_per_day_def by auto
qed

lemma window_bounds_month:
  "window_bounds Month now = (month_begin (cv_year (civil_of now)) (cv_month (civil_of now)) * ms_per_day,
     month_begin (cv_year (civil_of now)) (cv_month (civil_of now) + 1) * ms_per_day)"
  using civil_of_day_ok [of "now div ms_per_day"]
  by (simp add: window_bounds_def Let_def civil_of_def civil_ok_def date_utc_month)

lemma window_bounds_day:
  "window_bounds Day now = (now div ms_per_day * ms_per_day, (now div ms_per_day + 1) * ms_per_day)"
proof -
  let ?c = "civil_of_day (now div ms_per_day)"
  have month: "cv_month ?c div 12 = 0" "cv_month ?c mod 12 = cv_month ?c"
    using civil_of_day_ok [of "now div ms_per_day"] by (simp_all add: civil_ok_def)
  have date: "date_utc (cv_year ?c) (cv_month ?c) (cv_date ?c + k) = (now div ms_per_day + k) * ms_per_day" for k
  proof -
    have "date_utc (cv_year ?c) (cv_month ?c) (cv_date ?c + k) = (day_of_civil ?c + k) * ms_per_day"
      unfolding date_utc_def day_of_civil_def Let_def month by (rule arg_cong [of _ _ "\<lambda>x. x * ms_per_day"]) simp
    then show ?thesis by (simp only: civil_of_day_roundtrip)
  qed
  show ?thesis
    using date [of 0] date [of 1] by (simp add: window_bounds_def civil_of_def Let_def)
qed

lemma month_window_iff:
  "fst (window_bounds Month now) \<le> t \<and> t < snd (window_bounds Month now)
     \<longleftrightarrow> cv_year (civil_of t) = cv_year (civil_of now) \<and> cv_month (civil_of t) = cv_month (civil_of now)"
  using civil_of_day_ok [of "now div ms_per_day"]
  by (simp add: window_bounds_month ms_range month_begin_range [symmetric] civil_of_def civil_ok_def)

lemma civil_of_day_inject: "civil_of_day d = civil_of_day e \<longleftrightarrow> d = e"
  by (metis civil_of_day_roundtrip)

lemma day_window_iff:
  "fst (window_bounds Day now) \<le> t \<and> t < snd (window_bounds Day now) \<longleftrightarrow> civil_of t = civil_of now"
  by (auto simp: window_bounds_day ms_range civil_of_def civil_of_day_inject)

section \<open>Keys name their window\<close>

lemma take_key: "length a = n \<Longrightarrow> take n (a @ b) = a"
  by simp

lemma window_keys_civil:
  assumes "0 \<le> cv_year (civil_of t)" "cv_year (civil_of t) \<le> 9999"
  shows "utc_month_key t = pad_digits 4 (cv_year (civil_of t)) @ ''-'' @ pad_digits 2 (cv_month (civil_of t) + 1)"
    "utc_day_key t = utc_month_key t @ ''-'' @ pad_digits 2 (cv_date (civil_of t))"
proof -
  let ?c = "civil_of t"
  have ok: "civil_ok ?c" by (simp add: civil_of_def civil_of_day_ok)
  have start: "month_start (is_leap (cv_year ?c)) (cv_month ?c + 1) - month_start (is_leap (cv_year ?c)) (cv_month ?c) \<le> 31"
    by (rule month_of_cases [of _ "cv_month ?c"]) (use ok in \<open>simp_all add: month_start_def Let_def civil_ok_def\<close>)
  have len: "length (pad_digits 4 (cv_year ?c)) = 4" "length (pad_digits 2 (cv_month ?c + 1)) = 2"
    "length (pad_digits 2 (cv_date ?c)) = 2"
    using assms ok start by (simp_all add: length_pad_digits civil_ok_def)
  show month: "utc_month_key t = pad_digits 4 (cv_year ?c) @ ''-'' @ pad_digits 2 (cv_month ?c + 1)"
    using assms len by (simp add: utc_month_key_def iso_date_def)
  show "utc_day_key t = utc_month_key t @ ''-'' @ pad_digits 2 (cv_date ?c)"
    unfolding month using assms len by (simp add: utc_day_key_def iso_date_def)
qed

text \<open>Times at which the code runs print a four-digit year.\<close>

definition four_digit_time :: "int \<Rightarrow> bool" where
  "four_digit_time t = (0 \<le> cv_year (civil_of t) \<and> cv_year (civil_of t) \<le> 9999)"

lemma civil_of_nonneg: "0 \<le> cv_month (civil_of t)" "0 \<le> cv_date (civil_of t)"
  using civil_of_day_ok [of "t div ms_per_day"] by (simp_all add: civil_of_def civil_ok_def)

lemma pad_append_inject:
  assumes "length a = length b"
  shows "a @ x = b @ y \<longleftrightarrow> a = b \<and> x = y"
  using assms by simp

lemma month_key_inject:
  assumes "four_digit_time t" "four_digit_time u"
  shows "utc_month_key t = utc_month_key u
    \<longleftrightarrow> cv_year (civil_of t) = cv_year (civil_of u) \<and> cv_month (civil_of t) = cv_month (civil_of u)"
proof -
  have len: "length (pad_digits 4 (cv_year (civil_of t))) = length (pad_digits 4 (cv_year (civil_of u)))"
    using assms by (simp add: four_digit_time_def length_pad_digits)
  show ?thesis
    using assms len civil_of_nonneg(1) [of t] civil_of_nonneg(1) [of u]
    by (simp add: window_keys_civil four_digit_time_def pad_digits_inject)
qed

lemma day_key_inject:
  assumes "four_digit_time t" "four_digit_time u"
  shows "utc_day_key t = utc_day_key u \<longleftrightarrow> civil_of t = civil_of u"
proof -
  have "length (utc_month_key t) = 7" "length (utc_month_key u) = 7"
    using assms civil_of_day_ok [of "t div ms_per_day"] civil_of_day_ok [of "u div ms_per_day"]
    by (simp_all add: window_keys_civil four_digit_time_def length_pad_digits civil_of_def civil_ok_def)
  then have "utc_day_key t = utc_day_key u \<longleftrightarrow> utc_month_key t = utc_month_key u \<and> cv_date (civil_of t) = cv_date (civil_of u)"
    using assms civil_of_nonneg(2) [of t] civil_of_nonneg(2) [of u]
    by (simp add: window_keys_civil(2) four_digit_time_def pad_digits_inject)
  then show ?thesis
    by (cases "civil_of t"; cases "civil_of u") (use month_key_inject [OF assms] in auto)
qed

lemma window_key_iff:
  assumes "four_digit_time t" "four_digit_time now"
  shows "window_key period t = window_key period now
    \<longleftrightarrow> fst (window_bounds period now) \<le> t \<and> t < snd (window_bounds period now)"
  using assms
  by (cases period) (simp_all add: window_key_def day_key_inject month_key_inject day_window_iff month_window_iff)

end
