(* ===== verification/SpendLedger.thy ===== *)
theory SpendLedger
  imports RunnerSettlement SpendCalendar
begin

text \<open>
  The durable model spend ledger: \<open>apps/runner/src/model-spend-ledger.ts\<close>. A database is its two tables,
  the ledger keyed by lease id and the policies in insertion order; every query of the code is a list
  comprehension over them. Every operation runs in one transaction, so an operation that throws returns the
  database it was given. Figures stay in the safe range by the schemas' bounds, so JavaScript's arithmetic on them is exact.
\<close>

section \<open>Tables\<close>

datatype spend_state = Reserved | Issuing | Settled | Unreconciled | Released

record ledger_row =
  ld_principal :: string
  ld_profile_key :: string
  ld_revision :: "string option"
  ld_agent :: string
  ld_workspace :: string
  ld_day :: string
  ld_month :: string
  ld_reserved :: int
  ld_state :: spend_state
  ld_charged :: "int option"
  ld_tokens :: "(int \<times> int \<times> int \<times> int \<times> int) option"
  ld_boot :: "string option"
  ld_created :: int
  ld_settled :: "int option"

record policy_row =
  po_id :: string
  po_principal :: string
  po_profile :: "string option"
  po_period :: spend_period
  po_limit :: int
  po_warn :: int
  po_generation :: int
  po_created :: int
  po_updated :: int

record spend_db =
  sd_rows :: "(string, ledger_row) jmap"
  sd_policies :: "policy_row list"

definition new_ledger :: spend_db where
  "new_ledger = \<lparr>sd_rows = [], sd_policies = []\<rparr>"

definition saved_profile_spend_key :: "string \<Rightarrow> string" where
  "saved_profile_spend_key p = ''profile:'' @ p"

definition static_profile_spend_key :: "string \<Rightarrow> string" where
  "static_profile_spend_key p = ''static:'' @ p"

definition spend_retention_ms :: int where
  "spend_retention_ms = 400 * 86400000"

section \<open>Windows and thresholds\<close>

text \<open>The \<open>WHERE\<close> clause of \<open>windowFilter\<close>: the month, and the day when the window is a day.\<close>

definition in_window :: "string \<Rightarrow> string option \<Rightarrow> string \<Rightarrow> ledger_row \<Rightarrow> bool" where
  "in_window prin profile_key window row =
     (ld_principal row = prin
      \<and> (case profile_key of None \<Rightarrow> True | Some k \<Rightarrow> ld_profile_key row = k)
      \<and> ld_month row = take 7 window
      \<and> (length window = 10 \<longrightarrow> ld_day row = window))"

definition period_order :: "spend_period \<Rightarrow> nat" where
  "period_order p = (case p of Day \<Rightarrow> 0 | Month \<Rightarrow> 1)"

definition scope_order :: "policy_row \<Rightarrow> nat" where
  "scope_order p = (if po_profile p = None then 0 else 2) + period_order (po_period p)"

definition scope_before :: "policy_row \<Rightarrow> policy_row \<Rightarrow> bool" where
  "scope_before p q = (scope_order p < scope_order q)"

text \<open>\<open>applicablePolicies\<close>: the principal's own, then the profile's, each by period.\<close>

definition applicable_policies :: "string \<Rightarrow> string \<Rightarrow> spend_db \<Rightarrow> policy_row list" where
  "applicable_policies prin profile_key db =
     order_by scope_before
       (filter (\<lambda>p. po_principal p = prin
          \<and> (case po_profile p of None \<Rightarrow> True | Some i \<Rightarrow> profile_key = saved_profile_spend_key i)) (sd_policies db))"

definition row_charge :: "ledger_row \<Rightarrow> int" where
  "row_charge row = (case ld_charged row of Some c \<Rightarrow> c | None \<Rightarrow> ld_reserved row)"

definition committed :: "policy_row \<Rightarrow> string \<Rightarrow> spend_db \<Rightarrow> int" where
  "committed p window db = msum (\<lambda>row.
     if in_window (po_principal p) (map_option saved_profile_spend_key (po_profile p)) window row
        \<and> ld_state row \<noteq> Released
     then row_charge row else 0) (sd_rows db)"

definition window_of :: "policy_row \<Rightarrow> ledger_row \<Rightarrow> string" where
  "window_of p row = (case po_period p of Day \<Rightarrow> ld_day row | Month \<Rightarrow> ld_month row)"

definition reaches_warning :: "int \<Rightarrow> policy_row \<Rightarrow> bool" where
  "reaches_warning c p = (c * 100 \<ge> po_limit p * po_warn p)"

datatype threshold = Ok | Warning | Exceeded

definition threshold_state :: "int \<Rightarrow> policy_row \<Rightarrow> threshold" where
  "threshold_state c p = (if c \<ge> po_limit p then Exceeded
     else if c * 100 \<ge> po_limit p * po_warn p then Warning else Ok)"

record crossing_record =
  cr_policy :: string
  cr_principal :: string
  cr_profile :: "string option"
  cr_period :: spend_period
  cr_window :: string
  cr_warn :: int

definition crossing :: "policy_row \<Rightarrow> string \<Rightarrow> crossing_record" where
  "crossing p window = \<lparr>cr_policy = po_id p, cr_principal = po_principal p, cr_profile = po_profile p,
     cr_period = po_period p, cr_window = window, cr_warn = po_warn p\<rparr>"

section \<open>Admission\<close>

record admission =
  ad_lease :: string
  ad_principal :: string
  ad_profile_key :: string
  ad_revision :: "string option"
  ad_agent :: string
  ad_workspace :: string
  ad_reserved :: int
  ad_now :: int

definition scope_label :: "policy_row \<Rightarrow> string" where
  "scope_label p = (case po_profile p of None \<Rightarrow> ''principal'' | Some i \<Rightarrow> ''profile '' @ i)"

definition period_name :: "spend_period \<Rightarrow> string" where
  "period_name p = (case p of Day \<Rightarrow> ''day'' | Month \<Rightarrow> ''month'')"

definition show_int :: "int \<Rightarrow> string" where
  "show_int n = (if n < 0 then ''-'' @ show_nat (nat (- n)) else show_nat (nat n))"

definition limit_error :: "policy_row \<Rightarrow> int \<Rightarrow> int \<Rightarrow> harness_error" where
  "limit_error p c reserved = HarnessError ''LIMIT_EXCEEDED''
     (''model spend policy ('' @ scope_label p @ '', '' @ period_name (po_period p)
       @ '') would be exceeded; estimated committed '' @ show_int c @ '' of '' @ show_int (po_limit p)
       @ '' micros, so at most '' @ show_int (max 0 (po_limit p - c))
       @ '' micros of headroom remain for this run's maxCostMicros of '' @ show_int reserved
       @ ''. Lower maxCostMicros or wait for open runs to settle; aggregate spend is an estimate'') 429 False"

fun check_policies :: "spend_db \<Rightarrow> admission \<Rightarrow> policy_row list \<Rightarrow> (harness_error, crossing_record list) result" where
  "check_policies db ad [] = Inr []"
| "check_policies db ad (p # ps) =
     (let window = window_key (po_period p) (ad_now ad); c = committed p window db in
      if c + ad_reserved ad > po_limit p then Inl (limit_error p c (ad_reserved ad))
      else ebind (check_policies db ad ps) (\<lambda>crossings.
        Inr (if \<not> reaches_warning c p \<and> reaches_warning (c + ad_reserved ad) p
             then crossing p window # crossings else crossings)))"

definition admitted_row :: "admission \<Rightarrow> ledger_row" where
  "admitted_row ad = \<lparr>ld_principal = ad_principal ad, ld_profile_key = ad_profile_key ad, ld_revision = ad_revision ad,
     ld_agent = ad_agent ad, ld_workspace = ad_workspace ad, ld_day = utc_day_key (ad_now ad),
     ld_month = utc_month_key (ad_now ad), ld_reserved = ad_reserved ad, ld_state = Reserved, ld_charged = None,
     ld_tokens = None, ld_boot = None, ld_created = ad_now ad, ld_settled = None\<rparr>"

text \<open>\<open>admit\<close>; the insert of a lease id that is already in the table violates its primary key.\<close>

definition admit :: "admission \<Rightarrow> spend_db \<Rightarrow> (harness_error, crossing_record list \<times> spend_db) result" where
  "admit ad db =
     (if \<not> is_safe (ad_reserved ad) \<or> ad_reserved ad < 0
      then Inl (HarnessError ''INVALID_INPUT'' ''model spend reservation must be a nonnegative safe integer'' 400 False)
      else ebind (check_policies db ad (applicable_policies (ad_principal ad) (ad_profile_key ad) db)) (\<lambda>crossings.
        if jhas (sd_rows db) (ad_lease ad) then Inl (HarnessError ''SQLITE'' ''UNIQUE constraint failed'' 500 False)
        else Inr (crossings, db\<lparr>sd_rows := jset (ad_lease ad) (admitted_row ad) (sd_rows db)\<rparr>)))"

section \<open>The life of a row\<close>

definition find_entry :: "string \<Rightarrow> spend_db \<Rightarrow> ledger_row option" where
  "find_entry lease db = jget (sd_rows db) lease"

text \<open>An \<open>UPDATE\<close> of one row by its key, guarded by its state.\<close>

definition update_row :: "string \<Rightarrow> (ledger_row \<Rightarrow> bool) \<Rightarrow> (ledger_row \<Rightarrow> ledger_row) \<Rightarrow> spend_db \<Rightarrow> spend_db" where
  "update_row lease guard f db = (case jget (sd_rows db) lease of
     Some row \<Rightarrow> (if guard row then db\<lparr>sd_rows := jset lease (f row) (sd_rows db)\<rparr> else db) | None \<Rightarrow> db)"

definition mark_issuing :: "string \<Rightarrow> spend_db \<Rightarrow> spend_db" where
  "mark_issuing lease = update_row lease (\<lambda>row. ld_state row = Reserved) (\<lambda>row. row\<lparr>ld_state := Issuing\<rparr>)"

definition release_refused_issue :: "string \<Rightarrow> int \<Rightarrow> spend_db \<Rightarrow> spend_db" where
  "release_refused_issue lease now = update_row lease (\<lambda>row. ld_state row = Issuing)
     (\<lambda>row. row\<lparr>ld_state := Released, ld_charged := Some 0, ld_settled := Some now\<rparr>)"

definition record_gateway_boot :: "string \<Rightarrow> string \<Rightarrow> spend_db \<Rightarrow> spend_db" where
  "record_gateway_boot lease boot = update_row lease (\<lambda>row. ld_state row = Issuing) (\<lambda>row. row\<lparr>ld_boot := Some boot\<rparr>)"

definition is_open :: "ledger_row \<Rightarrow> bool" where
  "is_open row = (ld_state row = Reserved \<or> ld_state row = Issuing)"

definition same_boot :: "ledger_row \<Rightarrow> revocation option \<Rightarrow> bool" where
  "same_boot row rv = (ld_boot row = None \<or> (case rv of None \<Rightarrow> True
     | Some r \<Rightarrow> rv_boot r = None \<or> rv_boot r = ld_boot row))"

text \<open>The state, charge and token columns \<open>settle\<close> writes to an open row.\<close>

definition settled_outcome :: "string \<Rightarrow> revocation option \<Rightarrow> ledger_row
    \<Rightarrow> spend_state \<times> int \<times> (int \<times> int \<times> int \<times> int \<times> int) option" where
  "settled_outcome lease rv row =
     (let settlement = Option.bind rv rv_settlement in
      if (case rv of Some r \<Rightarrow> rv_invalid r | None \<Rightarrow> False) then (Unreconciled, ld_reserved row, None)
      else case settlement of
        Some s \<Rightarrow>
          (if st_lease s = lease \<and> same_boot row rv then
             (Settled, if st_without_usage s > 0 then max (st_cost s) (ld_reserved row) else st_cost s,
              Some (st_prompt s, st_read s, st_write s, st_output s, st_reasoning s))
           else (Unreconciled, ld_reserved row, None))
      | None \<Rightarrow> (if ld_state row = Reserved then (Released, 0, None) else (Unreconciled, ld_reserved row, None)))"

definition settle :: "string \<Rightarrow> revocation option \<Rightarrow> int \<Rightarrow> spend_db
    \<Rightarrow> ledger_row option \<times> crossing_record list \<times> spend_db" where
  "settle lease rv now db = (case jget (sd_rows db) lease of
     None \<Rightarrow> (None, [], db)
   | Some row \<Rightarrow>
      (if \<not> is_open row then (Some row, [], db)
       else
        (let (state, charged, tokens) = settled_outcome lease rv row;
             row' = row\<lparr>ld_state := state, ld_charged := Some charged, ld_settled := Some now, ld_tokens := tokens\<rparr>;
             db' = db\<lparr>sd_rows := jset lease row' (sd_rows db)\<rparr>;
             policies = applicable_policies (ld_principal row) (ld_profile_key row) db;
             crossed = filter (\<lambda>p. \<not> reaches_warning (committed p (window_of p row) db) p
                                  \<and> reaches_warning (committed p (window_of p row) db') p) policies
         in (Some row', map (\<lambda>p. crossing p (window_of p row)) crossed, db'))))"

text \<open>\<open>listOpen\<close>: \<open>ORDER BY created_at ASC, lease_id ASC LIMIT\<close>.\<close>

definition admitted_before :: "string \<times> ledger_row \<Rightarrow> string \<times> ledger_row \<Rightarrow> bool" where
  "admitted_before x y = (ld_created (snd x) < ld_created (snd y)
     \<or> (ld_created (snd x) = ld_created (snd y) \<and> str_less (fst x) (fst y)))"

definition list_open :: "int \<Rightarrow> nat \<Rightarrow> spend_db \<Rightarrow> (string \<times> ledger_row) list" where
  "list_open created_before limit db = take limit (order_by admitted_before
     (filter (\<lambda>p. is_open (snd p) \<and> ld_created (snd p) < created_before) (sd_rows db)))"

text \<open>\<open>prune\<close>: closed rows settled before the horizon are deleted.\<close>

definition prunable :: "int \<Rightarrow> ledger_row \<Rightarrow> bool" where
  "prunable now row = (\<not> is_open row \<and> (case ld_settled row of Some t \<Rightarrow> t < now - spend_retention_ms | None \<Rightarrow> False))"

definition prune_ledger :: "int \<Rightarrow> spend_db \<Rightarrow> nat \<times> spend_db" where
  "prune_ledger now db = (length (filter (\<lambda>p. prunable now (snd p)) (sd_rows db)),
     db\<lparr>sd_rows := filter (\<lambda>p. \<not> prunable now (snd p)) (sd_rows db)\<rparr>)"

section \<open>Totals\<close>

record spend_totals =
  wt_settled :: int
  wt_reserved :: int
  wt_unreconciled :: int
  wt_committed :: int

definition window_sum :: "(ledger_row \<Rightarrow> bool) \<Rightarrow> (ledger_row \<Rightarrow> int) \<Rightarrow> spend_db \<Rightarrow> int" where
  "window_sum sel f db = msum (\<lambda>row. if sel row then f row else 0) (sd_rows db)"

definition charged_or_zero :: "ledger_row \<Rightarrow> int" where
  "charged_or_zero row = (case ld_charged row of Some c \<Rightarrow> c | None \<Rightarrow> 0)"

definition totals_of :: "string \<Rightarrow> string option \<Rightarrow> string \<Rightarrow> spend_db \<Rightarrow> spend_totals" where
  "totals_of prin profile_key window db =
     (let inside = in_window prin profile_key window;
          s = window_sum (\<lambda>row. inside row \<and> ld_state row = Settled) charged_or_zero db;
          r = window_sum (\<lambda>row. inside row \<and> is_open row) ld_reserved db;
          u = window_sum (\<lambda>row. inside row \<and> ld_state row = Unreconciled) charged_or_zero db
      in \<lparr>wt_settled = s, wt_reserved = r, wt_unreconciled = u, wt_committed = s + r + u\<rparr>)"

definition window_totals :: "string \<Rightarrow> string option \<Rightarrow> spend_period \<Rightarrow> int \<Rightarrow> spend_db \<Rightarrow> spend_totals" where
  "window_totals prin profile_key period now db = totals_of prin profile_key (window_key period now) db"

section \<open>Policies\<close>

record policy_input =
  pi_policy :: "string option"
  pi_profile :: "string option"
  pi_period :: spend_period
  pi_limit :: int
  pi_warn :: "int option"
  pi_generation :: "int option"

definition policy_id_ok :: "string \<Rightarrow> bool" where
  "policy_id_ok s = (starts_with ''msp_'' s \<and> 24 \<le> length s \<and> length s \<le> 84
     \<and> list_all (\<lambda>c. is_alnum_char c \<or> c = CHR ''_'' \<or> c = CHR ''-'') (drop 4 s))"

definition model_profile_id_ok :: "string \<Rightarrow> bool" where
  "model_profile_id_ok s = (s \<noteq> [] \<and> length s \<le> 80
     \<and> list_all (\<lambda>c. is_alnum_char c \<or> c = CHR ''.'' \<or> c = CHR ''_'' \<or> c = CHR ''-'') s)"

text \<open>\<open>ModelSpendPolicyInputSchema\<close>.\<close>

definition policy_input_ok :: "policy_input \<Rightarrow> bool" where
  "policy_input_ok i =
     ((case pi_policy i of None \<Rightarrow> True | Some s \<Rightarrow> policy_id_ok s)
      \<and> (case pi_profile i of None \<Rightarrow> True | Some s \<Rightarrow> model_profile_id_ok s)
      \<and> 1 \<le> pi_limit i \<and> pi_limit i \<le> 1000000000000
      \<and> (case pi_warn i of None \<Rightarrow> True | Some w \<Rightarrow> 1 \<le> w \<and> w \<le> 100)
      \<and> (case pi_generation i of None \<Rightarrow> True | Some g \<Rightarrow> 0 < g \<and> is_safe g)
      \<and> (pi_policy i = None \<longleftrightarrow> pi_generation i = None))"

definition max_policies_per_principal :: nat where
  "max_policies_per_principal = 64"

definition default_warn_percent :: int where
  "default_warn_percent = 80"

definition conflict :: "string \<Rightarrow> harness_error" where
  "conflict m = HarnessError ''CONFLICT'' m 409 False"

definition not_found :: "string \<Rightarrow> harness_error" where
  "not_found m = HarnessError ''NOT_FOUND'' m 404 False"

definition find_policy :: "string \<Rightarrow> string \<Rightarrow> spend_db \<Rightarrow> policy_row option" where
  "find_policy prin i db = find (\<lambda>p. po_principal p = prin \<and> po_id p = i) (sd_policies db)"

definition scope_holder :: "string \<Rightarrow> string option \<Rightarrow> spend_period \<Rightarrow> spend_db \<Rightarrow> policy_row option" where
  "scope_holder prin profile period db =
     find (\<lambda>p. po_principal p = prin \<and> po_profile p = profile \<and> po_period p = period) (sd_policies db)"

text \<open>
  \<open>setPolicy\<close> on a parsed input. \<open>fresh\<close> is the random id of a new policy and \<open>profile_exists\<close> the
  caller's check; the caller's audit hook runs in the same transaction and is not modelled.
\<close>

definition set_policy :: "(string \<Rightarrow> bool) \<Rightarrow> string \<Rightarrow> string \<Rightarrow> policy_input \<Rightarrow> int \<Rightarrow> spend_db
    \<Rightarrow> (harness_error, policy_row \<times> spend_db) result" where
  "set_policy profile_exists fresh prin i now db =
     (if \<not> policy_input_ok i then Inl (HarnessError ''INVALID_INPUT'' ''invalid model spend policy'' 400 False) else
      (let current = scope_holder prin (pi_profile i) (pi_period i) db in
       case pi_policy i of
         Some pid \<Rightarrow>
           (case find_policy prin pid db of
              None \<Rightarrow> Inl (if current \<noteq> None then conflict ''model spend policy was replaced; reload it and retry''
                           else not_found ''model spend policy was not found'')
            | Some p \<Rightarrow>
               (if Some (po_generation p) \<noteq> pi_generation i
                then Inl (conflict ''model spend policy changed; reload it and retry'')
                else if po_profile p \<noteq> pi_profile i \<or> po_period p \<noteq> pi_period i
                then Inl (conflict ''a model spend policy keeps its scope and period; create a policy for the new one instead'')
                else (let p' = p\<lparr>po_limit := pi_limit i, po_warn := (case pi_warn i of Some w \<Rightarrow> w | None \<Rightarrow> po_warn p),
                                 po_generation := po_generation p + 1, po_updated := now\<rparr>
                      in Inr (p', db\<lparr>sd_policies := map (\<lambda>q. if po_id q = po_id p then p' else q) (sd_policies db)\<rparr>))))
       | None \<Rightarrow>
          (if current \<noteq> None
           then Inl (conflict ''a model spend policy already exists for this scope and period; reload it and update it'')
           else if (case pi_profile i of Some f \<Rightarrow> \<not> profile_exists f | None \<Rightarrow> False)
           then Inl (not_found ''model profile was not found'')
           else if length (filter (\<lambda>p. po_principal p = prin) (sd_policies db)) \<ge> max_policies_per_principal
           then Inl (HarnessError ''LIMIT_EXCEEDED'' ''at most 64 model spend policies are allowed'' 429 False)
           else if \<exists>p \<in> set (sd_policies db). po_id p = fresh
           then Inl (HarnessError ''SQLITE'' ''UNIQUE constraint failed'' 500 False)
           else (let p = \<lparr>po_id = fresh, po_principal = prin, po_profile = pi_profile i, po_period = pi_period i,
                          po_limit = pi_limit i,
                          po_warn = (case pi_warn i of Some w \<Rightarrow> w | None \<Rightarrow> default_warn_percent),
                          po_generation = 1, po_created = now, po_updated = now\<rparr>
                 in Inr (p, db\<lparr>sd_policies := sd_policies db @ [p]\<rparr>)))))"

definition delete_policy :: "string \<Rightarrow> string \<Rightarrow> int \<Rightarrow> spend_db \<Rightarrow> (harness_error, policy_row \<times> spend_db) result" where
  "delete_policy prin pid generation db =
     (case find_policy prin pid db of
        None \<Rightarrow> Inl (not_found ''model spend policy was not found'')
      | Some p \<Rightarrow>
         (if po_generation p \<noteq> generation then Inl (conflict ''model spend policy changed; reload it and retry'')
          else Inr (p, db\<lparr>sd_policies := filter (\<lambda>q. \<not> (po_principal q = prin \<and> po_id q = pid)) (sd_policies db)\<rparr>)))"

section \<open>The summary\<close>

definition policy_before :: "policy_row \<Rightarrow> policy_row \<Rightarrow> bool" where
  "policy_before p q = (case (po_profile p, po_profile q) of
     (None, Some _) \<Rightarrow> True
   | (Some _, None) \<Rightarrow> False
   | (Some a, Some b) \<Rightarrow> str_less a b \<or> (a = b \<and> period_order (po_period p) < period_order (po_period q))
   | (None, None) \<Rightarrow> period_order (po_period p) < period_order (po_period q))"

definition list_policies :: "string \<Rightarrow> spend_db \<Rightarrow> policy_row list" where
  "list_policies prin db = order_by policy_before (filter (\<lambda>p. po_principal p = prin) (sd_policies db))"

record spend_window =
  sw_profile :: "string option"
  sw_period :: spend_period
  sw_starts :: int
  sw_ends :: int
  sw_totals :: spend_totals
  sw_policy :: "policy_row option"
  sw_threshold :: "threshold option"

definition spent_profiles :: "string \<Rightarrow> int \<Rightarrow> spend_db \<Rightarrow> string list" where
  "spent_profiles prin now db = map (\<lambda>p. drop 8 (ld_profile_key (snd p)))
     (filter (\<lambda>p. ld_principal (snd p) = prin \<and> ld_month (snd p) = utc_month_key now
        \<and> starts_with ''profile:'' (ld_profile_key (snd p))) (sd_rows db))"

definition summary_profiles :: "string \<Rightarrow> int \<Rightarrow> spend_db \<Rightarrow> string list" where
  "summary_profiles prin now db = order_by str_less (remdups (spent_profiles prin now db
     @ concat (map (\<lambda>p. case po_profile p of Some i \<Rightarrow> [i] | None \<Rightarrow> []) (list_policies prin db))))"

definition summary_window :: "string \<Rightarrow> int \<Rightarrow> spend_db \<Rightarrow> string option \<Rightarrow> spend_period \<Rightarrow> spend_window" where
  "summary_window prin now db profile period =
     (let totals = window_totals prin (map_option saved_profile_spend_key profile) period now db;
          policy = find (\<lambda>p. po_profile p = profile \<and> po_period p = period) (list_policies prin db)
      in \<lparr>sw_profile = profile, sw_period = period, sw_starts = fst (window_bounds period now),
          sw_ends = snd (window_bounds period now), sw_totals = totals, sw_policy = policy,
          sw_threshold = map_option (threshold_state (wt_committed totals)) policy\<rparr>)"

definition spend_summary :: "string \<Rightarrow> int \<Rightarrow> spend_db \<Rightarrow> spend_window list" where
  "spend_summary prin now db = concat (map (\<lambda>profile. map (summary_window prin now db profile) [Day, Month])
     (None # map Some (summary_profiles prin now db)))"

end
