(* ===== verification/SpendLedgerFacts.thy ===== *)
theory SpendLedgerFacts
  imports SpendLedger
begin

text \<open>
  Lemmas about the spend ledger: how an insert or an update of one row moves the figure admission
  compares with a limit, the runs of ledger operations, and the invariants every run keeps.
\<close>

section \<open>Figures and one row\<close>

definition row_weight :: "policy_row \<Rightarrow> string \<Rightarrow> ledger_row \<Rightarrow> int" where
  "row_weight p window row =
     (if in_window (po_principal p) (map_option saved_profile_spend_key (po_profile p)) window row \<and> ld_state row \<noteq> Released
      then row_charge row else 0)"

lemma committed_msum: "committed p window db = msum (row_weight p window) (sd_rows db)"
  by (simp add: committed_def row_weight_def [abs_def])

definition policy_applies :: "string \<Rightarrow> string \<Rightarrow> policy_row \<Rightarrow> bool" where
  "policy_applies prin profile_key p = (po_principal p = prin
     \<and> (case po_profile p of None \<Rightarrow> True | Some i \<Rightarrow> profile_key = saved_profile_spend_key i))"

lemma applicable_policies_set:
  "set (applicable_policies prin profile_key db) = {p \<in> set (sd_policies db). policy_applies prin profile_key p}"
  by (auto simp: applicable_policies_def policy_applies_def)

lemma month_key_of_day: "take 7 (utc_day_key now) = utc_month_key now"
  by (simp add: utc_day_key_def utc_month_key_def)

lemma month_key_short [simp]: "length (utc_month_key now) \<noteq> 10" "take 7 (utc_month_key now) = utc_month_key now"
  by (simp_all add: utc_month_key_def)

lemma admitted_in_window:
  "policy_applies (ad_principal ad) (ad_profile_key ad) p \<Longrightarrow>
     in_window (po_principal p) (map_option saved_profile_spend_key (po_profile p)) (window_key (po_period p) (ad_now ad)) (admitted_row ad)"
  by (cases "po_period p"; cases "po_profile p")
    (simp_all add: policy_applies_def in_window_def admitted_row_def window_key_def month_key_of_day)

lemma check_policies_Inr:
  "check_policies db ad ps = Inr cs \<longleftrightarrow>
     (\<forall>p \<in> set ps. committed p (window_key (po_period p) (ad_now ad)) db + ad_reserved ad \<le> po_limit p)
     \<and> cs = map (\<lambda>p. crossing p (window_key (po_period p) (ad_now ad)))
        (filter (\<lambda>p. \<not> reaches_warning (committed p (window_key (po_period p) (ad_now ad)) db) p
           \<and> reaches_warning (committed p (window_key (po_period p) (ad_now ad)) db + ad_reserved ad) p) ps)"
proof (induction ps arbitrary: cs)
  case Nil
  then show ?case by auto
next
  case (Cons p ps)
  show ?case by (auto simp: Let_def ebind_Inr_iff Cons.IH)
qed

lemma check_policies_Inl:
  "check_policies db ad ps = Inl e \<Longrightarrow> \<exists>p \<in> set ps.
     committed p (window_key (po_period p) (ad_now ad)) db + ad_reserved ad > po_limit p
     \<and> e = limit_error p (committed p (window_key (po_period p) (ad_now ad)) db) (ad_reserved ad)"
  by (induction ps) (auto simp: Let_def ebind_Inl_iff split: if_splits)

lemma committed_new_row:
  assumes "jget (sd_rows db) lease = None"
  shows "committed p window (db\<lparr>sd_rows := jset lease row (sd_rows db)\<rparr>) = committed p window db + row_weight p window row"
  using assms by (simp add: committed_msum msum_jset)

lemma committed_changed_row:
  assumes "jget (sd_rows db) lease = Some row"
  shows "committed p window (db\<lparr>sd_rows := jset lease row' (sd_rows db)\<rparr>)
    = committed p window db - row_weight p window row + row_weight p window row'"
  using assms by (simp add: committed_msum msum_jset)

section \<open>Runs\<close>

datatype ledger_op =
    Admit admission
  | MarkIssuing string
  | ReleaseRefused string int
  | RecordBoot string string
  | Settle string "revocation option" int
  | Prune int
  | SetPolicy "string \<Rightarrow> bool" string string policy_input int
  | DeletePolicy string string int

text \<open>A call that throws rolls its transaction back.\<close>

fun ledger_step :: "ledger_op \<Rightarrow> spend_db \<Rightarrow> spend_db" where
  "ledger_step (Admit ad) db = (case admit ad db of Inl _ \<Rightarrow> db | Inr (_, db') \<Rightarrow> db')"
| "ledger_step (MarkIssuing lease) db = mark_issuing lease db"
| "ledger_step (ReleaseRefused lease now) db = release_refused_issue lease now db"
| "ledger_step (RecordBoot lease boot) db = record_gateway_boot lease boot db"
| "ledger_step (Settle lease rv now) db = snd (snd (settle lease rv now db))"
| "ledger_step (Prune now) db = snd (prune_ledger now db)"
| "ledger_step (SetPolicy ex fresh prin i now) db = (case set_policy ex fresh prin i now db of Inl _ \<Rightarrow> db | Inr (_, db') \<Rightarrow> db')"
| "ledger_step (DeletePolicy prin pid g) db = (case delete_policy prin pid g db of Inl _ \<Rightarrow> db | Inr (_, db') \<Rightarrow> db')"

definition ledger_run :: "ledger_op list \<Rightarrow> spend_db \<Rightarrow> spend_db" where
  "ledger_run ops db = fold ledger_step ops db"

lemma ledger_run_invariant:
  assumes "\<And>op s. I s \<Longrightarrow> I (ledger_step op s)" "I db"
  shows "I (ledger_run ops db)"
  using assms(2) unfolding ledger_run_def by (induction ops arbitrary: db) (simp_all add: assms(1))

section \<open>Well-formed rows\<close>

definition row_ok :: "ledger_row \<Rightarrow> bool" where
  "row_ok row = ((is_open row \<longleftrightarrow> ld_charged row = None) \<and> (is_open row \<longleftrightarrow> ld_settled row = None)
     \<and> (ld_state row = Released \<longrightarrow> ld_charged row = Some 0)
     \<and> (ld_tokens row \<noteq> None \<longleftrightarrow> ld_state row = Settled)
     \<and> (ld_boot row \<noteq> None \<longrightarrow> ld_state row \<noteq> Reserved)
     \<and> 0 \<le> ld_reserved row \<and> ld_month row = take 7 (ld_day row))"

definition rows_ok :: "spend_db \<Rightarrow> bool" where
  "rows_ok db = (jok (sd_rows db) \<and> list_all (\<lambda>p. row_ok (snd p)) (sd_rows db))"

lemma list_all_jset: "list_all (\<lambda>p. P (snd p)) m \<Longrightarrow> P v \<Longrightarrow> list_all (\<lambda>p. P (snd p)) (jset k v m)"
  by (induction k v m rule: jset.induct) auto

lemma rows_ok_get: "rows_ok db \<Longrightarrow> jget (sd_rows db) lease = Some row \<Longrightarrow> row_ok row"
  by (auto simp: rows_ok_def list_all_iff dest!: jget_in_set)

lemma rows_ok_set: "rows_ok db \<Longrightarrow> row_ok row \<Longrightarrow> rows_ok (db\<lparr>sd_rows := jset lease row (sd_rows db)\<rparr>)"
  by (simp add: rows_ok_def list_all_jset)

lemma rows_ok_update:
  "rows_ok db \<Longrightarrow> (\<And>row. row_ok row \<Longrightarrow> guard row \<Longrightarrow> row_ok (f row)) \<Longrightarrow> rows_ok (update_row lease guard f db)"
  by (auto simp: update_row_def intro: rows_ok_set dest: rows_ok_get split: option.split)

lemma settled_outcome_cases:
  assumes "settled_outcome lease rv row = (state, charged, tokens)"
  obtains
    (Settled) r s where "rv = Some r" "rv_settlement r = Some s" "st_lease s = lease" "same_boot row rv" "\<not> rv_invalid r"
      "state = Settled" "charged = (if st_without_usage s > 0 then max (st_cost s) (ld_reserved row) else st_cost s)"
      "tokens = Some (st_prompt s, st_read s, st_write s, st_output s, st_reasoning s)"
  | (Released) "state = Released" "charged = 0" "tokens = None" "ld_state row = Reserved" "Option.bind rv rv_settlement = None"
      "\<forall>r. rv = Some r \<longrightarrow> \<not> rv_invalid r"
  | (Unreconciled) "state = Unreconciled" "charged = ld_reserved row" "tokens = None"
  using assms
  by (cases rv; cases "Option.bind rv rv_settlement")
    (auto simp: settled_outcome_def Let_def split: if_splits)

lemma settle_open:
  assumes "jget (sd_rows db) lease = Some row" "is_open row" "settled_outcome lease rv row = (state, charged, tokens)"
  shows "fst (settle lease rv now db) = Some (row\<lparr>ld_state := state, ld_charged := Some charged, ld_settled := Some now,
      ld_tokens := tokens\<rparr>)"
    "snd (snd (settle lease rv now db)) = db\<lparr>sd_rows := jset lease (row\<lparr>ld_state := state, ld_charged := Some charged,
      ld_settled := Some now, ld_tokens := tokens\<rparr>) (sd_rows db)\<rparr>"
  using assms by (simp_all add: settle_def Let_def)

lemma settle_closed:
  "jget (sd_rows db) lease = None \<or> (\<exists>row. jget (sd_rows db) lease = Some row \<and> \<not> is_open row)
     \<Longrightarrow> snd (snd (settle lease rv now db)) = db"
  by (auto simp: settle_def)

lemma rows_ok_settle: "rows_ok db \<Longrightarrow> rows_ok (snd (snd (settle lease rv now db)))"
proof -
  assume ok: "rows_ok db"
  show ?thesis
  proof (cases "\<exists>row. jget (sd_rows db) lease = Some row \<and> is_open row")
    case True
    then obtain row where row: "jget (sd_rows db) lease = Some row" "is_open row" by blast
    obtain state charged tokens where out: "settled_outcome lease rv row = (state, charged, tokens)"
      by (cases "settled_outcome lease rv row")
    have "row_ok (row\<lparr>ld_state := state, ld_charged := Some charged, ld_settled := Some now, ld_tokens := tokens\<rparr>)"
      using out rows_ok_get [OF ok row(1)]
      by (cases rule: settled_outcome_cases) (use row(2) in \<open>auto simp: row_ok_def is_open_def\<close>)
    then show ?thesis
      by (simp add: settle_open(2) [OF row out] rows_ok_set [OF ok])
  next
    case False
    with ok show ?thesis by (cases "jget (sd_rows db) lease") (simp_all add: settle_closed)
  qed
qed

lemma jok_filter: "jok m \<Longrightarrow> jok (filter P m)"
  by (simp add: jok_def distinct_map_filter)

lemma admit_InrE:
  assumes "admit ad db = Inr (cs, db')"
  obtains "0 \<le> ad_reserved ad" "is_safe (ad_reserved ad)" "jget (sd_rows db) (ad_lease ad) = None"
    "check_policies db ad (applicable_policies (ad_principal ad) (ad_profile_key ad) db) = Inr cs"
    "db' = db\<lparr>sd_rows := jset (ad_lease ad) (admitted_row ad) (sd_rows db)\<rparr>"
  using assms by (auto simp: admit_def ebind_Inr_iff jhas_def split: if_splits)

lemma set_policy_rows: "set_policy ex fresh prin i now db = Inr (p, db') \<Longrightarrow> sd_rows db' = sd_rows db"
  by (auto simp: set_policy_def Let_def split: if_splits option.splits)

lemma delete_policy_rows: "delete_policy prin pid g db = Inr (p, db') \<Longrightarrow> sd_rows db' = sd_rows db"
  by (auto simp: delete_policy_def split: if_splits option.splits)

lemma rows_ok_step: "rows_ok db \<Longrightarrow> rows_ok (ledger_step op db)"
proof (induction op db rule: ledger_step.induct)
  case (1 ad db)
  have "row_ok (admitted_row ad)" if "0 \<le> ad_reserved ad"
    using that by (simp add: row_ok_def admitted_row_def is_open_def month_key_of_day)
  with 1 show ?case by (auto split: sum.split elim!: admit_InrE intro: rows_ok_set)
next
  case (2 lease db)
  then show ?case by (auto simp: mark_issuing_def row_ok_def is_open_def intro!: rows_ok_update)
next
  case (3 lease now db)
  then show ?case by (auto simp: release_refused_issue_def row_ok_def is_open_def intro!: rows_ok_update)
next
  case (4 lease boot db)
  then show ?case by (auto simp: record_gateway_boot_def row_ok_def is_open_def intro!: rows_ok_update)
next
  case (5 lease rv now db)
  then show ?case by (simp add: rows_ok_settle)
next
  case (6 now db)
  then show ?case by (auto simp: prune_ledger_def rows_ok_def jok_filter list_all_iff)
next
  case (7 ex fresh prin i now db)
  then show ?case by (auto simp: rows_ok_def dest: set_policy_rows split: sum.split)
next
  case (8 prin pid g db)
  then show ?case by (auto simp: rows_ok_def dest: delete_policy_rows split: sum.split)
qed

lemma rows_ok_new [simp]: "rows_ok new_ledger"
  by (simp add: rows_ok_def new_ledger_def)

lemma rows_ok_run: "rows_ok db \<Longrightarrow> rows_ok (ledger_run ops db)"
  by (rule ledger_run_invariant [of rows_ok, OF rows_ok_step])

section \<open>Well-formed policies\<close>

definition policy_ok :: "policy_row \<Rightarrow> bool" where
  "policy_ok p = (1 \<le> po_limit p \<and> po_limit p \<le> 1000000000000 \<and> 1 \<le> po_warn p \<and> po_warn p \<le> 100 \<and> 0 < po_generation p)"

definition policy_scope :: "policy_row \<Rightarrow> string \<times> string option \<times> spend_period" where
  "policy_scope p = (po_principal p, po_profile p, po_period p)"

definition policies_ok :: "policy_row list \<Rightarrow> bool" where
  "policies_ok ps = (distinct (map po_id ps) \<and> distinct (map policy_scope ps) \<and> list_all policy_ok ps
     \<and> (\<forall>prin. length (filter (\<lambda>p. po_principal p = prin) ps) \<le> max_policies_per_principal))"

lemma find_SomeD: "find P xs = Some x \<Longrightarrow> x \<in> set xs \<and> P x"
  by (induction xs) (auto split: if_splits)

lemma map_replaced:
  assumes "\<And>q. g (if po_id q = pid then p' else q) = (if po_id q = pid then g p' else g q)"
    and "\<And>q. q \<in> set ps \<Longrightarrow> po_id q = pid \<Longrightarrow> g q = g p'"
  shows "map g (map (\<lambda>q. if po_id q = pid then p' else q) ps) = map g ps"
  using assms(2) by (induction ps) auto

lemma replaced_policies_ok:
  assumes ok: "policies_ok ps" and p: "p \<in> set ps" and p': "po_id p' = po_id p" "policy_scope p' = policy_scope p" "policy_ok p'"
  shows "policies_ok (map (\<lambda>q. if po_id q = po_id p then p' else q) ps)"
proof -
  have same: "q = p" if "q \<in> set ps" "po_id q = po_id p" for q
    using ok p that by (auto simp: policies_ok_def distinct_map inj_on_def)
  have ids: "map po_id (map (\<lambda>q. if po_id q = po_id p then p' else q) ps) = map po_id ps"
    by (rule map_replaced) (auto simp: p')
  have scopes: "map policy_scope (map (\<lambda>q. if po_id q = po_id p then p' else q) ps) = map policy_scope ps"
    by (rule map_replaced) (auto simp: p' dest: same)
  have count: "length (filter (\<lambda>q. po_principal q = prin) xs) = length (filter (\<lambda>s. fst s = prin) (map policy_scope xs))" for prin xs
    by (induction xs) (simp_all add: policy_scope_def)
  show ?thesis
    using ok p'(3) unfolding policies_ok_def ids scopes count [of _ "map _ ps"] count [of _ ps, symmetric]
    by (auto simp: list_all_iff)
qed

lemma set_policy_ok:
  assumes ok: "policies_ok (sd_policies db)" and run: "set_policy ex fresh prin i now db = Inr (p, db')"
  shows "policies_ok (sd_policies db')"
proof -
  have input: "policy_input_ok i" using run by (auto simp: set_policy_def split: if_splits)
  show ?thesis
  proof (cases "pi_policy i")
    case (Some pid)
    then obtain q where q: "find_policy prin pid db = Some q" "po_profile q = pi_profile i" "po_period q = pi_period i"
      and p: "p = q\<lparr>po_limit := pi_limit i, po_warn := (case pi_warn i of Some w \<Rightarrow> w | None \<Rightarrow> po_warn q),
           po_generation := po_generation q + 1, po_updated := now\<rparr>"
      and db': "sd_policies db' = map (\<lambda>r. if po_id r = po_id q then p else r) (sd_policies db)"
      using run by (auto simp: set_policy_def Let_def split: if_splits option.splits)
    have member: "q \<in> set (sd_policies db)"
      using q(1) unfolding find_policy_def by (blast dest: find_SomeD)
    then have "policy_ok q" using ok by (simp add: policies_ok_def list_all_iff)
    then have "policy_ok p"
      using input by (auto simp: p policy_ok_def policy_input_ok_def split: option.splits)
    then show ?thesis
      unfolding db' by (rule replaced_policies_ok [OF ok member, rotated 2]) (simp_all add: p policy_scope_def)
  next
    case None
    then have none: "scope_holder prin (pi_profile i) (pi_period i) db = None"
      and few: "length (filter (\<lambda>p. po_principal p = prin) (sd_policies db)) < max_policies_per_principal"
      and new: "fresh \<notin> po_id ` set (sd_policies db)"
      and db': "sd_policies db' = sd_policies db @ [p]"
      and p: "p = \<lparr>po_id = fresh, po_principal = prin, po_profile = pi_profile i, po_period = pi_period i, po_limit = pi_limit i,
          po_warn = (case pi_warn i of Some w \<Rightarrow> w | None \<Rightarrow> default_warn_percent),
          po_generation = 1, po_created = now, po_updated = now\<rparr>"
      using run by (auto simp: set_policy_def Let_def split: if_splits)
    have "policy_scope p \<notin> policy_scope ` set (sd_policies db)"
      using none by (auto simp: scope_holder_def find_None_iff policy_scope_def p)
    moreover have "policy_ok p"
      using input by (auto simp: p policy_ok_def policy_input_ok_def default_warn_percent_def split: option.splits)
    ultimately show ?thesis
      using ok few new by (auto simp: policies_ok_def db' p)
  qed
qed

lemma filtered_policies_ok: "policies_ok ps \<Longrightarrow> policies_ok (filter P ps)"
proof -
  assume ok: "policies_ok ps"
  have "length (filter Q (filter P ps)) \<le> length (filter Q ps)" for Q
    by (induction ps) auto
  then have "length (filter (\<lambda>p. po_principal p = prin) (filter P ps)) \<le> max_policies_per_principal" for prin
    using ok unfolding policies_ok_def by (meson le_trans)
  then show ?thesis
    using ok by (simp add: policies_ok_def distinct_map_filter list_all_iff)
qed

lemma delete_policy_ok:
  "policies_ok (sd_policies db) \<Longrightarrow> delete_policy prin pid g db = Inr (p, db') \<Longrightarrow> policies_ok (sd_policies db')"
  by (auto simp: delete_policy_def filtered_policies_ok split: if_splits option.splits)

lemma update_row_policies [simp]: "sd_policies (update_row lease guard f db) = sd_policies db"
  by (simp add: update_row_def split: option.split)

lemma settle_policies [simp]: "sd_policies (snd (snd (settle lease rv now db))) = sd_policies db"
  by (simp add: settle_def Let_def split: option.split prod.split)

lemma policies_ok_step: "policies_ok (sd_policies db) \<Longrightarrow> policies_ok (sd_policies (ledger_step op db))"
  by (cases op) (auto simp: mark_issuing_def release_refused_issue_def record_gateway_boot_def prune_ledger_def
      elim!: admit_InrE dest: set_policy_ok delete_policy_ok split: sum.split)

lemma policies_ok_run: "policies_ok (sd_policies (ledger_run ops new_ledger))"
proof -
  have "policies_ok (sd_policies new_ledger)"
    by (simp add: new_ledger_def policies_ok_def)
  then show ?thesis
    using ledger_run_invariant [of "\<lambda>db. policies_ok (sd_policies db)"] policies_ok_step by blast
qed

lemma applicable_at_most_four: "policies_ok (sd_policies db) \<Longrightarrow> length (applicable_policies prin (saved_profile_spend_key k) db) \<le> 4"
proof -
  assume ok: "policies_ok (sd_policies db)"
  let ?ps = "filter (\<lambda>p. po_principal p = prin
      \<and> (case po_profile p of None \<Rightarrow> True | Some i \<Rightarrow> saved_profile_spend_key k = saved_profile_spend_key i)) (sd_policies db)"
  have "distinct (map policy_scope ?ps)"
    using ok by (simp add: policies_ok_def distinct_map_filter)
  moreover have "set (map policy_scope ?ps) \<subseteq> {prin} \<times> {None, Some k} \<times> {Day, Month}"
    using spend_period.exhaust by (auto simp: policy_scope_def saved_profile_spend_key_def split: option.splits)
  then have "card (set (map policy_scope ?ps)) \<le> card ({prin} \<times> {None, Some k} \<times> {Day, Month})"
    by (intro card_mono) simp_all
  ultimately have "length (map policy_scope ?ps) \<le> 4"
    by (simp only: distinct_card [symmetric]) (simp add: card_cartesian_product)
  then show ?thesis by (simp add: applicable_policies_def)
qed

end
