(* ===== verification/SpendTheorems.thy ===== *)
theory SpendTheorems
  imports SpendLedgerFacts
begin

text \<open>
  The properties of the spend ledger: admission keeps every window within its limits, a row settles
  from the gateway's figures or is charged its reservation, closed rows are final, the figure admission uses is the
  one the summary reports, and the tables stay well formed over every run.
\<close>

section \<open>A sample ledger\<close>

definition sample_policy :: policy_row where
  "sample_policy = \<lparr>po_id = ''msp_day'', po_principal = ''prn'', po_profile = None, po_period = Day, po_limit = 1000,
     po_warn = 80, po_generation = 1, po_created = 0, po_updated = 0\<rparr>"

definition sample_ledger :: spend_db where
  "sample_ledger = \<lparr>sd_rows = [], sd_policies = [sample_policy]\<rparr>"

definition sample_admission :: admission where
  "sample_admission = \<lparr>ad_lease = ''lease1'', ad_principal = ''prn'', ad_profile_key = ''profile:p'',
     ad_revision = None, ad_agent = ''agent'', ad_workspace = ''ws'', ad_reserved = 900, ad_now = 1700000000000\<rparr>"

definition sample_row :: ledger_row where
  "sample_row = (admitted_row sample_admission)\<lparr>ld_state := Issuing\<rparr>"

definition admitted_ledger :: spend_db where
  "admitted_ledger = sample_ledger\<lparr>sd_rows := [(''lease1'', sample_row)]\<rparr>"

section \<open>Admission\<close>

text \<open>
  C9: An admitted run fits every policy that applies to it. After a successful admission the figure
  of each applicable policy grew by exactly the reservation and is within the policy's limit, no other row
  changed, and exactly the policies whose warning level was crossed are reported.
\<close>

theorem admission_within_limits:
  assumes "admit ad db = Inr (crossings, db')"
  shows "(\<forall>p \<in> {p \<in> set (sd_policies db). policy_applies (ad_principal ad) (ad_profile_key ad) p}.
      committed p (window_key (po_period p) (ad_now ad)) db'
        = committed p (window_key (po_period p) (ad_now ad)) db + ad_reserved ad
      \<and> committed p (window_key (po_period p) (ad_now ad)) db' \<le> po_limit p)
    \<and> crossings = map (\<lambda>p. crossing p (window_key (po_period p) (ad_now ad)))
        (filter (\<lambda>p. \<not> reaches_warning (committed p (window_key (po_period p) (ad_now ad)) db) p
            \<and> reaches_warning (committed p (window_key (po_period p) (ad_now ad)) db') p)
          (applicable_policies (ad_principal ad) (ad_profile_key ad) db))
    \<and> (\<forall>l. find_entry l db' = (if l = ad_lease ad then Some (admitted_row ad) else find_entry l db))"
proof -
  obtain fresh: "jget (sd_rows db) (ad_lease ad) = None"
    and checks: "check_policies db ad (applicable_policies (ad_principal ad) (ad_profile_key ad) db) = Inr crossings"
    and db': "db' = db\<lparr>sd_rows := jset (ad_lease ad) (admitted_row ad) (sd_rows db)\<rparr>"
    by (rule admit_InrE [OF assms])
  have grows: "committed p (window_key (po_period p) (ad_now ad)) db'
      = committed p (window_key (po_period p) (ad_now ad)) db + ad_reserved ad"
    if "policy_applies (ad_principal ad) (ad_profile_key ad) p" for p
    using admitted_in_window [OF that]
    by (simp add: db' committed_new_row [OF fresh] row_weight_def row_charge_def admitted_row_def)
  let ?ps = "applicable_policies (ad_principal ad) (ad_profile_key ad) db"
  have "crossings = map (\<lambda>p. crossing p (window_key (po_period p) (ad_now ad)))
      (filter (\<lambda>p. \<not> reaches_warning (committed p (window_key (po_period p) (ad_now ad)) db) p
         \<and> reaches_warning (committed p (window_key (po_period p) (ad_now ad)) db + ad_reserved ad) p) ?ps)"
    using checks unfolding check_policies_Inr by blast
  also have "\<dots> = map (\<lambda>p. crossing p (window_key (po_period p) (ad_now ad)))
      (filter (\<lambda>p. \<not> reaches_warning (committed p (window_key (po_period p) (ad_now ad)) db) p
         \<and> reaches_warning (committed p (window_key (po_period p) (ad_now ad)) db') p) ?ps)"
    by (rule arg_cong [OF filter_cong]) (simp_all add: applicable_policies_set grows)
  finally have crossed: "crossings = \<dots>" .
  have limits: "\<forall>p \<in> set ?ps. committed p (window_key (po_period p) (ad_now ad)) db + ad_reserved ad \<le> po_limit p"
    using checks unfolding check_policies_Inr by blast
  show ?thesis
    using limits grows crossed by (intro conjI) (auto simp: applicable_policies_set db' find_entry_def)
qed

lemma sample_admitted: "\<exists>cs db'. admit sample_admission sample_ledger = Inr (cs, db')"
proof -
  have "is_ok (admit sample_admission sample_ledger)" by code_simp
  then show ?thesis by (auto simp: is_ok_iff)
qed

theorem admission_within_limits_witness:
  "\<exists>cs db'. admit sample_admission sample_ledger = Inr (cs, db') \<and> find_entry ''lease1'' db' = Some (admitted_row sample_admission)"
proof -
  obtain cs db' where adm: "admit sample_admission sample_ledger = Inr (cs, db')"
    using sample_admitted by blast
  from admission_within_limits [OF adm] adm show ?thesis by (auto simp: sample_admission_def)
qed

text \<open>
  C10: When a run is refused. A reservation is refused exactly when it is not a nonnegative safe
  integer, its lease id is taken, or some policy that applies would exceed its limit; a policy refusal is
  \<open>LIMIT_EXCEEDED\<close> with status 429 and the policy's own figures.
\<close>

theorem admission_refused_iff:
  "(\<exists>e. admit ad db = Inl e) \<longleftrightarrow>
     ad_reserved ad < 0 \<or> max_safe < ad_reserved ad
     \<or> (\<exists>row. find_entry (ad_lease ad) db = Some row)
     \<or> (\<exists>p. p \<in> set (sd_policies db) \<and> policy_applies (ad_principal ad) (ad_profile_key ad) p
          \<and> po_limit p < committed p (window_key (po_period p) (ad_now ad)) db + ad_reserved ad)"
proof -
  let ?ps = "applicable_policies (ad_principal ad) (ad_profile_key ad) db"
  have "(\<exists>cs. check_policies db ad ?ps = Inr cs) \<longleftrightarrow>
      (\<forall>p \<in> set ?ps. committed p (window_key (po_period p) (ad_now ad)) db + ad_reserved ad \<le> po_limit p)"
    by (simp add: check_policies_Inr)
  then show ?thesis
    by (cases "check_policies db ad ?ps")
      (auto simp: admit_def is_safe_def jhas_def find_entry_def applicable_policies_set not_le)
qed

section \<open>Settlement\<close>

text \<open>
  What a revocation charges. An open row settles at the gateway's cost, and at no less than the
  reservation when some request reported no usage; it is released free of charge only when it never became
  issuing and no settlement came back; otherwise it is charged its whole reservation. The figures of its own
  windows move from the reservation to the charge and every other row keeps its state.
\<close>

theorem settle_charges:
  assumes "find_entry lease db = Some row" "is_open row" "ld_charged row = None"
    and "settle lease rv now db = (result, crossings, db')"
  shows "\<exists>row'. result = Some row' \<and> find_entry lease db' = Some row' \<and> \<not> is_open row'
    \<and> (ld_state row' = Released \<longrightarrow> ld_charged row' = Some 0 \<and> ld_state row = Reserved
        \<and> Option.bind rv rv_settlement = None)
    \<and> (ld_state row' = Unreconciled \<longrightarrow> ld_charged row' = Some (ld_reserved row))
    \<and> (ld_state row' = Settled \<longrightarrow> (\<exists>s. Option.bind rv rv_settlement = Some s \<and> st_lease s = lease
        \<and> ld_charged row' = Some (if st_without_usage s > 0 then max (st_cost s) (ld_reserved row) else st_cost s)))
    \<and> (\<forall>l. l \<noteq> lease \<longrightarrow> find_entry l db' = find_entry l db)
    \<and> (\<forall>p window. committed p window db' = committed p window db
        + (if in_window (po_principal p) (map_option saved_profile_spend_key (po_profile p)) window row
           then row_charge row' - ld_reserved row else 0))"
proof -
  have row: "jget (sd_rows db) lease = Some row" using assms(1) by (simp add: find_entry_def)
  obtain state charged tokens where out: "settled_outcome lease rv row = (state, charged, tokens)"
    by (cases "settled_outcome lease rv row")
  let ?row' = "row\<lparr>ld_state := state, ld_charged := Some charged, ld_settled := Some now, ld_tokens := tokens\<rparr>"
  have result: "result = Some ?row'" and db': "db' = db\<lparr>sd_rows := jset lease ?row' (sd_rows db)\<rparr>"
    using settle_open [OF row assms(2) out, of now] assms(4) by simp_all
  have weight: "row_weight p window row = (if in_window (po_principal p) (map_option saved_profile_spend_key (po_profile p)) window row
      then ld_reserved row else 0)" for p window
    using assms(2,3) by (auto simp: row_weight_def row_charge_def is_open_def)
  have weight': "row_weight p window ?row' = (if in_window (po_principal p) (map_option saved_profile_spend_key (po_profile p)) window row
      then row_charge ?row' else 0)" for p window
  proof -
    have free: "state = Released \<longrightarrow> charged = 0"
      using out by (cases rule: settled_outcome_cases) blast+
    have inside: "in_window pr k window ?row' = in_window pr k window row" for pr k
      by (cases k) (simp_all add: in_window_def)
    show ?thesis using free by (cases "state = Released") (simp_all only: row_weight_def inside, simp_all add: row_charge_def)
  qed
  have moved: "committed p window db' = committed p window db
      + (if in_window (po_principal p) (map_option saved_profile_spend_key (po_profile p)) window row
         then row_charge ?row' - ld_reserved row else 0)" for p window
    unfolding db' committed_changed_row [OF row] weight weight' by simp
  have found: "find_entry lease db' = Some ?row'" "\<forall>l. l \<noteq> lease \<longrightarrow> find_entry l db' = find_entry l db"
    by (simp_all add: db' find_entry_def)
  have "\<not> is_open ?row' \<and> (ld_state ?row' = Released \<longrightarrow> ld_charged ?row' = Some 0 \<and> ld_state row = Reserved
        \<and> Option.bind rv rv_settlement = None)
    \<and> (ld_state ?row' = Unreconciled \<longrightarrow> ld_charged ?row' = Some (ld_reserved row))
    \<and> (ld_state ?row' = Settled \<longrightarrow> (\<exists>s. Option.bind rv rv_settlement = Some s \<and> st_lease s = lease
        \<and> ld_charged ?row' = Some (if st_without_usage s > 0 then max (st_cost s) (ld_reserved row) else st_cost s)))"
    using out by (cases rule: settled_outcome_cases) (auto simp: is_open_def)
  then show ?thesis
    using result found moved by blast
qed

theorem settle_charges_witness:
  "\<exists>row'. find_entry ''lease1'' (snd (snd (settle ''lease1'' None 1700000001000 admitted_ledger))) = Some row' \<and> \<not> is_open row'"
proof -
  obtain result crossings db' where run: "settle ''lease1'' None 1700000001000 admitted_ledger = (result, crossings, db')"
    by (cases "settle ''lease1'' None 1700000001000 admitted_ledger")
  have "find_entry ''lease1'' admitted_ledger = Some sample_row" "is_open sample_row" "ld_charged sample_row = None"
    by (simp_all add: admitted_ledger_def find_entry_def jget_Cons sample_row_def is_open_def admitted_row_def)
  from settle_charges [OF this run] show ?thesis by (auto simp: run)
qed

text \<open>
  The settlement the gateway sends is the one the ledger charges. For a settlement within the
  schema's ranges, the runner reads back from the gateway's answer exactly that settlement and boot id, so an
  issuing row recorded under that boot settles at its cost; outside the ranges the answer is marked invalid and never read as a charge.
\<close>

theorem settlement_read_back:
  assumes "boot \<noteq> []" "length boot \<le> 256"
  shows "read_revocation (st_lease s) (revoke_answer revoked boot (Some s)) =
      (if settlement_in_range s
       then \<lparr>rv_revoked = revoked, rv_boot = Some boot, rv_settlement = Some s, rv_invalid = False\<rparr>
       else \<lparr>rv_revoked = revoked, rv_boot = Some boot, rv_settlement = None, rv_invalid = True\<rparr>)
    \<and> (lease \<noteq> st_lease s \<longrightarrow> rv_settlement (read_revocation lease (revoke_answer revoked boot (Some s))) = None
        \<and> rv_invalid (read_revocation lease (revoke_answer revoked boot (Some s))))
    \<and> read_revocation lease (revoke_answer revoked boot None)
      = \<lparr>rv_revoked = revoked, rv_boot = Some boot, rv_settlement = None, rv_invalid = False\<rparr>"
proof -
  have "parse_settlement (settlement_json s) = (if settlement_in_range s then Some s else None)"
    by (simp add: settlement_json_parses settlement_json_out_of_range)
  then show ?thesis
    using assms by (auto simp: read_revocation_def revoke_answer_def field_Cons bounded_string_def Let_def)
qed

definition sample_settlement :: lease_settlement where
  "sample_settlement = \<lparr>st_lease = ''lease1'', st_reason = Revoked, st_at = 5, st_initial_input = 100, st_initial_output = 10,
     st_initial_cost = 900, st_cost = 450, st_overrun = 0, st_prompt = 7, st_read = 0, st_write = 0, st_output = 3,
     st_reasoning = 0, st_requests = 1, st_without_usage = 0\<rparr>"

theorem settlement_read_back_witness:
  "rv_settlement (read_revocation ''lease1'' (revoke_answer True ''boot'' (Some sample_settlement))) = Some sample_settlement"
proof -
  have "settlement_in_range sample_settlement" "st_lease sample_settlement = ''lease1''"
    by (simp_all add: settlement_in_range_def sample_settlement_def max_safe_def settlement_cost_max_def)
  then show ?thesis
    using settlement_read_back [of "''boot''" sample_settlement True "''lease1''"] by simp
qed

section \<open>Runs\<close>

lemma update_row_other: "jget (sd_rows (update_row lease guard f db)) l
    = (if l = lease then (case jget (sd_rows db) l of Some row \<Rightarrow> Some (if guard row then f row else row) | None \<Rightarrow> None)
       else jget (sd_rows db) l)"
  by (auto simp: update_row_def split: option.split)

lemma jget_filter: "jget m k = Some v \<Longrightarrow> P (k, v) \<Longrightarrow> jget (filter P m) k = Some v"
  by (induction m) (auto simp: jget_Cons split: if_splits)

definition keeps :: "ledger_row \<Rightarrow> ledger_op \<Rightarrow> bool" where
  "keeps row op = (case op of Prune now \<Rightarrow> \<not> prunable now row | _ \<Rightarrow> True)"

lemma closed_row_step:
  assumes "find_entry lease db = Some row" "\<not> is_open row" "keeps row op"
  shows "find_entry lease (ledger_step op db) = Some row"
proof (cases op)
  case (Admit ad)
  then show ?thesis using assms by (auto simp: find_entry_def split: sum.split elim!: admit_InrE)
next
  case (Settle l rv now)
  have "l \<noteq> lease \<Longrightarrow> jget (sd_rows (snd (snd (settle l rv now db)))) lease = jget (sd_rows db) lease"
    by (simp add: settle_def Let_def split: option.split prod.split)
  moreover have "snd (snd (settle lease rv now db)) = db"
    using assms by (intro settle_closed) (simp add: find_entry_def)
  ultimately show ?thesis using assms Settle by (cases "l = lease") (simp_all add: find_entry_def)
next
  case (Prune now)
  then show ?thesis
    using assms by (simp add: find_entry_def prune_ledger_def keeps_def jget_filter)
next
  case (SetPolicy ex fresh prin i now)
  then show ?thesis using assms by (auto simp: find_entry_def dest: set_policy_rows split: sum.split)
next
  case (DeletePolicy prin pid g)
  then show ?thesis using assms by (auto simp: find_entry_def dest: delete_policy_rows split: sum.split)
qed (use assms in \<open>auto simp: find_entry_def mark_issuing_def release_refused_issue_def record_gateway_boot_def
      update_row_other is_open_def\<close>)

text \<open>
  C11: A closed row is final. Whatever operations follow, retried revocations, repeated admissions of
  the same lease and policy changes included, a closed row keeps every column until a prune after the retention horizon deletes it.
\<close>

theorem closed_row_final:
  assumes "find_entry lease db = Some row" "\<not> is_open row"
    and "\<forall>op \<in> set ops. keeps row op"
  shows "find_entry lease (ledger_run ops db) = Some row"
  using assms(1,3) unfolding ledger_run_def
  by (induction ops arbitrary: db) (simp_all add: closed_row_step [OF _ assms(2)])

theorem closed_row_final_witness:
  "\<exists>row. find_entry ''lease1'' (ledger_run [Admit sample_admission, Settle ''lease1'' None 9, Prune 10]
     (sample_ledger\<lparr>sd_rows := [(''lease1'', sample_row\<lparr>ld_state := Released, ld_charged := Some 0, ld_settled := Some 5\<rparr>)]\<rparr>)) = Some row"
proof -
  let ?row = "sample_row\<lparr>ld_state := Released, ld_charged := Some 0, ld_settled := Some 5\<rparr>"
  let ?ops = "[Admit sample_admission, Settle ''lease1'' None 9, Prune 10]"
  have "find_entry ''lease1'' (sample_ledger\<lparr>sd_rows := [(''lease1'', ?row)]\<rparr>) = Some ?row"
    by (simp add: find_entry_def jget_Cons)
  moreover have "\<not> is_open ?row" by (simp add: is_open_def)
  moreover have "\<forall>op \<in> set ?ops. keeps ?row op"
    by (simp add: keeps_def prunable_def spend_retention_ms_def is_open_def)
  ultimately show ?thesis
    using closed_row_final [of "''lease1''" _ ?row ?ops] by blast
qed

text \<open>
  The figure admission compares with a limit is the committed total the summary reports. In
  every reachable ledger the sum of charges, or reservations while open, over the rows not released equals the
  settled, reserved and unreconciled totals of the same window together.
\<close>

theorem committed_is_reported_total:
  "committed p window (ledger_run ops new_ledger)
     = wt_committed (totals_of (po_principal p) (map_option saved_profile_spend_key (po_profile p)) window (ledger_run ops new_ledger))"
proof -
  define db where "db = ledger_run ops new_ledger"
  have ok: "rows_ok db" by (simp add: db_def rows_ok_run)
  let ?in = "in_window (po_principal p) (map_option saved_profile_spend_key (po_profile p)) window"
  have row: "row_weight p window row = (if ?in row \<and> ld_state row = Settled then charged_or_zero row else 0)
      + (if ?in row \<and> is_open row then ld_reserved row else 0)
      + (if ?in row \<and> ld_state row = Unreconciled then charged_or_zero row else 0)" if "row_ok row" for row
    using that by (cases "ld_state row"; cases "ld_charged row")
      (auto simp: row_weight_def row_charge_def charged_or_zero_def is_open_def row_ok_def)
  have "msum (row_weight p window) m = msum (\<lambda>row. if ?in row \<and> ld_state row = Settled then charged_or_zero row else 0) m
      + msum (\<lambda>row. if ?in row \<and> is_open row then ld_reserved row else 0) m
      + msum (\<lambda>row. if ?in row \<and> ld_state row = Unreconciled then charged_or_zero row else 0) m"
    if "list_all (\<lambda>p. row_ok (snd p)) m" for m :: "(string, ledger_row) jmap"
    using that by (induction m) (simp_all add: msum_def row)
  then show ?thesis
    using ok by (simp add: rows_ok_def db_def [symmetric] committed_msum totals_of_def window_sum_def Let_def)
qed

text \<open>
  Every reachable ledger row is well formed. A row is open exactly while it has no charge and no
  settlement time, a released row costs nothing, token columns are those of settled rows only, a boot id is only
  recorded once issuing began, and lease ids are unique.
\<close>

theorem ledger_rows_well_formed:
  "rows_ok (ledger_run ops new_ledger)"
  by (simp add: rows_ok_run)

text \<open>
  Every reachable policy table is sound. Policy ids are unique, no two policies share a scope and
  period, limits, warning percentages and generations stay in range, no principal has more than 64
  policies, and so at most four policies apply to a run of a saved profile.
\<close>

theorem spend_policies_sound:
  "policies_ok (sd_policies (ledger_run ops new_ledger))
     \<and> length (applicable_policies prin (saved_profile_spend_key k) (ledger_run ops new_ledger)) \<le> 4"
  by (simp add: policies_ok_run applicable_at_most_four)

section \<open>Windows\<close>

text \<open>
  A window key stands for its reported bounds. For times with a four-digit year, two timestamps
  have the same day or month key exactly when one lies between the window's start and its exclusive end.
\<close>

theorem spend_window_exact:
  assumes "four_digit_time t" "four_digit_time now"
  shows "window_key period t = window_key period now
    \<longleftrightarrow> fst (window_bounds period now) \<le> t \<and> t < snd (window_bounds period now)"
  using assms by (rule window_key_iff)

theorem spend_window_exact_witness: "window_key Month 1709164799999 = window_key Month 1706745600000
    \<and> window_key Month 1709251200000 \<noteq> window_key Month 1706745600000"
proof -
  have years: "four_digit_time 1709164799999" "four_digit_time 1706745600000" "four_digit_time 1709251200000"
    by code_simp+
  have bounds: "window_bounds Month 1706745600000 = (1706745600000, 1709251200000)" by code_simp
  show ?thesis
    using spend_window_exact [OF years(1,2), of Month] spend_window_exact [OF years(3,2), of Month] bounds by simp
qed

end
