(* ===== verification/RevisionDiff.thy ===== *)
theory RevisionDiff
  imports AddressPolicy "HOL-Library.Sublist"
begin

text \<open>
  The line diff of two skill revisions: \<open>apps/runner/src/revision-diff.ts\<close>. The quadratic table of the
  longest common subsequence is a list of rows, built from the last line backwards as the two loops do;
  the forward walk reads it by index.
\<close>

section \<open>Lines\<close>

fun normalize_newlines :: "string \<Rightarrow> string" where
  "normalize_newlines [] = []"
| "normalize_newlines [c] = [c]"
| "normalize_newlines (c # d # s) =
     (if code c = 13 \<and> code d = 10 then d # normalize_newlines s else c # normalize_newlines (d # s))"

definition line_feed :: char where
  "line_feed = char_of (10 :: nat)"

definition to_lines :: "string \<Rightarrow> nat \<Rightarrow> string list \<times> bool" where
  "to_lines text limit =
     (let lines = split_char line_feed (normalize_newlines text);
          lines' = (if length lines > 1 \<and> last lines = [] then butlast lines else lines)
      in if length lines' \<le> limit then (lines', False) else (take limit lines', True))"

section \<open>The longest common subsequence\<close>

text \<open>One row of the table, from the row below it; its last entry is the zero the table was filled with.\<close>

fun lcs_row :: "'a \<Rightarrow> 'a list \<Rightarrow> nat list \<Rightarrow> nat list" where
  "lcs_row x [] below = [0]"
| "lcs_row x (y # ys) below =
     (let right = lcs_row x ys (tl below) in
      (if x = y then hd (tl below) + 1 else max (hd below) (hd right)) # right)"

fun lcs_table :: "'a list \<Rightarrow> 'a list \<Rightarrow> nat list list" where
  "lcs_table [] ys = [replicate (length ys + 1) 0]"
| "lcs_table (x # xs) ys = (let below = lcs_table xs ys in lcs_row x ys (hd below) # below)"

text \<open>The walk from the first cell; \<open>i\<close> and \<open>j\<close> only grow.\<close>

function lcs_walk :: "nat list list \<Rightarrow> 'a list \<Rightarrow> 'a list \<Rightarrow> nat \<Rightarrow> nat \<Rightarrow> (nat \<times> nat) list" where
  "lcs_walk t xs ys i j =
     (if i < length xs \<and> j < length ys then
        (if xs ! i = ys ! j then (i, j) # lcs_walk t xs ys (i + 1) (j + 1)
         else if t ! (i + 1) ! j \<ge> t ! i ! (j + 1) then lcs_walk t xs ys (i + 1) j
         else lcs_walk t xs ys i (j + 1))
      else [])"
  by pat_completeness auto
termination by (relation "measure (\<lambda>(t, xs, ys, i, j). (length xs - i) + (length ys - j))") auto

declare lcs_walk.simps [simp del]

definition common_subsequence :: "'a list \<Rightarrow> 'a list \<Rightarrow> (nat \<times> nat) list" where
  "common_subsequence before after = lcs_walk (lcs_table before after) before after 0 0"

section \<open>The diff\<close>

datatype diff_kind = Context | Added | Removed

record diff_state =
  df_lines :: "(diff_kind \<times> string) list"
  df_added :: nat
  df_removed :: nat
  df_truncated :: bool

definition push_line :: "nat \<Rightarrow> diff_kind \<times> string \<Rightarrow> diff_state \<Rightarrow> diff_state" where
  "push_line max_lines line st =
     (if length (df_lines st) \<ge> max_lines then st\<lparr>df_truncated := True\<rparr>
      else st\<lparr>df_lines := df_lines st @ [line]\<rparr>)"

text \<open>The two inner loops of one match: what the older text lost, then what the newer one gained.\<close>

definition push_removed :: "nat \<Rightarrow> string list \<Rightarrow> diff_state \<Rightarrow> diff_state" where
  "push_removed max_lines ls st =
     fold (\<lambda>l st. push_line max_lines (Removed, l) (st\<lparr>df_removed := df_removed st + 1\<rparr>)) ls st"

definition push_added :: "nat \<Rightarrow> string list \<Rightarrow> diff_state \<Rightarrow> diff_state" where
  "push_added max_lines ls st =
     fold (\<lambda>l st. push_line max_lines (Added, l) (st\<lparr>df_added := df_added st + 1\<rparr>)) ls st"

fun diff_matches :: "nat \<Rightarrow> string list \<Rightarrow> string list \<Rightarrow> nat \<Rightarrow> nat \<Rightarrow> (nat \<times> nat) list \<Rightarrow> diff_state \<Rightarrow> diff_state" where
  "diff_matches max_lines xs ys i j [] st = st"
| "diff_matches max_lines xs ys i j ((a, b) # ps) st =
     (let st1 = push_removed max_lines (drop i (take a xs)) st;
          st2 = push_added max_lines (drop j (take b ys)) st1
      in if a < length xs
         then diff_matches max_lines xs ys (a + 1) (b + 1) ps (push_line max_lines (Context, xs ! a) st2)
         else diff_matches max_lines xs ys (max i a) (max j b) ps st2)"

definition max_diff_lines :: nat where
  "max_diff_lines = 400"

definition max_diff_input_lines :: nat where
  "max_diff_input_lines = 4000"

definition diff_lines :: "nat \<Rightarrow> string list \<Rightarrow> string list \<Rightarrow> diff_state" where
  "diff_lines max_lines xs ys = diff_matches max_lines xs ys 0 0
     (common_subsequence xs ys @ [(length xs, length ys)])
     \<lparr>df_lines = [], df_added = 0, df_removed = 0, df_truncated = False\<rparr>"

definition diff_revision_text :: "string \<Rightarrow> string \<Rightarrow> nat \<Rightarrow> diff_state" where
  "diff_revision_text before after max_lines =
     (let (xs, cut_from) = to_lines before max_diff_input_lines;
          (ys, cut_to) = to_lines after max_diff_input_lines;
          d = diff_lines max_lines xs ys
      in d\<lparr>df_truncated := cut_from \<or> cut_to \<or> df_truncated d\<rparr>)"

fun join_lines :: "string list \<Rightarrow> string" where
  "join_lines [] = []"
| "join_lines [l] = l"
| "join_lines (l # ls) = l @ [line_feed] @ join_lines ls"

definition diff_marker :: "diff_kind \<Rightarrow> string" where
  "diff_marker k = (case k of Added \<Rightarrow> ''+'' | Removed \<Rightarrow> ''-'' | Context \<Rightarrow> '' '')"

definition format_revision_diff :: "diff_state \<Rightarrow> string" where
  "format_revision_diff d =
     (let body = join_lines (map (\<lambda>(k, l). diff_marker k @ l) (df_lines d)) in
      if df_truncated d then body @ [line_feed] @ ''[diff truncated]'' else body)"

section \<open>The table\<close>

fun lcs_length :: "'a list \<Rightarrow> 'a list \<Rightarrow> nat" where
  "lcs_length [] ys = 0"
| "lcs_length xs [] = 0"
| "lcs_length (x # xs) (y # ys) =
     (if x = y then lcs_length xs ys + 1 else max (lcs_length xs (y # ys)) (lcs_length (x # xs) ys))"

lemma lcs_length_Nil [simp]: "lcs_length xs [] = 0"
  by (cases xs) simp_all

lemma lcs_row_length [simp]: "length (lcs_row x ys below) = length ys + 1"
  by (induction x ys below rule: lcs_row.induct) (simp_all add: Let_def)

lemma lcs_row_correct:
  "length below = length ys + 1 \<Longrightarrow> (\<And>j. j \<le> length ys \<Longrightarrow> below ! j = lcs_length xs (drop j ys))
     \<Longrightarrow> j \<le> length ys \<Longrightarrow> lcs_row x ys below ! j = lcs_length (x # xs) (drop j ys)"
proof (induction ys arbitrary: below j)
  case Nil
  then show ?case by simp
next
  case (Cons y ys)
  then obtain b bs where below: "below = b # bs" by (cases below) auto
  have bs: "length bs = length ys + 1" using Cons.prems(1) by (simp add: below)
  have vals: "bs ! k = lcs_length xs (drop k ys)" if "k \<le> length ys" for k
    using Cons.prems(2) [of "Suc k"] that by (simp add: below)
  have right: "lcs_row x ys bs ! k = lcs_length (x # xs) (drop k ys)" if "k \<le> length ys" for k
    using Cons.IH [OF bs vals that] by simp
  have head: "hd (lcs_row x ys bs) = lcs_length (x # xs) ys" "hd bs = lcs_length xs ys" "b = lcs_length xs (y # ys)"
    using right [of 0] vals [of 0] Cons.prems(2) [of 0] bs
    by (auto simp: below hd_conv_nth simp flip: length_greater_0_conv)
  show ?case
  proof (cases j)
    case 0
    then show ?thesis by (simp add: below Let_def head)
  next
    case (Suc k)
    then show ?thesis using right [of k] Cons.prems(3) by (simp add: below Let_def)
  qed
qed

lemma lcs_table_length [simp]: "length (lcs_table xs ys) = length xs + 1"
  by (induction xs) (simp_all add: Let_def)

lemma lcs_table_correct:
  "i \<le> length xs \<Longrightarrow> length (lcs_table xs ys ! i) = length ys + 1
     \<and> (\<forall>j \<le> length ys. lcs_table xs ys ! i ! j = lcs_length (drop i xs) (drop j ys))"
proof (induction xs arbitrary: i)
  case Nil
  then show ?case by (auto simp: nth_Cons split: nat.split)
next
  case (Cons x xs)
  have below: "hd (lcs_table xs ys) = lcs_table xs ys ! 0"
    by (simp add: hd_conv_nth flip: length_greater_0_conv)
  show ?case
  proof (cases i)
    case 0
    then show ?thesis
      using Cons.IH [of 0] by (auto simp: Let_def below intro!: lcs_row_correct)
  next
    case (Suc k)
    then show ?thesis using Cons.IH [of k] Cons.prems by (simp add: Let_def)
  qed
qed

lemma lcs_length_maximal: "subseq zs xs \<Longrightarrow> subseq zs ys \<Longrightarrow> length zs \<le> lcs_length xs ys"
proof (induction xs ys arbitrary: zs rule: lcs_length.induct)
  case (1 ys)
  then show ?case by simp
next
  case (2 x xs)
  then show ?case by simp
next
  case (3 x xs y ys)
  show ?case
  proof (cases zs)
    case Nil
    then show ?thesis by simp
  next
    case (Cons z zs')
    show ?thesis
    proof (cases "x = y")
      case True
      have "subseq zs' xs" "subseq zs' ys"
        using 3(4,5) True by (auto simp: Cons split: if_splits dest: subseq_Cons')
      then have "length zs' \<le> lcs_length xs ys" using 3(1) True by blast
      with True show ?thesis by (simp add: Cons)
    next
      case False
      then consider "subseq zs xs" | "subseq zs ys"
        using 3(4,5) by (auto simp: Cons split: if_splits)
      then have "length zs \<le> lcs_length xs (y # ys) \<or> length zs \<le> lcs_length (x # xs) ys"
        using 3(2,3) [OF False] 3(4,5) by cases blast+
      with False show ?thesis by auto
    qed
  qed
qed

end
