(* ===== verification/DiffTheorems.thy ===== *)
theory DiffTheorems
  imports RevisionDiff
begin

text \<open>
  The revision diff is correct and minimal: an untruncated diff replays to the whole of both texts, the truncated flag is exact, no diff keeps
  more common lines, and the output bound is respected with every cut reported.
\<close>

section \<open>The walk\<close>

fun aligned :: "'a list \<Rightarrow> 'a list \<Rightarrow> nat \<Rightarrow> nat \<Rightarrow> (nat \<times> nat) list \<Rightarrow> bool" where
  "aligned xs ys i j [] = (i \<le> length xs \<and> j \<le> length ys)"
| "aligned xs ys i j ((a, b) # ps) =
     (i \<le> a \<and> a < length xs \<and> j \<le> b \<and> b < length ys \<and> xs ! a = ys ! b \<and> aligned xs ys (a + 1) (b + 1) ps)"

lemma aligned_earlier: "aligned xs ys i j ps \<Longrightarrow> i' \<le> i \<Longrightarrow> j' \<le> j \<Longrightarrow> aligned xs ys i' j' ps"
  by (cases ps) auto

lemma drop_step: "i < length xs \<Longrightarrow> drop i xs = xs ! i # drop (i + 1) xs"
  by (simp add: Cons_nth_drop_Suc)

lemma lcs_walk_correct:
  "t = lcs_table xs ys \<Longrightarrow> i \<le> length xs \<Longrightarrow> j \<le> length ys \<Longrightarrow>
     aligned xs ys i j (lcs_walk t xs ys i j)
     \<and> length (lcs_walk t xs ys i j) = lcs_length (drop i xs) (drop j ys)"
proof (induction t xs ys i j rule: lcs_walk.induct)
  case (1 t xs ys i j)
  show ?case
  proof (cases "i < length xs \<and> j < length ys")
    case False
    with 1(5,6) have "drop i xs = [] \<or> drop j ys = []" by auto
    with False 1(5,6) show ?thesis by (auto simp: lcs_walk.simps [of t xs ys i j])
  next
    case True
    have cells: "t ! (i + 1) ! j = lcs_length (drop (i + 1) xs) (drop j ys)"
      "t ! i ! (j + 1) = lcs_length (drop i xs) (drop (j + 1) ys)"
      using True lcs_table_correct [of "i + 1" xs ys] lcs_table_correct [of i xs ys] by (simp_all add: 1(4))
    have drops: "drop i xs = xs ! i # drop (i + 1) xs" "drop j ys = ys ! j # drop (j + 1) ys"
      using True by (simp_all only: drop_step)
    consider "xs ! i = ys ! j" | "xs ! i \<noteq> ys ! j" "t ! (i + 1) ! j \<ge> t ! i ! (j + 1)"
      | "xs ! i \<noteq> ys ! j" "\<not> t ! (i + 1) ! j \<ge> t ! i ! (j + 1)" by blast
    then show ?thesis
    proof cases
      case 1
      have walk: "lcs_walk t xs ys i j = (i, j) # lcs_walk t xs ys (i + 1) (j + 1)"
        using True 1 by (simp add: lcs_walk.simps [of t xs ys i j])
      have len: "lcs_length (drop i xs) (drop j ys) = lcs_length (drop (i + 1) xs) (drop (j + 1) ys) + 1"
        using 1 by (simp only: drops lcs_length.simps) simp
      show ?thesis
        using "1.IH"(1) [OF True 1 "1.prems"(1)] True 1 by (simp add: walk len del: drop_Suc_Cons)
    next
      case 2
      have walk: "lcs_walk t xs ys i j = lcs_walk t xs ys (i + 1) j"
        using True 2 by (simp add: lcs_walk.simps [of t xs ys i j])
      have "lcs_length (drop i xs) (drop j ys) = max (lcs_length (drop (i + 1) xs) (drop j ys)) (lcs_length (drop i xs) (drop (j + 1) ys))"
        using 2 by (simp add: drops)
      then have len: "lcs_length (drop i xs) (drop j ys) = lcs_length (drop (i + 1) xs) (drop j ys)"
        using 2(2) unfolding cells by simp
      show ?thesis
        using "1.IH"(2) [OF True 2 "1.prems"(1)] True aligned_earlier [of xs ys "i + 1" j _ i j] by (simp only: walk len) simp
    next
      case 3
      have walk: "lcs_walk t xs ys i j = lcs_walk t xs ys i (j + 1)"
        using True 3 by (simp add: lcs_walk.simps [of t xs ys i j])
      have "lcs_length (drop i xs) (drop j ys) = max (lcs_length (drop (i + 1) xs) (drop j ys)) (lcs_length (drop i xs) (drop (j + 1) ys))"
        using 3 by (simp add: drops)
      then have len: "lcs_length (drop i xs) (drop j ys) = lcs_length (drop i xs) (drop (j + 1) ys)"
        using 3(2) unfolding cells by simp
      show ?thesis
        using "1.IH"(3) [OF True 3 "1.prems"(1)] True aligned_earlier [of xs ys i "j + 1" _ i j] by (simp only: walk len) simp
    qed
  qed
qed

lemma common_subsequence_correct:
  "aligned xs ys 0 0 (common_subsequence xs ys)" "length (common_subsequence xs ys) = lcs_length xs ys"
  using lcs_walk_correct [OF refl, of 0 xs 0 ys] by (simp_all add: common_subsequence_def)

section \<open>The script before the output bound\<close>

fun script :: "string list \<Rightarrow> string list \<Rightarrow> nat \<Rightarrow> nat \<Rightarrow> (nat \<times> nat) list \<Rightarrow> (diff_kind \<times> string) list" where
  "script xs ys i j [] = []"
| "script xs ys i j ((a, b) # ps) =
     map (Pair Removed) (drop i (take a xs)) @ map (Pair Added) (drop j (take b ys))
     @ (if a < length xs then (Context, xs ! a) # script xs ys (a + 1) (b + 1) ps
        else script xs ys (max i a) (max j b) ps)"

definition count_kind :: "diff_kind \<Rightarrow> (diff_kind \<times> string) list \<Rightarrow> nat" where
  "count_kind k ls = length (filter (\<lambda>l. fst l = k) ls)"

lemma count_kind_simps [simp]:
  "count_kind k [] = 0" "count_kind k (ls @ ms) = count_kind k ls + count_kind k ms"
  "count_kind k (l # ls) = (if fst l = k then 1 else 0) + count_kind k ls"
  "count_kind k (map (Pair k') ts) = (if k = k' then length ts else 0)"
  by (simp_all add: count_kind_def comp_def)

text \<open>What the bounded output is of the script written so far.\<close>

definition shows_script :: "nat \<Rightarrow> (diff_kind \<times> string) list \<Rightarrow> diff_state \<Rightarrow> bool" where
  "shows_script n ls st = (df_lines st = take n ls \<and> df_added st = count_kind Added ls
     \<and> df_removed st = count_kind Removed ls \<and> df_truncated st = (n < length ls))"

lemma push_removed_shows: "shows_script n ls st \<Longrightarrow> shows_script n (ls @ map (Pair Removed) ts) (push_removed n ts st)"
  unfolding push_removed_def
  by (induction ts rule: rev_induct) (auto simp: shows_script_def push_line_def)

lemma push_added_shows: "shows_script n ls st \<Longrightarrow> shows_script n (ls @ map (Pair Added) ts) (push_added n ts st)"
  unfolding push_added_def
  by (induction ts rule: rev_induct) (auto simp: shows_script_def push_line_def)

lemma push_context_shows: "shows_script n ls st \<Longrightarrow> shows_script n (ls @ [(Context, t)]) (push_line n (Context, t) st)"
  by (auto simp: shows_script_def push_line_def)

lemma diff_matches_shows:
  "shows_script n ls st \<Longrightarrow> shows_script n (ls @ script xs ys i j ps) (diff_matches n xs ys i j ps st)"
proof (induction ps arbitrary: ls st i j)
  case Nil
  then show ?case by simp
next
  case (Cons p ps)
  obtain a b where p: "p = (a, b)" by (cases p)
  let ?st = "push_added n (drop j (take b ys)) (push_removed n (drop i (take a xs)) st)"
  let ?ls = "ls @ map (Pair Removed) (drop i (take a xs)) @ map (Pair Added) (drop j (take b ys))"
  have shown: "shows_script n ?ls ?st"
    using push_added_shows [OF push_removed_shows [OF Cons.prems]] by simp
  show ?case
    using Cons.IH [OF shown] Cons.IH [OF push_context_shows [OF shown]] by (simp add: p Let_def del: take_all take_all_iff)
qed

lemma diff_lines_shows:
  "shows_script n (script xs ys 0 0 (common_subsequence xs ys @ [(length xs, length ys)])) (diff_lines n xs ys)"
  using diff_matches_shows [of n "[]" "\<lparr>df_lines = [], df_added = 0, df_removed = 0, df_truncated = False\<rparr>"]
  by (simp add: diff_lines_def shows_script_def)

definition old_side :: "(diff_kind \<times> string) list \<Rightarrow> string list" where
  "old_side ls = map snd (filter (\<lambda>l. fst l \<noteq> Added) ls)"

definition new_side :: "(diff_kind \<times> string) list \<Rightarrow> string list" where
  "new_side ls = map snd (filter (\<lambda>l. fst l \<noteq> Removed) ls)"

lemma side_simps [simp]:
  "old_side [] = []" "new_side [] = []"
  "old_side (ls @ ms) = old_side ls @ old_side ms" "new_side (ls @ ms) = new_side ls @ new_side ms"
  "old_side ((Context, t) # ls) = t # old_side ls" "new_side ((Context, t) # ls) = t # new_side ls"
  "old_side (map (Pair Removed) ts) = ts" "new_side (map (Pair Removed) ts) = []"
  "old_side (map (Pair Added) ts) = []" "new_side (map (Pair Added) ts) = ts"
  by (simp_all add: old_side_def new_side_def comp_def)

lemma drop_split: "i \<le> a \<Longrightarrow> a < length xs \<Longrightarrow> drop i xs = drop i (take a xs) @ xs ! a # drop (a + 1) xs"
  by (metis (no_types, lifting) add.commute append_take_drop_id drop_append drop_step length_take min.absorb4 diff_is_0_eq' drop_0)

lemma script_sides:
  "aligned xs ys i j ps \<Longrightarrow>
     old_side (script xs ys i j (ps @ [(length xs, length ys)])) = drop i xs
     \<and> new_side (script xs ys i j (ps @ [(length xs, length ys)])) = drop j ys
     \<and> count_kind Removed (script xs ys i j (ps @ [(length xs, length ys)])) + length ps = length xs - i
     \<and> count_kind Added (script xs ys i j (ps @ [(length xs, length ys)])) + length ps = length ys - j
     \<and> count_kind Context (script xs ys i j (ps @ [(length xs, length ys)])) = length ps"
proof (induction ps arbitrary: i j)
  case Nil
  then show ?case by simp
next
  case (Cons p ps)
  obtain a b where p: "p = (a, b)" by (cases p)
  from Cons.prems have bounds: "i \<le> a" "a < length xs" "j \<le> b" "b < length ys" "xs ! a = ys ! b"
    and rest: "aligned xs ys (a + 1) (b + 1) ps"
    by (simp_all add: p)
  show ?case
    using Cons.IH [OF rest] bounds drop_split [OF bounds(1,2)] drop_split [OF bounds(3,4)] by (auto simp: p)
qed

lemma count_kind_total: "length ls = count_kind Removed ls + count_kind Added ls + count_kind Context ls"
proof (induction ls)
  case Nil
  then show ?case by simp
next
  case (Cons l ls)
  then show ?case by (cases "fst l") simp_all
qed

lemma prefix_side_take: "prefix (old_side (take n ls)) (old_side ls)" "prefix (new_side (take n ls)) (new_side ls)"
  using side_simps(3,4) [of "take n ls" "drop n ls"] by simp_all

section \<open>The lines of a text\<close>

text \<open>
  Every line of a text, with no limit. A line feed ends a line, so a final one starts no further line; a
  carriage return before it belongs to the line end.
\<close>

definition all_lines :: "string \<Rightarrow> string list" where
  "all_lines text = (let ls = split_char line_feed (normalize_newlines text) in
     if length ls > 1 \<and> last ls = [] then butlast ls else ls)"

definition drop_final_feed :: "string \<Rightarrow> string" where
  "drop_final_feed s = (if s \<noteq> [] \<and> last s = line_feed then butlast s else s)"

lemma to_lines_all: "to_lines text n = (take n (all_lines text), n < length (all_lines text))"
  by (auto simp: to_lines_def all_lines_def Let_def)

lemma join_lines_Cons: "ls \<noteq> [] \<Longrightarrow> join_lines (l # ls) = l @ line_feed # join_lines ls"
  by (cases ls) simp_all

lemma join_split_lines: "join_lines (split_char line_feed s) = s"
proof (induction s)
  case Nil
  then show ?case by simp
next
  case (Cons c s)
  obtain w ws where split: "split_char line_feed s = w # ws"
    using split_char_not_Nil by (metis list.exhaust)
  with Cons show ?case by (cases ws) (auto simp: join_lines_Cons)
qed

lemma join_lines_butlast:
  "length ls > 1 \<Longrightarrow> last ls = [] \<Longrightarrow> join_lines ls = join_lines (butlast ls) @ [line_feed]"
proof (induction ls rule: join_lines.induct)
  case (3 l l' ls)
  then show ?case by (cases ls) simp_all
qed simp_all

lemma split_char_final: "s \<noteq> [] \<Longrightarrow> last s = c \<Longrightarrow> length (split_char c s) > 1 \<and> last (split_char c s) = []"
proof (induction s)
  case Nil
  then show ?case by simp
next
  case (Cons x s)
  obtain w ws where split: "split_char c s = w # ws"
    using split_char_not_Nil by (metis list.exhaust)
  with Cons show ?case by (cases "s = []") (auto split: if_splits)
qed

text \<open>The lines are the text: joined again they give it back, up to its line ends.\<close>

lemma join_all_lines: "join_lines (all_lines text) = drop_final_feed (normalize_newlines text)"
proof -
  let ?s = "normalize_newlines text"
  let ?ls = "split_char line_feed ?s"
  show ?thesis
  proof (cases "length ?ls > 1 \<and> last ?ls = []")
    case True
    then have "?s = join_lines (butlast ?ls) @ [line_feed]"
      using join_lines_butlast [of ?ls] by (simp add: join_split_lines)
    moreover have "all_lines text = butlast ?ls" using True by (simp add: all_lines_def Let_def)
    ultimately show ?thesis by (metis append_is_Nil_conv butlast_snoc drop_final_feed_def last_snoc not_Cons_self2)
  next
    case False
    then have "\<not> (?s \<noteq> [] \<and> last ?s = line_feed)" using split_char_final [of ?s line_feed] by blast
    with False show ?thesis by (auto simp: all_lines_def drop_final_feed_def Let_def join_split_lines)
  qed
qed

section \<open>Properties\<close>

text \<open>
  C12: An untruncated diff replays. The diff says it was truncated exactly when either revision has more lines
  than the input bound, or the removed, added and common lines together exceed the output bound. Otherwise its
  context and removed lines are all the lines of the older revision and its context and added lines all those of
  the newer one, and joined they give both texts back, up to their line ends. A truncated diff still shows the first lines of both; the bound on the
  output is never exceeded, and the two counters count every changed line even when the output was cut.
\<close>

theorem revision_diff_replays:
  fixes before after :: string and max_lines :: nat
  defines "d \<equiv> diff_revision_text before after max_lines"
    and "xs \<equiv> take max_diff_input_lines (all_lines before)" and "ys \<equiv> take max_diff_input_lines (all_lines after)"
  shows "(df_truncated d \<longleftrightarrow> max_diff_input_lines < length (all_lines before) \<or> max_diff_input_lines < length (all_lines after)
        \<or> max_lines < df_removed d + df_added d + length (common_subsequence xs ys))
    \<and> (df_truncated d \<or> (old_side (df_lines d) = all_lines before \<and> new_side (df_lines d) = all_lines after
        \<and> df_added d = count_kind Added (df_lines d) \<and> df_removed d = count_kind Removed (df_lines d)
        \<and> join_lines (old_side (df_lines d)) = drop_final_feed (normalize_newlines before)
        \<and> join_lines (new_side (df_lines d)) = drop_final_feed (normalize_newlines after)))
    \<and> prefix (old_side (df_lines d)) (all_lines before) \<and> prefix (new_side (df_lines d)) (all_lines after)
    \<and> length (df_lines d) \<le> max_lines
    \<and> df_removed d + length (common_subsequence xs ys) = length xs
    \<and> df_added d + length (common_subsequence xs ys) = length ys"
proof -
  let ?full = "script xs ys 0 0 (common_subsequence xs ys @ [(length xs, length ys)])"
  let ?e = "diff_lines max_lines xs ys"
  have d: "df_lines d = df_lines ?e" "df_added d = df_added ?e" "df_removed d = df_removed ?e"
    "df_truncated d \<longleftrightarrow> max_diff_input_lines < length (all_lines before) \<or> max_diff_input_lines < length (all_lines after)
       \<or> df_truncated ?e"
    by (simp_all add: d_def xs_def ys_def diff_revision_text_def to_lines_all Let_def)
  have e: "df_lines ?e = take max_lines ?full" "df_added ?e = count_kind Added ?full"
    "df_removed ?e = count_kind Removed ?full" "df_truncated ?e = (max_lines < length ?full)"
    using diff_lines_shows [of max_lines xs ys] by (simp_all add: shows_script_def)
  have sides: "old_side ?full = xs" "new_side ?full = ys"
    "count_kind Removed ?full + length (common_subsequence xs ys) = length xs"
    "count_kind Added ?full + length (common_subsequence xs ys) = length ys"
    "length ?full = count_kind Removed ?full + count_kind Added ?full + length (common_subsequence xs ys)"
    using script_sides [OF common_subsequence_correct(1) [of xs ys]] count_kind_total [of ?full] by simp_all
  have "prefix (old_side (df_lines d)) xs" "prefix (new_side (df_lines d)) ys"
    using prefix_side_take [of max_lines ?full] unfolding sides(1,2) d e by simp_all
  then have prefixes: "prefix (old_side (df_lines d)) (all_lines before)" "prefix (new_side (df_lines d)) (all_lines after)"
    by (auto simp: xs_def ys_def intro: prefix_order.trans take_is_prefix)
  have flag: "df_truncated d \<longleftrightarrow> max_diff_input_lines < length (all_lines before) \<or> max_diff_input_lines < length (all_lines after)
      \<or> max_lines < length ?full"
    by (simp only: d(4) e(4))
  have uncut: "df_lines d = ?full" if "\<not> df_truncated d"
    using that by (simp only: flag d(1) e(1)) simp
  have whole: "xs = all_lines before" "ys = all_lines after" if "\<not> df_truncated d"
    using that by (simp_all only: flag) (simp_all add: xs_def ys_def)
  have counts: "df_removed d + length (common_subsequence xs ys) = length xs"
    "df_added d + length (common_subsequence xs ys) = length ys" "length (df_lines d) \<le> max_lines"
    using sides(3,4) by (simp_all add: d(1-3) e(1-3))
  have "length ?full = df_removed d + df_added d + length (common_subsequence xs ys)"
    by (simp only: sides(5) d(2,3) e(2,3))
  moreover have "df_truncated d \<or> (old_side (df_lines d) = all_lines before \<and> new_side (df_lines d) = all_lines after
        \<and> df_added d = count_kind Added (df_lines d) \<and> df_removed d = count_kind Removed (df_lines d))"
    using uncut whole sides(1,2) d(2,3) e(2,3) by metis
  ultimately show ?thesis
    using prefixes counts join_all_lines [of before] join_all_lines [of after] unfolding flag by auto
qed

text \<open>
  The diff is minimal. Whatever common subsequence of lines one picks, the diff keeps at least
  as many lines, so no list of removals and additions that turns the older lines into the newer ones is shorter.
\<close>

theorem revision_diff_minimal:
  fixes before after :: string and max_lines :: nat
  defines "d \<equiv> diff_revision_text before after max_lines"
    and "xs \<equiv> fst (to_lines before max_diff_input_lines)" and "ys \<equiv> fst (to_lines after max_diff_input_lines)"
  assumes "subseq zs xs" "subseq zs ys"
  shows "df_removed d + length zs \<le> length xs \<and> df_added d + length zs \<le> length ys"
proof -
  have "length zs \<le> length (common_subsequence xs ys)"
    using lcs_length_maximal [OF assms(4,5)] by (simp add: common_subsequence_correct)
  moreover have "df_removed d = count_kind Removed (script xs ys 0 0 (common_subsequence xs ys @ [(length xs, length ys)]))"
    "df_added d = count_kind Added (script xs ys 0 0 (common_subsequence xs ys @ [(length xs, length ys)]))"
    using diff_lines_shows [of max_lines xs ys]
    by (simp_all add: d_def xs_def ys_def diff_revision_text_def Let_def split_beta shows_script_def)
  ultimately show ?thesis
    using script_sides [OF common_subsequence_correct(1) [of xs ys]] by simp
qed

theorem revision_diff_minimal_witness:
  "df_removed (diff_revision_text (''a'' @ [line_feed] @ ''b'') (''b'' @ [line_feed] @ ''c'') 400) + 1 \<le> 2"
proof -
  have lines: "to_lines (''a'' @ [line_feed] @ ''b'') max_diff_input_lines = ([''a'', ''b''], False)"
    "to_lines (''b'' @ [line_feed] @ ''c'') max_diff_input_lines = ([''b'', ''c''], False)"
    by code_simp+
  have "subseq [''b''] (fst (to_lines (''a'' @ [line_feed] @ ''b'') max_diff_input_lines))"
    "subseq [''b''] (fst (to_lines (''b'' @ [line_feed] @ ''c'') max_diff_input_lines))"
    unfolding lines by simp_all
  from revision_diff_minimal [OF this, of 400] show ?thesis unfolding lines by simp
qed

end
