(* ===== verification/LineFraming.thy ===== *)
theory LineFraming
  imports Prelude
begin

text \<open>
  Newline-delimited framing, the loop that both ends of the agent protocol run on each received
  chunk (\<open>JsonlRecordQueue.feed\<close> and \<open>AgentProtocolChannel.feed\<close>): complete lines are taken off the
  buffer and accepted one by one, and what is left must fit in a record. Bytes are characters below 256.
\<close>

section \<open>The loop\<close>

fun take_line :: "string \<Rightarrow> (string \<times> string) option" where
  "take_line [] = None"
| "take_line (c # cs) = (if code c = 10 then Some ([], cs)
     else (case take_line cs of None \<Rightarrow> None | Some (l, rest) \<Rightarrow> Some (c # l, rest)))"

lemma take_line_Some: "take_line buf = Some (l, rest) \<Longrightarrow> \<exists>c. buf = l @ c # rest \<and> code c = 10 \<and> (\<forall>d \<in> set l. code d \<noteq> 10)"
  by (induction buf arbitrary: l) (auto split: if_splits option.splits)

lemma take_line_None: "take_line buf = None \<longleftrightarrow> (\<forall>d \<in> set buf. code d \<noteq> 10)"
  by (induction buf) (auto split: option.split)

lemma take_line_shorter: "take_line buf = Some (l, rest) \<Longrightarrow> length rest < length buf"
  by (auto dest: take_line_Some)

lemma take_line_append: "take_line buf = Some (l, rest) \<Longrightarrow> take_line (buf @ more) = Some (l, rest @ more)"
  by (induction buf arbitrary: l) (auto split: if_splits option.splits)

lemma take_line_longer: "take_line buf = None \<Longrightarrow> take_line (buf @ more) = (case take_line more of None \<Rightarrow> None | Some (l, rest) \<Rightarrow> Some (buf @ l, rest))"
  by (induction buf) (auto split: option.splits if_splits)

text \<open>The result is what is left of the buffer, the receiver's state, and the error that stopped the loop.\<close>

function frame_loop :: "nat \<Rightarrow> 'e \<Rightarrow> (string \<Rightarrow> 's \<Rightarrow> ('e, 's) result) \<Rightarrow> string \<Rightarrow> 's \<Rightarrow> string \<times> 's \<times> 'e option" where
  "frame_loop limit too_long accept buf s =
     (case take_line buf of
        None \<Rightarrow> (buf, s, if length buf > limit then Some too_long else None)
      | Some (l, rest) \<Rightarrow> (case accept l s of
          Inl e \<Rightarrow> (rest, s, Some e)
        | Inr s' \<Rightarrow> frame_loop limit too_long accept rest s'))"
  by pat_completeness auto
termination
  by (relation "measure (\<lambda>(limit, e, accept, buf, s). length buf)") (auto dest: take_line_shorter)

declare frame_loop.simps [simp del]

lemma frame_loop_None:
  "take_line buf = None \<Longrightarrow> frame_loop limit e accept buf s = (buf, s, if length buf > limit then Some e else None)"
  by (simp add: frame_loop.simps [of limit e accept buf s])

lemma frame_loop_Some:
  "take_line buf = Some (l, rest) \<Longrightarrow> frame_loop limit e accept buf s =
     (case accept l s of Inl e \<Rightarrow> (rest, s, Some e) | Inr s' \<Rightarrow> frame_loop limit e accept rest s')"
  by (simp add: frame_loop.simps [of limit e accept buf s] cong: sum.case_cong)

section \<open>Chunks\<close>

text \<open>A receiver bounds its lines when it accepts none longer than the limit on what may stay buffered.\<close>

definition bounded_lines :: "nat \<Rightarrow> (string \<Rightarrow> 's \<Rightarrow> ('e, 's) result) \<Rightarrow> bool" where
  "bounded_lines limit accept = (\<forall>l s s'. accept l s = Inr s' \<longrightarrow> length l \<le> limit)"

lemma frame_loop_append:
  "bounded_lines limit accept \<Longrightarrow> frame_loop limit e accept (x @ y) s = (r, s', None) \<Longrightarrow>
     \<exists>r1 s1. frame_loop limit e accept x s = (r1, s1, None) \<and> frame_loop limit e accept (r1 @ y) s1 = (r, s', None)"
proof (induction limit e accept x s rule: frame_loop.induct)
  case (1 limit e accept x s)
  show ?case
  proof (cases "take_line x")
    case None
    have "length x \<le> limit"
    proof (cases "take_line y")
      case None
      then have "take_line (x @ y) = None" using \<open>take_line x = None\<close> by (simp add: take_line_longer)
      then show ?thesis using 1(3) by (simp add: frame_loop_None split: if_splits)
    next
      case (Some p)
      then obtain l rest where "take_line (x @ y) = Some (x @ l, rest)"
        using \<open>take_line x = None\<close> by (cases p) (simp add: take_line_longer)
      then obtain s1 where "accept (x @ l) s = Inr s1"
        using 1(3) by (auto simp: frame_loop_Some split: sum.splits)
      then have "length (x @ l) \<le> limit" using 1(2) unfolding bounded_lines_def by blast
      then show ?thesis by simp
    qed
    then show ?thesis using None 1(3) by (simp add: frame_loop_None)
  next
    case (Some p)
    obtain l rest where p: "take_line x = Some (l, rest)" using Some by (cases p) simp
    obtain s1 where acc: "accept l s = Inr s1" and loop: "frame_loop limit e accept (rest @ y) s1 = (r, s', None)"
      using 1(3) take_line_append [OF p, of y] by (auto simp: frame_loop_Some split: sum.splits)
    show ?thesis
      using 1(1) [OF p refl acc 1(2) loop] by (simp add: frame_loop_Some [OF p] acc)
  qed
qed

lemma frame_loop_rest: "frame_loop limit e accept x s = (r, s', None) \<Longrightarrow> length r \<le> limit \<and> take_line r = None"
proof (induction limit e accept x s rule: frame_loop.induct)
  case (1 limit e accept x s)
  show ?case
  proof (cases "take_line x")
    case None
    then show ?thesis using 1(2) by (auto simp: frame_loop_None split: if_splits)
  next
    case (Some p)
    obtain l rest where p: "take_line x = Some (l, rest)" using Some by (cases p) simp
    obtain s1 where acc: "accept l s = Inr s1" and loop: "frame_loop limit e accept rest s1 = (r, s', None)"
      using 1(2) by (auto simp: frame_loop_Some [OF p] split: sum.splits)
    show ?thesis using 1(1) [OF p refl acc loop] .
  qed
qed

lemma frame_loop_length: "frame_loop limit e accept x s = (r, s', err) \<Longrightarrow> length r \<le> length x"
proof (induction limit e accept x s rule: frame_loop.induct)
  case (1 limit e accept x s)
  then show ?case
    by (cases "take_line x") (fastforce simp: frame_loop_None frame_loop_Some dest: take_line_shorter split: sum.splits)+
qed

lemma frame_loop_invariant:
  "frame_loop limit e accept x s = (r, s', err) \<Longrightarrow> I s \<Longrightarrow> (\<And>l s s'. accept l s = Inr s' \<Longrightarrow> I s \<Longrightarrow> I s') \<Longrightarrow> I s'"
proof (induction limit e accept x s rule: frame_loop.induct)
  case (1 limit e accept x s)
  show ?case
  proof (cases "take_line x")
    case None
    then show ?thesis using 1(2,3) by (simp add: frame_loop_None)
  next
    case (Some p)
    obtain l rest where p: "take_line x = Some (l, rest)" using Some by (cases p) simp
    show ?thesis
    proof (cases "accept l s")
      case (Inl e')
      then show ?thesis using 1(2,3) by (simp add: frame_loop_Some [OF p])
    next
      case (Inr s1)
      have "I s1" using 1(4) [OF Inr 1(3)] .
      moreover have "frame_loop limit e accept rest s1 = (r, s', err)"
        using 1(2) Inr by (simp add: frame_loop_Some [OF p])
      ultimately show ?thesis using 1(1) [OF p refl Inr] 1(4) by blast
    qed
  qed
qed

section \<open>Encoded records\<close>

definition frame :: "string \<Rightarrow> string" where
  "frame l = l @ [char_of (10 :: nat)]"

lemma take_line_frame: "(\<forall>d \<in> set l. code d \<noteq> 10) \<Longrightarrow> take_line (frame l @ more) = Some (l, more)"
  by (induction l) (simp_all add: frame_def code_def)

lemma frame_loop_frames:
  assumes "\<And>l s. l \<in> set ls \<Longrightarrow> (\<forall>d \<in> set l. code d \<noteq> 10)"
    and "\<And>l s. l \<in> set ls \<Longrightarrow> accept l s = Inr (f l s)"
  shows "frame_loop limit e accept (concat (map frame ls)) s = ([], fold f ls s, None)"
  using assms
proof (induction ls arbitrary: s)
  case Nil
  then show ?case by (simp add: frame_loop_None)
next
  case (Cons l ls)
  have "take_line (frame l @ concat (map frame ls)) = Some (l, concat (map frame ls))"
    by (intro take_line_frame Cons.prems(1)) simp
  then show ?case
    using Cons.IH [OF Cons.prems] Cons.prems(2) by (simp add: frame_loop_Some)
qed

section \<open>The interface of a framed receiver\<close>

text \<open>
  What the clients of a receiver rely on: feeding two chunks is feeding them joined, whenever the
  joined chunk is accepted. Chunk boundaries then never show.
\<close>

locale framed_receiver =
  fixes feed :: "string \<Rightarrow> 's \<Rightarrow> 's"
    and live :: "'s \<Rightarrow> bool"
  assumes feed_join: "live (feed (c @ d) s) \<Longrightarrow> feed d (feed c s) = feed (c @ d) s"
    and feed_nothing: "live s \<Longrightarrow> feed [] s = s"
    and feed_prefix: "live (feed (c @ d) s) \<Longrightarrow> live (feed c s)"
begin

lemma feed_chunks:
  "live (feed (concat chunks) s) \<Longrightarrow> live s \<Longrightarrow> fold feed chunks s = feed (concat chunks) s"
proof (induction chunks arbitrary: s)
  case Nil
  then show ?case by (simp add: feed_nothing)
next
  case (Cons c cs)
  have joined: "feed (concat cs) (feed c s) = feed (c @ concat cs) s"
    using Cons.prems(1) by (simp add: feed_join)
  have "live (feed c s)" using Cons.prems(1) feed_prefix by simp
  then show ?case using Cons.IH [of "feed c s"] Cons.prems(1) joined by simp
qed

lemma same_bytes_same_state:
  "concat xs = concat ys \<Longrightarrow> live (feed (concat xs) s) \<Longrightarrow> live s \<Longrightarrow> fold feed xs s = fold feed ys s"
  by (simp add: feed_chunks)

end

end
