(* ===== verification/RecordQueue.thy ===== *)
theory RecordQueue
  imports LineFraming Json
begin

text \<open>
  The agent runtime's side of the protocol: \<open>apps/agent-runtime/src/jsonl.ts\<close>, the bounded queue of
  input records and the writer of output records. A reader is what the schema and the decoders are:
  fatal UTF-8 decoding, \<open>JSON.parse\<close> and the zod schema, each \<open>None\<close> when it throws.
\<close>

section \<open>Reading\<close>

record 'r reader =
  rd_utf8 :: "string \<Rightarrow> string option"
  rd_json :: "string \<Rightarrow> json option"
  rd_schema :: "json \<Rightarrow> 'r option"

record queue_limits =
  ql_record :: nat
  ql_records :: nat
  ql_bytes :: nat

definition default_queue_limits :: queue_limits where
  "default_queue_limits = \<lparr>ql_record = 8388608, ql_records = 64, ql_bytes = 16777216\<rparr>"

record 'r record_queue =
  rq_buffer :: string
  rq_records :: "('r \<times> nat) list"
  rq_bytes :: nat
  rq_ended :: bool
  rq_error :: "string option"

definition new_queue :: "'r record_queue" where
  "new_queue = \<lparr>rq_buffer = [], rq_records = [], rq_bytes = 0, rq_ended = False, rq_error = None\<rparr>"

text \<open>\<open>#parseLine\<close>; \<open>Inl\<close> is the message of the \<open>ProtocolError\<close>.\<close>

definition parse_line :: "'r reader \<Rightarrow> queue_limits \<Rightarrow> string \<Rightarrow> 'r record_queue \<Rightarrow> (string, 'r record_queue) result" where
  "parse_line rd ql line q =
     (if line = [] then Inl ''empty protocol record''
      else if length line > ql_record ql then Inl ''protocol record exceeds byte limit''
      else if \<exists>c \<in> set line. code c = 13 then Inl ''protocol records must use LF delimiters''
      else case rd_utf8 rd line of None \<Rightarrow> Inl ''protocol record is not valid UTF-8''
      | Some s \<Rightarrow> (case rd_json rd s of None \<Rightarrow> Inl ''protocol record is not valid JSON''
        | Some v \<Rightarrow> (case rd_schema rd v of None \<Rightarrow> Inl ''protocol record does not match schema''
          | Some r \<Rightarrow>
             (let bytes = length line + 1 in
              if length (rq_records q) \<ge> ql_records ql \<or> rq_bytes q + bytes > ql_bytes ql
              then Inl ''protocol record queue overflow''
              else Inr (q\<lparr>rq_records := rq_records q @ [(r, bytes)], rq_bytes := rq_bytes q + bytes\<rparr>)))))"

text \<open>\<open>feed\<close>; a thrown error is kept, with the state the throw leaves behind. The caller stops reading on it.\<close>

definition queue_feed :: "'r reader \<Rightarrow> queue_limits \<Rightarrow> string \<Rightarrow> 'r record_queue \<Rightarrow> 'r record_queue" where
  "queue_feed rd ql chunk q =
     (if rq_error q \<noteq> None then q
      else if rq_ended q then q\<lparr>rq_error := Some ''protocol input is closed''\<rparr>
      else (let buf = rq_buffer q @ chunk in
        if length buf > ql_bytes ql + ql_record ql then q\<lparr>rq_buffer := buf, rq_error := Some ''protocol input buffer overflow''\<rparr>
        else case frame_loop (ql_record ql) ''protocol record exceeds byte limit'' (parse_line rd ql) buf q of
               (rest, q', err) \<Rightarrow> q'\<lparr>rq_buffer := rest, rq_error := err\<rparr>))"

definition queue_end :: "'r record_queue \<Rightarrow> 'r record_queue" where
  "queue_end q = (if rq_ended q then q
     else if rq_buffer q \<noteq> [] then q\<lparr>rq_ended := True, rq_error := Some ''unterminated protocol record''\<rparr>
     else q\<lparr>rq_ended := True\<rparr>)"

definition queue_shift :: "'r record_queue \<Rightarrow> 'r option \<times> 'r record_queue" where
  "queue_shift q = (case rq_records q of [] \<Rightarrow> (None, q)
     | (r, bytes) # rs \<Rightarrow> (Some r, q\<lparr>rq_records := rs, rq_bytes := rq_bytes q - bytes\<rparr>))"

section \<open>Writing\<close>

record writer =
  wr_closed :: bool
  wr_terminal :: bool
  wr_output :: string

text \<open>
  \<open>JsonlWriter.write\<close>: \<open>check\<close> is the output schema's \<open>parse\<close>, \<open>is_terminal\<close> reads the record's type and
  \<open>encode\<close> is \<open>JSON.stringify\<close> in UTF-8. A record that is too long has already set the terminal flag.
\<close>

definition writer_write :: "('r \<Rightarrow> 'r option) \<Rightarrow> ('r \<Rightarrow> bool) \<Rightarrow> ('r \<Rightarrow> string) \<Rightarrow> nat \<Rightarrow> 'r \<Rightarrow> writer \<Rightarrow> string option \<times> writer" where
  "writer_write check is_terminal encode limit r w =
     (if wr_closed w then (Some ''protocol output is closed'', w)
      else if wr_terminal w then
        (Some (if is_terminal r then ''duplicate terminal record'' else ''protocol output received after terminal record''), w)
      else case check r of None \<Rightarrow> (Some ''schema'', w)
        | Some p \<Rightarrow>
           (let w' = w\<lparr>wr_terminal := is_terminal p\<rparr>; encoded = frame (encode p) in
            if length encoded > limit then (Some ''protocol output record exceeds byte limit'', w')
            else (None, w'\<lparr>wr_output := wr_output w @ encoded\<rparr>)))"

definition writer_close :: "writer \<Rightarrow> writer" where
  "writer_close w = w\<lparr>wr_closed := True\<rparr>"

section \<open>The queue is a framed receiver\<close>

definition queue_live :: "queue_limits \<Rightarrow> 'r record_queue \<Rightarrow> bool" where
  "queue_live ql q = (rq_error q = None \<and> \<not> rq_ended q \<and> take_line (rq_buffer q) = None \<and> length (rq_buffer q) \<le> ql_record ql)"

lemma parse_line_InrD:
  "parse_line rd ql line q = Inr q' \<Longrightarrow> length line \<le> ql_record ql \<and> rq_ended q' = rq_ended q \<and> rq_error q' = rq_error q
     \<and> (\<exists>r. rq_records q' = rq_records q @ [(r, length line + 1)]) \<and> rq_bytes q' = rq_bytes q + length line + 1
     \<and> rq_buffer q' = rq_buffer q \<and> length (rq_records q') \<le> ql_records ql \<and> rq_bytes q' \<le> ql_bytes ql"
  by (auto simp: parse_line_def Let_def split: if_splits option.splits)

lemma parse_line_buffer: "parse_line rd ql line (q\<lparr>rq_buffer := b\<rparr>)
    = (case parse_line rd ql line q of Inl e \<Rightarrow> Inl e | Inr q' \<Rightarrow> Inr (q'\<lparr>rq_buffer := b\<rparr>))"
  by (simp add: parse_line_def Let_def split: option.split)

lemma bounded_parse_line: "bounded_lines (ql_record ql) (parse_line rd ql)"
  by (simp add: bounded_lines_def parse_line_InrD)

lemma frame_loop_queue:
  "frame_loop limit e (parse_line rd ql) x q = (r, q', err) \<Longrightarrow> rq_ended q' = rq_ended q \<and> rq_error q' = rq_error q"
  by (rule frame_loop_invariant [where I = "\<lambda>x. rq_ended x = rq_ended q \<and> rq_error x = rq_error q"])
    (auto dest: parse_line_InrD)

lemma frame_loop_buffer:
  "frame_loop limit e (parse_line rd ql) x (q\<lparr>rq_buffer := b\<rparr>)
     = (case frame_loop limit e (parse_line rd ql) x q of (r, q', err) \<Rightarrow> (r, q'\<lparr>rq_buffer := b\<rparr>, err))"
proof (induction limit e "parse_line rd ql" x q rule: frame_loop.induct)
  case (1 limit e x s)
  then show ?case
    by (cases "take_line x") (auto simp: frame_loop_None frame_loop_Some parse_line_buffer split: sum.split)
qed

lemma queue_feed_live:
  assumes "queue_live ql (queue_feed rd ql chunk q)"
  shows "rq_error q = None" "\<not> rq_ended q" "length (rq_buffer q @ chunk) \<le> ql_bytes ql + ql_record ql"
    "\<exists>r q'. frame_loop (ql_record ql) ''protocol record exceeds byte limit'' (parse_line rd ql) (rq_buffer q @ chunk) q = (r, q', None)
       \<and> queue_feed rd ql chunk q = q'\<lparr>rq_buffer := r\<rparr>"
proof -
  show err: "rq_error q = None" and ended: "\<not> rq_ended q" and len: "length (rq_buffer q @ chunk) \<le> ql_bytes ql + ql_record ql"
    using assms by (auto simp: queue_feed_def queue_live_def Let_def split: if_splits)
  obtain r q' e where loop: "frame_loop (ql_record ql) ''protocol record exceeds byte limit'' (parse_line rd ql) (rq_buffer q @ chunk) q
      = (r, q', e)" by (metis prod_cases3)
  have "queue_feed rd ql chunk q = q'\<lparr>rq_buffer := r, rq_error := e\<rparr>"
    using err ended len loop by (simp add: queue_feed_def Let_def)
  moreover from this have "e = None" using assms by (simp add: queue_live_def)
  moreover have "rq_error q' = None" using frame_loop_queue [OF loop] err by simp
  ultimately show "\<exists>r q'. frame_loop (ql_record ql) ''protocol record exceeds byte limit'' (parse_line rd ql) (rq_buffer q @ chunk) q
      = (r, q', None) \<and> queue_feed rd ql chunk q = q'\<lparr>rq_buffer := r\<rparr>"
    using loop by (intro exI [of _ r] exI [of _ q']) simp
qed

lemma queue_feed_ok:
  assumes "rq_error q = None" "\<not> rq_ended q" "length (rq_buffer q @ chunk) \<le> ql_bytes ql + ql_record ql"
    "frame_loop (ql_record ql) ''protocol record exceeds byte limit'' (parse_line rd ql) (rq_buffer q @ chunk) q = (r, q', None)"
  shows "queue_feed rd ql chunk q = q'\<lparr>rq_buffer := r\<rparr>" "queue_live ql (queue_feed rd ql chunk q)"
proof -
  have kept: "rq_ended q' = rq_ended q" "rq_error q' = rq_error q"
    using frame_loop_queue [OF assms(4)] by simp_all
  then show eq: "queue_feed rd ql chunk q = q'\<lparr>rq_buffer := r\<rparr>"
    using assms by (simp add: queue_feed_def Let_def)
  show "queue_live ql (queue_feed rd ql chunk q)"
    using kept assms(1,2) frame_loop_rest [OF assms(4)] by (simp add: eq queue_live_def)
qed

lemma queue_feed_split:
  assumes "queue_live ql (queue_feed rd ql (c @ d) q)"
  shows "queue_live ql (queue_feed rd ql c q) \<and> queue_feed rd ql d (queue_feed rd ql c q) = queue_feed rd ql (c @ d) q"
proof -
  let ?loop = "frame_loop (ql_record ql) ''protocol record exceeds byte limit'' (parse_line rd ql)"
  note whole = queue_feed_live [OF assms]
  obtain r q' where loop: "?loop ((rq_buffer q @ c) @ d) q = (r, q', None)" and feed: "queue_feed rd ql (c @ d) q = q'\<lparr>rq_buffer := r\<rparr>"
    using whole(4) by auto
  obtain r1 q1 where first: "?loop (rq_buffer q @ c) q = (r1, q1, None)" and second: "?loop (r1 @ d) q1 = (r, q', None)"
    using frame_loop_append [OF bounded_parse_line loop] by blast
  have len1: "length (rq_buffer q @ c) \<le> ql_bytes ql + ql_record ql" using whole(3) by simp
  note one = queue_feed_ok [OF whole(1,2) len1 first]
  have "length r1 \<le> length (rq_buffer q @ c)" using frame_loop_length [OF first] .
  then have "length (r1 @ d) \<le> ql_bytes ql + ql_record ql" using whole(3) by simp
  moreover have "?loop (r1 @ d) (q1\<lparr>rq_buffer := r1\<rparr>) = (r, q'\<lparr>rq_buffer := r1\<rparr>, None)"
    by (simp add: frame_loop_buffer second)
  moreover have "rq_error q1 = None" "\<not> rq_ended q1" using frame_loop_queue [OF first] whole(1,2) by simp_all
  ultimately have "queue_feed rd ql d (q1\<lparr>rq_buffer := r1\<rparr>) = q'\<lparr>rq_buffer := r\<rparr>"
    by (subst queue_feed_ok(1) [where r = r and q' = "q'\<lparr>rq_buffer := r1\<rparr>"]) simp_all
  then show ?thesis using one feed by simp
qed

lemma queue_feed_empty: "queue_live ql q \<Longrightarrow> queue_feed rd ql [] q = q"
  by (simp add: queue_live_def queue_feed_def Let_def frame_loop_None)

interpretation queue: framed_receiver "queue_feed rd ql" "queue_live ql" for rd :: "'r reader" and ql :: queue_limits
  by unfold_locales (use queue_feed_split queue_feed_empty in \<open>blast+\<close>)

section \<open>Bounds\<close>

definition queue_ok :: "queue_limits \<Rightarrow> 'r record_queue \<Rightarrow> bool" where
  "queue_ok ql q = (length (rq_records q) \<le> ql_records ql \<and> rq_bytes q = sum_list (map snd (rq_records q)) \<and> rq_bytes q \<le> ql_bytes ql)"

lemma queue_ok_line: "queue_ok ql q \<Longrightarrow> parse_line rd ql line q = Inr q' \<Longrightarrow> queue_ok ql q'"
  by (auto simp: queue_ok_def dest!: parse_line_InrD)

lemma queue_ok_loop: "frame_loop limit e (parse_line rd ql) x q = (r, q', err) \<Longrightarrow> queue_ok ql q \<Longrightarrow> queue_ok ql q'"
  by (rule frame_loop_invariant [where I = "queue_ok ql"]) (auto intro: queue_ok_line)

lemma queue_ok_buffer [simp]: "queue_ok ql (q\<lparr>rq_buffer := b, rq_error := e\<rparr>) = queue_ok ql q"
  "queue_ok ql (q\<lparr>rq_buffer := b\<rparr>) = queue_ok ql q"
  "queue_ok ql (q\<lparr>rq_error := e\<rparr>) = queue_ok ql q" "queue_ok ql (q\<lparr>rq_ended := n\<rparr>) = queue_ok ql q"
  "queue_ok ql (q\<lparr>rq_ended := n, rq_error := e\<rparr>) = queue_ok ql q"
  by (simp_all add: queue_ok_def)

lemma queue_ok_feed: "queue_ok ql q \<Longrightarrow> queue_ok ql (queue_feed rd ql chunk q)"
  by (auto simp: queue_feed_def Let_def dest: queue_ok_loop split: prod.split)

lemma queue_ok_shift: "queue_ok ql q \<Longrightarrow> queue_ok ql (snd (queue_shift q))"
  by (auto simp: queue_shift_def queue_ok_def split: list.split)

lemma queue_ok_end: "queue_ok ql q \<Longrightarrow> queue_ok ql (queue_end q)"
  by (simp add: queue_end_def)

end
