(* ===== verification/AgentChannel.thy ===== *)
theory AgentChannel
  imports LineFraming Json
begin

text \<open>
  The runner's side of the agent protocol: the record schemas and \<open>AgentProtocolChannel\<close> of
  \<open>apps/runner/src/agent-protocol.ts\<close>. Parameters are \<open>JSON.parse\<close> of a decoded line and \<open>JSON.stringify\<close>'s
  encoded size of a value.
\<close>

section \<open>Schemas\<close>

definition max_protocol_record_bytes :: nat where
  "max_protocol_record_bytes = 8 * 1024 * 1024"

definition max_protocol_queue_bytes :: nat where
  "max_protocol_queue_bytes = 16 * 1024 * 1024"

definition protocol_id_ok :: "string \<Rightarrow> bool" where
  "protocol_id_ok s = (s \<noteq> [] \<and> length s \<le> 128 \<and> is_alnum_char (hd s)
     \<and> list_all (\<lambda>c. is_alnum_char c \<or> c \<in> set ''._:-'') s)"

definition protocol_id :: "json option \<Rightarrow> string option" where
  "protocol_id v = (case v of Some (JStr s) \<Rightarrow> (if protocol_id_ok s then Some s else None) | _ \<Rightarrow> None)"

definition strict_keys :: "string list \<Rightarrow> jobject \<Rightarrow> bool" where
  "strict_keys keys ob = list_all (\<lambda>p. fst p \<in> set keys) ob"

definition bounded_json :: "(json \<Rightarrow> nat) \<Rightarrow> json option \<Rightarrow> json option" where
  "bounded_json size_of v = (case v of None \<Rightarrow> None
     | Some j \<Rightarrow> if size_of j \<le> max_protocol_record_bytes then Some j else None)"

definition nonneg_integer :: "json option \<Rightarrow> int option" where
  "nonneg_integer v = (case v of None \<Rightarrow> None | Some j \<Rightarrow> (case as_safe_integer j of None \<Rightarrow> None
     | Some n \<Rightarrow> if 0 \<le> n then Some n else None))"

definition positive_integer :: "json option \<Rightarrow> int option" where
  "positive_integer v = (case nonneg_integer v of None \<Rightarrow> None | Some n \<Rightarrow> if 0 < n then Some n else None)"

definition optional_text :: "nat \<Rightarrow> json option \<Rightarrow> string option option" where
  "optional_text limit v = (case v of None \<Rightarrow> Some None
     | Some (JStr s) \<Rightarrow> (if length s \<le> limit then Some (Some s) else None) | _ \<Rightarrow> None)"

record agent_usage =
  au_input :: int
  au_output :: int
  au_read :: int
  au_write :: int
  au_total :: int
  au_cost :: rat

definition agent_usage_of :: "json option \<Rightarrow> agent_usage option" where
  "agent_usage_of v = (case v of Some (JObj ob) \<Rightarrow>
     (if \<not> strict_keys [''input'', ''output'', ''cacheRead'', ''cacheWrite'', ''total'', ''cost''] ob then None
      else case (nonneg_integer (field ob ''input''), nonneg_integer (field ob ''output''), nonneg_integer (field ob ''cacheRead''),
                 nonneg_integer (field ob ''cacheWrite''), nonneg_integer (field ob ''total''), field ob ''cost'') of
        (Some i, Some out, Some r, Some w, Some t, Some (JNum (Fin c))) \<Rightarrow>
          (if 0 \<le> c then Some \<lparr>au_input = i, au_output = out, au_read = r, au_write = w, au_total = t, au_cost = c\<rparr> else None)
      | _ \<Rightarrow> None)
   | _ \<Rightarrow> None)"

datatype agent_record =
    EventRecord int json
  | ToolRequest string string string json
  | ToolCancel string "string option"
  | UsageRecord int agent_usage
  | SessionMessage int json
  | TerminalRecord string agent_usage "string option"

definition agent_proxy_operations :: "string list" where
  "agent_proxy_operations = [''files_list'', ''files_read'', ''files_write'', ''files_apply_patch'', ''files_delete'',
     ''files_move'', ''files_mkdir'', ''grep_search'', ''symbols_search'', ''symbols_references'']"

definition terminal_states :: "string list" where
  "terminal_states = [''SUCCEEDED'', ''FAILED'', ''CANCELLED'', ''TIMED_OUT'', ''LIMIT_EXCEEDED'', ''INTERRUPTED'']"

text \<open>\<open>AgentOutputRecordSchema.parse\<close>: a strict object per type.\<close>

definition output_record :: "(json \<Rightarrow> nat) \<Rightarrow> json \<Rightarrow> agent_record option" where
  "output_record size_of v = (case v of JObj ob \<Rightarrow>
     (if field ob ''type'' = Some (JStr ''event'') then
        (if \<not> strict_keys [''type'', ''sequence'', ''event''] ob then None
         else case (positive_integer (field ob ''sequence''), bounded_json size_of (field ob ''event'')) of
           (Some n, Some e) \<Rightarrow> Some (EventRecord n e) | _ \<Rightarrow> None)
      else if field ob ''type'' = Some (JStr ''tool_request'') then
        (if \<not> strict_keys [''type'', ''requestId'', ''toolCallId'', ''operation'', ''input''] ob then None
         else case (protocol_id (field ob ''requestId''), protocol_id (field ob ''toolCallId''), field ob ''operation'',
                    bounded_json size_of (field ob ''input'')) of
           (Some r, Some t, Some (JStr oper), Some i) \<Rightarrow> (if oper \<in> set agent_proxy_operations then Some (ToolRequest r t oper i) else None)
         | _ \<Rightarrow> None)
      else if field ob ''type'' = Some (JStr ''tool_cancel'') then
        (if \<not> strict_keys [''type'', ''requestId'', ''reason''] ob then None
         else case (protocol_id (field ob ''requestId''), optional_text 1024 (field ob ''reason'')) of
           (Some r, Some reason) \<Rightarrow> Some (ToolCancel r reason) | _ \<Rightarrow> None)
      else if field ob ''type'' = Some (JStr ''usage'') then
        (if \<not> strict_keys [''type'', ''sequence'', ''usage''] ob then None
         else case (positive_integer (field ob ''sequence''), agent_usage_of (field ob ''usage'')) of
           (Some n, Some u) \<Rightarrow> Some (UsageRecord n u) | _ \<Rightarrow> None)
      else if field ob ''type'' = Some (JStr ''session_message'') then
        (if \<not> strict_keys [''type'', ''seq'', ''message''] ob then None
         else case (nonneg_integer (field ob ''seq''), bounded_json size_of (field ob ''message'')) of
           (Some n, Some m) \<Rightarrow> Some (SessionMessage n m) | _ \<Rightarrow> None)
      else if field ob ''type'' = Some (JStr ''terminal'') then
        (if \<not> strict_keys [''type'', ''state'', ''usage'', ''error''] ob then None
         else case (field ob ''state'', agent_usage_of (field ob ''usage''), optional_text 4096 (field ob ''error'')) of
           (Some (JStr s), Some u, Some e) \<Rightarrow> (if s \<in> set terminal_states then Some (TerminalRecord s u e) else None)
         | _ \<Rightarrow> None)
      else None)
   | _ \<Rightarrow> None)"

section \<open>Storage requests\<close>

definition storage_methods :: "string list" where
  "storage_methods = [''commit'', ''mintId'', ''conversation'', ''scanConversations'', ''entry'', ''findLatestHeadMarker'',
     ''scanEntries'', ''task'', ''scanTasks'', ''submission'', ''scanSubmissions'', ''submissionByRequest'',
     ''findDocument'', ''document'', ''scanDocuments'', ''close'']"

definition max_storage_args :: nat where
  "max_storage_args = 4"

record storage_request =
  sq_id :: string
  sq_method :: string
  sq_args :: "json list"

text \<open>\<open>AgentStorageRequestRecordSchema\<close>.\<close>

definition storage_request_of :: "json \<Rightarrow> storage_request option" where
  "storage_request_of v = (case v of JObj ob \<Rightarrow>
     (if field ob ''type'' \<noteq> Some (JStr ''storage_request'') \<or> \<not> strict_keys [''type'', ''id'', ''method'', ''args''] ob then None
      else case (protocol_id (field ob ''id''), field ob ''method'', field ob ''args'') of
        (Some i, Some (JStr m), Some (JArr args)) \<Rightarrow>
          (if m \<in> set storage_methods \<and> length args \<le> max_storage_args
           then Some \<lparr>sq_id = i, sq_method = m, sq_args = args\<rparr> else None)
      | _ \<Rightarrow> None)
   | _ \<Rightarrow> None)"

section \<open>The channel\<close>

record channel_config =
  cc_parse :: "string \<Rightarrow> json option"
  cc_size :: "json \<Rightarrow> nat"
  cc_storage :: bool

text \<open>
  \<open>ch_records\<close> and \<open>ch_storage\<close> are what was put on the two handler chains, in order; \<open>ch_error\<close> is what
  \<open>onError\<close> was called with; \<open>ch_sent\<close> is what was queued for the worker's input.
\<close>

record channel =
  ch_pending :: string
  ch_closed :: bool
  ch_records :: "agent_record list"
  ch_storage :: "storage_request list"
  ch_error :: "string option"
  ch_sent :: string

definition new_channel :: channel where
  "new_channel = \<lparr>ch_pending = [], ch_closed = False, ch_records = [], ch_storage = [], ch_error = None, ch_sent = []\<rparr>"

definition channel_fail :: "string \<Rightarrow> channel \<Rightarrow> channel" where
  "channel_fail e ch = (if ch_closed ch then ch else ch\<lparr>ch_closed := True, ch_error := Some e\<rparr>)"

definition channel_line :: "channel_config \<Rightarrow> string \<Rightarrow> channel \<Rightarrow> (string, channel) result" where
  "channel_line cfg line ch =
     (if line = [] \<or> length line > max_protocol_record_bytes then Inl ''agent protocol record is invalid''
      else case cc_parse cfg line of None \<Rightarrow> Inl ''invalid JSON''
      | Some v \<Rightarrow>
         (if cc_storage cfg \<and> (case v of JObj ob \<Rightarrow> field ob ''type'' = Some (JStr ''storage_request'') | _ \<Rightarrow> False)
          then (case storage_request_of v of None \<Rightarrow> Inl ''invalid storage request''
                | Some r \<Rightarrow> Inr (ch\<lparr>ch_storage := ch_storage ch @ [r]\<rparr>))
          else (case output_record (cc_size cfg) v of None \<Rightarrow> Inl ''invalid record''
                | Some r \<Rightarrow> Inr (ch\<lparr>ch_records := ch_records ch @ [r]\<rparr>))))"

definition channel_feed :: "channel_config \<Rightarrow> string \<Rightarrow> channel \<Rightarrow> channel" where
  "channel_feed cfg chunk ch =
     (if ch_closed ch then ch
      else (let buf = ch_pending ch @ chunk in
        if length buf > max_protocol_queue_bytes
        then channel_fail ''agent protocol receive queue exceeded its bound'' (ch\<lparr>ch_pending := buf\<rparr>)
        else case frame_loop max_protocol_record_bytes ''agent protocol record exceeds its bound'' (channel_line cfg) buf ch of
               (rest, ch', None) \<Rightarrow> ch'\<lparr>ch_pending := rest\<rparr>
             | (rest, ch', Some e) \<Rightarrow> channel_fail e (ch'\<lparr>ch_pending := rest\<rparr>)))"

definition channel_end :: "channel \<Rightarrow> channel" where
  "channel_end ch = (if ch_pending ch \<noteq> [] then channel_fail ''agent protocol ended with a partial record'' ch else ch)"

definition channel_close_input :: "channel \<Rightarrow> channel" where
  "channel_close_input ch = ch\<lparr>ch_closed := True\<rparr>"

text \<open>\<open>send\<close>: the record is queued for the worker's input unless the channel is closed or it is too long.\<close>

definition channel_send :: "('r \<Rightarrow> string) \<Rightarrow> 'r \<Rightarrow> channel \<Rightarrow> (harness_error, channel) result" where
  "channel_send encode r ch =
     (if ch_closed ch then Inl (HarnessError ''CONFLICT'' ''agent protocol channel is closed'' 409 False)
      else (let encoded = frame (encode r) in
        if length encoded > max_protocol_record_bytes
        then Inl (HarnessError ''LIMIT_EXCEEDED'' ''agent protocol input exceeds the record limit'' 413 False)
        else Inr (ch\<lparr>ch_sent := ch_sent ch @ encoded\<rparr>)))"

section \<open>The channel is a framed receiver\<close>

definition channel_live :: "channel \<Rightarrow> bool" where
  "channel_live ch = (\<not> ch_closed ch \<and> take_line (ch_pending ch) = None \<and> length (ch_pending ch) \<le> max_protocol_record_bytes)"

lemma channel_line_InrD:
  "channel_line cfg line ch = Inr ch' \<Longrightarrow> length line \<le> max_protocol_record_bytes \<and> ch_closed ch' = ch_closed ch
     \<and> ch_error ch' = ch_error ch \<and> ch_pending ch' = ch_pending ch \<and> ch_sent ch' = ch_sent ch"
  by (auto simp: channel_line_def split: if_splits option.splits)

lemma bounded_channel_line: "bounded_lines max_protocol_record_bytes (channel_line cfg)"
  by (simp add: bounded_lines_def channel_line_InrD)

lemma channel_line_pending: "channel_line cfg line (ch\<lparr>ch_pending := b\<rparr>)
    = (case channel_line cfg line ch of Inl e \<Rightarrow> Inl e | Inr ch' \<Rightarrow> Inr (ch'\<lparr>ch_pending := b\<rparr>))"
  by (simp add: channel_line_def split: option.split)

lemma channel_loop_kept:
  "frame_loop limit e (channel_line cfg) x ch = (r, ch', err) \<Longrightarrow> ch_closed ch' = ch_closed ch \<and> ch_error ch' = ch_error ch"
  by (rule frame_loop_invariant [where I = "\<lambda>x. ch_closed x = ch_closed ch \<and> ch_error x = ch_error ch"])
    (auto dest: channel_line_InrD)

lemma channel_loop_pending:
  "frame_loop limit e (channel_line cfg) x (ch\<lparr>ch_pending := b\<rparr>)
     = (case frame_loop limit e (channel_line cfg) x ch of (r, ch', err) \<Rightarrow> (r, ch'\<lparr>ch_pending := b\<rparr>, err))"
proof (induction limit e "channel_line cfg" x ch rule: frame_loop.induct)
  case (1 limit e x s)
  then show ?case
    by (cases "take_line x") (auto simp: frame_loop_None frame_loop_Some channel_line_pending split: sum.split)
qed

abbreviation channel_loop :: "channel_config \<Rightarrow> string \<Rightarrow> channel \<Rightarrow> string \<times> channel \<times> string option" where
  "channel_loop cfg \<equiv> frame_loop max_protocol_record_bytes ''agent protocol record exceeds its bound'' (channel_line cfg)"

lemma channel_feed_ok:
  assumes "\<not> ch_closed ch" "length (ch_pending ch @ chunk) \<le> max_protocol_queue_bytes"
    "channel_loop cfg (ch_pending ch @ chunk) ch = (r, ch', None)"
  shows "channel_feed cfg chunk ch = ch'\<lparr>ch_pending := r\<rparr> \<and> channel_live (channel_feed cfg chunk ch)"
  using assms channel_loop_kept [OF assms(3)] frame_loop_rest [OF assms(3)]
  by (simp add: channel_feed_def Let_def channel_live_def)

lemma channel_feed_live:
  assumes "channel_live (channel_feed cfg chunk ch)"
  shows "\<not> ch_closed ch \<and> length (ch_pending ch @ chunk) \<le> max_protocol_queue_bytes
    \<and> (\<exists>r ch'. channel_loop cfg (ch_pending ch @ chunk) ch = (r, ch', None) \<and> channel_feed cfg chunk ch = ch'\<lparr>ch_pending := r\<rparr>)"
proof -
  have open_: "\<not> ch_closed ch" and len: "length (ch_pending ch @ chunk) \<le> max_protocol_queue_bytes"
    using assms by (auto simp: channel_feed_def channel_live_def channel_fail_def Let_def split: if_splits)
  obtain r ch' e where loop: "channel_loop cfg (ch_pending ch @ chunk) ch = (r, ch', e)" by (metis prod_cases3)
  have "e = None"
    using assms open_ len channel_loop_kept [OF loop]
    by (cases e) (simp_all add: channel_feed_def loop Let_def channel_live_def channel_fail_def)
  then show ?thesis
    using loop open_ len by (simp add: channel_feed_def Let_def)
qed

lemma channel_feed_split:
  assumes "channel_live (channel_feed cfg (c @ d) ch)"
  shows "channel_live (channel_feed cfg c ch) \<and> channel_feed cfg d (channel_feed cfg c ch) = channel_feed cfg (c @ d) ch"
proof -
  obtain r ch' where open_: "\<not> ch_closed ch" and len: "length (ch_pending ch @ c @ d) \<le> max_protocol_queue_bytes"
    and loop: "channel_loop cfg ((ch_pending ch @ c) @ d) ch = (r, ch', None)"
    and feed: "channel_feed cfg (c @ d) ch = ch'\<lparr>ch_pending := r\<rparr>"
    using channel_feed_live [OF assms] by auto
  obtain r1 ch1 where first: "channel_loop cfg (ch_pending ch @ c) ch = (r1, ch1, None)"
    and second: "channel_loop cfg (r1 @ d) ch1 = (r, ch', None)"
    using frame_loop_append [OF bounded_channel_line loop] by blast
  have "length (ch_pending ch @ c) \<le> max_protocol_queue_bytes" using len by simp
  note one = channel_feed_ok [OF open_ this first]
  have "length (r1 @ d) \<le> max_protocol_queue_bytes"
    using frame_loop_length [OF first] len by simp
  moreover have "channel_loop cfg (r1 @ d) (ch1\<lparr>ch_pending := r1\<rparr>) = (r, ch'\<lparr>ch_pending := r1\<rparr>, None)"
    by (simp add: channel_loop_pending second)
  moreover have "\<not> ch_closed ch1" using channel_loop_kept [OF first] open_ by simp
  ultimately have "channel_feed cfg d (ch1\<lparr>ch_pending := r1\<rparr>) = ch'\<lparr>ch_pending := r\<rparr>"
    using channel_feed_ok [of "ch1\<lparr>ch_pending := r1\<rparr>" d cfg r "ch'\<lparr>ch_pending := r1\<rparr>"] by simp
  then show ?thesis using one feed by metis
qed

lemma channel_feed_empty: "channel_live ch \<Longrightarrow> channel_feed cfg [] ch = ch"
  by (simp add: channel_live_def channel_feed_def Let_def frame_loop_None max_protocol_record_bytes_def max_protocol_queue_bytes_def)

interpretation chan: framed_receiver "channel_feed cfg" channel_live for cfg :: channel_config
  by unfold_locales (use channel_feed_split channel_feed_empty in \<open>blast+\<close>)

end
