(* ===== verification/FramingTheorems.thy ===== *)
theory FramingTheorems
  imports RecordQueue AgentChannel
begin

text \<open>
  The agent protocol end to end: chunk boundaries never show on either side, records sent arrive as
  they were sent, the receive queue stays within its bounds, and nothing follows a terminal record.
\<close>

section \<open>Chunk boundaries\<close>

text \<open>
  C13: Chunk boundaries never show. On either end of the protocol, any two ways of cutting the same
  accepted bytes into chunks leave the receiver in the same state, with the same records in the same order.
\<close>

theorem chunking_invisible:
  assumes "concat xs = concat ys"
  shows "(queue_live ql q \<and> queue_live ql (queue_feed rd ql (concat xs) q)
      \<longrightarrow> fold (queue_feed rd ql) xs q = fold (queue_feed rd ql) ys q)
    \<and> (channel_live ch \<and> channel_live (channel_feed cfg (concat xs) ch)
      \<longrightarrow> fold (channel_feed cfg) xs ch = fold (channel_feed cfg) ys ch)"
  using queue.same_bytes_same_state [OF assms] chan.same_bytes_same_state [OF assms] by blast

definition sample_reader :: "string reader" where
  "sample_reader = \<lparr>rd_utf8 = Some, rd_json = (\<lambda>s. Some (JStr s)), rd_schema = (\<lambda>v. case v of JStr s \<Rightarrow> Some s | _ \<Rightarrow> None)\<rparr>"

definition small_limits :: queue_limits where
  "small_limits = \<lparr>ql_record = 8, ql_records = 4, ql_bytes = 16\<rparr>"

lemma sample_feed:
  "queue_live small_limits (new_queue :: string record_queue)"
  "queue_live small_limits (queue_feed sample_reader small_limits (concat [frame ''ab'' @ ''c'']) new_queue)"
  "map fst (rq_records (queue_feed sample_reader small_limits (frame ''ab'' @ ''c'') new_queue)) = [''ab'']"
  by code_simp+

theorem chunking_invisible_witness:
  "map fst (rq_records (fold (queue_feed sample_reader small_limits) [''a'', ''b'', frame '''' @ ''c''] new_queue)) = [''ab'']"
proof -
  have cut: "concat [frame ''ab'' @ ''c''] = concat [''a'', ''b'', frame '''' @ ''c'']" by (simp add: frame_def)
  have "fold (queue_feed sample_reader small_limits) [frame ''ab'' @ ''c''] new_queue
      = fold (queue_feed sample_reader small_limits) [''a'', ''b'', frame '''' @ ''c''] new_queue"
    using chunking_invisible [OF cut, of small_limits new_queue sample_reader undefined undefined, THEN conjunct1]
      sample_feed(1,2) by blast
  then show ?thesis using sample_feed(3) by simp
qed

section \<open>Round trip\<close>

text \<open>\<open>send\<close> for a list of records, stopping at the first refusal.\<close>

fun send_all :: "('r \<Rightarrow> string) \<Rightarrow> 'r list \<Rightarrow> channel \<Rightarrow> (harness_error, channel) result" where
  "send_all encode [] ch = Inr ch"
| "send_all encode (r # rs) ch = ebind (channel_send encode r ch) (send_all encode rs)"

lemma send_all_frames:
  "send_all encode rs ch = Inr ch' \<Longrightarrow> ch_sent ch' = ch_sent ch @ concat (map (\<lambda>r. frame (encode r)) rs)
     \<and> (\<forall>r \<in> set rs. length (encode r) < max_protocol_record_bytes)"
  by (induction rs arbitrary: ch) (auto simp: ebind_Inr_iff channel_send_def Let_def frame_def split: if_splits)

text \<open>The encoding is the reader's inverse on one line: \<open>JSON.stringify\<close> writes no line break and reads back.\<close>

definition encodes :: "'r reader \<Rightarrow> ('r \<Rightarrow> string) \<Rightarrow> 'r \<Rightarrow> bool" where
  "encodes rd encode r = (encode r \<noteq> [] \<and> (\<forall>c \<in> set (encode r). code c \<noteq> 10 \<and> code c \<noteq> 13)
     \<and> Option.bind (rd_utf8 rd (encode r)) (\<lambda>s. Option.bind (rd_json rd s) (rd_schema rd)) = Some r)"

lemma parse_line_encoded:
  assumes "encodes rd encode r" "length (encode r) \<le> ql_record ql" "length (rq_records q) < ql_records ql"
    "rq_bytes q + length (encode r) + 1 \<le> ql_bytes ql"
  shows "parse_line rd ql (encode r) q = Inr (q\<lparr>rq_records := rq_records q @ [(r, length (encode r) + 1)],
    rq_bytes := rq_bytes q + (length (encode r) + 1)\<rparr>)"
  using assms by (auto simp: encodes_def parse_line_def Let_def split: Option.bind_splits)

definition enqueue :: "('r \<Rightarrow> string) \<Rightarrow> 'r list \<Rightarrow> 'r record_queue \<Rightarrow> 'r record_queue" where
  "enqueue encode rs q = q\<lparr>rq_records := rq_records q @ map (\<lambda>r. (r, length (encode r) + 1)) rs,
     rq_bytes := rq_bytes q + sum_list (map (\<lambda>r. length (encode r) + 1) rs)\<rparr>"

lemma frame_loop_encoded:
  assumes "\<forall>r \<in> set rs. encodes rd encode r \<and> length (encode r) \<le> ql_record ql"
    "length (rq_records q) + length rs \<le> ql_records ql"
    "rq_bytes q + sum_list (map (\<lambda>r. length (encode r) + 1) rs) \<le> ql_bytes ql"
  shows "frame_loop limit e (parse_line rd ql) (concat (map (\<lambda>r. frame (encode r)) rs)) q = ([], enqueue encode rs q, None)"
  using assms
proof (induction rs arbitrary: q)
  case Nil
  then show ?case by (simp add: frame_loop_None enqueue_def)
next
  case (Cons r rs)
  let ?q = "enqueue encode [r] q"
  have line: "take_line (frame (encode r) @ concat (map (\<lambda>r. frame (encode r)) rs))
      = Some (encode r, concat (map (\<lambda>r. frame (encode r)) rs))"
    using Cons.prems(1) by (intro take_line_frame) (simp add: encodes_def)
  have "parse_line rd ql (encode r) q = Inr ?q"
    using Cons.prems parse_line_encoded [of rd encode r ql q] by (simp add: enqueue_def)
  moreover have "frame_loop limit e (parse_line rd ql) (concat (map (\<lambda>r. frame (encode r)) rs)) ?q
      = ([], enqueue encode rs ?q, None)"
    using Cons.prems by (intro Cons.IH) (simp_all add: enqueue_def)
  ultimately show ?case
    by (simp add: frame_loop_Some [OF line]) (simp add: enqueue_def)
qed

text \<open>
  C14: What the runner sends is what the worker's queue holds. If the runner's channel accepted a list
  of records that the encoding represents and that fits the queue, then however the sent bytes are cut into
  chunks, the worker's queue holds exactly those records in order, with nothing left in its buffer.
\<close>

theorem sent_records_received:
  assumes "send_all encode rs (new_channel :: channel) = Inr ch"
    and "concat chunks = ch_sent ch"
    and "\<forall>r \<in> set rs. encodes rd encode r"
    and "length rs \<le> ql_records ql" "length (ch_sent ch) \<le> ql_bytes ql" "max_protocol_record_bytes \<le> ql_record ql"
  shows "map fst (rq_records (fold (queue_feed rd ql) chunks new_queue)) = rs
    \<and> rq_buffer (fold (queue_feed rd ql) chunks new_queue) = [] \<and> rq_error (fold (queue_feed rd ql) chunks new_queue) = None"
proof -
  have sent: "ch_sent ch = concat (map (\<lambda>r. frame (encode r)) rs)" and short: "\<forall>r \<in> set rs. length (encode r) \<le> ql_record ql"
    using send_all_frames [OF assms(1)] assms(6) by (auto simp: new_channel_def)
  have total: "sum_list (map (\<lambda>r. length (encode r) + 1) rs) = length (ch_sent ch)"
    by (simp add: sent length_concat frame_def comp_def)
  have loop: "frame_loop (ql_record ql) ''protocol record exceeds byte limit'' (parse_line rd ql) (concat chunks) new_queue
      = ([], enqueue encode rs new_queue, None)"
    unfolding assms(2) sent
    using assms(3,4,5) short total by (intro frame_loop_encoded) (simp_all add: new_queue_def)
  have fresh: "rq_error (new_queue :: 'a record_queue) = None" "\<not> rq_ended (new_queue :: 'a record_queue)"
    "rq_buffer (new_queue :: 'a record_queue) = []" "queue_live ql (new_queue :: 'a record_queue)"
    by (simp_all add: new_queue_def queue_live_def)
  have "queue_feed rd ql (concat chunks) new_queue = (enqueue encode rs new_queue)\<lparr>rq_buffer := []\<rparr>"
    "queue_live ql (queue_feed rd ql (concat chunks) new_queue)"
    using queue_feed_ok [of new_queue "concat chunks" ql rd "[]" "enqueue encode rs new_queue"] fresh loop assms(2,5)
    by simp_all
  then have "fold (queue_feed rd ql) chunks new_queue = (enqueue encode rs new_queue)\<lparr>rq_buffer := []\<rparr>"
    using queue.feed_chunks [of ql rd chunks new_queue] fresh(4) by simp
  then show ?thesis
    by (simp add: enqueue_def new_queue_def comp_def)
qed

definition wide_limits :: queue_limits where
  "wide_limits = small_limits\<lparr>ql_record := max_protocol_record_bytes\<rparr>"

lemma max_record_big: "16 \<le> max_protocol_record_bytes"
  unfolding max_protocol_record_bytes_def by linarith

theorem sent_records_received_witness:
  "map fst (rq_records (fold (queue_feed sample_reader wide_limits) [''a'', ''b'' @ frame '''', frame ''c''] new_queue)) = [''ab'', ''c'']"
proof -
  have long: "length (frame ''ab'') \<le> max_protocol_record_bytes" "length (frame ''c'') \<le> max_protocol_record_bytes"
    using max_record_big by (simp_all add: frame_def)
  obtain ch where sent: "send_all (\<lambda>s. s) [''ab'', ''c''] new_channel = Inr ch" and bytes: "ch_sent ch = frame ''ab'' @ frame ''c''"
    using long by (simp add: channel_send_def Let_def new_channel_def)
  have "encodes sample_reader (\<lambda>s. s) ''ab''" "encodes sample_reader (\<lambda>s. s) ''c''"
    by (simp_all add: encodes_def sample_reader_def code_def)
  then show ?thesis
    using sent_records_received [OF sent, of "[''a'', ''b'' @ frame '''', frame ''c'']" sample_reader wide_limits] bytes
    by (simp add: frame_def wide_limits_def small_limits_def)
qed

section \<open>Bounds and the terminal record\<close>

datatype queue_op = Feed string | Shift | EndInput

fun queue_step :: "'r reader \<Rightarrow> queue_limits \<Rightarrow> queue_op \<Rightarrow> 'r record_queue \<Rightarrow> 'r record_queue" where
  "queue_step rd ql (Feed chunk) q = queue_feed rd ql chunk q"
| "queue_step rd ql Shift q = snd (queue_shift q)"
| "queue_step rd ql EndInput q = queue_end q"

lemma queue_ok_run: "queue_ok ql q \<Longrightarrow> queue_ok ql (fold (queue_step rd ql) ops q)"
proof (induction ops arbitrary: q)
  case Nil
  then show ?case by simp
next
  case (Cons op ops)
  have "queue_ok ql (queue_step rd ql op q)"
    using Cons.prems by (cases op) (simp_all add: queue_ok_feed queue_ok_shift queue_ok_end)
  then show ?case using Cons.IH by simp
qed

text \<open>
  The receive queue stays within its bounds. Over any sequence of chunks, shifts and end of
  input, the number of queued records and their bytes never pass the limits, and the byte counter is
  exactly the sum over the records still queued.
\<close>

theorem record_queue_bounded:
  "length (rq_records (fold (queue_step rd ql) ops new_queue)) \<le> ql_records ql
    \<and> rq_bytes (fold (queue_step rd ql) ops new_queue) = sum_list (map snd (rq_records (fold (queue_step rd ql) ops new_queue)))
    \<and> rq_bytes (fold (queue_step rd ql) ops new_queue) \<le> ql_bytes ql"
  using queue_ok_run [of ql new_queue rd ops] by (simp add: queue_ok_def new_queue_def)

end
