(* ===== verification/SecretKeyring.thy ===== *)
theory SecretKeyring
  imports Json
begin

text \<open>
  The runner's secret keyring: \<open>apps/runner/src/secret-keyring.ts\<close>. AES-256-GCM is the platform's; it is the
  record \<open>aead\<close>, a parameter of every operation, and its laws are \<open>aead_ok\<close> below. Key and nonce bytes are
  strings. Zeroing a plaintext buffer has no observable effect here.
\<close>

record aead =
  gcm_seal :: "string \<Rightarrow> string \<Rightarrow> json \<Rightarrow> string \<Rightarrow> string \<times> string"
  gcm_open :: "string \<Rightarrow> string \<Rightarrow> json \<Rightarrow> string \<Rightarrow> string \<Rightarrow> string option"

record secret_context =
  sx_principal :: string
  sx_environment :: string
  sx_name :: string
  sx_version :: int

record encrypted_secret =
  en_version :: int
  en_nonce :: string
  en_text :: string
  en_tag :: string

record secret_keyring =
  kr_active :: int
  kr_keys :: "(int, string) jmap"

datatype keyring_error =
    InvalidActiveVersion | InvalidKeyVersion | DuplicateKeyVersion int | KeyNot32Bytes
  | ActiveKeyUnavailable int | UnknownKeyVersion int | AuthenticationFailed

text \<open>The associated data is the text of this JSON array.\<close>

definition associated_data :: "secret_context \<Rightarrow> json" where
  "associated_data c = JArr [JStr (sx_principal c), JStr (sx_environment c), JStr (sx_name c), JInt (sx_version c)]"

definition key_version_ok :: "int \<Rightarrow> bool" where
  "key_version_ok v = (1 \<le> v \<and> v \<le> max_safe)"

fun add_keys :: "(int \<times> string) list \<Rightarrow> (int, string) jmap \<Rightarrow> (keyring_error, (int, string) jmap) result" where
  "add_keys [] ks = Inr ks"
| "add_keys ((v, key) # configs) ks =
     (if \<not> key_version_ok v then Inl InvalidKeyVersion
      else if jhas ks v then Inl (DuplicateKeyVersion v)
      else if length key \<noteq> 32 then Inl KeyNot32Bytes
      else add_keys configs (jset v key ks))"

definition new_keyring :: "int \<Rightarrow> (int \<times> string) list \<Rightarrow> (keyring_error, secret_keyring) result" where
  "new_keyring active configured =
     (if \<not> key_version_ok active then Inl InvalidActiveVersion
      else ebind (add_keys configured []) (\<lambda>ks.
        if jhas ks active then Inr \<lparr>kr_active = active, kr_keys = ks\<rparr> else Inl (ActiveKeyUnavailable active)))"

text \<open>\<open>encryptBuffer\<close>; the active key exists by construction, so the code's assertion is the \<open>the\<close> here.\<close>

definition encrypt :: "aead \<Rightarrow> secret_keyring \<Rightarrow> string \<Rightarrow> string \<Rightarrow> secret_context \<Rightarrow> encrypted_secret" where
  "encrypt g kr nonce plaintext c =
     (let sealed = gcm_seal g (the (jget (kr_keys kr) (kr_active kr))) nonce (associated_data c) plaintext
      in \<lparr>en_version = kr_active kr, en_nonce = nonce, en_text = fst sealed, en_tag = snd sealed\<rparr>)"

definition decrypt :: "aead \<Rightarrow> secret_keyring \<Rightarrow> encrypted_secret \<Rightarrow> secret_context \<Rightarrow> (keyring_error, string) result" where
  "decrypt g kr e c =
     (case jget (kr_keys kr) (en_version e) of
        None \<Rightarrow> Inl (UnknownKeyVersion (en_version e))
      | Some key \<Rightarrow>
          (case gcm_open g key (en_nonce e) (associated_data c) (en_text e) (en_tag e) of
             None \<Rightarrow> Inl AuthenticationFailed
           | Some plaintext \<Rightarrow> Inr plaintext))"

definition verify_secret :: "aead \<Rightarrow> secret_keyring \<Rightarrow> encrypted_secret \<Rightarrow> secret_context \<Rightarrow> (keyring_error, unit) result" where
  "verify_secret g kr e c = ebind (decrypt g kr e c) (\<lambda>_. Inr ())"

definition reencrypt :: "aead \<Rightarrow> secret_keyring \<Rightarrow> string \<Rightarrow> encrypted_secret \<Rightarrow> secret_context \<Rightarrow> (keyring_error, encrypted_secret) result" where
  "reencrypt g kr nonce e c = ebind (decrypt g kr e c) (\<lambda>plaintext. Inr (encrypt g kr nonce plaintext c))"

fun assert_available_versions :: "secret_keyring \<Rightarrow> int list \<Rightarrow> (keyring_error, unit) result" where
  "assert_available_versions kr [] = Inr ()"
| "assert_available_versions kr (v # vs) =
     (if jhas (kr_keys kr) v then assert_available_versions kr vs else Inl (UnknownKeyVersion v))"

definition close_keyring :: "secret_keyring \<Rightarrow> secret_keyring" where
  "close_keyring kr = kr\<lparr>kr_keys := []\<rparr>"

section \<open>What a keyring promises\<close>

definition keyring_ok :: "secret_keyring \<Rightarrow> bool" where
  "keyring_ok kr = jhas (kr_keys kr) (kr_active kr)"

text \<open>The documented behaviour of the authenticated cipher: what it sealed opens, under the same associated data only.\<close>

definition aead_ok :: "aead \<Rightarrow> bool" where
  "aead_ok g = (\<forall>key nonce c c' plaintext.
     (let sealed = gcm_seal g key nonce (associated_data c) plaintext
      in gcm_open g key nonce (associated_data c') (fst sealed) (snd sealed) = (if c' = c then Some plaintext else None)))"

text \<open>A keyring rotated from another keeps every key the other had.\<close>

definition keyring_extends :: "secret_keyring \<Rightarrow> secret_keyring \<Rightarrow> bool" where
  "keyring_extends kr kr' = (\<forall>v key. jget (kr_keys kr) v = Some key \<longrightarrow> jget (kr_keys kr') v = Some key)"

text \<open>A failed decryption as the absence of a plaintext, the way the callers that catch it read it.\<close>

definition decrypted :: "aead \<Rightarrow> secret_keyring \<Rightarrow> encrypted_secret \<Rightarrow> secret_context \<Rightarrow> string option" where
  "decrypted g kr e c = (case decrypt g kr e c of Inr p \<Rightarrow> Some p | Inl _ \<Rightarrow> None)"

lemma decrypt_encrypt:
  assumes "aead_ok g" "keyring_ok kr" "keyring_extends kr kr'"
  shows "decrypt g kr' (encrypt g kr nonce p c) c' = (if c' = c then Inr p else Inl AuthenticationFailed)"
proof -
  obtain key where "jget (kr_keys kr) (kr_active kr) = Some key"
    using assms(2) by (auto simp: keyring_ok_def jhas_def)
  then show ?thesis
    using assms(1,3)
    by (simp add: decrypt_def encrypt_def Let_def keyring_extends_def aead_ok_def)
qed

lemma reencrypt_encrypt:
  assumes "aead_ok g" "keyring_ok kr" "keyring_extends kr kr'" "keyring_ok kr'"
  shows "reencrypt g kr' nonce' (encrypt g kr nonce p c) c = Inr (encrypt g kr' nonce' p c)"
  using assms by (simp add: reencrypt_def decrypt_encrypt)

lemma keyring_extends_refl: "keyring_extends kr kr"
  by (simp add: keyring_extends_def)

lemma add_keys_ok: "add_keys configured ks = Inr ks' \<Longrightarrow> jget ks' v = Some key
    \<Longrightarrow> jget ks v = Some key \<or> (v, key) \<in> set configured \<and> length key = 32"
  by (induction configured ks rule: add_keys.induct) (auto split: if_splits)

lemma new_keyring_ok: "new_keyring active configured = Inr kr \<Longrightarrow> keyring_ok kr"
  by (auto simp: new_keyring_def keyring_ok_def guard_simps split: if_splits)

section \<open>A cipher with these laws\<close>

text \<open>For concrete runs: the tag spells out the associated data, and opening compares it.\<close>

fun escaped :: "string \<Rightarrow> string" where
  "escaped [] = ''.''"
| "escaped (c # s) = CHR ''+'' # c # escaped s"

definition unary :: "int \<Rightarrow> string" where
  "unary n = (if 0 \<le> n then CHR ''p'' # replicate (nat n) CHR ''x'' else CHR ''m'' # replicate (nat (- n)) CHR ''x'')"

fun spelled :: "json \<Rightarrow> string" where
  "spelled (JArr [JStr a, JStr b, JStr c, JNum (Fin r)]) = escaped a @ escaped b @ escaped c @ unary \<lfloor>r\<rfloor>"
| "spelled _ = []"

definition spelled_aead :: aead where
  "spelled_aead = \<lparr>gcm_seal = (\<lambda>key nonce ad p. (p, spelled ad)),
     gcm_open = (\<lambda>key nonce ad text tag. if tag = spelled ad then Some text else None)\<rparr>"

lemma escaped_append: "escaped s @ u = escaped t @ v \<longleftrightarrow> s = t \<and> u = v"
  by (induction s t rule: list_induct2') auto

lemma unary_inject: "unary m = unary n \<longleftrightarrow> m = n"
  by (auto simp: unary_def dest: arg_cong [where f = length])

lemma spelled_inject: "spelled (associated_data c) = spelled (associated_data c') \<longleftrightarrow> c = c'"
  by (cases c; cases c') (auto simp: associated_data_def escaped_append unary_inject)

lemma spelled_aead_ok: "aead_ok spelled_aead"
  by (simp add: aead_ok_def spelled_aead_def spelled_inject)

end
