(* ===== verification/EventStore.thy ===== *)
theory EventStore
  imports Json SpendCalendar SecretKeyring
begin

text \<open>
  The MCP Events tables (schema version 13 of \<open>apps/runner/src/principal-store.ts\<close>) and the transactional
  outbox that fills them, \<open>apps/runner/src/event-outbox.ts\<close>. A table is the list of its rows in insertion
  order. A JSON text column is the value it parses to, \<open>None\<close> for a text that does not parse. SHA-256 and
  random ids are parameters. The rows of tasks, agents, workspaces and API keys belong to other components;
  the queries here read them from \<open>host_tables\<close>.
\<close>

section \<open>Tables\<close>

datatype event_name = TaskCompleted | TaskFailed | AgentSettled | AgentFailed

definition event_name_text :: "event_name \<Rightarrow> string" where
  "event_name_text n = (case n of
     TaskCompleted \<Rightarrow> ''cloudharness.task.completed'' | TaskFailed \<Rightarrow> ''cloudharness.task.failed''
   | AgentSettled \<Rightarrow> ''cloudharness.agent.settled'' | AgentFailed \<Rightarrow> ''cloudharness.agent.failed'')"

datatype subscription_state = Subscribed | SubscriptionRevoked

datatype delivery_status = Pending | Delivered | Abandoned

record sealed_secret =
  se_generation :: int
  se_envelope :: encrypted_secret

record subscription =
  es_id :: string
  es_owner :: string
  es_name :: event_name
  es_args :: "json option"
  es_url :: string
  es_key :: "string option"
  es_state :: subscription_state
  es_generation :: int
  es_secret :: "sealed_secret option"
  es_previous :: "sealed_secret option option"
  es_previous_until :: "int option"
  es_expires :: int
  es_last_delivery :: "int option"
  es_error :: "string option"
  es_failed_since :: "int option"
  es_revoked :: "int option"
  es_created :: int
  es_updated :: int

record outbox_event =
  ev_id :: string
  ev_owner :: string
  ev_source :: string
  ev_name :: event_name
  ev_occurred :: int
  ev_payload :: jobject
  ev_created :: int

record delivery =
  dl_id :: string
  dl_event :: string
  dl_sub :: string
  dl_status :: delivery_status
  dl_attempts :: int
  dl_next :: int
  dl_lease_until :: "int option"
  dl_lease_token :: "string option"
  dl_error :: "string option"
  dl_first :: "int option"
  dl_completed :: "int option"
  dl_created :: int

record task_row =
  tk_id :: string
  tk_workspace :: string
  tk_owner :: string
  tk_status :: string
  tk_exit :: "int option"
  tk_error :: "string option"
  tk_finished :: "int option"

record agent_row =
  ag_id :: string
  ag_workspace :: string
  ag_owner :: string
  ag_parent :: "string option"
  ag_status :: string
  ag_unknown :: int
  ag_terminal :: "int option"

record api_key_row =
  ak_id :: string
  ak_principal :: string
  ak_active :: bool
  ak_expires :: int

record host_tables =
  ht_workspaces :: "(string \<times> string) list"
  ht_tasks :: "task_row list"
  ht_agents :: "agent_row list"
  ht_api_keys :: "api_key_row list option"

record event_db =
  tb_host :: host_tables
  tb_subs :: "subscription list"
  tb_verified :: "(string \<times> string, int) jmap"
  tb_events :: "outbox_event list"
  tb_deliveries :: "delivery list"

section \<open>The outbox\<close>

text \<open>\<open>Date.prototype.toISOString\<close>.\<close>

definition iso_time :: "int \<Rightarrow> string" where
  "iso_time t = iso_date (civil_of t) @ ''T'' @ pad_digits 2 (t mod ms_per_day div 3600000)
     @ '':'' @ pad_digits 2 (t mod 3600000 div 60000) @ '':'' @ pad_digits 2 (t mod 60000 div 1000)
     @ ''.'' @ pad_digits 3 (t mod 1000) @ ''Z''"

definition terminal_task_statuses :: "string list" where
  "terminal_task_statuses = [''SUCCEEDED'', ''FAILED'', ''CANCELLED'', ''BLOCKED'']"

definition is_terminal_task_status :: "string option \<Rightarrow> bool" where
  "is_terminal_task_status s = (case s of None \<Rightarrow> False | Some st \<Rightarrow> st \<in> set terminal_task_statuses)"

text \<open>\<open>createHash('sha256').update(text).digest('hex')\<close> is the parameter \<open>sha\<close>.\<close>

definition event_id_for_source :: "(string \<Rightarrow> string) \<Rightarrow> string \<Rightarrow> string" where
  "event_id_for_source sha source = ''evt_'' @ take 32 (sha source)"

definition bounded_code :: "string option \<Rightarrow> string option" where
  "bounded_code c = map_option (take 100) c"

text \<open>\<open>===\<close> between a payload field and a filter value: objects and arrays are never identical to a parsed one.\<close>

definition strictly_equal :: "json option \<Rightarrow> json \<Rightarrow> bool" where
  "strictly_equal a b = (case a of None \<Rightarrow> False | Some v \<Rightarrow> v = b \<and> \<not> is_object b)"

definition matches_arguments :: "json option \<Rightarrow> jobject \<Rightarrow> bool" where
  "matches_arguments args payload =
     (case args of Some (JObj fs) \<Rightarrow> list_all (\<lambda>(k, v). strictly_equal (field payload k) v) fs | _ \<Rightarrow> False)"

definition active_at :: "int \<Rightarrow> subscription \<Rightarrow> bool" where
  "active_at now s = (es_state s = Subscribed \<and> now < es_expires s)"

definition recipients :: "string \<Rightarrow> event_name \<Rightarrow> jobject \<Rightarrow> int \<Rightarrow> event_db \<Rightarrow> subscription list" where
  "recipients owner nm payload now db =
     filter (\<lambda>s. matches_arguments (es_args s) payload)
       (filter (\<lambda>s. es_owner s = owner \<and> es_name s = nm \<and> active_at now s) (tb_subs db))"

text \<open>\<open>INSERT OR IGNORE\<close>: the primary key and the unique columns decide.\<close>

definition event_present :: "string \<Rightarrow> string \<Rightarrow> event_db \<Rightarrow> bool" where
  "event_present i source db = list_ex (\<lambda>e. ev_id e = i \<or> ev_source e = source) (tb_events db)"

definition new_delivery :: "string \<Rightarrow> string \<Rightarrow> string \<Rightarrow> int \<Rightarrow> delivery" where
  "new_delivery i event sub now = \<lparr>dl_id = i, dl_event = event, dl_sub = sub, dl_status = Pending, dl_attempts = 0,
     dl_next = now, dl_lease_until = None, dl_lease_token = None, dl_error = None, dl_first = None,
     dl_completed = None, dl_created = now\<rparr>"

definition insert_delivery :: "delivery \<Rightarrow> event_db \<Rightarrow> event_db" where
  "insert_delivery d db =
     (if list_ex (\<lambda>x. dl_id x = dl_id d \<or> dl_event x = dl_event d \<and> dl_sub x = dl_sub d) (tb_deliveries db)
      then db else db\<lparr>tb_deliveries := tb_deliveries db @ [d]\<rparr>)"

text \<open>\<open>draw\<close> is \<open>newDeliveryId\<close>, the random id drawn for each recipient.\<close>

definition record_event :: "(string \<Rightarrow> string) \<Rightarrow> (string \<Rightarrow> string) \<Rightarrow> string \<Rightarrow> string \<Rightarrow> event_name \<Rightarrow> int \<Rightarrow> jobject
    \<Rightarrow> int \<Rightarrow> event_db \<Rightarrow> event_db" where
  "record_event sha draw owner source nm occurred payload now db =
     (let to = recipients owner nm payload now db; i = event_id_for_source sha source in
      if to = [] then db
      else if event_present i source db then db
      else fold (\<lambda>s. insert_delivery (new_delivery (draw (es_id s)) i (es_id s) now)) to
             (db\<lparr>tb_events := tb_events db @ [\<lparr>ev_id = i, ev_owner = owner, ev_source = source, ev_name = nm,
                ev_occurred = occurred, ev_payload = payload, ev_created = now\<rparr>]\<rparr>))"

definition json_text :: "string option \<Rightarrow> json" where
  "json_text t = (case t of None \<Rightarrow> JNull | Some s \<Rightarrow> JStr s)"

definition json_int :: "int option \<Rightarrow> json" where
  "json_int t = (case t of None \<Rightarrow> JNull | Some n \<Rightarrow> JInt n)"

definition or_now :: "int option \<Rightarrow> int \<Rightarrow> int" where
  "or_now t now = (case t of None \<Rightarrow> now | Some n \<Rightarrow> n)"

definition task_source :: "string \<Rightarrow> string" where
  "task_source i = ''task:'' @ i @ '':terminal''"

definition agent_source :: "string \<Rightarrow> string" where
  "agent_source i = ''agent:'' @ i @ '':terminal''"

definition task_payload :: "task_row \<Rightarrow> int \<Rightarrow> jobject" where
  "task_payload row occurred =
     (if tk_status row = ''SUCCEEDED''
      then [(''workspaceId'', JStr (tk_workspace row)), (''taskId'', JStr (tk_id row)), (''status'', JStr ''SUCCEEDED''),
            (''exitCode'', json_int (tk_exit row)), (''finishedAt'', JStr (iso_time occurred))]
      else [(''workspaceId'', JStr (tk_workspace row)), (''taskId'', JStr (tk_id row)), (''status'', JStr (tk_status row)),
            (''exitCode'', json_int (tk_exit row)), (''errorCode'', json_text (bounded_code (tk_error row))),
            (''finishedAt'', JStr (iso_time occurred))])"

definition emit_task_terminal :: "(string \<Rightarrow> string) \<Rightarrow> (string \<Rightarrow> string) \<Rightarrow> string \<Rightarrow> int \<Rightarrow> event_db \<Rightarrow> event_db" where
  "emit_task_terminal sha draw task now db =
     (case find (\<lambda>r. tk_id r = task) (ht_tasks (tb_host db)) of
        None \<Rightarrow> db
      | Some row \<Rightarrow>
          if \<not> is_terminal_task_status (Some (tk_status row)) then db
          else record_event sha draw (tk_owner row) (task_source (tk_id row))
                 (if tk_status row = ''SUCCEEDED'' then TaskCompleted else TaskFailed)
                 (or_now (tk_finished row) now) (task_payload row (or_now (tk_finished row) now)) now db)"

definition failed_agent_statuses :: "string list" where
  "failed_agent_statuses = [''FAILED'', ''CANCELLED'', ''TIMED_OUT'', ''LIMIT_EXCEEDED'', ''INTERRUPTED'']"

definition agent_payload :: "agent_row \<Rightarrow> int \<Rightarrow> jobject" where
  "agent_payload row occurred =
     [(''workspaceId'', JStr (ag_workspace row)), (''agentId'', JStr (ag_id row)), (''parentAgentId'', json_text (ag_parent row))]
     @ (if ag_status row = ''SUCCEEDED''
        then [(''status'', JStr ''SUCCEEDED''), (''terminalAt'', JStr (iso_time occurred))]
        else [(''status'', JStr (ag_status row)), (''outcomeUnknown'', JBool (ag_unknown row = 1)),
              (''terminalAt'', JStr (iso_time occurred))])"

definition emit_agent_terminal :: "(string \<Rightarrow> string) \<Rightarrow> (string \<Rightarrow> string) \<Rightarrow> string \<Rightarrow> string \<Rightarrow> string \<Rightarrow> int
    \<Rightarrow> event_db \<Rightarrow> event_db" where
  "emit_agent_terminal sha draw owner workspace agent now db =
     (case find (\<lambda>r. ag_owner r = owner \<and> ag_workspace r = workspace \<and> ag_id r = agent) (ht_agents (tb_host db)) of
        None \<Rightarrow> db
      | Some row \<Rightarrow>
          if ag_status row = ''SUCCEEDED'' \<or> ag_status row \<in> set failed_agent_statuses
          then record_event sha draw (ag_owner row) (agent_source (ag_id row))
                 (if ag_status row = ''SUCCEEDED'' then AgentSettled else AgentFailed)
                 (or_now (ag_terminal row) now) (agent_payload row (or_now (ag_terminal row) now)) now db
          else db)"

text \<open>\<open>withEventSavepoint\<close>: the action's changes are kept when it returns and undone when it throws.\<close>

definition with_event_savepoint :: "('d \<Rightarrow> ('e, 'a \<times> 'd) result) \<Rightarrow> 'd \<Rightarrow> ('e, 'a) result \<times> 'd" where
  "with_event_savepoint action db = (case action db of Inl e \<Rightarrow> (Inl e, db) | Inr (a, db') \<Rightarrow> (Inr a, db'))"

end
