(* ===== verification/EventService.thy ===== *)
theory EventService
  imports EventStore
begin

text \<open>
  The subscription and delivery service of MCP Events, \<open>apps/runner/src/mcp-event-service.ts\<close>, and the API's
  delivery worker, \<open>apps/api/src/events/event-delivery-worker.ts\<close>. Each operation is one transaction read at one
  clock value; one that throws returns no state, so the caller keeps the old one. JSON texts are the values they
  render. Hashes, byte lengths, URL parsing and the cipher are the environment \<open>event_env\<close>; random tokens and
  nonces are arguments.
\<close>

section \<open>Identity of a subscription\<close>

fun canonical_json :: "json \<Rightarrow> json" where
  "canonical_json (JArr xs) = JArr (map canonical_json xs)"
| "canonical_json (JObj fs) =
     JObj (order_by (\<lambda>a b. str_less (fst a) (fst b)) (map (\<lambda>p. (fst p, canonical_json (snd p))) fs))"
| "canonical_json v = v"

record event_env =
  ee_hash :: "json \<Rightarrow> string"
  ee_bytes :: "json \<Rightarrow> int"
  ee_origin :: "string \<Rightarrow> string option"
  ee_aead :: aead
  ee_keyring :: "secret_keyring option"

definition subscription_id_for :: "event_env \<Rightarrow> string \<Rightarrow> string \<Rightarrow> event_name \<Rightarrow> json \<Rightarrow> string" where
  "subscription_id_for env prin url nm args =
     ''sub_'' @ take 32 (ee_hash env (JArr [JStr prin, JStr url, JStr (event_name_text nm), args]))"

definition callback_errors :: "string list" where
  "callback_errors = [''connection_refused'', ''timeout'', ''tls_error'', ''http_4xx'', ''http_5xx'', ''challenge_failed'']"

definition callback_error :: "string option \<Rightarrow> string option" where
  "callback_error v = (case v of Some e \<Rightarrow> if e \<in> set callback_errors then Some e else None | None \<Rightarrow> None)"

datatype events_failure = EventsError string string | ConstraintViolated

record event_service =
  sv_db :: event_db
  sv_last_purge :: int
  sv_keys_seen :: bool
  sv_audit :: "(string \<times> string \<times> string \<times> int \<times> jobject) list"

definition audit :: "string \<Rightarrow> string \<Rightarrow> string \<Rightarrow> int \<Rightarrow> jobject \<Rightarrow> event_service \<Rightarrow> event_service" where
  "audit prin act i gen details sv = sv\<lparr>sv_audit := sv_audit sv @ [(prin, act, i, gen, details)]\<rparr>"

definition set_db :: "event_db \<Rightarrow> event_service \<Rightarrow> event_service" where
  "set_db db sv = sv\<lparr>sv_db := db\<rparr>"

definition retry_delays :: "int list" where
  "retry_delays = [15000, 60000, 180000, 480000]"

definition retry_window :: int where
  "retry_window = 15 * 60000"

definition event_retention :: int where
  "event_retention = 7 * 86400000"

definition purge_interval :: int where
  "purge_interval = 60000"

definition max_attempts :: int where
  "max_attempts = int (length retry_delays) + 1"

record events_limits =
  li_default_ttl :: int
  li_max_ttl :: int
  li_min_ttl :: int
  li_active :: nat
  li_retained :: nat
  li_verification :: int
  li_grace :: int
  li_body :: int

definition mcp_events_limits :: events_limits where
  "mcp_events_limits = \<lparr>li_default_ttl = 86400000, li_max_ttl = 86400000, li_min_ttl = 60000, li_active = 100,
     li_retained = 1000, li_verification = 86400000, li_grace = 600000, li_body = 262144\<rparr>"

section \<open>Admission\<close>

definition argument_fields :: "event_name \<Rightarrow> (string \<times> string) list" where
  "argument_fields nm =
     (if nm = TaskCompleted \<or> nm = TaskFailed then [(''workspaceId'', ''ws''), (''taskId'', ''task'')]
      else [(''workspaceId'', ''ws''), (''agentId'', ''agent'')])"

text \<open>The strict argument schemas: only the listed fields, each an identifier of its kind.\<close>

definition argument_ok :: "event_name \<Rightarrow> string \<times> json \<Rightarrow> bool" where
  "argument_ok nm p =
     (case (map_of (argument_fields nm) (fst p), snd p) of (Some prefix, JStr s) \<Rightarrow> opaque_id prefix s | _ \<Rightarrow> False)"

definition validated_arguments :: "event_name \<Rightarrow> jobject \<Rightarrow> (events_failure, json) result" where
  "validated_arguments nm value =
     (if list_all (argument_ok nm) value then Inr (canonical_json (JObj value))
      else Inl (EventsError ''INVALID_INPUT'' ''invalid event arguments''))"

text \<open>A filter member of the canonical arguments.\<close>

definition filter_text :: "json \<Rightarrow> string \<Rightarrow> string option" where
  "filter_text args k = (case args of JObj fs \<Rightarrow> (case field fs k of Some (JStr s) \<Rightarrow> Some s | _ \<Rightarrow> None) | _ \<Rightarrow> None)"

definition owns_or_unset :: "string option \<Rightarrow> (string \<Rightarrow> bool) \<Rightarrow> bool" where
  "owns_or_unset v owned = (case v of None \<Rightarrow> True | Some i \<Rightarrow> owned i)"

record subscription_key =
  sk_name :: event_name
  sk_args :: jobject
  sk_url :: string

definition admit_subscription :: "event_env \<Rightarrow> string \<Rightarrow> 'a subscription_key_scheme \<Rightarrow> int \<Rightarrow> event_db
    \<Rightarrow> (events_failure, string \<times> json) result" where
  "admit_subscription env prin inp now db =
     ebind (validated_arguments (sk_name inp) (sk_args inp)) (\<lambda>args.
     ebind (echeck (owns_or_unset (filter_text args ''workspaceId'') (\<lambda>i. (prin, i) \<in> set (ht_workspaces (tb_host db))))
        (EventsError ''FORBIDDEN'' ''workspace is not accessible to this principal'')) (\<lambda>_.
     ebind (echeck (owns_or_unset (filter_text args ''taskId'')
           (\<lambda>i. list_ex (\<lambda>t. tk_owner t = prin \<and> tk_id t = i) (ht_tasks (tb_host db))))
        (EventsError ''FORBIDDEN'' ''task is not accessible to this principal'')) (\<lambda>_.
     ebind (echeck (owns_or_unset (filter_text args ''agentId'')
           (\<lambda>i. list_ex (\<lambda>a. ag_owner a = prin \<and> ag_id a = i) (ht_agents (tb_host db))))
        (EventsError ''FORBIDDEN'' ''agent is not accessible to this principal'')) (\<lambda>_.
     let i = subscription_id_for env prin (sk_url inp) (sk_name inp) args in
     ebind (echeck (length (filter (\<lambda>s. es_owner s = prin \<and> active_at now s \<and> es_id s \<noteq> i) (tb_subs db))
           < li_active mcp_events_limits)
        (EventsError ''RESOURCE_EXHAUSTED'' ''active event subscription limit reached'')) (\<lambda>_.
     ebind (echeck (length (filter (\<lambda>s. es_owner s = prin \<and> es_id s \<noteq> i) (tb_subs db)) < li_retained mcp_events_limits)
        (EventsError ''RESOURCE_EXHAUSTED'' ''retained event subscription limit reached'')) (\<lambda>_.
     Inr (i, args)))))))"

definition is_verified :: "string \<Rightarrow> string \<Rightarrow> int \<Rightarrow> event_db \<Rightarrow> bool" where
  "is_verified prin url now db =
     (case jget (tb_verified db) (prin, url) of
        None \<Rightarrow> False | Some t \<Rightarrow> now - t < li_verification mcp_events_limits)"

definition subscription_row :: "string \<Rightarrow> string \<Rightarrow> event_db \<Rightarrow> subscription option" where
  "subscription_row prin i db = find (\<lambda>s. es_owner s = prin \<and> es_id s = i) (tb_subs db)"

record status_summary =
  ds_active :: bool
  ds_last :: "string option"
  ds_error :: "string option"
  ds_failed :: "string option"

definition status_of :: "subscription \<Rightarrow> int \<Rightarrow> status_summary" where
  "status_of s now = \<lparr>ds_active = active_at now s, ds_last = map_option iso_time (es_last_delivery s),
     ds_error = callback_error (es_error s), ds_failed = map_option iso_time (es_failed_since s)\<rparr>"

section \<open>Sealed webhook secrets\<close>

definition subscription_context :: "string \<Rightarrow> string \<Rightarrow> int \<Rightarrow> secret_context" where
  "subscription_context prin i gen = \<lparr>sx_principal = prin, sx_environment = ''mcp-event-subscription'', sx_name = i, sx_version = gen\<rparr>"

definition seal_secret :: "event_env \<Rightarrow> secret_keyring \<Rightarrow> string \<Rightarrow> string \<Rightarrow> string \<Rightarrow> int \<Rightarrow> string \<Rightarrow> sealed_secret" where
  "seal_secret env kr nonce prin i gen secret =
     \<lparr>se_generation = gen, se_envelope = encrypt (ee_aead env) kr nonce secret (subscription_context prin i gen)\<rparr>"

definition unseal_secret :: "event_env \<Rightarrow> secret_keyring \<Rightarrow> string \<Rightarrow> string \<Rightarrow> sealed_secret option \<Rightarrow> string option" where
  "unseal_secret env kr prin i column =
     (case column of None \<Rightarrow> None
      | Some sealed \<Rightarrow> decrypted (ee_aead env) kr (se_envelope sealed) (subscription_context prin i (se_generation sealed)))"

definition reseal_secret :: "event_env \<Rightarrow> secret_keyring \<Rightarrow> string \<Rightarrow> string \<Rightarrow> string \<Rightarrow> sealed_secret option
    \<Rightarrow> (keyring_error, sealed_secret option) result" where
  "reseal_secret env kr nonce prin i column =
     (case column of None \<Rightarrow> Inr None
      | Some sealed \<Rightarrow>
          if en_version (se_envelope sealed) = kr_active kr then Inr column
          else ebind (reencrypt (ee_aead env) kr nonce (se_envelope sealed) (subscription_context prin i (se_generation sealed)))
                 (\<lambda>next. Inr (Some \<lparr>se_generation = se_generation sealed, se_envelope = next\<rparr>)))"

section \<open>Subscribing\<close>

record subscribe_input = subscription_key +
  si_secret :: string
  si_ttl :: "int option option"
  si_key :: "string option"
  si_verified :: bool

record subscribe_answer =
  an_id :: string
  an_refresh :: string
  an_status :: "status_summary option"

definition unavailable :: events_failure where
  "unavailable = EventsError ''UNAVAILABLE'' ''event delivery requires the secret keyring''"

definition prepare :: "event_env \<Rightarrow> string \<Rightarrow> subscription_key \<Rightarrow> int \<Rightarrow> event_service \<Rightarrow> (events_failure, string \<times> bool) result" where
  "prepare env prin inp now sv =
     (if ee_keyring env = None then Inl unavailable
      else ebind (admit_subscription env prin inp now (sv_db sv)) (\<lambda>(i, _).
             Inr (i, is_verified prin (sk_url inp) now (sv_db sv))))"

definition ttl_of :: "int option option \<Rightarrow> int" where
  "ttl_of t = (case t of None \<Rightarrow> li_default_ttl mcp_events_limits
     | Some None \<Rightarrow> li_max_ttl mcp_events_limits
     | Some (Some n) \<Rightarrow> min (li_max_ttl mcp_events_limits) (max (li_min_ttl mcp_events_limits) n))"

definition via_key :: "subscribe_input \<Rightarrow> jobject" where
  "via_key inp = [(''name'', JStr (event_name_text (sk_name inp))), (''viaApiKey'', JBool (si_key inp \<noteq> None))]"

definition new_subscription :: "string \<Rightarrow> string \<Rightarrow> subscribe_input \<Rightarrow> json \<Rightarrow> sealed_secret \<Rightarrow> int \<Rightarrow> int \<Rightarrow> subscription" where
  "new_subscription i prin inp args sealed expires now = \<lparr>es_id = i, es_owner = prin, es_name = sk_name inp,
     es_args = Some args, es_url = sk_url inp, es_key = si_key inp, es_state = Subscribed, es_generation = 1,
     es_secret = Some sealed, es_previous = None, es_previous_until = None, es_expires = expires, es_last_delivery = None,
     es_error = None, es_failed_since = None, es_revoked = None, es_created = now, es_updated = now\<rparr>"

definition update_subs :: "(subscription \<Rightarrow> bool) \<Rightarrow> (subscription \<Rightarrow> subscription) \<Rightarrow> event_db \<Rightarrow> event_db" where
  "update_subs p f db = db\<lparr>tb_subs := map (\<lambda>s. if p s then f s else s) (tb_subs db)\<rparr>"

definition update_deliveries :: "(delivery \<Rightarrow> bool) \<Rightarrow> (delivery \<Rightarrow> delivery) \<Rightarrow> event_db \<Rightarrow> event_db" where
  "update_deliveries p f db = db\<lparr>tb_deliveries := map (\<lambda>d. if p d then f d else d) (tb_deliveries db)\<rparr>"

text \<open>The values a refresh of an existing row writes, and whether it reactivated or rotated the subscription.\<close>

record refreshed_secret =
  rs_reactivated :: bool
  rs_rotated :: bool
  rs_generation :: int
  rs_secret :: "sealed_secret option"
  rs_previous :: "sealed_secret option option"
  rs_until :: "int option"

definition refresh_secret :: "event_env \<Rightarrow> secret_keyring \<Rightarrow> string \<Rightarrow> string \<Rightarrow> string \<Rightarrow> subscribe_input \<Rightarrow> subscription \<Rightarrow> int
    \<Rightarrow> refreshed_secret" where
  "refresh_secret env kr nonce prin i inp old now =
     (let reactivated = (es_state old \<noteq> Subscribed \<or> es_expires old \<le> now);
          current = unseal_secret env kr prin i (es_secret old);
          rotated = (current \<noteq> Some (si_secret inp));
          generation = es_generation old + 1;
          previous = (if current = None \<or> reactivated then None else Some (es_secret old)) in
      if rotated
      then \<lparr>rs_reactivated = reactivated, rs_rotated = True, rs_generation = generation,
             rs_secret = Some (seal_secret env kr nonce prin i generation (si_secret inp)), rs_previous = previous,
             rs_until = (if previous = None then None else Some (now + li_grace mcp_events_limits))\<rparr>
      else \<lparr>rs_reactivated = reactivated, rs_rotated = False, rs_generation = es_generation old, rs_secret = es_secret old,
             rs_previous = es_previous old, rs_until = es_previous_until old\<rparr>)"

definition refreshed_row :: "subscribe_input \<Rightarrow> refreshed_secret \<Rightarrow> int \<Rightarrow> int \<Rightarrow> subscription \<Rightarrow> subscription" where
  "refreshed_row inp rs expires now s =
     (let s' = s\<lparr>es_state := Subscribed, es_revoked := None, es_key := si_key inp, es_generation := rs_generation rs,
                es_secret := rs_secret rs, es_previous := rs_previous rs, es_previous_until := rs_until rs,
                es_expires := expires, es_updated := now\<rparr>
      in if rs_reactivated rs then s'\<lparr>es_error := None, es_failed_since := None\<rparr> else s')"

definition subscribe :: "event_env \<Rightarrow> string \<Rightarrow> string \<Rightarrow> subscribe_input \<Rightarrow> int \<Rightarrow> event_service
    \<Rightarrow> (events_failure, subscribe_answer \<times> event_service) result" where
  "subscribe env nonce prin inp now sv =
     (case ee_keyring env of None \<Rightarrow> Inl unavailable | Some kr \<Rightarrow>
      ebind (admit_subscription env prin inp now (sv_db sv)) (\<lambda>(i, args).
      ebind (echeck (si_verified inp \<or> is_verified prin (sk_url inp) now (sv_db sv))
               (EventsError ''INVALID_INPUT'' ''callback endpoint has not been verified'')) (\<lambda>_.
      let db = (if si_verified inp then (sv_db sv)\<lparr>tb_verified := jset (prin, sk_url inp) now (tb_verified (sv_db sv))\<rparr> else sv_db sv);
          expires = now + ttl_of (si_ttl inp)
      in (case subscription_row prin i db of
            None \<Rightarrow>
              if list_ex (\<lambda>s. es_id s = i \<or> (es_owner s = prin \<and> es_url s = sk_url inp \<and> es_name s = sk_name inp
                               \<and> es_args s = Some args)) (tb_subs db)
              then Inl ConstraintViolated
              else Inr (\<lparr>an_id = i, an_refresh = iso_time expires, an_status = None\<rparr>,
                     audit prin ''mcp_event.subscribed'' i 1 (via_key inp) (set_db
                       (db\<lparr>tb_subs := tb_subs db @ [new_subscription i prin inp args
                              (seal_secret env kr nonce prin i 1 (si_secret inp)) expires now]\<rparr>) sv))
          | Some old \<Rightarrow>
              let rs = refresh_secret env kr nonce prin i inp old now;
                  sv' = set_db (update_subs (\<lambda>s. es_owner s = prin \<and> es_id s = i) (refreshed_row inp rs expires now) db) sv
              in Inr (\<lparr>an_id = i, an_refresh = iso_time expires,
                       an_status = Some (status_of (refreshed_row inp rs expires now old) now)\<rparr>,
                     if rs_reactivated rs \<or> rs_rotated rs
                     then audit prin (if rs_reactivated rs then ''mcp_event.subscribed'' else ''mcp_event.secret_rotated'')
                            i (rs_generation rs) (via_key inp) sv'
                     else sv')))))"

text \<open>Deleting a subscription deletes its deliveries: \<open>ON DELETE CASCADE\<close>.\<close>

definition delete_subs :: "(subscription \<Rightarrow> bool) \<Rightarrow> event_db \<Rightarrow> event_db" where
  "delete_subs p db =
     db\<lparr>tb_subs := filter (\<lambda>s. \<not> p s) (tb_subs db),
        tb_deliveries := filter (\<lambda>d. \<not> list_ex (\<lambda>s. p s \<and> es_id s = dl_sub d) (tb_subs db)) (tb_deliveries db)\<rparr>"

definition delete_events :: "(outbox_event \<Rightarrow> bool) \<Rightarrow> event_db \<Rightarrow> event_db" where
  "delete_events p db =
     db\<lparr>tb_events := filter (\<lambda>e. \<not> p e) (tb_events db),
        tb_deliveries := filter (\<lambda>d. \<not> list_ex (\<lambda>e. p e \<and> ev_id e = dl_event d) (tb_events db)) (tb_deliveries db)\<rparr>"

definition named_audit :: "event_name \<Rightarrow> jobject" where
  "named_audit nm = [(''name'', JStr (event_name_text nm))]"

definition unsubscribe :: "event_env \<Rightarrow> string \<Rightarrow> subscription_key \<Rightarrow> event_service
    \<Rightarrow> (events_failure, bool \<times> event_service) result" where
  "unsubscribe env prin inp sv =
     ebind (validated_arguments (sk_name inp) (sk_args inp)) (\<lambda>args.
       let i = subscription_id_for env prin (sk_url inp) (sk_name inp) args in
       (case subscription_row prin i (sv_db sv) of
          None \<Rightarrow> Inr (False, sv)
        | Some old \<Rightarrow> Inr (True, audit prin ''mcp_event.unsubscribed'' i (es_generation old) (named_audit (es_name old))
                        (set_db (delete_subs (\<lambda>s. es_owner s = prin \<and> es_id s = i) (sv_db sv)) sv))))"

definition abandoned :: "int \<Rightarrow> string \<Rightarrow> delivery \<Rightarrow> delivery" where
  "abandoned now reason d = d\<lparr>dl_status := Abandoned, dl_completed := Some now, dl_lease_token := None,
     dl_lease_until := None, dl_error := Some reason\<rparr>"

definition abandon :: "string \<Rightarrow> int \<Rightarrow> string \<Rightarrow> event_db \<Rightarrow> event_db" where
  "abandon i now reason db = update_deliveries (\<lambda>d. dl_id d = i) (abandoned now reason) db"

definition revoke_in_transaction :: "string \<Rightarrow> int \<Rightarrow> string \<Rightarrow> event_db \<Rightarrow> event_db" where
  "revoke_in_transaction i now reason db =
     update_deliveries (\<lambda>d. dl_sub d = i \<and> dl_status d = Pending) (abandoned now reason)
       (update_subs (\<lambda>s. es_id s = i) (\<lambda>s. s\<lparr>es_state := SubscriptionRevoked, es_revoked := Some now, es_updated := now,
          es_previous := None, es_previous_until := None\<rparr>) db)"

definition revoke_subscription :: "string \<Rightarrow> string \<Rightarrow> int \<Rightarrow> event_service \<Rightarrow> bool \<times> event_service" where
  "revoke_subscription prin i now sv =
     (case subscription_row prin i (sv_db sv) of
        None \<Rightarrow> (False, sv)
      | Some old \<Rightarrow>
          if es_state old = SubscriptionRevoked then (False, sv)
          else (True, audit prin ''mcp_event.revoked'' i (es_generation old) (named_audit (es_name old))
                  (set_db (revoke_in_transaction (es_id old) now ''revoked'' (sv_db sv)) sv)))"

end
