(* ===== verification/EventDeliveries.thy ===== *)
theory EventDeliveries
  imports EventService
begin

text \<open>
  The leased delivery queue of MCP Events: claim, report, purge, listing and re-encryption of
  \<open>apps/runner/src/mcp-event-service.ts\<close>, its request dispatch, and one pass of the API's delivery worker
  \<open>apps/api/src/events/event-delivery-worker.ts\<close>. Lease tokens are the argument \<open>token\<close>, drawn per delivery.
\<close>

section \<open>Claiming\<close>

record claimed_delivery =
  cl_delivery :: string
  cl_token :: string
  cl_sub :: string
  cl_event :: string
  cl_url :: string
  cl_secrets :: "string list"
  cl_body :: json

type_synonym due_row = "delivery \<times> outbox_event \<times> subscription"

definition due_at :: "int \<Rightarrow> delivery \<Rightarrow> bool" where
  "due_at now d = (dl_status d = Pending \<and> dl_next d \<le> now
     \<and> (case dl_lease_until d of None \<Rightarrow> True | Some t \<Rightarrow> t \<le> now))"

definition joined :: "event_db \<Rightarrow> delivery \<Rightarrow> due_row list" where
  "joined db d =
     (case (find (\<lambda>e. ev_id e = dl_event d) (tb_events db), find (\<lambda>s. es_id s = dl_sub d) (tb_subs db)) of
        (Some e, Some s) \<Rightarrow> [(d, e, s)] | _ \<Rightarrow> [])"

definition due_before :: "due_row \<Rightarrow> due_row \<Rightarrow> bool" where
  "due_before a b = (dl_next (fst a) < dl_next (fst b)
     \<or> dl_next (fst a) = dl_next (fst b) \<and> str_less (dl_id (fst a)) (dl_id (fst b)))"

definition due_rows :: "int \<Rightarrow> nat \<Rightarrow> event_db \<Rightarrow> due_row list" where
  "due_rows now limit db = take limit (order_by due_before (concat (map (joined db) (filter (due_at now) (tb_deliveries db)))))"

definition api_key_active :: "string \<Rightarrow> string \<Rightarrow> int \<Rightarrow> event_service \<Rightarrow> bool \<times> event_service" where
  "api_key_active prin key now sv =
     (let seen = (sv_keys_seen sv \<or> ht_api_keys (tb_host (sv_db sv)) \<noteq> None); sv' = sv\<lparr>sv_keys_seen := seen\<rparr> in
      case ht_api_keys (tb_host (sv_db sv)) of
        None \<Rightarrow> (False, sv')
      | Some keys \<Rightarrow> (list_ex (\<lambda>k. ak_principal k = prin \<and> ak_id k = key \<and> ak_active k \<and> now < ak_expires k) keys, sv'))"

definition key_usable :: "subscription \<Rightarrow> int \<Rightarrow> event_service \<Rightarrow> bool \<times> event_service" where
  "key_usable s now sv = (case es_key s of None \<Rightarrow> (True, sv) | Some key \<Rightarrow> api_key_active (es_owner s) key now sv)"

definition purge_events :: "int \<Rightarrow> event_service \<Rightarrow> event_service" where
  "purge_events now sv =
     (if now - sv_last_purge sv < purge_interval then sv
      else let horizon = now - event_retention;
               db1 = (sv_db sv)\<lparr>tb_deliveries := filter (\<lambda>d. \<not> (dl_status d \<noteq> Pending
                        \<and> (case dl_completed d of Some t \<Rightarrow> t < horizon | None \<Rightarrow> False))) (tb_deliveries (sv_db sv))\<rparr>;
               db2 = delete_events (\<lambda>e. ev_created e < horizon
                        \<and> \<not> list_ex (\<lambda>d. dl_event d = ev_id e \<and> dl_status d = Pending) (tb_deliveries db1)) db1;
               db3 = delete_subs (\<lambda>s. (es_state s = SubscriptionRevoked \<and> (case es_revoked s of Some t \<Rightarrow> t < horizon | None \<Rightarrow> False))
                        \<or> (es_state s = Subscribed \<and> es_expires s < horizon)) db2
           in sv\<lparr>sv_last_purge := now, sv_db := db3\<lparr>tb_verified :=
                filter (\<lambda>p. \<not> snd p < now - li_verification mcp_events_limits) (tb_verified db3)\<rparr>\<rparr>)"

definition usable_secrets :: "event_env \<Rightarrow> secret_keyring \<Rightarrow> subscription \<Rightarrow> int \<Rightarrow> string list" where
  "usable_secrets env kr s now =
     List.map_filter id (unseal_secret env kr (es_owner s) (es_id s) (es_secret s)
       # (case (es_previous s, es_previous_until s) of
            (Some previous, Some until) \<Rightarrow> if now < until then [unseal_secret env kr (es_owner s) (es_id s) previous] else []
          | _ \<Rightarrow> []))"

definition event_body :: "outbox_event \<Rightarrow> json" where
  "event_body e = JObj [(''eventId'', JStr (ev_id e)), (''name'', JStr (event_name_text (ev_name e))),
     (''timestamp'', JStr (iso_time (ev_occurred e))), (''data'', JObj (ev_payload e)), (''cursor'', JNull)]"

definition leased :: "string \<Rightarrow> int \<Rightarrow> int \<Rightarrow> delivery \<Rightarrow> delivery" where
  "leased tok until now d = d\<lparr>dl_lease_token := Some tok, dl_lease_until := Some until, dl_attempts := dl_attempts d + 1,
     dl_first := Some (or_now (dl_first d) now)\<rparr>"

record claim_state =
  cs_service :: event_service
  cs_claimed :: "claimed_delivery list"
  cs_revoked :: "string list"

definition claim_abandon :: "string \<Rightarrow> int \<Rightarrow> string \<Rightarrow> claim_state \<Rightarrow> claim_state" where
  "claim_abandon i now reason st =
     st\<lparr>cs_service := set_db (abandon i now reason (sv_db (cs_service st))) (cs_service st)\<rparr>"

definition lease_row :: "event_env \<Rightarrow> secret_keyring \<Rightarrow> (string \<Rightarrow> string) \<Rightarrow> int \<Rightarrow> int \<Rightarrow> due_row \<Rightarrow> claim_state \<Rightarrow> claim_state" where
  "lease_row env kr token lease_ms now row st =
     (case row of (d, e, s) \<Rightarrow>
        if usable_secrets env kr s now = [] then claim_abandon (dl_id d) now ''secret_unavailable'' st
        else if li_body mcp_events_limits < ee_bytes env (event_body e) then claim_abandon (dl_id d) now ''payload_too_large'' st
        else let db = sv_db (cs_service st) in
          if \<not> list_ex (\<lambda>x. dl_id x = dl_id d \<and> dl_status x = Pending) (tb_deliveries db) then st
          else st\<lparr>cs_service := set_db (update_deliveries (\<lambda>x. dl_id x = dl_id d \<and> dl_status x = Pending)
                       (leased (token (dl_id d)) (now + lease_ms) now) db) (cs_service st),
                 cs_claimed := cs_claimed st @ [\<lparr>cl_delivery = dl_id d, cl_token = token (dl_id d), cl_sub = es_id s,
                       cl_event = dl_event d, cl_url = es_url s, cl_secrets = usable_secrets env kr s now,
                       cl_body = event_body e\<rparr>]\<rparr>)"

definition claim_row :: "event_env \<Rightarrow> secret_keyring \<Rightarrow> (string \<Rightarrow> string) \<Rightarrow> int \<Rightarrow> int \<Rightarrow> due_row \<Rightarrow> claim_state \<Rightarrow> claim_state" where
  "claim_row env kr token lease_ms now row st =
     (case row of (d, e, s) \<Rightarrow>
        if es_id s \<in> set (cs_revoked st) then st
        else if \<not> active_at now s then claim_abandon (dl_id d) now ''subscription_inactive'' st
        else let (ok, sv) = key_usable s now (cs_service st); st' = st\<lparr>cs_service := sv\<rparr> in
          if \<not> ok
          then st'\<lparr>cs_revoked := es_id s # cs_revoked st,
                   cs_service := audit (es_owner s) ''mcp_event.revoked'' (es_id s) (es_generation s)
                     [(''name'', JStr (event_name_text (es_name s))), (''reason'', JStr ''credential_revoked'')]
                     (set_db (revoke_in_transaction (es_id s) now ''credential_revoked'' (sv_db sv)) sv)\<rparr>
          else if 0 < dl_attempts d \<and> retry_window \<le> now - dl_created d
          then claim_abandon (dl_id d) now ''retry_window_elapsed'' st'
          else lease_row env kr token lease_ms now row st')"

definition claim_deliveries :: "event_env \<Rightarrow> (string \<Rightarrow> string) \<Rightarrow> nat \<Rightarrow> int \<Rightarrow> int \<Rightarrow> event_service
    \<Rightarrow> claimed_delivery list \<times> event_service" where
  "claim_deliveries env token limit lease_ms now sv =
     (case ee_keyring env of
        None \<Rightarrow> ([], sv)
      | Some kr \<Rightarrow>
          let sv' = purge_events now sv;
              st = fold (claim_row env kr token lease_ms now) (due_rows now limit (sv_db sv'))
                     \<lparr>cs_service = sv', cs_claimed = [], cs_revoked = []\<rparr>
          in (cs_claimed st, cs_service st))"

section \<open>Reporting\<close>

datatype attempt_outcome = AttemptDelivered | AttemptFailed | AttemptRejected

record delivery_report =
  rp_delivery :: string
  rp_token :: string
  rp_outcome :: attempt_outcome
  rp_error :: "string option"

definition retry_delay :: "int \<Rightarrow> int" where
  "retry_delay attempts =
     (let k = min attempts (int (length retry_delays)) - 1 in if k < 0 then hd retry_delays else retry_delays ! nat k)"

definition completed :: "int \<Rightarrow> delivery \<Rightarrow> delivery" where
  "completed now d = d\<lparr>dl_status := Delivered, dl_completed := Some now, dl_lease_token := None, dl_lease_until := None,
     dl_error := None\<rparr>"

definition rescheduled :: "int \<Rightarrow> string \<Rightarrow> delivery \<Rightarrow> delivery" where
  "rescheduled due err d = d\<lparr>dl_next := due, dl_lease_token := None, dl_lease_until := None, dl_error := Some err\<rparr>"

definition report_error :: "delivery_report \<Rightarrow> string" where
  "report_error r = (case rp_error r of Some e \<Rightarrow> e
     | None \<Rightarrow> if rp_outcome r = AttemptRejected then ''http_4xx'' else ''http_5xx'')"

definition final_attempt :: "delivery_report \<Rightarrow> int \<Rightarrow> delivery \<Rightarrow> bool" where
  "final_attempt r now d = (rp_outcome r = AttemptRejected \<or> max_attempts \<le> dl_attempts d \<or> retry_window \<le> now - dl_created d)"

definition reported_delivery :: "delivery_report \<Rightarrow> int \<Rightarrow> delivery \<Rightarrow> delivery" where
  "reported_delivery r now d =
     (if rp_outcome r = AttemptDelivered then completed now d
      else if final_attempt r now d then abandoned now (report_error r) d
      else rescheduled (now + retry_delay (dl_attempts d)) (report_error r) d)"

definition reported_subscription :: "delivery_report \<Rightarrow> int \<Rightarrow> subscription \<Rightarrow> subscription" where
  "reported_subscription r now s =
     (if rp_outcome r = AttemptDelivered then s\<lparr>es_last_delivery := Some now, es_error := None, es_failed_since := None\<rparr>
      else s\<lparr>es_error := Some (report_error r), es_failed_since := Some (or_now (es_failed_since s) now)\<rparr>)"

text \<open>The row a report is about: pending, under the reported lease.\<close>

definition reported_row :: "delivery_report \<Rightarrow> event_db \<Rightarrow> delivery option" where
  "reported_row r db =
     (case find (\<lambda>d. dl_id d = rp_delivery r \<and> dl_status d = Pending) (tb_deliveries db) of
        None \<Rightarrow> None | Some d \<Rightarrow> if dl_lease_token d = Some (rp_token r) then Some d else None)"

definition report_one :: "int \<Rightarrow> delivery_report \<Rightarrow> nat \<times> event_db \<Rightarrow> nat \<times> event_db" where
  "report_one now r acc =
     (case reported_row r (snd acc) of
        None \<Rightarrow> acc
      | Some d \<Rightarrow> (fst acc + 1,
          update_subs (\<lambda>s. es_id s = dl_sub d) (reported_subscription r now)
            (update_deliveries (\<lambda>x. dl_id x = dl_id d) (reported_delivery r now) (snd acc))))"

definition report_deliveries :: "delivery_report list \<Rightarrow> int \<Rightarrow> event_service \<Rightarrow> nat \<times> event_service" where
  "report_deliveries results now sv =
     (let (n, db) = fold (report_one now) results (0, sv_db sv) in (n, set_db db sv))"

section \<open>Listing and re-encryption\<close>

record delivery_summary =
  ds_event :: string
  ds_status :: delivery_status
  ds_attempts :: int
  ds_last_error :: "string option"
  ds_created :: string
  ds_completed :: "string option"

datatype shown_state = ShownActive | ShownExpired | ShownRevoked

record subscription_summary =
  ss_id :: string
  ss_name :: event_name
  ss_args :: "json option"
  ss_origin :: string
  ss_via_key :: bool
  ss_state :: shown_state
  ss_created :: string
  ss_refresh :: string
  ss_status :: status_summary
  ss_recent :: "delivery_summary list"

definition newest_before :: "delivery \<Rightarrow> delivery \<Rightarrow> bool" where
  "newest_before a b = (dl_created b < dl_created a \<or> dl_created a = dl_created b \<and> str_less (dl_id a) (dl_id b))"

definition summarize_delivery :: "delivery \<Rightarrow> delivery_summary" where
  "summarize_delivery d = \<lparr>ds_event = dl_event d, ds_status = dl_status d, ds_attempts = dl_attempts d, ds_last_error = dl_error d,
     ds_created = iso_time (dl_created d), ds_completed = map_option iso_time (dl_completed d)\<rparr>"

definition safe_origin :: "event_env \<Rightarrow> string \<Rightarrow> string" where
  "safe_origin env url = (case ee_origin env url of Some orig \<Rightarrow> orig | None \<Rightarrow> ''invalid'')"

definition summarize_subscription :: "event_env \<Rightarrow> int \<Rightarrow> event_db \<Rightarrow> subscription \<Rightarrow> subscription_summary" where
  "summarize_subscription env now db s =
     \<lparr>ss_id = es_id s, ss_name = es_name s, ss_args = es_args s, ss_origin = safe_origin env (es_url s),
      ss_via_key = (es_key s \<noteq> None),
      ss_state = (if es_state s = SubscriptionRevoked then ShownRevoked else if es_expires s \<le> now then ShownExpired else ShownActive),
      ss_created = iso_time (es_created s), ss_refresh = iso_time (es_expires s), ss_status = status_of s now,
      ss_recent = map summarize_delivery (take 5 (order_by newest_before (filter (\<lambda>d. dl_sub d = es_id s) (tb_deliveries db))))\<rparr>"

definition list_subscriptions :: "event_env \<Rightarrow> string \<Rightarrow> int \<Rightarrow> event_service \<Rightarrow> subscription_summary list \<times> bool" where
  "list_subscriptions env prin now sv =
     (let rows = take 201 (order_by (\<lambda>a b. es_created b < es_created a \<or> es_created a = es_created b \<and> str_less (es_id a) (es_id b))
            (filter (\<lambda>s. es_owner s = prin) (tb_subs (sv_db sv))))
      in (map (summarize_subscription env now (sv_db sv)) (take 200 rows), 200 < length rows))"

text \<open>
  Re-encryption walks the rows read at its start, the ones it reaches before an abort; each update is its own
  statement, so the rows already rewritten stay when a later one fails. \<open>nonce\<close> draws for the current and the
  previous secret of a subscription.
\<close>

definition reencrypt_row :: "subscription \<Rightarrow> sealed_secret option \<Rightarrow> sealed_secret option option \<Rightarrow> nat \<times> event_db \<Rightarrow> nat \<times> event_db" where
  "reencrypt_row row current previous acc =
     (let hit = (\<lambda>s. es_id s = es_id row \<and> es_secret s = es_secret row \<and> es_previous s = es_previous row) in
      (fst acc + length (filter hit (tb_subs (snd acc))),
       update_subs hit (\<lambda>s. s\<lparr>es_secret := current, es_previous := previous\<rparr>) (snd acc)))"

fun reencrypt_rows :: "event_env \<Rightarrow> secret_keyring \<Rightarrow> (string \<Rightarrow> string \<times> string) \<Rightarrow> subscription list \<Rightarrow> nat \<times> event_db
    \<Rightarrow> (keyring_error, nat) result \<times> event_db" where
  "reencrypt_rows env kr nonce [] acc = (Inr (fst acc), snd acc)"
| "reencrypt_rows env kr nonce (row # rows) acc =
     (case reseal_secret env kr (fst (nonce (es_id row))) (es_owner row) (es_id row) (es_secret row) of
        Inl err \<Rightarrow> (Inl err, snd acc)
      | Inr current \<Rightarrow>
          (case (case es_previous row of None \<Rightarrow> Inr None
                 | Some p \<Rightarrow> ebind (reseal_secret env kr (snd (nonce (es_id row))) (es_owner row) (es_id row) p) (\<lambda>q. Inr (Some q))) of
             Inl err \<Rightarrow> (Inl err, snd acc)
           | Inr previous \<Rightarrow>
               if current = es_secret row \<and> previous = es_previous row then reencrypt_rows env kr nonce rows acc
               else reencrypt_rows env kr nonce rows (reencrypt_row row current previous acc)))"

definition reencrypt_subscriptions :: "event_env \<Rightarrow> secret_keyring \<Rightarrow> (string \<Rightarrow> string \<times> string) \<Rightarrow> nat \<Rightarrow> event_service
    \<Rightarrow> (keyring_error, nat) result \<times> event_service" where
  "reencrypt_subscriptions env kr nonce reached sv =
     (let (r, db) = reencrypt_rows env kr nonce (take reached (tb_subs (sv_db sv))) (0, sv_db sv) in (r, set_db db sv))"

end
