(* ===== verification/EventDispatch.thy ===== *)
theory EventDispatch
  imports EventDeliveries
begin

text \<open>
  The service channel of MCP Events: request schemas and dispatch (\<open>execute\<close> of
  \<open>apps/runner/src/mcp-event-service.ts\<close> over \<open>packages/contracts/src/events-api.ts\<close>), one pass of the delivery
  worker \<open>apps/api/src/events/event-delivery-worker.ts\<close>, and the runs of the whole component: emissions,
  requests and purges in any order, with the other components' tables changing in between.
\<close>

section \<open>Requests\<close>

text \<open>The length \<open>Buffer.from(text, 'base64')\<close> decodes to, for a padded text.\<close>

definition base64_char :: "char \<Rightarrow> bool" where
  "base64_char c = (is_alnum_char c \<or> c = CHR ''+'' \<or> c = CHR ''/'')"

definition base64_bytes :: "string \<Rightarrow> nat" where
  "base64_bytes s = length (takeWhile base64_char s) * 3 div 4"

definition padded_base64 :: "string \<Rightarrow> bool" where
  "padded_base64 s =
     (takeWhile base64_char s \<noteq> [] \<and> dropWhile base64_char s \<in> {'''', ''='', ''==''} \<and> length s mod 4 = 0)"

definition webhook_secret_ok :: "string \<Rightarrow> bool" where
  "webhook_secret_ok s =
     (length s \<le> 100 \<and> starts_with ''whsec_'' s
      \<and> (let encoded = drop 6 s in padded_base64 encoded \<and> 24 \<le> base64_bytes encoded \<and> base64_bytes encoded \<le> 64))"

definition hex_char :: "char \<Rightarrow> bool" where
  "hex_char c = (is_digit_char c \<or> 97 \<le> code c \<and> code c \<le> 102)"

definition fixed_id :: "string \<Rightarrow> (char \<Rightarrow> bool) \<Rightarrow> nat \<Rightarrow> string \<Rightarrow> bool" where
  "fixed_id prefix ok n s = (starts_with prefix s \<and> length s = length prefix + n \<and> list_all ok (drop (length prefix) s))"

definition subscription_id_ok :: "string \<Rightarrow> bool" where
  "subscription_id_ok s = fixed_id ''sub_'' hex_char 32 s"

definition delivery_id_ok :: "string \<Rightarrow> bool" where
  "delivery_id_ok s = fixed_id ''dlv_'' id_char 22 s"

definition delivery_token_ok :: "string \<Rightarrow> bool" where
  "delivery_token_ok s = fixed_id '''' id_char 22 s"

definition callback_url_ok :: "string \<Rightarrow> bool" where
  "callback_url_ok s = (1 \<le> length s \<and> length s \<le> 2048)"

datatype events_request =
    EventsPrepare string subscription_key
  | EventsSubscribe string subscribe_input
  | EventsUnsubscribe string subscription_key
  | EventsList string
  | EventsRevoke string string
  | EventsClaim int int
  | EventsReport "delivery_report list"

definition report_ok :: "delivery_report \<Rightarrow> bool" where
  "report_ok r = (delivery_id_ok (rp_delivery r) \<and> delivery_token_ok (rp_token r)
     \<and> (case rp_error r of None \<Rightarrow> True | Some e \<Rightarrow> e \<in> set callback_errors))"

fun request_ok :: "events_request \<Rightarrow> bool" where
  "request_ok (EventsPrepare _ inp) = callback_url_ok (sk_url inp)"
| "request_ok (EventsSubscribe _ inp) =
     (callback_url_ok (sk_url inp) \<and> webhook_secret_ok (si_secret inp)
      \<and> (case si_ttl inp of Some (Some n) \<Rightarrow> 0 \<le> n \<and> n \<le> max_safe | _ \<Rightarrow> True)
      \<and> (case si_key inp of None \<Rightarrow> True | Some k \<Rightarrow> fixed_id ''apk_'' id_char 24 k))"
| "request_ok (EventsUnsubscribe _ inp) = callback_url_ok (sk_url inp)"
| "request_ok (EventsList _) = True"
| "request_ok (EventsRevoke _ i) = subscription_id_ok i"
| "request_ok (EventsClaim limit lease_ms) = (1 \<le> limit \<and> limit \<le> 100 \<and> 1000 \<le> lease_ms \<and> lease_ms \<le> 300000)"
| "request_ok (EventsReport results) = (list_all report_ok results \<and> length results \<le> 100)"

datatype events_data =
    PreparedData string bool | SubscribedData subscribe_answer | UnsubscribedData bool
  | ListedData "subscription_summary list" bool | RevokedData bool
  | ClaimedData "claimed_delivery list" | ReportedData nat

datatype events_response = EventsOk events_data | EventsRefused string string | EventsThrows

definition answer_with :: "('a \<Rightarrow> events_data) \<Rightarrow> event_service \<Rightarrow> (events_failure, 'a \<times> event_service) result
    \<Rightarrow> events_response \<times> event_service" where
  "answer_with wrap sv r =
     (case r of Inr (a, sv') \<Rightarrow> (EventsOk (wrap a), sv')
      | Inl (EventsError c m) \<Rightarrow> (EventsRefused c (take 500 m), sv)
      | Inl ConstraintViolated \<Rightarrow> (EventsThrows, sv))"

fun dispatch :: "event_env \<Rightarrow> string \<Rightarrow> (string \<Rightarrow> string) \<Rightarrow> int \<Rightarrow> events_request \<Rightarrow> event_service
    \<Rightarrow> events_response \<times> event_service" where
  "dispatch env nonce token now (EventsPrepare prin inp) sv =
     answer_with (\<lambda>(i, v). PreparedData i v) sv (ebind (prepare env prin inp now sv) (\<lambda>a. Inr (a, sv)))"
| "dispatch env nonce token now (EventsSubscribe prin inp) sv =
     answer_with SubscribedData sv (subscribe env nonce prin inp now sv)"
| "dispatch env nonce token now (EventsUnsubscribe prin inp) sv = answer_with UnsubscribedData sv (unsubscribe env prin inp sv)"
| "dispatch env nonce token now (EventsList prin) sv = (case list_subscriptions env prin now sv of (ss, t) \<Rightarrow> (EventsOk (ListedData ss t), sv))"
| "dispatch env nonce token now (EventsRevoke prin i) sv = apfst (\<lambda>b. EventsOk (RevokedData b)) (revoke_subscription prin i now sv)"
| "dispatch env nonce token now (EventsClaim limit lease_ms) sv =
     apfst (\<lambda>cs. EventsOk (ClaimedData cs)) (claim_deliveries env token (nat limit) lease_ms now sv)"
| "dispatch env nonce token now (EventsReport results) sv = apfst (\<lambda>n. EventsOk (ReportedData n)) (report_deliveries results now sv)"

definition execute_events :: "event_env \<Rightarrow> string \<Rightarrow> (string \<Rightarrow> string) \<Rightarrow> int \<Rightarrow> events_request \<Rightarrow> event_service
    \<Rightarrow> events_response \<times> event_service" where
  "execute_events env nonce token now req sv =
     (if request_ok req then dispatch env nonce token now req sv
      else (EventsRefused ''INVALID_INPUT'' ''invalid events request'', sv))"

section \<open>The delivery worker\<close>

datatype webhook_outcome = Accepted int | NotAccepted string "int option"

definition classify_outcome :: "webhook_outcome \<Rightarrow> attempt_outcome \<times> string option" where
  "classify_outcome w =
     (case w of Accepted _ \<Rightarrow> (AttemptDelivered, None)
      | NotAccepted reason status \<Rightarrow>
          (if status = Some 410 \<or> status = Some 413 then AttemptRejected else AttemptFailed, Some reason))"

text \<open>\<open>sender\<close> is the webhook sender's answer, \<open>None\<close> when it throws: then there is no report and the lease lapses.\<close>

definition attempt_report :: "(claimed_delivery \<Rightarrow> webhook_outcome option) \<Rightarrow> claimed_delivery \<Rightarrow> delivery_report option" where
  "attempt_report sender c =
     map_option (\<lambda>w. \<lparr>rp_delivery = cl_delivery c, rp_token = cl_token c, rp_outcome = fst (classify_outcome w),
       rp_error = snd (classify_outcome w)\<rparr>) (sender c)"

definition worker_batch :: int where
  "worker_batch = 20"

definition worker_lease_ms :: int where
  "worker_lease_ms = 60000"

text \<open>
  One pass. Deliveries run concurrently, so \<open>finish\<close> picks which attempts end before a shutdown and in which
  order; the report is a second request at a later time.
\<close>

definition delivery_pass :: "event_env \<Rightarrow> (string \<Rightarrow> string) \<Rightarrow> (claimed_delivery \<Rightarrow> webhook_outcome option)
    \<Rightarrow> (claimed_delivery list \<Rightarrow> claimed_delivery list) \<Rightarrow> int \<Rightarrow> int \<Rightarrow> event_service \<Rightarrow> event_service" where
  "delivery_pass env token sender finish now later sv =
     (case execute_events env [] token now (EventsClaim worker_batch worker_lease_ms) sv of
        (EventsOk (ClaimedData cs), sv') \<Rightarrow>
          (let reports = List.map_filter (attempt_report sender) (finish cs) in
           if reports = [] then sv' else snd (execute_events env [] token later (EventsReport reports) sv'))
      | (_, sv') \<Rightarrow> sv')"

section \<open>Runs\<close>

datatype event_op =
    EmitTask "string \<Rightarrow> string" string
  | EmitAgent "string \<Rightarrow> string" string string string
  | Request string "string \<Rightarrow> string" events_request
  | Reencrypt secret_keyring "string \<Rightarrow> string \<times> string" nat
  | HostChange host_tables

definition event_step :: "event_env \<Rightarrow> (string \<Rightarrow> string) \<Rightarrow> int \<Rightarrow> event_op \<Rightarrow> event_service \<Rightarrow> event_service" where
  "event_step env sha now op sv =
     (case op of
        EmitTask draw task \<Rightarrow> set_db (emit_task_terminal sha draw task now (sv_db sv)) sv
      | EmitAgent draw owner workspace agent \<Rightarrow> set_db (emit_agent_terminal sha draw owner workspace agent now (sv_db sv)) sv
      | Request nonce token req \<Rightarrow> snd (execute_events env nonce token now req sv)
      | Reencrypt kr nonce reached \<Rightarrow> snd (reencrypt_subscriptions env kr nonce reached sv)
      | HostChange tables \<Rightarrow> set_db ((sv_db sv)\<lparr>tb_host := tables\<rparr>) sv)"

definition event_run :: "event_env \<Rightarrow> (string \<Rightarrow> string) \<Rightarrow> (int \<times> event_op) list \<Rightarrow> event_service \<Rightarrow> event_service" where
  "event_run env sha ops sv = fold (\<lambda>(now, op). event_step env sha now op) ops sv"

definition empty_host :: host_tables where
  "empty_host = \<lparr>ht_workspaces = [], ht_tasks = [], ht_agents = [], ht_api_keys = None\<rparr>"

definition new_events :: event_service where
  "new_events = \<lparr>sv_db = \<lparr>tb_host = empty_host, tb_subs = [], tb_verified = [], tb_events = [], tb_deliveries = []\<rparr>,
     sv_last_purge = 0, sv_keys_seen = False, sv_audit = []\<rparr>"

end
