(* ===== verification/EventFacts.thy ===== *)
theory EventFacts
  imports EventDispatch
begin

text \<open>
  Facts the properties of MCP Events share: the table constraints as an invariant, what each table primitive
  does to it, and the view of one delivery through every operation.
\<close>

named_theorems store_intros "introduction rules of the table invariant"

section \<open>Table constraints\<close>

definition delivery_ok :: "delivery \<Rightarrow> bool" where
  "delivery_ok d =
     (0 \<le> dl_attempts d
      \<and> (dl_completed d = None \<longleftrightarrow> dl_status d = Pending)
      \<and> (dl_lease_token d = None \<longleftrightarrow> dl_lease_until d = None)
      \<and> (dl_lease_token d \<noteq> None \<longrightarrow> dl_status d = Pending \<and> 0 < dl_attempts d)
      \<and> (dl_first d = None \<longleftrightarrow> dl_attempts d = 0))"

definition subscription_ok :: "subscription \<Rightarrow> bool" where
  "subscription_ok s =
     (0 < es_generation s
      \<and> (es_revoked s = None \<longleftrightarrow> es_state s = Subscribed)
      \<and> (es_previous s = None \<longleftrightarrow> es_previous_until s = None)
      \<and> (es_state s = SubscriptionRevoked \<longrightarrow> es_previous s = None))"

definition refers :: "event_db \<Rightarrow> delivery \<Rightarrow> bool" where
  "refers db d = (dl_event d \<in> ev_id ` set (tb_events db) \<and> dl_sub d \<in> es_id ` set (tb_subs db))"

definition store_ok :: "event_db \<Rightarrow> bool" where
  "store_ok db =
     (distinct (map es_id (tb_subs db)) \<and> distinct (map ev_id (tb_events db)) \<and> distinct (map ev_source (tb_events db))
      \<and> distinct (map dl_id (tb_deliveries db)) \<and> distinct (map (\<lambda>d. (dl_event d, dl_sub d)) (tb_deliveries db))
      \<and> list_all (refers db) (tb_deliveries db) \<and> list_all delivery_ok (tb_deliveries db)
      \<and> list_all subscription_ok (tb_subs db))"

lemma map_update: "(\<And>x. g (f x) = g x) \<Longrightarrow> map g (map (\<lambda>x. if p x then f x else x) xs) = map g xs"
  by (induction xs) auto

lemma update_deliveries_fields [simp]:
  "tb_subs (update_deliveries p f db) = tb_subs db"
  "tb_events (update_deliveries p f db) = tb_events db"
  "tb_host (update_deliveries p f db) = tb_host db"
  "tb_verified (update_deliveries p f db) = tb_verified db"
  "tb_deliveries (update_deliveries p f db) = map (\<lambda>d. if p d then f d else d) (tb_deliveries db)"
  by (simp_all add: update_deliveries_def)

lemma update_subs_fields [simp]:
  "tb_deliveries (update_subs p f db) = tb_deliveries db"
  "tb_events (update_subs p f db) = tb_events db"
  "tb_host (update_subs p f db) = tb_host db"
  "tb_verified (update_subs p f db) = tb_verified db"
  "tb_subs (update_subs p f db) = map (\<lambda>s. if p s then f s else s) (tb_subs db)"
  by (simp_all add: update_subs_def)

lemma store_ok_update_deliveries [store_intros]:
  assumes "store_ok db"
    and same: "\<And>d. dl_id (f d) = dl_id d" "\<And>d. dl_event (f d) = dl_event d" "\<And>d. dl_sub (f d) = dl_sub d"
    and "\<And>d. d \<in> set (tb_deliveries db) \<Longrightarrow> p d \<Longrightarrow> delivery_ok d \<Longrightarrow> delivery_ok (f d)"
  shows "store_ok (update_deliveries p f db)"
proof -
  let ?u = "map (\<lambda>d. if p d then f d else d) (tb_deliveries db)"
  have "map dl_id ?u = map dl_id (tb_deliveries db)" by (rule map_update) (simp add: same)
  moreover have "map (\<lambda>d. (dl_event d, dl_sub d)) ?u = map (\<lambda>d. (dl_event d, dl_sub d)) (tb_deliveries db)"
    by (rule map_update) (simp add: same)
  moreover have "list_all delivery_ok ?u"
    using assms(1,5) by (auto simp: store_ok_def list_all_iff)
  moreover have "list_all (refers (update_deliveries p f db)) ?u"
    using assms(1) by (auto simp: store_ok_def list_all_iff refers_def same)
  ultimately show ?thesis using assms(1) by (simp only: store_ok_def update_deliveries_fields)
qed

lemma store_ok_update_subs [store_intros]:
  assumes "store_ok db" and same: "\<And>s. es_id (f s) = es_id s"
    and "\<And>s. s \<in> set (tb_subs db) \<Longrightarrow> p s \<Longrightarrow> subscription_ok s \<Longrightarrow> subscription_ok (f s)"
  shows "store_ok (update_subs p f db)"
proof -
  let ?u = "map (\<lambda>s. if p s then f s else s) (tb_subs db)"
  have ids: "map es_id ?u = map es_id (tb_subs db)" by (rule map_update) (simp add: same)
  then have "es_id ` set ?u = es_id ` set (tb_subs db)" by (metis list.set_map)
  then have "list_all (refers (update_subs p f db)) (tb_deliveries db)"
    using assms(1) by (simp only: store_ok_def list_all_iff refers_def [abs_def] update_subs_fields) blast
  moreover have "list_all subscription_ok ?u"
    using assms(1,3) by (auto simp: store_ok_def list_all_iff)
  ultimately show ?thesis using assms(1) ids by (simp only: store_ok_def update_subs_fields)
qed

lemma distinct_filter_map: "distinct (map g xs) \<Longrightarrow> distinct (map g (filter p xs))"
  by (induction xs) auto

lemma store_ok_filter_deliveries [store_intros]:
  "store_ok db \<Longrightarrow> store_ok (db\<lparr>tb_deliveries := filter p (tb_deliveries db)\<rparr>)"
  by (auto simp: store_ok_def distinct_filter_map list_all_iff refers_def)

lemma image_rest: "x \<in> f ` A \<Longrightarrow> \<forall>a\<in>A. p a \<longrightarrow> f a \<noteq> x \<Longrightarrow> x \<in> f ` {a \<in> A. \<not> p a}"
  by auto

lemma store_ok_delete_subs [store_intros]: "store_ok db \<Longrightarrow> store_ok (delete_subs p db)"
  by (auto simp: store_ok_def delete_subs_def distinct_filter_map list_all_iff refers_def list_ex_iff intro!: image_rest)

lemma store_ok_delete_events [store_intros]: "store_ok db \<Longrightarrow> store_ok (delete_events p db)"
  by (auto simp: store_ok_def delete_events_def distinct_filter_map list_all_iff refers_def list_ex_iff intro!: image_rest)

lemma store_ok_verified [simp]: "store_ok (db\<lparr>tb_verified := v\<rparr>) = store_ok db"
  by (simp add: store_ok_def refers_def[abs_def])

lemma store_ok_host [simp]: "store_ok (db\<lparr>tb_host := v\<rparr>) = store_ok db"
  by (simp add: store_ok_def refers_def[abs_def])

lemma set_db_simps [simp]: "sv_db (set_db db sv) = db" "sv_last_purge (set_db db sv) = sv_last_purge sv"
  by (simp_all add: set_db_def)

lemma audit_db [simp]: "sv_db (audit prin act i gen details sv) = sv_db sv"
  by (simp add: audit_def)

lemma delivery_ok_intros:
  "delivery_ok (new_delivery i e s now)"
  "delivery_ok d \<Longrightarrow> delivery_ok (abandoned now reason d)"
  "delivery_ok d \<Longrightarrow> dl_status d = Pending \<Longrightarrow> delivery_ok (leased tok until now d)"
  "delivery_ok d \<Longrightarrow> delivery_ok (completed now d)"
  "delivery_ok d \<Longrightarrow> dl_status d = Pending \<Longrightarrow> delivery_ok (rescheduled due err d)"
  by (auto simp: delivery_ok_def new_delivery_def abandoned_def leased_def completed_def rescheduled_def)

lemma delivery_keys [simp]:
  "dl_id (abandoned now reason d) = dl_id d" "dl_event (abandoned now reason d) = dl_event d" "dl_sub (abandoned now reason d) = dl_sub d"
  "dl_id (leased tok until now d) = dl_id d" "dl_event (leased tok until now d) = dl_event d" "dl_sub (leased tok until now d) = dl_sub d"
  "dl_id (reported_delivery r now d) = dl_id d" "dl_event (reported_delivery r now d) = dl_event d"
  "dl_sub (reported_delivery r now d) = dl_sub d"
  "dl_id (new_delivery i e s now) = i" "dl_event (new_delivery i e s now) = e" "dl_sub (new_delivery i e s now) = s"
  by (simp_all add: abandoned_def leased_def reported_delivery_def completed_def rescheduled_def new_delivery_def)

lemma store_ok_abandon [store_intros]: "store_ok db \<Longrightarrow> store_ok (abandon i now reason db)"
  unfolding abandon_def by (rule store_ok_update_deliveries) (simp_all add: delivery_ok_intros)

lemma store_ok_revoke [store_intros]: "store_ok db \<Longrightarrow> store_ok (revoke_in_transaction i now reason db)"
  unfolding revoke_in_transaction_def
  by (intro store_intros) (auto simp: delivery_ok_intros subscription_ok_def)

section \<open>Emission keeps the constraints\<close>

definition store_frame :: "event_db \<Rightarrow> event_db \<Rightarrow> bool" where
  "store_frame db db' = (tb_subs db' = tb_subs db \<and> tb_events db' = tb_events db \<and> tb_host db' = tb_host db)"

lemma insert_delivery_fields [simp]:
  "tb_subs (insert_delivery d db) = tb_subs db" "tb_events (insert_delivery d db) = tb_events db"
  "tb_host (insert_delivery d db) = tb_host db" "tb_verified (insert_delivery d db) = tb_verified db"
  by (simp_all add: insert_delivery_def)

lemma store_ok_insert: "store_ok db \<Longrightarrow> refers db d \<Longrightarrow> delivery_ok d \<Longrightarrow> store_ok (insert_delivery d db)"
  by (auto simp: store_ok_def insert_delivery_def list_ex_iff list_all_iff refers_def)

lemma insert_all_fields [simp]:
  "tb_subs (fold (\<lambda>s. insert_delivery (g s)) ss db) = tb_subs db"
  "tb_events (fold (\<lambda>s. insert_delivery (g s)) ss db) = tb_events db"
  "tb_host (fold (\<lambda>s. insert_delivery (g s)) ss db) = tb_host db"
  by (induction ss arbitrary: db) simp_all

lemma store_ok_insert_all:
  "store_ok db \<Longrightarrow> (\<And>s. s \<in> set ss \<Longrightarrow> refers db (g s) \<and> delivery_ok (g s))
     \<Longrightarrow> store_ok (fold (\<lambda>s. insert_delivery (g s)) ss db)"
proof (induction ss arbitrary: db)
  case (Cons s ss)
  have "store_ok (insert_delivery (g s) db)"
    using Cons.prems by (intro store_ok_insert) simp_all
  moreover have "refers (insert_delivery (g s) db) (g t) \<and> delivery_ok (g t)" if "t \<in> set ss" for t
    using Cons.prems(2) [of t] that by (simp add: refers_def)
  ultimately show ?case using Cons.IH by simp
qed simp

lemma recipients_in: "s \<in> set (recipients owner nm payload now db) \<Longrightarrow> s \<in> set (tb_subs db)"
  by (simp add: recipients_def)

lemma store_ok_record_event [store_intros]:
  assumes "store_ok db"
  shows "store_ok (record_event sha draw owner source nm occurred payload now db)"
proof -
  let ?i = "event_id_for_source sha source"
  let ?db = "db\<lparr>tb_events := tb_events db @ [\<lparr>ev_id = ?i, ev_owner = owner, ev_source = source, ev_name = nm,
      ev_occurred = occurred, ev_payload = payload, ev_created = now\<rparr>]\<rparr>"
  have "store_ok ?db" if "\<not> event_present ?i source db"
    using assms that by (auto simp: store_ok_def event_present_def list_ex_iff list_all_iff refers_def)
  then show ?thesis
    using assms unfolding record_event_def Let_def
    by (auto simp: refers_def delivery_ok_intros dest: recipients_in intro!: store_ok_insert_all)
qed

lemma store_ok_emit [store_intros]:
  "store_ok db \<Longrightarrow> store_ok (emit_task_terminal sha draw task now db)"
  "store_ok db \<Longrightarrow> store_ok (emit_agent_terminal sha draw owner workspace agent now db)"
  by (auto simp: emit_task_terminal_def emit_agent_terminal_def store_intros split: option.split)

end
