(* ===== verification/EventClaims.thy ===== *)
theory EventClaims
  imports EventFacts
begin

text \<open>
  What one claim does, row by row: each due row of the batch is either handed out under a fresh lease or
  abandoned with its reason, and the decision depends on the row and the API keys alone.
\<close>

section \<open>One delivery through the table primitives\<close>

definition row_of :: "string \<Rightarrow> event_db \<Rightarrow> delivery option" where
  "row_of i db = find (\<lambda>d. dl_id d = i) (tb_deliveries db)"

lemma find_update: "(\<And>x. g (f x) = g x)
    \<Longrightarrow> find (\<lambda>d. g d = i) (map (\<lambda>d. if p d then f d else d) xs) = map_option (\<lambda>d. if p d then f d else d) (find (\<lambda>d. g d = i) xs)"
  by (induction xs) auto

lemma find_some: "find p xs = Some x \<Longrightarrow> x \<in> set xs \<and> p x"
  by (induction xs) (auto split: if_splits)

lemma find_filter: "distinct (map g xs)
    \<Longrightarrow> find (\<lambda>d. g d = i) (filter p xs) = (case find (\<lambda>d. g d = i) xs of Some d \<Rightarrow> if p d then Some d else None | None \<Rightarrow> None)"
  by (induction xs) (auto simp: find_None_iff split: option.splits dest!: find_some intro: rev_image_eqI)

lemma find_append: "find p (xs @ ys) = (case find p xs of Some x \<Rightarrow> Some x | None \<Rightarrow> find p ys)"
  by (induction xs) auto

lemma find_unique: "distinct (map g xs) \<Longrightarrow> x \<in> set xs \<Longrightarrow> g x = i \<Longrightarrow> find (\<lambda>d. g d = i) xs = Some x"
  by (induction xs) auto

lemma row_of_update [simp]:
  "(\<And>d. dl_id (f d) = dl_id d) \<Longrightarrow> row_of i (update_deliveries p f db) = map_option (\<lambda>d. if p d then f d else d) (row_of i db)"
  by (simp add: row_of_def find_update)

lemma row_of_subs [simp]: "row_of i (update_subs p f db) = row_of i db"
  by (simp add: row_of_def)

lemma row_of_insert: "row_of i (insert_delivery d db) = row_of i db
    \<or> row_of i db = None \<and> dl_id d = i \<and> row_of i (insert_delivery d db) = Some d"
proof (cases "list_ex (\<lambda>x. dl_id x = dl_id d \<or> dl_event x = dl_event d \<and> dl_sub x = dl_sub d) (tb_deliveries db)")
  case False
  then have "row_of (dl_id d) db = None"
    by (auto simp: row_of_def find_None_iff list_ex_iff)
  then show ?thesis
    using False by (cases "dl_id d = i") (auto simp: row_of_def insert_delivery_def find_append split: option.split)
qed (simp add: insert_delivery_def)

lemma row_of_in: "row_of i db = Some d \<Longrightarrow> d \<in> set (tb_deliveries db) \<and> dl_id d = i"
  unfolding row_of_def by (drule find_some) simp

lemma row_of_member: "store_ok db \<Longrightarrow> d \<in> set (tb_deliveries db) \<Longrightarrow> row_of (dl_id d) db = Some d"
  unfolding row_of_def by (rule find_unique) (simp_all add: store_ok_def)

lemma row_of_ok: "store_ok db \<Longrightarrow> row_of i db = Some d \<Longrightarrow> delivery_ok d"
  using row_of_in [of i db d] by (simp add: store_ok_def list_all_iff)

lemma row_of_abandon: "row_of j (abandon i now reason db) = map_option (\<lambda>d. if dl_id d = i then abandoned now reason d else d) (row_of j db)"
  by (simp add: abandon_def)

lemma row_of_revoke: "row_of j (revoke_in_transaction i now reason db)
    = map_option (\<lambda>d. if dl_sub d = i \<and> dl_status d = Pending then abandoned now reason d else d) (row_of j db)"
  by (simp add: revoke_in_transaction_def)

section \<open>The decision on one row\<close>

definition key_ok :: "subscription \<Rightarrow> int \<Rightarrow> host_tables \<Rightarrow> bool" where
  "key_ok s now host = (case es_key s of None \<Rightarrow> True | Some key \<Rightarrow>
     (case ht_api_keys host of None \<Rightarrow> False
      | Some keys \<Rightarrow> list_ex (\<lambda>k. ak_principal k = es_owner s \<and> ak_id k = key \<and> ak_active k \<and> now < ak_expires k) keys))"

definition claim_refusal :: "event_env \<Rightarrow> secret_keyring \<Rightarrow> host_tables \<Rightarrow> int \<Rightarrow> due_row \<Rightarrow> string option" where
  "claim_refusal env kr host now row =
     (case row of (d, e, s) \<Rightarrow>
        if \<not> active_at now s then Some ''subscription_inactive''
        else if \<not> key_ok s now host then Some ''credential_revoked''
        else if 0 < dl_attempts d \<and> retry_window \<le> now - dl_created d then Some ''retry_window_elapsed''
        else if usable_secrets env kr s now = [] then Some ''secret_unavailable''
        else if li_body mcp_events_limits < ee_bytes env (event_body e) then Some ''payload_too_large''
        else None)"

definition handed :: "event_env \<Rightarrow> secret_keyring \<Rightarrow> (string \<Rightarrow> string) \<Rightarrow> int \<Rightarrow> due_row \<Rightarrow> claimed_delivery" where
  "handed env kr token now row =
     (case row of (d, e, s) \<Rightarrow> \<lparr>cl_delivery = dl_id d, cl_token = token (dl_id d), cl_sub = es_id s, cl_event = dl_event d,
        cl_url = es_url s, cl_secrets = usable_secrets env kr s now, cl_body = event_body e\<rparr>)"

definition settled_row :: "event_env \<Rightarrow> secret_keyring \<Rightarrow> host_tables \<Rightarrow> (string \<Rightarrow> string) \<Rightarrow> int \<Rightarrow> int \<Rightarrow> due_row \<Rightarrow> delivery" where
  "settled_row env kr host token lease_ms now row =
     (case claim_refusal env kr host now row of
        None \<Rightarrow> leased (token (dl_id (fst row))) (now + lease_ms) now (fst row)
      | Some reason \<Rightarrow> abandoned now reason (fst row))"

lemma key_usable_fst [simp]: "fst (key_usable s now sv) = key_ok s now (tb_host (sv_db sv))"
  by (simp add: key_usable_def key_ok_def api_key_active_def Let_def split: option.split)

lemma key_usable_snd [simp]: "sv_db (snd (key_usable s now sv)) = sv_db sv"
  by (simp add: key_usable_def api_key_active_def Let_def split: option.split)

text \<open>The database a row leaves, in the cases of the loop body.\<close>

definition row_change :: "event_env \<Rightarrow> secret_keyring \<Rightarrow> (string \<Rightarrow> string) \<Rightarrow> int \<Rightarrow> int \<Rightarrow> due_row \<Rightarrow> string list \<Rightarrow> event_db \<Rightarrow> event_db" where
  "row_change env kr token lease_ms now row revoked db =
     (case row of (d, e, s) \<Rightarrow>
        if es_id s \<in> set revoked then db
        else (case claim_refusal env kr (tb_host db) now row of
            None \<Rightarrow> update_deliveries (\<lambda>x. dl_id x = dl_id d \<and> dl_status x = Pending)
                       (leased (token (dl_id d)) (now + lease_ms) now) db
          | Some reason \<Rightarrow>
              if active_at now s \<and> \<not> key_ok s now (tb_host db) then revoke_in_transaction (es_id s) now reason db
              else abandon (dl_id d) now reason db))"

definition row_revoked :: "int \<Rightarrow> host_tables \<Rightarrow> due_row \<Rightarrow> string list \<Rightarrow> string list" where
  "row_revoked now host row revoked =
     (case row of (d, e, s) \<Rightarrow>
        if es_id s \<notin> set revoked \<and> active_at now s \<and> \<not> key_ok s now host then es_id s # revoked else revoked)"

lemma claim_row_parts:
  fixes env kr token lease_ms now
  assumes "row = (d, e, s)" "es_id s \<notin> set (cs_revoked st) \<Longrightarrow> row_of (dl_id d) (sv_db (cs_service st)) = Some d" "dl_status d = Pending"
  defines "db \<equiv> sv_db (cs_service st)" and "st' \<equiv> claim_row env kr token lease_ms now row st"
  shows "sv_db (cs_service st') = row_change env kr token lease_ms now row (cs_revoked st) db"
    and "cs_revoked st' = row_revoked now (tb_host db) row (cs_revoked st)"
    and "cs_claimed st' = cs_claimed st @
           (if es_id s \<notin> set (cs_revoked st) \<and> claim_refusal env kr (tb_host db) now row = None then [handed env kr token now row] else [])"
proof -
  obtain ok sv where ku: "key_usable s now (cs_service st) = (ok, sv)" by (cases "key_usable s now (cs_service st)")
  have ok: "ok = key_ok s now (tb_host db)" and sv: "sv_db sv = db"
    using key_usable_fst [of s now "cs_service st"] key_usable_snd [of s now "cs_service st"] by (simp_all add: ku db_def)
  have here: "list_ex (\<lambda>x. dl_id x = dl_id d \<and> dl_status x = Pending) (tb_deliveries db)" if "es_id s \<notin> set (cs_revoked st)"
    using row_of_in [OF assms(2) [OF that]] assms(3) by (auto simp: list_ex_iff db_def)
  note unf = st'_def claim_row_def row_change_def row_revoked_def claim_refusal_def claim_abandon_def lease_row_def handed_def
    ku ok sv here db_def [symmetric] assms(1) Let_def
  show "sv_db (cs_service st') = row_change env kr token lease_ms now row (cs_revoked st) db"
    by (simp add: unf)
  show "cs_revoked st' = row_revoked now (tb_host db) row (cs_revoked st)"
    by (simp add: unf)
  show "cs_claimed st' = cs_claimed st @
      (if es_id s \<notin> set (cs_revoked st) \<and> claim_refusal env kr (tb_host db) now row = None then [handed env kr token now row] else [])"
    by (simp add: unf)
qed

section \<open>The whole batch\<close>

definition revoked_reason :: string where
  "revoked_reason = ''credential_revoked''"

definition row_ready :: "event_env \<Rightarrow> secret_keyring \<Rightarrow> int \<Rightarrow> string list \<Rightarrow> event_db \<Rightarrow> due_row \<Rightarrow> bool" where
  "row_ready env kr now revoked db row =
     (case row of (d, e, s) \<Rightarrow> due_at now d \<and> dl_sub d = es_id s
        \<and> (if es_id s \<in> set revoked
           then claim_refusal env kr (tb_host db) now row = Some revoked_reason
                \<and> row_of (dl_id d) db = Some (abandoned now revoked_reason d)
           else row_of (dl_id d) db = Some d))"

definition batch_ok :: "due_row list \<Rightarrow> bool" where
  "batch_ok rows = (distinct (map (\<lambda>r. dl_id (fst r)) rows)
     \<and> (\<forall>r \<in> set rows. \<forall>r' \<in> set rows. es_id (snd (snd r)) = es_id (snd (snd r')) \<longrightarrow> snd (snd r) = snd (snd r')))"

definition untouched :: "int \<Rightarrow> host_tables \<Rightarrow> due_row list \<Rightarrow> delivery \<Rightarrow> bool" where
  "untouched now host rows x =
     (dl_status x \<noteq> Pending \<or> (\<forall>r \<in> set rows. dl_sub x = es_id (snd (snd r)) \<longrightarrow> key_ok (snd (snd r)) now host))"

lemma batch_host [simp]:
  "tb_host (revoke_in_transaction i now reason db) = tb_host db" "tb_host (abandon i now reason db) = tb_host db"
  by (simp_all add: revoke_in_transaction_def abandon_def)

lemma row_change_host [simp]: "tb_host (row_change env kr token lease_ms now row revoked db) = tb_host db"
  by (simp add: row_change_def abandon_def revoke_in_transaction_def split: prod.split option.split)

lemma claim_refusal_revoked: "claim_refusal env kr host now (d, e, s) = Some reason \<Longrightarrow> active_at now s \<Longrightarrow> \<not> key_ok s now host
    \<Longrightarrow> reason = revoked_reason"
  by (simp add: claim_refusal_def revoked_reason_def)

lemma claim_refusal_key: "claim_refusal env kr host now (d, e, s) = None \<Longrightarrow> key_ok s now host \<and> active_at now s"
  by (simp add: claim_refusal_def split: if_splits)

lemma row_change_other:
  assumes "row_of j db = Some x" "j \<noteq> dl_id d" "untouched now (tb_host db) [(d, e, s)] x"
  shows "row_of j (row_change env kr token lease_ms now (d, e, s) revoked db) = Some x"
  using assms row_of_in [OF assms(1)]
  by (auto simp: row_change_def row_of_abandon row_of_revoke untouched_def split: option.split)

lemma row_change_here:
  assumes "row_ready env kr now revoked db (d, e, s)"
  shows "row_of (dl_id d) (row_change env kr token lease_ms now (d, e, s) revoked db)
    = Some (settled_row env kr (tb_host db) token lease_ms now (d, e, s))"
  using assms
  by (auto simp: row_ready_def row_change_def row_of_abandon row_of_revoke settled_row_def due_at_def
      dest: claim_refusal_revoked split: option.splits if_splits)

lemma row_ready_next:
  assumes "row_ready env kr now revoked db (d, e, s)" "row_ready env kr now revoked db (d', e', s')"
    and "dl_id d' \<noteq> dl_id d" "es_id s' = es_id s \<Longrightarrow> s' = s"
  shows "row_ready env kr now (row_revoked now (tb_host db) (d, e, s) revoked)
    (row_change env kr token lease_ms now (d, e, s) revoked db) (d', e', s')"
proof (cases "es_id s \<notin> set revoked \<and> active_at now s \<and> \<not> key_ok s now (tb_host db)")
  case True
  then have cred: "claim_refusal env kr (tb_host db) now (d, e, s) = Some revoked_reason"
    by (simp add: claim_refusal_def revoked_reason_def)
  have same: "claim_refusal env kr (tb_host db) now (d', e', s') = Some revoked_reason" if "es_id s' = es_id s"
    using True assms(4) [OF that] by (simp add: claim_refusal_def revoked_reason_def)
  show ?thesis
    using True cred same assms
    by (auto simp: row_ready_def row_revoked_def row_change_def row_of_revoke due_at_def abandoned_def
        split: if_splits)
next
  case False
  then have keep: "row_revoked now (tb_host db) (d, e, s) revoked = revoked"
    by (simp add: row_revoked_def)
  have "row_of j (row_change env kr token lease_ms now (d, e, s) revoked db) = Some x"
    if "j \<noteq> dl_id d" "row_of j db = Some x" for j x
  proof (cases "key_ok s now (tb_host db)")
    case True
    then show ?thesis using that by (intro row_change_other) (simp_all add: untouched_def)
  next
    case key: False
    then have "\<not> active_at now s \<or> es_id s \<in> set revoked" using False by blast
    then show ?thesis
      using that row_of_in [OF that(2)] by (auto simp: row_change_def row_of_abandon claim_refusal_def)
  qed
  then show ?thesis
    using assms by (simp add: row_ready_def keep split: if_splits)
qed

lemma claim_rows:
  "batch_ok rows \<Longrightarrow> (\<And>r. r \<in> set rows \<Longrightarrow> row_ready env kr now (cs_revoked st) (sv_db (cs_service st)) r)
   \<Longrightarrow> (let st' = fold (claim_row env kr token lease_ms now) rows st; host = tb_host (sv_db (cs_service st)) in
      cs_claimed st' = cs_claimed st @ map (handed env kr token now) (filter (\<lambda>r. claim_refusal env kr host now r = None) rows)
      \<and> (\<forall>r \<in> set rows. row_of (dl_id (fst r)) (sv_db (cs_service st')) = Some (settled_row env kr host token lease_ms now r))
      \<and> (\<forall>j x. j \<notin> (\<lambda>r. dl_id (fst r)) ` set rows \<longrightarrow> row_of j (sv_db (cs_service st)) = Some x \<longrightarrow> untouched now host rows x
           \<longrightarrow> row_of j (sv_db (cs_service st')) = Some x))"
proof (induction rows arbitrary: st)
  case (Cons row rows)
  obtain d e s where row: "row = (d, e, s)" by (cases row)
  define db where "db = sv_db (cs_service st)"
  define st1 where "st1 = claim_row env kr token lease_ms now row st"
  have ready: "row_ready env kr now (cs_revoked st) db (d, e, s)"
    using Cons.prems(2) [of row] by (simp add: row db_def)
  have pend: "dl_status d = Pending" using ready by (simp add: row_ready_def due_at_def)
  have cur: "es_id s \<notin> set (cs_revoked st) \<Longrightarrow> row_of (dl_id d) (sv_db (cs_service st)) = Some d"
    using ready by (simp add: row_ready_def db_def)
  note parts = claim_row_parts [OF row cur pend, of env kr token lease_ms now, folded db_def st1_def]
  have nodup: "dl_id (fst r) \<noteq> dl_id d" if "r \<in> set rows" for r
    using Cons.prems(1) that by (auto simp: batch_ok_def row intro: rev_image_eqI)
  have same: "es_id (snd (snd r)) = es_id s \<Longrightarrow> snd (snd r) = s" if "r \<in> set rows" for r
    using Cons.prems(1) that by (auto simp: batch_ok_def row)
  have ready1: "row_ready env kr now (cs_revoked st1) (sv_db (cs_service st1)) r" if "r \<in> set rows" for r
    using row_ready_next [OF ready, of "fst r" "fst (snd r)" "snd (snd r)"] Cons.prems(2) [of r] nodup [OF that] same [OF that] that
    by (simp add: parts(1,2) row db_def)
  have host1: "tb_host (sv_db (cs_service st1)) = tb_host db" by (simp add: parts(1))
  have batch1: "batch_ok rows" using Cons.prems(1) by (simp add: batch_ok_def)
  note IH = Cons.IH [OF batch1 ready1, unfolded Let_def host1]
  have here: "row_of (dl_id d) (sv_db (cs_service st1)) = Some (settled_row env kr (tb_host db) token lease_ms now row)"
    using row_change_here [OF ready] by (simp add: parts(1) row)
  have quiet: "untouched now (tb_host db) rows (settled_row env kr (tb_host db) token lease_ms now row)"
  proof (cases "claim_refusal env kr (tb_host db) now row")
    case None
    then have "key_ok s now (tb_host db)" using claim_refusal_key by (simp add: row)
    then show ?thesis
      using same ready None by (auto simp: untouched_def settled_row_def row row_ready_def)
  next
    case (Some r)
    then show ?thesis by (simp add: untouched_def settled_row_def abandoned_def)
  qed
  have claimed1: "cs_claimed st1 = cs_claimed st @ (if claim_refusal env kr (tb_host db) now row = None then [handed env kr token now row] else [])"
    using ready by (auto simp: parts(3) row_ready_def row)
  have other: "row_of j (sv_db (cs_service st1)) = Some x"
    if "j \<noteq> dl_id d" "row_of j db = Some x" "untouched now (tb_host db) (row # rows) x" for j x
    using that by (simp add: parts(1) row) (rule row_change_other; simp add: untouched_def row)
  have step: "fold (claim_row env kr token lease_ms now) (row # rows) st = fold (claim_row env kr token lease_ms now) rows st1"
    by (simp add: st1_def)
  have "row_of j (sv_db (cs_service (fold (claim_row env kr token lease_ms now) rows st1))) = Some x"
    if "j \<notin> (\<lambda>r. dl_id (fst r)) ` set (row # rows)" "row_of j db = Some x" "untouched now (tb_host db) (row # rows) x" for j x
  proof -
    have "untouched now (tb_host db) rows x" using that(3) by (auto simp: untouched_def)
    moreover have "row_of j (sv_db (cs_service st1)) = Some x" using that by (intro other) (simp_all add: row)
    ultimately show ?thesis using IH that(1) by simp
  qed
  moreover have "row_of (dl_id d) (sv_db (cs_service (fold (claim_row env kr token lease_ms now) rows st1)))
      = Some (settled_row env kr (tb_host db) token lease_ms now row)"
  proof -
    have "dl_id d \<notin> (\<lambda>r. dl_id (fst r)) ` set rows" using nodup by fastforce
    then show ?thesis using IH here quiet by blast
  qed
  ultimately show ?case
    using IH claimed1 unfolding step Let_def db_def [symmetric] by (simp add: row)
qed (simp add: Let_def)

section \<open>The rows of a claim\<close>

lemma joined_cases: "joined db d = [] \<or> (\<exists>e s. joined db d = [(d, e, s)] \<and> e \<in> set (tb_events db) \<and> ev_id e = dl_event d
    \<and> find (\<lambda>s. es_id s = dl_sub d) (tb_subs db) = Some s)"
  by (auto simp: joined_def split: option.split dest: find_some)

lemma joined_refers:
  assumes "store_ok db" "d \<in> set (tb_deliveries db)"
  shows "joined db d \<noteq> []"
proof -
  have "refers db d" using assms by (simp add: store_ok_def list_all_iff)
  then obtain e s where "e \<in> set (tb_events db)" "ev_id e = dl_event d" "s \<in> set (tb_subs db)" "es_id s = dl_sub d"
    by (auto simp: refers_def)
  then show ?thesis by (auto simp: joined_def find_None_iff split: option.split)
qed

lemma joined_ids: "distinct (map dl_id ds) \<Longrightarrow> distinct (map (\<lambda>r. dl_id (fst r)) (concat (map (joined db) ds)))
    \<and> set (map (\<lambda>r. dl_id (fst r)) (concat (map (joined db) ds))) \<subseteq> set (map dl_id ds)"
proof (induction ds)
  case (Cons d ds)
  let ?rest = "map (\<lambda>r. dl_id (fst r)) (concat (map (joined db) ds))"
  have ids: "distinct (map dl_id ds)" "dl_id d \<notin> set (map dl_id ds)" using Cons.prems by auto
  note IH = conjunct1 [OF Cons.IH [OF ids(1)]] conjunct2 [OF Cons.IH [OF ids(1)]] ids(2)
  from joined_cases [of db d] show ?case
  proof
    assume "joined db d = []"
    then show ?thesis using IH by (simp only: list.map concat.simps append_Nil) auto
  next
    assume "\<exists>e s. joined db d = [(d, e, s)] \<and> e \<in> set (tb_events db) \<and> ev_id e = dl_event d
        \<and> find (\<lambda>s. es_id s = dl_sub d) (tb_subs db) = Some s"
    then obtain e s where "joined db d = [(d, e, s)]" by blast
    then have "map (\<lambda>r. dl_id (fst r)) (concat (map (joined db) (d # ds))) = dl_id d # ?rest" by simp
    then show ?thesis using IH by (simp only: distinct.simps list.map list.set) blast
  qed
qed simp

lemma due_rows_in:
  assumes "(d, e, s) \<in> set (due_rows now limit db)"
  shows "d \<in> set (tb_deliveries db) \<and> due_at now d \<and> e \<in> set (tb_events db) \<and> ev_id e = dl_event d
    \<and> find (\<lambda>s. es_id s = dl_sub d) (tb_subs db) = Some s"
proof -
  have "(d, e, s) \<in> set (concat (map (joined db) (filter (due_at now) (tb_deliveries db))))"
    using assms by (auto simp: due_rows_def dest!: in_set_takeD)
  then obtain d' where "d' \<in> set (tb_deliveries db)" "due_at now d'" "(d, e, s) \<in> set (joined db d')" by auto
  then show ?thesis using joined_cases [of db d'] by auto
qed

lemma due_rows_sub: "(d, e, s) \<in> set (due_rows now limit db) \<Longrightarrow> s \<in> set (tb_subs db) \<and> es_id s = dl_sub d"
  using due_rows_in [of d e s now limit db] by (auto dest: find_some)

lemma distinct_take_map: "distinct (map g xs) \<Longrightarrow> distinct (map g (take n xs))"
  by (simp add: take_map [symmetric])

lemma due_rows_batch: "store_ok db \<Longrightarrow> batch_ok (due_rows now limit db)"
proof -
  assume ok: "store_ok db"
  have "distinct (map dl_id (filter (due_at now) (tb_deliveries db)))"
    using ok by (simp add: store_ok_def distinct_filter_map)
  then have "distinct (map (\<lambda>r. dl_id (fst r)) (due_rows now limit db))"
    using joined_ids by (auto simp: due_rows_def order_by_distinct intro: distinct_take_map)
  moreover have "s = s'" if "(d, e, s) \<in> set (due_rows now limit db)" "(d', e', s') \<in> set (due_rows now limit db)" "es_id s = es_id s'"
    for d e s d' e' s'
    using due_rows_in [OF that(1)] due_rows_in [OF that(2)] due_rows_sub [OF that(1)] due_rows_sub [OF that(2)] that(3) by simp
  ultimately show ?thesis by (auto simp: batch_ok_def)
qed

lemma due_rows_ready: "store_ok db \<Longrightarrow> r \<in> set (due_rows now limit db) \<Longrightarrow> row_ready env kr now [] db r"
  using due_rows_in [of "fst r" "fst (snd r)" "snd (snd r)"] due_rows_sub [of "fst r" "fst (snd r)" "snd (snd r)"]
    row_of_member [of db "fst r"] by (cases r) (auto simp: row_ready_def)

lemma store_ok_purge [store_intros]: "store_ok (sv_db sv) \<Longrightarrow> store_ok (sv_db (purge_events now sv))"
  by (simp add: purge_events_def Let_def store_intros)

lemma purge_host [simp]: "tb_host (sv_db (purge_events now sv)) = tb_host (sv_db sv)"
  by (simp add: purge_events_def Let_def delete_events_def delete_subs_def)

lemma claim_exact:
  assumes "store_ok (sv_db sv)" "ee_keyring env = Some kr" "claim_deliveries env token limit lease_ms now sv = (cs, sv')"
  defines "db \<equiv> sv_db (purge_events now sv)" and "host \<equiv> tb_host (sv_db sv)"
  shows "cs = map (handed env kr token now) (filter (\<lambda>r. claim_refusal env kr host now r = None) (due_rows now limit db))"
    and "\<And>r. r \<in> set (due_rows now limit db) \<Longrightarrow> row_of (dl_id (fst r)) (sv_db sv') = Some (settled_row env kr host token lease_ms now r)"
proof -
  have ok: "store_ok db" unfolding db_def by (intro store_intros assms(1))
  note rows = claim_rows [OF due_rows_batch [OF ok, of now limit],
    of env kr now "\<lparr>cs_service = purge_events now sv, cs_claimed = [], cs_revoked = []\<rparr>" token lease_ms,
    simplified, folded db_def, OF due_rows_ready [OF ok], unfolded Let_def]
  show "cs = map (handed env kr token now) (filter (\<lambda>r. claim_refusal env kr host now r = None) (due_rows now limit db))"
    using assms(2,3) rows by (auto simp: claim_deliveries_def Let_def db_def host_def)
  show "\<And>r. r \<in> set (due_rows now limit db) \<Longrightarrow> row_of (dl_id (fst r)) (sv_db sv') = Some (settled_row env kr host token lease_ms now r)"
    using assms(2,3) rows by (auto simp: claim_deliveries_def Let_def db_def host_def)
qed

text \<open>A delivery outside the batch is left alone or abandoned with its revoked subscription.\<close>

definition left_or_abandoned :: "int \<Rightarrow> delivery option \<Rightarrow> delivery option \<Rightarrow> bool" where
  "left_or_abandoned now x y = (y = x \<or> (\<exists>d reason. x = Some d \<and> dl_status d = Pending \<and> y = Some (abandoned now reason d)))"

lemma claim_row_other:
  "j \<noteq> dl_id (fst r) \<Longrightarrow> left_or_abandoned now (row_of j (sv_db (cs_service st))) (row_of j (sv_db (cs_service (claim_row env kr token lease_ms now r st))))"
proof -
  assume j: "j \<noteq> dl_id (fst r)"
  obtain d e s where r: "r = (d, e, s)" by (cases r)
  obtain ok sv where ku: "key_usable s now (cs_service st) = (ok, sv)" by (cases "key_usable s now (cs_service st)")
  have sv: "sv_db sv = sv_db (cs_service st)"
    using key_usable_snd [of s now "cs_service st"] by (simp add: ku)
  show ?thesis
    using j row_of_in [of j "sv_db (cs_service st)"]
    by (cases "row_of j (sv_db (cs_service st))")
      (auto simp: r claim_row_def lease_row_def claim_abandon_def ku sv Let_def row_of_abandon row_of_revoke left_or_abandoned_def)
qed

lemma left_or_abandoned_trans:
  "left_or_abandoned now x y \<Longrightarrow> left_or_abandoned now y z \<Longrightarrow> left_or_abandoned now x z"
  by (auto simp: left_or_abandoned_def abandoned_def)

lemma claim_rows_other:
  "j \<notin> (\<lambda>r. dl_id (fst r)) ` set rows
   \<Longrightarrow> left_or_abandoned now (row_of j (sv_db (cs_service st))) (row_of j (sv_db (cs_service (fold (claim_row env kr token lease_ms now) rows st))))"
proof (induction rows arbitrary: st)
  case (Cons r rows)
  then show ?case
    using left_or_abandoned_trans [OF claim_row_other [of j r now st env kr token lease_ms] Cons.IH] by simp
qed (simp add: left_or_abandoned_def)

lemma claim_other:
  assumes "ee_keyring env = Some kr" "claim_deliveries env token limit lease_ms now sv = (cs, sv')"
    and "j \<notin> (\<lambda>r. dl_id (fst r)) ` set (due_rows now limit (sv_db (purge_events now sv)))"
  shows "left_or_abandoned now (row_of j (sv_db (purge_events now sv))) (row_of j (sv_db sv'))"
  using claim_rows_other [OF assms(3), of now "\<lparr>cs_service = purge_events now sv, cs_claimed = [], cs_revoked = []\<rparr>" env kr token lease_ms]
    assms(1,2) by (auto simp: claim_deliveries_def Let_def)

end
