(* ===== verification/EventLifecycle.thy ===== *)
theory EventLifecycle
  imports EventClaims
begin

text \<open>
  The contract of one delivery as an abstract state machine, and the refinement: every operation of the
  component moves each delivery along it. Invariants of deliveries are then rule inductions on the machine.
\<close>

section \<open>Every operation keeps the table constraints\<close>

lemma store_ok_claim_row:
  "store_ok (sv_db (cs_service st)) \<Longrightarrow> store_ok (sv_db (cs_service (claim_row env kr token lease_ms now row st)))"
proof -
  assume ok: "store_ok (sv_db (cs_service st))"
  obtain d e s where r: "row = (d, e, s)" by (cases row)
  obtain b sv where ku: "key_usable s now (cs_service st) = (b, sv)" by (cases "key_usable s now (cs_service st)")
  have sv: "sv_db sv = sv_db (cs_service st)"
    using key_usable_snd [of s now "cs_service st"] by (simp add: ku)
  show ?thesis
    using ok by (auto simp: r claim_row_def lease_row_def claim_abandon_def ku sv Let_def delivery_ok_intros intro!: store_intros)
qed

lemma store_ok_claim_rows:
  "store_ok (sv_db (cs_service st)) \<Longrightarrow> store_ok (sv_db (cs_service (fold (claim_row env kr token lease_ms now) rows st)))"
  by (induction rows arbitrary: st) (simp_all add: store_ok_claim_row)

lemma store_ok_claim [store_intros]:
  "store_ok (sv_db sv) \<Longrightarrow> store_ok (sv_db (snd (claim_deliveries env token limit lease_ms now sv)))"
  by (auto simp: claim_deliveries_def Let_def intro!: store_ok_claim_rows store_intros split: option.split)

lemma reported_row_in: "reported_row r db = Some d \<Longrightarrow> d \<in> set (tb_deliveries db) \<and> dl_id d = rp_delivery r
    \<and> dl_status d = Pending \<and> dl_lease_token d = Some (rp_token r)"
  by (auto simp: reported_row_def split: option.splits if_splits dest: find_some)

lemma store_ok_report_one:
  assumes "store_ok (snd acc)"
  shows "store_ok (snd (report_one now r acc))"
proof (cases "reported_row r (snd acc)")
  case (Some d)
  have "x = d" if "x \<in> set (tb_deliveries (snd acc))" "dl_id x = dl_id d" for x
    using row_of_member [OF assms, of x] row_of_member [OF assms, of d] reported_row_in [OF Some] that by simp
  then have "delivery_ok (reported_delivery r now x)" if "x \<in> set (tb_deliveries (snd acc))" "dl_id x = dl_id d" "delivery_ok x" for x
    using that reported_row_in [OF Some] by (simp add: reported_delivery_def delivery_ok_intros)
  then have "store_ok (update_deliveries (\<lambda>x. dl_id x = dl_id d) (reported_delivery r now) (snd acc))"
    using assms by (intro store_ok_update_deliveries) simp_all
  then show ?thesis
    by (simp add: report_one_def Some) (rule store_ok_update_subs; simp add: reported_subscription_def subscription_ok_def)
qed (use assms in \<open>simp add: report_one_def\<close>)

lemma store_ok_report [store_intros]:
  "store_ok (sv_db sv) \<Longrightarrow> store_ok (sv_db (snd (report_deliveries results now sv)))"
proof -
  have "store_ok (snd acc) \<Longrightarrow> store_ok (snd (fold (report_one now) results acc))" for acc
    by (induction results arbitrary: acc) (simp_all add: store_ok_report_one)
  then show "store_ok (sv_db sv) \<Longrightarrow> store_ok (sv_db (snd (report_deliveries results now sv)))"
    by (simp add: report_deliveries_def split: prod.split) (metis snd_conv)
qed

lemma subscription_row_in: "subscription_row prin i db = Some s \<Longrightarrow> s \<in> set (tb_subs db) \<and> es_owner s = prin \<and> es_id s = i"
  unfolding subscription_row_def by (drule find_some) simp

lemma subscribe_cases:
  assumes "subscribe env nonce prin inp now sv = Inr (ans, sv')"
  obtains (new) kr args db where "ee_keyring env = Some kr"
      "admit_subscription env prin inp now (sv_db sv) = Inr (an_id ans, args)"
      "sv_db sv' = db\<lparr>tb_subs := tb_subs db @ [new_subscription (an_id ans) prin inp args
          (seal_secret env kr nonce prin (an_id ans) 1 (si_secret inp)) (now + ttl_of (si_ttl inp)) now]\<rparr>"
      "\<exists>v. db = (sv_db sv)\<lparr>tb_verified := v\<rparr>" "an_id ans \<notin> es_id ` set (tb_subs db)"
  | (refresh) kr args db old where "ee_keyring env = Some kr"
      "admit_subscription env prin inp now (sv_db sv) = Inr (an_id ans, args)"
      "subscription_row prin (an_id ans) db = Some old"
      "sv_db sv' = update_subs (\<lambda>s. es_owner s = prin \<and> es_id s = an_id ans)
          (refreshed_row inp (refresh_secret env kr nonce prin (an_id ans) inp old now) (now + ttl_of (si_ttl inp)) now) db"
      "\<exists>v. db = (sv_db sv)\<lparr>tb_verified := v\<rparr>"
proof -
  obtain kr where kr: "ee_keyring env = Some kr"
    using assms by (auto simp: subscribe_def split: option.splits)
  obtain i args where adm: "admit_subscription env prin inp now (sv_db sv) = Inr (i, args)"
    using assms by (auto simp: subscribe_def kr guard_simps)
  define db where "db = (if si_verified inp then (sv_db sv)\<lparr>tb_verified := jset (prin, sk_url inp) now (tb_verified (sv_db sv))\<rparr> else sv_db sv)"
  have dbv: "\<exists>v. db = (sv_db sv)\<lparr>tb_verified := v\<rparr>"
    by (cases "si_verified inp") (auto simp: db_def intro: exI [of _ "tb_verified (sv_db sv)"])
  show ?thesis
  proof (cases "subscription_row prin i db")
    case None
    let ?taken = "list_ex (\<lambda>s. es_id s = i \<or> (es_owner s = prin \<and> es_url s = sk_url inp \<and> es_name s = sk_name inp
        \<and> es_args s = Some args)) (tb_subs db)"
    have free: "\<not> ?taken" and res: "an_id ans = i" "sv_db sv' = db\<lparr>tb_subs := tb_subs db @ [new_subscription i prin inp args
          (seal_secret env kr nonce prin i 1 (si_secret inp)) (now + ttl_of (si_ttl inp)) now]\<rparr>"
      using assms adm None by (auto simp: subscribe_def kr guard_simps Let_def db_def [symmetric] split: if_splits)
    from free have "i \<notin> es_id ` set (tb_subs db)" by (auto simp: list_ex_iff)
    then show ?thesis using new [OF kr _ _ dbv] adm res by simp
  next
    case (Some old)
    then show ?thesis
      using assms refresh [OF kr _ _ _ dbv] adm
      by (auto simp: subscribe_def kr guard_simps Let_def db_def [symmetric])
  qed
qed

lemma subscription_ok_refreshed:
  "subscription_ok old \<Longrightarrow> subscription_ok (refreshed_row inp (refresh_secret env kr nonce prin i inp old now) expires now s)"
  by (auto simp: subscription_ok_def refreshed_row_def refresh_secret_def Let_def)

lemma refreshed_row_id [simp]: "es_id (refreshed_row inp rs expires now s) = es_id s"
  "es_owner (refreshed_row inp rs expires now s) = es_owner s"
  by (simp_all add: refreshed_row_def Let_def)

lemma store_ok_subscribe:
  assumes "subscribe env nonce prin inp now sv = Inr (ans, sv')" "store_ok (sv_db sv)"
  shows "store_ok (sv_db sv')"
  using assms(1)
proof (cases rule: subscribe_cases)
  case (new kr args db)
  then have "store_ok db" using assms(2) by auto
  then show ?thesis
    using new(3,5) by (auto simp: store_ok_def list_all_iff refers_def new_subscription_def subscription_ok_def)
next
  case (refresh kr args db old)
  then have ok: "store_ok db" using assms(2) by auto
  then have "subscription_ok old"
    using subscription_row_in [OF refresh(3)] by (simp add: store_ok_def list_all_iff)
  then show ?thesis
    using ok unfolding refresh(4)
    by (intro store_ok_update_subs) (simp_all add: subscription_ok_refreshed)
qed

lemma store_ok_unsubscribe:
  "unsubscribe env prin inp sv = Inr (b, sv') \<Longrightarrow> store_ok (sv_db sv) \<Longrightarrow> store_ok (sv_db sv')"
  by (auto simp: unsubscribe_def guard_simps Let_def store_intros split: option.splits)

lemma store_ok_revoke_subscription [store_intros]:
  "store_ok (sv_db sv) \<Longrightarrow> store_ok (sv_db (snd (revoke_subscription prin i now sv)))"
  by (simp add: revoke_subscription_def store_intros split: option.split)

lemma store_ok_reencrypt_rows:
  "store_ok (snd acc) \<Longrightarrow> store_ok (snd (reencrypt_rows env kr nonce rows acc))"
proof (induction env kr nonce rows acc rule: reencrypt_rows.induct)
  case (2 env kr nonce row rows acc)
  have keep: "store_ok (snd (reencrypt_row row current previous acc))" if "previous = None \<longleftrightarrow> es_previous row = None" for current previous
    using 2(3) that unfolding reencrypt_row_def Let_def snd_conv
    by (intro store_ok_update_subs) (auto simp: subscription_ok_def)
  have step: "store_ok (snd (reencrypt_row row current previous acc))"
    if "(case es_previous row of None \<Rightarrow> Inr None
         | Some p \<Rightarrow> ebind (reseal_secret env kr (snd (nonce (es_id row))) (es_owner row) (es_id row) p) (\<lambda>q. Inr (Some q))) = Inr previous"
    for current previous
    using that by (intro keep) (auto simp: guard_simps split: option.splits)
  show ?case
    using 2(1) [OF _ _ _ 2(3)] 2(2) [OF _ _ _ step] 2(3) by (simp split: sum.split)
qed simp

lemma store_ok_reencrypt [store_intros]:
  "store_ok (sv_db sv) \<Longrightarrow> store_ok (sv_db (snd (reencrypt_subscriptions env kr nonce reached sv)))"
  using store_ok_reencrypt_rows [of "(0, sv_db sv)" env kr nonce "take reached (tb_subs (sv_db sv))"]
  by (cases "reencrypt_rows env kr nonce (take reached (tb_subs (sv_db sv))) (0, sv_db sv)")
    (simp add: reencrypt_subscriptions_def)

lemma answer_with_snd: "snd (answer_with wrap sv r) = (case r of Inr (a, sv') \<Rightarrow> sv' | Inl _ \<Rightarrow> sv)"
  by (simp add: answer_with_def split: sum.split events_failure.split)

lemma dispatch_state: "snd (dispatch env nonce token now req sv) =
    (case req of
       EventsSubscribe prin inp \<Rightarrow> (case subscribe env nonce prin inp now sv of Inr (a, sv') \<Rightarrow> sv' | Inl _ \<Rightarrow> sv)
     | EventsUnsubscribe prin inp \<Rightarrow> (case unsubscribe env prin inp sv of Inr (a, sv') \<Rightarrow> sv' | Inl _ \<Rightarrow> sv)
     | EventsRevoke prin i \<Rightarrow> snd (revoke_subscription prin i now sv)
     | EventsClaim limit lease_ms \<Rightarrow> snd (claim_deliveries env token (nat limit) lease_ms now sv)
     | EventsReport results \<Rightarrow> snd (report_deliveries results now sv)
     | _ \<Rightarrow> sv)"
  by (cases req) (auto simp: answer_with_snd ebind_Inr_iff split: sum.splits prod.split)

lemma store_ok_step [store_intros]: "store_ok (sv_db sv) \<Longrightarrow> store_ok (sv_db (event_step env sha now op sv))"
  by (cases op)
    (auto simp: event_step_def execute_events_def dispatch_state store_intros
      split: events_request.split sum.split dest: store_ok_subscribe store_ok_unsubscribe)

end
