(* ===== verification/EventRefinement.thy ===== *)
theory EventRefinement
  imports EventLifecycle
begin

text \<open>
  The abstract life of one delivery and its refinement by the tables: queued, sent under a lease, retried,
  closed, removed. \<open>lifecycle now toks\<close> is the step relation at a clock value; \<open>toks\<close> are the lease tokens that may
  be handed out.
\<close>

section \<open>The machine\<close>

datatype phase =
    Gone
  | Open int int int "(string \<times> int) option"
  | Closed delivery_status int int

definition lease_of :: "delivery \<Rightarrow> (string \<times> int) option" where
  "lease_of d = (case (dl_lease_token d, dl_lease_until d) of (Some t, Some u) \<Rightarrow> Some (t, u) | _ \<Rightarrow> None)"

definition phase_of :: "delivery option \<Rightarrow> phase" where
  "phase_of x = (case x of None \<Rightarrow> Gone
     | Some d \<Rightarrow> (case dl_completed d of
          None \<Rightarrow> Open (dl_created d) (dl_attempts d) (dl_next d) (lease_of d)
        | Some t \<Rightarrow> Closed (dl_status d) (dl_attempts d) t))"

definition lease_over :: "(string \<times> int) option \<Rightarrow> int \<Rightarrow> bool" where
  "lease_over lease now = (case lease of None \<Rightarrow> True | Some (_, u) \<Rightarrow> u \<le> now)"

inductive lifecycle :: "int \<Rightarrow> string set \<Rightarrow> phase \<Rightarrow> phase \<Rightarrow> bool" for now toks where
  queued: "lifecycle now toks Gone (Open now 0 now None)"
| sent: "due \<le> now \<Longrightarrow> lease_over lease now \<Longrightarrow> n = 0 \<or> now - c < retry_window \<Longrightarrow> 1000 \<le> ms \<Longrightarrow> ms \<le> 300000 \<Longrightarrow> tok \<in> toks
    \<Longrightarrow> lifecycle now toks (Open c n due lease) (Open c (n + 1) due (Some (tok, now + ms)))"
| delivered: "lifecycle now toks (Open c n due (Some l)) (Closed Delivered n now)"
| retried: "n < max_attempts \<Longrightarrow> now - c < retry_window
    \<Longrightarrow> lifecycle now toks (Open c n due (Some l)) (Open c n (now + retry_delay n) None)"
| given_up: "lifecycle now toks (Open c n due lease) (Closed Abandoned n now)"
| removed: "lifecycle now toks p Gone"

inductive_cases lifecycle_fromE: "lifecycle now toks p q"

definition moves :: "int \<Rightarrow> (string \<Rightarrow> string set) \<Rightarrow> event_db \<Rightarrow> event_db \<Rightarrow> bool" where
  "moves now T db db' = (\<forall>i. (lifecycle now (T i))\<^sup>*\<^sup>* (phase_of (row_of i db)) (phase_of (row_of i db')))"

named_theorems move_intros "operations as moves of the lifecycle"

lemma moves_refl [move_intros]: "moves now T db db"
  by (simp add: moves_def)

lemma moves_trans: "moves now T db db' \<Longrightarrow> moves now T db' db'' \<Longrightarrow> moves now T db db''"
  unfolding moves_def by (meson rtranclp_trans)

lemma moves_single: "(\<And>i. phase_of (row_of i db') = phase_of (row_of i db) \<or> lifecycle now (T i) (phase_of (row_of i db)) (phase_of (row_of i db')))
    \<Longrightarrow> moves now T db db'"
  unfolding moves_def by (metis r_into_rtranclp rtranclp.rtrancl_refl)

lemma moves_same_rows: "(\<And>i. row_of i db' = row_of i db) \<Longrightarrow> moves now T db db'"
  by (simp add: moves_def)

lemma moves_update_subs [move_intros]: "moves now T db (update_subs p f db)"
  by (rule moves_same_rows) simp

lemma row_of_fields [simp]:
  "row_of i (db\<lparr>tb_verified := v\<rparr>) = row_of i db" "row_of i (db\<lparr>tb_subs := ss\<rparr>) = row_of i db"
  "row_of i (db\<lparr>tb_events := es\<rparr>) = row_of i db" "row_of i (db\<lparr>tb_host := h\<rparr>) = row_of i db"
  by (simp_all add: row_of_def)

lemma moves_filter: "store_ok db \<Longrightarrow> tb_deliveries db' = filter p (tb_deliveries db) \<Longrightarrow> moves now T db db'"
  by (rule moves_single) (auto simp: row_of_def find_filter store_ok_def phase_of_def removed split: option.split)

lemma moves_delete:
  "store_ok db \<Longrightarrow> moves now T db (delete_subs p db)" "store_ok db \<Longrightarrow> moves now T db (delete_events p' db)"
  by (rule moves_filter; simp add: delete_subs_def delete_events_def)+

lemma abandoned_lifecycle: "delivery_ok d \<Longrightarrow> dl_status d = Pending
    \<Longrightarrow> lifecycle now toks (phase_of (Some d)) (phase_of (Some (abandoned now reason d)))"
  by (simp add: phase_of_def abandoned_def delivery_ok_def given_up)

lemma moves_left_or_abandoned:
  assumes "store_ok db" "\<And>i. left_or_abandoned now (row_of i db) (row_of i db')"
  shows "moves now T db db'"
proof (rule moves_single)
  fix i
  from assms(2) [of i] show "phase_of (row_of i db') = phase_of (row_of i db) \<or> lifecycle now (T i) (phase_of (row_of i db)) (phase_of (row_of i db'))"
    unfolding left_or_abandoned_def
    using abandoned_lifecycle [OF row_of_ok [OF assms(1)]] by metis
qed

lemma moves_revoke [move_intros]: "store_ok db \<Longrightarrow> moves now T db (revoke_in_transaction i now reason db)"
proof (rule moves_left_or_abandoned)
  show "left_or_abandoned now (row_of j db) (row_of j (revoke_in_transaction i now reason db))" for j
    by (cases "row_of j db") (auto simp: left_or_abandoned_def row_of_revoke)
qed

section \<open>Emission\<close>

lemma moves_insert: "moves now T db (insert_delivery (new_delivery i e s now) db)"
proof (rule moves_single)
  fix j
  have "lifecycle now (T j) (phase_of None) (phase_of (Some (new_delivery i e s now)))"
    by (simp add: phase_of_def new_delivery_def lease_of_def queued)
  then show "phase_of (row_of j (insert_delivery (new_delivery i e s now) db)) = phase_of (row_of j db)
      \<or> lifecycle now (T j) (phase_of (row_of j db)) (phase_of (row_of j (insert_delivery (new_delivery i e s now) db)))"
    using row_of_insert [of j "new_delivery i e s now" db] by metis
qed

lemma moves_insert_all: "moves now T db (fold (\<lambda>s. insert_delivery (new_delivery (f s) e (g s) now)) ss db)"
proof (induction ss arbitrary: db)
  case (Cons s ss)
  have "moves now T db (insert_delivery (new_delivery (f s) e (g s) now) db)"
    by (rule moves_insert)
  then show ?case using Cons.IH moves_trans by fastforce
qed (simp add: moves_refl)

lemma moves_record_event [move_intros]: "moves now T db (record_event sha draw owner source nm occurred payload now db)"
proof -
  have "moves now T db (db\<lparr>tb_events := es\<rparr>)" for es by (rule moves_same_rows) simp
  note moved = this [THEN moves_trans, OF moves_insert_all]
  show ?thesis
    unfolding record_event_def Let_def by (simp add: moves_refl) (intro impI, rule moved)
qed

lemma moves_emit [move_intros]:
  "moves now T db (emit_task_terminal sha draw task now db)"
  "moves now T db (emit_agent_terminal sha draw owner workspace agent now db)"
  by (simp_all add: emit_task_terminal_def emit_agent_terminal_def move_intros split: option.split)

section \<open>Claiming and reporting\<close>

lemma moves_purge: "store_ok (sv_db sv) \<Longrightarrow> moves now T (sv_db sv) (sv_db (purge_events now sv))"
proof -
  assume ok: "store_ok (sv_db sv)"
  define db1 where "db1 = (sv_db sv)\<lparr>tb_deliveries := filter (\<lambda>d. dl_status d = Pending
      \<or> \<not> (case dl_completed d of Some t \<Rightarrow> t < now - event_retention | None \<Rightarrow> False)) (tb_deliveries (sv_db sv))\<rparr>"
  have ok1: "store_ok db1" unfolding db1_def by (rule store_ok_filter_deliveries [OF ok])
  have m1: "moves now T (sv_db sv) db1" by (rule moves_filter [OF ok]) (simp add: db1_def)
  have "moves now T db1 ((delete_subs q (delete_events p db1))\<lparr>tb_verified := v\<rparr>)" for p q v
  proof -
    have "moves now T db1 (delete_events p db1)" by (rule moves_delete [OF ok1])
    moreover have "moves now T (delete_events p db1) (delete_subs q (delete_events p db1))"
      by (rule moves_delete) (rule store_ok_delete_events [OF ok1])
    moreover have "moves now T (delete_subs q (delete_events p db1)) ((delete_subs q (delete_events p db1))\<lparr>tb_verified := v\<rparr>)"
      by (rule moves_same_rows) simp
    ultimately show ?thesis using moves_trans by blast
  qed
  then show ?thesis
    using moves_trans [OF m1] by (simp add: purge_events_def Let_def db1_def [symmetric] moves_refl)
qed

lemma settled_row_lifecycle:
  assumes "delivery_ok d" "due_at now d" "1000 \<le> ms" "ms \<le> 300000" "token (dl_id d) \<in> toks"
  shows "lifecycle now toks (phase_of (Some d)) (phase_of (Some (settled_row env kr host token ms now (d, e, s))))"
proof (cases "claim_refusal env kr host now (d, e, s)")
  case None
  then have "dl_attempts d = 0 \<or> now - dl_created d < retry_window"
    using assms(1) by (auto simp: claim_refusal_def delivery_ok_def split: if_splits)
  moreover have "lease_over (lease_of d) now"
    using assms(1,2) by (auto simp: lease_over_def lease_of_def due_at_def split: option.splits)
  ultimately show ?thesis
    using assms by (auto simp: settled_row_def None phase_of_def leased_def delivery_ok_def lease_of_def [of "_\<lparr>dl_first := _\<rparr>"] due_at_def
        intro!: lifecycle.sent)
next
  case (Some reason)
  then show ?thesis using assms(1,2) by (simp add: settled_row_def abandoned_lifecycle due_at_def)
qed

lemma moves_claim:
  assumes "store_ok (sv_db sv)" "1000 \<le> ms" "ms \<le> 300000" "\<And>i. token i \<in> T i"
  shows "moves now T (sv_db sv) (sv_db (snd (claim_deliveries env token limit ms now sv)))"
proof (cases "ee_keyring env")
  case None
  then show ?thesis by (simp add: claim_deliveries_def moves_refl)
next
  case (Some kr)
  obtain cs sv' where claim: "claim_deliveries env token limit ms now sv = (cs, sv')"
    by (cases "claim_deliveries env token limit ms now sv")
  let ?db = "sv_db (purge_events now sv)"
  have ok: "store_ok ?db" using assms(1) by (rule store_ok_purge)
  have "moves now T ?db (sv_db sv')"
  proof (rule moves_single)
    fix i
    show "phase_of (row_of i (sv_db sv')) = phase_of (row_of i ?db)
        \<or> lifecycle now (T i) (phase_of (row_of i ?db)) (phase_of (row_of i (sv_db sv')))"
    proof (cases "i \<in> (\<lambda>r. dl_id (fst r)) ` set (due_rows now limit ?db)")
      case True
      then obtain d e s where r: "(d, e, s) \<in> set (due_rows now limit ?db)" "i = dl_id d" by auto
      then have d: "row_of i ?db = Some d" "due_at now d"
        using due_rows_in [OF r(1)] row_of_member [OF ok] by simp_all
      have "row_of i (sv_db sv') = Some (settled_row env kr (tb_host (sv_db sv)) token ms now (d, e, s))"
        using claim_exact(2) [OF assms(1) Some claim r(1)] r(2) by simp
      then show ?thesis
        using settled_row_lifecycle [OF row_of_ok [OF ok d(1)] d(2) assms(2,3), of token "T i"] assms(4) [of i] r(2) d(1) by simp
    next
      case False
      from claim_other [OF Some claim False] show ?thesis
        using abandoned_lifecycle [OF row_of_ok [OF ok]] unfolding left_or_abandoned_def by metis
    qed
  qed
  then show ?thesis using moves_trans [OF moves_purge [OF assms(1)]] by (simp add: claim)
qed

lemma moves_report_one:
  assumes "store_ok (snd acc)"
  shows "moves now T (snd acc) (snd (report_one now r acc))"
proof (cases "reported_row r (snd acc)")
  case (Some d)
  note d = reported_row_in [OF Some]
  have row: "row_of (dl_id d) (snd acc) = Some d" using d by (intro row_of_member [OF assms]) simp
  obtain u where "dl_lease_until d = Some u" "dl_completed d = None"
    using row_of_ok [OF assms row] d by (auto simp: delivery_ok_def)
  then have life: "lifecycle now (T i) (phase_of (Some d)) (phase_of (Some (reported_delivery r now d)))" for i
    using d by (simp add: reported_delivery_def final_attempt_def phase_of_def lease_of_def completed_def abandoned_def rescheduled_def
        delivered given_up not_le retried)
  show ?thesis
  proof (rule moves_single)
    fix i
    have step: "row_of i (snd (report_one now r acc)) = map_option (\<lambda>x. if dl_id x = dl_id d then reported_delivery r now x else x) (row_of i (snd acc))"
      by (simp add: report_one_def Some)
    show "phase_of (row_of i (snd (report_one now r acc))) = phase_of (row_of i (snd acc))
        \<or> lifecycle now (T i) (phase_of (row_of i (snd acc))) (phase_of (row_of i (snd (report_one now r acc))))"
    proof (cases "i = dl_id d")
      case True
      then show ?thesis using step row life [of i] by (simp del: row_of_update)
    next
      case False
      then have "row_of i (snd (report_one now r acc)) = row_of i (snd acc)"
        using row_of_in [of i "snd acc"] unfolding step by (cases "row_of i (snd acc)") auto
      then show ?thesis by (simp only: simp_thms)
    qed
  qed
qed (simp add: report_one_def moves_refl)

lemma moves_report:
  assumes "store_ok (sv_db sv)"
  shows "moves now T (sv_db sv) (sv_db (snd (report_deliveries results now sv)))"
proof -
  have "store_ok (snd acc) \<Longrightarrow> moves now T (snd acc) (snd (fold (report_one now) results acc))" for acc
  proof (induction results arbitrary: acc)
    case (Cons r results)
    then show ?case using moves_trans [OF moves_report_one Cons.IH [OF store_ok_report_one]] by simp
  qed (simp add: moves_refl)
  from this [of "(0, sv_db sv)"] show ?thesis
    using assms by (cases "fold (report_one now) results (0, sv_db sv)") (simp add: report_deliveries_def)
qed

section \<open>Every operation is a move\<close>

text \<open>The tokens an operation may hand out for a delivery.\<close>

definition tokens_of :: "event_op \<Rightarrow> string \<Rightarrow> string set" where
  "tokens_of op i = (case op of Request nonce token req \<Rightarrow> {token i} | _ \<Rightarrow> {})"

lemma row_of_subscribe: "subscribe env nonce prin inp now sv = Inr (ans, sv') \<Longrightarrow> row_of i (sv_db sv') = row_of i (sv_db sv)"
  by (erule subscribe_cases) auto

lemma moves_unsubscribe: "unsubscribe env prin inp sv = Inr (b, sv') \<Longrightarrow> store_ok (sv_db sv) \<Longrightarrow> moves now T (sv_db sv) (sv_db sv')"
  by (auto simp: unsubscribe_def guard_simps Let_def moves_delete moves_refl split: option.splits)

lemma row_of_reencrypt: "row_of i (snd (reencrypt_rows env kr nonce rows acc)) = row_of i (snd acc)"
  by (induction env kr nonce rows acc rule: reencrypt_rows.induct)
    (simp_all add: reencrypt_row_def Let_def split: sum.split)

lemma step_moves:
  assumes "store_ok (sv_db sv)"
  shows "moves now (tokens_of op) (sv_db sv) (sv_db (event_step env sha now op sv))"
proof (cases op)
  case (Request nonce token req)
  have "moves now (tokens_of op) (sv_db sv) (sv_db (snd (dispatch env nonce token now req sv)))" if "request_ok req"
  proof (cases req)
    case (EventsSubscribe prin inp)
    then show ?thesis
      by (auto simp: dispatch_state simp del: dispatch.simps split: sum.split intro!: moves_same_rows dest: row_of_subscribe)
  next
    case (EventsUnsubscribe prin inp)
    then show ?thesis
      using assms by (auto simp: dispatch_state moves_refl simp del: dispatch.simps split: sum.split intro: moves_unsubscribe)
  next
    case (EventsRevoke prin i)
    then show ?thesis
      using assms by (simp add: dispatch_state revoke_subscription_def move_intros split: option.split)
  next
    case (EventsClaim limit ms)
    then show ?thesis
      using that assms by (simp add: dispatch_state) (rule moves_claim; simp add: tokens_of_def Request)
  next
    case (EventsReport results)
    then show ?thesis using assms by (simp add: dispatch_state moves_report)
  qed (simp_all add: dispatch_state moves_refl del: dispatch.simps)
  then show ?thesis by (simp add: event_step_def Request execute_events_def moves_refl)
next
  case (Reencrypt kr nonce reached)
  then show ?thesis
    by (cases "reencrypt_rows env kr nonce (take reached (tb_subs (sv_db sv))) (0, sv_db sv)")
      (use row_of_reencrypt [of _ env kr nonce "take reached (tb_subs (sv_db sv))" "(0, sv_db sv)"] in
        \<open>auto simp: event_step_def reencrypt_subscriptions_def intro!: moves_same_rows\<close>)
qed (simp_all add: event_step_def move_intros moves_same_rows)

lemma event_run_Nil [simp]: "event_run env sha [] sv = sv"
  by (simp add: event_run_def)

lemma event_run_Cons [simp]: "event_run env sha ((now, op) # ops) sv = event_run env sha ops (event_step env sha now op sv)"
  by (simp add: event_run_def)

lemma store_ok_run: "store_ok (sv_db sv) \<Longrightarrow> store_ok (sv_db (event_run env sha ops sv))"
  by (induction ops arbitrary: sv) (auto simp: store_intros)

lemma store_ok_new [simp]: "store_ok (sv_db new_events)"
  by (simp add: new_events_def store_ok_def)

section \<open>How often a delivery is sent\<close>

text \<open>
  Two sends of one delivery are at least a second apart, the shortest lease, and none starts after the retry
  window; so a delivery is sent at most 900 times, whatever is reported.
\<close>

definition ready_at :: "int \<Rightarrow> (string \<times> int) option \<Rightarrow> int" where
  "ready_at due lease = (case lease of None \<Rightarrow> due | Some (_, u) \<Rightarrow> max due u)"

fun phase_inv :: "int \<Rightarrow> phase \<Rightarrow> bool" where
  "phase_inv now Gone = True"
| "phase_inv now (Open c n due lease) =
     (c \<le> now \<and> 0 \<le> n \<and> n \<le> 900 \<and> (n - 1) * 1000 \<le> now - c \<and> n * 1000 \<le> ready_at due lease - c)"
| "phase_inv now (Closed st n t) = (0 \<le> n \<and> n \<le> 900)"

lemma phase_inv_later: "phase_inv now p \<Longrightarrow> now \<le> now' \<Longrightarrow> phase_inv now' p"
  by (cases p) auto

lemma retry_delay_pos: "15000 \<le> retry_delay n"
proof -
  have "min n 4 - 1 < 0 \<or> min n 4 - 1 = 0 \<or> min n 4 - 1 = 1 \<or> min n 4 - 1 = 2 \<or> min n 4 - 1 = 3" by arith
  then show ?thesis by (auto simp: retry_delay_def retry_delays_def Let_def)
qed

lemma phase_inv_step: "lifecycle now toks p q \<Longrightarrow> phase_inv now p \<Longrightarrow> phase_inv now q"
proof (induction rule: lifecycle.induct)
  case (sent due lease n c ms tok)
  have ready: "ready_at due lease \<le> now"
    using sent.hyps(1,2) by (auto simp: ready_at_def lease_over_def split: option.splits)
  then have "n * 1000 \<le> now - c" using sent.prems by simp
  moreover from this have "n < 900" using sent.hyps(3) by (auto simp: retry_window_def)
  ultimately show ?case using sent by (auto simp: ready_at_def max_def)
next
  case (retried n c due l)
  then show ?case using retry_delay_pos [of n] by (auto simp: ready_at_def)
qed (auto simp: ready_at_def)

lemma phase_inv_steps: "(lifecycle now toks)\<^sup>*\<^sup>* p q \<Longrightarrow> phase_inv now p \<Longrightarrow> phase_inv now q"
  by (induction rule: rtranclp_induct) (auto intro: phase_inv_step)

lemma run_phase_inv:
  "store_ok (sv_db sv) \<Longrightarrow> phase_inv t (phase_of (row_of i (sv_db sv))) \<Longrightarrow> sorted (t # map fst ops)
    \<Longrightarrow> phase_inv (last (t # map fst ops)) (phase_of (row_of i (sv_db (event_run env sha ops sv))))"
proof (induction ops arbitrary: t sv)
  case (Cons x ops)
  obtain now op where x: "x = (now, op)" by (cases x)
  have "phase_inv now (phase_of (row_of i (sv_db sv)))"
    using Cons.prems(2,3) by (auto simp: x intro: phase_inv_later)
  then have "phase_inv now (phase_of (row_of i (sv_db (event_step env sha now op sv))))"
    using step_moves [OF Cons.prems(1), of now op env sha] phase_inv_steps unfolding moves_def by blast
  then show ?case using Cons.IH [of "event_step env sha now op sv" now] Cons.prems by (simp add: x store_ok_step)
qed simp

section \<open>Lease tokens\<close>

fun holds_token :: "string \<Rightarrow> phase \<Rightarrow> bool" where
  "holds_token tok (Open c n due (Some (t, u))) = (t = tok)"
| "holds_token tok _ = False"

lemma holds_token_step: "lifecycle now toks p q \<Longrightarrow> tok \<notin> toks \<Longrightarrow> holds_token tok q \<Longrightarrow> holds_token tok p"
  by (induction rule: lifecycle.induct) auto

lemma holds_token_steps: "(lifecycle now toks)\<^sup>*\<^sup>* p q \<Longrightarrow> tok \<notin> toks \<Longrightarrow> holds_token tok q \<Longrightarrow> holds_token tok p"
  by (induction rule: rtranclp_induct) (auto dest: holds_token_step)

lemma run_holds_token:
  "store_ok (sv_db sv) \<Longrightarrow> \<forall>(now, op) \<in> set ops. tok \<notin> tokens_of op i
    \<Longrightarrow> holds_token tok (phase_of (row_of i (sv_db (event_run env sha ops sv)))) \<Longrightarrow> holds_token tok (phase_of (row_of i (sv_db sv)))"
proof (induction ops arbitrary: sv)
  case (Cons x ops)
  obtain now op where x: "x = (now, op)" by (cases x)
  have "holds_token tok (phase_of (row_of i (sv_db (event_step env sha now op sv))))"
    using Cons by (simp add: x store_ok_step)
  then show ?case
    using step_moves [OF Cons.prems(1), of now op env sha] holds_token_steps Cons.prems(2) unfolding moves_def x by fastforce
qed simp

lemma reported_row_holds:
  assumes "store_ok db" "reported_row r db = Some d"
  shows "holds_token (rp_token r) (phase_of (row_of (rp_delivery r) db))"
proof -
  note d = reported_row_in [OF assms(2)]
  have row: "row_of (rp_delivery r) db = Some d" using row_of_member [OF assms(1), of d] d by simp
  obtain u where "dl_lease_until d = Some u" "dl_completed d = None"
    using row_of_ok [OF assms(1) row] d by (auto simp: delivery_ok_def)
  then show ?thesis using row d by (simp add: phase_of_def lease_of_def)
qed

end
