(* ===== verification/EventTheorems.thy ===== *)
theory EventTheorems
  imports EventRefinement
begin

text \<open>
  The properties of MCP Events: what is emitted, who receives it, how often, under which lease, and which secret
  signs it.
\<close>

section \<open>A sample component\<close>

definition sample_keyring :: secret_keyring where
  "sample_keyring = \<lparr>kr_active = 1, kr_keys = [(1, replicate 32 CHR ''k'')]\<rparr>"

definition sample_env :: event_env where
  "sample_env = \<lparr>ee_hash = (\<lambda>_. ''0''), ee_bytes = (\<lambda>_. 100), ee_origin = (\<lambda>_. None), ee_aead = spelled_aead,
     ee_keyring = Some sample_keyring\<rparr>"

definition sample_task :: task_row where
  "sample_task = \<lparr>tk_id = ''t'', tk_workspace = ''w'', tk_owner = ''p'', tk_status = ''SUCCEEDED'', tk_exit = Some 0,
     tk_error = None, tk_finished = Some 5\<rparr>"

definition sample_host :: host_tables where
  "sample_host = \<lparr>ht_workspaces = [], ht_tasks = [sample_task], ht_agents = [], ht_api_keys = None\<rparr>"

definition sample_secret :: string where
  "sample_secret = ''whsec_'' @ replicate 32 CHR ''A''"

definition sample_input :: subscribe_input where
  "sample_input = \<lparr>sk_name = TaskCompleted, sk_args = [], sk_url = ''u'', si_secret = sample_secret, si_ttl = None, si_key = None, si_verified = True\<rparr>"

definition sample_events :: event_service where
  "sample_events = set_db ((sv_db new_events)\<lparr>tb_host := sample_host\<rparr>) new_events"

definition sample_subscribed :: event_service where
  "sample_subscribed = (case subscribe sample_env ''n'' ''p'' sample_input 10 sample_events of Inr (a, sv) \<Rightarrow> sv | Inl _ \<Rightarrow> sample_events)"

lemma sample_events_ok [simp]: "store_ok (sv_db sample_events)"
  by (simp add: sample_events_def new_events_def store_ok_def)

lemma sample_admit: "admit_subscription sample_env ''p'' sample_input 10 (sv_db sample_events) = Inr (''sub_0'', JObj [])"
  by (simp add: admit_subscription_def validated_arguments_def sample_input_def filter_text_def owns_or_unset_def
      order_by_def field_def sample_events_def new_events_def Let_def mcp_events_limits_def subscription_id_for_def sample_env_def)

definition sample_subscription :: subscription where
  "sample_subscription = new_subscription ''sub_0'' ''p'' sample_input (JObj [])
     (seal_secret sample_env sample_keyring ''n'' ''p'' ''sub_0'' 1 sample_secret) 86400010 10"

lemma sample_subscribe:
  "\<exists>a. subscribe sample_env ''n'' ''p'' sample_input 10 sample_events = Inr (a, sample_subscribed) \<and> an_id a = ''sub_0''"
  "tb_subs (sv_db sample_subscribed) = [sample_subscription]"
  "tb_events (sv_db sample_subscribed) = []" "tb_deliveries (sv_db sample_subscribed) = []"
  "tb_host (sv_db sample_subscribed) = sample_host"
  using sample_admit
  by (simp_all add: sample_subscribed_def subscribe_def sample_env_def Let_def subscription_row_def sample_input_def ttl_of_def
      mcp_events_limits_def sample_events_def new_events_def sample_subscription_def)

lemma sample_subscribed_ok [simp]: "store_ok (sv_db sample_subscribed)"
  using sample_subscribe(1) store_ok_subscribe sample_events_ok by blast

section \<open>Every state\<close>

text \<open>
  C15: The event tables keep their constraints. Over any run of emissions, requests, purges and re-encryptions,
  ids and source keys are unique, one delivery exists per event and subscription, references resolve, a lease
  belongs to a pending, attempted delivery, and a revoked subscription keeps no previous secret.
\<close>

theorem event_store_sound: "store_ok (sv_db (event_run env sha ops new_events))"
  by (rule store_ok_run) simp

text \<open>
  C16: Every operation moves each delivery along its life cycle. In every reachable state an operation changes a
  delivery only by queueing it, sending it under a fresh lease when it is due, its lease is over and its retry
  window is open, closing or rescheduling it under a lease, giving it up, or removing it.
\<close>

theorem delivery_lifecycle_refined:
  "(lifecycle now (tokens_of op i))\<^sup>*\<^sup>* (phase_of (row_of i (sv_db (event_run env sha ops new_events))))
     (phase_of (row_of i (sv_db (event_step env sha now op (event_run env sha ops new_events)))))"
proof -
  have "store_ok (sv_db (event_run env sha ops new_events))" by (rule store_ok_run) simp
  from step_moves [OF this] show ?thesis unfolding moves_def by blast
qed

text \<open>
  C17: The delivery loop ends. While the clock does not run backwards, no delivery is ever sent more than 900
  times: leases last at least a second and none is taken after the fifteen minutes of the retry window, however
  many attempts crash before they are reported.
\<close>

theorem delivery_sends_bounded:
  assumes "sorted (map fst ops)" "d \<in> set (tb_deliveries (sv_db (event_run env sha ops new_events)))"
  shows "0 \<le> dl_attempts d \<and> dl_attempts d \<le> 900"
proof -
  let ?t = "case ops of [] \<Rightarrow> 0 | x # _ \<Rightarrow> fst x"
  have ok: "store_ok (sv_db (event_run env sha ops new_events))" by (rule store_ok_run) simp
  have "sorted (?t # map fst ops)" using assms(1) by (cases ops) auto
  moreover have "phase_inv ?t (phase_of (row_of (dl_id d) (sv_db new_events)))"
    by (simp add: new_events_def row_of_def phase_of_def)
  ultimately have "phase_inv (last (?t # map fst ops)) (phase_of (row_of (dl_id d) (sv_db (event_run env sha ops new_events))))"
    by (intro run_phase_inv) simp_all
  then show ?thesis
    using row_of_member [OF ok assms(2)] by (auto simp: phase_of_def split: option.splits)
qed

section \<open>Leases\<close>

text \<open>
  A stale lease reports nothing. Once a delivery is not held under a lease token, and the token is not drawn
  for it again, a report with that token is ignored after any run, so it never overwrites a newer attempt.
\<close>

theorem stale_report_ignored:
  assumes "store_ok (sv_db sv)"
    and "\<forall>d \<in> set (tb_deliveries (sv_db sv)). dl_id d = rp_delivery r \<longrightarrow> dl_lease_token d \<noteq> Some (rp_token r)"
    and "\<forall>(now, op) \<in> set ops. rp_token r \<notin> tokens_of op (rp_delivery r)"
  shows "report_deliveries [r] later (event_run env sha ops sv) = (0, event_run env sha ops sv)"
proof -
  let ?sv = "event_run env sha ops sv"
  have ok: "store_ok (sv_db ?sv)" using assms(1) by (rule store_ok_run)
  have "\<not> holds_token (rp_token r) (phase_of (row_of (rp_delivery r) (sv_db sv)))"
    using assms(2) row_of_in [of "rp_delivery r" "sv_db sv"]
    by (auto simp: phase_of_def lease_of_def split: option.split)
  then have "\<not> holds_token (rp_token r) (phase_of (row_of (rp_delivery r) (sv_db ?sv)))"
    using run_holds_token [OF assms(1,3)] by blast
  then have "reported_row r (sv_db ?sv) = None"
    using reported_row_holds [OF ok] by (cases "reported_row r (sv_db ?sv)") auto
  then show ?thesis by (simp add: report_deliveries_def report_one_def set_db_def)
qed

lemma purge_tables:
  "set (tb_deliveries (sv_db (purge_events now sv))) \<subseteq> set (tb_deliveries (sv_db sv))"
  "set (tb_subs (sv_db (purge_events now sv))) \<subseteq> set (tb_subs (sv_db sv))"
  "set (tb_events (sv_db (purge_events now sv))) \<subseteq> set (tb_events (sv_db sv))"
  by (auto simp: purge_events_def Let_def delete_subs_def delete_events_def)

lemma length_filter_filter: "length (filter p (filter q xs)) \<le> length (filter p xs)"
  by (induction xs) auto

lemma purge_filters: "\<exists>q. tb_deliveries (sv_db (purge_events now sv)) = filter q (tb_deliveries (sv_db sv))"
proof (cases "now - sv_last_purge sv < purge_interval")
  case True
  then show ?thesis by (intro exI [of _ "\<lambda>_. True"]) (simp add: purge_events_def)
next
  case False
  then show ?thesis
    by (simp add: purge_events_def Let_def delete_subs_def delete_events_def) (rule exI, rule refl)
qed

lemma purge_due_length: "length (filter p (tb_deliveries (sv_db (purge_events now sv)))) \<le> length (filter p (tb_deliveries (sv_db sv)))"
  using purge_filters [of now sv] length_filter_filter by fastforce

lemma due_join_length: "length (concat (map (joined db) ds)) \<le> length ds"
proof (induction ds)
  case (Cons d ds)
  then show ?case using joined_cases [of db d] by auto
qed simp

text \<open>
  C18: Only deliverable events are handed out. Every delivery a claim returns was due and unleased, within its
  retry window, for an active, unexpired subscription whose API key is active; it carries the event's own body
  and at least one signing secret, and its row now holds exactly the returned token for the lease.
\<close>

theorem claim_hands_out_due:
  assumes "store_ok (sv_db sv)" "ee_keyring env = Some kr" "claim_deliveries env token limit lease_ms now sv = (cs, sv')" "c \<in> set cs"
  shows "\<exists>d e s. d \<in> set (tb_deliveries (sv_db sv)) \<and> e \<in> set (tb_events (sv_db sv)) \<and> s \<in> set (tb_subs (sv_db sv))
     \<and> dl_id d = cl_delivery c \<and> dl_event d = ev_id e \<and> dl_sub d = es_id s \<and> due_at now d
     \<and> (dl_attempts d = 0 \<or> now < dl_created d + retry_window)
     \<and> active_at now s \<and> key_ok s now (tb_host (sv_db sv))
     \<and> cl_url c = es_url s \<and> cl_body c = event_body e
     \<and> cl_secrets c = usable_secrets env kr s now \<and> 0 < length (cl_secrets c)
     \<and> row_of (cl_delivery c) (sv_db sv') = Some (leased (cl_token c) (now + lease_ms) now d)"
proof -
  let ?rows = "due_rows now limit (sv_db (purge_events now sv))" and ?host = "tb_host (sv_db sv)"
  have "c \<in> set (map (handed env kr token now) (filter (\<lambda>r. claim_refusal env kr ?host now r = None) ?rows))"
    using assms(4) claim_exact(1) [OF assms(1,2,3)] by simp
  then obtain d e s where row: "(d, e, s) \<in> set ?rows" and send: "claim_refusal env kr ?host now (d, e, s) = None"
    and c: "c = handed env kr token now (d, e, s)"
    by auto
  have after: "row_of (dl_id d) (sv_db sv') = Some (leased (token (dl_id d)) (now + lease_ms) now d)"
    using claim_exact(2) [OF assms(1,2,3) row] send by (simp add: settled_row_def)
  have "delivery_ok d"
    using assms(1) due_rows_in [OF row] purge_tables(1) [of now sv] by (auto simp: store_ok_def list_all_iff)
  then have "dl_attempts d = 0 \<or> now < dl_created d + retry_window"
    using send by (auto simp: claim_refusal_def delivery_ok_def split: if_splits)
  then show ?thesis
    using due_rows_in [OF row] due_rows_sub [OF row] purge_tables [of now sv] send after
    by (intro exI [of _ d] exI [of _ e] exI [of _ s]) (auto simp: c handed_def claim_refusal_def split: if_splits)
qed

text \<open>
  C19: A claim makes progress. When the due deliveries fit the batch, none is due after the claim: each was
  leased or given up, so a delivery that cannot be sent never blocks the queue.
\<close>

theorem claim_drains_due:
  assumes "store_ok (sv_db sv)" "ee_keyring env = Some kr" "0 < lease_ms"
    and "length (filter (due_at now) (tb_deliveries (sv_db sv))) \<le> limit"
  shows "filter (due_at now) (tb_deliveries (sv_db (snd (claim_deliveries env token limit lease_ms now sv)))) = []"
proof -
  obtain cs sv' where claim: "claim_deliveries env token limit lease_ms now sv = (cs, sv')"
    by (cases "claim_deliveries env token limit lease_ms now sv")
  let ?db = "sv_db (purge_events now sv)"
  let ?rows = "due_rows now limit ?db"
  have ok: "store_ok ?db" "store_ok (sv_db sv')"
    using store_ok_purge [OF assms(1)] store_ok_claim [OF assms(1), of env token limit lease_ms now] by (simp_all add: claim)
  have "False" if d': "d' \<in> set (tb_deliveries (sv_db sv'))" "due_at now d'" for d'
  proof (cases "dl_id d' \<in> (\<lambda>r. dl_id (fst r)) ` set ?rows")
    case True
    then obtain r where r: "r \<in> set ?rows" "dl_id (fst r) = dl_id d'" by auto
    have "d' = settled_row env kr (tb_host (sv_db sv)) token lease_ms now r"
      using claim_exact(2) [OF assms(1,2) claim r(1)] row_of_member [OF ok(2) d'(1)] r(2) by simp
    then show False
      using d'(2) assms(3) by (auto simp: settled_row_def due_at_def leased_def abandoned_def split: option.splits)
  next
    case False
    from claim_other [OF assms(2) claim False] row_of_member [OF ok(2) d'(1)] d'(2)
    have here: "row_of (dl_id d') ?db = Some d'"
      by (auto simp: left_or_abandoned_def due_at_def abandoned_def)
    then have mem: "d' \<in> set (tb_deliveries ?db)" using row_of_in by blast
    then obtain e s where "joined ?db d' = [(d', e, s)]"
      using joined_cases [of ?db d'] joined_refers [OF ok(1) mem] by blast
    then have "(d', e, s) \<in> set (concat (map (joined ?db) (filter (due_at now) (tb_deliveries ?db))))"
      using mem d'(2) by auto
    moreover have "length (concat (map (joined ?db) (filter (due_at now) (tb_deliveries ?db)))) \<le> limit"
      using assms(4) due_join_length [of ?db "filter (due_at now) (tb_deliveries ?db)"] purge_due_length [of "due_at now" now sv] by linarith
    ultimately have "(d', e, s) \<in> set ?rows" by (simp add: due_rows_def)
    then show False using False by force
  qed
  then show ?thesis by (auto simp: claim filter_empty_conv)
qed

section \<open>Emission\<close>

lemma insert_delivery_fresh:
  "\<forall>x \<in> set (tb_deliveries db). dl_id x \<noteq> dl_id d \<and> (dl_event x = dl_event d \<longrightarrow> dl_sub x \<noteq> dl_sub d)
     \<Longrightarrow> insert_delivery d db = db\<lparr>tb_deliveries := tb_deliveries db @ [d]\<rparr>"
  by (auto simp: insert_delivery_def list_ex_iff)

lemma insert_deliveries_new:
  assumes "distinct ss" "inj_on f (set ss)" "inj_on g (set ss)"
    and "\<And>s x. s \<in> set ss \<Longrightarrow> x \<in> set (tb_deliveries db) \<Longrightarrow> dl_id x \<noteq> f s \<and> dl_event x \<noteq> i"
  shows "fold (\<lambda>s. insert_delivery (new_delivery (f s) i (g s) now)) ss db
    = db\<lparr>tb_deliveries := tb_deliveries db @ map (\<lambda>s. new_delivery (f s) i (g s) now) ss\<rparr>"
  using assms
proof (induction ss rule: rev_induct)
  case (snoc s ss)
  have "fold (\<lambda>s. insert_delivery (new_delivery (f s) i (g s) now)) ss db
      = db\<lparr>tb_deliveries := tb_deliveries db @ map (\<lambda>s. new_delivery (f s) i (g s) now) ss\<rparr>"
    using snoc.prems by (intro snoc.IH) (auto simp: inj_on_def)
  moreover have "f s \<notin> f ` set ss" "g s \<notin> g ` set ss"
    using snoc.prems(1-3) by (auto simp: inj_on_def)
  then have "\<forall>x \<in> set (tb_deliveries db @ map (\<lambda>s. new_delivery (f s) i (g s) now) ss). dl_id x \<noteq> f s \<and> (dl_event x = i \<longrightarrow> dl_sub x \<noteq> g s)"
    using snoc.prems(4) [of s] by (auto intro: rev_image_eqI)
  ultimately show ?case
    using insert_delivery_fresh [of "db\<lparr>tb_deliveries := tb_deliveries db @ map (\<lambda>s. new_delivery (f s) i (g s) now) ss\<rparr>"
        "new_delivery (f s) i (g s) now"]
    by simp
qed simp

lemma recipients_distinct: "store_ok db \<Longrightarrow> distinct (recipients owner nm payload now db) \<and> inj_on es_id (set (recipients owner nm payload now db))"
  by (auto simp: store_ok_def recipients_def distinct_map inj_on_def)

lemma record_event_again:
  "event_present (event_id_for_source sha source) source db \<Longrightarrow> record_event sha draw owner source nm occurred payload now db = db"
  by (simp add: record_event_def Let_def)

text \<open>
  C20: A finished task is announced once. When a task in a terminal status has matching active subscriptions and
  its event is new, emission appends one event and exactly one pending delivery per matching subscription of the
  task's owner, and emitting again, at any later time and with any fresh ids, changes nothing.
\<close>

theorem task_event_emitted_once:
  fixes sha draw again :: "string \<Rightarrow> string" and now later :: int
  assumes "store_ok db" "find (\<lambda>r. tk_id r = task) (ht_tasks (tb_host db)) = Some row" "is_terminal_task_status (Some (tk_status row))"
  defines "i \<equiv> event_id_for_source sha (task_source task)"
    and "nm \<equiv> (if tk_status row = ''SUCCEEDED'' then TaskCompleted else TaskFailed)"
    and "occurred \<equiv> or_now (tk_finished row) now"
  defines "to \<equiv> recipients (tk_owner row) nm (task_payload row occurred) now db"
    and "db' \<equiv> emit_task_terminal sha draw task now db"
  assumes "0 < length to" "\<not> event_present i (task_source task) db"
    and "inj_on draw (es_id ` set to)" "draw ` es_id ` set to \<inter> dl_id ` set (tb_deliveries db) = {}"
  shows "tb_events db' = tb_events db @ [\<lparr>ev_id = i, ev_owner = tk_owner row, ev_source = task_source task, ev_name = nm,
        ev_occurred = occurred, ev_payload = task_payload row occurred, ev_created = now\<rparr>]
    \<and> tb_deliveries db' = tb_deliveries db @ map (\<lambda>s. new_delivery (draw (es_id s)) i (es_id s) now) to
    \<and> tb_subs db' = tb_subs db
    \<and> emit_task_terminal sha again task later db' = db'"
proof -
  have row: "tk_id row = task" using find_some [OF assms(2)] by simp
  let ?db = "db\<lparr>tb_events := tb_events db @ [\<lparr>ev_id = i, ev_owner = tk_owner row, ev_source = task_source task, ev_name = nm,
        ev_occurred = occurred, ev_payload = task_payload row occurred, ev_created = now\<rparr>]\<rparr>"
  have fresh: "dl_event x \<noteq> i" if x: "x \<in> set (tb_deliveries db)" for x
  proof -
    have "refers db x" using assms(1) x by (simp add: store_ok_def list_all_iff)
    then obtain e where "e \<in> set (tb_events db)" "ev_id e = dl_event x" by (auto simp: refers_def)
    then show ?thesis using assms(10) by (auto simp: event_present_def list_ex_iff)
  qed
  have "distinct to" "inj_on es_id (set to)" using recipients_distinct [OF assms(1)] by (simp_all add: to_def)
  then have ins: "fold (\<lambda>s. insert_delivery (new_delivery (draw (es_id s)) i (es_id s) now)) to ?db
      = ?db\<lparr>tb_deliveries := tb_deliveries ?db @ map (\<lambda>s. new_delivery (draw (es_id s)) i (es_id s) now) to\<rparr>"
    using assms(11,12) fresh by (intro insert_deliveries_new) (auto simp: comp_inj_on [unfolded comp_def])
  have new: "db' = ?db\<lparr>tb_deliveries := tb_deliveries ?db @ map (\<lambda>s. new_delivery (draw (es_id s)) i (es_id s) now) to\<rparr>"
    using assms(3,9,10) ins
    by (auto simp: db'_def emit_task_terminal_def assms(2) row record_event_def Let_def to_def i_def nm_def occurred_def)
  have "emit_task_terminal sha again task later db' = db'"
    using assms(2) by (simp add: emit_task_terminal_def new record_event_again row i_def event_present_def)
  then show ?thesis by (simp add: new)
qed

section \<open>Signing secrets\<close>

lemma decrypted_extends: "decrypted g kr e c = Some p \<Longrightarrow> keyring_extends kr kr' \<Longrightarrow> decrypted g kr' e c = Some p"
  by (auto simp: decrypted_def decrypt_def keyring_extends_def split: option.splits sum.splits)

lemma ttl_of_bounds: "60000 \<le> ttl_of t \<and> ttl_of t \<le> 86400000"
  by (auto simp: ttl_of_def mcp_events_limits_def split: option.split)

lemma unseal_seal: "aead_ok (ee_aead env) \<Longrightarrow> keyring_ok kr \<Longrightarrow> keyring_extends kr kr'
    \<Longrightarrow> unseal_secret env kr' prin i (Some (seal_secret env kr nonce prin i gen secret)) = Some secret"
  by (simp add: unseal_secret_def seal_secret_def decrypted_def decrypt_encrypt)

lemma usable_secrets_first:
  "unseal_secret env kr (es_owner s) (es_id s) (es_secret s) = Some p
     \<Longrightarrow> \<exists>rest. usable_secrets env kr s now = p # rest \<and> length rest \<le> 1"
  by (auto simp: usable_secrets_def map_filter_def split: option.split)

text \<open>
  C21: The secret a client subscribed with signs its deliveries. After a successful subscription the stored row
  is active, and under the keyring it was sealed with or any later one that keeps its keys, the first signing
  secret is the plaintext the client sent, with at most one previous secret beside it.
\<close>

theorem subscribed_secret_signs:
  assumes "store_ok (sv_db sv)" "aead_ok (ee_aead env)" "ee_keyring env = Some kr" "keyring_ok kr" "keyring_extends kr kr'"
    and "subscribe env nonce prin inp now sv = Inr (ans, sv')"
  shows "\<exists>row rest. subscription_row prin (an_id ans) (sv_db sv') = Some row \<and> active_at now row
     \<and> usable_secrets env kr' row t = si_secret inp # rest \<and> length rest \<le> 1"
  using assms(6)
proof (cases rule: subscribe_cases)
  case (new kr2 args db)
  let ?row = "new_subscription (an_id ans) prin inp args (seal_secret env kr nonce prin (an_id ans) 1 (si_secret inp)) (now + ttl_of (si_ttl inp)) now"
  have "find (\<lambda>s. es_owner s = prin \<and> es_id s = an_id ans) (tb_subs db) = None"
    using new(5) by (auto simp: find_None_iff intro: rev_image_eqI)
  then have "subscription_row prin (an_id ans) (sv_db sv') = Some ?row"
    using new(1) assms(3) by (simp add: new(3) subscription_row_def find_append new_subscription_def)
  moreover have "active_at now ?row"
    using ttl_of_bounds [of "si_ttl inp"] by (simp add: active_at_def new_subscription_def)
  moreover have "unseal_secret env kr' (es_owner ?row) (es_id ?row) (es_secret ?row) = Some (si_secret inp)"
    using unseal_seal [OF assms(2,4,5)] by (simp add: new_subscription_def)
  ultimately show ?thesis using usable_secrets_first by blast
next
  case (refresh kr2 args db old)
  let ?rs = "refresh_secret env kr nonce prin (an_id ans) inp old now"
  let ?row = "refreshed_row inp ?rs (now + ttl_of (si_ttl inp)) now old"
  have kr2: "kr2 = kr" using refresh(1) assms(3) by simp
  have "subscription_row prin (an_id ans) (sv_db sv') = map_option (\<lambda>s. if es_owner s = prin \<and> es_id s = an_id ans
      then refreshed_row inp ?rs (now + ttl_of (si_ttl inp)) now s else s) (subscription_row prin (an_id ans) db)"
    using find_update [of "\<lambda>s. (es_owner s, es_id s)" "refreshed_row inp ?rs (now + ttl_of (si_ttl inp)) now" "(prin, an_id ans)"]
    by (simp add: refresh(4) subscription_row_def kr2)
  then have "subscription_row prin (an_id ans) (sv_db sv') = Some ?row"
    using subscription_row_in [OF refresh(3)] by (simp add: refresh(3))
  moreover have "active_at now ?row"
    using ttl_of_bounds [of "si_ttl inp"] by (simp add: active_at_def refreshed_row_def Let_def)
  moreover have "unseal_secret env kr' (es_owner ?row) (es_id ?row) (es_secret ?row) = Some (si_secret inp)"
  proof (cases "rs_rotated ?rs")
    case True
    then show ?thesis
      using unseal_seal [OF assms(2,4,5)] subscription_row_in [OF refresh(3)]
      by (simp add: refreshed_row_def refresh_secret_def Let_def split: if_splits)
  next
    case False
    then have "unseal_secret env kr prin (an_id ans) (es_secret old) = Some (si_secret inp)" "es_secret ?row = es_secret old"
      by (simp_all add: refresh_secret_def refreshed_row_def Let_def split: if_splits)
    then show ?thesis
      using decrypted_extends [OF _ assms(5)] subscription_row_in [OF refresh(3)]
      by (auto simp: unseal_secret_def split: option.splits)
  qed
  ultimately show ?thesis using usable_secrets_first by blast
qed

section \<open>Limits\<close>

definition owned :: "string \<Rightarrow> event_db \<Rightarrow> nat" where
  "owned prin db = length (filter (\<lambda>s. es_owner s = prin) (tb_subs db))"

lemma owned_update: "(\<And>s. es_owner (f s) = es_owner s) \<Longrightarrow> owned prin (update_subs p f db) = owned prin db"
proof -
  assume "\<And>s. es_owner (f s) = es_owner s"
  then have "length (filter (\<lambda>s. es_owner s = prin) (map (\<lambda>s. if p s then f s else s) ss)) = length (filter (\<lambda>s. es_owner s = prin) ss)" for ss
    by (induction ss) auto
  then show ?thesis by (simp add: owned_def)
qed

lemma owned_delete: "owned prin (delete_subs p db) \<le> owned prin db"
  unfolding owned_def delete_subs_def by (simp add: length_filter_filter [of _ "\<lambda>x. \<not> p x", simplified])

lemma owned_delete_le: "owned prin db \<le> n \<Longrightarrow> owned prin (delete_subs p db) \<le> n"
  using owned_delete [of prin p db] by linarith

lemma owned_deliveries [simp]: "owned prin (update_deliveries p f db) = owned prin db"
  by (simp add: owned_def)

lemma owned_same: "tb_subs db' = tb_subs db \<Longrightarrow> owned prin db' = owned prin db"
  by (simp add: owned_def)

lemma owned_revoke [simp]: "owned prin (revoke_in_transaction i now reason db) = owned prin db"
  unfolding revoke_in_transaction_def by (simp add: owned_update)

lemma owned_claim_row: "owned prin (sv_db (cs_service (claim_row env kr token lease_ms now row st))) = owned prin (sv_db (cs_service st))"
proof -
  obtain d e s where r: "row = (d, e, s)" by (cases row)
  obtain b sv where ku: "key_usable s now (cs_service st) = (b, sv)" by (cases "key_usable s now (cs_service st)")
  have "sv_db sv = sv_db (cs_service st)"
    using key_usable_snd [of s now "cs_service st"] by (simp add: ku)
  then show ?thesis
    by (simp add: r claim_row_def lease_row_def claim_abandon_def ku Let_def abandon_def)
qed

lemma owned_claim_rows: "owned prin (sv_db (cs_service (fold (claim_row env kr token lease_ms now) rows st))) = owned prin (sv_db (cs_service st))"
  by (induction rows arbitrary: st) (simp_all add: owned_claim_row)

lemma owned_purge: "owned prin (sv_db (purge_events now sv)) \<le> owned prin (sv_db sv)"
proof -
  have "owned prin ((delete_subs q (delete_events p (db\<lparr>tb_deliveries := ds\<rparr>)))\<lparr>tb_verified := v\<rparr>) \<le> owned prin db" for p q db ds v
    using owned_delete [of prin q "delete_events p (db\<lparr>tb_deliveries := ds\<rparr>)"] by (simp add: owned_def delete_events_def)
  then show ?thesis by (simp add: purge_events_def Let_def)
qed

lemma owned_report: "owned prin (snd (fold (report_one now) results acc)) = owned prin (snd acc)"
  by (induction results arbitrary: acc)
    (simp_all add: report_one_def owned_update reported_subscription_def split: option.split)

lemma owned_record_event: "owned p (record_event sha draw owner source nm occurred payload now db) = owned p db"
  by (simp add: record_event_def Let_def owned_def)

lemma owned_reencrypt: "owned p (snd (reencrypt_rows env kr nonce rows acc)) = owned p (snd acc)"
  by (induction env kr nonce rows acc rule: reencrypt_rows.induct)
    (simp_all add: reencrypt_row_def Let_def owned_update split: sum.split)

lemma admit_limits: "admit_subscription env prin inp now db = Inr (i, args)
    \<Longrightarrow> length (filter (\<lambda>s. es_owner s = prin \<and> es_id s \<noteq> i) (tb_subs db)) < 1000"
  by (auto simp: admit_subscription_def Let_def guard_simps mcp_events_limits_def)

lemma owned_subscribe:
  assumes "subscribe env nonce prin inp now sv = Inr (ans, sv')" "owned p (sv_db sv) \<le> 1000"
  shows "owned p (sv_db sv') \<le> 1000"
  using assms(1)
proof (cases rule: subscribe_cases)
  case (new kr args db)
  have "\<And>s. s \<in> set (tb_subs db) \<Longrightarrow> es_id s \<noteq> an_id ans" using new(5) by (auto intro: rev_image_eqI)
  then have "filter (\<lambda>s. es_owner s = prin \<and> es_id s \<noteq> an_id ans) (tb_subs db) = filter (\<lambda>s. es_owner s = prin) (tb_subs db)"
    by (intro filter_cong) auto
  moreover have "tb_subs db = tb_subs (sv_db sv)" using new(4) by auto
  ultimately have "owned prin db < 1000" "owned p db \<le> 1000"
    using admit_limits [OF new(2)] assms(2) by (auto simp: owned_def)
  then show ?thesis by (cases "p = prin") (simp_all add: new(3) owned_def new_subscription_def)
next
  case (refresh kr args db old)
  have "tb_subs db = tb_subs (sv_db sv)" using refresh(5) by auto
  then show ?thesis using assms(2) by (simp add: refresh(4) owned_update owned_same [of db])
qed

lemma owned_step:
  assumes "owned p (sv_db sv) \<le> 1000"
  shows "owned p (sv_db (event_step env sha now op sv)) \<le> 1000"
proof (cases op)
  case (Request nonce token req)
  have "owned p (sv_db (snd (dispatch env nonce token now req sv))) \<le> 1000"
  proof (cases req)
    case (EventsSubscribe prin inp)
    then show ?thesis
      using assms by (auto simp: dispatch_state simp del: dispatch.simps split: sum.split dest: owned_subscribe)
  next
    case (EventsUnsubscribe prin inp)
    then show ?thesis
      using assms
      by (auto simp: dispatch_state unsubscribe_def Let_def guard_simps owned_delete_le simp del: dispatch.simps split: sum.split option.splits)
  next
    case (EventsClaim limit ms)
    then show ?thesis
      using order_trans [OF owned_purge assms]
      by (auto simp: dispatch_state claim_deliveries_def Let_def owned_claim_rows assms simp del: dispatch.simps split: option.split)
  next
    case (EventsReport results)
    then show ?thesis
      using assms owned_report [of p now results "(0, sv_db sv)"]
      by (cases "fold (report_one now) results (0, sv_db sv)") (simp add: dispatch_state report_deliveries_def del: dispatch.simps)
  qed (use assms in \<open>simp_all add: dispatch_state revoke_subscription_def del: dispatch.simps split: option.split\<close>)
  then show ?thesis using assms by (simp add: event_step_def Request execute_events_def)
next
  case (Reencrypt kr nonce reached)
  then show ?thesis
    using assms owned_reencrypt [of p env kr nonce "take reached (tb_subs (sv_db sv))" "(0, sv_db sv)"]
    by (cases "reencrypt_rows env kr nonce (take reached (tb_subs (sv_db sv))) (0, sv_db sv)")
      (simp add: event_step_def reencrypt_subscriptions_def)
qed (use assms in \<open>simp_all add: event_step_def emit_task_terminal_def emit_agent_terminal_def owned_record_event owned_same [of "_\<lparr>tb_host := _\<rparr>"]
    split: option.split\<close>)

text \<open>
  Stored subscriptions are bounded. In every reachable state a principal owns at most a thousand
  subscription rows, active, expired and revoked ones together.
\<close>

theorem subscriptions_bounded: "owned prin (sv_db (event_run env sha ops new_events)) \<le> 1000"
proof -
  have "owned prin (sv_db sv) \<le> 1000 \<Longrightarrow> owned prin (sv_db (event_run env sha ops sv)) \<le> 1000" for sv
    by (induction ops arbitrary: sv) (auto simp: owned_step)
  then show ?thesis by (simp add: new_events_def owned_def)
qed

section \<open>Witnesses\<close>

definition sample_emitted :: event_service where
  "sample_emitted = set_db (emit_task_terminal (\<lambda>s. s) (\<lambda>s. ''dlv_'' @ s) ''t'' 20 (sv_db sample_subscribed)) sample_subscribed"

lemma sample_task_found: "find (\<lambda>r. tk_id r = ''t'') (ht_tasks (tb_host (sv_db sample_subscribed))) = Some sample_task"
  by (simp add: sample_subscribe sample_host_def sample_task_def)

lemma sample_recipients: "recipients ''p'' TaskCompleted payload 20 (sv_db sample_subscribed) = [sample_subscription]"
  by (simp add: recipients_def sample_subscribe sample_subscription_def new_subscription_def sample_input_def active_at_def matches_arguments_def)

lemma sample_emission:
  "tb_deliveries (sv_db sample_emitted) = [new_delivery ''dlv_sub_0'' ''evt_task:t:terminal'' ''sub_0'' 20]"
  "tb_events (sv_db sample_emitted) = [\<lparr>ev_id = ''evt_task:t:terminal'', ev_owner = ''p'', ev_source = ''task:t:terminal'', ev_name = TaskCompleted,
        ev_occurred = 5, ev_payload = task_payload sample_task 5, ev_created = 20\<rparr>]"
  "tb_subs (sv_db sample_emitted) = [sample_subscription]" "tb_host (sv_db sample_emitted) = sample_host"
  using sample_task_found sample_recipients
  by (simp_all add: sample_emitted_def emit_task_terminal_def sample_task_def is_terminal_task_status_def terminal_task_statuses_def
      task_source_def record_event_def Let_def event_present_def sample_subscribe event_id_for_source_def or_now_def insert_delivery_def
      sample_subscription_def new_subscription_def)

lemma sample_emitted_ok [simp]: "store_ok (sv_db sample_emitted)"
  by (simp add: sample_emitted_def store_intros)

theorem task_event_emitted_once_witness:
  "length (tb_deliveries (sv_db sample_emitted)) = 1
   \<and> emit_task_terminal (\<lambda>s. s) (\<lambda>s. ''other'' @ s) ''t'' 99 (sv_db sample_emitted) = sv_db sample_emitted"
proof -
  have to: "recipients (tk_owner sample_task) (if tk_status sample_task = ''SUCCEEDED'' then TaskCompleted else TaskFailed) pl 20
      (sv_db sample_subscribed) = [sample_subscription]" for pl
    using sample_recipients by (simp add: sample_task_def)
  have "is_terminal_task_status (Some (tk_status sample_task))"
    by (simp add: sample_task_def is_terminal_task_status_def terminal_task_statuses_def)
  from task_event_emitted_once [OF sample_subscribed_ok sample_task_found this, of 20 "\<lambda>s. s" "\<lambda>s. ''dlv_'' @ s" "\<lambda>s. ''other'' @ s" 99]
  show ?thesis by (simp add: to sample_emitted_def event_present_def sample_subscribe)
qed

theorem stale_report_ignored_witness:
  "report_deliveries [\<lparr>rp_delivery = ''dlv_sub_0'', rp_token = ''x'', rp_outcome = AttemptDelivered, rp_error = None\<rparr>] 40
     (event_run sample_env (\<lambda>s. s) [(30, HostChange empty_host)] sample_emitted)
   = (0, event_run sample_env (\<lambda>s. s) [(30, HostChange empty_host)] sample_emitted)"
  by (rule stale_report_ignored) (simp_all add: sample_emission new_delivery_def tokens_of_def)

lemma sample_keyring_ok: "keyring_ok sample_keyring" "aead_ok (ee_aead sample_env)" "ee_keyring sample_env = Some sample_keyring"
  by (simp_all add: keyring_ok_def sample_keyring_def jhas_def jget_Cons sample_env_def spelled_aead_ok)

theorem subscribed_secret_signs_witness:
  "\<exists>row rest. subscription_row ''p'' ''sub_0'' (sv_db sample_subscribed) = Some row \<and> usable_secrets sample_env sample_keyring row 500 = sample_secret # rest"
proof -
  obtain a where a: "subscribe sample_env ''n'' ''p'' sample_input 10 sample_events = Inr (a, sample_subscribed)" "an_id a = ''sub_0''"
    using sample_subscribe(1) by blast
  from subscribed_secret_signs [OF sample_events_ok sample_keyring_ok(2,3,1) keyring_extends_refl a(1), of 500]
  show ?thesis by (auto simp: a(2) sample_input_def)
qed

lemma sample_due: "due_rows 30 5 (sv_db (purge_events 30 sample_emitted)) =
    [(hd (tb_deliveries (sv_db sample_emitted)), hd (tb_events (sv_db sample_emitted)), sample_subscription)]"
proof -
  have "sv_last_purge sample_emitted = 0"
    using sample_admit by (simp add: sample_emitted_def sample_subscribed_def subscribe_def sample_env_def Let_def subscription_row_def
        sample_input_def sample_events_def new_events_def audit_def)
  then have "sv_db (purge_events 30 sample_emitted) = sv_db sample_emitted"
    by (simp add: purge_events_def purge_interval_def)
  then show ?thesis
    by (simp add: due_rows_def sample_emission due_at_def new_delivery_def joined_def order_by_def
        sample_subscription_def new_subscription_def)
qed

lemma sample_sendable: "claim_refusal sample_env sample_keyring (tb_host (sv_db sample_emitted)) 30
    (hd (tb_deliveries (sv_db sample_emitted)), hd (tb_events (sv_db sample_emitted)), sample_subscription) = None"
proof -
  have "unseal_secret sample_env sample_keyring (es_owner sample_subscription) (es_id sample_subscription) (es_secret sample_subscription) = Some sample_secret"
    using unseal_seal [OF sample_keyring_ok(2,1) keyring_extends_refl]
    by (simp add: sample_subscription_def new_subscription_def)
  then have "usable_secrets sample_env sample_keyring sample_subscription 30 \<noteq> []"
    by (auto dest: usable_secrets_first [where now = 30])
  then show ?thesis
    by (simp add: claim_refusal_def sample_subscription_def new_subscription_def active_at_def key_ok_def sample_input_def sample_emission
        new_delivery_def mcp_events_limits_def sample_env_def)
qed

theorem claim_hands_out_due_witness:
  "\<exists>cs sv' c. claim_deliveries sample_env (\<lambda>_. ''tok'') 5 60000 30 sample_emitted = (cs, sv') \<and> c \<in> set cs
     \<and> cl_secrets c \<noteq> [] \<and> row_of (cl_delivery c) (sv_db sv') \<noteq> None"
proof -
  obtain cs sv' where claim: "claim_deliveries sample_env (\<lambda>_. ''tok'') 5 60000 30 sample_emitted = (cs, sv')"
    by (cases "claim_deliveries sample_env (\<lambda>_. ''tok'') 5 60000 30 sample_emitted")
  have "cs \<noteq> []"
    using claim_exact(1) [OF sample_emitted_ok sample_keyring_ok(3) claim] by (simp add: sample_due sample_sendable)
  then obtain c where c: "c \<in> set cs" by (cases cs) auto
  from claim_hands_out_due [OF sample_emitted_ok sample_keyring_ok(3) claim c] claim c show ?thesis by fastforce
qed

theorem claim_drains_due_witness:
  "filter (due_at 30) (tb_deliveries (sv_db (snd (claim_deliveries sample_env (\<lambda>_. ''tok'') 5 60000 30 sample_emitted)))) = []"
  by (rule claim_drains_due [OF sample_emitted_ok sample_keyring_ok(3)]) (simp_all add: sample_emission due_at_def new_delivery_def)

definition sample_ops :: "(int \<times> event_op) list" where
  "sample_ops = [(0, HostChange sample_host), (10, Request ''n'' (\<lambda>_. []) (EventsSubscribe ''p'' sample_input)),
     (20, EmitTask (\<lambda>s. ''dlv_'' @ s) ''t'')]"

lemma sample_ops_run: "event_run sample_env (\<lambda>s. s) sample_ops new_events = sample_emitted"
proof -
  have "request_ok (EventsSubscribe ''p'' sample_input)" by code_simp
  moreover have "event_step sample_env (\<lambda>s. s) 0 (HostChange sample_host) new_events = sample_events"
    by (simp add: event_step_def sample_events_def)
  ultimately show ?thesis
    using sample_subscribe(1)
    by (auto simp: sample_ops_def event_step_def execute_events_def answer_with_snd sample_emitted_def)
qed

theorem delivery_sends_bounded_witness:
  "\<exists>d \<in> set (tb_deliveries (sv_db (event_run sample_env (\<lambda>s. s) sample_ops new_events))). dl_attempts d \<le> 900"
proof -
  have "new_delivery ''dlv_sub_0'' ''evt_task:t:terminal'' ''sub_0'' 20 \<in> set (tb_deliveries (sv_db (event_run sample_env (\<lambda>s. s) sample_ops new_events)))"
    by (simp add: sample_ops_run sample_emission)
  moreover have "sorted (map fst sample_ops)" by (simp add: sample_ops_def)
  ultimately show ?thesis using delivery_sends_bounded by blast
qed

end
