(* ===== verification/SessionStore.thy ===== *)
theory SessionStore
  imports AgentChannel
begin

text \<open>
  The data of the runner's durable session store (\<open>apps/runner/src/durable-session-store.ts\<close>): owner marks,
  storage requests and their argument shapes, the token bucket of a lineage, the files under the state
  directory and the store's own maps. The session database is third-party code: \<open>'d\<close> is the content of
  one database on disk (its write-ahead log included) and the \<open>sn_\<close> functions of the configuration are what
  the backend does with it. Failures of \<open>stat\<close>, \<open>chmod\<close>, \<open>readdir\<close> and \<open>rm\<close> are not modelled.
\<close>

section \<open>Configuration and backend\<close>

text \<open>What a backend call does: return, throw its request error, throw anything else, or not exist.\<close>

datatype backend_result = Returned "json option" | RequestError string | Threw string | Unsupported

record 'd session_config =
  sn_dir :: bool
  sn_enabled :: bool
  sn_max_lineage :: nat
  sn_max_request :: nat
  sn_max_response :: nat
  sn_max_remembered :: nat
  sn_burst :: rat
  sn_per_second :: rat
  sn_size :: "json \<Rightarrow> nat"
  sn_blank :: 'd
  sn_open :: "'d \<Rightarrow> (string, 'd) result"
  sn_call :: "string \<Rightarrow> json option list \<Rightarrow> 'd \<Rightarrow> backend_result \<times> 'd"
  sn_closed :: string
  sn_close :: "'d \<Rightarrow> 'd"
  sn_bytes :: "'d \<Rightarrow> nat"

definition max_remembered_responses :: nat where
  "max_remembered_responses = 256"

definition response_envelope_bytes :: nat where
  "response_envelope_bytes = 1024"

definition max_error_message_bytes :: nat where
  "max_error_message_bytes = 4096"

definition max_storage_scan_limit :: int where
  "max_storage_scan_limit = 1000"

definition non_idempotent_methods :: "string list" where
  "non_idempotent_methods = [''commit'', ''mintId'']"

definition live_task_statuses :: "string list" where
  "live_task_statuses = [''pending'', ''running'', ''waiting'']"

text \<open>The options the constructor fills in.\<close>

definition session_defaults :: "'d session_config \<Rightarrow> 'd session_config" where
  "session_defaults cfg = cfg\<lparr>sn_max_lineage := 256 * 1024 * 1024, sn_max_request := max_protocol_record_bytes,
     sn_max_response := max_protocol_record_bytes, sn_max_remembered := 4 * 1024 * 1024, sn_burst := 1000, sn_per_second := 200\<rparr>"

section \<open>Owner marks\<close>

record owner_mark =
  om_agent :: string
  om_epoch :: int
  om_generation :: int

datatype session_error = StoreError harness_error | StoreThrew string

definition lineage_id_ok :: "string \<Rightarrow> bool" where
  "lineage_id_ok s = opaque_id ''agent'' s"

definition mark_value_ok :: "int \<Rightarrow> bool" where
  "mark_value_ok n = (is_safe n \<and> 0 \<le> n)"

definition compare_marks :: "owner_mark \<Rightarrow> owner_mark \<Rightarrow> int" where
  "compare_marks left right =
     (if om_epoch left \<noteq> om_epoch right then om_epoch left - om_epoch right else om_generation left - om_generation right)"

text \<open>\<open>JSON.stringify\<close> of a mark, and \<open>readOwnerMark\<close> on the file's text (\<open>None\<close> is text that is not JSON).\<close>

definition mark_json :: "owner_mark \<Rightarrow> json" where
  "mark_json m = JObj [(''agentId'', JStr (om_agent m)), (''epoch'', JInt (om_epoch m)), (''generation'', JInt (om_generation m))]"

definition mark_fields :: "jobject \<Rightarrow> owner_mark option" where
  "mark_fields ob = (case (field ob ''agentId'', field ob ''epoch'', field ob ''generation'') of
       (Some (JStr a), Some e, Some g) \<Rightarrow>
         (case (as_safe_integer e, as_safe_integer g) of
            (Some e', Some g') \<Rightarrow> Some \<lparr>om_agent = a, om_epoch = e', om_generation = g'\<rparr> | _ \<Rightarrow> None)
     | _ \<Rightarrow> None)"

definition corrupt_mark :: session_error where
  "corrupt_mark = StoreError (HarnessError ''INTERNAL_ERROR'' ''durable session owner record is corrupt'' 500 False)"

definition read_mark :: "json option \<Rightarrow> (session_error, owner_mark) result" where
  "read_mark text = (case text of None \<Rightarrow> Inl (StoreThrew ''SyntaxError'')
     | Some JNull \<Rightarrow> Inl (StoreThrew ''TypeError'')
     | Some (JObj ob) \<Rightarrow> (case mark_fields ob of None \<Rightarrow> Inl corrupt_mark | Some m \<Rightarrow> Inr m)
     | Some _ \<Rightarrow> Inl corrupt_mark)"

section \<open>Requests and responses\<close>

datatype storage_response = StorageOk string "json option" | StorageFailed string string string bool

fun response_ok :: "storage_response \<Rightarrow> bool" where
  "response_ok (StorageOk _ _) = True"
| "response_ok (StorageFailed _ _ _ _) = False"

definition bounded_message :: "string \<Rightarrow> string" where
  "bounded_message m = (if length m \<le> max_error_message_bytes then m else take (max_error_message_bytes - 3) m @ ''...'')"

definition storage_failure :: "string \<Rightarrow> string \<Rightarrow> string \<Rightarrow> bool \<Rightarrow> storage_response" where
  "storage_failure i c m retryable = StorageFailed i c (bounded_message m) retryable"

fun response_json :: "storage_response \<Rightarrow> json" where
  "response_json (StorageOk i r) = JObj ([(''type'', JStr ''storage_response''), (''id'', JStr i), (''ok'', JBool True)]
     @ (case r of None \<Rightarrow> [] | Some v \<Rightarrow> [(''result'', v)]))"
| "response_json (StorageFailed i c m retryable) = JObj [(''type'', JStr ''storage_response''), (''id'', JStr i), (''ok'', JBool False),
     (''error'', JObj [(''code'', JStr c), (''message'', JStr m), (''retryable'', JBool retryable)])]"

text \<open>The identifier and the method \<open>handle\<close> reads off an unvalidated request.\<close>

definition raw_request_id :: "json \<Rightarrow> string" where
  "raw_request_id v = (case v of
     JObj ob \<Rightarrow> (case field ob ''id'' of Some (JStr s) \<Rightarrow> (if protocol_id_ok s then s else ''invalid'') | _ \<Rightarrow> ''invalid'')
   | _ \<Rightarrow> ''invalid'')"

definition raw_method_allowed :: "json \<Rightarrow> bool" where
  "raw_method_allowed v = (case v of JObj ob \<Rightarrow> (case field ob ''method'' of Some (JStr m) \<Rightarrow> m \<in> set storage_methods | _ \<Rightarrow> False)
   | _ \<Rightarrow> False)"

text \<open>Arguments: \<open>None\<close> is \<open>undefined\<close>, which the worker sends as \<open>null\<close>.\<close>

definition storage_args :: "json list \<Rightarrow> json option list" where
  "storage_args args = map (\<lambda>v. if v = JNull then None else Some v) args"

definition arg_object :: "json option \<Rightarrow> bool" where
  "arg_object v = (case v of Some (JObj _) \<Rightarrow> True | _ \<Rightarrow> False)"

definition arg_number :: "json option \<Rightarrow> bool" where
  "arg_number v = (case v of Some (JNum (Fin _)) \<Rightarrow> True | _ \<Rightarrow> False)"

definition arg_array :: "json option \<Rightarrow> bool" where
  "arg_array v = (case v of Some (JArr _) \<Rightarrow> True | _ \<Rightarrow> False)"

definition arg_string :: "json option \<Rightarrow> bool" where
  "arg_string v = (case v of Some (JStr _) \<Rightarrow> True | _ \<Rightarrow> False)"

definition arg_cursor :: "json option \<Rightarrow> bool" where
  "arg_cursor v = (v = None \<or> arg_object v)"

definition arg_document_point :: "json option \<Rightarrow> bool" where
  "arg_document_point v = (v = Some (JStr ''current'') \<or> arg_number v)"

definition arg_scan_limit :: "json option \<Rightarrow> bool" where
  "arg_scan_limit v = (case v of None \<Rightarrow> False | Some j \<Rightarrow>
     (case as_safe_integer j of None \<Rightarrow> False | Some n \<Rightarrow> 1 \<le> n \<and> n \<le> max_storage_scan_limit))"

definition scan_shape :: "(json option \<Rightarrow> bool) list" where
  "scan_shape = [arg_object, arg_scan_limit, arg_cursor]"

definition argument_shapes :: "string \<Rightarrow> (json option \<Rightarrow> bool) list list" where
  "argument_shapes m =
     (if m = ''commit'' then [[arg_array]]
      else if m = ''mintId'' \<or> m = ''close'' then [[]]
      else if m \<in> set [''conversation'', ''task'', ''submission''] then [[arg_number]]
      else if m \<in> set [''scanConversations'', ''scanEntries'', ''scanTasks'', ''scanSubmissions'', ''scanDocuments''] then [scan_shape]
      else if m = ''entry'' then [[arg_number], [arg_number, arg_number]]
      else if m = ''findLatestHeadMarker'' then [[arg_number, \<lambda>v. v = None \<or> arg_number v]]
      else if m = ''submissionByRequest'' then [[arg_number, arg_string]]
      else if m = ''findDocument'' then [[arg_object, arg_document_point]]
      else if m = ''document'' then [[arg_number, arg_document_point]]
      else [])"

definition arguments_match :: "string \<Rightarrow> json option list \<Rightarrow> bool" where
  "arguments_match m args =
     list_ex (\<lambda>shape. length shape = length args \<and> list_all (\<lambda>(check, a). check a) (zip shape args)) (argument_shapes m)"

text \<open>What \<open>#run\<close> makes of the backend's answer.\<close>

definition run_response :: "'d session_config \<Rightarrow> string \<Rightarrow> backend_result \<Rightarrow> storage_response" where
  "run_response cfg i r = (case r of
     Unsupported \<Rightarrow> storage_failure i ''failed'' ''storage method is unavailable'' False
   | Returned None \<Rightarrow> StorageOk i None
   | Returned (Some v) \<Rightarrow> (if sn_max_response cfg < sn_size cfg v + response_envelope_bytes
       then storage_failure i ''limit'' ''storage response exceeds the byte limit'' False else StorageOk i (Some v))
   | RequestError m \<Rightarrow> storage_failure i ''request'' m False
   | Threw m \<Rightarrow> storage_failure i ''failed'' m False)"

section \<open>State\<close>

text \<open>
  A claim object is its position in \<open>sx_claims\<close>, a storage handle its number in \<open>sx_open\<close>, a request the
  store has accepted its position in \<open>sx_flights\<close>; none is ever reused. A remembered response is the flight that
  produces it with its encoded size, 0 until the flight has settled.
\<close>

record session_claim =
  cm_lineage :: string
  cm_mark :: owner_mark
  cm_handle :: nat
  cm_responses :: "(string, nat \<times> nat) jmap"
  cm_remembered :: int
  cm_last :: "(string \<times> nat) option"
  cm_exceeded :: bool
  cm_private :: bool

record lineage_state =
  ln_handle :: "nat option"
  ln_active :: "nat option"
  ln_tokens :: rat
  ln_refilled :: int

text \<open>
  The stages of a request at the \<open>await\<close>s of \<open>handle\<close>: a commit waits for the size of the database, which is
  read and then recorded; the backend call; the size after a commit; the answer. \<open>Lost\<close> is a request of a
  runner that has since stopped.
\<close>

datatype flight_stage =
    Measuring
  | Measured nat
  | Calling
  | Called storage_response
  | Sized storage_response nat
  | Answered storage_response
  | Lost

record flight =
  fg_claim :: nat
  fg_request :: storage_request
  fg_bytes :: nat
  fg_stage :: flight_stage

record 'd session_store =
  sx_files :: "(string, 'd) jmap"
  sx_owners :: "(string, json option) jmap"
  sx_temporaries :: "string list"
  sx_lineages :: "(string, lineage_state) jmap"
  sx_sizes :: "(string, nat) jmap"
  sx_open :: "(nat, string) jmap"
  sx_next :: nat
  sx_claims :: "session_claim list"
  sx_flights :: "flight list"

definition empty_session_store :: "'d session_store" where
  "empty_session_store = \<lparr>sx_files = [], sx_owners = [], sx_temporaries = [], sx_lineages = [], sx_sizes = [], sx_open = [],
     sx_next = 0, sx_claims = [], sx_flights = []\<rparr>"

definition new_session_store :: "'d session_config \<Rightarrow> (string, 'd session_store) result" where
  "new_session_store cfg =
     (if sn_max_lineage cfg < 1 then Inl ''durable session size cap must be a positive integer''
      else if sn_max_remembered cfg < 1 then Inl ''durable session response memo bound must be a positive integer''
      else if \<not> 1 \<le> sn_burst cfg \<or> \<not> 0 < sn_per_second cfg then Inl ''durable session rate bound must be positive''
      else Inr empty_session_store)"

text \<open>\<open>DurableSessionClaim\<close> objects and lineages written in place.\<close>

definition update_claim :: "nat \<Rightarrow> (session_claim \<Rightarrow> session_claim) \<Rightarrow> 'd session_store \<Rightarrow> 'd session_store" where
  "update_claim n f st = st\<lparr>sx_claims := (if n < length (sx_claims st) then (sx_claims st)[n := f (sx_claims st ! n)] else sx_claims st)\<rparr>"

definition set_stage :: "nat \<Rightarrow> flight_stage \<Rightarrow> 'd session_store \<Rightarrow> 'd session_store" where
  "set_stage f s st = st\<lparr>sx_flights :=
     (if f < length (sx_flights st) then (sx_flights st)[f := (sx_flights st ! f)\<lparr>fg_stage := s\<rparr>] else sx_flights st)\<rparr>"

definition active_claim :: "string \<Rightarrow> 'd session_store \<Rightarrow> nat option" where
  "active_claim l st = (case jget (sx_lineages st) l of None \<Rightarrow> None | Some g \<Rightarrow> ln_active g)"

definition stored_mark :: "string \<Rightarrow> 'd session_store \<Rightarrow> (session_error, owner_mark option) result" where
  "stored_mark l st = (case jget (sx_owners st) l of None \<Rightarrow> Inr None
     | Some text \<Rightarrow> (case read_mark text of Inl e \<Rightarrow> Inl e | Inr m \<Rightarrow> Inr (Some m)))"

section \<open>Sizes\<close>

definition database_bytes :: "'d session_config \<Rightarrow> string \<Rightarrow> 'd session_store \<Rightarrow> nat" where
  "database_bytes cfg l st = (if sn_dir cfg then (case jget (sx_files st) l of None \<Rightarrow> 0 | Some d \<Rightarrow> sn_bytes cfg d) else 0)"

definition record_size :: "string \<Rightarrow> nat \<Rightarrow> 'd session_store \<Rightarrow> 'd session_store" where
  "record_size l b st = st\<lparr>sx_sizes := (if 0 < b then jset l b (sx_sizes st) else jdel l (sx_sizes st))\<rparr>"

definition measure_lineage :: "'d session_config \<Rightarrow> string \<Rightarrow> 'd session_store \<Rightarrow> 'd session_store" where
  "measure_lineage cfg l st = record_size l (database_bytes cfg l st) st"

definition lineage_bytes :: "string \<Rightarrow> 'd session_store \<Rightarrow> nat" where
  "lineage_bytes l st = (case jget (sx_sizes st) l of None \<Rightarrow> 0 | Some b \<Rightarrow> b)"

definition session_lineages :: "'d session_store \<Rightarrow> string list" where
  "session_lineages st = jkeys (sx_sizes st)"

definition session_total_bytes :: "'d session_store \<Rightarrow> nat" where
  "session_total_bytes st = fold (\<lambda>p bytes. bytes + snd p) (sx_sizes st) 0"

definition claim_limit_exceeded :: "nat \<Rightarrow> 'd session_store \<Rightarrow> bool" where
  "claim_limit_exceeded n st = (n < length (sx_claims st) \<and> cm_exceeded (sx_claims st ! n))"

section \<open>Remembered responses\<close>

definition forget_responses :: "session_claim \<Rightarrow> session_claim" where
  "forget_responses c = c\<lparr>cm_responses := [], cm_remembered := 0, cm_last := None\<rparr>"

fun evict_responses :: "nat \<Rightarrow> (string, nat \<times> nat) jmap \<Rightarrow> int \<Rightarrow> (string, nat \<times> nat) jmap \<times> int" where
  "evict_responses limit [] bytes = ([], bytes)"
| "evict_responses limit ((i, (f, b)) # m) bytes =
     (if max_remembered_responses < length ((i, (f, b)) # m) \<or> int limit < bytes
      then evict_responses limit m (bytes - int b) else ((i, (f, b)) # m, bytes))"

definition evict_remembered :: "'d session_config \<Rightarrow> session_claim \<Rightarrow> session_claim" where
  "evict_remembered cfg c = (case evict_responses (sn_max_remembered cfg) (cm_responses c) (cm_remembered c) of
     (m, bytes) \<Rightarrow> c\<lparr>cm_responses := m, cm_remembered := bytes\<rparr>)"

text \<open>\<open>#remember\<close>: the entry when the request starts, and its size when the response has settled.\<close>

definition remember_flight :: "'d session_config \<Rightarrow> string \<Rightarrow> string \<Rightarrow> nat \<Rightarrow> session_claim \<Rightarrow> session_claim" where
  "remember_flight cfg i m f c = evict_remembered cfg (c\<lparr>cm_responses := jset i (f, 0) (cm_responses c),
     cm_last := (if m = ''commit'' then Some (i, f) else cm_last c)\<rparr>)"

definition settle_remembered :: "'d session_config \<Rightarrow> string \<Rightarrow> nat \<Rightarrow> storage_response \<Rightarrow> session_claim \<Rightarrow> session_claim" where
  "settle_remembered cfg i f r c = (case jget (cm_responses c) i of
     Some (f', b) \<Rightarrow> (if f' = f
       then (let size_of = sn_size cfg (response_json r) in
         evict_remembered cfg (c\<lparr>cm_responses := jset i (f, size_of) (cm_responses c), cm_remembered := cm_remembered c + int size_of\<rparr>))
       else c)
   | None \<Rightarrow> c)"

definition remembered_flight :: "string \<Rightarrow> string \<Rightarrow> session_claim \<Rightarrow> nat option" where
  "remembered_flight m i c =
     (if m \<in> set non_idempotent_methods
      then (case jget (cm_responses c) i of
          Some (f, _) \<Rightarrow> Some f
        | None \<Rightarrow> (case cm_last c of
            Some (i', f) \<Rightarrow> (if m = ''commit'' \<and> i' = i then Some f else None) | None \<Rightarrow> None))
      else None)"

section \<open>Rate limit\<close>

definition take_token :: "'d session_config \<Rightarrow> int \<Rightarrow> lineage_state \<Rightarrow> bool \<times> lineage_state" where
  "take_token cfg now g =
     (let elapsed = max 0 (now - ln_refilled g);
          tokens = min (sn_burst cfg) (ln_tokens g + (of_int elapsed / 1000) * sn_per_second cfg)
      in if tokens < 1 then (False, g\<lparr>ln_tokens := tokens, ln_refilled := now\<rparr>)
         else (True, g\<lparr>ln_tokens := tokens - 1, ln_refilled := now\<rparr>))"

end
