(* ===== verification/SessionOperations.thy ===== *)
theory SessionOperations
  imports SessionStore
begin

text \<open>
  The operations of \<open>DurableSessionStore\<close>. Those that take the lineage's lock (\<open>claim\<close>, \<open>release\<close>, \<open>seal\<close>,
  \<open>inspectPending\<close>, \<open>measure\<close>, \<open>delete\<close>, \<open>close\<close>) are one step each; \<open>handle\<close> takes no lock, so it is cut at its
  \<open>await\<close>s: \<open>start_request\<close> up to the first of them, \<open>advance_flight\<close> from one to the next. The handler
  chain of a protocol channel starts a request only when the one before it is answered; \<open>session_step\<close> has that
  as the guard of its requests.
\<close>

section \<open>Database handles\<close>

definition open_database :: "'d session_config \<Rightarrow> string \<Rightarrow> 'd session_store \<Rightarrow> (string, nat) result \<times> 'd session_store" where
  "open_database cfg l st =
     (let d0 = (case jget (sx_files st) l of None \<Rightarrow> sn_blank cfg | Some d \<Rightarrow> d)
      in case sn_open cfg d0 of
          Inl e \<Rightarrow> (Inl e, st\<lparr>sx_files := jset l d0 (sx_files st)\<rparr>)
        | Inr d \<Rightarrow> (Inr (sx_next st), st\<lparr>sx_files := jset l d (sx_files st), sx_open := jset (sx_next st) l (sx_open st),
            sx_next := Suc (sx_next st)\<rparr>))"

definition close_handle :: "'d session_config \<Rightarrow> nat \<Rightarrow> 'd session_store \<Rightarrow> 'd session_store" where
  "close_handle cfg h st = (case jget (sx_open st) h of None \<Rightarrow> st
     | Some l \<Rightarrow> st\<lparr>sx_open := jdel h (sx_open st),
         sx_files := (case jget (sx_files st) l of None \<Rightarrow> sx_files st | Some d \<Rightarrow> jset l (sn_close cfg d) (sx_files st))\<rparr>)"

definition call_backend :: "'d session_config \<Rightarrow> nat \<Rightarrow> string \<Rightarrow> json option list \<Rightarrow> 'd session_store
    \<Rightarrow> backend_result \<times> 'd session_store" where
  "call_backend cfg h m args st = (case jget (sx_open st) h of None \<Rightarrow> (Threw (sn_closed cfg), st)
     | Some l \<Rightarrow> (case jget (sx_files st) l of None \<Rightarrow> (Threw (sn_closed cfg), st)
        | Some d \<Rightarrow> (case sn_call cfg m args d of (r, d') \<Rightarrow> (r, st\<lparr>sx_files := jset l d' (sx_files st)\<rparr>))))"

text \<open>\<open>hasLiveTasks\<close>: \<open>None\<close> is a throw.\<close>

definition page_items :: "backend_result \<Rightarrow> nat option" where
  "page_items r = (case r of
     Returned (Some (JObj ob)) \<Rightarrow> (case field ob ''items'' of Some (JArr xs) \<Rightarrow> Some (length xs) | _ \<Rightarrow> None)
   | _ \<Rightarrow> None)"

definition live_task_query :: "string \<Rightarrow> json option list" where
  "live_task_query s = [Some (JObj [(''status'', JStr s), (''abortRequested'', JBool False)]), Some (JInt 1), None]"

fun scan_live_tasks :: "'d session_config \<Rightarrow> nat \<Rightarrow> string list \<Rightarrow> 'd session_store \<Rightarrow> bool option \<times> 'd session_store" where
  "scan_live_tasks cfg h [] st = (Some False, st)"
| "scan_live_tasks cfg h (s # ss) st =
     (case call_backend cfg h ''scanTasks'' (live_task_query s) st of
        (r, st') \<Rightarrow> (case page_items r of None \<Rightarrow> (None, st')
          | Some n \<Rightarrow> if 0 < n then (Some True, st') else scan_live_tasks cfg h ss st'))"

definition has_live_tasks :: "'d session_config \<Rightarrow> nat \<Rightarrow> 'd session_store \<Rightarrow> bool option \<times> 'd session_store" where
  "has_live_tasks cfg h st = scan_live_tasks cfg h live_task_statuses st"

section \<open>Ending a claim\<close>

definition deactivate :: "string \<Rightarrow> 'd session_store \<Rightarrow> 'd session_store" where
  "deactivate l st = (case jget (sx_lineages st) l of None \<Rightarrow> st
     | Some g \<Rightarrow> (case ln_active g of None \<Rightarrow> id | Some n \<Rightarrow> update_claim n forget_responses)
         (st\<lparr>sx_lineages := jset l (g\<lparr>ln_active := None\<rparr>) (sx_lineages st)\<rparr>))"

text \<open>\<open>#closeLineage\<close>; the lineage has been taken out of the map before its database closes.\<close>

definition close_lineage :: "'d session_config \<Rightarrow> string \<Rightarrow> 'd session_store \<Rightarrow> 'd session_store" where
  "close_lineage cfg l st =
     (let st1 = st\<lparr>sx_lineages := jdel l (sx_lineages st)\<rparr>;
          st2 = (case jget (sx_lineages st) l of None \<Rightarrow> st1
            | Some g \<Rightarrow> (case ln_handle g of None \<Rightarrow> st1 | Some h \<Rightarrow> close_handle cfg h st1))
      in measure_lineage cfg l st2)"

definition end_lineage :: "'d session_config \<Rightarrow> string \<Rightarrow> 'd session_store \<Rightarrow> 'd session_store" where
  "end_lineage cfg l st = close_lineage cfg l (deactivate l st)"

definition claim_current :: "nat \<Rightarrow> 'd session_store \<Rightarrow> bool" where
  "claim_current n st = (n < length (sx_claims st) \<and> active_claim (cm_lineage (sx_claims st ! n)) st = Some n)"

definition release_claim :: "'d session_config \<Rightarrow> nat \<Rightarrow> 'd session_store \<Rightarrow> 'd session_store" where
  "release_claim cfg n st = (if claim_current n st then end_lineage cfg (cm_lineage (sx_claims st ! n)) st else st)"

text \<open>\<open>DurableSessionSeal\<close>: unfinished tasks, and still over the size cap.\<close>

definition no_seal :: "bool \<times> bool" where
  "no_seal = (False, False)"

definition seal_claim :: "'d session_config \<Rightarrow> nat \<Rightarrow> 'd session_store \<Rightarrow> (bool \<times> bool) \<times> 'd session_store" where
  "seal_claim cfg n st =
     (if \<not> claim_current n st then (no_seal, st)
      else (let c = sx_claims st ! n; l = cm_lineage c in
        case has_live_tasks cfg (cm_handle c) st of (live, st1) \<Rightarrow>
          (let st2 = end_lineage cfg l st1
           in ((live = Some True, sn_max_lineage cfg < database_bytes cfg l st2), st2))))"

definition inspect_pending :: "'d session_config \<Rightarrow> string \<Rightarrow> 'd session_store
    \<Rightarrow> (session_error, bool \<times> bool) result \<times> 'd session_store" where
  "inspect_pending cfg l st =
     (if \<not> sn_enabled cfg \<or> \<not> sn_dir cfg then (Inr no_seal, st)
      else if \<not> lineage_id_ok l then (Inl (StoreError (HarnessError ''INVALID_INPUT'' ''durable session lineage id is invalid'' 400 False)), st)
      else if active_claim l st \<noteq> None \<or> \<not> jhas (sx_files st) l then (Inr no_seal, st)
      else (case open_database cfg l st of
          (Inl _, st1) \<Rightarrow> (Inr (False, sn_max_lineage cfg < database_bytes cfg l st1), measure_lineage cfg l st1)
        | (Inr h, st1) \<Rightarrow> (case has_live_tasks cfg h st1 of (live, st2) \<Rightarrow>
            (let st3 = close_handle cfg h st2
             in (Inr (live = Some True, sn_max_lineage cfg < database_bytes cfg l st3), measure_lineage cfg l st3)))))"

section \<open>Claims\<close>

text \<open>
  What becomes of \<open>writePrivateFile\<close>: the mark is written; the temporary file cannot be created; it is left behind
  when writing it fails or the runner stops; renaming it fails, which removes it.
\<close>

datatype mark_write = MarkWritten | MarkNotCreated | MarkLeftBehind | MarkNotRenamed

definition write_mark :: "mark_write \<Rightarrow> string \<Rightarrow> owner_mark \<Rightarrow> 'd session_store \<Rightarrow> (string, unit) result \<times> 'd session_store" where
  "write_mark w l m st = (case w of
     MarkWritten \<Rightarrow> (Inr (), st\<lparr>sx_owners := jset l (Some (mark_json m)) (sx_owners st)\<rparr>)
   | MarkNotCreated \<Rightarrow> (Inl ''open'', st)
   | MarkLeftBehind \<Rightarrow> (Inl ''write'', st\<lparr>sx_temporaries := l # sx_temporaries st\<rparr>)
   | MarkNotRenamed \<Rightarrow> (Inl ''rename'', st))"

definition fresh_lineage :: "'d session_config \<Rightarrow> int \<Rightarrow> lineage_state" where
  "fresh_lineage cfg now = \<lparr>ln_handle = None, ln_active = None, ln_tokens = sn_burst cfg, ln_refilled = now\<rparr>"

definition ensure_lineage :: "'d session_config \<Rightarrow> int \<Rightarrow> string \<Rightarrow> 'd session_store \<Rightarrow> 'd session_store" where
  "ensure_lineage cfg now l st = (case jget (sx_lineages st) l of Some _ \<Rightarrow> st
     | None \<Rightarrow> st\<lparr>sx_lineages := jset l (fresh_lineage cfg now) (sx_lineages st)\<rparr>)"

text \<open>The lineage's database, opened and measured when this runner has not opened it yet.\<close>

definition ensure_open :: "'d session_config \<Rightarrow> string \<Rightarrow> 'd session_store \<Rightarrow> (string, nat) result \<times> 'd session_store" where
  "ensure_open cfg l st = (case jget (sx_lineages st) l of None \<Rightarrow> (Inl ''no lineage'', st)
     | Some g \<Rightarrow> (case ln_handle g of Some h \<Rightarrow> (Inr h, st)
        | None \<Rightarrow> (case open_database cfg l st of
            (Inl e, st1) \<Rightarrow> (Inl e, st1)
          | (Inr h, st1) \<Rightarrow> (Inr h, measure_lineage cfg l
              (st1\<lparr>sx_lineages := jset l (g\<lparr>ln_handle := Some h\<rparr>) (sx_lineages st1)\<rparr>)))))"

definition new_claim :: "string \<Rightarrow> owner_mark \<Rightarrow> nat \<Rightarrow> session_claim" where
  "new_claim l m h = \<lparr>cm_lineage = l, cm_mark = m, cm_handle = h, cm_responses = [], cm_remembered = 0, cm_last = None,
     cm_exceeded = False, cm_private = False\<rparr>"

definition activate :: "string \<Rightarrow> owner_mark \<Rightarrow> nat \<Rightarrow> 'd session_store \<Rightarrow> nat \<times> 'd session_store" where
  "activate l m h st =
     (let st1 = deactivate l st; n = length (sx_claims st1);
          st2 = st1\<lparr>sx_claims := sx_claims st1 @ [new_claim l m h]\<rparr>
      in (n, case jget (sx_lineages st2) l of None \<Rightarrow> st2
           | Some g \<Rightarrow> st2\<lparr>sx_lineages := jset l (g\<lparr>ln_active := Some n\<rparr>) (sx_lineages st2)\<rparr>))"

definition mark_unchanged :: "owner_mark \<Rightarrow> owner_mark option \<Rightarrow> bool" where
  "mark_unchanged m stored = (case stored of None \<Rightarrow> False | Some s \<Rightarrow> compare_marks m s = 0 \<and> om_agent s = om_agent m)"

definition mark_refused :: "owner_mark \<Rightarrow> owner_mark option \<Rightarrow> bool" where
  "mark_refused m stored = (case stored of None \<Rightarrow> False
     | Some s \<Rightarrow> compare_marks m s < 0 \<or> (compare_marks m s = 0 \<and> om_agent s \<noteq> om_agent m))"

definition take_lineage :: "'d session_config \<Rightarrow> mark_write \<Rightarrow> string \<Rightarrow> owner_mark \<Rightarrow> owner_mark option \<Rightarrow> 'd session_store
    \<Rightarrow> (session_error, nat) result \<times> 'd session_store" where
  "take_lineage cfg w l m stored st = (case ensure_open cfg l st of
     (Inl e, st1) \<Rightarrow> (Inl (StoreThrew e), st1)
   | (Inr h, st1) \<Rightarrow> (case (if mark_unchanged m stored then (Inr (), st1) else write_mark w l m st1) of
        (Inl e, st2) \<Rightarrow> (Inl (StoreThrew e), st2)
      | (Inr _, st2) \<Rightarrow> (case activate l m h st2 of (n, st3) \<Rightarrow> (Inr n, st3))))"

definition conflict_error :: session_error where
  "conflict_error = StoreError (HarnessError ''CONFLICT'' ''durable session is owned by a newer agent run'' 409 False)"

definition claim_checks :: "'d session_config \<Rightarrow> string \<Rightarrow> owner_mark \<Rightarrow> (session_error, unit) result" where
  "claim_checks cfg l m =
     (if \<not> sn_enabled cfg \<or> \<not> sn_dir cfg then Inl (StoreError (HarnessError ''UNAVAILABLE'' ''durable agent sessions are disabled'' 503 False))
      else if \<not> lineage_id_ok l then Inl (StoreError (HarnessError ''INVALID_INPUT'' ''durable session lineage id is invalid'' 400 False))
      else if \<not> lineage_id_ok (om_agent m) then Inl (StoreError (HarnessError ''INVALID_INPUT'' ''durable session owner id is invalid'' 400 False))
      else if \<not> mark_value_ok (om_epoch m) then Inl (StoreError (HarnessError ''INVALID_INPUT'' ''durable session epoch is invalid'' 400 False))
      else if \<not> mark_value_ok (om_generation m) then Inl (StoreError (HarnessError ''INVALID_INPUT'' ''durable session generation is invalid'' 400 False))
      else Inr ())"

definition claim_lineage :: "'d session_config \<Rightarrow> int \<Rightarrow> mark_write \<Rightarrow> string \<Rightarrow> owner_mark \<Rightarrow> 'd session_store
    \<Rightarrow> (session_error, nat) result \<times> 'd session_store" where
  "claim_lineage cfg now w l m st = (case claim_checks cfg l m of Inl e \<Rightarrow> (Inl e, st)
     | Inr _ \<Rightarrow> (case stored_mark l st of Inl e \<Rightarrow> (Inl e, st)
        | Inr stored \<Rightarrow> (let st1 = ensure_lineage cfg now l st in
            case (if mark_unchanged m stored then active_claim l st1 else None) of
              Some n \<Rightarrow> (if om_agent (cm_mark (sx_claims st1 ! n)) = om_agent m then (Inr n, st1) else take_lineage cfg w l m stored st1)
            | None \<Rightarrow> (if mark_refused m stored then (Inl conflict_error, st1) else take_lineage cfg w l m stored st1))))"

section \<open>Files\<close>

text \<open>\<open>measure\<close>: every database under the state directory.\<close>

definition measure_store :: "'d session_config \<Rightarrow> 'd session_store \<Rightarrow> 'd session_store" where
  "measure_store cfg st = (if sn_dir cfg then fold (measure_lineage cfg) (filter lineage_id_ok (jkeys (sx_files st))) st else st)"

definition delete_session_files :: "string \<Rightarrow> 'd session_store \<Rightarrow> 'd session_store" where
  "delete_session_files l st = st\<lparr>sx_files := jdel l (sx_files st), sx_owners := jdel l (sx_owners st),
     sx_temporaries := filter (\<lambda>l'. l' \<noteq> l) (sx_temporaries st)\<rparr>"

definition delete_lineage :: "'d session_config \<Rightarrow> string \<Rightarrow> 'd session_store \<Rightarrow> (session_error, unit) result \<times> 'd session_store" where
  "delete_lineage cfg l st =
     (if \<not> lineage_id_ok l then (Inl (StoreError (HarnessError ''INVALID_INPUT'' ''durable session lineage id is invalid'' 400 False)), st)
      else (let st1 = (if jhas (sx_lineages st) l then end_lineage cfg l st else st);
                st2 = (if sn_dir cfg then delete_session_files l st1 else st1)
            in (Inr (), st2\<lparr>sx_sizes := jdel l (sx_sizes st2)\<rparr>)))"

fun delete_each :: "'d session_config \<Rightarrow> string list \<Rightarrow> 'd session_store \<Rightarrow> (session_error, unit) result \<times> 'd session_store" where
  "delete_each cfg [] st = (Inr (), st)"
| "delete_each cfg (l # ls) st = (case delete_lineage cfg l st of
     (Inl e, st') \<Rightarrow> (Inl e, st') | (Inr _, st') \<Rightarrow> delete_each cfg ls st')"

definition delete_lineages :: "'d session_config \<Rightarrow> string list \<Rightarrow> 'd session_store \<Rightarrow> (session_error, unit) result \<times> 'd session_store" where
  "delete_lineages cfg ls st = delete_each cfg (rev (remdups (rev ls))) st"

text \<open>\<open>close\<close> on shutdown, and a runner that stops without it: what is on disk stays.\<close>

definition close_store :: "'d session_config \<Rightarrow> 'd session_store \<Rightarrow> 'd session_store" where
  "close_store cfg st = fold (end_lineage cfg) (jkeys (sx_lineages st)) st"

definition lost_flight :: "flight \<Rightarrow> flight" where
  "lost_flight f = (case fg_stage f of Answered _ \<Rightarrow> f | _ \<Rightarrow> f\<lparr>fg_stage := Lost\<rparr>)"

definition restart_store :: "'d session_store \<Rightarrow> 'd session_store" where
  "restart_store st = st\<lparr>sx_lineages := [], sx_sizes := [], sx_open := [], sx_claims := map forget_responses (sx_claims st),
     sx_flights := map lost_flight (sx_flights st)\<rparr>"

section \<open>Requests\<close>

text \<open>An answer at once, or the flight whose response is the answer.\<close>

datatype session_reply = Reply storage_response | Await nat

definition launch :: "nat \<Rightarrow> storage_request \<Rightarrow> nat \<Rightarrow> flight_stage \<Rightarrow> 'd session_store \<Rightarrow> nat \<times> 'd session_store" where
  "launch n q b s st = (length (sx_flights st),
     st\<lparr>sx_flights := sx_flights st @ [\<lparr>fg_claim = n, fg_request = q, fg_bytes = b, fg_stage = s\<rparr>]\<rparr>)"

definition accept_flight :: "'d session_config \<Rightarrow> nat \<Rightarrow> storage_request \<Rightarrow> nat \<Rightarrow> 'd session_store \<Rightarrow> session_reply \<times> 'd session_store" where
  "accept_flight cfg n q b st =
     (let i = sq_id q; m = sq_method q in
      if \<not> arguments_match m (storage_args (sq_args q))
      then (Reply (storage_failure i ''request'' (''invalid arguments for storage '' @ m) False), st)
      else if m = ''commit''
      then (if cm_exceeded (sx_claims st ! n)
            then (Reply (storage_failure i ''limit'' ''durable session exceeds its size limit'' False), st)
            else (case launch n q b Measuring st of (f, st') \<Rightarrow> (Await f, st')))
      else (case launch n q b Calling st of (f, st') \<Rightarrow>
        (Await f, if m \<in> set non_idempotent_methods then update_claim n (remember_flight cfg i m f) st' else st')))"

definition admit_request :: "'d session_config \<Rightarrow> int \<Rightarrow> nat \<Rightarrow> storage_request \<Rightarrow> nat \<Rightarrow> 'd session_store \<Rightarrow> session_reply \<times> 'd session_store" where
  "admit_request cfg now n q b st =
     (let c = sx_claims st ! n; l = cm_lineage c; i = sq_id q in
      if \<not> claim_current n st then (Reply (storage_failure i ''fenced'' ''durable session claim is no longer current'' False), st)
      else (case remembered_flight (sq_method q) i c of
          Some f \<Rightarrow> (Await f, st)
        | None \<Rightarrow> (case jget (sx_lineages st) l of
              None \<Rightarrow> (Reply (storage_failure i ''fenced'' ''durable session claim is no longer current'' False), st)
            | Some g \<Rightarrow> (case take_token cfg now g of (ok, g') \<Rightarrow>
                (let st1 = st\<lparr>sx_lineages := jset l g' (sx_lineages st)\<rparr> in
                 if \<not> ok then (Reply (storage_failure i ''rate_limited'' ''storage request rate exceeded'' True), st1)
                 else accept_flight cfg n q b st1)))))"

definition start_request :: "'d session_config \<Rightarrow> int \<Rightarrow> nat \<Rightarrow> json \<Rightarrow> 'd session_store \<Rightarrow> session_reply \<times> 'd session_store" where
  "start_request cfg now n v st =
     (if \<not> raw_method_allowed v then (Reply (storage_failure (raw_request_id v) ''failed'' ''storage method is not allowed'' False), st)
      else if sn_max_request cfg < sn_size cfg v
      then (Reply (storage_failure (raw_request_id v) ''limit'' ''storage request exceeds the byte limit'' False), st)
      else (case storage_request_of v of
          None \<Rightarrow> (Reply (storage_failure (raw_request_id v) ''failed'' ''storage request is malformed'' False), st)
        | Some q \<Rightarrow> admit_request cfg now n q (sn_size cfg v) st))"

text \<open>The budget callback: the aggregate byte budget that so many more bytes would pass, if any.\<close>

type_synonym session_budget = "nat \<Rightarrow> string option"

definition refuse_commit :: "nat \<Rightarrow> string \<Rightarrow> 'd session_store \<Rightarrow> 'd session_store" where
  "refuse_commit f message st =
     (let g = sx_flights st ! f in
      set_stage f (Answered (storage_failure (sq_id (fg_request g)) ''limit'' message False))
        (update_claim (fg_claim g) (\<lambda>c. c\<lparr>cm_exceeded := True\<rparr>) st))"

definition check_commit :: "'d session_config \<Rightarrow> session_budget \<Rightarrow> nat \<Rightarrow> nat \<Rightarrow> 'd session_store \<Rightarrow> 'd session_store" where
  "check_commit cfg budget f b st =
     (let g = sx_flights st ! f; n = fg_claim g; q = fg_request g;
          st1 = record_size (cm_lineage (sx_claims st ! n)) b st
      in if sn_max_lineage cfg < b then refuse_commit f ''durable session exceeds its size limit'' st1
         else (case budget (fg_bytes g) of
             Some name \<Rightarrow> refuse_commit f (''durable session would exceed the '' @ name @ '' agent session byte budget'') st1
           | None \<Rightarrow> set_stage f Calling (update_claim n (remember_flight cfg (sq_id q) (sq_method q) f) st1)))"

definition answer_flight :: "'d session_config \<Rightarrow> nat \<Rightarrow> storage_response \<Rightarrow> 'd session_store \<Rightarrow> 'd session_store" where
  "answer_flight cfg f r st =
     (let g = sx_flights st ! f; q = fg_request g in
      set_stage f (Answered r)
        (if sq_method q \<in> set non_idempotent_methods then update_claim (fg_claim g) (settle_remembered cfg (sq_id q) f r) st else st))"

definition call_flight :: "'d session_config \<Rightarrow> nat \<Rightarrow> 'd session_store \<Rightarrow> 'd session_store" where
  "call_flight cfg f st =
     (let g = sx_flights st ! f; q = fg_request g in
      if sq_method q = ''close'' then answer_flight cfg f (StorageOk (sq_id q) None) st
      else (case call_backend cfg (cm_handle (sx_claims st ! fg_claim g)) (sq_method q) (storage_args (sq_args q)) st of (r, st1) \<Rightarrow>
        (let resp = run_response cfg (sq_id q) r in
         if sq_method q = ''commit'' \<and> response_ok resp
         then set_stage f (Called resp) (update_claim (fg_claim g) (\<lambda>c. c\<lparr>cm_private := True\<rparr>) st1)
         else answer_flight cfg f resp st1)))"

definition finish_commit :: "'d session_config \<Rightarrow> session_budget \<Rightarrow> nat \<Rightarrow> storage_response \<Rightarrow> nat \<Rightarrow> 'd session_store \<Rightarrow> 'd session_store" where
  "finish_commit cfg budget f resp b st =
     (let g = sx_flights st ! f; n = fg_claim g;
          st1 = (if claim_current n st then record_size (cm_lineage (sx_claims st ! n)) b st else st);
          st2 = (if sn_max_lineage cfg < b \<or> budget 0 \<noteq> None then update_claim n (\<lambda>c. c\<lparr>cm_exceeded := True\<rparr>) st1 else st1)
      in answer_flight cfg f resp st2)"

definition flight_database_bytes :: "'d session_config \<Rightarrow> nat \<Rightarrow> 'd session_store \<Rightarrow> nat" where
  "flight_database_bytes cfg f st = database_bytes cfg (cm_lineage (sx_claims st ! fg_claim (sx_flights st ! f))) st"

definition advance_flight :: "'d session_config \<Rightarrow> session_budget \<Rightarrow> nat \<Rightarrow> 'd session_store \<Rightarrow> 'd session_store" where
  "advance_flight cfg budget f st =
     (if f < length (sx_flights st)
      then (case fg_stage (sx_flights st ! f) of
          Measuring \<Rightarrow> set_stage f (Measured (flight_database_bytes cfg f st)) st
        | Measured b \<Rightarrow> check_commit cfg budget f b st
        | Calling \<Rightarrow> call_flight cfg f st
        | Called resp \<Rightarrow> set_stage f (Sized resp (flight_database_bytes cfg f st)) st
        | Sized resp b \<Rightarrow> finish_commit cfg budget f resp b st
        | Answered _ \<Rightarrow> st
        | Lost \<Rightarrow> st)
      else st)"

section \<open>Steps\<close>

definition unsettled :: "flight_stage \<Rightarrow> bool" where
  "unsettled s = (case s of Answered _ \<Rightarrow> False | Lost \<Rightarrow> False | _ \<Rightarrow> True)"

definition claim_idle :: "nat \<Rightarrow> 'd session_store \<Rightarrow> bool" where
  "claim_idle n st = list_all (\<lambda>f. fg_claim f = n \<longrightarrow> \<not> unsettled (fg_stage f)) (sx_flights st)"

text \<open>\<open>seal\<close> waits for the claim's last commit.\<close>

definition last_commit_settled :: "nat \<Rightarrow> 'd session_store \<Rightarrow> bool" where
  "last_commit_settled n st = (case cm_last (sx_claims st ! n) of None \<Rightarrow> True
     | Some (_, f) \<Rightarrow> f < length (sx_flights st) \<and> \<not> unsettled (fg_stage (sx_flights st ! f)))"

inductive session_step :: "'d session_config \<Rightarrow> 'd session_store \<Rightarrow> 'd session_store \<Rightarrow> bool" for cfg where
  claims: "session_step cfg st (snd (claim_lineage cfg now w l m st))"
| releases: "session_step cfg st (release_claim cfg n st)"
| seals: "last_commit_settled n st \<Longrightarrow> session_step cfg st (snd (seal_claim cfg n st))"
| inspects: "session_step cfg st (snd (inspect_pending cfg l st))"
| measures: "session_step cfg st (measure_store cfg st)"
| deletes: "session_step cfg st (snd (delete_lineage cfg l st))"
| closes: "session_step cfg st (close_store cfg st)"
| restarts: "session_step cfg st (restart_store st)"
| requests: "claim_idle n st \<Longrightarrow> session_step cfg st (snd (start_request cfg now n v st))"
| advances: "session_step cfg st (advance_flight cfg budget f st)"

inductive session_reachable :: "'d session_config \<Rightarrow> 'd session_store \<Rightarrow> bool" for cfg where
  start: "new_session_store cfg = Inr st \<Longrightarrow> session_reachable cfg st"
| step: "session_reachable cfg st \<Longrightarrow> session_step cfg st st' \<Longrightarrow> session_reachable cfg st'"

end
