(* ===== verification/SessionFacts.thy ===== *)
theory SessionFacts
  imports SessionOperations
begin

text \<open>
  What holds of the session store between steps, in two parts that do not meet: \<open>links_ok\<close> ties lineages, claims,
  open handles, files and owner marks together; \<open>memo_ok\<close> is the account of remembered responses against the
  requests that produced them.
\<close>

section \<open>Configuration\<close>

definition session_config_ok :: "'d session_config \<Rightarrow> bool" where
  "session_config_ok cfg = (0 < sn_max_lineage cfg \<and> 0 < sn_max_remembered cfg \<and> 1 \<le> sn_burst cfg \<and> 0 < sn_per_second cfg)"

lemma new_session_store_Inr [simp]: "new_session_store cfg = Inr st \<longleftrightarrow> session_config_ok cfg \<and> st = empty_session_store"
  by (auto simp: new_session_store_def session_config_ok_def)

section \<open>Links\<close>

text \<open>The part of a claim that never changes.\<close>

definition claim_key :: "session_claim \<Rightarrow> string \<times> owner_mark \<times> nat" where
  "claim_key c = (cm_lineage c, cm_mark c, cm_handle c)"

definition claim_keys :: "'d session_store \<Rightarrow> (string \<times> owner_mark \<times> nat) list" where
  "claim_keys st = map claim_key (sx_claims st)"

definition bucket_ok :: "'d session_config \<Rightarrow> lineage_state \<Rightarrow> bool" where
  "bucket_ok cfg g = (0 \<le> ln_tokens g \<and> ln_tokens g \<le> sn_burst cfg)"

definition lineage_ok :: "'d session_config \<Rightarrow> 'd session_store \<Rightarrow> string \<Rightarrow> lineage_state \<Rightarrow> bool" where
  "lineage_ok cfg st l g =
     (bucket_ok cfg g
      \<and> (\<forall>h. ln_handle g = Some h \<longrightarrow> jget (sx_open st) h = Some l)
      \<and> (\<forall>n. ln_active g = Some n \<longrightarrow> n < length (claim_keys st)
           \<and> (\<exists>m h. claim_keys st ! n = (l, m, h) \<and> ln_handle g = Some h \<and> stored_mark l st = Inr (Some m))))"

definition handle_ok :: "'d session_store \<Rightarrow> nat \<Rightarrow> string \<Rightarrow> bool" where
  "handle_ok st h l =
     (h < sx_next st \<and> jhas (sx_files st) l
      \<and> (\<exists>g. jget (sx_lineages st) l = Some g \<and> ln_handle g = Some h))"

definition mark_ok :: "owner_mark \<Rightarrow> bool" where
  "mark_ok m = (lineage_id_ok (om_agent m) \<and> mark_value_ok (om_epoch m) \<and> mark_value_ok (om_generation m))"

definition key_ok :: "'d session_store \<Rightarrow> string \<times> owner_mark \<times> nat \<Rightarrow> bool" where
  "key_ok st k = (case k of (l, m, h) \<Rightarrow> lineage_id_ok l \<and> mark_ok m \<and> h < sx_next st)"

definition owner_file_ok :: "json option \<Rightarrow> bool" where
  "owner_file_ok text = (case read_mark text of Inl _ \<Rightarrow> False | Inr m \<Rightarrow> mark_ok m)"

definition links_ok :: "'d session_config \<Rightarrow> 'd session_store \<Rightarrow> bool" where
  "links_ok cfg st =
     (jok (sx_files st) \<and> jok (sx_owners st) \<and> jok (sx_lineages st) \<and> jok (sx_sizes st) \<and> jok (sx_open st)
      \<and> (\<forall>l g. jget (sx_lineages st) l = Some g \<longrightarrow> lineage_ok cfg st l g)
      \<and> (\<forall>h l. jget (sx_open st) h = Some l \<longrightarrow> handle_ok st h l)
      \<and> (\<forall>k \<in> set (claim_keys st). key_ok st k)
      \<and> (\<forall>l text. jget (sx_owners st) l = Some text \<longrightarrow> owner_file_ok text))"

section \<open>Memo\<close>

definition flight_size :: "'d session_config \<Rightarrow> flight \<Rightarrow> nat" where
  "flight_size cfg g = (case fg_stage g of Answered r \<Rightarrow> sn_size cfg (response_json r) | _ \<Rightarrow> 0)"

definition entry_ok :: "'d session_config \<Rightarrow> flight list \<Rightarrow> nat \<Rightarrow> string \<Rightarrow> nat \<times> nat \<Rightarrow> bool" where
  "entry_ok cfg fs n i e = (case e of (f, b) \<Rightarrow> f < length fs \<and> fg_claim (fs ! f) = n \<and> sq_id (fg_request (fs ! f)) = i
     \<and> sq_method (fg_request (fs ! f)) \<in> set non_idempotent_methods \<and> b = flight_size cfg (fs ! f))"

definition memo_bytes :: "(string, nat \<times> nat) jmap \<Rightarrow> int" where
  "memo_bytes m = msum (\<lambda>e. int (snd e)) m"

definition claim_memo_ok :: "'d session_config \<Rightarrow> flight list \<Rightarrow> nat \<Rightarrow> session_claim \<Rightarrow> bool" where
  "claim_memo_ok cfg fs n c =
     (jok (cm_responses c) \<and> length (cm_responses c) \<le> max_remembered_responses
      \<and> cm_remembered c = memo_bytes (cm_responses c) \<and> cm_remembered c \<le> int (sn_max_remembered cfg)
      \<and> (\<forall>i e. jget (cm_responses c) i = Some e \<longrightarrow> entry_ok cfg fs n i e)
      \<and> (case cm_last c of None \<Rightarrow> True | Some (i, f) \<Rightarrow> f < length fs \<and> fg_claim (fs ! f) = n
           \<and> sq_id (fg_request (fs ! f)) = i \<and> sq_method (fg_request (fs ! f)) = ''commit''))"

definition before_memo :: "flight_stage \<Rightarrow> bool" where
  "before_memo s = (case s of Measuring \<Rightarrow> True | Measured _ \<Rightarrow> True | _ \<Rightarrow> False)"

definition commit_stage :: "flight_stage \<Rightarrow> bool" where
  "commit_stage s = (case s of Measuring \<Rightarrow> True | Measured _ \<Rightarrow> True | Called _ \<Rightarrow> True | Sized _ _ \<Rightarrow> True | _ \<Rightarrow> False)"

lemma stage_simps [simp]:
  "before_memo Measuring" "before_memo (Measured b)" "\<not> before_memo Calling" "\<not> before_memo (Called r)" "\<not> before_memo (Sized r b)" "\<not> before_memo (Answered r)" "\<not> before_memo Lost"
  "commit_stage Measuring" "commit_stage (Measured b)" "\<not> commit_stage Calling" "commit_stage (Called r)" "commit_stage (Sized r b)" "\<not> commit_stage (Answered r)" "\<not> commit_stage Lost"
  "unsettled Measuring" "unsettled (Measured b)" "unsettled Calling" "unsettled (Called r)" "unsettled (Sized r b)" "\<not> unsettled (Answered r)" "\<not> unsettled Lost"
  by (simp_all add: before_memo_def commit_stage_def unsettled_def)

definition flight_ok :: "session_claim list \<Rightarrow> flight \<Rightarrow> bool" where
  "flight_ok cs g = (fg_claim g < length cs
     \<and> (commit_stage (fg_stage g) \<longrightarrow> sq_method (fg_request g) = ''commit'')
     \<and> (before_memo (fg_stage g) \<longrightarrow> jget (cm_responses (cs ! fg_claim g)) (sq_id (fg_request g)) = None))"

definition memo_ok :: "'d session_config \<Rightarrow> session_claim list \<Rightarrow> flight list \<Rightarrow> bool" where
  "memo_ok cfg cs fs =
     ((\<forall>n < length cs. claim_memo_ok cfg fs n (cs ! n)) \<and> (\<forall>f < length fs. flight_ok cs (fs ! f))
      \<and> (\<forall>f < length fs. \<forall>f' < length fs. unsettled (fg_stage (fs ! f)) \<and> unsettled (fg_stage (fs ! f'))
           \<and> fg_claim (fs ! f) = fg_claim (fs ! f') \<longrightarrow> f = f'))"

definition session_ok :: "'d session_config \<Rightarrow> 'd session_store \<Rightarrow> bool" where
  "session_ok cfg st = (session_config_ok cfg \<and> links_ok cfg st \<and> memo_ok cfg (sx_claims st) (sx_flights st))"

section \<open>Frames\<close>

text \<open>The fields each primitive leaves alone.\<close>

lemma update_claim_fields [simp]:
  "sx_files (update_claim n f st) = sx_files st" "sx_owners (update_claim n f st) = sx_owners st"
  "sx_temporaries (update_claim n f st) = sx_temporaries st" "sx_lineages (update_claim n f st) = sx_lineages st"
  "sx_sizes (update_claim n f st) = sx_sizes st" "sx_open (update_claim n f st) = sx_open st"
  "sx_next (update_claim n f st) = sx_next st" "sx_flights (update_claim n f st) = sx_flights st"
  "length (sx_claims (update_claim n f st)) = length (sx_claims st)"
  by (simp_all add: update_claim_def)

lemma set_stage_fields [simp]:
  "sx_files (set_stage f s st) = sx_files st" "sx_owners (set_stage f s st) = sx_owners st"
  "sx_temporaries (set_stage f s st) = sx_temporaries st" "sx_lineages (set_stage f s st) = sx_lineages st"
  "sx_sizes (set_stage f s st) = sx_sizes st" "sx_open (set_stage f s st) = sx_open st"
  "sx_next (set_stage f s st) = sx_next st" "sx_claims (set_stage f s st) = sx_claims st"
  "length (sx_flights (set_stage f s st)) = length (sx_flights st)"
  by (simp_all add: set_stage_def)

lemma record_size_fields [simp]:
  "sx_files (record_size l b st) = sx_files st" "sx_owners (record_size l b st) = sx_owners st"
  "sx_temporaries (record_size l b st) = sx_temporaries st" "sx_lineages (record_size l b st) = sx_lineages st"
  "sx_open (record_size l b st) = sx_open st" "sx_next (record_size l b st) = sx_next st"
  "sx_claims (record_size l b st) = sx_claims st" "sx_flights (record_size l b st) = sx_flights st"
  by (simp_all add: record_size_def)

lemma measure_lineage_fields [simp]:
  "sx_files (measure_lineage cfg l st) = sx_files st" "sx_owners (measure_lineage cfg l st) = sx_owners st"
  "sx_temporaries (measure_lineage cfg l st) = sx_temporaries st" "sx_lineages (measure_lineage cfg l st) = sx_lineages st"
  "sx_open (measure_lineage cfg l st) = sx_open st" "sx_next (measure_lineage cfg l st) = sx_next st"
  "sx_claims (measure_lineage cfg l st) = sx_claims st" "sx_flights (measure_lineage cfg l st) = sx_flights st"
  by (simp_all add: measure_lineage_def)

lemma claim_keys_fields [simp]:
  "claim_keys (record_size l b st) = claim_keys st" "claim_keys (measure_lineage cfg l st) = claim_keys st"
  "claim_keys (set_stage f s st) = claim_keys st"
  by (simp_all add: claim_keys_def)

lemma claim_keys_update: "(\<And>c. claim_key (f c) = claim_key c) \<Longrightarrow> claim_keys (update_claim n f st) = claim_keys st"
  by (rule nth_equalityI) (auto simp: claim_keys_def update_claim_def nth_list_update split: if_splits)

lemma length_claim_keys [simp]: "length (claim_keys st) = length (sx_claims st)"
  by (simp add: claim_keys_def)

lemma claim_keys_nth: "n < length (sx_claims st) \<Longrightarrow> claim_keys st ! n = claim_key (sx_claims st ! n)"
  by (simp add: claim_keys_def)

text \<open>\<open>links_ok\<close> looks at these fields only, and handle numbers may be skipped.\<close>

lemma links_ok_cong:
  assumes "sx_owners st' = sx_owners st" "sx_lineages st' = sx_lineages st" "sx_open st' = sx_open st"
    "sx_next st \<le> sx_next st'" "claim_keys st' = claim_keys st" "jok (sx_sizes st')" "jok (sx_files st')"
    "\<And>l. jhas (sx_files st) l \<Longrightarrow> jhas (sx_files st') l" and ok: "links_ok cfg st"
  shows "links_ok cfg st'"
proof -
  have stored: "stored_mark l st' = stored_mark l st" for l
    using assms(1) by (simp add: stored_mark_def)
  have lineages: "lineage_ok cfg st' = lineage_ok cfg st"
    by (simp only: fun_eq_iff lineage_ok_def stored assms simp_thms)
  have handles: "handle_ok st h l \<Longrightarrow> handle_ok st' h l" for h l
    using assms(4) by (auto simp: handle_ok_def assms(2,8))
  have keys: "key_ok st k \<Longrightarrow> key_ok st' k" for k
    using assms(4) by (auto simp: key_ok_def)
  show ?thesis
    using ok assms handles keys by (auto simp: links_ok_def lineages)
qed

lemma links_okD:
  assumes "links_ok cfg st"
  shows "jok (sx_files st)" "jok (sx_owners st)" "jok (sx_lineages st)" "jok (sx_sizes st)" "jok (sx_open st)"
    "jget (sx_lineages st) l = Some g \<Longrightarrow> lineage_ok cfg st l g"
    "jget (sx_open st) h = Some l \<Longrightarrow> handle_ok st h l"
    "k \<in> set (claim_keys st) \<Longrightarrow> key_ok st k"
    "jget (sx_owners st) l = Some text \<Longrightarrow> owner_file_ok text"
  using assms by (auto simp: links_ok_def)

end
