(* ===== verification/SessionLinks.thy ===== *)
theory SessionLinks
  imports SessionFacts
begin

text \<open>
  Every operation of the session store keeps \<open>links_ok\<close>: a lineage has at most one owner, whose mark is the one
  on disk and whose handle is the only open one; every open handle belongs to a lineage and has a file.
\<close>

section \<open>Claims written in place\<close>

lemma claim_key_simps [simp]:
  "claim_key (forget_responses c) = claim_key c" "claim_key (evict_remembered cfg c) = claim_key c"
  "claim_key (remember_flight cfg i m f c) = claim_key c" "claim_key (settle_remembered cfg i f r c) = claim_key c"
  "claim_key (c\<lparr>cm_exceeded := x\<rparr>) = claim_key c" "claim_key (c\<lparr>cm_private := x\<rparr>) = claim_key c"
  by (auto simp: claim_key_def forget_responses_def evict_remembered_def remember_flight_def settle_remembered_def Let_def
      split: prod.splits option.splits)

lemmas claim_keys_update_simps [simp] =
  claim_keys_update [of forget_responses, OF claim_key_simps(1)]
  claim_keys_update [of "remember_flight cfg i m f" for cfg i m f, OF claim_key_simps(3)]
  claim_keys_update [of "settle_remembered cfg i f r" for cfg i f r, OF claim_key_simps(4)]
  claim_keys_update [of "\<lambda>c. c\<lparr>cm_exceeded := x\<rparr>" for x, OF claim_key_simps(5)]
  claim_keys_update [of "\<lambda>c. c\<lparr>cm_private := x\<rparr>" for x, OF claim_key_simps(6)]

lemma links_ok_update_claim: "(\<And>c. claim_key (f c) = claim_key c) \<Longrightarrow> links_ok cfg st \<Longrightarrow> links_ok cfg (update_claim n f st)"
  by (rule links_ok_cong [of _ st]) (simp_all add: claim_keys_update links_okD)

lemma links_ok_record_size: "links_ok cfg st \<Longrightarrow> links_ok cfg (record_size l b st)"
  by (rule links_ok_cong [of _ st]) (simp_all add: links_okD record_size_def claim_keys_def)

lemma links_ok_set_stage: "links_ok cfg st \<Longrightarrow> links_ok cfg (set_stage f s st)"
  by (rule links_ok_cong [of _ st]) (simp_all add: links_okD)

section \<open>Lineages\<close>

lemma claim_keys_lineages [simp]:
  "claim_keys (st\<lparr>sx_lineages := x\<rparr>) = claim_keys st" "claim_keys (st\<lparr>sx_open := y\<rparr>) = claim_keys st"
  "claim_keys (st\<lparr>sx_files := z\<rparr>) = claim_keys st" "claim_keys (st\<lparr>sx_owners := w\<rparr>) = claim_keys st"
  "claim_keys (st\<lparr>sx_sizes := v\<rparr>) = claim_keys st" "claim_keys (st\<lparr>sx_flights := u\<rparr>) = claim_keys st"
  "claim_keys (st\<lparr>sx_temporaries := t\<rparr>) = claim_keys st" "claim_keys (st\<lparr>sx_next := n\<rparr>) = claim_keys st"
  by (simp_all add: claim_keys_def)

lemma stored_mark_fields [simp]:
  "stored_mark l (st\<lparr>sx_lineages := x\<rparr>) = stored_mark l st" "stored_mark l (st\<lparr>sx_open := y\<rparr>) = stored_mark l st"
  "stored_mark l (st\<lparr>sx_files := z\<rparr>) = stored_mark l st" "stored_mark l (st\<lparr>sx_claims := w\<rparr>) = stored_mark l st"
  "stored_mark l (st\<lparr>sx_next := n\<rparr>) = stored_mark l st" "stored_mark l (st\<lparr>sx_flights := u\<rparr>) = stored_mark l st"
  "stored_mark l (st\<lparr>sx_sizes := v\<rparr>) = stored_mark l st"
  by (simp_all add: stored_mark_def)

text \<open>A lineage written over, with the same handle, keeps the links when it is in order itself.\<close>

lemma links_ok_set_lineage:
  assumes ok: "links_ok cfg st" and old: "jget (sx_lineages st) l = Some g" and handle: "ln_handle g' = ln_handle g"
    and new: "lineage_ok cfg st l g'"
  shows "links_ok cfg (st\<lparr>sx_lineages := jset l g' (sx_lineages st)\<rparr>)"
proof -
  have "lineage_ok cfg (st\<lparr>sx_lineages := jset l g' (sx_lineages st)\<rparr>) = lineage_ok cfg st"
    by (simp add: fun_eq_iff lineage_ok_def)
  moreover have "handle_ok (st\<lparr>sx_lineages := jset l g' (sx_lineages st)\<rparr>) h l' = handle_ok st h l'" for h l'
    by (simp add: handle_ok_def old handle)
  ultimately show ?thesis
    using ok new by (auto simp: links_ok_def key_ok_def)
qed

lemma links_ok_ensure_lineage:
  assumes ok: "links_ok cfg st" and cfg: "session_config_ok cfg"
  shows "links_ok cfg (ensure_lineage cfg now l st)"
proof (cases "jget (sx_lineages st) l")
  case None
  have "lineage_ok cfg (ensure_lineage cfg now l st) = lineage_ok cfg st"
    by (simp add: fun_eq_iff lineage_ok_def ensure_lineage_def None)
  moreover have "handle_ok st h l' \<Longrightarrow> handle_ok (ensure_lineage cfg now l st) h l'" for h l'
    using None by (cases "l' = l") (simp_all add: handle_ok_def ensure_lineage_def)
  moreover have "lineage_ok cfg st l (fresh_lineage cfg now)"
    using cfg by (simp add: lineage_ok_def fresh_lineage_def bucket_ok_def session_config_ok_def)
  ultimately show ?thesis
    using ok None by (auto simp: links_ok_def key_ok_def ensure_lineage_def)
qed (simp add: ensure_lineage_def ok)

lemma links_ok_deactivate:
  assumes "links_ok cfg st" shows "links_ok cfg (deactivate l st)"
proof (cases "jget (sx_lineages st) l")
  case (Some g)
  have "lineage_ok cfg st l (g\<lparr>ln_active := None\<rparr>)"
    using links_okD(6) [OF assms Some] by (auto simp: lineage_ok_def bucket_ok_def split: option.splits)
  then have "links_ok cfg (st\<lparr>sx_lineages := jset l (g\<lparr>ln_active := None\<rparr>) (sx_lineages st)\<rparr>)"
    by (intro links_ok_set_lineage [OF assms Some]) simp_all
  then show ?thesis
    by (simp add: deactivate_def Some links_ok_update_claim split: option.split)
qed (simp add: deactivate_def assms)

lemma deactivate_fields [simp]:
  "sx_files (deactivate l st) = sx_files st" "sx_owners (deactivate l st) = sx_owners st"
  "sx_temporaries (deactivate l st) = sx_temporaries st" "sx_sizes (deactivate l st) = sx_sizes st"
  "sx_open (deactivate l st) = sx_open st" "sx_next (deactivate l st) = sx_next st"
  "sx_flights (deactivate l st) = sx_flights st" "length (sx_claims (deactivate l st)) = length (sx_claims st)"
  "claim_keys (deactivate l st) = claim_keys st"
  "jget (sx_lineages (deactivate l st)) l'
     = (case jget (sx_lineages st) l' of None \<Rightarrow> None | Some g \<Rightarrow> Some (if l' = l then g\<lparr>ln_active := None\<rparr> else g))"
  by (auto simp: deactivate_def split: option.split)

section \<open>Handles\<close>

lemma handle_unique:
  assumes "links_ok cfg st" "jget (sx_open st) h = Some l" "jget (sx_open st) h' = Some l"
  shows "h = h'"
  using links_okD(7) [OF assms(1,2)] links_okD(7) [OF assms(1,3)] by (auto simp: handle_ok_def)

text \<open>Closing the lineage's own handle while the lineage leaves the map.\<close>

lemma links_ok_close_lineage:
  assumes ok: "links_ok cfg st" and files: "jok files'" "\<And>l'. jhas files' l' = jhas (sx_files st) l'"
    and closed: "\<And>h. jget opened h = (if jget (sx_open st) h = Some l then None else jget (sx_open st) h)" "jok opened"
  shows "links_ok cfg (st\<lparr>sx_lineages := jdel l (sx_lineages st), sx_open := opened, sx_files := files'\<rparr>)"
    (is "links_ok cfg ?st")
proof -
  have "lineage_ok cfg ?st l' g" if "jget (sx_lineages st) l' = Some g" "l' \<noteq> l" for l' g
    using links_okD(6) [OF ok that(1)] that(2) by (auto simp: lineage_ok_def closed split: option.splits)
  moreover have "handle_ok ?st h l'" if "jget opened h = Some l'" for h l'
    using that links_okD(7) [OF ok, of h l'] by (auto simp: handle_ok_def closed files split: if_splits)
  ultimately show ?thesis
    using ok files closed(2) by (auto simp: links_ok_def key_ok_def)
qed

lemma links_ok_close:
  assumes ok: "links_ok cfg st" shows "links_ok cfg (close_lineage cfg l st)"
proof -
  have measured: "links_ok cfg st' \<Longrightarrow> links_ok cfg (measure_lineage cfg l st')" for st'
    by (simp add: measure_lineage_def links_ok_record_size)
  have alone: "links_ok cfg (st\<lparr>sx_lineages := jdel l (sx_lineages st)\<rparr>)" if none: "\<And>h. jget (sx_open st) h \<noteq> Some l"
    using links_ok_close_lineage [OF ok, where files' = "sx_files st" and l = l and opened = "sx_open st"] none links_okD [OF ok] by simp
  show ?thesis
  proof (cases "\<exists>g h. jget (sx_lineages st) l = Some g \<and> ln_handle g = Some h")
    case False
    then have "jget (sx_open st) h \<noteq> Some l" for h
      using links_okD(7) [OF ok, of h l] by (auto simp: handle_ok_def)
    from alone [OF this] show ?thesis
      using False by (auto simp: close_lineage_def Let_def measured split: option.split)
  next
    case True
    then obtain g h where g: "jget (sx_lineages st) l = Some g" "ln_handle g = Some h" by blast
    then have h: "jget (sx_open st) h = Some l"
      using links_okD(6) [OF ok] by (auto simp: lineage_ok_def)
    let ?files = "case jget (sx_files st) l of None \<Rightarrow> sx_files st | Some d \<Rightarrow> jset l (sn_close cfg d) (sx_files st)"
    have "links_ok cfg (st\<lparr>sx_lineages := jdel l (sx_lineages st), sx_open := jdel h (sx_open st), sx_files := ?files\<rparr>)"
    proof (rule links_ok_close_lineage [OF ok])
      show "jok ?files" "jok (jdel h (sx_open st))" using links_okD [OF ok] by (simp_all split: option.split)
      show "jhas ?files l' = jhas (sx_files st) l'" for l' by (auto simp: jhas_def split: option.split)
      show "jget (jdel h (sx_open st)) h' = (if jget (sx_open st) h' = Some l then None else jget (sx_open st) h')" for h'
        using handle_unique [OF ok h, of h'] h by (cases "h' = h") (simp, metis jmap_simps(3))
    qed
    moreover have "close_lineage cfg l st
        = measure_lineage cfg l (st\<lparr>sx_lineages := jdel l (sx_lineages st), sx_open := jdel h (sx_open st), sx_files := ?files\<rparr>)"
      by (simp add: close_lineage_def close_handle_def g h Let_def split: option.split)
    ultimately show ?thesis
      by (simp only: measured)
  qed
qed

lemma links_ok_end_lineage: "links_ok cfg st \<Longrightarrow> links_ok cfg (end_lineage cfg l st)"
  by (simp add: end_lineage_def links_ok_close links_ok_deactivate)

section \<open>Backend calls\<close>

lemma call_backend_fields:
  assumes "call_backend cfg h m args st = (r, st')"
  shows "sx_owners st' = sx_owners st" "sx_temporaries st' = sx_temporaries st" "sx_lineages st' = sx_lineages st"
    "sx_sizes st' = sx_sizes st" "sx_open st' = sx_open st" "sx_next st' = sx_next st" "sx_claims st' = sx_claims st"
    "sx_flights st' = sx_flights st" "jhas (sx_files st') l = jhas (sx_files st) l" "jok (sx_files st) \<Longrightarrow> jok (sx_files st')"
  using assms by (auto simp: call_backend_def jhas_def split: option.splits prod.splits if_splits)

lemma scan_live_tasks_fields:
  "scan_live_tasks cfg h ss st = (r, st') \<Longrightarrow> sx_owners st' = sx_owners st \<and> sx_temporaries st' = sx_temporaries st
     \<and> sx_lineages st' = sx_lineages st \<and> sx_sizes st' = sx_sizes st \<and> sx_open st' = sx_open st \<and> sx_next st' = sx_next st
     \<and> sx_claims st' = sx_claims st \<and> sx_flights st' = sx_flights st \<and> (\<forall>l. jhas (sx_files st') l = jhas (sx_files st) l)
     \<and> (jok (sx_files st) \<longrightarrow> jok (sx_files st'))"
proof (induction cfg h ss st rule: scan_live_tasks.induct)
  case (2 cfg h s ss st)
  obtain r1 st1 where call: "call_backend cfg h ''scanTasks'' (live_task_query s) st = (r1, st1)"
    by (metis surj_pair)
  show ?case
    using 2(2) 2(1) [OF call [symmetric]] call_backend_fields [OF call]
    by (auto simp: call split: option.splits if_splits)
qed simp

lemmas has_live_tasks_fields = scan_live_tasks_fields [where ss = live_task_statuses, folded has_live_tasks_def]

lemma links_ok_call_backend: "call_backend cfg h m args st = (r, st') \<Longrightarrow> links_ok cfg st \<Longrightarrow> links_ok cfg st'"
  by (rule links_ok_cong [of _ st]) (simp_all add: call_backend_fields links_okD claim_keys_def)

lemma links_ok_has_live_tasks: "has_live_tasks cfg h st = (r, st') \<Longrightarrow> links_ok cfg st \<Longrightarrow> links_ok cfg st'"
  by (drule has_live_tasks_fields, rule links_ok_cong [of _ st]) (simp_all add: links_okD claim_keys_def)

lemma links_ok_release: "links_ok cfg st \<Longrightarrow> links_ok cfg (release_claim cfg n st)"
  by (simp add: release_claim_def links_ok_end_lineage)

lemma links_ok_seal: "links_ok cfg st \<Longrightarrow> links_ok cfg (snd (seal_claim cfg n st))"
  by (auto simp: seal_claim_def Let_def links_ok_end_lineage links_ok_has_live_tasks split: prod.split)

section \<open>Opening\<close>

lemma jdel_jset [simp]: "jget m k = None \<Longrightarrow> jdel k (jset k v m) = m"
  by (induction k v m rule: jset.induct) (auto simp: jdel_def jget_Cons jdel_absent [unfolded jdel_def] split: if_splits)

lemma fresh_handle: "links_ok cfg st \<Longrightarrow> jget (sx_open st) (sx_next st) = None"
  using links_okD(7) [of cfg st "sx_next st"] by (cases "jget (sx_open st) (sx_next st)") (auto simp: handle_ok_def)

lemma open_database_fields:
  assumes "open_database cfg l st = (r, st')"
  shows "sx_owners st' = sx_owners st" "sx_temporaries st' = sx_temporaries st" "sx_lineages st' = sx_lineages st"
    "sx_sizes st' = sx_sizes st" "sx_claims st' = sx_claims st" "sx_flights st' = sx_flights st"
    "jhas (sx_files st') l' \<longleftrightarrow> l' = l \<or> jhas (sx_files st) l'" "jok (sx_files st) \<Longrightarrow> jok (sx_files st')"
    "r = Inl e \<Longrightarrow> sx_open st' = sx_open st \<and> sx_next st' = sx_next st"
    "r = Inr h \<Longrightarrow> h = sx_next st \<and> sx_open st' = jset h l (sx_open st) \<and> sx_next st' = Suc (sx_next st)"
  using assms by (auto simp: open_database_def Let_def jhas_def split: option.splits sum.splits)

lemma links_ok_inspect:
  assumes ok: "links_ok cfg st" shows "links_ok cfg (snd (inspect_pending cfg l st))"
proof (cases "\<not> sn_enabled cfg \<or> \<not> sn_dir cfg \<or> \<not> lineage_id_ok l \<or> active_claim l st \<noteq> None \<or> \<not> jhas (sx_files st) l")
  case True
  then show ?thesis by (auto simp: inspect_pending_def ok)
next
  case False
  obtain r st1 where opened: "open_database cfg l st = (r, st1)" by (metis surj_pair)
  note o = open_database_fields [OF opened]
  have files: "jhas (sx_files st1) l' = jhas (sx_files st) l'" for l'
    using o(7) [of l'] False by auto
  show ?thesis
  proof (cases r)
    case (Inl e)
    have "links_ok cfg (measure_lineage cfg l st1)"
      unfolding measure_lineage_def
      by (rule links_ok_record_size, rule links_ok_cong [OF _ _ _ _ _ _ _ _ ok])
        (use o links_okD [OF ok] files Inl in \<open>simp_all add: claim_keys_def\<close>)
    then show ?thesis using False by (auto simp: inspect_pending_def opened Inl)
  next
    case (Inr h)
    obtain live st2 where live: "has_live_tasks cfg h st1 = (live, st2)" by (metis surj_pair)
    note t = has_live_tasks_fields [OF live]
    have h: "h = sx_next st" "jget (sx_open st2) h = Some l" "jdel h (sx_open st2) = sx_open st"
      using o(10) [OF Inr] t fresh_handle [OF ok] by auto
    have "links_ok cfg (measure_lineage cfg l (close_handle cfg h st2))"
      unfolding measure_lineage_def
      by (rule links_ok_record_size, rule links_ok_cong [OF _ _ _ _ _ _ _ _ ok])
        (use o t links_okD [OF ok] files o(10) [OF Inr] h in \<open>auto simp: claim_keys_def close_handle_def jhas_def split: option.split\<close>)
    then show ?thesis using False by (auto simp: inspect_pending_def opened Inr live Let_def)
  qed
qed

section \<open>Claiming\<close>

text \<open>A lineage without a handle is given a fresh one.\<close>

lemma links_ok_attach:
  assumes ok: "links_ok cfg st" and g: "jget (sx_lineages st) l = Some g" "ln_handle g = None"
    and st': "sx_owners st' = sx_owners st" "claim_keys st' = claim_keys st" "jok (sx_sizes st')" "jok (sx_files st')"
    "\<And>l'. jhas (sx_files st') l' \<longleftrightarrow> l' = l \<or> jhas (sx_files st) l'"
    "sx_open st' = jset (sx_next st) l (sx_open st)" "sx_next st' = Suc (sx_next st)"
    "sx_lineages st' = jset l (g\<lparr>ln_handle := Some (sx_next st)\<rparr>) (sx_lineages st)"
  shows "links_ok cfg st'"
proof -
  have stored: "stored_mark l' st' = stored_mark l' st" for l' using st'(1) by (simp add: stored_mark_def)
  note fresh = fresh_handle [OF ok]
  have "lineage_ok cfg st' l (g\<lparr>ln_handle := Some (sx_next st)\<rparr>)"
    using links_okD(6) [OF ok g(1)] g(2) by (auto simp: lineage_ok_def bucket_ok_def st')
  moreover have "lineage_ok cfg st' l' g'" if "jget (sx_lineages st) l' = Some g'" for l' g'
    using links_okD(6) [OF ok that] fresh by (auto simp: lineage_ok_def st' stored)
  moreover have "handle_ok st' h l'" if "jget (sx_open st) h = Some l'" for h l'
    using links_okD(7) [OF ok that] g that by (auto simp: handle_ok_def st')
  moreover have "handle_ok st' (sx_next st) l"
    by (auto simp: handle_ok_def st')
  moreover have "key_ok st' k" if "key_ok st k" for k
    using that by (auto simp: key_ok_def st')
  ultimately show ?thesis
    using ok st'(3,4) by (simp add: links_ok_def st'(1,2,6,8))
qed

lemma links_ok_ensure_open:
  assumes ok: "links_ok cfg st" and run: "ensure_open cfg l st = (r, st')"
  shows "links_ok cfg st'"
proof (cases "\<exists>g. jget (sx_lineages st) l = Some g \<and> ln_handle g = None")
  case True
  then obtain g where g: "jget (sx_lineages st) l = Some g" "ln_handle g = None" by blast
  obtain o' st1 where opened: "open_database cfg l st = (o', st1)" by (metis surj_pair)
  note f = open_database_fields [OF opened]
  show ?thesis
  proof (cases o')
    case (Inl e)
    have "links_ok cfg st1"
      by (rule links_ok_cong [OF _ _ _ _ _ _ _ _ ok]) (use f Inl links_okD [OF ok] in \<open>simp_all add: claim_keys_def\<close>)
    then show ?thesis using run by (simp add: ensure_open_def g opened Inl)
  next
    case (Inr h)
    have "links_ok cfg (st1\<lparr>sx_lineages := jset l (g\<lparr>ln_handle := Some h\<rparr>) (sx_lineages st1)\<rparr>)"
      by (rule links_ok_attach [OF ok g]) (use f f(10) [OF Inr] links_okD [OF ok] in \<open>simp_all add: claim_keys_def\<close>)
    then show ?thesis
      using run by (auto simp: ensure_open_def g opened Inr measure_lineage_def intro: links_ok_record_size)
  qed
qed (use run ok in \<open>auto simp: ensure_open_def split: option.splits\<close>)

lemma ensure_open_fields:
  assumes "ensure_open cfg l st = (r, st')"
  shows "sx_owners st' = sx_owners st" "sx_temporaries st' = sx_temporaries st" "sx_claims st' = sx_claims st"
    "sx_flights st' = sx_flights st" "active_claim l' st' = active_claim l' st"
    "r = Inr h \<Longrightarrow> \<exists>g. jget (sx_lineages st') l = Some g \<and> ln_handle g = Some h"
proof -
  obtain o' st1 where opened: "open_database cfg l st = (o', st1)" by (metis surj_pair)
  note o = open_database_fields(1-6) [OF opened]
  show "sx_owners st' = sx_owners st" "sx_temporaries st' = sx_temporaries st" "sx_claims st' = sx_claims st"
    "sx_flights st' = sx_flights st" "active_claim l' st' = active_claim l' st"
    "r = Inr h \<Longrightarrow> \<exists>g. jget (sx_lineages st') l = Some g \<and> ln_handle g = Some h"
    using assms o by (auto simp: ensure_open_def active_claim_def opened split: option.splits sum.splits if_splits)
qed

text \<open>The mark on disk changes while nobody holds the lineage.\<close>

lemma read_mark_json: "mark_ok m \<Longrightarrow> read_mark (Some (mark_json m)) = Inr m"
  by (simp add: read_mark_def mark_json_def mark_fields_def field_Cons mark_ok_def mark_value_ok_def)

lemma owner_file_mark_json: "mark_ok m \<Longrightarrow> owner_file_ok (Some (mark_json m))"
  by (simp add: owner_file_ok_def read_mark_json)

lemma links_ok_set_owner:
  assumes ok: "links_ok cfg st" and idle: "active_claim l st = None" and m: "mark_ok m"
  shows "links_ok cfg (st\<lparr>sx_owners := jset l (Some (mark_json m)) (sx_owners st)\<rparr>)" (is "links_ok cfg ?st")
proof -
  have "lineage_ok cfg ?st l' g" if "jget (sx_lineages st) l' = Some g" for l' g
    using links_okD(6) [OF ok that] idle that by (auto simp: lineage_ok_def active_claim_def stored_mark_def)
  then show ?thesis
    using ok owner_file_mark_json [OF m] by (auto simp: links_ok_def handle_ok_def key_ok_def)
qed

lemma links_ok_new_owner:
  assumes ok: "links_ok cfg st" and idle: "active_claim l st = None" and g: "jget (sx_lineages st) l = Some g" "ln_handle g = Some h"
    and m: "stored_mark l st = Inr (Some m)" "mark_ok m" "lineage_id_ok l"
  shows "links_ok cfg (st\<lparr>sx_claims := sx_claims st @ [new_claim l m h],
     sx_lineages := jset l (g\<lparr>ln_active := Some (length (sx_claims st))\<rparr>) (sx_lineages st)\<rparr>)" (is "links_ok cfg ?st")
proof -
  have keys: "claim_keys (st\<lparr>sx_claims := sx_claims st @ [new_claim l m h]\<rparr>) = claim_keys st @ [(l, m, h)]"
    by (simp add: claim_keys_def claim_key_def new_claim_def)
  have "handle_ok st h l"
    using links_okD(6) [OF ok g(1)] g(2) links_okD(7) [OF ok] by (simp add: lineage_ok_def)
  then have "key_ok ?st (l, m, h)" using m by (simp add: key_ok_def handle_ok_def)
  moreover have "lineage_ok cfg ?st l (g\<lparr>ln_active := Some (length (sx_claims st))\<rparr>)"
    using links_okD(6) [OF ok g(1)] g m by (auto simp: lineage_ok_def bucket_ok_def keys nth_append stored_mark_def)
  moreover have "lineage_ok cfg ?st l' g'" if "jget (sx_lineages st) l' = Some g'" for l' g'
    using links_okD(6) [OF ok that] by (auto simp: lineage_ok_def keys nth_append stored_mark_def)
  moreover have "handle_ok ?st h' l'" if "jget (sx_open st) h' = Some l'" for h' l'
    using links_okD(7) [OF ok that] g by (auto simp: handle_ok_def)
  ultimately show ?thesis
    using ok by (auto simp: links_ok_def keys) (auto simp: key_ok_def)
qed

lemma links_ok_activate:
  assumes ok: "links_ok cfg st" and g: "jget (sx_lineages st) l = Some g" "ln_handle g = Some h"
    and st': "st' = st \<or> st' = st\<lparr>sx_owners := jset l (Some (mark_json m)) (sx_owners st)\<rparr>"
    and m: "stored_mark l st' = Inr (Some m)" "mark_ok m" "lineage_id_ok l"
  shows "links_ok cfg (snd (activate l m h st'))"
proof -
  let ?g = "g\<lparr>ln_active := None\<rparr>"
  have commute: "deactivate l (st\<lparr>sx_owners := x\<rparr>) = (deactivate l st)\<lparr>sx_owners := x\<rparr>" for x
    by (simp add: deactivate_def update_claim_def split: option.split)
  have idle: "active_claim l (deactivate l st) = None"
    by (simp add: active_claim_def g)
  have "links_ok cfg (deactivate l st')"
    using st' links_ok_deactivate [OF ok, of l] links_ok_set_owner [OF links_ok_deactivate [OF ok, of l] idle m(2)]
    by (auto simp: commute)
  moreover have "active_claim l (deactivate l st') = None" "jget (sx_lineages (deactivate l st')) l = Some ?g" "ln_handle ?g = Some h"
    using st' g by (auto simp: active_claim_def)
  moreover have "stored_mark l (deactivate l st') = Inr (Some m)"
    using m(1) by (simp add: stored_mark_def)
  ultimately show ?thesis
    using links_ok_new_owner [of cfg "deactivate l st'" l ?g h m] m by (simp add: activate_def Let_def)
qed

lemma stored_mark_written [simp]: "mark_ok m \<Longrightarrow> stored_mark l (st\<lparr>sx_owners := jset l (Some (mark_json m)) os\<rparr>) = Inr (Some m)"
  by (simp add: stored_mark_def read_mark_json)

lemma mark_unchanged_eq: "mark_unchanged m (Some s) \<Longrightarrow> s = m"
  by (cases m, cases s) (auto simp: mark_unchanged_def compare_marks_def split: if_splits)

lemma links_ok_take_lineage:
  assumes ok: "links_ok cfg st" and m: "mark_ok m" "lineage_id_ok l" and stored: "stored_mark l st = Inr s"
  shows "links_ok cfg (snd (take_lineage cfg w l m s st))"
proof -
  obtain r st1 where opened: "ensure_open cfg l st = (r, st1)" by (metis surj_pair)
  note ok1 = links_ok_ensure_open [OF ok opened] and f = ensure_open_fields [OF opened]
  have stored1: "stored_mark l st1 = Inr s" using stored f(1) by (simp add: stored_mark_def)
  show ?thesis
  proof (cases r)
    case (Inl e)
    then show ?thesis by (simp add: take_lineage_def opened ok1)
  next
    case (Inr h)
    then obtain g where g: "jget (sx_lineages st1) l = Some g" "ln_handle g = Some h" using f(6) by blast
    show ?thesis
    proof (cases "mark_unchanged m s")
      case True
      then have "stored_mark l st1 = Inr (Some m)"
        using stored1 mark_unchanged_eq [of m] by (cases s) (auto simp: mark_unchanged_def)
      then show ?thesis
        using links_ok_activate [OF ok1 g, of st1 m] m True by (simp add: take_lineage_def opened Inr case_prod_beta)
    next
      case False
      have "links_ok cfg (st1\<lparr>sx_temporaries := x\<rparr>)" for x
        by (rule links_ok_cong [OF _ _ _ _ _ _ _ _ ok1]) (use links_okD [OF ok1] in simp_all)
      then show ?thesis
        using links_ok_activate [OF ok1 g, of "st1\<lparr>sx_owners := jset l (Some (mark_json m)) (sx_owners st1)\<rparr>" m] m False ok1
        by (auto simp: take_lineage_def opened Inr write_mark_def case_prod_beta split: mark_write.split)
    qed
  qed
qed

lemma claim_checks_Inr: "claim_checks cfg l m = Inr u \<Longrightarrow> lineage_id_ok l \<and> mark_ok m"
  by (auto simp: claim_checks_def mark_ok_def split: if_splits)

lemma links_ok_claim:
  assumes ok: "links_ok cfg st" and cfg: "session_config_ok cfg"
  shows "links_ok cfg (snd (claim_lineage cfg now w l m st))"
proof (cases "claim_checks cfg l m")
  case (Inr u)
  note checks = claim_checks_Inr [OF Inr] and ok1 = links_ok_ensure_lineage [OF ok cfg, of now l]
  have "stored_mark l (ensure_lineage cfg now l st) = stored_mark l st"
    by (simp add: ensure_lineage_def split: option.split)
  then show ?thesis
    using links_ok_take_lineage [OF ok1, of m l] checks ok ok1
    by (auto simp: claim_lineage_def Inr Let_def split: sum.split option.split)
qed (simp add: claim_lineage_def ok)

section \<open>The other operations\<close>

lemma links_ok_measure: "links_ok cfg st \<Longrightarrow> links_ok cfg (measure_lineage cfg' l st)"
  by (simp add: measure_lineage_def links_ok_record_size)

lemma fold_invariant_state: "I st \<Longrightarrow> (\<And>x st. I st \<Longrightarrow> I (f x st)) \<Longrightarrow> I (fold f xs st)"
  by (induction xs arbitrary: st) auto

lemma links_ok_measure_store: "links_ok cfg st \<Longrightarrow> links_ok cfg (measure_store cfg st)"
  by (simp add: measure_store_def fold_invariant_state links_ok_measure)

lemma links_ok_close_store: "links_ok cfg st \<Longrightarrow> links_ok cfg (close_store cfg st)"
  by (simp add: close_store_def fold_invariant_state links_ok_end_lineage)

lemma end_lineage_absent [simp]: "jget (sx_lineages (end_lineage cfg l st)) l' = (if l' = l then None else jget (sx_lineages st) l')"
  by (auto simp: end_lineage_def close_lineage_def Let_def close_handle_def split: option.split)

lemma links_ok_delete_files:
  assumes ok: "links_ok cfg st" and gone: "jget (sx_lineages st) l = None"
  shows "links_ok cfg (delete_session_files l st)"
proof -
  have "lineage_ok cfg (delete_session_files l st) l' g" if "jget (sx_lineages st) l' = Some g" for l' g
    using links_okD(6) [OF ok that] gone that
    by (cases "l' = l") (auto simp: lineage_ok_def stored_mark_def delete_session_files_def claim_keys_def)
  moreover have "handle_ok (delete_session_files l st) h l'" if "jget (sx_open st) h = Some l'" for h l'
    using links_okD(7) [OF ok that] gone by (cases "l' = l") (auto simp: handle_ok_def delete_session_files_def)
  moreover have "key_ok (delete_session_files l st) k = key_ok st k" for k
    by (simp add: key_ok_def delete_session_files_def)
  ultimately show ?thesis
    using ok by (auto simp: links_ok_def delete_session_files_def claim_keys_def)
qed

lemma links_ok_forget_size: "links_ok cfg st \<Longrightarrow> links_ok cfg (st\<lparr>sx_sizes := jdel l (sx_sizes st)\<rparr>)"
  by (rule links_ok_cong [of _ st]) (simp_all add: links_okD)

lemma links_ok_delete:
  assumes "links_ok cfg st" shows "links_ok cfg (snd (delete_lineage cfg l st))"
proof -
  let ?st1 = "if jhas (sx_lineages st) l then end_lineage cfg l st else st"
  have one: "links_ok cfg ?st1" "jget (sx_lineages ?st1) l = None"
    using assms by (auto simp: links_ok_end_lineage jhas_def)
  then have "links_ok cfg (if sn_dir cfg then delete_session_files l ?st1 else ?st1)"
    using links_ok_delete_files [OF one] by simp
  then show ?thesis
    using assms by (auto simp: delete_lineage_def Let_def links_ok_forget_size split: if_splits)
qed

lemma links_ok_restart:
  assumes "links_ok cfg st" shows "links_ok cfg (restart_store st)"
proof -
  have "claim_keys (restart_store st) = claim_keys st"
    by (simp add: claim_keys_def restart_store_def comp_def)
  then show ?thesis
    using assms by (auto simp: links_ok_def restart_store_def key_ok_def)
qed

section \<open>Requests\<close>

lemma take_token_links:
  assumes "take_token cfg now g = (ok, g')"
  shows "ln_handle g' = ln_handle g" "ln_active g' = ln_active g" "ln_refilled g' = now"
    "session_config_ok cfg \<Longrightarrow> bucket_ok cfg g \<Longrightarrow> bucket_ok cfg g'"
proof -
  show "ln_handle g' = ln_handle g" "ln_active g' = ln_active g" "ln_refilled g' = now"
    using assms by (auto simp: take_token_def Let_def split: if_splits)
  assume cfg: "session_config_ok cfg" and b: "bucket_ok cfg g"
  have "0 \<le> ln_tokens g + of_int (max 0 (now - ln_refilled g)) / 1000 * sn_per_second cfg"
    using cfg b by (simp add: session_config_ok_def bucket_ok_def)
  then show "bucket_ok cfg g'"
    using assms cfg by (auto simp: take_token_def Let_def bucket_ok_def session_config_ok_def split: if_splits)
qed

lemma links_ok_launch: "links_ok cfg st \<Longrightarrow> links_ok cfg (snd (launch n q b s st))"
  by (rule links_ok_cong [of _ st]) (simp_all add: launch_def links_okD)

lemma links_ok_accept: "links_ok cfg st \<Longrightarrow> links_ok cfg (snd (accept_flight cfg' n q b st))"
  using links_ok_launch [of cfg st n q b]
  by (auto simp: accept_flight_def Let_def case_prod_beta intro: links_ok_update_claim)

lemma links_ok_request:
  assumes ok: "links_ok cfg st" and cfg: "session_config_ok cfg"
  shows "links_ok cfg (snd (start_request cfg now n v st))"
proof -
  have "links_ok cfg (st\<lparr>sx_lineages := jset l g' (sx_lineages st)\<rparr>)"
    if "jget (sx_lineages st) l = Some g" "take_token cfg now g = (b, g')" for l g b g'
    using take_token_links [OF that(2)] links_okD(6) [OF ok that(1)] cfg
    by (intro links_ok_set_lineage [OF ok that(1)]) (auto simp: lineage_ok_def)
  then show ?thesis
    using ok by (auto simp: start_request_def admit_request_def Let_def intro: links_ok_accept split: option.split prod.split)
qed

lemma links_ok_answer: "links_ok cfg st \<Longrightarrow> links_ok cfg (answer_flight cfg' f r st)"
  by (simp add: answer_flight_def Let_def links_ok_set_stage links_ok_update_claim)

lemma links_ok_check_commit: "links_ok cfg st \<Longrightarrow> links_ok cfg (check_commit cfg budget f b st)"
  by (simp add: check_commit_def refuse_commit_def Let_def links_ok_set_stage links_ok_update_claim links_ok_record_size split: option.split)

lemma links_ok_call_flight: "links_ok cfg st \<Longrightarrow> links_ok cfg (call_flight cfg f st)"
  by (auto simp: call_flight_def Let_def links_ok_answer links_ok_set_stage links_ok_update_claim links_ok_call_backend split: prod.split)

lemma links_ok_finish_commit: "links_ok cfg st \<Longrightarrow> links_ok cfg (finish_commit cfg budget f r b st)"
  by (simp add: finish_commit_def Let_def links_ok_answer links_ok_update_claim links_ok_record_size)

lemma links_ok_advance: "links_ok cfg st \<Longrightarrow> links_ok cfg (advance_flight cfg budget f st)"
  by (simp add: advance_flight_def links_ok_set_stage links_ok_check_commit links_ok_call_flight links_ok_finish_commit
      split: flight_stage.split)

lemma links_ok_step: "session_step cfg st st' \<Longrightarrow> session_config_ok cfg \<Longrightarrow> links_ok cfg st \<Longrightarrow> links_ok cfg st'"
  by (induction rule: session_step.induct)
    (simp_all add: links_ok_claim links_ok_release links_ok_seal links_ok_inspect links_ok_measure_store links_ok_delete
      links_ok_close_store links_ok_restart links_ok_request links_ok_advance)

lemma links_ok_empty: "links_ok cfg empty_session_store"
  by (simp add: links_ok_def empty_session_store_def claim_keys_def)

end
