(* ===== verification/SessionMemo.thy ===== *)
theory SessionMemo
  imports SessionLinks
begin

text \<open>
  Every operation of the session store keeps \<open>memo_ok\<close>: what a claim remembers stays within its count and byte
  bounds, its byte figure is the sum of what it holds, every entry is the response of one of the claim's own
  \<open>commit\<close> or \<open>mintId\<close> requests under that request's identifier, and a claim has one request under way at most.
\<close>

section \<open>Eviction\<close>

lemma memo_bytes_simps [simp]: "memo_bytes [] = 0" "memo_bytes ((i, e) # m) = int (snd e) + memo_bytes m"
  by (simp_all add: memo_bytes_def msum_def)

lemma evict_responses_ok:
  "evict_responses limit m t = (m', t') \<Longrightarrow> jok m \<Longrightarrow> t = memo_bytes m
     \<Longrightarrow> jok m' \<and> t' = memo_bytes m' \<and> length m' \<le> max_remembered_responses \<and> t' \<le> int limit
       \<and> (\<forall>i e. jget m' i = Some e \<longrightarrow> jget m i = Some e)"
proof (induction limit m t rule: evict_responses.induct)
  case (1 limit t)
  then show ?case by auto
next
  case (2 limit i f b m t)
  have tail: "jok m" "jget m i = None"
    using 2(3) by (simp_all add: jok_def jget_def map_of_eq_None_iff)
  show ?case
  proof (cases "max_remembered_responses < length ((i, (f, b)) # m) \<or> int limit < t")
    case True
    have "jok m' \<and> t' = memo_bytes m' \<and> length m' \<le> max_remembered_responses \<and> t' \<le> int limit
       \<and> (\<forall>i e. jget m' i = Some e \<longrightarrow> jget m i = Some e)"
      using 2(1) [OF True] 2(2,4) True tail(1) by simp
    then show ?thesis
      using tail(2) by (auto simp: jget_Cons)
  next
    case False
    then show ?thesis using 2 by auto
  qed
qed

lemma memo_bytes_jset: "memo_bytes (jset i e m) = memo_bytes m - (case jget m i of Some u \<Rightarrow> int (snd u) | None \<Rightarrow> 0) + int (snd e)"
  unfolding memo_bytes_def by (rule msum_jset)

section \<open>One claim's memo\<close>

text \<open>Everything but the bounds, which eviction then restores.\<close>

lemma claim_memo_evict:
  assumes "jok (cm_responses c)" "cm_remembered c = memo_bytes (cm_responses c)"
    "\<And>i e. jget (cm_responses c) i = Some e \<Longrightarrow> entry_ok cfg fs n i e"
    "\<And>i f. cm_last c = Some (i, f) \<Longrightarrow> f < length fs \<and> fg_claim (fs ! f) = n \<and> sq_id (fg_request (fs ! f)) = i
      \<and> sq_method (fg_request (fs ! f)) = ''commit''"
  shows "claim_memo_ok cfg fs n (evict_remembered cfg c)"
proof -
  obtain m t where run: "evict_responses (sn_max_remembered cfg) (cm_responses c) (cm_remembered c) = (m, t)" by (metis surj_pair)
  show ?thesis
    using evict_responses_ok [OF run assms(1,2)] assms(3,4)
    by (auto simp: claim_memo_ok_def evict_remembered_def run split: option.split)
qed

lemma claim_memo_okD:
  assumes "claim_memo_ok cfg fs n c"
  shows "jok (cm_responses c)" "cm_remembered c = memo_bytes (cm_responses c)"
    "jget (cm_responses c) i = Some e \<Longrightarrow> entry_ok cfg fs n i e"
    "cm_last c = Some (i, f) \<Longrightarrow> f < length fs \<and> fg_claim (fs ! f) = n \<and> sq_id (fg_request (fs ! f)) = i
      \<and> sq_method (fg_request (fs ! f)) = ''commit''"
  using assms by (auto simp: claim_memo_ok_def simp del: split_paired_All)

lemma claim_memo_flags [simp]:
  "claim_memo_ok cfg fs n (c\<lparr>cm_exceeded := x\<rparr>) = claim_memo_ok cfg fs n c"
  "claim_memo_ok cfg fs n (c\<lparr>cm_private := x\<rparr>) = claim_memo_ok cfg fs n c"
  by (simp_all add: claim_memo_ok_def)

lemma claim_memo_forget [simp]: "claim_memo_ok cfg fs n (forget_responses c)"
  by (simp add: claim_memo_ok_def forget_responses_def)

lemma claim_memo_new [simp]: "claim_memo_ok cfg fs n (new_claim l m h)"
  by (simp add: claim_memo_ok_def new_claim_def)

lemma entry_ok_append: "entry_ok cfg fs n i e \<Longrightarrow> entry_ok cfg (fs @ [g]) n i e"
  by (auto simp: entry_ok_def nth_append split: prod.splits)

lemma claim_memo_append: "claim_memo_ok cfg fs n c \<Longrightarrow> claim_memo_ok cfg (fs @ [g]) n c"
  unfolding claim_memo_ok_def by (auto simp: entry_ok_append nth_append simp del: split_paired_All split: option.splits)

lemma claim_memo_remember:
  assumes ok: "claim_memo_ok cfg fs n c" and f: "f < length fs" "fg_claim (fs ! f) = n" "sq_id (fg_request (fs ! f)) = i"
    "sq_method (fg_request (fs ! f)) = m" "m \<in> set non_idempotent_methods" "flight_size cfg (fs ! f) = 0"
    and free: "jget (cm_responses c) i = None"
  shows "claim_memo_ok cfg fs n (remember_flight cfg i m f c)"
  unfolding remember_flight_def
  by (rule claim_memo_evict)
    (use claim_memo_okD [OF ok] f free in \<open>auto simp: memo_bytes_jset entry_ok_def split: if_splits\<close>)

text \<open>A change of one flight's stage, seen from the memo of its claim.\<close>

lemma entry_ok_stage:
  assumes "entry_ok cfg fs n i (f', b)" "f < length fs" "f' \<noteq> f \<or> flight_size cfg ((fs ! f)\<lparr>fg_stage := s\<rparr>) = flight_size cfg (fs ! f)"
  shows "entry_ok cfg (fs[f := (fs ! f)\<lparr>fg_stage := s\<rparr>]) n i (f', b)"
  using assms by (cases "f' = f") (auto simp: entry_ok_def)

lemma claim_memo_last:
  assumes "claim_memo_ok cfg fs n c" "cm_last c = Some (i, f')"
  shows "f' < length (fs[f := (fs ! f)\<lparr>fg_stage := s\<rparr>]) \<and> fg_claim (fs[f := (fs ! f)\<lparr>fg_stage := s\<rparr>] ! f') = n
    \<and> sq_id (fg_request (fs[f := (fs ! f)\<lparr>fg_stage := s\<rparr>] ! f')) = i \<and> sq_method (fg_request (fs[f := (fs ! f)\<lparr>fg_stage := s\<rparr>] ! f')) = ''commit''"
  using claim_memo_okD(4) [OF assms] by (cases "f' = f") auto

lemma claim_memo_stage:
  assumes ok: "claim_memo_ok cfg fs n c" and f: "f < length fs"
    and size_of: "\<And>b. jget (cm_responses c) (sq_id (fg_request (fs ! f))) = Some (f, b)
      \<Longrightarrow> flight_size cfg ((fs ! f)\<lparr>fg_stage := s\<rparr>) = flight_size cfg (fs ! f)"
  shows "claim_memo_ok cfg (fs[f := (fs ! f)\<lparr>fg_stage := s\<rparr>]) n c"
proof -
  have "entry_ok cfg (fs[f := (fs ! f)\<lparr>fg_stage := s\<rparr>]) n i (f', b)" if e: "jget (cm_responses c) i = Some (f', b)" for i f' b
    using claim_memo_okD(3) [OF ok e] size_of [of b] e f by (intro entry_ok_stage) (auto simp: entry_ok_def)
  then show ?thesis
    using ok claim_memo_last [OF ok] unfolding claim_memo_ok_def by (auto split: option.split)
qed

lemma claim_memo_settle:
  assumes ok: "claim_memo_ok cfg fs n c" and f: "f < length fs" "unsettled (fg_stage (fs ! f))"
  shows "claim_memo_ok cfg (fs[f := (fs ! f)\<lparr>fg_stage := Answered r\<rparr>]) n (settle_remembered cfg (sq_id (fg_request (fs ! f))) f r c)"
    (is "claim_memo_ok cfg ?fs n _")
proof (cases "\<exists>b. jget (cm_responses c) (sq_id (fg_request (fs ! f))) = Some (f, b)")
  case True
  then obtain b where b: "jget (cm_responses c) (sq_id (fg_request (fs ! f))) = Some (f, b)" by blast
  let ?i = "sq_id (fg_request (fs ! f))" let ?c = "c\<lparr>cm_responses := jset ?i (f, sn_size cfg (response_json r)) (cm_responses c),
      cm_remembered := cm_remembered c + int (sn_size cfg (response_json r))\<rparr>"
  note e = claim_memo_okD(3) [OF ok b]
  have zero: "b = 0"
    using e f(2) by (auto simp: entry_ok_def flight_size_def unsettled_def split: flight_stage.splits)
  have "entry_ok cfg ?fs n i (f', b')" if "jget (cm_responses c) i = Some (f', b')" "i \<noteq> ?i" for i f' b'
    using claim_memo_okD(3) [OF ok that(1)] that(2) f(1) by (intro entry_ok_stage) (auto simp: entry_ok_def)
  moreover have "entry_ok cfg ?fs n ?i (f, sn_size cfg (response_json r))"
    using e f(1) by (auto simp: entry_ok_def flight_size_def)
  ultimately have "claim_memo_ok cfg ?fs n (evict_remembered cfg ?c)"
    by (intro claim_memo_evict)
      (use claim_memo_okD(1,2) [OF ok] b zero claim_memo_last [OF ok] in \<open>auto simp: memo_bytes_jset split: if_splits\<close>)
  then show ?thesis
    by (simp add: settle_remembered_def b Let_def)
next
  case False
  then have "settle_remembered cfg (sq_id (fg_request (fs ! f))) f r c = c"
    by (auto simp: settle_remembered_def split: option.split)
  then show ?thesis
    using claim_memo_stage [OF ok f(1)] False by simp
qed

section \<open>All claims and requests\<close>

lemma memo_okD:
  assumes "memo_ok cfg cs fs"
  shows "n < length cs \<Longrightarrow> claim_memo_ok cfg fs n (cs ! n)" "f < length fs \<Longrightarrow> flight_ok cs (fs ! f)"
    "f < length fs \<Longrightarrow> f' < length fs \<Longrightarrow> unsettled (fg_stage (fs ! f)) \<Longrightarrow> unsettled (fg_stage (fs ! f'))
       \<Longrightarrow> fg_claim (fs ! f) = fg_claim (fs ! f') \<Longrightarrow> f = f'"
  using assms by (auto simp: memo_ok_def)

lemma before_memo_unsettled: "before_memo s \<Longrightarrow> unsettled s"
  by (cases s) (simp_all add: before_memo_def unsettled_def)

text \<open>Claims that forget, and a new claim.\<close>

definition forgets :: "session_claim \<Rightarrow> session_claim \<Rightarrow> bool" where
  "forgets c c' = (c' = c \<or> c' = forget_responses c)"

lemma memo_ok_forgets:
  assumes "memo_ok cfg cs fs" "list_all2 forgets cs cs'" shows "memo_ok cfg cs' fs"
proof -
  have len: "length cs' = length cs" using assms(2) by (simp add: list_all2_lengthD)
  have each: "cs' ! n = cs ! n \<or> cs' ! n = forget_responses (cs ! n)" if "n < length cs" for n
    using list_all2_nthD [OF assms(2) that] by (simp add: forgets_def)
  have "claim_memo_ok cfg fs n (cs' ! n)" if "n < length cs" for n
    using each [OF that] memo_okD(1) [OF assms(1) that] by auto
  moreover have "flight_ok cs' (fs ! f)" if "f < length fs" for f
    using memo_okD(2) [OF assms(1) that] each [of "fg_claim (fs ! f)"] len by (auto simp: flight_ok_def forget_responses_def)
  ultimately show ?thesis
    using assms(1) len by (auto simp: memo_ok_def)
qed

lemma forgets_refl [simp]: "list_all2 forgets cs cs"
  by (simp add: list_all2_refl forgets_def)

lemma forgets_update: "list_all2 forgets cs (cs[n := forget_responses (cs ! n)])"
  by (rule list_all2_all_nthI) (simp_all add: forgets_def, metis nth_list_update_eq nth_list_update_neq)

lemma forgets_trans: "list_all2 forgets cs cs' \<Longrightarrow> list_all2 forgets cs' cs'' \<Longrightarrow> list_all2 forgets cs cs''"
  by (rule list_all2_trans [of forgets forgets forgets]) (auto simp: forgets_def forget_responses_def)

lemma memo_ok_new_claim:
  assumes "memo_ok cfg cs fs" shows "memo_ok cfg (cs @ [new_claim l m h]) fs"
  using assms unfolding memo_ok_def by (auto simp: nth_append flight_ok_def)

text \<open>A request that starts.\<close>

lemma memo_ok_launch:
  assumes ok: "memo_ok cfg cs fs" and n: "fg_claim g < length cs"
    and idle: "\<And>f. f < length fs \<Longrightarrow> fg_claim (fs ! f) = fg_claim g \<Longrightarrow> \<not> unsettled (fg_stage (fs ! f))"
    and g: "flight_ok cs g"
  shows "memo_ok cfg cs (fs @ [g])"
proof -
  have "claim_memo_ok cfg (fs @ [g]) n (cs ! n)" if "n < length cs" for n
    using claim_memo_append memo_okD(1) [OF ok that] by blast
  then show ?thesis
    using ok idle g by (auto simp: memo_ok_def nth_append less_Suc_eq)
qed

text \<open>A request that moves on, with its claim.\<close>

lemma memo_ok_move:
  assumes ok: "memo_ok cfg cs fs" and f: "f < length fs" "unsettled (fg_stage (fs ! f))" and n: "fg_claim (fs ! f) = n"
    and c': "claim_memo_ok cfg (fs[f := (fs ! f)\<lparr>fg_stage := s\<rparr>]) n c'"
    and g: "flight_ok (cs[n := c']) ((fs ! f)\<lparr>fg_stage := s\<rparr>)"
  shows "memo_ok cfg (cs[n := c']) (fs[f := (fs ! f)\<lparr>fg_stage := s\<rparr>])" (is "memo_ok cfg ?cs ?fs")
proof -
  have "claim_memo_ok cfg ?fs k (?cs ! k)" if "k < length cs" for k
  proof (cases "k = n")
    case False
    have "jget (cm_responses (cs ! k)) i \<noteq> Some (f, b)" for i b
      using claim_memo_okD(3) [OF memo_okD(1) [OF ok that], of i "(f, b)"] False n by (auto simp: entry_ok_def)
    then show ?thesis
      using claim_memo_stage [OF memo_okD(1) [OF ok that] f(1), of s] False by simp
  qed (use c' that in simp)
  moreover have "flight_ok ?cs (?fs ! k)" if "k < length fs" for k
  proof (cases "k = f")
    case False
    then have "\<not> before_memo (fg_stage (fs ! k))" if "fg_claim (fs ! k) = n"
      using memo_okD(3) [OF ok f(1) \<open>k < length fs\<close> f(2)] that n before_memo_unsettled by metis
    then show ?thesis
      using memo_okD(2) [OF ok that] False by (cases "fg_claim (fs ! k) = n") (auto simp: flight_ok_def)
  qed (use g f in simp)
  moreover have "k = k'" if "k < length fs" "k' < length fs" "unsettled (fg_stage (?fs ! k))" "unsettled (fg_stage (?fs ! k'))"
      "fg_claim (?fs ! k) = fg_claim (?fs ! k')" for k k'
    using memo_okD(3) [OF ok, of k k'] that f by (auto simp: nth_list_update split: if_splits)
  ultimately show ?thesis
    unfolding memo_ok_def by (metis length_list_update)
qed

section \<open>The operations\<close>

lemma update_claim_claims [simp]: "sx_claims (update_claim n f st) = (sx_claims st)[n := f (sx_claims st ! n)]"
  by (simp add: update_claim_def list_update_beyond)

lemma set_stage_flights [simp]: "sx_flights (set_stage f s st) = (sx_flights st)[f := (sx_flights st ! f)\<lparr>fg_stage := s\<rparr>]"
  by (simp add: set_stage_def list_update_beyond)

lemma deactivate_forgets: "list_all2 forgets (sx_claims st) (sx_claims (deactivate l st))"
  by (auto simp: deactivate_def forgets_update split: option.split)

lemma close_lineage_claims [simp]:
  "sx_claims (close_lineage cfg l st) = sx_claims st" "sx_flights (close_lineage cfg l st) = sx_flights st"
  by (auto simp: close_lineage_def Let_def close_handle_def split: option.split)

lemma end_lineage_claims [simp]:
  "sx_claims (end_lineage cfg l st) = sx_claims (deactivate l st)" "sx_flights (end_lineage cfg l st) = sx_flights st"
  by (simp_all add: end_lineage_def)

text \<open>The operations under the lineage lock leave requests alone and make claims forget at most.\<close>

definition locked_frame :: "'d session_store \<Rightarrow> 'd session_store \<Rightarrow> bool" where
  "locked_frame st st' = (sx_flights st' = sx_flights st \<and> list_all2 forgets (sx_claims st) (sx_claims st'))"

lemma locked_frame_refl [simp]: "locked_frame st st"
  by (simp add: locked_frame_def)

lemma locked_frame_trans: "locked_frame st st' \<Longrightarrow> locked_frame st' st'' \<Longrightarrow> locked_frame st st''"
  by (auto simp: locked_frame_def intro: forgets_trans)

lemma locked_frame_fold: "(\<And>x st. locked_frame st (f x st)) \<Longrightarrow> locked_frame st (fold f xs st)"
  by (induction xs arbitrary: st) (auto intro: locked_frame_trans)

lemma locked_frame_end: "locked_frame st (end_lineage cfg l st)"
  by (simp add: locked_frame_def deactivate_forgets)

lemma locked_frame_same: "sx_flights st' = sx_flights st \<Longrightarrow> sx_claims st' = sx_claims st \<Longrightarrow> locked_frame st st'"
  by (simp add: locked_frame_def)

lemma locked_frame_live_tasks: "has_live_tasks cfg h st = (r, st') \<Longrightarrow> locked_frame st st'"
  by (drule has_live_tasks_fields) (simp add: locked_frame_def)

lemma locked_frames:
  "locked_frame st (release_claim cfg n st)" "locked_frame st (snd (seal_claim cfg n st))" "locked_frame st (snd (inspect_pending cfg l st))"
  "locked_frame st (measure_store cfg st)" "locked_frame st (snd (delete_lineage cfg l st))" "locked_frame st (close_store cfg st)"
proof -
  show "locked_frame st (release_claim cfg n st)"
    by (simp add: release_claim_def locked_frame_end)
  show "locked_frame st (snd (seal_claim cfg n st))"
    by (auto simp: seal_claim_def Let_def split: prod.split intro: locked_frame_trans [OF locked_frame_live_tasks locked_frame_end])
  show "locked_frame st (measure_store cfg st)" "locked_frame st (close_store cfg st)"
    by (auto simp: measure_store_def close_store_def intro!: locked_frame_fold locked_frame_end locked_frame_same)
  show "locked_frame st (snd (delete_lineage cfg l st))"
    by (auto simp: delete_lineage_def Let_def delete_session_files_def locked_frame_def deactivate_forgets)
  obtain r st1 where opened: "open_database cfg l st = (r, st1)" by (metis surj_pair)
  have one: "locked_frame st st1"
    using open_database_fields [OF opened] by (simp add: locked_frame_def)
  have close: "locked_frame st2 (measure_lineage cfg l (close_handle cfg h st2))" "locked_frame st2 (measure_lineage cfg l st2)" for h st2
    by (auto simp: locked_frame_def close_handle_def split: option.split)
  have "locked_frame st (measure_lineage cfg l (close_handle cfg h st2))" if "has_live_tasks cfg h st1 = (live, st2)" for h live st2
    using locked_frame_trans [OF one locked_frame_trans [OF locked_frame_live_tasks [OF that] close(1)]] .
  then show "locked_frame st (snd (inspect_pending cfg l st))"
    using locked_frame_trans [OF one close(2)]
    by (auto simp: inspect_pending_def opened Let_def split: sum.split prod.split)
qed

lemma memo_ok_locked: "locked_frame st st' \<Longrightarrow> memo_ok cfg (sx_claims st) (sx_flights st) \<Longrightarrow> memo_ok cfg (sx_claims st') (sx_flights st')"
  by (auto simp: locked_frame_def intro: memo_ok_forgets)

lemma claim_lineage_frame:
  fixes st :: "'d session_store"
  assumes "claim_lineage cfg now w l m st = (r, st')"
  shows "locked_frame st st'
    \<or> (\<exists>st1 k. locked_frame st st1 \<and> sx_flights st' = sx_flights st1 \<and> sx_claims st' = sx_claims st1 @ [new_claim l m k]
         \<and> r = Inr (length (sx_claims st)))"
proof -
  let ?e = "ensure_lineage cfg now l st"
  have e: "sx_claims ?e = sx_claims st" "sx_flights ?e = sx_flights st"
    by (simp_all add: ensure_lineage_def split: option.split)
  have take: "locked_frame st st'
    \<or> (\<exists>st1 k. locked_frame st st1 \<and> sx_flights st' = sx_flights st1 \<and> sx_claims st' = sx_claims st1 @ [new_claim l m k]
         \<and> r = Inr (length (sx_claims st)))" if run: "take_lineage cfg w l m s ?e = (r, st')" for s
  proof -
    obtain r1 st1 where opened: "ensure_open cfg l ?e = (r1, st1)" by (metis surj_pair)
    note f = ensure_open_fields(3,4) [OF opened]
    have act: "\<exists>st3 k. locked_frame st st3 \<and> sx_flights (snd (activate l m h st2)) = sx_flights st3
        \<and> sx_claims (snd (activate l m h st2)) = sx_claims st3 @ [new_claim l m k] \<and> fst (activate l m h st2) = length (sx_claims st)"
      if "sx_claims st2 = sx_claims st1" "sx_flights st2 = sx_flights st1" for st2 :: "'d session_store" and h
    proof -
      have "locked_frame st (deactivate l st2)"
        using deactivate_forgets [of st2 l] that f e by (simp add: locked_frame_def)
      then show ?thesis
        using that f e by (intro exI [of _ "deactivate l st2"] exI [of _ h]) (simp add: activate_def Let_def split: option.split)
    qed
    show ?thesis
    proof (cases r1)
      case (Inl x)
      then show ?thesis using run f e by (auto simp: take_lineage_def opened locked_frame_def)
    next
      case (Inr h)
      obtain r2 st2 where w: "(if mark_unchanged m s then (Inr (), st1) else write_mark w l m st1) = (r2, st2)" by (metis surj_pair)
      then have same: "sx_claims st2 = sx_claims st1" "sx_flights st2 = sx_flights st1"
        by (auto simp: write_mark_def split: if_splits mark_write.splits)
      show ?thesis
        using run act [OF same, of h] same f e by (cases r2) (auto simp: take_lineage_def opened Inr w case_prod_beta locked_frame_def)
    qed
  qed
  show ?thesis
    using assms take e by (auto simp: claim_lineage_def Let_def locked_frame_def split: sum.splits option.splits if_splits)
qed

lemma memo_ok_claim:
  assumes "memo_ok cfg (sx_claims st) (sx_flights st)"
  shows "memo_ok cfg (sx_claims (snd (claim_lineage cfg now w l m st))) (sx_flights (snd (claim_lineage cfg now w l m st)))"
proof -
  obtain r st' where run: "claim_lineage cfg now w l m st = (r, st')" by (metis surj_pair)
  show ?thesis
    using claim_lineage_frame [OF run] memo_ok_locked [OF _ assms] memo_ok_new_claim unfolding run snd_conv by metis
qed

lemma memo_ok_restart:
  assumes ok: "memo_ok cfg (sx_claims st) (sx_flights st)"
  shows "memo_ok cfg (sx_claims (restart_store st)) (sx_flights (restart_store st))"
proof -
  have "\<not> commit_stage (fg_stage (lost_flight g))" "\<not> before_memo (fg_stage (lost_flight g))" "\<not> unsettled (fg_stage (lost_flight g))"
    "fg_claim (lost_flight g) = fg_claim g" for g
    by (auto simp: lost_flight_def commit_stage_def before_memo_def unsettled_def split: flight_stage.splits)
  then show ?thesis
    using ok by (auto simp: memo_ok_def restart_store_def flight_ok_def)
qed

section \<open>Requests\<close>

lemma claim_idleD: "claim_idle n st \<Longrightarrow> f < length (sx_flights st) \<Longrightarrow> fg_claim (sx_flights st ! f) = n
    \<Longrightarrow> \<not> unsettled (fg_stage (sx_flights st ! f))"
  by (simp add: claim_idle_def list_all_length)

lemma remembered_flight_None: "remembered_flight m i c = None \<Longrightarrow> m \<in> set non_idempotent_methods \<Longrightarrow> jget (cm_responses c) i = None"
  by (auto simp: remembered_flight_def split: option.splits)

lemma memo_ok_accept:
  assumes ok: "memo_ok cfg (sx_claims st) (sx_flights st)" and n: "n < length (sx_claims st)" and idle: "claim_idle n st"
    and new: "remembered_flight (sq_method q) (sq_id q) (sx_claims st ! n) = None"
    and run: "accept_flight cfg n q b st = (r, st')"
  shows "memo_ok cfg (sx_claims st') (sx_flights st')"
proof -
  let ?g = "\<lparr>fg_claim = n, fg_request = q, fg_bytes = b, fg_stage = s\<rparr>"
  have launched: "memo_ok cfg (sx_claims st) (sx_flights st @ [\<lparr>fg_claim = n, fg_request = q, fg_bytes = b, fg_stage = s\<rparr>])"
    if "s = Calling \<or> (s = Measuring \<and> sq_method q = ''commit'')" for s
    using that new n remembered_flight_None [OF new] claim_idleD [OF idle]
    by (intro memo_ok_launch [OF ok]) (auto simp: flight_ok_def commit_stage_def before_memo_def non_idempotent_methods_def)
  show ?thesis
  proof (cases "arguments_match (sq_method q) (storage_args (sq_args q)) \<and> sq_method q = ''mintId''")
    case True
    let ?fs = "sx_flights st @ [\<lparr>fg_claim = n, fg_request = q, fg_bytes = b, fg_stage = Calling\<rparr>]" and ?f = "length (sx_flights st)"
    let ?c = "remember_flight cfg (sq_id q) (sq_method q) ?f (sx_claims st ! n)"
    have "claim_memo_ok cfg ?fs n ?c"
      using memo_okD(1) [OF launched n] True remembered_flight_None [OF new]
      by (intro claim_memo_remember) (auto simp: non_idempotent_methods_def flight_size_def)
    then have "memo_ok cfg ((sx_claims st)[n := ?c]) (?fs[?f := (?fs ! ?f)\<lparr>fg_stage := Calling\<rparr>])"
      by (intro memo_ok_move [OF launched]) (use n in \<open>auto simp: unsettled_def flight_ok_def commit_stage_def before_memo_def\<close>)
    then show ?thesis
      using run True by (auto simp: accept_flight_def Let_def launch_def non_idempotent_methods_def)
  next
    case False
    then show ?thesis
      using run ok launched by (auto simp: accept_flight_def Let_def launch_def non_idempotent_methods_def split: if_splits)
  qed
qed

lemma memo_ok_request:
  assumes ok: "memo_ok cfg (sx_claims st) (sx_flights st)" and idle: "claim_idle n st"
  shows "memo_ok cfg (sx_claims (snd (start_request cfg now n v st))) (sx_flights (snd (start_request cfg now n v st)))"
proof -
  have accept: "memo_ok cfg (sx_claims (snd (accept_flight cfg n q b (st\<lparr>sx_lineages := x\<rparr>))))
      (sx_flights (snd (accept_flight cfg n q b (st\<lparr>sx_lineages := x\<rparr>))))"
    if "n < length (sx_claims st)" "remembered_flight (sq_method q) (sq_id q) (sx_claims st ! n) = None" for q b x
    using memo_ok_accept [of cfg "st\<lparr>sx_lineages := x\<rparr>" n q b] ok idle that by (simp add: claim_idle_def case_prod_beta prod_eq_iff)
  show ?thesis
    using ok accept
    by (auto simp: start_request_def admit_request_def Let_def claim_current_def split: option.split prod.split)
qed

text \<open>A request in flight names a claim of the store.\<close>

lemma flight_claim: "memo_ok cfg cs fs \<Longrightarrow> f < length fs \<Longrightarrow> fg_claim (fs ! f) < length cs"
  using memo_okD(2) by (auto simp: flight_ok_def)

text \<open>A stage change under which the claim's memo is as before, up to its flags.\<close>

lemma memo_ok_move_same:
  assumes ok: "memo_ok cfg cs fs" and f: "f < length fs" "unsettled (fg_stage (fs ! f))" and n: "fg_claim (fs ! f) = n"
    and c': "\<And>fs. claim_memo_ok cfg fs n c' = claim_memo_ok cfg fs n (cs ! n)" "cm_responses c' = cm_responses (cs ! n)"
    and s: "flight_size cfg ((fs ! f)\<lparr>fg_stage := s\<rparr>) = 0 \<or> before_memo (fg_stage (fs ! f))"
      "commit_stage s \<Longrightarrow> sq_method (fg_request (fs ! f)) = ''commit''" "before_memo s \<Longrightarrow> before_memo (fg_stage (fs ! f))"
  shows "memo_ok cfg (cs[n := c']) (fs[f := (fs ! f)\<lparr>fg_stage := s\<rparr>])"
proof -
  note g = memo_okD(2) [OF ok f(1), unfolded flight_ok_def] and memo = memo_okD(1) [OF ok flight_claim [OF ok f(1)]]
  have zero: "flight_size cfg (fs ! f) = 0"
    using f(2) by (auto simp: flight_size_def unsettled_def split: flight_stage.splits)
  have "claim_memo_ok cfg (fs[f := (fs ! f)\<lparr>fg_stage := s\<rparr>]) n (cs ! n)"
    using memo g s(1) zero n by (intro claim_memo_stage [OF _ f(1)]) auto
  then show ?thesis
    using c' g s(2,3) n by (intro memo_ok_move [OF ok f n]) (auto simp: flight_ok_def)
qed

lemma memo_ok_set_stage:
  assumes "memo_ok cfg cs fs" "f < length fs" "unsettled (fg_stage (fs ! f))"
    "flight_size cfg ((fs ! f)\<lparr>fg_stage := s\<rparr>) = 0 \<or> before_memo (fg_stage (fs ! f))"
    "commit_stage s \<Longrightarrow> sq_method (fg_request (fs ! f)) = ''commit''" "before_memo s \<Longrightarrow> before_memo (fg_stage (fs ! f))"
  shows "memo_ok cfg cs (fs[f := (fs ! f)\<lparr>fg_stage := s\<rparr>])"
  using memo_ok_move_same [OF assms(1-3) refl, where c' = "cs ! fg_claim (fs ! f)" and s = s] assms(4-6) by simp

lemma memo_ok_flag:
  assumes ok: "memo_ok cfg cs fs" and c': "\<And>fs. claim_memo_ok cfg fs n c' = claim_memo_ok cfg fs n (cs ! n)" "cm_responses c' = cm_responses (cs ! n)"
  shows "memo_ok cfg (cs[n := c']) fs"
proof -
  have "claim_memo_ok cfg fs k (cs[n := c'] ! k)" if "k < length cs" for k
    using memo_okD(1) [OF ok that] c' that by (cases "k = n") simp_all
  moreover have "flight_ok (cs[n := c']) (fs ! f)" if "f < length fs" for f
    using memo_okD(2) [OF ok that] c'(2) by (cases "fg_claim (fs ! f) = n") (auto simp: flight_ok_def)
  ultimately show ?thesis
    using ok by (simp add: memo_ok_def)
qed

lemma memo_ok_answer:
  assumes ok: "memo_ok cfg (sx_claims st) (sx_flights st)" and f: "f < length (sx_flights st)" "unsettled (fg_stage (sx_flights st ! f))"
  shows "memo_ok cfg (sx_claims (answer_flight cfg f r st)) (sx_flights (answer_flight cfg f r st))"
proof (cases "sq_method (fg_request (sx_flights st ! f)) \<in> set non_idempotent_methods")
  case True
  let ?n = "fg_claim (sx_flights st ! f)"
  have "flight_ok ((sx_claims st)[?n := c]) ((sx_flights st ! f)\<lparr>fg_stage := Answered r\<rparr>)" for c
    using flight_claim [OF ok f(1)] by (simp add: flight_ok_def commit_stage_def before_memo_def)
  then show ?thesis
    using memo_ok_move [OF ok f refl claim_memo_settle [OF memo_okD(1) [OF ok flight_claim [OF ok f(1)]] f]] True
    by (simp add: answer_flight_def Let_def)
next
  case False
  have "jget (cm_responses (sx_claims st ! fg_claim (sx_flights st ! f))) i \<noteq> Some (f, b)" for i b
    using claim_memo_okD(3) [OF memo_okD(1) [OF ok flight_claim [OF ok f(1)]], of i "(f, b)"] False by (auto simp: entry_ok_def)
  then have "claim_memo_ok cfg ((sx_flights st)[f := (sx_flights st ! f)\<lparr>fg_stage := Answered r\<rparr>]) (fg_claim (sx_flights st ! f))
      (sx_claims st ! fg_claim (sx_flights st ! f))"
    by (intro claim_memo_stage [OF memo_okD(1) [OF ok flight_claim [OF ok f(1)]] f(1)]) simp
  from memo_ok_move [OF ok f refl this] show ?thesis
    using flight_claim [OF ok f(1)] False by (simp add: answer_flight_def Let_def flight_ok_def commit_stage_def before_memo_def)
qed

lemma memo_ok_refuse:
  assumes "memo_ok cfg (sx_claims st) (sx_flights st)" "f < length (sx_flights st)" "before_memo (fg_stage (sx_flights st ! f))"
  shows "memo_ok cfg (sx_claims (refuse_commit f e st)) (sx_flights (refuse_commit f e st))"
proof -
  let ?n = "fg_claim (sx_flights st ! f)"
  show ?thesis
    using memo_ok_move_same [OF assms(1,2) before_memo_unsettled [OF assms(3)] refl,
        where c' = "(sx_claims st ! ?n)\<lparr>cm_exceeded := True\<rparr>" and s = "Answered r" for r] assms(3)
    by (simp add: refuse_commit_def Let_def)
qed

lemma memo_ok_check:
  assumes ok: "memo_ok cfg (sx_claims st) (sx_flights st)" and f: "f < length (sx_flights st)" "fg_stage (sx_flights st ! f) = Measured b"
  shows "memo_ok cfg (sx_claims (check_commit cfg budget f b st)) (sx_flights (check_commit cfg budget f b st))"
proof -
  let ?g = "sx_flights st ! f" and ?q = "fg_request (sx_flights st ! f)" and ?n = "fg_claim (sx_flights st ! f)" and ?fs = "sx_flights st"
  let ?c = "remember_flight cfg (sq_id ?q) (sq_method ?q) f (sx_claims st ! ?n)"
  note n = flight_claim [OF ok f(1)]
  have commit: "sq_method ?q = ''commit''" and free: "jget (cm_responses (sx_claims st ! ?n)) (sq_id ?q) = None" and s: "unsettled (fg_stage ?g)"
    using memo_okD(2) [OF ok f(1)] f(2) by (auto simp: flight_ok_def commit_stage_def before_memo_def unsettled_def)
  have "claim_memo_ok cfg ?fs ?n ?c"
    using memo_okD(1) [OF ok n] f free commit by (intro claim_memo_remember) (auto simp: flight_size_def non_idempotent_methods_def)
  then have "claim_memo_ok cfg (?fs[f := ?g\<lparr>fg_stage := Calling\<rparr>]) ?n ?c"
    using f by (intro claim_memo_stage) (auto simp: flight_size_def)
  from memo_ok_move [OF ok f(1) s refl this]
  have "memo_ok cfg ((sx_claims st)[?n := ?c]) (?fs[f := ?g\<lparr>fg_stage := Calling\<rparr>])"
    using n by (simp add: flight_ok_def commit_stage_def before_memo_def)
  moreover have "memo_ok cfg (sx_claims (refuse_commit f e (record_size l b st))) (sx_flights (refuse_commit f e (record_size l b st)))" for e l
    using memo_ok_refuse [of cfg "record_size l b st" f e] ok f by (simp add: before_memo_def)
  ultimately show ?thesis
    by (simp add: check_commit_def Let_def split: option.split)
qed

lemma memo_ok_call:
  assumes ok: "memo_ok cfg (sx_claims st) (sx_flights st)" and f: "f < length (sx_flights st)" "fg_stage (sx_flights st ! f) = Calling"
  shows "memo_ok cfg (sx_claims (call_flight cfg f st)) (sx_flights (call_flight cfg f st))"
proof -
  let ?g = "sx_flights st ! f" and ?n = "fg_claim (sx_flights st ! f)"
  obtain r st1 where call: "call_backend cfg (cm_handle (sx_claims st ! ?n)) (sq_method (fg_request ?g)) (storage_args (sq_args (fg_request ?g))) st = (r, st1)"
    by (metis surj_pair)
  have same: "sx_claims st1 = sx_claims st" "sx_flights st1 = sx_flights st" using call_backend_fields [OF call] by simp_all
  have s: "unsettled (fg_stage ?g)" using f by (simp add: unsettled_def)
  have "memo_ok cfg ((sx_claims st)[?n := (sx_claims st ! ?n)\<lparr>cm_private := True\<rparr>]) ((sx_flights st)[f := ?g\<lparr>fg_stage := Called resp\<rparr>])"
    if "sq_method (fg_request ?g) = ''commit''" for resp
    by (rule memo_ok_move_same [OF ok f(1) s refl]) (use that in \<open>simp_all add: flight_size_def commit_stage_def before_memo_def\<close>)
  then show ?thesis
    using memo_ok_answer [of cfg st f] memo_ok_answer [of cfg st1 f] ok f s same
    by (auto simp: call_flight_def Let_def call)
qed

lemma memo_ok_finish:
  assumes ok: "memo_ok cfg (sx_claims st) (sx_flights st)" and f: "f < length (sx_flights st)" "unsettled (fg_stage (sx_flights st ! f))"
  shows "memo_ok cfg (sx_claims (finish_commit cfg budget f r b st)) (sx_flights (finish_commit cfg budget f r b st))"
proof -
  let ?n = "fg_claim (sx_flights st ! f)"
  have flagged: "memo_ok cfg ((sx_claims st)[?n := (sx_claims st ! ?n)\<lparr>cm_exceeded := True\<rparr>]) (sx_flights st)"
    by (rule memo_ok_flag [OF ok]) simp_all
  show ?thesis
    unfolding finish_commit_def Let_def
    by (rule memo_ok_answer) (use ok flagged f in simp_all)
qed

lemma memo_ok_advance:
  assumes ok: "memo_ok cfg (sx_claims st) (sx_flights st)"
  shows "memo_ok cfg (sx_claims (advance_flight cfg budget f st)) (sx_flights (advance_flight cfg budget f st))"
proof (cases "f < length (sx_flights st)")
  case True
  note g = memo_okD(2) [OF ok True, unfolded flight_ok_def]
  have stages: "memo_ok cfg (sx_claims st) ((sx_flights st)[f := (sx_flights st ! f)\<lparr>fg_stage := s\<rparr>])"
    if "unsettled (fg_stage (sx_flights st ! f))" "commit_stage (fg_stage (sx_flights st ! f))" "\<not> (\<exists>r. s = Answered r)"
      "before_memo s \<longrightarrow> before_memo (fg_stage (sx_flights st ! f))" for s
    by (rule memo_ok_set_stage [OF ok True that(1)])
      (use that g in \<open>auto simp: flight_size_def split: flight_stage.split\<close>)
  show ?thesis
    using ok True memo_ok_check [OF ok True] memo_ok_call [OF ok True] memo_ok_finish [OF ok True] stages
    by (cases "fg_stage (sx_flights st ! f)") (simp_all add: advance_flight_def)
qed (simp add: advance_flight_def ok)

section \<open>Reachable states\<close>

lemma session_ok_step:
  assumes "session_step cfg st st'" "session_ok cfg st" shows "session_ok cfg st'"
proof -
  have "memo_ok cfg (sx_claims st) (sx_flights st) \<Longrightarrow> memo_ok cfg (sx_claims st') (sx_flights st')"
    using assms(1)
  proof (cases rule: session_step.cases)
    case restarts
    then show "memo_ok cfg (sx_claims st) (sx_flights st) \<Longrightarrow> memo_ok cfg (sx_claims st') (sx_flights st')" by (simp add: memo_ok_restart)
  qed (simp_all add: memo_ok_claim memo_ok_locked locked_frames memo_ok_request memo_ok_advance memo_ok_locked [OF locked_frames(1)]
      memo_ok_locked [OF locked_frames(2)] memo_ok_locked [OF locked_frames(3)] memo_ok_locked [OF locked_frames(4)]
      memo_ok_locked [OF locked_frames(5)] memo_ok_locked [OF locked_frames(6)])
  then show ?thesis
    using assms links_ok_step by (auto simp: session_ok_def)
qed

lemma session_ok_reachable: "session_reachable cfg st \<Longrightarrow> session_ok cfg st"
proof (induction rule: session_reachable.induct)
  case (start st)
  moreover have "memo_ok cfg (sx_claims empty_session_store) (sx_flights empty_session_store)"
    by (simp add: memo_ok_def empty_session_store_def)
  ultimately show ?case by (simp add: session_ok_def links_ok_empty)
next
  case (step st st')
  then show ?case using session_ok_step by blast
qed

end
