(* ===== verification/SessionHistory.thy ===== *)
theory SessionHistory
  imports SessionMemo
begin

text \<open>
  What a step of the session store can do to its past: claims and handles are only added, a claim that lost its
  lineage and a handle that was closed stay so, and owner marks change by a greater claim or go with the lineage.
\<close>

section \<open>Claims and handles\<close>

definition session_moves :: "'d session_store \<Rightarrow> 'd session_store \<Rightarrow> bool" where
  "session_moves st st' =
     ((\<exists>ks. claim_keys st' = claim_keys st @ ks)
      \<and> (\<forall>l k. active_claim l st' = Some k \<longrightarrow> active_claim l st = Some k \<or> length (sx_claims st) \<le> k)
      \<and> (\<forall>h l. jget (sx_open st') h = Some l \<longrightarrow> jget (sx_open st) h = Some l \<or> sx_next st \<le> h)
      \<and> sx_next st \<le> sx_next st')"

named_theorems move_intros_session "operations as moves of the session store"

lemma session_moves_refl [move_intros_session]: "session_moves st st"
  by (simp add: session_moves_def)

lemma session_moves_trans:
  assumes a: "session_moves st st'" and b: "session_moves st' st''" shows "session_moves st st''"
proof -
  have len: "length (sx_claims st) \<le> length (sx_claims st')"
    using a unfolding session_moves_def by (metis le_add1 length_append length_claim_keys)
  have "\<exists>ks. claim_keys st'' = claim_keys st @ ks"
    using a b unfolding session_moves_def by (metis append_assoc)
  then show ?thesis
    using a b len unfolding session_moves_def by (meson order_trans)
qed

lemma session_moves_same:
  "claim_keys st' = claim_keys st \<Longrightarrow> (\<And>l. active_claim l st' = active_claim l st \<or> active_claim l st' = None)
    \<Longrightarrow> (\<And>h. jget (sx_open st') h = jget (sx_open st) h \<or> jget (sx_open st') h = None) \<Longrightarrow> sx_next st' = sx_next st
    \<Longrightarrow> session_moves st st'"
  unfolding session_moves_def by (metis append_Nil2 option.distinct(1) order_refl)

lemma session_moves_fold: "(\<And>x st. session_moves st (f x st)) \<Longrightarrow> session_moves st (fold f xs st)"
  by (induction xs arbitrary: st) (auto intro: session_moves_trans session_moves_refl)

lemma active_claim_simps [simp]:
  "active_claim l (update_claim n f st) = active_claim l st" "active_claim l (set_stage k s st) = active_claim l st"
  "active_claim l (record_size l' b st) = active_claim l st" "active_claim l (measure_lineage cfg l' st) = active_claim l st"
  "active_claim l (st\<lparr>sx_open := x\<rparr>) = active_claim l st" "active_claim l (st\<lparr>sx_files := y\<rparr>) = active_claim l st"
  "active_claim l (st\<lparr>sx_owners := z\<rparr>) = active_claim l st" "active_claim l (st\<lparr>sx_sizes := s'\<rparr>) = active_claim l st"
  "active_claim l (st\<lparr>sx_claims := c\<rparr>) = active_claim l st" "active_claim l (st\<lparr>sx_flights := u\<rparr>) = active_claim l st"
  "active_claim l (st\<lparr>sx_temporaries := t\<rparr>) = active_claim l st"
  by (simp_all add: active_claim_def)

lemma active_deactivate: "active_claim l' (deactivate l st) = (if l' = l then None else active_claim l' st)"
  by (auto simp: active_claim_def split: option.split)

lemma moves_primitive [move_intros_session]:
  "session_moves st (record_size l b st)" "session_moves st (measure_lineage cfg l st)" "session_moves st (set_stage f s st)"
  "(\<And>c. claim_key (k c) = claim_key c) \<Longrightarrow> session_moves st (update_claim n k st)" "session_moves st (snd (launch n q b s st))"
  "session_moves st (deactivate l st)" "session_moves st (delete_session_files l st)"
  by (rule session_moves_same; simp add: claim_keys_update launch_def active_deactivate delete_session_files_def)+

lemma moves_call_backend: "call_backend cfg h m args st = (r, st') \<Longrightarrow> session_moves st st'"
  by (rule session_moves_same) (simp_all add: call_backend_fields claim_keys_def active_claim_def)

lemma moves_live_tasks: "has_live_tasks cfg h st = (r, st') \<Longrightarrow> session_moves st st'"
  by (drule has_live_tasks_fields, rule session_moves_same) (simp_all add: claim_keys_def active_claim_def)

lemma moves_open: "open_database cfg l st = (r, st') \<Longrightarrow> session_moves st st'"
  by (auto simp: open_database_def Let_def session_moves_def active_claim_def claim_keys_def split: sum.splits option.splits if_splits)

lemma moves_close_handle: "session_moves st (close_handle cfg h st)"
  by (rule session_moves_same) (simp_all add: close_handle_def claim_keys_def active_claim_def split: option.split)

lemma moves_end [move_intros_session]: "session_moves st (end_lineage cfg l st)"
proof -
  let ?d = "deactivate l st"
  have "session_moves ?d (?d\<lparr>sx_lineages := jdel l (sx_lineages ?d)\<rparr>)"
    by (rule session_moves_same) (auto simp: active_claim_def)
  then have "session_moves st (?d\<lparr>sx_lineages := jdel l (sx_lineages ?d)\<rparr>)"
    by (rule session_moves_trans [OF moves_primitive(6)])
  then show ?thesis
    unfolding end_lineage_def close_lineage_def Let_def
    by (auto intro: session_moves_trans [OF _ moves_primitive(2)] session_moves_trans [OF _ moves_close_handle] split: option.split)
qed

lemma moves_locked:
  "session_moves st (release_claim cfg n st)" "session_moves st (snd (seal_claim cfg n st))" "session_moves st (snd (inspect_pending cfg l st))"
  "session_moves st (measure_store cfg st)" "session_moves st (snd (delete_lineage cfg l st))" "session_moves st (close_store cfg st)"
proof -
  show "session_moves st (release_claim cfg n st)"
    by (simp add: release_claim_def move_intros_session)
  show "session_moves st (snd (seal_claim cfg n st))"
    by (auto simp: seal_claim_def Let_def split: prod.split intro: session_moves_refl session_moves_trans [OF moves_live_tasks moves_end])
  show "session_moves st (measure_store cfg st)" "session_moves st (close_store cfg st)"
    by (auto simp: measure_store_def close_store_def intro!: session_moves_fold move_intros_session)
  have sizes: "session_moves st' (st'\<lparr>sx_sizes := x\<rparr>)" for st' :: "'a session_store" and x
    by (rule session_moves_same) simp_all
  let ?st1 = "if jhas (sx_lineages st) l then end_lineage cfg l st else st"
  have "session_moves st ?st1"
    by (simp add: moves_end session_moves_refl)
  then have "session_moves st (if sn_dir cfg then delete_session_files l ?st1 else ?st1)"
    using session_moves_trans [OF _ moves_primitive(7), of st ?st1 l] by simp
  then show "session_moves st (snd (delete_lineage cfg l st))"
    unfolding delete_lineage_def Let_def using session_moves_trans [OF _ sizes] by (simp add: session_moves_refl)
  obtain r st1 where opened: "open_database cfg l st = (r, st1)" by (metis surj_pair)
  note one = moves_open [OF opened]
  have "session_moves st (measure_lineage cfg l (close_handle cfg h st2))" if "has_live_tasks cfg h st1 = (live, st2)" for h live st2
    by (rule session_moves_trans [OF session_moves_trans [OF one moves_live_tasks [OF that]] session_moves_trans [OF moves_close_handle moves_primitive(2)]])
  moreover have "session_moves st (measure_lineage cfg l st1)"
    by (rule session_moves_trans [OF one moves_primitive(2)])
  ultimately show "session_moves st (snd (inspect_pending cfg l st))"
    by (auto simp: inspect_pending_def opened Let_def session_moves_refl split: sum.split prod.split)
qed

lemma moves_ensure_open: "ensure_open cfg l st = (r, st') \<Longrightarrow> session_moves st st'"
proof -
  assume run: "ensure_open cfg l st = (r, st')"
  obtain o' st1 where opened: "open_database cfg l st = (o', st1)" by (metis surj_pair)
  have "session_moves st1 (measure_lineage cfg l (st1\<lparr>sx_lineages := jset l (g\<lparr>ln_handle := Some h\<rparr>) (sx_lineages st1)\<rparr>))"
    if "jget (sx_lineages st) l = Some g" for g h
    by (rule session_moves_same) (use that open_database_fields(3) [OF opened] in \<open>auto simp: active_claim_def claim_keys_def measure_lineage_def record_size_def\<close>)
  then show ?thesis
    using run moves_open [OF opened]
    by (auto simp: ensure_open_def opened intro: session_moves_trans session_moves_refl split: option.splits sum.splits)
qed

lemma moves_activate: "session_moves st (snd (activate l m h st))"
proof -
  let ?d = "deactivate l st"
  have "session_moves ?d (snd (activate l m h st))"
    by (auto simp: session_moves_def activate_def Let_def claim_keys_def active_claim_def split: option.split)
  then show ?thesis
    by (rule session_moves_trans [OF moves_primitive(6)])
qed

lemma moves_take_lineage: "session_moves st (snd (take_lineage cfg w l m s st))"
proof -
  obtain r st1 where opened: "ensure_open cfg l st = (r, st1)" by (metis surj_pair)
  note one = moves_ensure_open [OF opened]
  have two: "session_moves st st2" if "(if mark_unchanged m s then (Inr (), st1) else write_mark w l m st1) = (r2, st2)" for r2 st2
  proof -
    have "session_moves st1 st2"
      by (rule session_moves_same) (use that in \<open>auto simp: write_mark_def split: if_splits mark_write.splits\<close>)
    then show ?thesis by (rule session_moves_trans [OF one])
  qed
  obtain r2 st2 where w: "(if mark_unchanged m s then (Inr (), st1) else write_mark w l m st1) = (r2, st2)" by (metis surj_pair)
  show ?thesis
  proof (cases r)
    case (Inr h)
    note two = two [OF w]
    show ?thesis
      unfolding take_lineage_def opened Inr prod.case sum.case w
      using two session_moves_trans [OF two moves_activate] by (cases r2) (simp_all add: case_prod_beta)
  qed (simp add: take_lineage_def opened one)
qed

lemma session_moves_claim: "session_moves st (snd (claim_lineage cfg now w l m st))"
proof -
  have "session_moves st (ensure_lineage cfg now l st)"
    by (rule session_moves_same) (auto simp: ensure_lineage_def active_claim_def fresh_lineage_def split: option.split)
  then show ?thesis
    by (auto simp: claim_lineage_def Let_def intro: session_moves_refl session_moves_trans [OF _ moves_take_lineage] split: sum.split option.split)
qed

lemma moves_restart: "session_moves st (restart_store st)"
  by (rule session_moves_same) (simp_all add: restart_store_def claim_keys_def active_claim_def comp_def)

lemma moves_accept: "session_moves st (snd (accept_flight cfg n q b st))"
proof -
  have "session_moves st (update_claim n (remember_flight cfg i m f) (snd (launch n q b s st)))" for i m f s
    by (rule session_moves_trans [OF moves_primitive(5) moves_primitive(4)]) simp
  then show ?thesis
    by (auto simp: accept_flight_def Let_def case_prod_beta intro: move_intros_session)
qed

lemma moves_request: "session_moves st (snd (start_request cfg now n v st))"
proof -
  have "session_moves st (st\<lparr>sx_lineages := jset l g' (sx_lineages st)\<rparr>)"
    if "jget (sx_lineages st) l = Some g" "take_token cfg now g = (b, g')" for l g b g'
    by (rule session_moves_same) (use that take_token_links(2) [OF that(2)] in \<open>auto simp: active_claim_def\<close>)
  then show ?thesis
    by (auto simp: start_request_def admit_request_def Let_def intro: session_moves_refl session_moves_trans [OF _ moves_accept]
        split: option.split prod.split)
qed

lemma moves_answer: "session_moves st (answer_flight cfg f r st)"
  unfolding answer_flight_def Let_def
  by (auto intro: session_moves_trans [OF moves_primitive(4) moves_primitive(3)] moves_primitive(3))

lemma moves_advance: "session_moves st (advance_flight cfg budget f st)"
proof -
  have flag: "session_moves st (update_claim n (\<lambda>c. c\<lparr>cm_exceeded := True\<rparr>) st)" "session_moves st (update_claim n (\<lambda>c. c\<lparr>cm_private := True\<rparr>) st)"
    for n and st :: "'a session_store"
    by (simp_all add: moves_primitive(4))
  have check: "session_moves st (check_commit cfg budget f b st)" for b
  proof -
    have moved: "session_moves (record_size l b st) (refuse_commit f e (record_size l b st))"
      "session_moves (record_size l b st) (set_stage f Calling (update_claim n (remember_flight cfg i m f) (record_size l b st)))" for l e n i m
      unfolding refuse_commit_def Let_def
      by (rule session_moves_trans [OF moves_primitive(4) moves_primitive(3)]; simp)+
    note moved = moved [THEN session_moves_trans [OF moves_primitive(1)]]
    show ?thesis
      unfolding check_commit_def Let_def by (auto simp: moved split: option.split)
  qed
  have call: "session_moves st (call_flight cfg f st)"
    unfolding call_flight_def Let_def
    by (auto intro: moves_answer session_moves_trans [OF moves_call_backend moves_answer]
        session_moves_trans [OF moves_call_backend session_moves_trans [OF flag(2) moves_primitive(3)]] split: prod.split)
  have finish: "session_moves st (finish_commit cfg budget f r b st)" for r b
    unfolding finish_commit_def Let_def
    by (rule session_moves_trans [OF session_moves_trans moves_answer, of _ "if claim_current (fg_claim (sx_flights st ! f)) st
        then record_size (cm_lineage (sx_claims st ! fg_claim (sx_flights st ! f))) b st else st"])
      (auto intro: move_intros_session flag)
  show ?thesis
    by (auto simp: advance_flight_def intro: move_intros_session check call finish split: flight_stage.split)
qed

lemma moves_step: "session_step cfg st st' \<Longrightarrow> session_moves st st'"
  by (induction rule: session_step.induct)
    (simp_all add: session_moves_claim moves_locked moves_restart moves_request moves_advance)

lemma moves_run: "(session_step cfg)\<^sup>*\<^sup>* st st' \<Longrightarrow> session_moves st st'"
  by (induction rule: rtranclp_induct) (auto intro: session_moves_refl session_moves_trans moves_step)

lemma session_ok_run: "(session_step cfg)\<^sup>*\<^sup>* st st' \<Longrightarrow> session_ok cfg st \<Longrightarrow> session_ok cfg st'"
  by (induction rule: rtranclp_induct) (auto intro: session_ok_step)

text \<open>The lineage and the handle of a claim are those it was made with.\<close>

lemma moves_claim_key:
  assumes "session_moves st st'" "n < length (sx_claims st)"
  shows "n < length (sx_claims st') \<and> cm_lineage (sx_claims st' ! n) = cm_lineage (sx_claims st ! n)
    \<and> cm_handle (sx_claims st' ! n) = cm_handle (sx_claims st ! n) \<and> cm_mark (sx_claims st' ! n) = cm_mark (sx_claims st ! n)"
proof -
  obtain ks where ks: "claim_keys st' = claim_keys st @ ks" using assms(1) by (auto simp: session_moves_def)
  then have len: "n < length (sx_claims st')" using assms(2) by (metis length_append length_claim_keys trans_less_add1)
  have "claim_key (sx_claims st' ! n) = claim_key (sx_claims st ! n)"
    using ks assms(2) len by (metis claim_keys_nth length_claim_keys nth_append)
  then show ?thesis using len by (simp add: claim_key_def)
qed

lemma lost_claim_stays_lost:
  assumes "session_moves st st'" "n < length (sx_claims st)" "\<not> claim_current n st"
  shows "\<not> claim_current n st'"
  using assms moves_claim_key [OF assms(1,2)] unfolding session_moves_def claim_current_def by (metis not_less)

lemma closed_handle_stays_closed:
  assumes "session_moves st st'" "h < sx_next st" "jget (sx_open st) h = None"
  shows "jget (sx_open st') h = None"
  using assms unfolding session_moves_def by (metis not_le not_Some_eq option.distinct(1))

section \<open>Owner marks\<close>

text \<open>The marks on disk change by a claim that supersedes, and go when a lineage is deleted.\<close>

definition marks_move :: "'d session_store \<Rightarrow> 'd session_store \<Rightarrow> bool" where
  "marks_move st st' =
     (sx_owners st' = sx_owners st \<or> (\<exists>l. sx_owners st' = jdel l (sx_owners st))
      \<or> (\<exists>l m s. sx_owners st' = jset l (Some (mark_json m)) (sx_owners st) \<and> mark_ok m \<and> stored_mark l st = Inr s
           \<and> \<not> mark_refused m s \<and> \<not> mark_unchanged m s))"

lemma owners_primitive [simp]:
  "sx_owners (close_handle cfg h st) = sx_owners st" "sx_owners (end_lineage cfg l st) = sx_owners st"
  "sx_owners (answer_flight cfg f r st) = sx_owners st" "sx_owners (ensure_lineage cfg now l st) = sx_owners st"
  "sx_owners (snd (activate l m h st)) = sx_owners st" "sx_owners (snd (launch n q b s st)) = sx_owners st"
  by (simp_all add: close_handle_def end_lineage_def close_lineage_def Let_def answer_flight_def ensure_lineage_def activate_def launch_def
      split: option.split)

lemma owners_fold: "(\<And>x st. sx_owners (f x st) = sx_owners st) \<Longrightarrow> sx_owners (fold f xs st) = sx_owners st"
  by (induction xs arbitrary: st) auto

lemma owners_accept [simp]: "sx_owners (snd (accept_flight cfg n q b st)) = sx_owners st"
  by (simp add: accept_flight_def Let_def case_prod_beta)

lemma owners_kept:
  "sx_owners (release_claim cfg n st) = sx_owners st" "sx_owners (snd (seal_claim cfg n st)) = sx_owners st"
  "sx_owners (snd (inspect_pending cfg l st)) = sx_owners st" "sx_owners (measure_store cfg st) = sx_owners st"
  "sx_owners (close_store cfg st) = sx_owners st" "sx_owners (restart_store st) = sx_owners st"
  "sx_owners (snd (start_request cfg now n v st)) = sx_owners st" "sx_owners (advance_flight cfg budget f st) = sx_owners st"
proof -
  show "sx_owners (release_claim cfg n st) = sx_owners st" "sx_owners (restart_store st) = sx_owners st"
    by (simp_all add: release_claim_def restart_store_def)
  show "sx_owners (snd (seal_claim cfg n st)) = sx_owners st"
    by (auto simp: seal_claim_def Let_def has_live_tasks_fields split: prod.split)
  show "sx_owners (measure_store cfg st) = sx_owners st" "sx_owners (close_store cfg st) = sx_owners st"
    by (simp_all add: measure_store_def close_store_def owners_fold)
  show "sx_owners (snd (inspect_pending cfg l st)) = sx_owners st"
    by (auto simp: inspect_pending_def Let_def has_live_tasks_fields open_database_fields(1) split: prod.split sum.split)
  show "sx_owners (snd (start_request cfg now n v st)) = sx_owners st"
    by (auto simp: start_request_def admit_request_def Let_def split: option.split prod.split)
  show "sx_owners (advance_flight cfg budget f st) = sx_owners st"
    by (auto simp: advance_flight_def check_commit_def refuse_commit_def call_flight_def finish_commit_def Let_def call_backend_fields(1)
        split: flight_stage.split option.split prod.split)
qed

lemma marks_delete: "marks_move st (snd (delete_lineage cfg l st))"
  by (auto simp: delete_lineage_def Let_def delete_session_files_def marks_move_def)

lemma owners_take:
  "sx_owners (snd (take_lineage cfg w l m s st)) = sx_owners st
     \<or> (sx_owners (snd (take_lineage cfg w l m s st)) = jset l (Some (mark_json m)) (sx_owners st) \<and> \<not> mark_unchanged m s)"
proof -
  obtain r st1 where opened: "ensure_open cfg l st = (r, st1)" by (metis surj_pair)
  note same = ensure_open_fields(1) [OF opened]
  show ?thesis
  proof (cases r)
    case (Inr h)
    obtain r2 st2 where w: "(if mark_unchanged m s then (Inr (), st1) else write_mark w l m st1) = (r2, st2)" by (metis surj_pair)
    then have "sx_owners st2 = sx_owners st \<or> (sx_owners st2 = jset l (Some (mark_json m)) (sx_owners st) \<and> \<not> mark_unchanged m s)"
      using same by (auto simp: write_mark_def split: if_splits mark_write.splits)
    then show ?thesis
      unfolding take_lineage_def opened Inr prod.case sum.case w by (cases r2) (simp_all add: case_prod_beta)
  qed (simp add: take_lineage_def opened same)
qed

lemma marks_claim: "marks_move st (snd (claim_lineage cfg now w l m st))"
proof (cases "claim_checks cfg l m")
  case (Inr u)
  note ok = claim_checks_Inr [OF Inr]
  show ?thesis
  proof (cases "stored_mark l st")
    case stored: (Inr s)
    let ?e = "ensure_lineage cfg now l st"
    have "sx_owners (snd (claim_lineage cfg now w l m st)) = sx_owners st
        \<or> (sx_owners (snd (claim_lineage cfg now w l m st)) = jset l (Some (mark_json m)) (sx_owners st)
           \<and> \<not> mark_refused m s \<and> \<not> mark_unchanged m s)"
      using owners_take [of cfg w l m s ?e]
      by (auto simp: claim_lineage_def Inr stored Let_def split: option.split if_splits)
    then show ?thesis
      using ok stored unfolding marks_move_def by blast
  qed (simp add: claim_lineage_def Inr marks_move_def)
qed (simp add: claim_lineage_def marks_move_def)

lemma marks_step: "session_step cfg st st' \<Longrightarrow> marks_move st st'"
  by (induction rule: session_step.induct)
    (simp_all add: marks_claim marks_delete, simp_all add: marks_move_def owners_kept)

text \<open>Read back: a mark that is still there is the same, or a greater one.\<close>

lemma mark_rises:
  assumes "marks_move st st'" "stored_mark l st = Inr (Some m)" "jhas (sx_owners st') l"
  shows "\<exists>m'. stored_mark l st' = Inr (Some m') \<and> (m' = m \<or> 0 < compare_marks m' m)"
proof -
  have same: "\<exists>m'. stored_mark l st' = Inr (Some m') \<and> (m' = m \<or> 0 < compare_marks m' m)" if "jget (sx_owners st') l = jget (sx_owners st) l"
    using assms(2) that by (simp add: stored_mark_def)
  consider "sx_owners st' = sx_owners st" | k where "sx_owners st' = jdel k (sx_owners st)"
    | k m' s where "sx_owners st' = jset k (Some (mark_json m')) (sx_owners st)" "mark_ok m'" "stored_mark k st = Inr s"
        "\<not> mark_refused m' s" "\<not> mark_unchanged m' s"
    using assms(1) unfolding marks_move_def by blast
  then show ?thesis
  proof cases
    case 2
    then show ?thesis using same assms(3) by (cases "k = l") (auto simp: jhas_def)
  next
    case 3
    show ?thesis
    proof (cases "k = l")
      case True
      have "stored_mark l st' = Inr (Some m')" using 3(1,2) True by (simp add: stored_mark_def read_mark_json)
      moreover have "0 < compare_marks m' m" using 3(3-5) assms(2) True by (auto simp: mark_refused_def mark_unchanged_def)
      ultimately show ?thesis by blast
    qed (use same 3(1) in simp)
  qed (use same in simp)
qed

lemma compare_marks_trans: "0 < compare_marks a b \<Longrightarrow> 0 < compare_marks b c \<Longrightarrow> 0 < compare_marks a c"
  by (auto simp: compare_marks_def split: if_splits)

end
