(* ===== verification/SessionCommits.thy ===== *)
theory SessionCommits
  imports SessionHistory
begin

text \<open>
  The latest commit of a claim: as long as the claim is current, the last commit that reached the database is
  the one a repeated request is answered from, however many other requests came after it.
\<close>

section \<open>Claims that stay current\<close>

definition active_linked :: "'d session_store \<Rightarrow> bool" where
  "active_linked st = (\<forall>l k. active_claim l st = Some k \<longrightarrow> k < length (sx_claims st) \<and> cm_lineage (sx_claims st ! k) = l)"

lemma links_active: "links_ok cfg st \<Longrightarrow> active_linked st"
proof -
  assume ok: "links_ok cfg st"
  have "k < length (sx_claims st) \<and> cm_lineage (sx_claims st ! k) = l" if a: "active_claim l st = Some k" for l k
  proof -
    obtain g where g: "jget (sx_lineages st) l = Some g" "ln_active g = Some k"
      using a by (cases "jget (sx_lineages st) l") (auto simp: active_claim_def)
    show ?thesis
      using links_okD(6) [OF ok g(1)] g(2) by (auto simp: lineage_ok_def claim_keys_nth claim_key_def)
  qed
  then show ?thesis by (simp add: active_linked_def)
qed

text \<open>A claim that is current afterwards was current before, with the same memo.\<close>

definition keeps_current :: "'d session_store \<Rightarrow> 'd session_store \<Rightarrow> bool" where
  "keeps_current st st' = (length (sx_claims st) \<le> length (sx_claims st')
     \<and> (\<forall>n < length (sx_claims st). claim_current n st' \<longrightarrow> claim_current n st \<and> sx_claims st' ! n = sx_claims st ! n))"

lemma keeps_current_refl: "keeps_current st st"
  by (simp add: keeps_current_def)

lemma keeps_current_trans: "keeps_current st st' \<Longrightarrow> keeps_current st' st'' \<Longrightarrow> keeps_current st st''"
  by (auto simp: keeps_current_def)

lemma keeps_current_same:
  "sx_claims st' = sx_claims st \<Longrightarrow> (\<And>l. active_claim l st' = active_claim l st \<or> active_claim l st' = None) \<Longrightarrow> keeps_current st st'"
  unfolding keeps_current_def claim_current_def by (metis option.distinct(1) order_refl)

lemma keeps_current_deactivate:
  assumes "active_linked st" shows "keeps_current st (deactivate l st)"
proof -
  have "claim_current n st \<and> sx_claims (deactivate l st) ! n = sx_claims st ! n"
    if n: "n < length (sx_claims st)" and cur: "claim_current n (deactivate l st)" for n
  proof -
    have same: "cm_lineage (sx_claims (deactivate l st) ! n) = cm_lineage (sx_claims st ! n)"
      using moves_claim_key [OF moves_primitive(6) n] by blast
    then have active: "active_claim (cm_lineage (sx_claims st ! n)) st = Some n" "cm_lineage (sx_claims st ! n) \<noteq> l"
      using cur by (auto simp: claim_current_def active_deactivate split: if_splits)
    have "jget (sx_lineages st) l = Some g \<Longrightarrow> ln_active g = Some k \<Longrightarrow> k \<noteq> n" for g k
      using assms active(2) by (auto simp: active_linked_def active_claim_def)
    then have "sx_claims (deactivate l st) ! n = sx_claims st ! n"
      by (auto simp: deactivate_def split: option.split)
    then show ?thesis using n active(1) by (simp add: claim_current_def)
  qed
  then show ?thesis by (simp add: keeps_current_def)
qed

lemma keeps_current_end:
  assumes "active_linked st" shows "keeps_current st (end_lineage cfg l st)"
proof -
  have "active_claim l' (end_lineage cfg l st) = active_claim l' (deactivate l st) \<or> active_claim l' (end_lineage cfg l st) = None" for l'
    by (simp add: active_claim_def split: option.split)
  then show ?thesis
    by (intro keeps_current_trans [OF keeps_current_deactivate [OF assms] keeps_current_same]) simp_all
qed

lemma keeps_current_new:
  assumes "active_linked st" shows "keeps_current st (snd (activate l m h st))"
proof -
  have "claim_current n (deactivate l st) \<and> sx_claims (snd (activate l m h st)) ! n = sx_claims (deactivate l st) ! n"
    if "n < length (sx_claims st)" "claim_current n (snd (activate l m h st))" for n
    using that by (auto simp: activate_def Let_def claim_current_def active_claim_def nth_append split: option.splits if_splits)
  moreover have "length (sx_claims (deactivate l st)) \<le> length (sx_claims (snd (activate l m h st)))"
    by (simp add: activate_def Let_def split: option.split)
  ultimately have "keeps_current (deactivate l st) (snd (activate l m h st))"
    by (simp add: keeps_current_def)
  then show ?thesis by (rule keeps_current_trans [OF keeps_current_deactivate [OF assms]])
qed

lemma keeps_current_live_tasks: "has_live_tasks cfg h st = (r, st') \<Longrightarrow> keeps_current st st'"
  by (drule has_live_tasks_fields, rule keeps_current_same) (simp_all add: active_claim_def)

lemma active_linked_same: "sx_claims st' = sx_claims st \<Longrightarrow> (\<And>l. active_claim l st' = active_claim l st) \<Longrightarrow> active_linked st \<Longrightarrow> active_linked st'"
  by (simp add: active_linked_def)

lemma keeps_current_take:
  assumes "active_linked st" shows "keeps_current st (snd (take_lineage cfg w l m s st))"
proof -
  obtain r st1 where opened: "ensure_open cfg l st = (r, st1)" by (metis surj_pair)
  note f = ensure_open_fields [OF opened]
  have one: "keeps_current st st1" by (rule keeps_current_same) (simp_all add: f)
  show ?thesis
  proof (cases r)
    case (Inr h)
    obtain r2 st2 where w: "(if mark_unchanged m s then (Inr (), st1) else write_mark w l m st1) = (r2, st2)" by (metis surj_pair)
    have two: "keeps_current st st2" "active_linked st2"
      by (rule keeps_current_same active_linked_same [OF _ _ assms]; use w f in \<open>auto simp: write_mark_def split: if_splits mark_write.splits\<close>)+
    show ?thesis
      unfolding take_lineage_def opened Inr prod.case sum.case w
      using two keeps_current_trans [OF two(1) keeps_current_new [OF two(2)]] by (cases r2) (simp_all add: case_prod_beta)
  qed (simp add: take_lineage_def opened one)
qed

lemma keeps_current_claim:
  assumes "active_linked st" shows "keeps_current st (snd (claim_lineage cfg now w l m st))"
proof -
  let ?e = "ensure_lineage cfg now l st"
  have e: "sx_claims ?e = sx_claims st" "active_claim l' ?e = active_claim l' st" for l'
    by (simp_all add: ensure_lineage_def active_claim_def fresh_lineage_def split: option.split)
  have "keeps_current st ?e" "active_linked ?e"
    by (rule keeps_current_same active_linked_same [OF _ _ assms]; simp add: e)+
  then show ?thesis
    by (auto simp: claim_lineage_def Let_def intro: keeps_current_refl keeps_current_trans [OF _ keeps_current_take] split: sum.split option.split)
qed

lemma keeps_current_fold:
  "(\<And>x st. I st \<Longrightarrow> keeps_current st (f x st) \<and> I (f x st)) \<Longrightarrow> I st \<Longrightarrow> keeps_current st (fold f xs st)"
  by (induction xs arbitrary: st) (auto intro: keeps_current_refl keeps_current_trans)

lemma keeps_current_locked:
  assumes ok: "links_ok cfg st"
  shows "keeps_current st (release_claim cfg n st)" "keeps_current st (snd (seal_claim cfg n st))" "keeps_current st (snd (inspect_pending cfg l st))"
    "keeps_current st (measure_store cfg st)" "keeps_current st (snd (delete_lineage cfg l st))" "keeps_current st (close_store cfg st)"
    "keeps_current st (restart_store st)"
proof -
  note linked = links_active [OF ok]
  show "keeps_current st (release_claim cfg n st)"
    by (simp add: release_claim_def keeps_current_end keeps_current_refl linked)
  show "keeps_current st (snd (seal_claim cfg n st))"
    by (auto simp: seal_claim_def Let_def split: prod.split
        intro: keeps_current_refl keeps_current_trans [OF keeps_current_live_tasks keeps_current_end] links_active links_ok_has_live_tasks [OF _ ok])
  have "keeps_current st (measure_lineage cfg l st) \<and> links_ok cfg (measure_lineage cfg l st)" if "links_ok cfg st" for l and st :: "'a session_store"
    using that by (auto intro: keeps_current_same links_ok_measure)
  then show "keeps_current st (measure_store cfg st)"
    using keeps_current_fold [of "links_ok cfg" "measure_lineage cfg" st] ok by (simp add: measure_store_def keeps_current_refl)
  show "keeps_current st (close_store cfg st)"
    unfolding close_store_def
    by (rule keeps_current_fold [of "links_ok cfg"]) (auto intro: keeps_current_end links_active links_ok_end_lineage ok)
  have "keeps_current st (if jhas (sx_lineages st) l then end_lineage cfg l st else st)" (is "keeps_current st ?st1")
    by (simp add: keeps_current_end keeps_current_refl linked)
  moreover have "keeps_current ?st1 (delete_session_files l ?st1)"
    by (rule keeps_current_same) (simp_all add: delete_session_files_def)
  ultimately have "keeps_current st (if sn_dir cfg then delete_session_files l ?st1 else ?st1)"
    using keeps_current_trans by auto
  moreover have sizes: "keeps_current st' (st'\<lparr>sx_sizes := x\<rparr>)" for st' :: "'a session_store" and x
    by (rule keeps_current_same) simp_all
  ultimately show "keeps_current st (snd (delete_lineage cfg l st))"
    unfolding delete_lineage_def Let_def using keeps_current_trans [OF _ sizes] by (simp add: keeps_current_refl)
  show "keeps_current st (restart_store st)"
    by (simp add: keeps_current_def claim_current_def active_claim_def restart_store_def)
  obtain r st1 where opened: "open_database cfg l st = (r, st1)" by (metis surj_pair)
  have one: "keeps_current st st1"
    by (rule keeps_current_same) (simp_all add: open_database_fields [OF opened] active_claim_def)
  have rest: "keeps_current st2 (measure_lineage cfg l (close_handle cfg h st2))" "keeps_current st2 (measure_lineage cfg l st2)" for h st2
    by (rule keeps_current_same; simp add: close_handle_def split: option.split)+
  have "keeps_current st (measure_lineage cfg l (close_handle cfg h st2))" if "has_live_tasks cfg h st1 = (live, st2)" for h live st2
    by (rule keeps_current_trans [OF keeps_current_trans [OF one keeps_current_live_tasks [OF that]] rest(1)])
  then show "keeps_current st (snd (inspect_pending cfg l st))"
    using keeps_current_trans [OF one rest(2)]
    by (auto simp: inspect_pending_def opened Let_def keeps_current_refl split: sum.split prod.split)
qed

section \<open>The latest commit\<close>

definition reached :: "flight_stage \<Rightarrow> bool" where
  "reached s = (case s of Calling \<Rightarrow> True | Called _ \<Rightarrow> True | Sized _ _ \<Rightarrow> True | Answered r \<Rightarrow> response_ok r | _ \<Rightarrow> False)"

definition is_commit :: "nat \<Rightarrow> flight \<Rightarrow> bool" where
  "is_commit n g = (fg_claim g = n \<and> sq_method (fg_request g) = ''commit'')"

definition latest_commit :: "flight list \<Rightarrow> nat \<Rightarrow> nat \<Rightarrow> bool" where
  "latest_commit fs n f = (f < length fs \<and> is_commit n (fs ! f) \<and> reached (fg_stage (fs ! f))
     \<and> (\<forall>f'. f < f' \<and> f' < length fs \<longrightarrow> \<not> is_commit n (fs ! f')))"

definition in_order :: "flight list \<Rightarrow> bool" where
  "in_order fs = (\<forall>f f'. f < f' \<and> f' < length fs \<and> fg_claim (fs ! f) = fg_claim (fs ! f') \<longrightarrow> \<not> unsettled (fg_stage (fs ! f)))"

definition commits_ok :: "'d session_store \<Rightarrow> bool" where
  "commits_ok st =
     (in_order (sx_flights st)
      \<and> (\<forall>n f. claim_current n st \<and> latest_commit (sx_flights st) n f
           \<longrightarrow> cm_last (sx_claims st ! n) = Some (sq_id (fg_request (sx_flights st ! f)), f)))"

lemma unsettled_stages: "unsettled s \<Longrightarrow> reached s \<or> before_memo s"
  by (cases s) (simp_all add: reached_def)

lemma before_not_reached: "before_memo s \<Longrightarrow> \<not> reached s"
  by (cases s) (simp_all add: reached_def)

lemma commits_ok_keeps:
  assumes ok: "commits_ok st" and keep: "keeps_current st st'" and flights: "sx_flights st' = sx_flights st" and memo: "memo_ok cfg (sx_claims st) (sx_flights st)"
  shows "commits_ok st'"
proof -
  have "n < length (sx_claims st)" if "latest_commit (sx_flights st) n f" for n f
    using flight_claim [OF memo, of f] that by (auto simp: latest_commit_def is_commit_def)
  then show ?thesis
    using ok keep flights unfolding commits_ok_def keeps_current_def by metis
qed

lemma commits_ok_restart:
  assumes ok: "commits_ok st" shows "commits_ok (restart_store st)"
proof -
  have "\<not> unsettled (fg_stage (lost_flight g))" for g
    by (auto simp: lost_flight_def split: flight_stage.split)
  then have "in_order (sx_flights (restart_store st))"
    by (auto simp: in_order_def restart_store_def)
  then show ?thesis
    by (simp add: commits_ok_def claim_current_def active_claim_def restart_store_def)
qed

text \<open>A request that starts comes after everything its claim has sent.\<close>

lemma commits_ok_launch:
  assumes ok: "commits_ok st" and idle: "claim_idle n st" and memo: "memo_ok cfg (sx_claims st) (sx_flights st)" and n: "n < length (sx_claims st)"
    and s: "s = Measuring \<or> (s = Calling \<and> sq_method q \<noteq> ''commit'')"
    and st': "sx_flights st' = sx_flights st @ [\<lparr>fg_claim = n, fg_request = q, fg_bytes = b, fg_stage = s\<rparr>]"
      "\<And>k. claim_current k st' = claim_current k st" "\<And>k. k < length (sx_claims st) \<Longrightarrow> cm_last (sx_claims st' ! k) = cm_last (sx_claims st ! k)"
  shows "commits_ok st'"
proof -
  let ?g = "\<lparr>fg_claim = n, fg_request = q, fg_bytes = b, fg_stage = s\<rparr>"
  have "in_order (sx_flights st')"
    using ok claim_idleD [OF idle] unfolding commits_ok_def in_order_def st'(1)
    by (auto simp: nth_append less_Suc_eq)
  moreover have "cm_last (sx_claims st' ! k) = Some (sq_id (fg_request (sx_flights st' ! f)), f)"
    if cur: "claim_current k st'" and late: "latest_commit (sx_flights st') k f" for k f
  proof -
    have not_new: "f \<noteq> length (sx_flights st)"
      using late s by (auto simp: latest_commit_def st'(1) is_commit_def reached_def)
    then have f: "f < length (sx_flights st)"
      using late by (auto simp: latest_commit_def st'(1))
    have "\<not> is_commit k (sx_flights st ! f')" if "f < f'" "f' < length (sx_flights st)" for f'
      using late that by (auto simp: latest_commit_def st'(1) nth_append dest: spec [of _ f'])
    then have "latest_commit (sx_flights st) k f"
      using late f by (auto simp: latest_commit_def st'(1) nth_append)
    then show ?thesis
      using ok cur f flight_claim [OF memo f] unfolding commits_ok_def st'(2)
      by (auto simp: st' nth_append latest_commit_def is_commit_def)
  qed
  ultimately show ?thesis by (simp add: commits_ok_def)
qed

lemma evict_last [simp]: "cm_last (evict_remembered cfg c) = cm_last c"
  by (simp add: evict_remembered_def split: prod.split)

lemma settle_last [simp]: "cm_last (settle_remembered cfg i f r c) = cm_last c"
  by (simp add: settle_remembered_def Let_def split: option.split prod.split)

lemma remember_last [simp]: "cm_last (remember_flight cfg i m f c) = (if m = ''commit'' then Some (i, f) else cm_last c)"
  by (simp add: remember_flight_def)

lemma commits_ok_accept:
  assumes ok: "commits_ok st" "memo_ok cfg (sx_claims st) (sx_flights st)" and n: "n < length (sx_claims st)" "claim_idle n st"
  shows "commits_ok (snd (accept_flight cfg n q b st))"
proof -
  have cur: "claim_current k (update_claim n c st') = claim_current k st'" if "\<And>x. claim_key (c x) = claim_key x" for k c and st' :: "'a session_store"
    using that by (cases "k = n") (auto simp: claim_current_def claim_key_def)
  have launched: "claim_current k (st\<lparr>sx_flights := x\<rparr>) = claim_current k st" for k x
    by (simp add: claim_current_def)
  have one: "commits_ok (st\<lparr>sx_flights := sx_flights st @ [\<lparr>fg_claim = n, fg_request = q, fg_bytes = b, fg_stage = s\<rparr>]\<rparr>)"
    if "s = Measuring \<or> (s = Calling \<and> sq_method q \<noteq> ''commit'')" for s
    by (rule commits_ok_launch [OF ok(1) n(2) ok(2) n(1) that]) (simp_all add: launched)
  have two: "commits_ok (update_claim n (remember_flight cfg i m f) (st\<lparr>sx_flights := sx_flights st @ [\<lparr>fg_claim = n, fg_request = q, fg_bytes = b, fg_stage = Calling\<rparr>]\<rparr>))"
    if "sq_method q \<noteq> ''commit''" "m = sq_method q" for i m f
    by (rule commits_ok_launch [OF ok(1) n(2) ok(2) n(1), of Calling q]) (use that n in \<open>auto simp: launched cur nth_list_update\<close>)
  show ?thesis
    using ok(1) one two by (auto simp: accept_flight_def Let_def launch_def)
qed

lemma commits_ok_request:
  assumes ok: "commits_ok st" "memo_ok cfg (sx_claims st) (sx_flights st)" and idle: "claim_idle n st"
  shows "commits_ok (snd (start_request cfg now n v st))"
proof -
  have token: "commits_ok (st\<lparr>sx_lineages := jset l g' (sx_lineages st)\<rparr>)"
    if "jget (sx_lineages st) l = Some g" "take_token cfg now g = (b, g')" for l g b g'
    by (rule commits_ok_keeps [OF ok(1) _ _ ok(2)], rule keeps_current_same)
      (use that take_token_links(2) [OF that(2)] in \<open>auto simp: active_claim_def\<close>)
  have accept: "commits_ok (snd (accept_flight cfg n q b (st\<lparr>sx_lineages := x\<rparr>)))"
    if "commits_ok (st\<lparr>sx_lineages := x\<rparr>)" "n < length (sx_claims st)" for q b x
    by (rule commits_ok_accept) (use that ok idle in \<open>simp_all add: claim_idle_def\<close>)
  show ?thesis
    using ok(1) token accept
    by (auto simp: start_request_def admit_request_def Let_def claim_current_def split: option.split prod.split)
qed

text \<open>A request that moves on.\<close>

lemma commits_ok_move:
  assumes ok: "commits_ok st" and memo: "memo_ok cfg (sx_claims st) (sx_flights st)" and f: "f < length (sx_flights st)"
    and s: "unsettled (fg_stage (sx_flights st ! f))"
    and st': "sx_flights st' = (sx_flights st)[f := (sx_flights st ! f)\<lparr>fg_stage := s\<rparr>]" "\<And>k. claim_current k st' = claim_current k st"
    and last: "\<And>k. k < length (sx_claims st) \<Longrightarrow> cm_last (sx_claims st' ! k) = cm_last (sx_claims st ! k)
       \<or> (k = fg_claim (sx_flights st ! f) \<and> is_commit k (sx_flights st ! f) \<and> cm_last (sx_claims st' ! k) = Some (sq_id (fg_request (sx_flights st ! f)), f))"
    and reach: "reached s \<Longrightarrow> reached (fg_stage (sx_flights st ! f)) \<or> \<not> is_commit (fg_claim (sx_flights st ! f)) (sx_flights st ! f)
       \<or> cm_last (sx_claims st' ! fg_claim (sx_flights st ! f)) = Some (sq_id (fg_request (sx_flights st ! f)), f)"
  shows "commits_ok st'"
proof -
  let ?fs = "sx_flights st" and ?fs' = "sx_flights st'" and ?n = "fg_claim (sx_flights st ! f)"
  have same: "fg_claim (?fs' ! k) = fg_claim (?fs ! k)" "fg_request (?fs' ! k) = fg_request (?fs ! k)" "length ?fs' = length ?fs" for k
    using f unfolding st'(1) by (cases "k = f"; simp)+
  have other: "k \<noteq> f \<Longrightarrow> ?fs' ! k = ?fs ! k" for k
    unfolding st'(1) by simp
  have order: "in_order ?fs" using ok by (simp add: commits_ok_def)
  have none_later: "\<not> (f < f' \<and> f' < length ?fs \<and> fg_claim (?fs ! f') = ?n)" for f'
    using order s unfolding in_order_def by metis
  have "in_order ?fs'"
    unfolding in_order_def
  proof (intro allI impI)
    fix a b assume ab: "a < b \<and> b < length ?fs' \<and> fg_claim (?fs' ! a) = fg_claim (?fs' ! b)"
    then have "a \<noteq> f" using none_later [of b] same by metis
    then show "\<not> unsettled (fg_stage (?fs' ! a))"
      using order ab same other unfolding in_order_def by metis
  qed
  moreover have "cm_last (sx_claims st' ! n) = Some (sq_id (fg_request (?fs' ! k)), k)"
    if cur: "claim_current n st'" and late: "latest_commit ?fs' n k" for n k
  proof -
    have k: "k < length ?fs" "is_commit n (?fs ! k)" and later: "\<And>f'. k < f' \<Longrightarrow> f' < length ?fs \<Longrightarrow> \<not> is_commit n (?fs ! f')"
      and r: "reached (fg_stage (?fs' ! k))"
      using late by (auto simp: latest_commit_def is_commit_def same)
    have n: "n < length (sx_claims st)" using flight_claim [OF memo k(1)] k(2) by (simp add: is_commit_def)
    have old: "cm_last (sx_claims st ! n) = Some (sq_id (fg_request (?fs ! k)), k)" if "reached (fg_stage (?fs ! k))"
      using ok cur k later that unfolding commits_ok_def st'(2) latest_commit_def by blast
    show ?thesis
    proof (cases "k = f")
      case True
      then have "reached s" using r f by (simp add: st'(1))
      then show ?thesis
        using reach old last [OF n] k(2) True by (auto simp: same is_commit_def)
    next
      case False
      then have prev: "cm_last (sx_claims st ! n) = Some (sq_id (fg_request (?fs ! k)), k)" using old r other by simp
      have "\<not> is_commit n (?fs ! f)"
      proof
        assume c: "is_commit n (?fs ! f)"
        then have "\<not> k < f" using later f by blast
        then show False using none_later [of k] k c False by (auto simp: is_commit_def)
      qed
      then show ?thesis using last [OF n] prev by (auto simp: same)
    qed
  qed
  ultimately show ?thesis by (simp add: commits_ok_def)
qed

lemma claim_current_update [simp]:
  "(\<And>x. claim_key (c x) = claim_key x) \<Longrightarrow> claim_current k (update_claim n c st) = claim_current k st"
  "claim_current k (set_stage f s st) = claim_current k st" "claim_current k (record_size l b st) = claim_current k st"
proof -
  show "claim_current k (set_stage f s st) = claim_current k st" "claim_current k (record_size l b st) = claim_current k st"
    by (simp_all add: claim_current_def)
  assume "\<And>x. claim_key (c x) = claim_key x"
  then show "claim_current k (update_claim n c st) = claim_current k st"
    by (cases "k = n") (auto simp: claim_current_def claim_key_def)
qed

lemma commits_ok_answer:
  assumes ok: "commits_ok st" "memo_ok cfg (sx_claims st) (sx_flights st)" and f: "f < length (sx_flights st)" "unsettled (fg_stage (sx_flights st ! f))"
    and r: "response_ok r \<longrightarrow> reached (fg_stage (sx_flights st ! f)) \<or> \<not> is_commit (fg_claim (sx_flights st ! f)) (sx_flights st ! f)"
  shows "commits_ok (answer_flight cfg f r st)"
  by (rule commits_ok_move [OF ok f])
    (use r flight_claim [OF ok(2) f(1)] in \<open>auto simp: answer_flight_def Let_def nth_list_update reached_def [of "Answered r"]\<close>)

lemma commits_ok_stage:
  assumes "commits_ok st" "memo_ok cfg (sx_claims st) (sx_flights st)" "f < length (sx_flights st)" "unsettled (fg_stage (sx_flights st ! f))"
    "reached s \<Longrightarrow> reached (fg_stage (sx_flights st ! f))"
  shows "commits_ok (set_stage f s st)"
  by (rule commits_ok_move [OF assms(1-4)]) (use assms(5) in auto)

lemma commits_ok_flag:
  assumes "commits_ok st" "\<And>x. claim_key (c x) = claim_key x" "\<And>x. cm_last (c x) = cm_last x"
    "memo_ok cfg (sx_claims st) (sx_flights st)"
  shows "commits_ok (update_claim n c st)"
proof -
  have "cm_last (sx_claims (update_claim n c st) ! k) = cm_last (sx_claims st ! k)" if "k < length (sx_claims st)" for k
    using assms(3) that by (cases "k = n") simp_all
  then show ?thesis
    using assms(1) flight_claim [OF assms(4)] by (auto simp: commits_ok_def assms(2) latest_commit_def is_commit_def)
qed

lemma commits_ok_record: "commits_ok (record_size l b st) = commits_ok st"
  by (simp add: commits_ok_def)

lemma commits_ok_refuse:
  assumes ok: "commits_ok st" "memo_ok cfg (sx_claims st) (sx_flights st)" and f: "f < length (sx_flights st)" "unsettled (fg_stage (sx_flights st ! f))"
  shows "commits_ok (refuse_commit f e st)"
  by (rule commits_ok_move [OF ok f])
    (use flight_claim [OF ok(2) f(1)] in \<open>auto simp: refuse_commit_def Let_def nth_list_update reached_def storage_failure_def\<close>)

lemma commits_ok_check:
  assumes ok: "commits_ok st" "memo_ok cfg (sx_claims st) (sx_flights st)" and f: "f < length (sx_flights st)" "fg_stage (sx_flights st ! f) = Measured b"
  shows "commits_ok (check_commit cfg budget f b st)"
proof -
  let ?g = "sx_flights st ! f"
  have commit: "sq_method (fg_request ?g) = ''commit''" and s: "unsettled (fg_stage ?g)"
    using memo_okD(2) [OF ok(2) f(1)] f(2) by (auto simp: flight_ok_def)
  have "commits_ok (set_stage f Calling (update_claim (fg_claim ?g)
      (remember_flight cfg (sq_id (fg_request ?g)) (sq_method (fg_request ?g)) f) (record_size l b st)))" for l
    by (rule commits_ok_move [OF ok f(1) s])
      (use flight_claim [OF ok(2) f(1)] commit in \<open>auto simp: nth_list_update is_commit_def\<close>)
  moreover have "commits_ok (refuse_commit f e (record_size l b st))" for e l
    by (rule commits_ok_refuse) (use ok f s in \<open>simp_all add: commits_ok_record\<close>)
  ultimately show ?thesis
    by (simp add: check_commit_def Let_def split: option.split)
qed

lemma commits_ok_call:
  assumes ok: "commits_ok st" "memo_ok cfg (sx_claims st) (sx_flights st)" and f: "f < length (sx_flights st)" "fg_stage (sx_flights st ! f) = Calling"
  shows "commits_ok (call_flight cfg f st)"
proof -
  let ?g = "sx_flights st ! f"
  obtain r st1 where call: "call_backend cfg (cm_handle (sx_claims st ! fg_claim ?g)) (sq_method (fg_request ?g)) (storage_args (sq_args (fg_request ?g))) st = (r, st1)"
    by (metis surj_pair)
  note same = call_backend_fields [OF call]
  have ok1: "commits_ok st1" "memo_ok cfg (sx_claims st1) (sx_flights st1)"
    using ok by (simp_all add: commits_ok_def claim_current_def active_claim_def same)
  have reached: "reached (fg_stage ?g)" "unsettled (fg_stage ?g)" using f by (simp_all add: reached_def)
  have "commits_ok (set_stage f (Called resp) (update_claim n (\<lambda>c. c\<lparr>cm_private := True\<rparr>) st1))" for n resp
    by (rule commits_ok_stage) (use reached ok1 f same in \<open>auto intro: commits_ok_flag memo_ok_flag\<close>)
  moreover have "commits_ok (answer_flight cfg f resp st1)" "commits_ok (answer_flight cfg f resp st)" for resp
    by (rule commits_ok_answer; use reached ok ok1 f same in simp)+
  ultimately show ?thesis
    by (simp add: call_flight_def Let_def call)
qed

lemma commits_ok_finish:
  assumes ok: "commits_ok st" "memo_ok cfg (sx_claims st) (sx_flights st)" and f: "f < length (sx_flights st)" "fg_stage (sx_flights st ! f) = Sized r b"
  shows "commits_ok (finish_commit cfg budget f r b st)"
proof -
  have "commits_ok (update_claim n (\<lambda>c. c\<lparr>cm_exceeded := True\<rparr>) st)" for n
    by (rule commits_ok_flag [OF ok(1) _ _ ok(2)]) simp_all
  moreover have "memo_ok cfg (sx_claims (update_claim n (\<lambda>c. c\<lparr>cm_exceeded := True\<rparr>) st)) (sx_flights st)" for n
    using memo_ok_flag [OF ok(2)] by simp
  moreover have "commits_ok (update_claim n (\<lambda>c. c\<lparr>cm_exceeded := True\<rparr>) (record_size l b st))" for n l
    by (rule commits_ok_flag [OF _ _ _ ok(2)[folded record_size_fields [of l b st]]]) (simp_all add: commits_ok_record ok)
  ultimately show ?thesis
    unfolding finish_commit_def Let_def
    by (intro commits_ok_answer) (use ok f in \<open>auto simp: commits_ok_record reached_def\<close>)
qed

lemma commits_ok_advance:
  assumes ok: "commits_ok st" "memo_ok cfg (sx_claims st) (sx_flights st)"
  shows "commits_ok (advance_flight cfg budget f st)"
proof (cases "f < length (sx_flights st)")
  case True
  show ?thesis
    using ok True commits_ok_check [OF ok True] commits_ok_call [OF ok True] commits_ok_finish [OF ok True]
      commits_ok_stage [OF ok True, of "Measured b" for b] commits_ok_stage [OF ok True, of "Sized r b" for r b]
    by (cases "fg_stage (sx_flights st ! f)") (simp_all add: advance_flight_def reached_def)
qed (simp add: advance_flight_def ok)

lemma commits_ok_step:
  assumes "session_step cfg st st'" "session_ok cfg st" "commits_ok st" shows "commits_ok st'"
proof -
  have links: "links_ok cfg st" and memo: "memo_ok cfg (sx_claims st) (sx_flights st)" using assms(2) by (auto simp: session_ok_def)
  have locked: "keeps_current st st' \<Longrightarrow> locked_frame st st' \<Longrightarrow> commits_ok st'" for st'
    using commits_ok_keeps [OF assms(3) _ _ memo] by (simp add: locked_frame_def)
  show ?thesis
    using assms(1)
  proof (cases rule: session_step.cases)
    case (claims now w l m)
    have "keeps_current st st'" using keeps_current_claim [OF links_active [OF links]] claims by simp
    moreover have "sx_flights st' = sx_flights st"
    proof -
      obtain r where "claim_lineage cfg now w l m st = (r, st')" using claims by (metis surj_pair snd_conv)
      from claim_lineage_frame [OF this] show ?thesis by (auto simp: locked_frame_def)
    qed
    ultimately show ?thesis using commits_ok_keeps [OF assms(3) _ _ memo] by blast
  next
    case restarts
    then show ?thesis by (simp add: commits_ok_restart assms(3))
  qed (simp_all add: locked keeps_current_locked [OF links] locked_frames commits_ok_request [OF assms(3) memo] commits_ok_advance [OF assms(3) memo])
qed

lemma commits_ok_reachable: "session_reachable cfg st \<Longrightarrow> commits_ok st"
proof (induction rule: session_reachable.induct)
  case (start st)
  then show ?case by (simp add: commits_ok_def in_order_def latest_commit_def empty_session_store_def)
next
  case (step st st')
  then show ?case using commits_ok_step session_ok_reachable by blast
qed

end
