(* ===== verification/SessionTheorems.thy ===== *)
theory SessionTheorems
  imports SessionCommits
begin

text \<open>
  The session store's properties over all its runs: the store's invariant, owner marks, fencing, repeated commits,
  the request rate, what an ended or a superseded claim can still write, and that every request is answered.
\<close>

section \<open>The request rate\<close>

text \<open>How many of the requests at the given times a bucket lets through.\<close>

fun admitted :: "(int \<Rightarrow> 'b \<Rightarrow> bool \<times> 'b) \<Rightarrow> int list \<Rightarrow> 'b \<Rightarrow> nat" where
  "admitted take_one [] b = 0"
| "admitted take_one (t # ts) b = (case take_one t b of (ok, b') \<Rightarrow> (if ok then 1 else 0) + admitted take_one ts b')"

text \<open>What a bucket promises: it is filled by the clock only, and a request it lets through costs one token.\<close>

locale rate_bucket =
  fixes rate :: rat
    and level :: "'b \<Rightarrow> rat"
    and filled_at :: "'b \<Rightarrow> int"
    and valid :: "'b \<Rightarrow> bool"
    and take_one :: "int \<Rightarrow> 'b \<Rightarrow> bool \<times> 'b"
  assumes taken_at: "take_one now b = (ok, b') \<Longrightarrow> filled_at b' = now"
    and taken_valid: "valid b \<Longrightarrow> take_one now b = (ok, b') \<Longrightarrow> valid b'"
    and taken_level: "valid b \<Longrightarrow> filled_at b \<le> now \<Longrightarrow> take_one now b = (ok, b')
      \<Longrightarrow> level b' + (if ok then 1 else 0) \<le> level b + of_int (now - filled_at b) * rate"
    and level_nonneg: "valid b \<Longrightarrow> 0 \<le> level b"
begin

lemma admitted_bound:
  "valid b \<Longrightarrow> sorted (filled_at b # ts)
     \<Longrightarrow> of_nat (admitted take_one ts b) \<le> level b + of_int (last (filled_at b # ts) - filled_at b) * rate"
proof (induction ts arbitrary: b)
  case Nil
  then show ?case by (simp add: level_nonneg)
next
  case (Cons t ts)
  obtain ok b' where step: "take_one t b = (ok, b')" by (metis surj_pair)
  note at = taken_at [OF step] and lev = taken_level [OF Cons.prems(1) _ step]
  have "of_nat (admitted take_one ts b') \<le> level b' + of_int (last (t # ts) - t) * rate"
    using Cons.IH [OF taken_valid [OF Cons.prems(1) step]] Cons.prems(2) at by simp
  moreover have "level b' + (if ok then 1 else 0) \<le> level b + of_int (t - filled_at b) * rate"
    using lev Cons.prems(2) by simp
  moreover have "of_int (last (t # ts) - t) * rate + of_int (t - filled_at b) * rate = of_int (last (t # ts) - filled_at b) * rate"
    by (simp add: algebra_simps)
  moreover have "of_nat (admitted take_one (t # ts) b) = (if ok then 1 else 0) + rat_of_nat (admitted take_one ts b')"
    by (simp add: step)
  moreover have "last (filled_at b # t # ts) = last (t # ts)"
    by simp
  ultimately show ?case by (simp only:)
qed

end

interpretation bucket: rate_bucket "sn_per_second cfg / 1000" ln_tokens ln_refilled
  "\<lambda>g. session_config_ok cfg \<and> bucket_ok cfg g" "take_token cfg" for cfg :: "'d session_config"
proof
  fix now :: int and b b' :: lineage_state and ok :: bool
  assume run: "take_token cfg now b = (ok, b')"
  show "ln_refilled b' = now" by (rule take_token_links(3) [OF run])
  show "session_config_ok cfg \<and> bucket_ok cfg b \<Longrightarrow> session_config_ok cfg \<and> bucket_ok cfg b'"
    using take_token_links(4) [OF run] by simp
  show "session_config_ok cfg \<and> bucket_ok cfg b \<Longrightarrow> ln_refilled b \<le> now
      \<Longrightarrow> ln_tokens b' + (if ok then 1 else 0) \<le> ln_tokens b + of_int (now - ln_refilled b) * (sn_per_second cfg / 1000)"
    using run by (auto simp: take_token_def Let_def split: if_splits)
qed (simp add: bucket_ok_def)

section \<open>Frames of a claim\<close>

lemma claim_current_handle:
  assumes ok: "links_ok cfg st" and cur: "claim_current n st"
  shows "\<exists>g. jget (sx_lineages st) (cm_lineage (sx_claims st ! n)) = Some g \<and> ln_active g = Some n
    \<and> ln_handle g = Some (cm_handle (sx_claims st ! n)) \<and> jget (sx_open st) (cm_handle (sx_claims st ! n)) = Some (cm_lineage (sx_claims st ! n))
    \<and> cm_handle (sx_claims st ! n) < sx_next st"
proof -
  obtain g where g: "jget (sx_lineages st) (cm_lineage (sx_claims st ! n)) = Some g" "ln_active g = Some n"
    using cur by (cases "jget (sx_lineages st) (cm_lineage (sx_claims st ! n))") (auto simp: claim_current_def active_claim_def)
  have n: "n < length (sx_claims st)" using cur by (simp add: claim_current_def)
  have "ln_handle g = Some (cm_handle (sx_claims st ! n))" "jget (sx_open st) (cm_handle (sx_claims st ! n)) = Some (cm_lineage (sx_claims st ! n))"
    using links_okD(6) [OF ok g(1)] g n by (auto simp: lineage_ok_def claim_keys_nth claim_key_def)
  moreover from this(2) have "cm_handle (sx_claims st ! n) < sx_next st"
    using links_okD(7) [OF ok] by (auto simp: handle_ok_def)
  ultimately show ?thesis using g by blast
qed

text \<open>A lineage that left the map has no open handle.\<close>

lemma ended_handle_closed:
  assumes ok: "links_ok cfg st'" and moves: "session_moves st st'" and gone: "jget (sx_lineages st') l = None"
    and h: "jget (sx_open st) h = Some l" "h < sx_next st"
  shows "jget (sx_open st') h = None"
proof (cases "jget (sx_open st') h")
  case (Some l')
  then have "l' = l" using moves h unfolding session_moves_def by (metis not_le option.inject)
  then show ?thesis using links_okD(7) [OF ok Some] gone by (simp add: handle_ok_def)
qed

lemma closed_call_files:
  assumes "jget (sx_open st) (cm_handle (sx_claims st ! fg_claim (sx_flights st ! f))) = None"
  shows "sx_files (advance_flight cfg budget f st) = sx_files st"
  using assms
  by (auto simp: advance_flight_def check_commit_def refuse_commit_def call_flight_def finish_commit_def answer_flight_def Let_def call_backend_def
      split: flight_stage.split option.split)

lemma fold_end_lineages: "l \<in> set ls \<or> jget (sx_lineages st) l = None \<Longrightarrow> jget (sx_lineages (fold (end_lineage cfg) ls st)) l = None"
  by (induction ls arbitrary: st) auto

lemma ended_lineage_gone:
  assumes cur: "claim_current n st" and st': "st' \<in> {release_claim cfg n st, snd (seal_claim cfg n st),
      snd (delete_lineage cfg (cm_lineage (sx_claims st ! n)) st), close_store cfg st, restart_store st}"
    and id: "lineage_id_ok (cm_lineage (sx_claims st ! n))"
  shows "jget (sx_lineages st') (cm_lineage (sx_claims st ! n)) = None"
proof -
  have "jget (sx_lineages (snd (seal_claim cfg n st))) (cm_lineage (sx_claims st ! n)) = None"
    using cur by (simp add: seal_claim_def Let_def case_prod_beta)
  moreover have "jget (sx_lineages (snd (delete_lineage cfg l st))) l = None" if "lineage_id_ok l" for l
    using that by (auto simp: delete_lineage_def Let_def delete_session_files_def jhas_def)
  moreover have "jget (sx_lineages (close_store cfg st)) l = None" for l
    unfolding close_store_def by (rule fold_end_lineages) (auto simp: jhas_def jhas_keys [symmetric])
  ultimately show ?thesis
    using st' cur id by (auto simp: release_claim_def restart_store_def)
qed

section \<open>Stages\<close>

fun stage_rank :: "flight_stage \<Rightarrow> nat" where
  "stage_rank Measuring = 5"
| "stage_rank (Measured _) = 4"
| "stage_rank Calling = 3"
| "stage_rank (Called _) = 2"
| "stage_rank (Sized _ _) = 1"
| "stage_rank (Answered _) = 0"
| "stage_rank Lost = 0"

lemma stage_rank_unsettled: "unsettled s \<longleftrightarrow> 0 < stage_rank s"
  by (cases s) simp_all

lemma advance_length [simp]: "length (sx_flights (advance_flight cfg budget f st)) = length (sx_flights st)"
  by (auto simp: advance_flight_def check_commit_def refuse_commit_def call_flight_def finish_commit_def answer_flight_def Let_def
      call_backend_fields(8) split: flight_stage.split option.split prod.split)

lemma advance_rank:
  assumes "f < length (sx_flights st)"
  shows "stage_rank (fg_stage (sx_flights (advance_flight cfg budget f st) ! f)) \<le> stage_rank (fg_stage (sx_flights st ! f)) - 1"
  using assms
  by (auto simp: advance_flight_def check_commit_def refuse_commit_def call_flight_def finish_commit_def answer_flight_def Let_def
      call_backend_fields(8) split: flight_stage.split option.split prod.split)

lemma advance_rank_iterate:
  "f < length (sx_flights st)
     \<Longrightarrow> length (sx_flights ((advance_flight cfg budget f ^^ k) st)) = length (sx_flights st)
       \<and> stage_rank (fg_stage (sx_flights ((advance_flight cfg budget f ^^ k) st) ! f)) \<le> stage_rank (fg_stage (sx_flights st ! f)) - k"
proof (induction k)
  case (Suc k)
  let ?st = "(advance_flight cfg budget f ^^ k) st"
  have len: "length (sx_flights ?st) = length (sx_flights st)" and ih: "stage_rank (fg_stage (sx_flights ?st ! f)) \<le> stage_rank (fg_stage (sx_flights st ! f)) - k"
    using Suc by simp_all
  have "stage_rank (fg_stage (sx_flights (advance_flight cfg budget f ?st) ! f)) \<le> stage_rank (fg_stage (sx_flights ?st ! f)) - 1"
    using advance_rank [of f ?st] Suc.prems len by simp
  then show ?case using ih len by simp
qed simp

section \<open>A concrete store\<close>

text \<open>
  A store whose database is the number of commits it has taken, for the witnesses: opening creates nothing, a
  commit adds one and returns its number.
\<close>

definition sample_backend :: "string \<Rightarrow> json option list \<Rightarrow> nat \<Rightarrow> backend_result \<times> nat" where
  "sample_backend m args d = (if m = ''commit'' then (Returned (Some (JInt (int d))), Suc d) else (Returned None, d))"

definition sample_session_config :: "nat session_config" where
  "sample_session_config = \<lparr>sn_dir = True, sn_enabled = True, sn_max_lineage = 1000, sn_max_request = 1000, sn_max_response = 5000,
     sn_max_remembered = 500, sn_burst = 10, sn_per_second = 2, sn_size = (\<lambda>_. 20), sn_blank = 0, sn_open = Inr, sn_call = sample_backend,
     sn_closed = ''closed'', sn_close = id, sn_bytes = Suc\<rparr>"

definition sample_lineage :: string where
  "sample_lineage = ''agent_aaaaaaaaaaaaaaaaaaaaaaaa''"

definition sample_agent :: string where
  "sample_agent = ''agent_bbbbbbbbbbbbbbbbbbbbbbbb''"

definition sample_mark :: "int \<Rightarrow> owner_mark" where
  "sample_mark e = \<lparr>om_agent = sample_agent, om_epoch = e, om_generation = 0\<rparr>"

definition sample_commit :: "string \<Rightarrow> json" where
  "sample_commit i = JObj [(''type'', JStr ''storage_request''), (''id'', JStr i), (''method'', JStr ''commit''), (''args'', JArr [JArr []])]"

text \<open>One claim; a commit that is measured; the same commit answered.\<close>

definition sample_claimed :: "nat session_store" where
  "sample_claimed = snd (claim_lineage sample_session_config 0 MarkWritten sample_lineage (sample_mark 1) empty_session_store)"

definition sample_started :: "nat session_store" where
  "sample_started = snd (start_request sample_session_config 0 0 (sample_commit ''r1'') sample_claimed)"

definition sample_measured :: "nat session_store" where
  "sample_measured = advance_flight sample_session_config (\<lambda>_. None) 0 sample_started"

definition sample_calling :: "nat session_store" where
  "sample_calling = advance_flight sample_session_config (\<lambda>_. None) 0 sample_measured"

definition sample_called :: "nat session_store" where
  "sample_called = advance_flight sample_session_config (\<lambda>_. None) 0 sample_calling"

definition sample_sized :: "nat session_store" where
  "sample_sized = advance_flight sample_session_config (\<lambda>_. None) 0 sample_called"

definition sample_answered :: "nat session_store" where
  "sample_answered = advance_flight sample_session_config (\<lambda>_. None) 0 sample_sized"

text \<open>Their values, each computed from the one before.\<close>

definition sample_state :: "nat \<Rightarrow> rat \<Rightarrow> nat \<Rightarrow> (string, nat \<times> nat) jmap \<Rightarrow> int \<Rightarrow> (string \<times> nat) option \<Rightarrow> bool \<Rightarrow> flight_stage list \<Rightarrow> nat session_store" where
  "sample_state d tokens size_of memo bytes lst priv stages = \<lparr>sx_files = [(sample_lineage, d)],
     sx_owners = [(sample_lineage, Some (mark_json (sample_mark 1)))], sx_temporaries = [],
     sx_lineages = [(sample_lineage, \<lparr>ln_handle = Some 0, ln_active = Some 0, ln_tokens = tokens, ln_refilled = 0\<rparr>)],
     sx_sizes = [(sample_lineage, size_of)], sx_open = [(0, sample_lineage)], sx_next = 1,
     sx_claims = [\<lparr>cm_lineage = sample_lineage, cm_mark = sample_mark 1, cm_handle = 0, cm_responses = memo, cm_remembered = bytes,
       cm_last = lst, cm_exceeded = False, cm_private = priv\<rparr>],
     sx_flights = map (\<lambda>s. \<lparr>fg_claim = 0, fg_request = \<lparr>sq_id = ''r1'', sq_method = ''commit'', sq_args = [JArr []]\<rparr>,
       fg_bytes = 20, fg_stage = s\<rparr>) stages\<rparr>"

lemma sample_claimed_value [code]: "sample_claimed = sample_state 0 10 1 [] 0 None False []"
  by code_simp

lemma sample_started_value [code]: "sample_started = sample_state 0 9 1 [] 0 None False [Measuring]"
  by code_simp

lemma sample_measured_value [code]: "sample_measured = sample_state 0 9 1 [] 0 None False [Measured 1]"
  by code_simp

lemma sample_calling_value [code]: "sample_calling = sample_state 0 9 1 [(''r1'', 0, 0)] 0 (Some (''r1'', 0)) False [Calling]"
  by code_simp

lemma sample_called_value [code]:
  "sample_called = sample_state 1 9 1 [(''r1'', 0, 0)] 0 (Some (''r1'', 0)) True [Called (StorageOk ''r1'' (Some (JInt 0)))]"
  by code_simp

lemma sample_sized_value [code]:
  "sample_sized = sample_state 1 9 1 [(''r1'', 0, 0)] 0 (Some (''r1'', 0)) True [Sized (StorageOk ''r1'' (Some (JInt 0))) 2]"
  by code_simp

lemma sample_answered_value [code]:
  "sample_answered = sample_state 1 9 2 [(''r1'', 0, 20)] 20 (Some (''r1'', 0)) True [Answered (StorageOk ''r1'' (Some (JInt 0)))]"
  by code_simp

lemma sample_session_run:
  "session_reachable sample_session_config empty_session_store" "session_reachable sample_session_config sample_claimed"
  "session_reachable sample_session_config sample_started" "session_reachable sample_session_config sample_measured"
  "session_reachable sample_session_config sample_answered"
proof -
  let ?cfg = sample_session_config
  show a: "session_reachable ?cfg empty_session_store"
    by (rule session_reachable.start) (simp add: session_config_ok_def sample_session_config_def)
  show b: "session_reachable ?cfg sample_claimed"
    unfolding sample_claimed_def by (rule session_reachable.step [OF a session_step.claims])
  have "claim_idle 0 sample_claimed" by code_simp
  then show c: "session_reachable ?cfg sample_started"
    unfolding sample_started_def by (intro session_reachable.step [OF b] session_step.requests)
  show d: "session_reachable ?cfg sample_measured"
    unfolding sample_measured_def by (rule session_reachable.step [OF c session_step.advances])
  show "session_reachable ?cfg sample_answered"
    unfolding sample_answered_def sample_sized_def sample_called_def sample_calling_def
    by (rule session_reachable.step [OF session_reachable.step [OF session_reachable.step [OF session_reachable.step [OF d]]]];
        rule session_step.advances)
qed

section \<open>Properties\<close>

text \<open>
  C22: Whatever operations ran, in whatever order and interleaving, and however often the runner stopped in
  between: a lineage has at most one owner; the owner's mark is the one on disk, its handle the only open one on that database;
  every open handle belongs to a lineage and has its file; tokens lie between 0 and the burst; and what a
  claim remembers has at most 256 entries within the byte bound, each the response of a request of that claim under its
  identifier, with the byte figure exactly their sum.
\<close>

theorem session_store_sound: "session_reachable cfg st \<Longrightarrow> session_ok cfg st"
  by (rule session_ok_reachable)

lemma session_store_sound_witness: "session_ok sample_session_config sample_answered \<and> length (sx_claims sample_answered) = 1
    \<and> fg_stage (sx_flights sample_answered ! 0) = Answered (StorageOk ''r1'' (Some (JInt 0)))"
proof -
  have "length (sx_claims sample_answered) = 1" "fg_stage (sx_flights sample_answered ! 0) = Answered (StorageOk ''r1'' (Some (JInt 0)))"
    by code_simp+
  then show ?thesis using session_store_sound [OF sample_session_run(5)] by blast
qed

text \<open>
  C23: As long as a lineage is not deleted, the owner mark on its disk only ever changes to one that is greater in
  (epoch, generation): no sequence of claims, failed writes and runner restarts brings an older owner back.
\<close>

theorem owner_marks_rise:
  assumes "(\<lambda>a b. session_step cfg a b \<and> jhas (sx_owners b) l)\<^sup>*\<^sup>* st st'" "stored_mark l st = Inr (Some m)"
  shows "\<exists>m'. stored_mark l st' = Inr (Some m') \<and> (m' = m \<or> 0 < compare_marks m' m)"
  using assms
proof (induction rule: rtranclp_induct)
  case (step y z)
  then obtain m1 where m1: "stored_mark l y = Inr (Some m1)" "m1 = m \<or> 0 < compare_marks m1 m" by blast
  from mark_rises [OF marks_step m1(1)] step(2) show ?case
    using m1(2) compare_marks_trans by blast
qed simp

lemma owner_marks_rise_witness:
  "\<exists>m'. stored_mark sample_lineage (snd (claim_lineage sample_session_config 0 MarkWritten sample_lineage (sample_mark 2) sample_claimed)) = Inr (Some m')
     \<and> (m' = sample_mark 1 \<or> 0 < compare_marks m' (sample_mark 1))"
proof (rule owner_marks_rise [of sample_session_config sample_lineage sample_claimed])
  have "jhas (sx_owners (snd (claim_lineage sample_session_config 0 MarkWritten sample_lineage (sample_mark 2) sample_claimed))) sample_lineage"
    by code_simp
  then show "(\<lambda>a b. session_step sample_session_config a b \<and> jhas (sx_owners b) sample_lineage)\<^sup>*\<^sup>* sample_claimed
      (snd (claim_lineage sample_session_config 0 MarkWritten sample_lineage (sample_mark 2) sample_claimed))"
    by (intro r_into_rtranclp conjI session_step.claims)
  show "stored_mark sample_lineage sample_claimed = Inr (Some (sample_mark 1))" by code_simp
qed

text \<open>
  C24: A claim that is no longer current (superseded, released, sealed, deleted, or made by a runner that has stopped)
  never becomes current again, and every well-formed request it sends from then on is answered 'fenced' and changes nothing.
\<close>

theorem lost_claim_fenced:
  assumes "session_reachable cfg st" "n < length (sx_claims st)" "\<not> claim_current n st" "(session_step cfg)\<^sup>*\<^sup>* st st'"
    "storage_request_of v = Some q" "raw_method_allowed v" "sn_size cfg v \<le> sn_max_request cfg"
  shows "\<not> claim_current n st' \<and> start_request cfg now n v st'
    = (Reply (StorageFailed (sq_id q) ''fenced'' ''durable session claim is no longer current'' False), st')"
proof -
  have lost: "\<not> claim_current n st'"
    by (rule lost_claim_stays_lost [OF moves_run [OF assms(4)] assms(2,3)])
  have "bounded_message ''durable session claim is no longer current'' = ''durable session claim is no longer current''"
    by (simp add: bounded_message_def max_error_message_bytes_def)
  then show ?thesis
    using lost assms(5-7) by (simp add: start_request_def admit_request_def Let_def storage_failure_def)
qed

lemma lost_claim_fenced_witness:
  "\<not> claim_current 0 (release_claim sample_session_config 0 sample_answered)
    \<and> start_request sample_session_config 5 0 (sample_commit ''r2'') (release_claim sample_session_config 0 sample_answered)
       = (Reply (StorageFailed ''r2'' ''fenced'' ''durable session claim is no longer current'' False), release_claim sample_session_config 0 sample_answered)"
proof -
  let ?st = "release_claim sample_session_config 0 sample_answered"
  have reach: "session_reachable sample_session_config ?st"
    by (rule session_reachable.step [OF sample_session_run(5) session_step.releases])
  have len: "0 < length (sx_claims ?st)" and cur: "\<not> claim_current 0 ?st"
    by code_simp+
  have v: "storage_request_of (sample_commit ''r2'') = Some \<lparr>sq_id = ''r2'', sq_method = ''commit'', sq_args = [JArr []]\<rparr>"
    "raw_method_allowed (sample_commit ''r2'')" "sn_size sample_session_config (sample_commit ''r2'') \<le> sn_max_request sample_session_config"
    by code_simp+
  show ?thesis
    using lost_claim_fenced [OF reach len cur rtranclp.rtrancl_refl v, of 5] cur by simp
qed

text \<open>
  C25: A commit of the claim that holds the lineage reaches the database once: when the worker sends it again under its
  identifier (which no other request of the claim bore), in whatever state the store is by then and however many other
  requests have pushed it out of the bounded memo, the repeated request is answered from the first one's response;
  it costs no token, starts nothing and leaves the store as it is.
\<close>

theorem last_commit_answered_again:
  assumes "session_reachable cfg st" "claim_current n st" "latest_commit (sx_flights st) n f"
    "\<And>f'. f' < length (sx_flights st) \<Longrightarrow> fg_claim (sx_flights st ! f') = n \<Longrightarrow> sq_id (fg_request (sx_flights st ! f')) = sq_id q \<Longrightarrow> f' = f"
    "storage_request_of v = Some q" "sq_method q = ''commit''" "sq_id q = sq_id (fg_request (sx_flights st ! f))"
    "raw_method_allowed v" "sn_size cfg v \<le> sn_max_request cfg"
  shows "start_request cfg now n v st = (Await f, st)"
proof -
  let ?c = "sx_claims st ! n"
  have last: "cm_last ?c = Some (sq_id q, f)"
    using commits_ok_reachable [OF assms(1)] assms(2,3,7) by (simp add: commits_ok_def)
  have memo: "claim_memo_ok cfg (sx_flights st) n ?c"
    using session_ok_reachable [OF assms(1)] assms(2) by (auto simp: session_ok_def claim_current_def intro: memo_okD(1))
  have "remembered_flight ''commit'' (sq_id q) ?c = Some f"
  proof (cases "jget (cm_responses ?c) (sq_id q)")
    case (Some e)
    then have "fst e = f"
      using claim_memo_okD(3) [OF memo Some] assms(4) [of "fst e"] by (auto simp: entry_ok_def)
    then show ?thesis using Some by (cases e) (simp add: remembered_flight_def non_idempotent_methods_def)
  qed (simp add: remembered_flight_def non_idempotent_methods_def last)
  then show ?thesis
    using assms(2,5,6,8,9) by (simp add: start_request_def admit_request_def Let_def)
qed

lemma last_commit_answered_again_witness:
  "start_request sample_session_config 7 0 (sample_commit ''r1'') sample_answered = (Await 0, sample_answered)
    \<and> fg_stage (sx_flights sample_answered ! 0) = Answered (StorageOk ''r1'' (Some (JInt 0)))"
proof -
  have cur: "claim_current 0 sample_answered" and answered: "fg_stage (sx_flights sample_answered ! 0) = Answered (StorageOk ''r1'' (Some (JInt 0)))"
    by code_simp+
  have latest: "latest_commit (sx_flights sample_answered) 0 0"
    by (auto simp: sample_answered_value sample_state_def latest_commit_def is_commit_def reached_def)
  have only: "f' < length (sx_flights sample_answered) \<Longrightarrow> f' = 0" for f'
    by (simp add: sample_answered_value sample_state_def)
  have same: "''r1'' = sq_id (fg_request (sx_flights sample_answered ! 0))"
    by (simp add: sample_answered_value sample_state_def)
  have v: "storage_request_of (sample_commit ''r1'') = Some \<lparr>sq_id = ''r1'', sq_method = ''commit'', sq_args = [JArr []]\<rparr>"
    "raw_method_allowed (sample_commit ''r1'')" "sn_size sample_session_config (sample_commit ''r1'') \<le> sn_max_request sample_session_config"
    by code_simp+
  show ?thesis
    using last_commit_answered_again [OF sample_session_run(5) cur latest only v(1) _ _ v(2,3), of 7] same answered by simp
qed

text \<open>
  Requests at any times of a clock that does not go back, from the bucket of one lineage: those let through never
  number more than the tokens in it plus the refill rate times the time that passed.
\<close>

theorem request_rate_bounded:
  assumes "session_config_ok cfg" "bucket_ok cfg g" "sorted (ln_refilled g # ts)"
  shows "of_nat (admitted (take_token cfg) ts g)
    \<le> ln_tokens g + of_int (last (ln_refilled g # ts) - ln_refilled g) * (sn_per_second cfg / 1000)"
  using bucket.admitted_bound [of cfg g ts] assms by simp

lemma request_rate_bounded_witness:
  "of_nat (admitted (take_token sample_session_config) [0, 0, 500, 900] \<lparr>ln_handle = None, ln_active = None, ln_tokens = 1, ln_refilled = 0\<rparr>)
      \<le> (1 :: rat) + of_int (900 - 0) * (2 / 1000)
    \<and> admitted (take_token sample_session_config) [0, 0, 500, 900] \<lparr>ln_handle = None, ln_active = None, ln_tokens = 1, ln_refilled = 0\<rparr> = 2"
proof -
  let ?g = "\<lparr>ln_handle = None, ln_active = None, ln_tokens = 1, ln_refilled = 0\<rparr>"
  have "admitted (take_token sample_session_config) [0, 0, 500, 900] ?g = 2" by code_simp
  moreover have "of_nat (admitted (take_token sample_session_config) [0, 0, 500, 900] ?g) \<le> (1 :: rat) + of_int (900 - 0) * (2 / 1000)"
    using request_rate_bounded [of sample_session_config ?g "[0, 0, 500, 900]"]
    by (simp add: session_config_ok_def bucket_ok_def sample_session_config_def)
  ultimately show ?thesis by blast
qed

text \<open>
  Once a claim has been released or sealed, its lineage deleted, or the store closed or its runner restarted, nothing
  that claim had under way writes: whatever runs afterwards, no later step of any of its requests changes any
  database, because the handle it holds is closed and never opens again.
\<close>

theorem ended_claim_writes_nothing:
  assumes "session_reachable cfg st" "claim_current n st"
    "st1 \<in> {release_claim cfg n st, snd (seal_claim cfg n st), snd (delete_lineage cfg (cm_lineage (sx_claims st ! n)) st),
      close_store cfg st, restart_store st}"
    "(session_step cfg)\<^sup>*\<^sup>* st1 st2" "fg_claim (sx_flights st2 ! f) = n"
  shows "sx_files (advance_flight cfg budget f st2) = sx_files st2"
proof -
  have ok: "links_ok cfg st" and cfg: "session_config_ok cfg"
    using session_ok_reachable [OF assms(1)] by (auto simp: session_ok_def)
  have h: "jget (sx_open st) (cm_handle (sx_claims st ! n)) = Some (cm_lineage (sx_claims st ! n))" "cm_handle (sx_claims st ! n) < sx_next st"
    using claim_current_handle [OF ok assms(2)] by auto
  have n: "n < length (sx_claims st)" using assms(2) by (simp add: claim_current_def)
  have "cm_lineage (sx_claims st ! n) = fst (claim_keys st ! n)" "claim_keys st ! n \<in> set (claim_keys st)"
    using n by (simp_all add: claim_keys_nth claim_key_def) (simp add: claim_keys_def claim_key_def)
  then have id: "lineage_id_ok (cm_lineage (sx_claims st ! n))"
    using links_okD(8) [OF ok, of "claim_keys st ! n"] by (cases "claim_keys st ! n") (auto simp: key_ok_def)
  have moves: "session_moves st st1" and ok1: "links_ok cfg st1"
    using assms(3) ok by (auto simp: moves_locked moves_restart links_ok_release links_ok_seal links_ok_delete links_ok_close_store links_ok_restart)
  have closed: "jget (sx_open st1) (cm_handle (sx_claims st ! n)) = None"
    by (rule ended_handle_closed [OF ok1 moves ended_lineage_gone [OF assms(2,3) id] h])
  have "sx_next st \<le> sx_next st1" using moves by (simp add: session_moves_def)
  then have "jget (sx_open st2) (cm_handle (sx_claims st ! n)) = None"
    using closed_handle_stays_closed [OF moves_run [OF assms(4)] _ closed] h(2) by simp
  moreover have "cm_handle (sx_claims st2 ! n) = cm_handle (sx_claims st ! n)"
    using moves_claim_key [OF session_moves_trans [OF moves moves_run [OF assms(4)]] n] by simp
  ultimately show ?thesis
    using closed_call_files [of st2 f] assms(5) by simp
qed

lemma ended_claim_writes_nothing_witness:
  "sx_files (advance_flight sample_session_config (\<lambda>_. None) 0
      (advance_flight sample_session_config (\<lambda>_. None) 0 (release_claim sample_session_config 0 sample_measured))) = [(sample_lineage, 0)]
    \<and> fg_stage (sx_flights (advance_flight sample_session_config (\<lambda>_. None) 0
        (advance_flight sample_session_config (\<lambda>_. None) 0 (release_claim sample_session_config 0 sample_measured))) ! 0)
      = Answered (StorageFailed ''r1'' ''failed'' ''closed'' False)"
proof -
  let ?st1 = "release_claim sample_session_config 0 sample_measured"
  let ?st2 = "advance_flight sample_session_config (\<lambda>_. None) 0 ?st1"
  have cur: "claim_current 0 sample_measured" and flight: "fg_claim (sx_flights ?st2 ! 0) = 0" and files: "sx_files ?st2 = [(sample_lineage, 0)]"
    by code_simp+
  have "(session_step sample_session_config)\<^sup>*\<^sup>* ?st1 ?st2"
    by (intro r_into_rtranclp session_step.advances)
  from ended_claim_writes_nothing [OF sample_session_run(4) cur _ this flight, of "\<lambda>_. None"]
  have "sx_files (advance_flight sample_session_config (\<lambda>_. None) 0 ?st2) = [(sample_lineage, 0)]" using files by simp
  moreover have "fg_stage (sx_flights (advance_flight sample_session_config (\<lambda>_. None) 0 ?st2) ! 0) = Answered (StorageFailed ''r1'' ''failed'' ''closed'' False)"
    by code_simp
  ultimately show ?thesis by blast
qed

text \<open>A superseding claim keeps the lineage's database open, under the same handle.\<close>

lemma superseding_claim_frame:
  assumes ok: "links_ok cfg st" and cur: "claim_current n st" and l: "l = cm_lineage (sx_claims st ! n)"
    and run: "claim_lineage cfg now w l m st = (Inr n', st1)" "n' \<noteq> n"
  shows "sx_open st1 = sx_open st \<and> sx_files st1 = sx_files st \<and> sx_flights st1 = sx_flights st \<and> active_claim l st1 = Some n'"
proof -
  obtain g where g: "jget (sx_lineages st) l = Some g" "ln_active g = Some n" "ln_handle g = Some (cm_handle (sx_claims st ! n))"
    using claim_current_handle [OF ok cur] l by auto
  have e: "ensure_lineage cfg now l st = st" by (simp add: ensure_lineage_def g)
  have active: "active_claim l st = Some n" by (simp add: active_claim_def g)
  have opened: "ensure_open cfg l st = (Inr (cm_handle (sx_claims st ! n)), st)" by (simp add: ensure_open_def g)
  obtain s where took: "take_lineage cfg w l m s st = (Inr n', st1)"
    using run active by (auto simp: claim_lineage_def Let_def e split: sum.splits option.splits if_splits)
  obtain r2 st2 where w: "(if mark_unchanged m s then (Inr (), st) else write_mark w l m st) = (r2, st2)" by (metis surj_pair)
  then have same: "sx_open st2 = sx_open st" "sx_files st2 = sx_files st" "sx_flights st2 = sx_flights st" "sx_lineages st2 = sx_lineages st"
    by (auto simp: write_mark_def split: if_splits mark_write.splits)
  have "activate l m (cm_handle (sx_claims st ! n)) st2 = (n', st1)"
    using took w unfolding take_lineage_def opened prod.case sum.case w by (cases r2) (auto simp: case_prod_beta prod_eq_iff)
  then show ?thesis
    using g by (auto simp: activate_def Let_def same active_claim_def split: option.splits)
qed

text \<open>
  C26: Superseding a claim does not stop a commit it already has under way. When the commit of the current owner is waiting
  for the size of the database and a newer run claims the lineage, the old owner's claim is lost from then on;
  but the fence is not checked again after the wait, so the commit, within the size cap and the budget, is still handed to the
  database the new owner now holds and changes it.
\<close>

theorem superseded_commit_lands:
  assumes "session_reachable cfg st" "claim_current n st" "l = cm_lineage (sx_claims st ! n)"
    "f < length (sx_flights st)" "fg_claim (sx_flights st ! f) = n" "fg_stage (sx_flights st ! f) = Measured b"
    "b \<le> sn_max_lineage cfg" "budget (fg_bytes (sx_flights st ! f)) = None" "jget (sx_files st) l = Some d"
    "claim_lineage cfg now w l m st = (Inr n', st1)" "n' \<noteq> n"
  shows "\<not> claim_current n st1
    \<and> jget (sx_files (advance_flight cfg budget f (advance_flight cfg budget f st1))) l
        = Some (snd (sn_call cfg ''commit'' (storage_args (sq_args (fg_request (sx_flights st ! f)))) d))"
proof -
  have ok: "links_ok cfg st" and memo: "memo_ok cfg (sx_claims st) (sx_flights st)"
    using session_ok_reachable [OF assms(1)] by (auto simp: session_ok_def)
  have n: "n < length (sx_claims st)" using assms(2) by (simp add: claim_current_def)
  note frame = superseding_claim_frame [OF ok assms(2,3,10,11)]
  have keys: "cm_lineage (sx_claims st1 ! n) = l" "cm_handle (sx_claims st1 ! n) = cm_handle (sx_claims st ! n)" "n < length (sx_claims st1)"
    using moves_claim_key [OF session_moves_claim [of st cfg now w l m] n] assms(3,10) by auto
  have commit: "sq_method (fg_request (sx_flights st ! f)) = ''commit''"
    using memo_okD(2) [OF memo assms(4)] assms(6) by (simp add: flight_ok_def)
  have opened: "jget (sx_open st1) (cm_handle (sx_claims st ! n)) = Some l"
    using claim_current_handle [OF ok assms(2)] frame assms(3) by auto
  let ?st2 = "advance_flight cfg budget f st1"
  have st2: "sx_open ?st2 = sx_open st1" "sx_files ?st2 = sx_files st" "fg_stage (sx_flights ?st2 ! f) = Calling"
    "fg_claim (sx_flights ?st2 ! f) = n" "fg_request (sx_flights ?st2 ! f) = fg_request (sx_flights st ! f)"
    "cm_handle (sx_claims ?st2 ! n) = cm_handle (sx_claims st ! n)" "length (sx_flights ?st2) = length (sx_flights st)"
    using frame assms(4-8) keys moves_claim_key [OF moves_advance [of st1 cfg budget f] keys(3)]
    by (simp_all add: advance_flight_def check_commit_def Let_def)
  obtain r d' where call: "sn_call cfg ''commit'' (storage_args (sq_args (fg_request (sx_flights st ! f)))) d = (r, d')" by (metis surj_pair)
  have "jget (sx_files (advance_flight cfg budget f ?st2)) l = Some d'"
    using st2 assms(4,9) opened commit
    by (simp add: advance_flight_def [of cfg budget f ?st2] call_flight_def Let_def call_backend_def call answer_flight_def)
  moreover have "\<not> claim_current n st1"
    using frame keys assms(11) by (simp add: claim_current_def)
  ultimately show ?thesis by (simp add: call)
qed

lemma superseded_commit_lands_witness:
  "\<not> claim_current 0 (snd (claim_lineage sample_session_config 0 MarkWritten sample_lineage (sample_mark 2) sample_measured))
    \<and> jget (sx_files (advance_flight sample_session_config (\<lambda>_. None) 0 (advance_flight sample_session_config (\<lambda>_. None) 0
        (snd (claim_lineage sample_session_config 0 MarkWritten sample_lineage (sample_mark 2) sample_measured))))) sample_lineage = Some 1"
proof -
  let ?run = "claim_lineage sample_session_config 0 MarkWritten sample_lineage (sample_mark 2) sample_measured"
  have cur: "claim_current 0 sample_measured" by code_simp
  have "fst ?run = Inr 1" by code_simp
  then have run: "?run = (Inr 1, snd ?run)" by (metis prod.collapse)
  have v: "sample_lineage = cm_lineage (sx_claims sample_measured ! 0)" "0 < length (sx_flights sample_measured)"
    "fg_claim (sx_flights sample_measured ! 0) = 0" "fg_stage (sx_flights sample_measured ! 0) = Measured 1"
    "jget (sx_files sample_measured) sample_lineage = Some 0" "sq_args (fg_request (sx_flights sample_measured ! 0)) = [JArr []]"
    by (simp_all add: sample_measured_value sample_state_def jget_Cons)
  show ?thesis
    using superseded_commit_lands [OF sample_session_run(4) cur v(1-4) _ _ v(5) run, of "\<lambda>_. None"] v(6)
    by (simp add: sample_session_config_def sample_backend_def)
qed

text \<open>
  Every request the store has accepted is answered: five steps of its own settle it, whatever the other requests
  and the claims do, and no step of it ever takes it back to an earlier stage.
\<close>

theorem request_settles:
  assumes "f < length (sx_flights st)"
  shows "\<not> unsettled (fg_stage (sx_flights ((advance_flight cfg budget f ^^ 5) st) ! f))"
proof -
  have "stage_rank s \<le> 5" for s by (cases s) simp_all
  then show ?thesis
    using advance_rank_iterate [OF assms, where cfg = cfg and budget = budget and k = 5] by (simp add: stage_rank_unsettled)
qed

lemma request_settles_witness:
  "\<not> unsettled (fg_stage (sx_flights ((advance_flight sample_session_config (\<lambda>_. None) 0 ^^ 5) sample_started) ! 0))
    \<and> unsettled (fg_stage (sx_flights sample_started ! 0))"
  using request_settles [of 0 sample_started sample_session_config "\<lambda>_. None"]
  by (simp add: sample_started_value sample_state_def)

text \<open>
  Deleting a lineage leaves nothing of it: no database, owner mark or half-written mark under the state directory, no
  recorded size, no state and no open handle in the store; and every other lineage is exactly as it was.
\<close>

theorem delete_leaves_nothing:
  assumes "session_reachable cfg st" "lineage_id_ok l" "sn_dir cfg" "delete_lineage cfg l st = (r, st')"
  shows "r = Inr () \<and> jget (sx_files st') l = None \<and> jget (sx_owners st') l = None \<and> jget (sx_sizes st') l = None
    \<and> jget (sx_lineages st') l = None \<and> l \<notin> set (sx_temporaries st') \<and> l \<notin> ran (jget (sx_open st'))
    \<and> list_all (\<lambda>l'. jget (sx_files st') l' = jget (sx_files st) l' \<and> jget (sx_owners st') l' = jget (sx_owners st) l'
         \<and> jget (sx_sizes st') l' = jget (sx_sizes st) l' \<and> jget (sx_lineages st') l' = jget (sx_lineages st) l') (filter (\<lambda>x. x \<noteq> l) ls)"
proof -
  have ok: "links_ok cfg st" using session_ok_reachable [OF assms(1)] by (simp add: session_ok_def)
  then have ok': "links_ok cfg st'" using links_ok_delete [of cfg st l] assms(4) by simp
  have gone: "jget (sx_lineages st') l = None"
    using assms(2-4) by (auto simp: delete_lineage_def Let_def delete_session_files_def jhas_def)
  have files: "jget (sx_files (end_lineage cfg l st)) l' = jget (sx_files st) l'" "jget (sx_sizes (end_lineage cfg l st)) l' = jget (sx_sizes st) l'"
    if "l' \<noteq> l" for l'
  proof -
    have "jget (sx_open st) h = Some l" if "jget (sx_lineages st) l = Some g" "ln_handle g = Some h" for g h
      using links_okD(6) [OF ok that(1)] that(2) by (simp add: lineage_ok_def)
    then show "jget (sx_files (end_lineage cfg l st)) l' = jget (sx_files st) l'" "jget (sx_sizes (end_lineage cfg l st)) l' = jget (sx_sizes st) l'"
      using that by (auto simp: end_lineage_def close_lineage_def Let_def close_handle_def measure_lineage_def record_size_def split: option.split)
  qed
  have "l \<notin> ran (jget (sx_open st'))"
    using gone by (auto simp: ran_def handle_ok_def dest!: links_okD(7) [OF ok'])
  moreover have "list_all (\<lambda>l'. jget (sx_files st') l' = jget (sx_files st) l' \<and> jget (sx_owners st') l' = jget (sx_owners st) l'
         \<and> jget (sx_sizes st') l' = jget (sx_sizes st) l' \<and> jget (sx_lineages st') l' = jget (sx_lineages st) l') (filter (\<lambda>x. x \<noteq> l) ls)"
    using assms(2-4) files by (auto simp: delete_lineage_def Let_def delete_session_files_def list_all_iff)
  moreover have "r = Inr ()" "jget (sx_files st') l = None" "jget (sx_owners st') l = None" "jget (sx_sizes st') l = None" "l \<notin> set (sx_temporaries st')"
    using assms(2-4) by (auto simp: delete_lineage_def Let_def delete_session_files_def)
  ultimately show ?thesis using gone by blast
qed

lemma delete_leaves_nothing_witness:
  "jget (sx_files (snd (delete_lineage sample_session_config sample_lineage sample_answered))) sample_lineage = None
    \<and> jhas (sx_files sample_answered) sample_lineage"
proof -
  have id: "lineage_id_ok sample_lineage" "sn_dir sample_session_config" and has: "jhas (sx_files sample_answered) sample_lineage"
    by code_simp+
  show ?thesis
    using delete_leaves_nothing [OF sample_session_run(5) id surjective_pairing] has by blast
qed

end
