(* ===== verification/RedactorTrie.thy ===== *)
theory RedactorTrie
  imports Json "HOL-Library.Sublist" "HOL-Library.Multiset"
begin

text \<open>
  The automaton behind the runner's output redaction: \<open>SecretSnapshotRedactor\<close> of
  \<open>apps/runner/src/output-redactor.ts\<close>. Bytes are characters. A \<open>TrieNode\<close> is named by its path from the root, so
  its \<open>depth\<close> is the length of the path, its \<open>next\<close> map holds the paths one byte longer, in the order they
  were created, and \<open>null\<close> as the root's \<open>fail\<close> is the missing entry of the empty path.
\<close>

record secret_entry =
  se_name :: string
  se_value :: string

type_synonym output_match = "string \<times> nat"

record trie =
  tr_paths :: "string list"
  tr_fail :: "(string, string) jmap"
  tr_output :: "(string, output_match list) jmap"

definition empty_trie :: trie where
  "empty_trie = \<lparr>tr_paths = [], tr_fail = [], tr_output = []\<rparr>"

definition has_next :: "trie \<Rightarrow> string \<Rightarrow> char \<Rightarrow> bool" where
  "has_next t p b = (p @ [b] \<in> set (tr_paths t))"

definition next_nodes :: "trie \<Rightarrow> string \<Rightarrow> string list" where
  "next_nodes t p = filter (\<lambda>q. q \<noteq> [] \<and> butlast q = p) (tr_paths t)"

definition node_output :: "trie \<Rightarrow> string \<Rightarrow> output_match list" where
  "node_output t p = (case jget (tr_output t) p of None \<Rightarrow> [] | Some xs \<Rightarrow> xs)"

definition push_output :: "string \<Rightarrow> output_match list \<Rightarrow> trie \<Rightarrow> trie" where
  "push_output p xs t = t\<lparr>tr_output := jset p (node_output t p @ xs) (tr_output t)\<rparr>"

section \<open>Inserting the patterns\<close>

text \<open>The constructor's patterns: the non-empty values, the longest first.\<close>

definition redactor_patterns :: "secret_entry list \<Rightarrow> secret_entry list" where
  "redactor_patterns secrets =
     order_by (\<lambda>a b. length (se_value b) < length (se_value a)) (filter (\<lambda>s. se_value s \<noteq> []) secrets)"

fun insert_bytes :: "string \<Rightarrow> string \<Rightarrow> string list \<Rightarrow> string list" where
  "insert_bytes p [] ps = ps"
| "insert_bytes p (b # bs) ps = insert_bytes (p @ [b]) bs (if p @ [b] \<in> set ps then ps else ps @ [p @ [b]])"

definition insert_pattern :: "secret_entry \<Rightarrow> trie \<Rightarrow> trie" where
  "insert_pattern s t = push_output (se_value s) [(se_name s, length (se_value s))] (t\<lparr>tr_paths := insert_bytes [] (se_value s) (tr_paths t)\<rparr>)"

definition pattern_trie :: "secret_entry list \<Rightarrow> trie" where
  "pattern_trie patterns = fold insert_pattern patterns empty_trie"

section \<open>Fail links\<close>

text \<open>
  The inner loop: up the fail links until a node continues with the byte. Each link leads to a shorter path, so the
  length of the path bounds the number of turns.
\<close>

fun climb :: "trie \<Rightarrow> nat \<Rightarrow> string option \<Rightarrow> char \<Rightarrow> string option" where
  "climb t k None b = None"
| "climb t 0 (Some p) b = (if has_next t p b then Some p else None)"
| "climb t (Suc k) (Some p) b = (if has_next t p b then Some p else climb t k (jget (tr_fail t) p) b)"

definition link_node :: "string \<Rightarrow> string \<Rightarrow> trie \<Rightarrow> trie" where
  "link_node p c t =
     (let b = last c;
          f = (case climb t (length p) (jget (tr_fail t) p) b of None \<Rightarrow> [] | Some r \<Rightarrow> r @ [b])
      in push_output c (node_output t f) (t\<lparr>tr_fail := jset c f (tr_fail t)\<rparr>))"

lemma link_node_paths [simp]: "tr_paths (link_node p c t) = tr_paths t"
  by (simp add: link_node_def push_output_def Let_def)

lemma link_nodes_paths [simp]: "tr_paths (fold (link_node p) cs t) = tr_paths t"
  by (induction cs arbitrary: t) simp_all

text \<open>The queue of \<open>buildTrie\<close>. Children are one byte longer and no path is longer than the longest, so it runs empty.\<close>

definition room :: "trie \<Rightarrow> string \<Rightarrow> nat" where
  "room t p = Max (insert 0 (length ` set (tr_paths t))) - length p"

lemma room_child:
  assumes "c \<in> set (next_nodes t p)" shows "room t c < room t p"
proof -
  have c: "c \<in> set (tr_paths t)" "length c = Suc (length p)"
    using assms by (auto simp: next_nodes_def)
  have "length c \<in> length ` set (tr_paths t)" using c(1) by (rule imageI)
  then have "length c \<le> Max (insert 0 (length ` set (tr_paths t)))" by (intro Max_ge) auto
  then show ?thesis using c by (simp add: room_def)
qed

function link_queue :: "string list \<Rightarrow> trie \<Rightarrow> trie" where
  "link_queue [] t = t"
| "link_queue (p # q) t = link_queue (q @ next_nodes t p) (fold (link_node p) (next_nodes t p) t)"
  by pat_completeness auto

termination
proof (relation "inv_image (mult less_than) (\<lambda>(q, t). mset (map (room t) q))")
  show "wf (inv_image (mult less_than) (\<lambda>(q, t). mset (map (room t) q)))"
    by (simp add: wf_mult)
  fix p q t
  let ?t = "fold (link_node p) (next_nodes t p) t"
  have room: "room ?t = room t" by (simp add: fun_eq_iff room_def)
  have "(mset (map (room t) q) + mset (map (room t) (next_nodes t p)), mset (map (room t) q) + {#room t p#}) \<in> mult less_than"
    by (rule one_step_implies_mult) (use room_child in auto)
  then show "((q @ next_nodes t p, ?t), p # q, t) \<in> inv_image (mult less_than) (\<lambda>(q, t). mset (map (room t) q))"
    by (simp add: room)
qed

definition link_trie :: "trie \<Rightarrow> trie" where
  "link_trie t = link_queue (next_nodes t []) (fold (\<lambda>c t. t\<lparr>tr_fail := jset c [] (tr_fail t)\<rparr>) (next_nodes t []) t)"

definition build_trie :: "secret_entry list \<Rightarrow> trie" where
  "build_trie secrets = link_trie (pattern_trie (redactor_patterns secrets))"

definition redactor_active :: "secret_entry list \<Rightarrow> bool" where
  "redactor_active secrets = (redactor_patterns secrets \<noteq> [])"

end
