(* ===== verification/Redactor.thy ===== *)
theory Redactor
  imports RedactorTrie "HOL-Library.While_Combinator"
begin

text \<open>
  The stream of \<open>apps/runner/src/output-redactor.ts\<close>: \<open>StreamRedactor\<close> with its hold-back, and the one-shot
  \<open>sanitizeString\<close> and \<open>sanitizeObject\<close>. The loop of \<open>processChunk\<close> and \<open>flush\<close> is a \<open>while_option\<close> over its
  local variables, so a loop that did not end would be \<open>None\<close>.
\<close>

definition marker :: "string \<Rightarrow> string" where
  "marker name = ''[REDACTED_SECRET: '' @ name @ '']''"

section \<open>The scan\<close>

record pending_match =
  pm_name :: string
  pm_start :: int
  pm_end :: nat

record scan =
  sc_pos :: nat
  sc_node :: string
  sc_pending :: "pending_match option"
  sc_safe :: nat
  sc_out :: string

definition slice :: "string \<Rightarrow> nat \<Rightarrow> nat \<Rightarrow> string" where
  "slice input a b = take (b - a) (drop a input)"

text \<open>Emitting the pending match: what lies before it and is not out yet, the marker, and the offset after it.\<close>

definition emit_match :: "string \<Rightarrow> pending_match \<Rightarrow> scan \<Rightarrow> scan" where
  "emit_match input m s = s\<lparr>sc_out := sc_out s
       @ (if int (sc_safe s) < pm_start m then slice input (sc_safe s) (nat (pm_start m)) else []) @ marker (pm_name m),
     sc_safe := pm_end m, sc_node := [], sc_pending := None\<rparr>"

definition scan_step :: "trie \<Rightarrow> string \<Rightarrow> scan \<Rightarrow> scan" where
  "scan_step t input s =
     (let i = sc_pos s; b = input ! i in
      if has_next t (sc_node s) b
      then (let node = sc_node s @ [b] in
        s\<lparr>sc_pos := i + 1, sc_node := node,
          sc_pending := (case node_output t node of [] \<Rightarrow> sc_pending s
            | (name, len) # _ \<Rightarrow> Some \<lparr>pm_name = name, pm_start = int i - int len + 1, pm_end = i + 1\<rparr>)\<rparr>)
      else (case sc_pending s of
          Some m \<Rightarrow> (let s' = emit_match input m s in if i < sc_safe s' then s'\<lparr>sc_pos := sc_safe s'\<rparr> else s')
        | None \<Rightarrow> if sc_node s \<noteq> [] then s\<lparr>sc_node := (case jget (tr_fail t) (sc_node s) of None \<Rightarrow> [] | Some f \<Rightarrow> f)\<rparr>
                  else s\<lparr>sc_pos := i + 1\<rparr>))"

definition scan_input :: "trie \<Rightarrow> string \<Rightarrow> string \<Rightarrow> scan option" where
  "scan_input t node input = while_option (\<lambda>s. sc_pos s < length input) (scan_step t input)
     \<lparr>sc_pos = 0, sc_node = node, sc_pending = None, sc_safe = 0, sc_out = []\<rparr>"

section \<open>The stream\<close>

record redactor =
  rd_node :: string
  rd_hold :: string

definition new_redactor :: redactor where
  "new_redactor = \<lparr>rd_node = [], rd_hold = []\<rparr>"

text \<open>What follows the loop in \<open>processChunk\<close>: a match no pattern extends is emitted; the rest is let out up to the hold-back.\<close>

definition close_chunk :: "trie \<Rightarrow> string \<Rightarrow> scan \<Rightarrow> string \<times> redactor" where
  "close_chunk t input s0 =
     (let s = (case sc_pending s0 of Some m \<Rightarrow> (if next_nodes t (sc_node s0) = [] then emit_match input m s0 else s0) | None \<Rightarrow> s0);
          depth = length (sc_node s); size_of = length input;
          hold = (case sc_pending s of Some m \<Rightarrow> min (pm_start m) (int size_of - int depth)
            | None \<Rightarrow> if 0 < depth then int size_of - int depth else int size_of);
          start = max (int (sc_safe s)) hold
      in (sc_out s @ (if int (sc_safe s) < start then slice input (sc_safe s) (nat start) else []),
          \<lparr>rd_node = sc_node s, rd_hold = drop (nat start) input\<rparr>))"

definition process_chunk :: "trie \<Rightarrow> bool \<Rightarrow> string \<Rightarrow> redactor \<Rightarrow> (string \<times> redactor) option" where
  "process_chunk t active chunk r =
     (if \<not> active \<or> chunk = [] then Some (rd_hold r @ chunk, r\<lparr>rd_hold := []\<rparr>)
      else (case scan_input t (rd_node r) (rd_hold r @ chunk) of None \<Rightarrow> None
        | Some s \<Rightarrow> Some (close_chunk t (rd_hold r @ chunk) s)))"

definition flush_stream :: "trie \<Rightarrow> redactor \<Rightarrow> (string \<times> redactor) option" where
  "flush_stream t r =
     (if rd_hold r = [] then Some ([], r)
      else (case scan_input t [] (rd_hold r) of None \<Rightarrow> None
        | Some s0 \<Rightarrow>
            (let s = (case sc_pending s0 of Some m \<Rightarrow> (emit_match (rd_hold r) m s0)\<lparr>sc_node := sc_node s0\<rparr> | None \<Rightarrow> s0)
             in Some (sc_out s @ drop (sc_safe s) (rd_hold r), \<lparr>rd_node = sc_node s, rd_hold = []\<rparr>))))"

text \<open>A whole output: its chunks in turn, then the flush.\<close>

fun redact_chunks :: "trie \<Rightarrow> bool \<Rightarrow> string list \<Rightarrow> redactor \<Rightarrow> (string \<times> redactor) option" where
  "redact_chunks t active [] r = flush_stream t r"
| "redact_chunks t active (c # cs) r = (case process_chunk t active c r of None \<Rightarrow> None
     | Some (out, r') \<Rightarrow> (case redact_chunks t active cs r' of None \<Rightarrow> None | Some (out', r'') \<Rightarrow> Some (out @ out', r'')))"

definition redact_output :: "secret_entry list \<Rightarrow> string list \<Rightarrow> string option" where
  "redact_output secrets chunks = map_option fst (redact_chunks (build_trie secrets) (redactor_active secrets) chunks new_redactor)"

section \<open>One-shot redaction\<close>

text \<open>\<open>text.split(value).join(marker)\<close> for a non-empty value: the leftmost occurrences, one after the other.\<close>

function replace_all :: "string \<Rightarrow> string \<Rightarrow> string \<Rightarrow> string" where
  "replace_all v m text = (if text = [] \<or> v = [] then text
     else if starts_with v text then m @ replace_all v m (drop (length v) text) else hd text # replace_all v m (tl text))"
  by pat_completeness auto

termination
  by (relation "measure (\<lambda>(v, m, text). length text)") (auto simp: neq_Nil_conv)

declare replace_all.simps [simp del]

definition sanitize_string :: "secret_entry list \<Rightarrow> string \<Rightarrow> string" where
  "sanitize_string secrets text =
     fold (\<lambda>s result. if str_includes (se_value s) result then replace_all (se_value s) (marker (se_name s)) result else result)
       (redactor_patterns secrets) text"

fun sanitize_json :: "secret_entry list \<Rightarrow> json \<Rightarrow> json" where
  "sanitize_json secrets (JStr s) = JStr (sanitize_string secrets s)"
| "sanitize_json secrets (JArr xs) = JArr (map (sanitize_json secrets) xs)"
| "sanitize_json secrets (JObj ob) = JObj (map (\<lambda>p. (fst p, sanitize_json secrets (snd p))) ob)"
| "sanitize_json secrets v = v"

end
