(* ===== verification/RedactorLinks.thy ===== *)
theory RedactorLinks
  imports Redactor
begin

text \<open>
  The trie \<open>buildTrie\<close> makes: its paths are the prefixes of the patterns, every fail link leads to the longest
  proper suffix that is a path, and a node's output names exactly the patterns that end there.
\<close>

section \<open>Paths\<close>

lemma prefix_snoc_cases: "prefix q (b # bs) \<longleftrightarrow> q = [] \<or> (\<exists>q'. q = b # q' \<and> prefix q' bs)"
  by (cases q) auto

lemma insert_bytes_set: "set (insert_bytes p bs ps) = set ps \<union> {p @ q | q. q \<noteq> [] \<and> prefix q bs}"
proof (induction p bs ps rule: insert_bytes.induct)
  case (2 p b bs ps)
  have "{p @ q | q. q \<noteq> [] \<and> prefix q (b # bs)} = insert (p @ [b]) {(p @ [b]) @ q | q. q \<noteq> [] \<and> prefix q bs}"
    by (auto simp: prefix_snoc_cases)
  then show ?case using 2 by auto
qed auto

definition pattern_paths :: "secret_entry list \<Rightarrow> string set" where
  "pattern_paths pats = {q. q \<noteq> [] \<and> (\<exists>s \<in> set pats. prefix q (se_value s))}"

definition matches_of :: "secret_entry list \<Rightarrow> string \<Rightarrow> output_match set" where
  "matches_of pats p = {(se_name s, length (se_value s)) | s. s \<in> set pats \<and> suffix (se_value s) p}"

definition own_matches :: "secret_entry list \<Rightarrow> string \<Rightarrow> output_match set" where
  "own_matches pats p = {(se_name s, length (se_value s)) | s. s \<in> set pats \<and> se_value s = p}"

lemma node_output_push [simp]: "node_output (push_output p xs t) q = node_output t q @ (if q = p then xs else [])"
  by (simp add: push_output_def node_output_def split: option.split)

lemma node_output_fields [simp]:
  "node_output (t\<lparr>tr_paths := x\<rparr>) p = node_output t p" "node_output (t\<lparr>tr_fail := y\<rparr>) p = node_output t p"
  by (simp_all add: node_output_def)

lemma push_output_fields [simp]: "tr_paths (push_output p xs t) = tr_paths t" "tr_fail (push_output p xs t) = tr_fail t"
  by (simp_all add: push_output_def)

lemma fold_insert_pattern:
  "set (tr_paths (fold insert_pattern pats t)) = set (tr_paths t) \<union> pattern_paths pats
   \<and> tr_fail (fold insert_pattern pats t) = tr_fail t
   \<and> set (node_output (fold insert_pattern pats t) p) = set (node_output t p) \<union> own_matches pats p"
proof (induction pats arbitrary: t)
  case (Cons s pats)
  have "pattern_paths (s # pats) = {q. q \<noteq> [] \<and> prefix q (se_value s)} \<union> pattern_paths pats"
    "own_matches (s # pats) p = (if se_value s = p then {(se_name s, length (se_value s))} else {}) \<union> own_matches pats p"
    by (auto simp: pattern_paths_def own_matches_def)
  then show ?case
    using Cons [of "insert_pattern s t"] by (auto simp: insert_pattern_def insert_bytes_set)
qed (simp add: pattern_paths_def own_matches_def)

lemma pattern_trie_facts:
  "set (tr_paths (pattern_trie pats)) = pattern_paths pats" "tr_fail (pattern_trie pats) = []"
  "set (node_output (pattern_trie pats) p) = own_matches pats p"
  using fold_insert_pattern [of pats empty_trie p] by (simp_all add: pattern_trie_def empty_trie_def node_output_def)

lemma pattern_paths_butlast: "p @ [b] \<in> pattern_paths pats \<Longrightarrow> p = [] \<or> p \<in> pattern_paths pats"
  by (auto simp: pattern_paths_def dest: append_prefixD)

section \<open>The longest suffix that is a node\<close>

definition is_node :: "trie \<Rightarrow> string \<Rightarrow> bool" where
  "is_node t q = (q = [] \<or> q \<in> set (tr_paths t))"

definition longest_node :: "trie \<Rightarrow> string \<Rightarrow> string \<Rightarrow> bool" where
  "longest_node t w r = (suffix r w \<and> is_node t r \<and> (\<forall>r'. suffix r' w \<and> is_node t r' \<longrightarrow> length r' \<le> length r))"

definition prefix_closed :: "trie \<Rightarrow> bool" where
  "prefix_closed t = ([] \<notin> set (tr_paths t) \<and> (\<forall>p b. p @ [b] \<in> set (tr_paths t) \<longrightarrow> is_node t p))"

lemma suffix_same_length: "suffix r w \<Longrightarrow> suffix r' w \<Longrightarrow> length r = length r' \<Longrightarrow> r = r'"
  by (metis suffix_length_suffix suffix_order.antisym order_refl)

lemma longest_node_unique: "longest_node t w r \<Longrightarrow> longest_node t w r' \<Longrightarrow> r = r'"
  by (meson longest_node_def le_antisym suffix_same_length)

lemma longest_node_suffix: "longest_node t w r \<Longrightarrow> suffix r' w \<Longrightarrow> is_node t r' \<Longrightarrow> suffix r' r"
  by (meson longest_node_def suffix_length_suffix)

text \<open>One byte further: the longest node that continues with it.\<close>

lemma longest_node_snoc:
  assumes closed: "prefix_closed t" and r: "suffix r w" "has_next t r b"
    and max: "\<And>r'. suffix r' w \<Longrightarrow> is_node t r' \<Longrightarrow> has_next t r' b \<Longrightarrow> length r' \<le> length r"
  shows "longest_node t (w @ [b]) (r @ [b])"
proof -
  have "length r' \<le> length (r @ [b])" if r': "suffix r' (w @ [b])" "is_node t r'" for r'
  proof (cases r' rule: rev_cases)
    case (snoc q c)
    then have q: "suffix q w" "c = b" using r'(1) by auto
    have path: "q @ [b] \<in> set (tr_paths t)" using r'(2) snoc q(2) by (simp add: is_node_def)
    then have "is_node t q" using closed unfolding prefix_closed_def by blast
    then have "length q \<le> length r" by (rule max [OF q(1)]) (use path in \<open>simp add: has_next_def\<close>)
    then show ?thesis by (simp add: snoc)
  qed simp
  then show ?thesis
    using r by (simp add: longest_node_def is_node_def has_next_def)
qed

lemma longest_node_none:
  assumes closed: "prefix_closed t" and none: "\<And>r'. suffix r' w \<Longrightarrow> is_node t r' \<Longrightarrow> \<not> has_next t r' b"
  shows "longest_node t (w @ [b]) []"
proof -
  have "r' = []" if r': "suffix r' (w @ [b])" "is_node t r'" for r'
  proof (cases r' rule: rev_cases)
    case (snoc q c)
    then have q: "suffix q w" "c = b" "q @ [b] \<in> set (tr_paths t)" using r' by (auto simp: is_node_def)
    then have "is_node t q" using closed unfolding prefix_closed_def by blast
    then have "\<not> has_next t q b" by (rule none [OF q(1)])
    then show ?thesis using q(3) by (simp add: has_next_def)
  qed simp
  then have "length r' \<le> length ([] :: string)" if "suffix r' (w @ [b]) \<and> is_node t r'" for r'
    using that by (metis le_refl)
  then show ?thesis unfolding longest_node_def by (blast intro: suffix_bot.extremum is_node_def [THEN iffD2])
qed

section \<open>Climbing\<close>

text \<open>The links of all nodes up to a depth are right.\<close>

definition fail_right :: "trie \<Rightarrow> string \<Rightarrow> bool" where
  "fail_right t p = (case jget (tr_fail t) p of None \<Rightarrow> False | Some f \<Rightarrow> longest_node t (tl p) f)"

lemma fail_right_Some: "fail_right t p \<longleftrightarrow> (\<exists>f. jget (tr_fail t) p = Some f \<and> longest_node t (tl p) f)"
  by (simp add: fail_right_def split: option.split)

lemma suffix_of_node: "suffix r w \<Longrightarrow> suffix r' w \<Longrightarrow> length r' < length r \<Longrightarrow> suffix r' (tl r)"
  by (metis length_greater_0_conv less_imp_le less_nat_zero_code list.collapse nat_neq_iff suffix_Cons suffix_length_suffix)

lemma climb_spec:
  assumes root: "jget (tr_fail t) [] = None" and right: "\<And>q. q \<in> set (tr_paths t) \<Longrightarrow> length q \<le> d \<Longrightarrow> fail_right t q"
  shows "suffix r w \<Longrightarrow> is_node t r \<Longrightarrow> length r \<le> d \<Longrightarrow> length r \<le> k
    \<Longrightarrow> (\<And>r'. suffix r' w \<Longrightarrow> is_node t r' \<Longrightarrow> has_next t r' b \<Longrightarrow> length r' \<le> length r)
    \<Longrightarrow> (case climb t k (Some r) b of
          None \<Rightarrow> \<forall>r'. suffix r' w \<and> is_node t r' \<longrightarrow> \<not> has_next t r' b
        | Some x \<Rightarrow> suffix x w \<and> is_node t x \<and> has_next t x b \<and> (\<forall>r'. suffix r' w \<and> is_node t r' \<and> has_next t r' b \<longrightarrow> length r' \<le> length x))"
proof (induction k arbitrary: r)
  case 0
  then show ?case by auto
next
  case (Suc k)
  show ?case
  proof (cases "has_next t r b")
    case True
    then show ?thesis using Suc.prems by simp
  next
    case False
    show ?thesis
    proof (cases "r = []")
      case True
      then show ?thesis using Suc.prems(5) False root by (auto simp: root)
    next
      case nonempty: False
      then have "fail_right t r" using right Suc.prems(2,3) by (simp add: is_node_def)
      then obtain f where f: "jget (tr_fail t) r = Some f" "longest_node t (tl r) f" by (auto simp: fail_right_Some)
      have fr: "suffix f (tl r)" "is_node t f" using f(2) by (simp_all add: longest_node_def)
      have len: "length f < length r" using suffix_length_le [OF fr(1)] nonempty by (cases r) auto
      have "suffix f w" using fr(1) Suc.prems(1) by (meson suffix_order.order_trans suffix_tl)
      moreover have "length r' \<le> length f" if r': "suffix r' w" "is_node t r'" "has_next t r' b" for r'
      proof -
        have "length r' \<noteq> length r" using suffix_same_length [OF r'(1) Suc.prems(1)] r'(3) False by auto
        then have "length r' < length r" using Suc.prems(5) [OF r'] by simp
        then show ?thesis
          using suffix_of_node [OF Suc.prems(1) r'(1)] f(2) r'(2) by (simp add: longest_node_def)
      qed
      ultimately show ?thesis
        using Suc.IH [of f] fr(2) len Suc.prems(3,4) False f(1) by simp
    qed
  qed
qed

section \<open>The queue\<close>

text \<open>What the queue keeps of the trie, and where it stands: who is linked is linked right and has its final output.\<close>

definition linked :: "trie \<Rightarrow> string \<Rightarrow> bool" where
  "linked t p = (jget (tr_fail t) p \<noteq> None)"

definition link_ok :: "secret_entry list \<Rightarrow> trie \<Rightarrow> bool" where
  "link_ok pats t =
     (set (tr_paths t) = pattern_paths pats
      \<and> (\<forall>p. linked t p \<longrightarrow> p \<in> set (tr_paths t) \<and> fail_right t p \<and> set (node_output t p) = matches_of pats p)
      \<and> (\<forall>p. \<not> linked t p \<longrightarrow> set (node_output t p) = own_matches pats p))"

definition all_linked :: "nat \<Rightarrow> trie \<Rightarrow> bool" where
  "all_linked d t = (\<forall>q \<in> set (tr_paths t). length q \<le> d \<longrightarrow> linked t q)"

lemma link_ok_closed: "link_ok pats t \<Longrightarrow> prefix_closed t"
  using pattern_paths_butlast by (auto simp: link_ok_def prefix_closed_def is_node_def pattern_paths_def)

lemma link_ok_root: "link_ok pats t \<Longrightarrow> \<not> linked t []"
  by (auto simp: link_ok_def pattern_paths_def)

text \<open>The patterns ending at a node are its own and those ending at its longest proper suffix.\<close>

lemma suffix_tl_cases: "suffix v p \<longleftrightarrow> v = p \<or> suffix v (tl p)"
  by (cases p) (auto simp: suffix_Cons)

lemma matches_of_fail:
  assumes paths: "set (tr_paths t) = pattern_paths pats" and nonempty: "\<And>s. s \<in> set pats \<Longrightarrow> se_value s \<noteq> []"
    and f: "longest_node t (tl p) f" and p: "p \<noteq> []"
  shows "matches_of pats p = own_matches pats p \<union> matches_of pats f"
proof -
  have "suffix (se_value s) (tl p) \<longleftrightarrow> suffix (se_value s) f" if s: "s \<in> set pats" for s
  proof
    have "is_node t (se_value s)" using s nonempty [OF s] paths by (auto simp: is_node_def pattern_paths_def)
    then show "suffix (se_value s) (tl p) \<Longrightarrow> suffix (se_value s) f" using longest_node_suffix [OF f] by blast
    show "suffix (se_value s) f \<Longrightarrow> suffix (se_value s) (tl p)"
      using f by (auto simp: longest_node_def intro: suffix_order.order_trans)
  qed
  then show ?thesis
    unfolding matches_of_def own_matches_def suffix_tl_cases [of _ p] by blast
qed

lemma link_node_ok:
  assumes ok: "link_ok pats t" and nonempty: "\<And>s. s \<in> set pats \<Longrightarrow> se_value s \<noteq> []"
    and level: "all_linked (length p) t" and p: "p \<in> set (tr_paths t)" and c: "c = p @ [b]" "c \<in> set (tr_paths t)"
  shows "link_ok pats (link_node p c t) \<and> (\<forall>q. linked (link_node p c t) q \<longleftrightarrow> linked t q \<or> q = c)"
proof -
  let ?t = "link_node p c t"
  note closed = link_ok_closed [OF ok]
  have root: "jget (tr_fail t) [] = None" using link_ok_root [OF ok] by (simp add: linked_def)
  have right: "fail_right t q" if "q \<in> set (tr_paths t)" "length q \<le> length p" for q
    using ok level that by (auto simp: link_ok_def all_linked_def)
  have p_nonempty: "p \<noteq> []" using p closed by (auto simp: prefix_closed_def)
  obtain r where r: "jget (tr_fail t) p = Some r" "longest_node t (tl p) r"
    using right [OF p] by (auto simp: fail_right_Some)
  have rlen: "length r \<le> length p"
    using r(2) suffix_length_le [of r "tl p"] by (simp add: longest_node_def)
  let ?f = "case climb t (length p) (Some r) b of None \<Rightarrow> [] | Some x \<Rightarrow> x @ [b]"
  have "case climb t (length p) (Some r) b of
          None \<Rightarrow> \<forall>r'. suffix r' (tl p) \<and> is_node t r' \<longrightarrow> \<not> has_next t r' b
        | Some x \<Rightarrow> suffix x (tl p) \<and> is_node t x \<and> has_next t x b
            \<and> (\<forall>r'. suffix r' (tl p) \<and> is_node t r' \<and> has_next t r' b \<longrightarrow> length r' \<le> length x)"
    by (rule climb_spec [OF root right]) (use r(2) rlen in \<open>auto simp: longest_node_def\<close>)
  then have "longest_node t (tl p @ [b]) ?f"
    by (cases "climb t (length p) (Some r) b") (auto intro: longest_node_none [OF closed] longest_node_snoc [OF closed])
  then have f: "longest_node t (tl c) ?f" using p_nonempty c(1) by simp
  have flen: "length ?f < length c"
  proof -
    have "length ?f \<le> length (tl c)" by (rule suffix_length_le) (use f in \<open>simp add: longest_node_def\<close>)
    then show ?thesis using c(1) by simp
  qed
  have out_f: "set (node_output t ?f) = matches_of pats ?f"
  proof (cases "?f = []")
    case True
    have "matches_of pats [] = own_matches pats []" by (auto simp: matches_of_def own_matches_def)
    then show ?thesis using ok link_ok_root [OF ok] True by (simp add: link_ok_def)
  next
    case False
    then have "?f \<in> set (tr_paths t)" using f by (simp add: longest_node_def is_node_def)
    moreover have "length ?f \<le> length p" using flen c(1) by simp
    ultimately show ?thesis using ok level by (auto simp: link_ok_def all_linked_def)
  qed
  have step: "tr_fail ?t = jset c ?f (tr_fail t)" "node_output ?t q = node_output t q @ (if q = c then node_output t ?f else [])" for q
    by (simp_all add: link_node_def Let_def c(1) r(1))
  have linked: "linked ?t q \<longleftrightarrow> linked t q \<or> q = c" for q
    by (simp add: linked_def step)
  have nodes: "longest_node ?t w x = longest_node t w x" for w x
    by (simp add: longest_node_def is_node_def)
  have "fail_right ?t c" by (simp add: fail_right_Some step nodes f)
  moreover have "fail_right ?t q" if "linked t q" "q \<noteq> c" for q
    using ok that by (simp add: link_ok_def fail_right_Some step nodes)
  moreover have "set (node_output ?t c) = matches_of pats c"
  proof -
    have "set (node_output t c) = own_matches pats c \<or> set (node_output t c) = matches_of pats c"
      using ok by (auto simp: link_ok_def)
    moreover have "matches_of pats c = own_matches pats c \<union> matches_of pats ?f"
      by (rule matches_of_fail [OF _ nonempty f]) (use ok c(1) in \<open>auto simp: link_ok_def\<close>)
    ultimately show ?thesis by (auto simp: step out_f)
  qed
  ultimately have "link_ok pats ?t"
    using ok c(2) by (auto simp: link_ok_def linked step)
  then show ?thesis using linked by blast
qed

lemma link_nodes_ok:
  "link_ok pats t \<Longrightarrow> (\<And>s. s \<in> set pats \<Longrightarrow> se_value s \<noteq> []) \<Longrightarrow> all_linked (length p) t \<Longrightarrow> p \<in> set (tr_paths t)
    \<Longrightarrow> (\<And>c. c \<in> set cs \<Longrightarrow> c \<in> set (tr_paths t) \<and> (\<exists>b. c = p @ [b]))
    \<Longrightarrow> link_ok pats (fold (link_node p) cs t) \<and> (\<forall>q. linked (fold (link_node p) cs t) q \<longleftrightarrow> linked t q \<or> q \<in> set cs)"
proof (induction cs arbitrary: t)
  case (Cons c cs)
  obtain b where c: "c = p @ [b]" "c \<in> set (tr_paths t)" using Cons.prems(5) [of c] by auto
  note one = link_node_ok [OF Cons.prems(1,2,3,4) c]
  have "all_linked (length p) (link_node p c t)"
    using one Cons.prems(3) by (simp add: all_linked_def)
  then show ?case
    using Cons.IH [of "link_node p c t"] one Cons.prems by auto
qed simp

text \<open>The queue holds linked paths by length, and every path not linked yet has an ancestor in it.\<close>

definition queue_ok :: "string list \<Rightarrow> trie \<Rightarrow> bool" where
  "queue_ok q t =
     ((\<forall>p \<in> set q. linked t p) \<and> sorted (map length q) \<and> (\<forall>p \<in> set q. length p \<le> Suc (length (hd q)))
      \<and> (\<forall>r \<in> set (tr_paths t). linked t r \<or> (\<exists>a \<in> set q. strict_prefix a r)))"

lemma next_nodes_iff: "c \<in> set (next_nodes t p) \<longleftrightarrow> c \<in> set (tr_paths t) \<and> (\<exists>b. c = p @ [b])"
  by (auto simp: next_nodes_def) (metis append_butlast_last_id)

lemma strict_prefix_child:
  assumes "strict_prefix a r" shows "\<exists>b. prefix (a @ [b]) r"
proof -
  obtain zs where zs: "r = a @ zs" "zs \<noteq> []" using assms by (auto simp: strict_prefix_def prefix_def)
  then have "r = (a @ [hd zs]) @ tl zs" by simp
  then show ?thesis by (metis prefixI)
qed

lemma prefix_node: "prefix_closed t \<Longrightarrow> r \<in> set (tr_paths t) \<Longrightarrow> prefix a r \<Longrightarrow> is_node t a"
proof (induction r arbitrary: a rule: rev_induct)
  case (snoc b r)
  then have "is_node t r" by (auto simp: prefix_closed_def)
  then show ?case
    using snoc by (cases "a = r @ [b]") (auto simp: is_node_def)
qed (simp add: is_node_def)

lemma link_queue_ok:
  "link_ok pats t \<Longrightarrow> (\<And>s. s \<in> set pats \<Longrightarrow> se_value s \<noteq> []) \<Longrightarrow> queue_ok q t
     \<Longrightarrow> link_ok pats (link_queue q t) \<and> (\<forall>r \<in> set (tr_paths (link_queue q t)). linked (link_queue q t) r)"
proof (induction q t rule: link_queue.induct)
  case (1 t)
  then show ?case by (auto simp: queue_ok_def)
next
  case (2 p q t)
  let ?cs = "next_nodes t p" and ?t = "fold (link_node p) (next_nodes t p) t"
  note ok = 2(2) and queue = 2(4)
  have p: "p \<in> set (tr_paths t)" using ok queue by (auto simp: link_ok_def queue_ok_def)
  have shortest: "length p \<le> length a" if "a \<in> set (p # q)" for a
    using queue that by (auto simp: queue_ok_def)
  have level: "all_linked (length p) t"
    unfolding all_linked_def
  proof (intro ballI impI)
    fix r assume r: "r \<in> set (tr_paths t)" "length r \<le> length p"
    show "linked t r"
    proof (rule ccontr)
      assume "\<not> linked t r"
      then obtain a where "a \<in> set (p # q)" "strict_prefix a r" using queue r(1) unfolding queue_ok_def by blast
      then show False using shortest [of a] r(2) prefix_length_less [of a r] by simp
    qed
  qed
  have children: "c \<in> set (tr_paths t) \<and> (\<exists>b. c = p @ [b])" if "c \<in> set ?cs" for c
    using that by (simp add: next_nodes_iff)
  note linking = link_nodes_ok [OF ok 2(3) level p children]
  have "queue_ok (q @ ?cs) ?t"
    unfolding queue_ok_def
  proof (intro conjI)
    show "\<forall>a \<in> set (q @ ?cs). linked ?t a"
      using linking queue by (auto simp: queue_ok_def)
    have len_c: "length c = Suc (length p)" if "c \<in> set ?cs" for c using children [OF that] by auto
    have len_q: "length a \<le> Suc (length p)" if "a \<in> set q" for a using queue that by (auto simp: queue_ok_def)
    have "sorted (map length ?cs)" using len_c by (induction ?cs) (auto simp: sorted_iff_nth_mono_less)
    then show "sorted (map length (q @ ?cs))"
      using queue len_c len_q by (auto simp: queue_ok_def sorted_append)
    have "length p \<le> length (hd (q @ ?cs))" if "q @ ?cs \<noteq> []"
      using that shortest [of "hd q"] len_c [of "hd ?cs"] by (cases q; cases ?cs) auto
    then show "\<forall>a \<in> set (q @ ?cs). length a \<le> Suc (length (hd (q @ ?cs)))"
      using len_c len_q by (metis (no_types, lifting) UnE Suc_le_mono empty_iff le_trans list.set(1) nle_le set_append)
    show "\<forall>r \<in> set (tr_paths ?t). linked ?t r \<or> (\<exists>a \<in> set (q @ ?cs). strict_prefix a r)"
    proof
      fix r assume "r \<in> set (tr_paths ?t)"
      then have r: "r \<in> set (tr_paths t)" by simp
      show "linked ?t r \<or> (\<exists>a \<in> set (q @ ?cs). strict_prefix a r)"
      proof (cases "linked t r \<or> (\<exists>a \<in> set q. strict_prefix a r)")
        case True
        then show ?thesis using linking by auto
      next
        case False
        then have "strict_prefix p r" using queue r by (auto simp: queue_ok_def)
        then obtain b where b: "prefix (p @ [b]) r" using strict_prefix_child by blast
        then have "p @ [b] \<in> set ?cs"
          using prefix_node [OF link_ok_closed [OF ok] r b] by (simp add: next_nodes_iff is_node_def)
        then show ?thesis using linking b by (auto simp: strict_prefix_def)
      qed
    qed
  qed
  then show ?case using 2(1) linking 2(3) by simp
qed

section \<open>The whole trie\<close>

definition start_links :: "string list \<Rightarrow> trie \<Rightarrow> trie" where
  "start_links cs t = fold (\<lambda>c t. t\<lparr>tr_fail := jset c [] (tr_fail t)\<rparr>) cs t"

lemma start_links_facts:
  "tr_paths (start_links cs t) = tr_paths t \<and> node_output (start_links cs t) p = node_output t p
   \<and> jget (tr_fail (start_links cs t)) p = (if p \<in> set cs then Some [] else jget (tr_fail t) p)"
  unfolding start_links_def by (induction cs arbitrary: t) auto

lemma no_match_shorter: "(\<And>s. s \<in> set pats \<Longrightarrow> se_value s \<noteq> []) \<Longrightarrow> length p \<le> 1 \<Longrightarrow> matches_of pats p = own_matches pats p"
  by (auto simp: matches_of_def own_matches_def suffix_def le_Suc_eq length_Suc_conv append_eq_Cons_conv)

lemma link_trie_ok:
  assumes nonempty: "\<And>s. s \<in> set pats \<Longrightarrow> se_value s \<noteq> []"
  defines "t \<equiv> link_trie (pattern_trie pats)"
  shows "link_ok pats t \<and> (\<forall>r \<in> set (tr_paths t). linked t r)"
proof -
  let ?p = "pattern_trie pats" and ?cs = "next_nodes (pattern_trie pats) []"
  let ?s = "start_links ?cs ?p"
  note facts = start_links_facts [of ?cs ?p] pattern_trie_facts [of pats]
  have children: "c \<in> set ?cs \<longleftrightarrow> c \<in> pattern_paths pats \<and> length c = 1" for c
    by (auto simp: next_nodes_iff facts length_Suc_conv)
  have linked: "linked ?s c \<longleftrightarrow> c \<in> set ?cs" for c
    by (simp add: linked_def facts)
  have right: "fail_right ?s c" if "c \<in> set ?cs" for c
  proof -
    have "tl c = []" using that by (auto simp: children length_Suc_conv)
    then show ?thesis using that by (simp add: fail_right_Some facts longest_node_def is_node_def)
  qed
  have ok: "link_ok pats ?s"
    using right no_match_shorter [OF nonempty] by (auto simp: link_ok_def linked facts children)
  have "queue_ok ?cs ?s"
    unfolding queue_ok_def
  proof (intro conjI)
    show "\<forall>p \<in> set ?cs. linked ?s p" by (simp add: linked)
    have ones: "map length ?cs = replicate (length ?cs) 1" by (rule replicate_eqI) (auto simp: children)
    show "sorted (map length ?cs)" unfolding ones by simp
    show "\<forall>p \<in> set ?cs. length p \<le> Suc (length (hd ?cs))" by (auto simp: children)
    show "\<forall>r \<in> set (tr_paths ?s). linked ?s r \<or> (\<exists>a \<in> set ?cs. strict_prefix a r)"
    proof
      fix r assume r: "r \<in> set (tr_paths ?s)"
      then have "r \<noteq> []" by (simp add: facts pattern_paths_def)
      then obtain b bs where bs: "r = b # bs" by (cases r) auto
      have "[b] \<in> set (tr_paths ?s)"
        using prefix_node [OF link_ok_closed [OF ok] r, of "[b]"] bs by (auto simp: is_node_def)
      then have "[b] \<in> set ?cs" by (simp add: children facts)
      then show "linked ?s r \<or> (\<exists>a \<in> set ?cs. strict_prefix a r)"
        using bs by (cases bs) (auto simp: linked strict_prefix_def intro!: bexI [of _ "[b]"])
    qed
  qed
  then show ?thesis
    using link_queue_ok [OF ok nonempty] by (simp add: t_def link_trie_def start_links_def)
qed

lemma redactor_patterns_set: "set (redactor_patterns secrets) = {s \<in> set secrets. se_value s \<noteq> []}"
  by (simp add: redactor_patterns_def)

lemma build_trie_ok:
  "link_ok (redactor_patterns secrets) (build_trie secrets) \<and> (\<forall>r \<in> set (tr_paths (build_trie secrets)). linked (build_trie secrets) r)"
  unfolding build_trie_def by (rule link_trie_ok) (simp add: redactor_patterns_set)

text \<open>A fail link is shorter than its node.\<close>

lemma fail_shorter: "link_ok pats t \<Longrightarrow> jget (tr_fail t) p = Some f \<Longrightarrow> length f < length p"
proof -
  assume ok: "link_ok pats t" and f: "jget (tr_fail t) p = Some f"
  then have "fail_right t p" "p \<noteq> []" using link_ok_root [OF ok] by (auto simp: link_ok_def linked_def)
  then have "suffix f (tl p)" using f by (simp add: fail_right_Some longest_node_def)
  then show "length f < length p" using suffix_length_le \<open>p \<noteq> []\<close> by (cases p) fastforce+
qed

text \<open>A node's own patterns come first in its output.\<close>

definition own_list :: "secret_entry list \<Rightarrow> string \<Rightarrow> output_match list" where
  "own_list pats p = map (\<lambda>s. (se_name s, length (se_value s))) (filter (\<lambda>s. se_value s = p) pats)"

lemma pattern_trie_output: "node_output (fold insert_pattern pats t) p = node_output t p @ own_list pats p"
  by (induction pats arbitrary: t) (auto simp: insert_pattern_def own_list_def)

lemma link_node_output: "prefix (node_output t p) (node_output (link_node q c t) p)"
  by (simp add: link_node_def Let_def)

lemma link_nodes_output: "prefix (node_output t p) (node_output (fold (link_node q) cs t) p)"
  by (induction cs arbitrary: t) (auto intro: prefix_order.order_trans [OF link_node_output])

lemma link_queue_output: "prefix (node_output t p) (node_output (link_queue q t) p)"
  by (induction q t rule: link_queue.induct) (auto intro: prefix_order.order_trans [OF link_nodes_output])

lemma build_trie_output: "prefix (own_list (redactor_patterns secrets) p) (node_output (build_trie secrets) p)"
proof -
  let ?t = "pattern_trie (redactor_patterns secrets)"
  have "node_output ?t p = own_list (redactor_patterns secrets) p"
    by (simp add: pattern_trie_def pattern_trie_output) (simp add: node_output_def empty_trie_def)
  then show ?thesis
    using link_queue_output [of "start_links (next_nodes ?t []) ?t" p "next_nodes ?t []"] start_links_facts [of "next_nodes ?t []" ?t p]
    by (simp add: build_trie_def link_trie_def start_links_def)
qed

end
