(* ===== verification/RedactorScan.thy ===== *)
theory RedactorScan
  imports RedactorLinks
begin

text \<open>
  The scan ends, for any trie that was built, any chunks and any state, and a redaction only ever replaces non-empty
  pieces of the output by markers: nothing is lost, doubled or reordered.
\<close>

section \<open>The scan ends\<close>

definition scan_left :: "string \<Rightarrow> scan \<Rightarrow> nat" where
  "scan_left input s = 3 * (length input - sc_pos s) + length (sc_node s) + (if sc_pending s = None then 0 else 1)"

definition fails_short :: "trie \<Rightarrow> bool" where
  "fails_short t = (\<forall>p f. jget (tr_fail t) p = Some f \<longrightarrow> length f < length p)"

lemma build_trie_short: "fails_short (build_trie secrets)"
  using build_trie_ok fail_shorter unfolding fails_short_def by blast

lemma emit_match_fields [simp]:
  "sc_pos (emit_match input m s) = sc_pos s" "sc_node (emit_match input m s) = []"
  "sc_pending (emit_match input m s) = None" "sc_safe (emit_match input m s) = pm_end m"
  by (simp_all add: emit_match_def)

text \<open>The four branches of a turn.\<close>

lemma scan_step_cases:
  assumes "\<And>s'. has_next t (sc_node s) (input ! sc_pos s) \<Longrightarrow> s' = s\<lparr>sc_pos := sc_pos s + 1, sc_node := sc_node s @ [input ! sc_pos s],
      sc_pending := (case node_output t (sc_node s @ [input ! sc_pos s]) of [] \<Rightarrow> sc_pending s
        | (name, len) # _ \<Rightarrow> Some \<lparr>pm_name = name, pm_start = int (sc_pos s) - int len + 1, pm_end = sc_pos s + 1\<rparr>)\<rparr> \<Longrightarrow> P s'"
    and "\<And>s' m. \<not> has_next t (sc_node s) (input ! sc_pos s) \<Longrightarrow> sc_pending s = Some m
      \<Longrightarrow> s' = (emit_match input m s)\<lparr>sc_pos := max (sc_pos s) (pm_end m)\<rparr> \<Longrightarrow> P s'"
    and "\<And>s'. \<not> has_next t (sc_node s) (input ! sc_pos s) \<Longrightarrow> sc_pending s = None \<Longrightarrow> sc_node s \<noteq> []
      \<Longrightarrow> s' = s\<lparr>sc_node := (case jget (tr_fail t) (sc_node s) of None \<Rightarrow> [] | Some f \<Rightarrow> f)\<rparr> \<Longrightarrow> P s'"
    and "\<And>s'. \<not> has_next t (sc_node s) (input ! sc_pos s) \<Longrightarrow> sc_pending s = None \<Longrightarrow> sc_node s = []
      \<Longrightarrow> s' = s\<lparr>sc_pos := sc_pos s + 1\<rparr> \<Longrightarrow> P s'"
  shows "P (scan_step t input s)"
proof (cases "has_next t (sc_node s) (input ! sc_pos s)")
  case True
  then show ?thesis using assms(1) by (simp add: scan_step_def Let_def)
next
  case no: False
  show ?thesis
  proof (cases "sc_pending s")
    case None
    then show ?thesis
      using assms(3) [OF no None _ refl] assms(4) [OF no None _ refl] no by (cases "sc_node s = []") (simp_all add: scan_step_def Let_def)
  next
    case (Some m)
    have same: "emit_match input m s = (emit_match input m s)\<lparr>sc_pos := sc_pos s\<rparr>"
      by (simp add: emit_match_def)
    have "scan_step t input s = (emit_match input m s)\<lparr>sc_pos := max (sc_pos s) (pm_end m)\<rparr>"
      using no Some same by (auto simp: scan_step_def Let_def max_def)
    then show ?thesis using assms(2) [OF no Some] by simp
  qed
qed

lemma scan_step_left:
  assumes "fails_short t" "sc_pos s < length input"
  shows "scan_left input (scan_step t input s) < scan_left input s"
proof (rule scan_step_cases [where P = "\<lambda>s'. scan_left input s' < scan_left input s"])
  fix s' assume "sc_pending s = None" "sc_node s \<noteq> []" "s' = s\<lparr>sc_node := (case jget (tr_fail t) (sc_node s) of None \<Rightarrow> [] | Some f \<Rightarrow> f)\<rparr>"
  then show "scan_left input s' < scan_left input s"
    using assms(1) by (auto simp: scan_left_def fails_short_def split: option.split)
qed (use assms(2) in \<open>auto simp: scan_left_def split: if_splits\<close>)

lemma scan_input_rule:
  assumes "fails_short t" and start: "I \<lparr>sc_pos = 0, sc_node = node, sc_pending = None, sc_safe = 0, sc_out = []\<rparr>"
    and step: "\<And>s. I s \<Longrightarrow> sc_pos s < length input \<Longrightarrow> I (scan_step t input s)"
  shows "\<exists>s. scan_input t node input = Some s \<and> I s \<and> length input \<le> sc_pos s"
proof -
  have "\<exists>s. scan_input t node input = Some s"
    unfolding scan_input_def
    by (rule measure_while_option_Some [where P = "\<lambda>_. True" and f = "scan_left input"])
      (use scan_step_left [OF assms(1)] in auto)
  then obtain s where s: "scan_input t node input = Some s" ..
  moreover have "I s" by (rule while_option_rule [OF step s [unfolded scan_input_def] start])
  moreover have "\<not> sc_pos s < length input" by (rule while_option_stop [OF s [unfolded scan_input_def]])
  ultimately show ?thesis by auto
qed

section \<open>Only pieces are replaced\<close>

inductive redacts :: "string set \<Rightarrow> string \<Rightarrow> string \<Rightarrow> bool" for names where
  nothing: "redacts names [] []"
| keep: "redacts names x y \<Longrightarrow> redacts names (b # x) (b # y)"
| hide: "redacts names x y \<Longrightarrow> h \<noteq> [] \<Longrightarrow> name \<in> names \<Longrightarrow> redacts names (h @ x) (marker name @ y)"

lemma redacts_append: "redacts names x y \<Longrightarrow> redacts names x' y' \<Longrightarrow> redacts names (x @ x') (y @ y')"
  by (induction rule: redacts.induct) (auto intro: redacts.intros)

lemma redacts_refl: "redacts names x x"
  by (induction x) (auto intro: redacts.intros)

lemma redacts_hide: "redacts names x y \<Longrightarrow> h \<noteq> [] \<Longrightarrow> name \<in> names \<Longrightarrow> redacts names (x @ k @ h) (y @ k @ marker name)"
  using redacts_append [of names x y "k @ h" "k @ marker name"] redacts_append [OF redacts_refl redacts.hide [OF redacts.nothing]]
  by simp

text \<open>Where a scan stands: what is out is a redaction of what lies before the safe offset, and a pending match ends after it.\<close>

definition scan_ok :: "string set \<Rightarrow> string \<Rightarrow> scan \<Rightarrow> bool" where
  "scan_ok names input s =
     (redacts names (take (sc_safe s) input) (sc_out s) \<and> sc_safe s \<le> sc_pos s \<and> sc_pos s \<le> length input
      \<and> (\<forall>m. sc_pending s = Some m \<longrightarrow> pm_name m \<in> names \<and> sc_safe s < pm_end m \<and> pm_start m < int (pm_end m) \<and> pm_end m \<le> sc_pos s))"

lemma take_slice: "a \<le> b \<Longrightarrow> take b input = take a input @ slice input a b"
  by (metis add_diff_inverse_nat linorder_not_less slice_def take_add)

lemma emit_match_ok:
  assumes ok: "scan_ok names input s" and m: "sc_pending s = Some m"
  shows "redacts names (take (pm_end m) input) (sc_out (emit_match input m s))"
proof -
  let ?a = "max (sc_safe s) (nat (pm_start m))"
  have bounds: "sc_safe s < pm_end m" "pm_start m < int (pm_end m)" "pm_end m \<le> length input" "pm_name m \<in> names"
    "redacts names (take (sc_safe s) input) (sc_out s)"
    using ok m by (auto simp: scan_ok_def)
  have "take (pm_end m) input = take ?a input @ slice input ?a (pm_end m)"
    by (rule take_slice) (use bounds in linarith)
  also have "take ?a input = take (sc_safe s) input @ slice input (sc_safe s) ?a"
    by (rule take_slice) simp
  finally have whole: "take (pm_end m) input = take (sc_safe s) input @ slice input (sc_safe s) ?a @ slice input ?a (pm_end m)"
    by simp
  have out: "sc_out (emit_match input m s) = sc_out s @ slice input (sc_safe s) ?a @ marker (pm_name m)"
    by (auto simp: emit_match_def slice_def max_def)
  have "slice input ?a (pm_end m) \<noteq> []"
    using bounds by (auto simp: slice_def)
  then show ?thesis unfolding whole out using bounds by (intro redacts_hide)
qed

definition names_ok :: "string set \<Rightarrow> trie \<Rightarrow> bool" where
  "names_ok names t = (\<forall>p x. x \<in> set (node_output t p) \<longrightarrow> fst x \<in> names \<and> 0 < snd x)"

lemma scan_step_ok:
  assumes names: "names_ok names t" and ok: "scan_ok names input s" and more: "sc_pos s < length input"
  shows "scan_ok names input (scan_step t input s)"
proof (rule scan_step_cases [where P = "scan_ok names input"])
  let ?node = "sc_node s @ [input ! sc_pos s]"
  fix s' assume s': "s' = s\<lparr>sc_pos := sc_pos s + 1, sc_node := ?node,
      sc_pending := (case node_output t ?node of [] \<Rightarrow> sc_pending s
        | (name, len) # _ \<Rightarrow> Some \<lparr>pm_name = name, pm_start = int (sc_pos s) - int len + 1, pm_end = sc_pos s + 1\<rparr>)\<rparr>"
  show "scan_ok names input s'"
  proof (cases "node_output t ?node")
    case Nil
    then show ?thesis using s' ok more by (auto simp: scan_ok_def)
  next
    case (Cons x xs)
    then have "x \<in> set (node_output t ?node)" by simp
    then have "fst x \<in> names" "0 < snd x" using names unfolding names_ok_def by blast+
    then show ?thesis using s' ok more Cons by (auto simp: scan_ok_def split: prod.split)
  qed
next
  fix s' m assume m: "sc_pending s = Some m" and s': "s' = (emit_match input m s)\<lparr>sc_pos := max (sc_pos s) (pm_end m)\<rparr>"
  then show "scan_ok names input s'"
    using emit_match_ok [OF ok m] ok by (auto simp: scan_ok_def)
qed (use ok more in \<open>auto simp: scan_ok_def\<close>)

lemma scan_input_ok:
  assumes "fails_short t" "names_ok names t"
  shows "\<exists>s. scan_input t node input = Some s \<and> scan_ok names input s \<and> sc_pos s = length input"
proof -
  have "\<exists>s. scan_input t node input = Some s \<and> scan_ok names input s \<and> length input \<le> sc_pos s"
    by (rule scan_input_rule [OF assms(1)]) (simp add: scan_ok_def redacts.nothing, rule scan_step_ok [OF assms(2)])
  then show ?thesis by (auto simp: scan_ok_def)
qed

lemma close_chunk_ok:
  assumes ok: "scan_ok names input s" and "close_chunk t input s = (out, r)"
  shows "\<exists>x. input = x @ rd_hold r \<and> redacts names x out"
proof -
  define s' where "s' = (case sc_pending s of Some m \<Rightarrow> (if next_nodes t (sc_node s) = [] then emit_match input m s else s) | None \<Rightarrow> s)"
  have pending: "pm_start m < int (length input)" "pm_end m \<le> length input" if "sc_pending s = Some m" for m
    using ok that by (auto simp: scan_ok_def)
  have ok': "redacts names (take (sc_safe s') input) (sc_out s')" "sc_safe s' \<le> length input"
    using ok emit_match_ok [OF ok] pending(2) by (auto simp: s'_def scan_ok_def split: option.splits)
  have start: "pm_start m < int (length input)" if "sc_pending s' = Some m" for m
    using that pending(1) by (auto simp: s'_def split: option.splits if_splits)
  obtain hold where hold: "hold \<le> int (length input)"
    "out = sc_out s' @ (if int (sc_safe s') < max (int (sc_safe s')) hold then slice input (sc_safe s') (nat (max (int (sc_safe s')) hold)) else [])"
    "rd_hold r = drop (nat (max (int (sc_safe s')) hold)) input"
  proof
    let ?hold = "case sc_pending s' of Some m \<Rightarrow> min (pm_start m) (int (length input) - int (length (sc_node s')))
      | None \<Rightarrow> if 0 < length (sc_node s') then int (length input) - int (length (sc_node s')) else int (length input)"
    show "?hold \<le> int (length input)" using start by (fastforce split: option.split)
    show "out = sc_out s' @ (if int (sc_safe s') < max (int (sc_safe s')) ?hold then slice input (sc_safe s') (nat (max (int (sc_safe s')) ?hold)) else [])"
      "rd_hold r = drop (nat (max (int (sc_safe s')) ?hold)) input"
      using assms(2) unfolding close_chunk_def s'_def [symmetric] Let_def by auto
  qed
  let ?a = "nat (max (int (sc_safe s')) hold)"
  have a: "sc_safe s' \<le> ?a" "?a \<le> length input" using hold(1) ok'(2) by auto
  have "out = sc_out s' @ slice input (sc_safe s') ?a" using hold(2) by (auto simp: slice_def)
  then have "redacts names (take ?a input) out"
    using take_slice [OF a(1)] redacts_append [OF ok'(1) redacts_refl] by metis
  then show ?thesis using hold(3) by (metis append_take_drop_id)
qed

lemma flush_ok:
  assumes "fails_short t" "names_ok names t"
  shows "\<exists>out r'. flush_stream t r = Some (out, r') \<and> redacts names (rd_hold r) out"
proof (cases "rd_hold r = []")
  case True
  then show ?thesis by (simp add: flush_stream_def redacts.nothing)
next
  case False
  obtain s where s: "scan_input t [] (rd_hold r) = Some s" and ok: "scan_ok names (rd_hold r) s"
    using scan_input_ok [OF assms] by blast
  define s' where "s' = (case sc_pending s of Some m \<Rightarrow> (emit_match (rd_hold r) m s)\<lparr>sc_node := sc_node s\<rparr> | None \<Rightarrow> s)"
  have "redacts names (take (sc_safe s') (rd_hold r)) (sc_out s')"
    using ok emit_match_ok [OF ok] by (auto simp: s'_def scan_ok_def split: option.splits)
  from redacts_append [OF this redacts_refl [of names "drop (sc_safe s') (rd_hold r)"]]
  show ?thesis using False s unfolding flush_stream_def by (simp add: s'_def [symmetric] Let_def)
qed

lemma process_chunk_ok:
  assumes "fails_short t" "names_ok names t"
  shows "\<exists>out r' x. process_chunk t active chunk r = Some (out, r') \<and> rd_hold r @ chunk = x @ rd_hold r' \<and> redacts names x out"
proof (cases "\<not> active \<or> chunk = []")
  case True
  then show ?thesis by (simp add: process_chunk_def redacts_refl)
next
  case False
  obtain s where s: "scan_input t (rd_node r) (rd_hold r @ chunk) = Some s" and ok: "scan_ok names (rd_hold r @ chunk) s"
    using scan_input_ok [OF assms] by blast
  obtain out r' where close: "close_chunk t (rd_hold r @ chunk) s = (out, r')" by (cases "close_chunk t (rd_hold r @ chunk) s")
  show ?thesis using False s close close_chunk_ok [OF ok close] by (auto simp: process_chunk_def)
qed

lemma redact_chunks_ok:
  assumes "fails_short t" "names_ok names t"
  shows "\<exists>out r'. redact_chunks t active cs r = Some (out, r') \<and> redacts names (rd_hold r @ concat cs) out"
proof (induction cs arbitrary: r)
  case Nil
  then show ?case using flush_ok [OF assms] by simp
next
  case (Cons c cs)
  obtain out r' x where one: "process_chunk t active c r = Some (out, r')" "rd_hold r @ c = x @ rd_hold r'" "redacts names x out"
    using process_chunk_ok [OF assms] by blast
  obtain out' r'' where rest: "redact_chunks t active cs r' = Some (out', r'')" "redacts names (rd_hold r' @ concat cs) out'"
    using Cons.IH [of r'] by blast
  have "rd_hold r @ concat (c # cs) = x @ rd_hold r' @ concat cs" using one(2) by (metis append.assoc concat.simps(2))
  then have "redacts names (rd_hold r @ concat (c # cs)) (out @ out')" using redacts_append [OF one(3) rest(2)] by (simp only:)
  then show ?case using one(1) rest(1) by simp
qed

lemma build_trie_names: "names_ok (se_name ` set secrets) (build_trie secrets)"
proof -
  have "\<exists>s \<in> set (redactor_patterns secrets). x = (se_name s, length (se_value s))" if "x \<in> set (node_output (build_trie secrets) p)" for p x
  proof -
    have "set (node_output (build_trie secrets) p) = matches_of (redactor_patterns secrets) p
        \<or> set (node_output (build_trie secrets) p) = own_matches (redactor_patterns secrets) p"
      using build_trie_ok [of secrets] by (auto simp: link_ok_def)
    then show ?thesis using that by (auto simp: matches_of_def own_matches_def)
  qed
  then show ?thesis unfolding names_ok_def by (fastforce simp: redactor_patterns_set)
qed

end
