(* ===== verification/RedactorReference.thy ===== *)
theory RedactorReference
  imports RedactorScan
begin

text \<open>
  What the stream is meant to compute: from left to right, each occurrence of a secret replaced by the marker of its
  name. For secrets of which none lies inside another, a chunk that is scanned from the root gives exactly this, and
  so does any split into chunks when the hold-back can be scanned again from the state it led to.
\<close>

section \<open>The reference\<close>

definition first_secret :: "secret_entry list \<Rightarrow> string \<Rightarrow> secret_entry option" where
  "first_secret pats text = List.find (\<lambda>s. se_value s \<noteq> [] \<and> prefix (se_value s) text) pats"

lemma first_secret_Some: "first_secret pats text = Some s \<Longrightarrow> s \<in> set pats \<and> se_value s \<noteq> [] \<and> prefix (se_value s) text"
  unfolding first_secret_def by (auto simp: find_Some_iff)

function redact_text :: "secret_entry list \<Rightarrow> string \<Rightarrow> string" where
  "redact_text pats text = (if text = [] then [] else
     (case first_secret pats text of
        Some s \<Rightarrow> marker (se_name s) @ redact_text pats (drop (length (se_value s)) text)
      | None \<Rightarrow> hd text # redact_text pats (tl text)))"
  by pat_completeness auto

termination
  by (relation "measure (\<lambda>(pats, text). length text)") (auto simp: first_secret_Some dest!: first_secret_Some)

declare redact_text.simps [simp del]

definition infix_free :: "secret_entry list \<Rightarrow> bool" where
  "infix_free pats = (\<forall>p \<in> set pats. \<forall>q \<in> set pats. sublist (se_value p) (se_value q) \<longrightarrow> se_value p = se_value q)"

text \<open>
  A held-back prefix \<open>h\<close> of a secret is scanned again from the state that stands for it: nothing may go on from a
  suffix of \<open>h\<close> over the whole of \<open>h\<close>, and no secret may end inside it.
\<close>

definition rescan_safe :: "secret_entry list \<Rightarrow> bool" where
  "rescan_safe pats = (\<forall>p \<in> set pats. \<forall>h \<in> set (prefixes (butlast (se_value p))). \<forall>s \<in> set (suffixes h). s \<noteq> [] \<longrightarrow>
     (\<forall>q \<in> set pats. \<not> prefix (s @ h) (se_value q) \<and> (\<forall>g \<in> set (prefixes h). g \<noteq> [] \<longrightarrow> s @ g \<noteq> se_value q)))"

definition is_secret :: "secret_entry list \<Rightarrow> string \<Rightarrow> bool" where
  "is_secret pats v = (\<exists>s \<in> set pats. se_value s = v)"

definition no_secret :: "secret_entry list \<Rightarrow> string \<Rightarrow> bool" where
  "no_secret pats w = (\<forall>s \<in> set pats. \<not> sublist (se_value s) w)"

definition name_of :: "secret_entry list \<Rightarrow> string \<Rightarrow> string" where
  "name_of pats v = (case List.find (\<lambda>s. se_value s = v) pats of Some s \<Rightarrow> se_name s | None \<Rightarrow> [])"

definition proper_patterns :: "secret_entry list \<Rightarrow> bool" where
  "proper_patterns pats = (infix_free pats \<and> (\<forall>s \<in> set pats. se_value s \<noteq> []))"

lemma proper_nonempty: "proper_patterns pats \<Longrightarrow> is_secret pats v \<Longrightarrow> v \<noteq> []"
  by (auto simp: proper_patterns_def is_secret_def)

lemma proper_infix: "proper_patterns pats \<Longrightarrow> is_secret pats v \<Longrightarrow> is_secret pats v' \<Longrightarrow> sublist v v' \<Longrightarrow> v = v'"
  by (auto simp: proper_patterns_def is_secret_def infix_free_def)

lemma no_secretD: "no_secret pats w \<Longrightarrow> is_secret pats v \<Longrightarrow> sublist v w \<Longrightarrow> False"
  by (auto simp: no_secret_def is_secret_def)

lemma no_secretI: "(\<And>v. is_secret pats v \<Longrightarrow> sublist v w \<Longrightarrow> False) \<Longrightarrow> no_secret pats w"
  by (auto simp: no_secret_def is_secret_def)

lemma no_secret_sublist: "no_secret pats w \<Longrightarrow> sublist u w \<Longrightarrow> no_secret pats u"
  by (meson no_secret_def sublist_order.order_trans)

lemma no_secret_Nil: "proper_patterns pats \<Longrightarrow> no_secret pats []"
  by (auto simp: no_secret_def proper_patterns_def)

lemma redact_text_Nil [simp]: "redact_text pats [] = []"
  by (simp add: redact_text.simps)

lemma redact_text_match:
  assumes pats: "proper_patterns pats" and v: "is_secret pats v"
  shows "redact_text pats (v @ rest) = marker (name_of pats v) @ redact_text pats rest"
proof -
  have "(se_value s \<noteq> [] \<and> prefix (se_value s) (v @ rest)) = (se_value s = v)" if s: "s \<in> set pats" for s
  proof -
    have secret: "is_secret pats (se_value s)" using s by (auto simp: is_secret_def)
    have "se_value s = v" if "prefix (se_value s) (v @ rest)"
    proof -
      have "prefix (se_value s) v \<or> prefix v (se_value s)" by (rule prefix_same_cases [OF that]) simp
      then show ?thesis using proper_infix [OF pats] secret v by auto
    qed
    then show ?thesis using proper_nonempty [OF pats v] by auto
  qed
  then have "first_secret pats (v @ rest) = List.find (\<lambda>s. se_value s = v) pats"
    unfolding first_secret_def by (intro find_cong) auto
  moreover obtain s where s: "List.find (\<lambda>s. se_value s = v) pats = Some s"
    using v by (cases "List.find (\<lambda>s. se_value s = v) pats") (auto simp: is_secret_def find_None_iff)
  moreover have "se_value s = v" using s by (auto simp: find_Some_iff)
  ultimately show ?thesis
    using proper_nonempty [OF pats v] by (simp add: redact_text.simps [of pats "v @ rest"] name_of_def)
qed

lemma redact_text_skip:
  "(\<And>j v. j < length k \<Longrightarrow> is_secret pats v \<Longrightarrow> \<not> prefix v (drop j (k @ text))) \<Longrightarrow> redact_text pats (k @ text) = k @ redact_text pats text"
proof (induction k)
  case (Cons b k)
  have "first_secret pats (b # k @ text) = None"
    using Cons.prems [of 0] by (auto simp: first_secret_def find_None_iff is_secret_def)
  moreover have "redact_text pats (k @ text) = k @ redact_text pats text"
    using Cons.prems [of "Suc j" for j] by (intro Cons.IH) auto
  ultimately show ?case by (simp add: redact_text.simps [of pats "b # k @ text"])
qed simp

lemma redact_text_none: "no_secret pats w \<Longrightarrow> redact_text pats w = w"
  using redact_text_skip [of w pats "[]"]
  by (simp add: no_secretD) (metis no_secretD prefix_imp_sublist sublist_drop sublist_order.order_trans)

section \<open>Overlaps\<close>

text \<open>A secret that starts in \<open>k\<close>, in front of a string \<open>r\<close> it does not end in, reaches over all of \<open>r\<close>.\<close>

lemma start_cases:
  assumes "prefix v (drop j (k @ r @ rest))" "j < length k"
  obtains (inside) "prefix v (drop j (k @ r))" | (over) z where "z \<noteq> []" "suffix z k" "prefix (z @ r) v"
proof -
  have whole: "drop j (k @ r @ rest) = (drop j k @ r) @ rest" using assms(2) by simp
  have "prefix v (drop j k @ r) \<or> prefix (drop j k @ r) v"
    by (rule prefix_same_cases) (use assms(1) whole in auto)
  then show ?thesis
    using inside over [of "drop j k"] assms(2) by (auto simp: suffix_drop)
qed

text \<open>Up to a secret at the end, when no secret ends before it.\<close>

lemma redact_text_hit:
  assumes pats: "proper_patterns pats" and v: "is_secret pats v" and free: "no_secret pats (butlast (k @ v))"
  shows "redact_text pats (k @ v @ rest) = k @ marker (name_of pats v) @ redact_text pats rest"
proof -
  have "redact_text pats (k @ v @ rest) = k @ redact_text pats (v @ rest)"
  proof (rule redact_text_skip, rule notI)
    fix j v' assume j: "j < length k" and v': "is_secret pats v'" and at: "prefix v' (drop j (k @ v @ rest))"
    show False
    proof (rule start_cases [OF at j])
      assume "prefix v' (drop j (k @ v))"
      then obtain z where z: "drop j (k @ v) = v' @ z" by (auto simp: prefix_def)
      show False
      proof (cases z rule: rev_cases)
        case Nil
        then have "drop j k @ v = v'" using z j by simp
        then have "suffix v v'" by (auto simp: suffix_def)
        then have "v = v'" using proper_infix [OF pats v v'] by simp
        then show False using \<open>drop j k @ v = v'\<close> j by simp
      next
        case (snoc y b)
        have "k @ v = take j (k @ v) @ v' @ y @ [b]" using z snoc by (metis append_take_drop_id)
        then have "butlast (k @ v) = take j (k @ v) @ v' @ y" by (metis append.assoc butlast_snoc)
        then show False using no_secretD [OF free v'] by (metis sublist_appendI)
      qed
    next
      fix z assume "z \<noteq> []" "prefix (z @ v) v'"
      then have "sublist v v'" by (metis prefix_def append.assoc sublist_appendI)
      then have "v = v'" using proper_infix [OF pats v v'] by simp
      then show False using \<open>z \<noteq> []\<close> \<open>prefix (z @ v) v'\<close> by (auto dest: prefix_length_le)
    qed
  qed
  then show ?thesis using redact_text_match [OF pats v] by simp
qed

section \<open>The automaton of proper patterns\<close>

definition automaton_ok :: "secret_entry list \<Rightarrow> trie \<Rightarrow> bool" where
  "automaton_ok pats t = (proper_patterns pats \<and> link_ok pats t \<and> (\<forall>r \<in> set (tr_paths t). linked t r)
     \<and> (\<forall>p. prefix (own_list pats p) (node_output t p)))"

lemma automatonD:
  assumes "automaton_ok pats t"
  shows "proper_patterns pats" "link_ok pats t" "prefix_closed t" "fails_short t"
proof -
  show pats: "proper_patterns pats" and ok: "link_ok pats t" using assms by (simp_all add: automaton_ok_def)
  show "prefix_closed t" by (rule link_ok_closed [OF ok])
  show "fails_short t" unfolding fails_short_def using fail_shorter [OF ok] by blast
qed

lemma node_iff: "automaton_ok pats t \<Longrightarrow> is_node t r \<longleftrightarrow> r = [] \<or> (\<exists>v. is_secret pats v \<and> prefix r v)"
proof -
  assume "automaton_ok pats t"
  then have "link_ok pats t" by (rule automatonD)
  then have "set (tr_paths t) = pattern_paths pats" unfolding link_ok_def by blast
  then show ?thesis unfolding is_node_def by (auto simp: pattern_paths_def is_secret_def)
qed

lemma secret_node: "automaton_ok pats t \<Longrightarrow> is_secret pats v \<Longrightarrow> is_node t v"
  by (auto simp: node_iff)

lemma node_prefix: "automaton_ok pats t \<Longrightarrow> is_node t r \<Longrightarrow> prefix q r \<Longrightarrow> is_node t q"
  by (auto simp: node_iff intro: prefix_order.order_trans)

text \<open>A node with a secret in it is that secret, and nothing goes on from there.\<close>

lemma node_with_secret:
  assumes t: "automaton_ok pats t" and r: "is_node t r" and v: "is_secret pats v" and inside: "sublist v r"
  shows "r = v"
proof -
  have "v \<noteq> []" by (rule proper_nonempty [OF automatonD(1) [OF t] v])
  then have "r \<noteq> []" using inside by auto
  then obtain v2 where v2: "is_secret pats v2" "prefix r v2" using r t by (auto simp: node_iff)
  then have "v = v2" using proper_infix [OF automatonD(1) [OF t] v] inside by (metis prefix_imp_sublist sublist_order.order_trans)
  then have "prefix r v" using v2(2) by simp
  moreover have "length v \<le> length r" by (rule sublist_length_le [OF inside])
  ultimately show ?thesis by (auto simp: prefix_def)
qed

lemma secret_leaf:
  assumes t: "automaton_ok pats t" and v: "is_secret pats v"
  shows "\<not> has_next t v b" "next_nodes t v = []"
proof -
  have leaf: "v @ [b] \<notin> set (tr_paths t)" for b
    using node_with_secret [OF t _ v, of "v @ [b]"] by (auto simp: is_node_def)
  then show "\<not> has_next t v b" by (simp add: has_next_def)
  show "next_nodes t v = []"
  proof (rule ccontr)
    assume "next_nodes t v \<noteq> []"
    then obtain c where "c \<in> set (next_nodes t v)" by (cases "next_nodes t v") auto
    then show False using leaf by (auto simp: next_nodes_iff)
  qed
qed

lemma node_output_secret:
  assumes t: "automaton_ok pats t" and v: "is_secret pats v"
  shows "\<exists>xs. node_output t v = (name_of pats v, length v) # xs"
proof -
  obtain s where s: "List.find (\<lambda>s. se_value s = v) pats = Some s"
    using v by (cases "List.find (\<lambda>s. se_value s = v) pats") (auto simp: is_secret_def find_None_iff)
  have "filter (\<lambda>s. se_value s = v) pats = s # tl (filter (\<lambda>s. se_value s = v) pats)"
    using s by (induction pats) (auto split: if_splits)
  moreover have "se_value s = v" using s by (auto simp: find_Some_iff)
  ultimately have "\<exists>xs. own_list pats v = (name_of pats v, length v) # xs"
    unfolding own_list_def name_of_def using s by (metis (no_types, lifting) list.simps(9) option.simps(5))
  moreover have "prefix (own_list pats v) (node_output t v)" using t by (simp add: automaton_ok_def)
  ultimately show ?thesis by (auto simp: prefix_def)
qed

lemma node_output_other:
  assumes t: "automaton_ok pats t" and r: "is_node t r" and no: "\<not> is_secret pats r"
  shows "node_output t r = []"
proof -
  have "\<not> (s \<in> set pats \<and> suffix (se_value s) r)" for s
    using node_with_secret [OF t r, of "se_value s"] no by (auto simp: is_secret_def)
  then have "matches_of pats r = {}" by (auto simp: matches_of_def)
  moreover have "own_matches pats r = {}" using no by (auto simp: own_matches_def is_secret_def)
  ultimately have "set (node_output t r) = {}" using automatonD(2) [OF t] unfolding link_ok_def by metis
  then show ?thesis by simp
qed

end
