(* ===== verification/RedactorStream.thy ===== *)
theory RedactorStream
  imports RedactorReference
begin

text \<open>The scan follows the reference: its invariant, and what a chunk, a flush and a whole output make of it.\<close>

section \<open>Scanning the hold-back again\<close>

definition rescans :: "secret_entry list \<Rightarrow> trie \<Rightarrow> string \<Rightarrow> bool" where
  "rescans pats t h = (\<forall>s. s \<noteq> [] \<and> suffix s h \<longrightarrow> \<not> is_node t (s @ h) \<and> (\<forall>g. g \<noteq> [] \<and> prefix g h \<longrightarrow> \<not> is_secret pats (s @ g)))"

lemma rescans_Nil: "rescans pats t []"
  by (simp add: rescans_def)

lemma rescan_safe_node:
  assumes t: "automaton_ok pats t" and safe: "rescan_safe pats" and h: "is_node t h" "\<not> is_secret pats h"
  shows "rescans pats t h"
proof (cases "h = []")
  case False
  then obtain v where v: "is_secret pats v" "prefix h v" using h(1) t by (auto simp: node_iff)
  then have "h \<noteq> v" using h(2) by auto
  then have h': "prefix h (butlast v)" using v(2) by (cases v rule: rev_cases) auto
  have apart: "(\<forall>q \<in> set pats. \<not> prefix (s @ h) (se_value q)) \<and> (\<forall>q \<in> set pats. \<forall>g \<in> set (prefixes h). g \<noteq> [] \<longrightarrow> s @ g \<noteq> se_value q)"
    if "s \<noteq> []" "suffix s h" for s
    using safe v(1) h' that unfolding rescan_safe_def is_secret_def by (metis in_set_prefixes in_set_suffixes)
  show ?thesis
    unfolding rescans_def
  proof (intro allI impI conjI notI; elim conjE)
    fix s assume s: "s \<noteq> []" "suffix s h"
    show False if "is_node t (s @ h)"
      using apart [OF s] that s(1) t by (auto simp: node_iff is_secret_def)
    show False if g: "g \<noteq> []" "prefix g h" "is_secret pats (s @ g)" for g
    proof -
      obtain q where q: "q \<in> set pats" "se_value q = s @ g" using g(3) by (auto simp: is_secret_def)
      have "g \<in> set (prefixes h)" using g(2) by simp
      then have "g \<noteq> [] \<longrightarrow> s @ g \<noteq> se_value q" using apart [OF s, THEN conjunct2] q(1) by blast
      then show False using q(2) g(1) by simp
    qed
  qed
qed (simp add: rescans_Nil)

text \<open>What ends in the part that was read again did not begin in what came before.\<close>

lemma no_straddle:
  assumes t: "automaton_ok pats t" and h: "rescans pats t h" "no_secret pats h"
    and r: "suffix r (h @ take k (h @ c))" "is_node t r" and late: "length h \<le> k \<or> is_secret pats r"
  shows "suffix r (take k (h @ c))"
proof (rule ccontr)
  let ?u = "take k (h @ c)"
  assume "\<not> suffix r ?u"
  then obtain s where s: "r = s @ ?u" "suffix s h" "s \<noteq> []" using r(1) by (auto simp: suffix_append)
  show False
  proof (cases "length h \<le> k")
    case True
    then have "prefix (s @ h) r" using s(1) by simp
    then show False using node_prefix [OF t r(2)] h(1) s by (auto simp: rescans_def)
  next
    case False
    then have v: "is_secret pats (s @ ?u)" "prefix ?u h" using late s(1) by (auto simp: take_is_prefix)
    then have "?u = []" using h(1) s(2,3) unfolding rescans_def by blast
    then have "is_secret pats s" using v(1) by (simp only: append_Nil2)
    then show False using no_secretD [OF h(2) _ suffix_imp_sublist [OF s(2)]] by blast
  qed
qed

section \<open>The invariant\<close>

definition seen :: "string \<Rightarrow> string \<Rightarrow> scan \<Rightarrow> string" where
  "seen h input s = (if sc_safe s = 0 then h else []) @ slice input (sc_safe s) (sc_pos s)"

definition follows :: "secret_entry list \<Rightarrow> trie \<Rightarrow> string \<Rightarrow> string \<Rightarrow> scan \<Rightarrow> bool" where
  "follows pats t h input s =
     (sc_safe s \<le> sc_pos s \<and> sc_pos s \<le> length input
      \<and> (\<forall>more. sc_out s @ redact_text pats (drop (sc_safe s) input @ more) = redact_text pats (input @ more))
      \<and> suffix (sc_node s) (seen h input s) \<and> is_node t (sc_node s)
      \<and> (case sc_pending s of
           None \<Rightarrow> no_secret pats (seen h input s)
             \<and> (\<forall>r. suffix r (seen h input s) \<and> is_node t r \<and> length (sc_node s) < length r
                  \<longrightarrow> sc_pos s < length input \<and> \<not> has_next t r (input ! sc_pos s))
         | Some m \<Rightarrow> is_secret pats (sc_node s) \<and> no_secret pats (butlast (seen h input s))
             \<and> suffix (sc_node s) (slice input (sc_safe s) (sc_pos s))
             \<and> m = \<lparr>pm_name = name_of pats (sc_node s), pm_start = int (sc_pos s) - int (length (sc_node s)), pm_end = sc_pos s\<rparr>))"

lemma slice_snoc: "a \<le> i \<Longrightarrow> i < length input \<Longrightarrow> slice input a (Suc i) = slice input a i @ [input ! i]"
  by (simp add: slice_def Suc_diff_le take_Suc_conv_app_nth)

lemma slice_drop: "a \<le> b \<Longrightarrow> slice input a b @ drop b input = drop a input"
  unfolding slice_def by (metis append_take_drop_id drop_drop le_add_diff_inverse2)

lemma seen_snoc:
  "sc_safe s \<le> sc_pos s \<Longrightarrow> sc_pos s < length input
    \<Longrightarrow> seen h input (s\<lparr>sc_pos := Suc (sc_pos s), sc_node := n, sc_pending := p\<rparr>) = seen h input s @ [input ! sc_pos s]"
  by (simp add: seen_def slice_snoc)

text \<open>A secret at the end of what was read lies in what was read since the last marker.\<close>

lemma seen_secret:
  assumes t: "automaton_ok pats t" and h: "rescans pats t h" "no_secret pats h" "input = h @ c"
    and v: "suffix v (seen h input s)" "is_node t v" "length h \<le> sc_pos s \<or> is_secret pats v"
  shows "suffix v (slice input (sc_safe s) (sc_pos s))"
proof (cases "sc_safe s = 0")
  case True
  then have "seen h input s = h @ take (sc_pos s) (h @ c)" by (simp add: seen_def slice_def h(3))
  then show ?thesis using no_straddle [OF t h(1,2) _ v(2,3)] v(1) True by (simp add: slice_def h(3))
qed (use v(1) in \<open>simp add: seen_def\<close>)

text \<open>A match that is put out: what was read since the last marker is \<open>k @ v\<close>.\<close>

lemma emit_follows:
  assumes t: "automaton_ok pats t" and s: "follows pats t h input s" and m: "sc_pending s = Some m"
  shows "sc_safe (emit_match input m s) = sc_pos s \<and> 0 < sc_pos s
    \<and> (\<forall>more. sc_out (emit_match input m s) @ redact_text pats (drop (sc_pos s) input @ more) = redact_text pats (input @ more))"
proof -
  let ?v = "sc_node s" and ?u = "slice input (sc_safe s) (sc_pos s)"
  have bounds: "sc_safe s \<le> sc_pos s" "sc_pos s \<le> length input" using s by (simp_all add: follows_def)
  have v: "is_secret pats ?v" "no_secret pats (butlast (seen h input s))" "suffix ?v ?u"
    and m': "m = \<lparr>pm_name = name_of pats ?v, pm_start = int (sc_pos s) - int (length ?v), pm_end = sc_pos s\<rparr>"
    using s m by (simp_all add: follows_def)
  have v_nonempty: "?v \<noteq> []" by (rule proper_nonempty [OF automatonD(1) [OF t] v(1)])
  obtain k where k: "?u = k @ ?v" using v(3) by (auto simp: suffix_def)
  have len: "length ?u = sc_pos s - sc_safe s" using bounds by (simp add: slice_def)
  then have "length k + length ?v = sc_pos s - sc_safe s" using k by simp
  then have k_len: "length k = sc_pos s - length ?v - sc_safe s" "sc_safe s + length ?v \<le> sc_pos s" using bounds v_nonempty by (auto simp: neq_Nil_conv)
  have k': "k = slice input (sc_safe s) (sc_pos s - length ?v)"
    using k k_len unfolding slice_def by (metis append_eq_conv_conj take_take min.absorb1 diff_le_mono diff_le_self)
  have out: "sc_out (emit_match input m s) = sc_out s @ k @ marker (name_of pats ?v)"
    using k_len by (auto simp: emit_match_def m' k' slice_def nat_diff_distrib)
  have "no_secret pats (butlast (k @ ?v))"
  proof -
    have "sublist (butlast ?u) (butlast (seen h input s))"
      using k v_nonempty by (auto simp: seen_def butlast_append)
    then show ?thesis using no_secret_sublist [OF v(2)] k by simp
  qed
  then have "redact_text pats (k @ ?v @ rest) = k @ marker (name_of pats ?v) @ redact_text pats rest" for rest
    by (rule redact_text_hit [OF automatonD(1) [OF t] v(1)])
  moreover have "drop (sc_safe s) input = (k @ ?v) @ drop (sc_pos s) input"
    using slice_drop [OF bounds(1)] k by metis
  moreover have "sc_out s @ redact_text pats (drop (sc_safe s) input @ more) = redact_text pats (input @ more)" for more
    using s by (simp add: follows_def)
  ultimately have "sc_out s @ (k @ marker (name_of pats ?v) @ redact_text pats (drop (sc_pos s) input @ more)) = redact_text pats (input @ more)" for more
    by (metis append.assoc)
  moreover have "0 < sc_pos s" using k_len(2) v_nonempty by (cases "sc_node s") auto
  ultimately show ?thesis by (simp add: out) (simp add: m')
qed

lemma step_follows:
  assumes t: "automaton_ok pats t" and h: "rescans pats t h" "no_secret pats h" "input = h @ c"
    and s: "follows pats t h input s" and more: "sc_pos s < length input"
  shows "follows pats t h input (scan_step t input s)"
proof (rule scan_step_cases [where P = "follows pats t h input"])
  let ?b = "input ! sc_pos s" and ?w = "seen h input s"
  have base: "sc_safe s \<le> sc_pos s" "suffix (sc_node s) ?w" "is_node t (sc_node s)"
    "\<forall>more. sc_out s @ redact_text pats (drop (sc_safe s) input @ more) = redact_text pats (input @ more)"
    using s by (simp_all add: follows_def)
  note closed = automatonD(3) [OF t]
  have free: "no_secret pats ?w"
    and max: "\<And>r. suffix r ?w \<Longrightarrow> is_node t r \<Longrightarrow> has_next t r ?b \<Longrightarrow> length r \<le> length (sc_node s)" if "sc_pending s = None"
  proof -
    show "no_secret pats ?w" using s that by (simp add: follows_def)
    fix r assume r: "suffix r ?w" "is_node t r" "has_next t r ?b"
    have "\<not> length (sc_node s) < length r" using s that r by (auto simp: follows_def)
    then show "length r \<le> length (sc_node s)" by simp
  qed
  {
    let ?node = "sc_node s @ [?b]"
    fix s' assume has: "has_next t (sc_node s) ?b" and s': "s' = s\<lparr>sc_pos := sc_pos s + 1, sc_node := ?node,
        sc_pending := (case node_output t ?node of [] \<Rightarrow> sc_pending s
          | (name, len) # _ \<Rightarrow> Some \<lparr>pm_name = name, pm_start = int (sc_pos s) - int len + 1, pm_end = sc_pos s + 1\<rparr>)\<rparr>"
    have none: "sc_pending s = None"
      using s has secret_leaf [OF t] by (cases "sc_pending s") (auto simp: follows_def)
    have w': "seen h input s' = ?w @ [?b]" using seen_snoc [OF base(1) more] by (simp add: s')
    have longest: "longest_node t (?w @ [?b]) ?node"
      by (rule longest_node_snoc [OF closed base(2) has]) (use max [OF none] in auto)
    show "follows pats t h input s'"
    proof (cases "is_secret pats ?node")
      case True
      obtain xs where "node_output t ?node = (name_of pats ?node, length ?node) # xs" using node_output_secret [OF t True] ..
      then have pending: "sc_pending s' = Some \<lparr>pm_name = name_of pats ?node, pm_start = int (sc_pos s) - int (length ?node) + 1, pm_end = sc_pos s + 1\<rparr>"
        by (simp add: s')
      have "suffix ?node (slice input (sc_safe s') (sc_pos s'))"
        by (rule seen_secret [OF t h]) (use longest True in \<open>simp_all add: w' longest_node_def\<close>)
      then show ?thesis
        using longest base more True free [OF none] by (simp add: follows_def pending w') (simp add: s' longest_node_def)
    next
      case False
      have "is_node t ?node" using longest by (simp add: longest_node_def)
      then have pending: "sc_pending s' = None" using node_output_other [OF t _ False] none by (simp add: s')
      have "no_secret pats (?w @ [?b])"
      proof (rule no_secretI)
        fix v assume v: "is_secret pats v" "sublist v (?w @ [?b])"
        then have "suffix v (?w @ [?b])" using no_secretD [OF free [OF none] v(1)] by (auto simp: sublist_snoc)
        then have "suffix v ?node" by (rule longest_node_suffix [OF longest _ secret_node [OF t v(1)]])
        then have "?node = v" using node_with_secret [OF t \<open>is_node t ?node\<close> v(1)] by simp
        then show False using False v(1) by simp
      qed
      moreover have "\<not> length ?node < length r" if "suffix r (?w @ [?b])" "is_node t r" for r
        using longest that by (simp add: longest_node_def not_less)
      moreover have "sc_node s' = ?node" "sc_safe s' = sc_safe s" "sc_pos s' = Suc (sc_pos s)" "sc_out s' = sc_out s" by (simp_all add: s')
      ultimately show ?thesis
        using longest base more unfolding follows_def pending w' longest_node_def by auto
    qed
  }
  {
    fix s' m assume m: "sc_pending s = Some m" and s': "s' = (emit_match input m s)\<lparr>sc_pos := max (sc_pos s) (pm_end m)\<rparr>"
    note emit = emit_follows [OF t s m]
    have "pm_end m = sc_pos s" using emit by simp
    then have pos: "sc_pos s' = sc_pos s" by (simp add: s')
    have safe: "sc_safe s' = sc_pos s" "0 < sc_pos s" "sc_node s' = []" "sc_pending s' = None" using emit by (simp_all add: s')
    have seen': "seen h input s' = []" using pos safe by (simp add: seen_def slice_def)
    show "follows pats t h input s'"
      using emit more no_secret_Nil [OF automatonD(1) [OF t]]
      by (simp add: follows_def safe seen' pos) (simp add: s' is_node_def)
  }
  {
    fix s' assume none: "sc_pending s = None" and no: "\<not> has_next t (sc_node s) ?b" and node: "sc_node s \<noteq> []"
      and s': "s' = s\<lparr>sc_node := (case jget (tr_fail t) (sc_node s) of None \<Rightarrow> [] | Some f \<Rightarrow> f)\<rparr>"
    have "linked t (sc_node s)" using t base(3) node by (simp add: automaton_ok_def is_node_def)
    then have "fail_right t (sc_node s)" using automatonD(2) [OF t] by (simp add: link_ok_def)
    then obtain f where f: "jget (tr_fail t) (sc_node s) = Some f" "longest_node t (tl (sc_node s)) f" by (auto simp: fail_right_Some)
    have node': "sc_node s' = f" using f(1) by (simp add: s')
    have seen': "seen h input s' = ?w" by (simp add: s' seen_def)
    have fields: "sc_safe s' = sc_safe s" "sc_pos s' = sc_pos s" "sc_out s' = sc_out s" "sc_pending s' = None" using none by (simp_all add: s')
    have "suffix f ?w" using f(2) base(2) unfolding longest_node_def by (meson suffix_order.order_trans suffix_tl)
    moreover have "\<not> has_next t r ?b" if r: "suffix r ?w" "is_node t r" "length f < length r" for r
    proof
      assume has: "has_next t r ?b"
      have "length r \<le> length (sc_node s)" by (rule max [OF none r(1,2) has])
      moreover have "length r \<noteq> length (sc_node s)" using suffix_same_length [OF r(1) base(2)] has no by auto
      ultimately have "suffix r (tl (sc_node s))" using suffix_of_node [OF base(2) r(1)] by simp
      then show False using f(2) r(2,3) by (auto simp: longest_node_def)
    qed
    ultimately show "follows pats t h input s'"
      using f(2) base more free [OF none] none fields unfolding follows_def seen' node' fields longest_node_def by auto
  }
  {
    fix s' assume none: "sc_pending s = None" and no: "\<not> has_next t (sc_node s) ?b" and node: "sc_node s = []" and s': "s' = s\<lparr>sc_pos := sc_pos s + 1\<rparr>"
    have seen': "seen h input s' = ?w @ [?b]" using seen_snoc [OF base(1) more, where n = "sc_node s" and p = "sc_pending s"] by (simp add: s')
    have longest: "longest_node t (?w @ [?b]) []"
    proof (rule longest_node_none [OF closed])
      fix r assume r: "suffix r ?w" "is_node t r"
      show "\<not> has_next t r ?b"
      proof
        assume has: "has_next t r ?b"
        then have "r = []" using max [OF none r has] node by simp
        then show False using has no node by simp
      qed
    qed
    have "no_secret pats (?w @ [?b])"
    proof (rule no_secretI)
      fix v assume v: "is_secret pats v" "sublist v (?w @ [?b])"
      then have "suffix v (?w @ [?b])" using no_secretD [OF free [OF none] v(1)] by (auto simp: sublist_snoc)
      then have "suffix v []" by (rule longest_node_suffix [OF longest _ secret_node [OF t v(1)]])
      then show False using proper_nonempty [OF automatonD(1) [OF t] v(1)] by simp
    qed
    moreover have "\<not> length ([] :: string) < length r" if "suffix r (?w @ [?b])" "is_node t r" for r
      using longest that by (simp add: longest_node_def)
    moreover have fields: "sc_safe s' = sc_safe s" "sc_pos s' = Suc (sc_pos s)" "sc_out s' = sc_out s" "sc_pending s' = None" "sc_node s' = []"
      using none node by (simp_all add: s')
    ultimately show "follows pats t h input s'"
      using base more node unfolding follows_def seen' fields by auto
  }
qed

lemma scan_follows:
  assumes t: "automaton_ok pats t" and h: "rescans pats t h" "no_secret pats h" "is_node t h" "input = h @ c"
  shows "\<exists>s. scan_input t h input = Some s \<and> follows pats t h input s \<and> sc_pos s = length input"
proof -
  have "\<exists>s. scan_input t h input = Some s \<and> follows pats t h input s \<and> length input \<le> sc_pos s"
  proof (rule scan_input_rule [OF automatonD(4) [OF t]])
    have "r = h \<or> length r < length h" if "suffix r h" for r
      using that suffix_length_le [OF that] suffix_same_length [OF that suffix_order.order_refl] by linarith
    then show "follows pats t h input \<lparr>sc_pos = 0, sc_node = h, sc_pending = None, sc_safe = 0, sc_out = []\<rparr>"
      using h(2,3) by (fastforce simp: follows_def seen_def slice_def)
    show "follows pats t h input (scan_step t input s)" if "follows pats t h input s" "sc_pos s < length input" for s
      by (rule step_follows [OF t h(1,2,4) that])
  qed
  then show ?thesis by (auto simp: follows_def)
qed

section \<open>Chunks\<close>

text \<open>Between two chunks the state is the hold-back: a path of the trie with no secret in it.\<close>

definition stream_ok :: "secret_entry list \<Rightarrow> trie \<Rightarrow> redactor \<Rightarrow> bool" where
  "stream_ok pats t r = (rd_node r = rd_hold r \<and> is_node t (rd_hold r) \<and> no_secret pats (rd_hold r))"

lemma close_follows:
  assumes t: "automaton_ok pats t" and h: "rescans pats t h" "no_secret pats h" "input = h @ c"
    and s: "follows pats t h input s" "sc_pos s = length input"
  defines "r \<equiv> snd (close_chunk t input s)"
  shows "stream_ok pats t r \<and> fst (close_chunk t input s) @ redact_text pats (rd_hold r @ rest) = redact_text pats (input @ rest)"
proof (cases "sc_pending s")
  case (Some m)
  have "next_nodes t (sc_node s) = []" using s(1) Some secret_leaf(2) [OF t] by (simp add: follows_def)
  then have close: "close_chunk t input s = (sc_out (emit_match input m s), \<lparr>rd_node = [], rd_hold = []\<rparr>)"
    using Some emit_follows [OF t s(1) Some] s(2) by (simp add: close_chunk_def Let_def)
  show ?thesis
    using emit_follows [OF t s(1) Some] s(2) no_secret_Nil [OF automatonD(1) [OF t]]
    by (simp add: r_def close stream_ok_def is_node_def)
next
  case None
  let ?n = "sc_node s" and ?a = "length input - length (sc_node s)"
  have n: "is_node t ?n" "no_secret pats (seen h input s)" "suffix ?n (seen h input s)" "sc_safe s \<le> length input"
    using s None by (simp_all add: follows_def)
  have longest: "\<not> (suffix z (seen h input s) \<and> is_node t z \<and> length ?n < length z)" for z
    using s None by (auto simp: follows_def)
  have "suffix ?n (slice input (sc_safe s) (length input))"
    using seen_secret [OF t h n(3,1)] s(2) h(3) by simp
  then have ends: "suffix ?n (drop (sc_safe s) input)" by (simp add: slice_def)
  then have len: "length ?n \<le> length input - sc_safe s" by (auto dest: suffix_length_le)
  have a: "sc_safe s \<le> ?a" "?a \<le> length input" using len n(4) by auto
  have "suffix ?n input" using ends by (meson suffix_drop suffix_order.order_trans)
  then have hold: "drop ?a input = ?n" by (auto simp: suffix_def)
  let ?k = "slice input (sc_safe s) ?a"
  have u: "drop (sc_safe s) input = ?k @ ?n" using slice_drop [OF a(1)] hold by metis
  have u_seen: "suffix (?k @ ?n) (seen h input s)" using u s(2) by (simp add: seen_def slice_def suffix_def)
  have close: "close_chunk t input s = (sc_out s @ ?k, \<lparr>rd_node = ?n, rd_hold = ?n\<rparr>)"
  proof -
    have "nat (int (length input) - int (length ?n)) = ?a" "(int (sc_safe s) < int (length input) - int (length ?n)) = (sc_safe s < ?a)"
      "max (int (sc_safe s)) (int (length input) - int (length ?n)) = int (length input) - int (length ?n)"
      using len n(4) by auto
    then show ?thesis
      using None hold a by (auto simp: close_chunk_def Let_def slice_def)
  qed
  have "redact_text pats (?k @ ?n @ rest) = ?k @ redact_text pats (?n @ rest)"
  proof (rule redact_text_skip, rule notI)
    fix j v assume j: "j < length ?k" and v: "is_secret pats v" and at: "prefix v (drop j (?k @ ?n @ rest))"
    show False
    proof (rule start_cases [OF at j])
      assume "prefix v (drop j (?k @ ?n))"
      then have "sublist v (?k @ ?n)" by (meson prefix_imp_sublist sublist_drop sublist_order.order_trans)
      then show False using no_secretD [OF n(2) v] u_seen by (meson suffix_imp_sublist sublist_order.order_trans)
    next
      fix z assume z: "z \<noteq> []" "suffix z ?k" "prefix (z @ ?n) v"
      have "is_node t (z @ ?n)" by (rule node_prefix [OF t secret_node [OF t v] z(3)])
      moreover have "suffix (z @ ?n) (?k @ ?n)" using z(2) by (auto simp: suffix_def)
      then have "suffix (z @ ?n) (seen h input s)" using u_seen by (rule suffix_order.order_trans)
      ultimately show False using longest [of "z @ ?n"] z(1) by simp
    qed
  qed
  moreover have "sc_out s @ redact_text pats (drop (sc_safe s) input @ rest) = redact_text pats (input @ rest)"
    using s(1) by (simp add: follows_def)
  moreover have "no_secret pats ?n" using no_secret_sublist [OF n(2) suffix_imp_sublist [OF n(3)]] .
  ultimately show ?thesis using n(1) by (simp add: r_def close stream_ok_def u)
qed

lemma process_follows:
  assumes t: "automaton_ok pats t" and r: "stream_ok pats t r" "rescans pats t (rd_hold r)" and chunk: "chunk \<noteq> []"
  shows "\<exists>out r'. process_chunk t True chunk r = Some (out, r') \<and> stream_ok pats t r'
    \<and> (\<forall>more. out @ redact_text pats (rd_hold r' @ more) = redact_text pats (rd_hold r @ chunk @ more))"
proof -
  let ?h = "rd_hold r" and ?input = "rd_hold r @ chunk"
  have h: "no_secret pats ?h" "is_node t ?h" "rd_node r = ?h" using r(1) by (simp_all add: stream_ok_def)
  obtain s where s: "scan_input t ?h ?input = Some s" "follows pats t ?h ?input s" "sc_pos s = length ?input"
    using scan_follows [OF t r(2) h(1,2) refl] by blast
  note close = close_follows [OF t r(2) h(1) refl s(2,3)]
  show ?thesis
    using s(1) chunk h(3) close by (cases "close_chunk t ?input s") (auto simp: process_chunk_def)
qed

lemma flush_follows:
  assumes t: "automaton_ok pats t" and r: "stream_ok pats t r"
  shows "\<exists>r'. flush_stream t r = Some (rd_hold r, r')"
proof (cases "rd_hold r = []")
  case True
  then show ?thesis by (simp add: flush_stream_def)
next
  case False
  let ?h = "rd_hold r"
  have h: "no_secret pats ?h" using r by (simp add: stream_ok_def)
  note pats = automatonD(1) [OF t]
  obtain s where s: "scan_input t [] ?h = Some s" "follows pats t [] ?h s"
    using scan_follows [OF t rescans_Nil no_secret_Nil [OF pats] _ append_Nil [symmetric], of ?h] by (auto simp: is_node_def)
  have none: "sc_pending s = None"
  proof (cases "sc_pending s")
    case (Some m)
    then have v: "is_secret pats (sc_node s)" "suffix (sc_node s) (slice ?h (sc_safe s) (sc_pos s))" using s(2) by (simp_all add: follows_def)
    have "sublist (slice ?h (sc_safe s) (sc_pos s)) ?h"
      unfolding slice_def by (meson sublist_drop sublist_order.order_trans sublist_take)
    then show ?thesis using no_secretD [OF h v(1)] v(2) by (meson suffix_imp_sublist sublist_order.order_trans)
  qed simp
  have "sc_out s @ redact_text pats (drop (sc_safe s) ?h) = redact_text pats ?h"
    using s(2) unfolding follows_def by (metis append_Nil2)
  then have "sc_out s @ drop (sc_safe s) ?h = ?h"
    using redact_text_none [OF h] redact_text_none [OF no_secret_sublist [OF h sublist_drop]] by simp
  then show ?thesis using False s(1) none by (simp add: flush_stream_def)
qed

lemma chunks_follow:
  assumes t: "automaton_ok pats t" and safe: "rescan_safe pats"
  shows "stream_ok pats t r \<Longrightarrow> \<forall>c \<in> set cs. c \<noteq> []
    \<Longrightarrow> \<exists>r'. redact_chunks t True cs r = Some (redact_text pats (rd_hold r @ concat cs), r')"
proof (induction cs arbitrary: r)
  case Nil
  then have "no_secret pats (rd_hold r)" by (simp add: stream_ok_def)
  then show ?case using flush_follows [OF t Nil.prems(1)] by (simp add: redact_text_none)
next
  case (Cons c cs)
  have c: "c \<noteq> []" using Cons.prems(2) by simp
  have "rescans pats t (rd_hold r)"
  proof (rule rescan_safe_node [OF t safe])
    show "is_node t (rd_hold r)" using Cons.prems(1) by (simp add: stream_ok_def)
    show "\<not> is_secret pats (rd_hold r)" using Cons.prems(1) no_secretD [of pats "rd_hold r" "rd_hold r"] by (auto simp: stream_ok_def)
  qed
  then obtain out r' where one: "process_chunk t True c r = Some (out, r')" "stream_ok pats t r'"
      "\<And>more. out @ redact_text pats (rd_hold r' @ more) = redact_text pats (rd_hold r @ c @ more)"
    using process_follows [OF t Cons.prems(1) _ c] by blast
  obtain r'' where rest: "redact_chunks t True cs r' = Some (redact_text pats (rd_hold r' @ concat cs), r'')"
    using Cons.IH [OF one(2)] Cons.prems(2) by auto
  show ?case using one(1) rest one(3) [of "concat cs"] by simp
qed

lemma new_stream_ok: "automaton_ok pats t \<Longrightarrow> stream_ok pats t new_redactor"
  using no_secret_Nil [OF automatonD(1)] by (simp add: stream_ok_def new_redactor_def is_node_def)

lemma one_chunk_follows:
  assumes t: "automaton_ok pats t" and chunk: "chunk \<noteq> []"
  shows "\<exists>r'. redact_chunks t True [chunk] new_redactor = Some (redact_text pats chunk, r')"
proof -
  have hold: "rd_hold new_redactor = []" by (simp add: new_redactor_def)
  obtain out r' where one: "process_chunk t True chunk new_redactor = Some (out, r')" "stream_ok pats t r'"
      "\<And>more. out @ redact_text pats (rd_hold r' @ more) = redact_text pats (chunk @ more)"
    using process_follows [OF t new_stream_ok [OF t] _ chunk] unfolding hold append_Nil by (metis rescans_Nil)
  obtain r'' where flush: "flush_stream t r' = Some (rd_hold r', r'')" using flush_follows [OF t one(2)] by blast
  have "no_secret pats (rd_hold r')" using one(2) by (simp add: stream_ok_def)
  then have "out @ rd_hold r' = redact_text pats chunk" using one(3) [of "[]"] by (simp add: redact_text_none)
  then show ?thesis using one(1) flush by simp
qed

lemma build_trie_automaton: "infix_free (redactor_patterns secrets) \<Longrightarrow> automaton_ok (redactor_patterns secrets) (build_trie secrets)"
  using build_trie_ok [of secrets] build_trie_output [of secrets] by (simp add: automaton_ok_def proper_patterns_def redactor_patterns_set)

text \<open>Without patterns nothing is scanned.\<close>

lemma inactive_chunks: "rd_hold r = [] \<Longrightarrow> \<exists>r'. redact_chunks t False cs r = Some (concat cs, r')"
proof (induction cs arbitrary: r)
  case (Cons c cs)
  obtain r' where "redact_chunks t False cs (r\<lparr>rd_hold := []\<rparr>) = Some (concat cs, r')"
    using Cons.IH [of "r\<lparr>rd_hold := []\<rparr>"] by auto
  then show ?case using Cons.prems by (simp add: process_chunk_def)
qed (simp add: flush_stream_def)

lemma redact_text_nil_patterns: "redact_text [] w = w"
proof (induction w)
  case (Cons b w)
  then show ?case by (simp add: redact_text.simps [of "[]" "b # w"] first_secret_def)
qed simp

end
