(* ===== verification/RedactorTheorems.thy ===== *)
theory RedactorTheorems
  imports RedactorStream
begin

text \<open>What the output redactor guarantees, and the values and chunks at which it lets a secret through.\<close>

section \<open>One-shot redaction\<close>

text \<open>A marker is a bracketed text, so a string without brackets never reaches across its edge.\<close>

definition bracket_free :: "string \<Rightarrow> bool" where
  "bracket_free w = (CHR ''['' \<notin> set w \<and> CHR '']'' \<notin> set w)"

lemma prefix_marker: "bracket_free w \<Longrightarrow> prefix w (marker n @ rest) \<Longrightarrow> w = []"
  by (cases w) (auto simp: bracket_free_def marker_def)

lemma suffix_marker: "bracket_free w \<Longrightarrow> suffix w (marker n) \<Longrightarrow> w = []"
  by (cases w rule: rev_cases) (auto simp: bracket_free_def marker_def suffix_Cons)

lemma bracket_free_append: "bracket_free (x @ y) \<longleftrightarrow> bracket_free x \<and> bracket_free y"
  by (auto simp: bracket_free_def)

lemma sublist_marker: "bracket_free w \<Longrightarrow> sublist w (marker n @ rest) \<Longrightarrow> sublist w (marker n) \<or> sublist w rest"
proof (unfold sublist_append, elim disjE exE conjE)
  fix x y assume w: "bracket_free w" "w = x @ y" "suffix x (marker n)" "prefix y rest"
  then have "x = []" using suffix_marker [of x n] by (simp add: bracket_free_append)
  then show "sublist w (marker n) \<or> sublist w rest" using w by simp
qed simp_all

lemma starts_with_prefix: "starts_with p xs = prefix p xs"
  by (induction p xs rule: starts_with.induct) auto

lemma str_includes_sublist: "str_includes p xs = sublist p xs"
  by (induction p xs rule: str_includes.induct) (simp_all add: starts_with_prefix sublist_Cons_right)

lemma replace_all_Nil: "replace_all v m [] = []"
  by (simp add: replace_all.simps)

lemma replace_all_hit: "v \<noteq> [] \<Longrightarrow> replace_all v m (v @ w) = m @ replace_all v m w"
  by (simp add: replace_all.simps [of v m "v @ w"] starts_with_prefix)

lemma replace_all_keep: "v \<noteq> [] \<Longrightarrow> \<not> prefix v (b # w) \<Longrightarrow> replace_all v m (b # w) = b # replace_all v m w"
  by (simp add: replace_all.simps [of v m "b # w"] starts_with_prefix)

lemma replace_induct [case_names nothing hit keep]:
  assumes v: "v \<noteq> []" and "P []" "\<And>w. P w \<Longrightarrow> P (v @ w)" "\<And>b w. \<not> prefix v (b # w) \<Longrightarrow> P w \<Longrightarrow> P (b # w)"
  shows "P w"
proof (induction w rule: length_induct)
  case (1 w)
  show ?case
  proof (cases "prefix v w")
    case True
    then obtain z where "w = v @ z" by (auto simp: prefix_def)
    then show ?thesis using 1 v assms(3) by auto
  next
    case False
    then show ?thesis using 1 assms(2,4) by (cases w) auto
  qed
qed

lemmas replace_all_cases = replace_all_Nil replace_all_hit replace_all_keep

lemma replace_all_prefix:
  assumes v: "v \<noteq> []"
  shows "bracket_free u \<Longrightarrow> prefix u (replace_all v (marker n) w) \<Longrightarrow> prefix u w"
proof (induction w arbitrary: u rule: replace_induct [OF v, case_names nothing hit keep])
  case (hit w)
  then have "u = []" using prefix_marker [of u n "replace_all v (marker n) w"] by (simp add: replace_all_hit v)
  then show ?case by simp
next
  case (keep b w)
  then show ?case by (cases u) (auto simp: v replace_all_keep bracket_free_def)
qed (simp add: replace_all_Nil)

lemma replace_all_sublist:
  assumes v: "v \<noteq> []"
  shows "bracket_free u \<Longrightarrow> \<not> sublist u (marker n) \<Longrightarrow> sublist u (replace_all v (marker n) w) \<Longrightarrow> sublist u w"
proof (induction w rule: replace_induct [OF v, case_names nothing hit keep])
  case (hit w)
  then have "sublist u (replace_all v (marker n) w)" using sublist_marker [of u n] by (simp add: v replace_all_hit)
  then show ?case using hit by (simp add: sublist_append)
next
  case (keep b w)
  from keep.prems(3) keep.hyps have "prefix u (replace_all v (marker n) (b # w)) \<or> sublist u (replace_all v (marker n) w)"
    by (simp add: v replace_all_keep sublist_Cons_right)
  then show ?case
    using v keep.IH keep.prems replace_all_prefix [of v u n "b # w"] by (auto simp: sublist_Cons_right)
qed (simp add: replace_all_Nil)

lemma replace_all_gone:
  assumes v: "v \<noteq> []"
  shows "bracket_free v \<Longrightarrow> \<not> sublist v (marker n) \<Longrightarrow> \<not> sublist v (replace_all v (marker n) w)"
proof (induction w rule: replace_induct [OF v, case_names nothing hit keep])
  case (hit w)
  then show ?case using sublist_marker [of v n] by (auto simp: v replace_all_hit)
next
  case (keep b w)
  then show ?case
    using v replace_all_prefix [of v v n "b # w"] by (auto simp: v replace_all_keep sublist_Cons_right)
qed (simp add: v replace_all_Nil)

definition markers_apart :: "secret_entry list \<Rightarrow> bool" where
  "markers_apart pats = list_all (\<lambda>s. bracket_free (se_value s) \<and> list_all (\<lambda>q. \<not> str_includes (se_value s) (marker (se_name q))) pats) pats"

lemma sanitize_fold:
  assumes "markers_apart pats" "\<And>s. s \<in> set pats \<Longrightarrow> se_value s \<noteq> []"
  shows "set todo \<subseteq> set pats \<Longrightarrow> done \<subseteq> set pats \<Longrightarrow> \<forall>s \<in> done. \<not> sublist (se_value s) w
    \<Longrightarrow> \<forall>s \<in> done \<union> set todo. \<not> sublist (se_value s)
      (fold (\<lambda>s result. if str_includes (se_value s) result then replace_all (se_value s) (marker (se_name s)) result else result) todo w)"
proof (induction todo arbitrary: "done" w)
  case (Cons q todo)
  let ?w = "if str_includes (se_value q) w then replace_all (se_value q) (marker (se_name q)) w else w"
  have apart: "bracket_free (se_value s)" "\<not> sublist (se_value s) (marker (se_name q))" "se_value s \<noteq> []" if "s \<in> set pats" for s
    using assms that Cons.prems(1) by (auto simp: markers_apart_def list_all_iff str_includes_sublist)
  have q: "q \<in> set pats" using Cons.prems(1) by simp
  have "\<not> sublist (se_value s) ?w" if s: "s \<in> insert q done" for s
  proof (cases "s = q")
    case True
    then show ?thesis using replace_all_gone apart [OF q] by (simp add: str_includes_sublist)
  next
    case False
    then have "s \<in> set pats" "\<not> sublist (se_value s) w" using s Cons.prems(2,3) by auto
    then show ?thesis using replace_all_sublist [OF apart(3) [OF q] apart(1,2)] by auto
  qed
  then show ?case
    using Cons.IH [of "insert q done" ?w] Cons.prems(1,2) q by simp
qed simp

lemma sanitize_string_clean:
  assumes "markers_apart (redactor_patterns secrets)" "s \<in> set (redactor_patterns secrets)"
  shows "\<not> sublist (se_value s) (sanitize_string secrets w)"
  using sanitize_fold [OF assms(1), of "redactor_patterns secrets" "{}" w] assms(2)
  by (simp add: sanitize_string_def redactor_patterns_set)

fun json_strings :: "json \<Rightarrow> string list" where
  "json_strings (JStr s) = [s]"
| "json_strings (JArr xs) = concat (map json_strings xs)"
| "json_strings (JObj ob) = concat (map (\<lambda>p. json_strings (snd p)) ob)"
| "json_strings v = []"

text \<open> The redacted object has no secret left in any of its strings: when no value has a bracket in it and no
  marker spells a value, every string of the result is free of every non-empty secret, for any number of secrets,
  whether they overlap or lie inside one another. Keys are not part of this: they are not redacted.\<close>
theorem sanitized_strings_clean:
  assumes "markers_apart (redactor_patterns secrets)" and s: "s \<in> set secrets" "se_value s \<noteq> []"
  shows "w \<in> set (json_strings (sanitize_json secrets v)) \<Longrightarrow> \<not> str_includes (se_value s) w"
  unfolding str_includes_sublist
proof (induction v rule: json_strings.induct)
  case (1 x)
  then show ?case using sanitize_string_clean [OF assms(1)] s by (auto simp: redactor_patterns_set)
qed auto

section \<open>The automaton\<close>

text \<open> The automaton is right: its paths are the non-empty prefixes of the patterns, each node's fail link leads
  to the longest proper suffix of its path that is a path itself (or to the root), and its output lists exactly the
  patterns that end there.\<close>
theorem automaton_links_right:
  assumes "p \<in> set (tr_paths (build_trie secrets))"
  shows "(\<exists>s \<in> set secrets. prefix p (se_value s))
    \<and> (\<exists>f. jget (tr_fail (build_trie secrets)) p = Some f \<and> suffix f (tl p) \<and> (f = [] \<or> f \<in> set (tr_paths (build_trie secrets)))
        \<and> (\<forall>r \<in> set (tr_paths (build_trie secrets)). suffix r (tl p) \<longrightarrow> length r \<le> length f))
    \<and> set (node_output (build_trie secrets) p) = {(se_name s, length (se_value s)) | s. s \<in> set secrets \<and> se_value s \<noteq> [] \<and> suffix (se_value s) p}"
proof -
  have ok: "link_ok (redactor_patterns secrets) (build_trie secrets)" and "linked (build_trie secrets) p"
    using build_trie_ok [of secrets] assms by auto
  then have node: "fail_right (build_trie secrets) p" "set (node_output (build_trie secrets) p) = matches_of (redactor_patterns secrets) p"
    "p \<in> pattern_paths (redactor_patterns secrets)"
    using assms unfolding link_ok_def by blast+
  show ?thesis
    using node(1,3) unfolding node(2) fail_right_Some longest_node_def is_node_def
    by (auto simp: matches_of_def pattern_paths_def redactor_patterns_set)
qed

section \<open>The stream\<close>

text \<open> C27: A redaction ends, for any secrets and any chunks, and only replaces: the output is the chunks one after
  the other with non-empty pieces replaced by markers of known secrets. Nothing else is lost, doubled or reordered.\<close>
theorem redaction_ends: "\<exists>out. redact_output secrets chunks = Some out \<and> redacts (se_name ` set secrets) (concat chunks) out"
  using redact_chunks_ok [OF build_trie_short build_trie_names, where active = "redactor_active secrets" and cs = chunks and r = new_redactor]
  by (auto simp: redact_output_def new_redactor_def)

text \<open> C28: In one chunk, secrets of which none lies inside another are redacted from left to right: every
  occurrence that does not overlap an earlier one is replaced by its marker, and everything else is put out as it is.\<close>
theorem one_chunk_redacted:
  assumes "infix_free (redactor_patterns secrets)"
  shows "redact_output secrets [chunk] = Some (redact_text (redactor_patterns secrets) chunk)"
proof (cases "redactor_active secrets \<and> chunk \<noteq> []")
  case True
  then show ?thesis
    using one_chunk_follows [OF build_trie_automaton [OF assms]] by (fastforce simp: redact_output_def)
next
  case False
  then show ?thesis
    by (auto simp: redact_output_def redactor_active_def process_chunk_def new_redactor_def flush_stream_def redact_text_nil_patterns)
qed

text \<open> C29: A secret cut by chunk borders is still redacted: if moreover no secret begins with \<open>s @ h\<close>, and none is
  \<open>s\<close> followed by a prefix of \<open>h\<close>, where \<open>s\<close> is a suffix of one of its proper prefixes \<open>h\<close>, then any split into
  non-empty chunks gives the output of the whole, every secret replaced.\<close>
theorem split_redacted:
  assumes "infix_free (redactor_patterns secrets)" "rescan_safe (redactor_patterns secrets)" and chunks: "\<forall>c \<in> set chunks. c \<noteq> []"
  shows "redact_output secrets chunks = Some (redact_text (redactor_patterns secrets) (concat chunks))"
proof (cases "redactor_active secrets")
  case True
  have t: "automaton_ok (redactor_patterns secrets) (build_trie secrets)" by (rule build_trie_automaton [OF assms(1)])
  show ?thesis
    using chunks_follow [OF t assms(2) new_stream_ok [OF t] chunks] True by (auto simp: redact_output_def new_redactor_def)
next
  case False
  then show ?thesis
    using inactive_chunks [of new_redactor "build_trie secrets" chunks]
    by (auto simp: redact_output_def redactor_active_def new_redactor_def redact_text_nil_patterns)
qed

text \<open> Where the conditions fail, secrets come through. In one chunk: a partial match beyond a pending one is
  dropped with the state, so the secret \<open>cdY\<close> that began in it is put out. Over two chunks: the hold-back is
  scanned again from the state it led to, so \<open>000\<close> of the secret \<open>0000\<close> is put out, and an innocent \<open>ab\<close> is taken
  for the secret \<open>abab\<close>.\<close>
theorem overlaps_let_through:
  "redact_output [\<lparr>se_name = ''A'', se_value = ''ab''\<rparr>, \<lparr>se_name = ''B'', se_value = ''abcdX''\<rparr>, \<lparr>se_name = ''C'', se_value = ''cdY''\<rparr>] [''abcdY'']
     = Some (marker ''A'' @ ''cdY'')
   \<and> redact_output [\<lparr>se_name = ''A'', se_value = ''0000''\<rparr>] [''000'', ''0''] = Some (marker ''A'' @ ''000'')
   \<and> redact_output [\<lparr>se_name = ''A'', se_value = ''abab''\<rparr>] [''ab'', ''x''] = Some (marker ''A'' @ ''x'')"
  by (intro conjI; code_simp)

section \<open>Witnesses\<close>

definition sample_secrets :: "secret_entry list" where
  "sample_secrets = [\<lparr>se_name = ''A'', se_value = ''abc''\<rparr>, \<lparr>se_name = ''B'', se_value = ''bd''\<rparr>]"

theorem automaton_links_right_witness:
  "(\<exists>f. jget (tr_fail (build_trie sample_secrets)) ''ab'' = Some f \<and> suffix f ''b'')"
proof -
  have "''ab'' \<in> set (tr_paths (build_trie sample_secrets))" by code_simp
  from automaton_links_right [OF this] show ?thesis by auto
qed

theorem one_chunk_redacted_witness: "redact_output sample_secrets [''xabcbd''] = Some ''x[REDACTED_SECRET: A][REDACTED_SECRET: B]''"
proof -
  have "infix_free (redactor_patterns sample_secrets)" by code_simp
  from one_chunk_redacted [OF this, of "''xabcbd''"] show ?thesis
    by (simp add: sample_secrets_def) code_simp
qed

theorem split_redacted_witness: "redact_output sample_secrets [''xa'', ''b'', ''cb'', ''d''] = Some ''x[REDACTED_SECRET: A][REDACTED_SECRET: B]''"
proof -
  have pats: "infix_free (redactor_patterns sample_secrets)" "rescan_safe (redactor_patterns sample_secrets)" by code_simp+
  have whole: "redact_text (redactor_patterns sample_secrets) (concat [''xa'', ''b'', ''cb'', ''d'']) = ''x[REDACTED_SECRET: A][REDACTED_SECRET: B]''"
    by code_simp
  show ?thesis unfolding whole [symmetric] by (rule split_redacted [OF pats]) simp
qed

theorem sanitized_strings_clean_witness: "\<not> str_includes ''abc'' (sanitize_string sample_secrets ''xabcabd'')"
proof -
  have "markers_apart (redactor_patterns sample_secrets)" by code_simp
  from sanitized_strings_clean [OF this, of "\<lparr>se_name = ''A'', se_value = ''abc''\<rparr>" "sanitize_string sample_secrets ''xabcabd''" "JStr ''xabcabd''"]
  show ?thesis by (simp add: sample_secrets_def)
qed

end
