(* ===== verification/AgentTables.thy ===== *)
theory AgentTables
  imports EventStore
begin

text \<open>
  The runner's agent state: \<open>AgentStateRepository\<close> of \<open>apps/runner/src/agent-state-repository.ts\<close>. This theory holds
  its tables and the queries the operations share. A table is the list of its rows in rowid order, or a map from its
  primary key; a statement that violates a constraint throws, and a transaction that throws leaves the
  database as it was. The tables of other services in the same database are the field \<open>db_other\<close>.
\<close>

section \<open>Statuses\<close>

datatype agent_status = Spawning | Running | Cancelling | Succeeded | Failed | Cancelled | TimedOut | LimitExceeded | Interrupted

definition status_text :: "agent_status \<Rightarrow> string" where
  "status_text s = (case s of Spawning \<Rightarrow> ''SPAWNING'' | Running \<Rightarrow> ''RUNNING'' | Cancelling \<Rightarrow> ''CANCELLING''
     | Succeeded \<Rightarrow> ''SUCCEEDED'' | Failed \<Rightarrow> ''FAILED'' | Cancelled \<Rightarrow> ''CANCELLED'' | TimedOut \<Rightarrow> ''TIMED_OUT''
     | LimitExceeded \<Rightarrow> ''LIMIT_EXCEEDED'' | Interrupted \<Rightarrow> ''INTERRUPTED'')"

definition active_statuses :: "agent_status list" where
  "active_statuses = [Spawning, Running, Cancelling]"

definition terminal_statuses :: "agent_status list" where
  "terminal_statuses = [Succeeded, Failed, Cancelled, TimedOut, LimitExceeded, Interrupted]"

definition status_transitions :: "agent_status \<Rightarrow> agent_status list" where
  "status_transitions s = (case s of
      Spawning \<Rightarrow> [Running, Cancelling, Failed, Cancelled, TimedOut, LimitExceeded, Interrupted]
    | Running \<Rightarrow> [Cancelling]
    | Cancelling \<Rightarrow> [Succeeded, Failed, Cancelled, TimedOut, LimitExceeded, Interrupted]
    | _ \<Rightarrow> [])"

section \<open>Rows\<close>

datatype agent_runtime = PiCoding | PiDurable

record agent_budget =
  ab_ttl :: int
  ab_output :: int
  ab_input_tokens :: int
  ab_output_tokens :: int
  ab_cost :: int

record agent_rec =
  ar_rowid :: int
  ar_id :: string
  ar_owner :: string
  ar_workspace :: string
  ar_ws_gen :: int
  ar_parent :: "string option"
  ar_parent_gen :: "int option"
  ar_key :: string
  ar_payload :: string
  ar_prompt :: string
  ar_profile :: string
  ar_ops :: "string list"
  ar_budget :: agent_budget
  ar_container :: string
  ar_network :: string
  ar_lease :: string
  ar_status :: agent_status
  ar_gen :: int
  ar_epoch :: int
  ar_spawn_open :: bool
  ar_message_open :: bool
  ar_created :: int
  ar_started :: "int option"
  ar_terminal :: "int option"
  ar_expires :: int
  ar_reason :: "string option"
  ar_cleanup :: "string option"
  ar_unknown :: bool
  ar_runtime :: agent_runtime

record space_row =
  sp_owner :: string
  sp_id :: string
  sp_gen :: int
  sp_status :: string
  sp_network :: string
  sp_expires :: int
  sp_activity :: int

record workspace_admission =
  wa_gen :: int
  wa_spawn :: bool
  wa_message :: bool
  wa_lifetime :: int
  wa_updated :: int

record usage_row =
  ug_input :: int
  ug_output :: int
  ug_cost :: int
  ug_bytes :: int
  ug_events :: int
  ug_tool_ms :: int
  ug_wall_ms :: int

datatype message_mode = Steer | FollowUp

datatype message_state = MessageReserved | MessageSent | MessageRejected | MessageUnknown

record message_row =
  mg_owner :: string
  mg_workspace :: string
  mg_agent :: string
  mg_gen :: int
  mg_epoch :: int
  mg_key :: string
  mg_payload :: string
  mg_mode :: message_mode
  mg_state :: message_state
  mg_created :: int
  mg_updated :: int
  mg_error :: "string option"

datatype effect_state = EffectIntent | EffectDispatched | EffectApplied | EffectRejected | EffectUnknown

record effect_row =
  ef_owner :: string
  ef_workspace :: string
  ef_agent :: string
  ef_gen :: int
  ef_epoch :: int
  ef_root :: string
  ef_request :: string
  ef_kind :: string
  ef_payload :: string
  ef_state :: effect_state
  ef_class :: "string option"
  ef_pre :: "string option"
  ef_intended :: "string option"
  ef_entry :: "string option"
  ef_result :: "string option"
  ef_bytes :: "int option"
  ef_sha :: "string option"
  ef_reconciled :: bool
  ef_executor :: "int option"
  ef_ws_gen :: "int option"
  ef_retain :: "int option"
  ef_created :: int
  ef_updated :: int

datatype session_state = SessionActive | SessionSealed | SessionPurged

record session_row =
  sr_agent :: string
  sr_owner :: string
  sr_workspace :: string
  sr_ws_gen :: int
  sr_root :: string
  sr_from :: "string option"
  sr_count :: int
  sr_bytes :: int
  sr_head :: string
  sr_state :: session_state
  sr_continuable :: bool
  sr_retain :: "int option"
  sr_resumable :: bool
  sr_created :: int
  sr_updated :: int

record session_message =
  sm_agent :: string
  sm_gen :: int
  sm_seq :: int
  sm_role :: string
  sm_json :: string
  sm_bytes :: int
  sm_sha :: string
  sm_created :: int

record log_mark =
  lm_base :: int
  lm_next :: int
  lm_bytes :: int
  lm_events :: int

record log_chunk =
  lc_owner :: string
  lc_workspace :: string
  lc_agent :: string
  lc_gen :: int
  lc_start :: int
  lc_end :: int
  lc_created :: int
  lc_type :: string
  lc_content :: string
  lc_length :: int

record tombstone =
  tb_owner :: string
  tb_workspace :: string
  tb_agent :: string
  tb_key :: string
  tb_payload :: string
  tb_status :: agent_status
  tb_gen :: int
  tb_created :: int
  tb_expires :: int

record retry_row =
  rt_attempts :: int
  rt_next :: int
  rt_error :: string
  rt_updated :: int

text \<open>The key of the tables kept per agent run: owner, workspace, agent and generation.\<close>

type_synonym agent_key = "string \<times> string \<times> string \<times> int"

record 'x agent_db =
  db_epochs :: "(string, int) jmap"
  db_spaces :: "space_row list"
  db_admissions :: "(string \<times> string, workspace_admission) jmap"
  db_agents :: "agent_rec list"
  db_usage :: "(agent_key, usage_row) jmap"
  db_marks :: "(agent_key, log_mark) jmap"
  db_chunks :: "log_chunk list"
  db_messages :: "message_row list"
  db_effects :: "effect_row list"
  db_sessions :: "session_row list"
  db_session_log :: "session_message list"
  db_tombs :: "tombstone list"
  db_retries :: "(agent_key, retry_row) jmap"
  db_events :: event_db
  db_other :: 'x

section \<open>Configuration and failures\<close>

text \<open>\<open>RunnerAgentLimits\<close>, as far as the repository reads it.\<close>

record agent_limits =
  al_global_active :: int
  al_principal_active :: int
  al_workspace_active :: int
  al_parent_active :: int
  al_lifetime :: int
  al_min_ttl :: int
  al_max_ttl :: int
  al_max_output :: int
  al_log_bytes :: int
  al_log_events :: int
  al_log_event_bytes :: int
  al_global_rows :: int
  al_principal_rows :: int
  al_workspace_rows :: int
  al_global_bytes :: int
  al_principal_bytes :: int
  al_workspace_bytes :: int
  al_retries :: int
  al_retention :: int
  al_horizon :: int
  al_messages :: int
  al_session_bytes :: int
  al_session_retention :: int
  al_global_session :: int
  al_principal_session :: int
  al_workspace_session :: int
  al_receipts :: int

text \<open>
  The repository's fields, and the library functions it calls: SHA-256 in hexadecimal, the UTF-8 length,
  \<open>JSON.stringify\<close> and \<open>JSON.parse\<close>.
\<close>

record agent_config =
  ac_limits :: agent_limits
  ac_instance :: "string option"
  ac_sha :: "string \<Rightarrow> string"
  ac_utf8 :: "string \<Rightarrow> int"
  ac_text :: "json \<Rightarrow> string"
  ac_parse :: "string \<Rightarrow> json option"

datatype agent_error = Refused harness_error | ConstraintFailed | SchemaFailed | JsonFailed | TypeFailed | AdmissionThrew string

definition invalid_input :: "string \<Rightarrow> agent_error" where
  "invalid_input m = Refused (HarnessError ''INVALID_INPUT'' m 400 False)"

definition conflict :: "string \<Rightarrow> bool \<Rightarrow> agent_error" where
  "conflict m retry = Refused (HarnessError ''CONFLICT'' m 409 retry)"

definition limit_exceeded :: "string \<Rightarrow> int \<Rightarrow> bool \<Rightarrow> agent_error" where
  "limit_exceeded m status retry = Refused (HarnessError ''LIMIT_EXCEEDED'' m status retry)"

definition internal_error :: "string \<Rightarrow> agent_error" where
  "internal_error m = Refused (HarnessError ''INTERNAL_ERROR'' m 500 False)"

definition agent_not_found :: agent_error where
  "agent_not_found = Refused (HarnessError ''NOT_FOUND'' ''agent was not found in this workspace'' 404 False)"

definition not_eligible_for_agents :: agent_error where
  "not_eligible_for_agents = conflict
     ''workspace is not eligible for agent admission; subagents require a workspace opened with networkProfile \"network-none\"'' False"

text \<open>\<open>immediate\<close>: what the action wrote is kept when it returns and rolled back when it throws.\<close>

definition immediate :: "('d \<Rightarrow> ('e, 'a \<times> 'd) result) \<Rightarrow> 'd \<Rightarrow> ('e, 'a) result \<times> 'd" where
  "immediate action db = (case action db of Inl e \<Rightarrow> (Inl e, db) | Inr (a, db') \<Rightarrow> (Inr a, db'))"

section \<open>Statements\<close>

definition update_where :: "('r \<Rightarrow> bool) \<Rightarrow> ('r \<Rightarrow> 'r) \<Rightarrow> 'r list \<Rightarrow> 'r list" where
  "update_where c f rows = map (\<lambda>r. if c r then f r else r) rows"

definition count_where :: "('r \<Rightarrow> bool) \<Rightarrow> 'r list \<Rightarrow> int" where
  "count_where c rows = int (length (filter c rows))"

definition sum_where :: "('r \<Rightarrow> int) \<Rightarrow> ('r \<Rightarrow> bool) \<Rightarrow> 'r list \<Rightarrow> int" where
  "sum_where f c rows = sum_list (map f (filter c rows))"

definition in_space :: "string \<Rightarrow> string \<Rightarrow> agent_rec \<Rightarrow> bool" where
  "in_space owner ws r = (ar_owner r = owner \<and> ar_workspace r = ws)"

definition is_active :: "agent_rec \<Rightarrow> bool" where
  "is_active r = (ar_status r \<in> set active_statuses)"

definition find_agent :: "string \<Rightarrow> string \<Rightarrow> string \<Rightarrow> 'x agent_db \<Rightarrow> agent_rec option" where
  "find_agent owner ws i db = find (\<lambda>r. in_space owner ws r \<and> ar_id r = i) (db_agents db)"

definition find_agent_run :: "string \<Rightarrow> string \<Rightarrow> string \<Rightarrow> int \<Rightarrow> 'x agent_db \<Rightarrow> agent_rec option" where
  "find_agent_run owner ws i g db = find (\<lambda>r. in_space owner ws r \<and> ar_id r = i \<and> ar_gen r = g) (db_agents db)"

definition find_by_idempotency :: "string \<Rightarrow> string \<Rightarrow> string \<Rightarrow> 'x agent_db \<Rightarrow> agent_rec option" where
  "find_by_idempotency owner ws k db = find (\<lambda>r. in_space owner ws r \<and> ar_key r = k) (db_agents db)"

definition find_tombstone :: "string \<Rightarrow> string \<Rightarrow> string \<Rightarrow> int \<Rightarrow> 'x agent_db \<Rightarrow> tombstone option" where
  "find_tombstone owner ws i now db =
     find (\<lambda>t. tb_owner t = owner \<and> tb_workspace t = ws \<and> tb_agent t = i \<and> now < tb_expires t) (db_tombs db)"

definition find_tombstone_by_idempotency :: "string \<Rightarrow> string \<Rightarrow> string \<Rightarrow> int \<Rightarrow> 'x agent_db \<Rightarrow> tombstone option" where
  "find_tombstone_by_idempotency owner ws k now db =
     find (\<lambda>t. tb_owner t = owner \<and> tb_workspace t = ws \<and> tb_key t = k \<and> now < tb_expires t) (db_tombs db)"

definition find_space :: "string \<Rightarrow> string \<Rightarrow> int \<Rightarrow> 'x agent_db \<Rightarrow> space_row option" where
  "find_space owner ws g db = find (\<lambda>s. sp_owner s = owner \<and> sp_id s = ws \<and> sp_gen s = g) (db_spaces db)"

text \<open>The foreign key from the agent tables to \<open>workspaces(owner_id, id)\<close>.\<close>

definition space_exists :: "string \<Rightarrow> string \<Rightarrow> 'x agent_db \<Rightarrow> bool" where
  "space_exists owner ws db = list_ex (\<lambda>s. sp_owner s = owner \<and> sp_id s = ws) (db_spaces db)"

section \<open>Runner epochs\<close>

definition current_epoch :: "string \<Rightarrow> 'x agent_db \<Rightarrow> int" where
  "current_epoch i db = (case jget (db_epochs db) i of None \<Rightarrow> 0 | Some e \<Rightarrow> e)"

definition bump_epoch :: "string \<Rightarrow> 'x agent_db \<Rightarrow> int \<times> 'x agent_db" where
  "bump_epoch i db =
     (let db' = db\<lparr>db_epochs := jset i (case jget (db_epochs db) i of None \<Rightarrow> 1 | Some e \<Rightarrow> e + 1) (db_epochs db)\<rparr>
      in (current_epoch i db', db'))"

text \<open>\<open>this.instanceId &&\<close>: the identifier is absent or empty in a repository without epochs.\<close>

definition instance_of :: "agent_config \<Rightarrow> string option" where
  "instance_of cfg = (case ac_instance cfg of Some [] \<Rightarrow> None | i \<Rightarrow> i)"

definition epoch_lost :: "agent_config \<Rightarrow> int \<Rightarrow> 'x agent_db \<Rightarrow> bool" where
  "epoch_lost cfg e db = (case instance_of cfg of None \<Rightarrow> False | Some i \<Rightarrow> current_epoch i db \<noteq> e)"

section \<open>Sessions\<close>

definition find_session :: "string \<Rightarrow> 'x agent_db \<Rightarrow> session_row option" where
  "find_session i db = find (\<lambda>s. sr_agent s = i) (db_sessions db)"

definition find_successor :: "string \<Rightarrow> 'x agent_db \<Rightarrow> string option" where
  "find_successor i db = map_option sr_agent (find (\<lambda>s. sr_from s = Some i) (db_sessions db))"

definition records_session :: "string \<Rightarrow> 'x agent_db \<Rightarrow> bool" where
  "records_session i db = list_ex (\<lambda>s. sr_agent s = i) (db_sessions db)"

definition lineage_root :: "string \<Rightarrow> 'x agent_db \<Rightarrow> string" where
  "lineage_root i db = (case find_session i db of None \<Rightarrow> i | Some s \<Rightarrow> sr_root s)"

definition writer_fenced :: "agent_config \<Rightarrow> string \<Rightarrow> string \<Rightarrow> string \<Rightarrow> int \<Rightarrow> int \<Rightarrow> agent_status list option \<Rightarrow> 'x agent_db \<Rightarrow> bool" where
  "writer_fenced cfg owner ws i g e statuses db =
     (if epoch_lost cfg e db then True
      else (case find_agent owner ws i db of
          None \<Rightarrow> True
        | Some r \<Rightarrow>
            if (statuses \<noteq> None \<and> \<not> list_ex (\<lambda>s. sp_id s = ws \<and> sp_owner s = owner \<and> sp_status s = ''ACTIVE'' \<and> sp_gen s = ar_ws_gen r) (db_spaces db))
              \<or> ar_gen r \<noteq> g \<or> ar_epoch r \<noteq> e then True
            else if (case statuses of None \<Rightarrow> False | Some ss \<Rightarrow> ar_status r \<notin> set ss) then True
            else find_successor i db \<noteq> None))"

end
