(* ===== verification/AgentSessions.thy ===== *)
theory AgentSessions
  imports AgentTables
begin

text \<open>
  Persisted agent sessions: the message log a runner keeps of an agent, sealed when the agent ends and copied
  into the agent that continues it. Each message extends a chain of digests, and a log is verified against it
  before it is read back.
\<close>

section \<open>The chained log\<close>

definition genesis_head :: string where
  "genesis_head = replicate 64 CHR ''0''"

definition chain_head :: "agent_config \<Rightarrow> string \<Rightarrow> string \<Rightarrow> string" where
  "chain_head cfg prev digest = ac_sha cfg (prev @ digest)"

definition session_roles :: "string list" where
  "session_roles = [''user'', ''assistant'', ''toolResult'']"

definition message_role :: "json \<Rightarrow> string option" where
  "message_role v = (case v of JObj ob \<Rightarrow> (case field ob ''role'' of Some (JStr s) \<Rightarrow> Some s | _ \<Rightarrow> None) | _ \<Rightarrow> None)"

definition message_valid :: "json \<Rightarrow> int \<Rightarrow> bool" where
  "message_valid v seq = ((case message_role v of None \<Rightarrow> False | Some r \<Rightarrow> r \<in> set session_roles) \<and> is_safe seq \<and> 0 \<le> seq)"

definition log_rows :: "string \<Rightarrow> int \<Rightarrow> 'x agent_db \<Rightarrow> session_message list" where
  "log_rows i g db = order_by (\<lambda>a b. sm_seq a < sm_seq b) (filter (\<lambda>m. sm_agent m = i \<and> sm_gen m = g) (db_session_log db))"

definition corrupt_log :: agent_error where
  "corrupt_log = internal_error ''agent session log failed integrity verification''"

fun verify_log :: "agent_config \<Rightarrow> int \<Rightarrow> string \<Rightarrow> int \<Rightarrow> session_message list \<Rightarrow> (agent_error, json list \<times> string \<times> int) result" where
  "verify_log cfg n head b [] = Inr ([], head, b)"
| "verify_log cfg n head b (m # ms) =
     (let digest = ac_sha cfg (sm_json m) in
      if sm_seq m \<noteq> n \<or> sm_sha m \<noteq> digest \<or> sm_bytes m \<noteq> ac_utf8 cfg (sm_json m) then Inl corrupt_log
      else (case ac_parse cfg (sm_json m) of
          None \<Rightarrow> Inl JsonFailed
        | Some v \<Rightarrow> (case verify_log cfg (n + 1) (chain_head cfg head digest) (b + sm_bytes m) ms of
              Inl e \<Rightarrow> Inl e
            | Inr (vs, head', b') \<Rightarrow> Inr (v # vs, head', b'))))"

definition load_session_log :: "agent_config \<Rightarrow> string \<Rightarrow> int \<Rightarrow> 'x agent_db \<Rightarrow> (agent_error, json list \<times> string \<times> int) result" where
  "load_session_log cfg i g db =
     (let missing = Refused (HarnessError ''NOT_FOUND'' ''agent session was not found'' 404 False) in
      (case find_session i db of
         None \<Rightarrow> Inl missing
       | Some s \<Rightarrow> if sr_state s = SessionPurged then Inl missing
           else (let rows = log_rows i g db in
             if int (length rows) \<noteq> sr_count s then Inl corrupt_log
             else ebind (verify_log cfg 0 genesis_head 0 rows) (\<lambda>(vs, head, b).
                 if head \<noteq> sr_head s \<or> b \<noteq> sr_bytes s then Inl corrupt_log else Inr (vs, head, b)))))"

section \<open>The byte budgets\<close>

fun keep_first :: "('a \<Rightarrow> 'b) \<Rightarrow> 'a list \<Rightarrow> 'a list" where
  "keep_first f [] = []"
| "keep_first f (x # xs) = x # filter (\<lambda>y. f y \<noteq> f x) (keep_first f xs)"

text \<open>
  The durable session stores the runner measures: the bytes of each lineage and their total. Nothing is counted
  when the repository was not told of them.
\<close>

type_synonym durable_storage = "((string \<Rightarrow> int) \<times> int) option"

definition durable_roots :: "string \<Rightarrow> 'x agent_db \<Rightarrow> (string \<times> string) list" where
  "durable_roots owner db = keep_first fst (map (\<lambda>s. (sr_root s, sr_workspace s))
     (filter (\<lambda>s. sr_owner s = owner \<and> list_ex (\<lambda>r. ar_id r = sr_agent s \<and> ar_runtime r = PiDurable) (db_agents db)) (db_sessions db)))"

definition durable_usage :: "durable_storage \<Rightarrow> string \<Rightarrow> string \<Rightarrow> 'x agent_db \<Rightarrow> int \<times> int \<times> int" where
  "durable_usage du owner ws db = (case du of
      None \<Rightarrow> (0, 0, 0)
    | Some (bytes_of, tot) \<Rightarrow>
        if tot = 0 then (0, 0, 0)
        else (sum_where (\<lambda>p. bytes_of (fst p)) (\<lambda>p. snd p = ws) (durable_roots owner db),
              sum_where (\<lambda>p. bytes_of (fst p)) (\<lambda>_. True) (durable_roots owner db), tot))"

datatype session_budget_kind = WorkspaceBudget | PrincipalBudget | InstanceBudget

definition budget_text :: "session_budget_kind \<Rightarrow> string" where
  "budget_text k = (case k of WorkspaceBudget \<Rightarrow> ''workspace'' | PrincipalBudget \<Rightarrow> ''principal'' | InstanceBudget \<Rightarrow> ''instance'')"

definition exceeded_session_budget :: "agent_config \<Rightarrow> durable_storage \<Rightarrow> string \<Rightarrow> string \<Rightarrow> int \<Rightarrow> 'x agent_db \<Rightarrow> session_budget_kind option" where
  "exceeded_session_budget cfg du owner ws added db =
     (case durable_usage du owner ws db of (dw, dp, dg) \<Rightarrow>
        if al_workspace_session (ac_limits cfg)
             < sum_where sr_bytes (\<lambda>s. sr_owner s = owner \<and> sr_workspace s = ws) (db_sessions db) + dw + added then Some WorkspaceBudget
        else if al_principal_session (ac_limits cfg)
             < sum_where sr_bytes (\<lambda>s. sr_owner s = owner) (db_sessions db) + dp + added then Some PrincipalBudget
        else if al_global_session (ac_limits cfg) < sum_where sr_bytes (\<lambda>_. True) (db_sessions db) + dg + added then Some InstanceBudget
        else None)"

section \<open>Appending\<close>

datatype append_result = SessionAppended | SessionFenced | SessionIgnored | SessionDiscontinued

definition set_session :: "string \<Rightarrow> (session_row \<Rightarrow> session_row) \<Rightarrow> 'x agent_db \<Rightarrow> 'x agent_db" where
  "set_session i f db = db\<lparr>db_sessions := update_where (\<lambda>s. sr_agent s = i) f (db_sessions db)\<rparr>"

definition append_fenced :: "agent_config \<Rightarrow> string \<Rightarrow> string \<Rightarrow> string \<Rightarrow> int \<Rightarrow> int \<Rightarrow> 'x agent_db \<Rightarrow> bool" where
  "append_fenced cfg owner ws i g e db =
     (epoch_lost cfg e db
      \<or> (case find_agent owner ws i db of
           None \<Rightarrow> True
         | Some r \<Rightarrow> ar_status r \<noteq> Running \<or> ar_gen r \<noteq> g \<or> ar_epoch r \<noteq> e)
      \<or> find_successor i db \<noteq> None)"

definition append_session_message :: "agent_config \<Rightarrow> durable_storage \<Rightarrow> string \<Rightarrow> string \<Rightarrow> string \<Rightarrow> int \<Rightarrow> int \<Rightarrow> int \<Rightarrow> json \<Rightarrow> int
    \<Rightarrow> 'x agent_db \<Rightarrow> (agent_error, append_result) result \<times> 'x agent_db" where
  "append_session_message cfg du owner ws i g e seq v now = immediate (\<lambda>db.
     (let valid = message_valid v seq; txt = (if valid then ac_text cfg v else []); b = ac_utf8 cfg txt in
      if append_fenced cfg owner ws i g e db then Inr (SessionFenced, db)
      else (case find (\<lambda>s. sr_agent s = i \<and> sr_owner s = owner \<and> sr_workspace s = ws) (db_sessions db) of
          None \<Rightarrow> Inr (SessionIgnored, db)
        | Some s \<Rightarrow>
            if sr_state s \<noteq> SessionActive \<or> \<not> sr_continuable s then Inr (SessionIgnored, db)
            else if \<not> valid \<or> seq \<noteq> sr_count s \<or> al_messages (ac_limits cfg) < sr_count s + 1
                \<or> al_session_bytes (ac_limits cfg) < sr_bytes s + b \<or> exceeded_session_budget cfg du owner ws b db \<noteq> None
            then Inr (SessionDiscontinued, set_session i (\<lambda>s. s\<lparr>sr_continuable := False, sr_updated := now\<rparr>) db)
            else if list_ex (\<lambda>m. sm_agent m = i \<and> sm_gen m = g \<and> sm_seq m = seq) (db_session_log db) then Inl ConstraintFailed
            else (let digest = ac_sha cfg txt in
              Inr (SessionAppended,
                set_session i (\<lambda>x. x\<lparr>sr_count := sr_count x + 1, sr_bytes := sr_bytes x + b,
                    sr_head := chain_head cfg (sr_head s) digest, sr_updated := now\<rparr>)
                  (db\<lparr>db_session_log := db_session_log db @ [\<lparr>sm_agent = i, sm_gen = g, sm_seq = seq,
                       sm_role = (case message_role v of None \<Rightarrow> [] | Some r \<Rightarrow> r), sm_json = txt, sm_bytes = b, sm_sha = digest,
                       sm_created = now\<rparr>]\<rparr>))))))"

definition discontinue_session :: "string \<Rightarrow> int \<Rightarrow> 'x agent_db \<Rightarrow> 'x agent_db" where
  "discontinue_session i now db = db\<lparr>db_sessions :=
     update_where (\<lambda>s. sr_agent s = i \<and> sr_state s = SessionActive) (\<lambda>s. s\<lparr>sr_continuable := False, sr_updated := now\<rparr>) (db_sessions db)\<rparr>"

section \<open>Sealing and continuing\<close>

definition continuable_statuses :: "agent_status list" where
  "continuable_statuses = [Succeeded, Failed, TimedOut, LimitExceeded, Interrupted, Cancelled]"

definition seal_session :: "agent_config \<Rightarrow> string \<Rightarrow> agent_status \<Rightarrow> int \<Rightarrow> bool \<Rightarrow> 'x agent_db \<Rightarrow> 'x agent_db" where
  "seal_session cfg i status now resumable db = db\<lparr>db_sessions :=
     update_where (\<lambda>s. sr_agent s = i \<and> sr_state s = SessionActive)
       (\<lambda>s. s\<lparr>sr_state := SessionSealed, sr_continuable := (if status \<in> set continuable_statuses then sr_continuable s else False),
          sr_retain := Some (now + al_session_retention (ac_limits cfg)), sr_resumable := resumable, sr_updated := now\<rparr>)
       (db_sessions db)\<rparr>"

definition require_continuable :: "string \<Rightarrow> string \<Rightarrow> int \<Rightarrow> string \<Rightarrow> 'x agent_db \<Rightarrow> (agent_error, agent_rec \<times> session_row) result" where
  "require_continuable owner ws g i db =
     (case find_agent owner ws i db of
        None \<Rightarrow> Inl (Refused (HarnessError ''NOT_FOUND'' ''the agent to continue was not found in this workspace'' 404 False))
      | Some r \<Rightarrow>
          if ar_ws_gen r \<noteq> g
          then Inl (Refused (HarnessError ''STALE_GENERATION'' ''the agent to continue belongs to an earlier generation of this workspace'' 409 False))
          else if ar_status r \<notin> set terminal_statuses
          then Inl (conflict ''the agent to continue has not ended; wait for a terminal status or cancel it first'' True)
          else (case find_session i db of
              None \<Rightarrow> Inl (conflict ''the agent to continue has no persisted session; it was spawned while session persistence was off'' False)
            | Some s \<Rightarrow>
                if sr_owner s \<noteq> owner \<or> sr_workspace s \<noteq> ws
                then Inl (conflict ''the agent to continue has no persisted session; it was spawned while session persistence was off'' False)
                else if sr_state s = SessionPurged
                then Inl (Refused (HarnessError ''EXPIRED'' ''the persisted session of the agent to continue was purged by retention'' 410 False))
                else if sr_state s \<noteq> SessionSealed \<or> \<not> sr_continuable s
                then Inl (conflict ''the persisted session of the agent to continue is not continuable: its log is incomplete or exceeded the session bounds'' False)
                else (case find_successor i db of
                    Some j \<Rightarrow> Inl (conflict (''the agent was already continued by '' @ j @ ''; continue that agent instead'') False)
                  | None \<Rightarrow> Inr (r, s))))"

text \<open>The new session; a predecessor's log is copied into it.\<close>

definition new_session :: "string \<Rightarrow> string \<Rightarrow> string \<Rightarrow> int \<Rightarrow> int \<Rightarrow> session_row option \<Rightarrow> session_row" where
  "new_session i owner ws g now source =
     \<lparr>sr_agent = i, sr_owner = owner, sr_workspace = ws, sr_ws_gen = g,
      sr_root = (case source of None \<Rightarrow> i | Some s \<Rightarrow> sr_root s), sr_from = map_option sr_agent source,
      sr_count = (case source of None \<Rightarrow> 0 | Some s \<Rightarrow> sr_count s), sr_bytes = (case source of None \<Rightarrow> 0 | Some s \<Rightarrow> sr_bytes s),
      sr_head = (case source of None \<Rightarrow> genesis_head | Some s \<Rightarrow> sr_head s), sr_state = SessionActive, sr_continuable = True,
      sr_retain = None, sr_resumable = False, sr_created = now, sr_updated = now\<rparr>"

definition session_taken :: "session_row \<Rightarrow> 'x agent_db \<Rightarrow> bool" where
  "session_taken n db = list_ex (\<lambda>s. sr_agent s = sr_agent n \<or> (sr_from n \<noteq> None \<and> sr_from s = sr_from n)) (db_sessions db)"

definition insert_session :: "string \<Rightarrow> string \<Rightarrow> string \<Rightarrow> int \<Rightarrow> int \<Rightarrow> (agent_rec \<times> session_row) option \<Rightarrow> 'x agent_db
    \<Rightarrow> (agent_error, 'x agent_db) result" where
  "insert_session i owner ws g now source db =
     (let n = new_session i owner ws g now (map_option snd source) in
      if session_taken n db then Inl (conflict ''the agent was already continued by another agent'' False)
      else Inr (db\<lparr>db_sessions := db_sessions db @ [n],
        db_session_log := db_session_log db @ (case source of None \<Rightarrow> []
          | Some (r, s) \<Rightarrow> map (\<lambda>m. m\<lparr>sm_agent := i, sm_gen := 1\<rparr>) (log_rows (ar_id r) (ar_gen r) db))\<rparr>))"

section \<open>Retention\<close>

definition lineage_purged :: "string \<Rightarrow> 'x agent_db \<Rightarrow> bool" where
  "lineage_purged lroot db = (\<not> list_ex (\<lambda>s. sr_root s = lroot \<and> sr_state s \<noteq> SessionPurged) (db_sessions db))"

definition durable_agent :: "string \<Rightarrow> 'x agent_db \<Rightarrow> bool" where
  "durable_agent i db = list_ex (\<lambda>r. ar_id r = i \<and> ar_runtime r = PiDurable) (db_agents db)"

definition purge_session :: "int \<Rightarrow> string \<Rightarrow> 'x agent_db \<Rightarrow> 'x agent_db" where
  "purge_session now i db = set_session i
     (\<lambda>s. s\<lparr>sr_state := SessionPurged, sr_continuable := False, sr_count := 0, sr_bytes := 0, sr_resumable := False, sr_updated := now\<rparr>)
     (db\<lparr>db_session_log := filter (\<lambda>m. sm_agent m \<noteq> i) (db_session_log db)\<rparr>)"

definition session_due :: "int \<Rightarrow> session_row \<Rightarrow> bool" where
  "session_due now s = (sr_state s = SessionSealed \<and> (case sr_retain s of None \<Rightarrow> False | Some t \<Rightarrow> t \<le> now))"

definition due_sessions :: "int \<Rightarrow> int \<Rightarrow> 'x agent_db \<Rightarrow> string list" where
  "due_sessions now limit db = map sr_agent (take (nat limit)
     (order_by (\<lambda>a b. the (sr_retain a) < the (sr_retain b)) (filter (session_due now) (db_sessions db))))"

definition purge_expired_sessions :: "int \<Rightarrow> int \<Rightarrow> 'x agent_db \<Rightarrow> (agent_error, int \<times> string list) result \<times> 'x agent_db" where
  "purge_expired_sessions now limit db =
     (if limit < 1 \<or> 100 < limit then (Inl (invalid_input ''session purge page size is out of bounds''), db)
      else (let is = due_sessions now limit db; db' = fold (purge_session now) is db in
        (Inr (int (length is), remdups (map sr_root (filter (\<lambda>s. sr_agent s \<in> set is \<and> durable_agent (sr_agent s) db' \<and> lineage_purged (sr_root s) db')
           (db_sessions db')))), db')))"

definition delete_session_rows :: "string \<Rightarrow> string \<Rightarrow> 'x agent_db \<Rightarrow> int \<times> 'x agent_db" where
  "delete_session_rows owner ws db =
     (let gone = filter (\<lambda>s. sr_owner s = owner \<and> sr_workspace s = ws) (db_sessions db) in
      (int (length gone),
       db\<lparr>db_effects := filter (\<lambda>e. \<not> (ef_owner e = owner \<and> ef_workspace e = ws)) (db_effects db),
          db_session_log := filter (\<lambda>m. sm_agent m \<notin> set (map sr_agent gone)) (db_session_log db),
          db_sessions := filter (\<lambda>s. \<not> (sr_owner s = owner \<and> sr_workspace s = ws)) (db_sessions db)\<rparr>))"

definition delete_workspace_sessions :: "string \<Rightarrow> string \<Rightarrow> 'x agent_db \<Rightarrow> int \<times> 'x agent_db" where
  "delete_workspace_sessions owner ws db = delete_session_rows owner ws db"

definition purged_durable_lineages :: "string list \<Rightarrow> 'x agent_db \<Rightarrow> string list" where
  "purged_durable_lineages roots db = filter (\<lambda>lroot. list_ex (\<lambda>s. sr_root s = lroot \<and> durable_agent (sr_agent s) db) (db_sessions db)
     \<and> lineage_purged lroot db) (keep_first id roots)"

definition durable_lineage_roots :: "string \<Rightarrow> string \<Rightarrow> 'x agent_db \<Rightarrow> string list" where
  "durable_lineage_roots owner ws db = keep_first id (map sr_root
     (filter (\<lambda>s. sr_owner s = owner \<and> sr_workspace s = ws \<and> durable_agent (sr_agent s) db) (db_sessions db)))"

section \<open>Lineage depth\<close>

lemma find_session_agent: "find_session i db = Some s \<Longrightarrow> s \<in> set (db_sessions db) \<and> sr_agent s = i"
  unfolding find_session_def by (auto simp: find_Some_iff)

function climb_lineage :: "'x agent_db \<Rightarrow> string \<Rightarrow> string list \<Rightarrow> nat \<Rightarrow> nat" where
  "climb_lineage db i seen d =
     (if i \<in> set seen then d
      else (case find_session i db of None \<Rightarrow> d | Some s \<Rightarrow> (case sr_from s of None \<Rightarrow> d
        | Some p \<Rightarrow> climb_lineage db p (i # seen) (d + 1))))"
  by pat_completeness auto

termination
proof (relation "measure (\<lambda>(db, i, seen, d). card (set (map sr_agent (db_sessions db)) - set seen))")
  fix db :: "'x agent_db" and i :: string and seen :: "string list" and d :: nat and s p
  assume "i \<notin> set seen" "find_session i db = Some s"
  then have "i \<in> set (map sr_agent (db_sessions db)) - set seen" using find_session_agent by fastforce
  then have "card (set (map sr_agent (db_sessions db)) - set (i # seen)) < card (set (map sr_agent (db_sessions db)) - set seen)"
    by (intro psubset_card_mono) auto
  then show "((db, p, i # seen, d + 1), db, i, seen, d) \<in> measure (\<lambda>(db, i, seen, d). card (set (map sr_agent (db_sessions db)) - set seen))"
    by simp
qed simp

declare climb_lineage.simps [simp del]

definition lineage_depth :: "string \<Rightarrow> 'x agent_db \<Rightarrow> nat" where
  "lineage_depth i db = climb_lineage db i [] 0"

end
