(* ===== verification/AgentRedaction.thy ===== *)
theory AgentRedaction
  imports Prelude
begin

text \<open>
  The redaction of an agent's log text: \<open>redactLogContent\<close> of \<open>apps/runner/src/agent-state-repository.ts\<close>, three
  global replacements. Each pattern is deterministic: the classes it repeats do not contain the characters that may follow
  them, so a greedy run decides it and nothing is retried. The private key block is the lazy one: it ends at the first
  END line behind it.
\<close>

section \<open>Matching\<close>

definition is_space_char :: "char \<Rightarrow> bool" where
  "is_space_char c = (code c \<in> {9, 10, 11, 12, 13, 32, 160})"

definition is_word_char :: "char \<Rightarrow> bool" where
  "is_word_char c = (is_alnum_char c \<or> c = CHR ''_'')"

text \<open>\<open>\b\<close> before a word character.\<close>

definition at_boundary :: "char option \<Rightarrow> bool" where
  "at_boundary prev = (case prev of None \<Rightarrow> True | Some c \<Rightarrow> \<not> is_word_char c)"

definition skip_literal :: "string \<Rightarrow> string \<Rightarrow> string option" where
  "skip_literal p s = (if starts_with p s then Some (drop (length p) s) else None)"

definition skip_caseless :: "string \<Rightarrow> string \<Rightarrow> string option" where
  "skip_caseless p s = (if starts_with p (to_lower s) then Some (drop (length p) s) else None)"

text \<open>
  A replacement: at each position the matcher sees the character before it and the rest; it answers with the text to put and the number of
  characters matched after the first.
\<close>

type_synonym matcher = "char option \<Rightarrow> string \<Rightarrow> (string \<times> nat) option"

function replace_matches :: "matcher \<Rightarrow> char option \<Rightarrow> string \<Rightarrow> string" where
  "replace_matches m prev [] = []"
| "replace_matches m prev (c # cs) = (case m prev (c # cs) of
      None \<Rightarrow> c # replace_matches m (Some c) cs
    | Some (put, k) \<Rightarrow> put @ replace_matches m (Some (last (c # take k cs))) (drop k cs))"
  by pat_completeness auto

termination
  by (relation "measure (\<lambda>(m, prev, s). length s)") auto

section \<open>The patterns\<close>

definition pem_line :: "string \<Rightarrow> string \<Rightarrow> string option" where
  "pem_line kind s = (case skip_literal (''-----'' @ kind @ '' '') s of
      None \<Rightarrow> None
    | Some r \<Rightarrow> (let run = takeWhile (\<lambda>c. is_upper_char c \<or> c = CHR '' '') r in
        if ends_with ''PRIVATE KEY'' run then skip_literal ''-----'' (drop (length run) r) else None))"

fun pem_end :: "string \<Rightarrow> string option" where
  "pem_end [] = None"
| "pem_end (c # cs) = (case pem_line ''END'' (c # cs) of Some r \<Rightarrow> Some r | None \<Rightarrow> pem_end cs)"

definition match_key :: matcher where
  "match_key prev s = (case pem_line ''BEGIN'' s of
      None \<Rightarrow> None
    | Some r \<Rightarrow> (case pem_end r of None \<Rightarrow> None | Some r' \<Rightarrow> Some (''[REDACTED PRIVATE KEY]'', length s - length r' - 1)))"

definition bearer_char :: "char \<Rightarrow> bool" where
  "bearer_char c = (is_alnum_char c \<or> c \<in> set ''._~+/-'')"

definition match_bearer :: matcher where
  "match_bearer prev s =
     (if \<not> at_boundary prev then None
      else (case skip_caseless ''bearer'' s of
          None \<Rightarrow> None
        | Some r \<Rightarrow> (let r1 = dropWhile is_space_char r; r2 = dropWhile bearer_char r1 in
            if r1 = r \<or> length r1 - length r2 < 16 then None
            else Some (take (length s - length r1) s @ ''[REDACTED]'', length s - length (dropWhile (\<lambda>c. c = CHR ''='') r2) - 1))))"

definition secret_names :: "string list" where
  "secret_names = [''api_key'', ''api-key'', ''apikey'', ''token'', ''secret'', ''password'']"

definition skip_name :: "string \<Rightarrow> string option" where
  "skip_name s = (case find (\<lambda>p. skip_caseless p s \<noteq> None) secret_names of None \<Rightarrow> None | Some p \<Rightarrow> skip_caseless p s)"

definition match_secret :: matcher where
  "match_secret prev s =
     (if \<not> at_boundary prev then None
      else (case skip_name s of
          None \<Rightarrow> None
        | Some r \<Rightarrow> (case dropWhile is_space_char r of
              [] \<Rightarrow> None
            | c # r1 \<Rightarrow> (let v = dropWhile is_space_char r1; r2 = dropWhile (\<lambda>c. \<not> is_space_char c \<and> c \<notin> set '',;'') v in
                if c \<notin> set '':='' \<or> length v - length r2 < 8 then None
                else Some (take (length s - length v) s @ ''[REDACTED]'', length s - length r2 - 1)))))"

definition redact_log_content :: "string \<Rightarrow> string" where
  "redact_log_content s = replace_matches match_secret None (replace_matches match_bearer None (replace_matches match_key None s))"

section \<open>What is hidden\<close>

text \<open>Text in which no position matches is kept.\<close>

lemma replace_nothing: "(\<And>prev us. m prev us = None) \<Longrightarrow> replace_matches m p s = s"
  by (induction m p s rule: replace_matches.induct) auto

end
