(* ===== verification/AgentLogs.thy ===== *)
theory AgentLogs
  imports AgentTables AgentRedaction Decimals
begin

text \<open>
  An agent's log: events appended at byte cursors, the oldest dropped when a cap is passed, and read back in pages.
  The usage counters and the cleanup retries kept per agent run are here too.
\<close>

section \<open>Usage\<close>

definition key_of :: "agent_rec \<Rightarrow> agent_key" where
  "key_of r = (ar_owner r, ar_workspace r, ar_id r, ar_gen r)"

definition chunk_key :: "log_chunk \<Rightarrow> agent_key" where
  "chunk_key c = (lc_owner c, lc_workspace c, lc_agent c, lc_gen c)"

definition empty_usage :: usage_row where
  "empty_usage = \<lparr>ug_input = 0, ug_output = 0, ug_cost = 0, ug_bytes = 0, ug_events = 0, ug_tool_ms = 0, ug_wall_ms = 0\<rparr>"

definition usage_of :: "agent_key \<Rightarrow> 'x agent_db \<Rightarrow> (agent_error, usage_row) result" where
  "usage_of k db = (case jget (db_usage db) k of None \<Rightarrow> Inl agent_not_found | Some u \<Rightarrow> Inr u)"

definition plus_usage :: "usage_row \<Rightarrow> usage_row \<Rightarrow> usage_row" where
  "plus_usage u d = \<lparr>ug_input = ug_input u + ug_input d, ug_output = ug_output u + ug_output d, ug_cost = ug_cost u + ug_cost d,
     ug_bytes = ug_bytes u + ug_bytes d, ug_events = ug_events u + ug_events d, ug_tool_ms = ug_tool_ms u + ug_tool_ms d,
     ug_wall_ms = ug_wall_ms u + ug_wall_ms d\<rparr>"

definition nonnegative_integer :: "int \<Rightarrow> string \<Rightarrow> (agent_error, unit) result" where
  "nonnegative_integer n name = echeck (is_safe n \<and> 0 \<le> n) (invalid_input (name @ '' must be a nonnegative safe integer''))"

definition check_usage :: "usage_row \<Rightarrow> (agent_error, unit) result" where
  "check_usage d =
     ebind (nonnegative_integer (ug_input d) ''inputTokens'') (\<lambda>_. ebind (nonnegative_integer (ug_output d) ''outputTokens'') (\<lambda>_.
     ebind (nonnegative_integer (ug_cost d) ''costMicros'') (\<lambda>_. ebind (nonnegative_integer (ug_bytes d) ''outputBytes'') (\<lambda>_.
     ebind (nonnegative_integer (ug_events d) ''eventCount'') (\<lambda>_. ebind (nonnegative_integer (ug_tool_ms d) ''toolTimeMs'') (\<lambda>_.
     nonnegative_integer (ug_wall_ms d) ''wallTimeMs''))))))"

definition add_usage :: "agent_config \<Rightarrow> string \<Rightarrow> string \<Rightarrow> string \<Rightarrow> int \<Rightarrow> usage_row \<Rightarrow> int option \<Rightarrow> 'x agent_db
    \<Rightarrow> (agent_error, usage_row) result \<times> 'x agent_db" where
  "add_usage cfg owner ws i g d fence db =
     (if (case fence of None \<Rightarrow> False | Some e \<Rightarrow> writer_fenced cfg owner ws i g e None db) then (usage_of (owner, ws, i, g) db, db)
      else (case check_usage d of
          Inl e \<Rightarrow> (Inl e, db)
        | Inr _ \<Rightarrow> (case jget (db_usage db) (owner, ws, i, g) of
              None \<Rightarrow> (Inl agent_not_found, db)
            | Some u \<Rightarrow> (Inr (plus_usage u d), db\<lparr>db_usage := jset (owner, ws, i, g) (plus_usage u d) (db_usage db)\<rparr>))))"

section \<open>Caps\<close>

definition others_bytes :: "(log_chunk \<Rightarrow> bool) \<Rightarrow> agent_key \<Rightarrow> 'x agent_db \<Rightarrow> int" where
  "others_bytes c k db = sum_where lc_length (\<lambda>x. c x \<and> chunk_key x \<noteq> k) (db_chunks db)"

definition others_rows :: "(log_chunk \<Rightarrow> bool) \<Rightarrow> agent_key \<Rightarrow> 'x agent_db \<Rightarrow> int" where
  "others_rows c k db = count_where (\<lambda>x. c x \<and> chunk_key x \<noteq> k) (db_chunks db)"

definition byte_cap :: "agent_config \<Rightarrow> agent_key \<Rightarrow> 'x agent_db \<Rightarrow> int" where
  "byte_cap cfg k db = (case k of (owner, ws, i, g) \<Rightarrow> let l = ac_limits cfg in
     max 0 (min (al_log_bytes l) (min (al_global_bytes l - others_bytes (\<lambda>_. True) k db)
       (min (al_principal_bytes l - others_bytes (\<lambda>c. lc_owner c = owner) k db)
            (al_workspace_bytes l - others_bytes (\<lambda>c. lc_owner c = owner \<and> lc_workspace c = ws) k db)))))"

definition row_cap :: "agent_config \<Rightarrow> agent_key \<Rightarrow> 'x agent_db \<Rightarrow> int" where
  "row_cap cfg k db = (case k of (owner, ws, i, g) \<Rightarrow> let l = ac_limits cfg in
     max 0 (min (al_log_events l) (min (al_global_rows l - others_rows (\<lambda>_. True) k db)
       (min (al_principal_rows l - others_rows (\<lambda>c. lc_owner c = owner) k db)
            (al_workspace_rows l - others_rows (\<lambda>c. lc_owner c = owner \<and> lc_workspace c = ws) k db)))))"

definition chunks_of :: "agent_key \<Rightarrow> 'x agent_db \<Rightarrow> log_chunk list" where
  "chunks_of k db = order_by (\<lambda>a b. lc_start a < lc_start b) (filter (\<lambda>c. chunk_key c = k) (db_chunks db))"

definition drop_oldest :: "agent_key \<Rightarrow> log_chunk \<Rightarrow> 'x agent_db \<Rightarrow> 'x agent_db" where
  "drop_oldest k c db = db\<lparr>db_chunks := filter (\<lambda>x. \<not> (chunk_key x = k \<and> lc_end x = lc_end c)) (db_chunks db),
     db_marks := (case jget (db_marks db) k of None \<Rightarrow> db_marks db
       | Some m \<Rightarrow> jset k (m\<lparr>lm_base := lc_end c, lm_bytes := lm_bytes m - lc_length c, lm_events := lm_events m - 1\<rparr>) (db_marks db))\<rparr>"

lemma chunks_of_set: "c \<in> set (chunks_of k db) \<longleftrightarrow> c \<in> set (db_chunks db) \<and> chunk_key c = k"
  by (auto simp: chunks_of_def)

lemma drop_oldest_fewer:
  assumes "chunks_of k db = c # cs"
  shows "length (db_chunks (drop_oldest k c db)) < length (db_chunks db)"
proof -
  have "c \<in> set (db_chunks db)" "chunk_key c = k" using assms chunks_of_set [of c k db] by auto
  then show ?thesis unfolding drop_oldest_def by (auto intro!: length_filter_less)
qed

function trim_log :: "agent_key \<Rightarrow> int \<Rightarrow> int \<Rightarrow> int \<Rightarrow> int \<Rightarrow> 'x agent_db \<Rightarrow> 'x agent_db" where
  "trim_log k bytes rows b n db =
     (if b \<le> bytes \<and> n \<le> rows then db
      else (case chunks_of k db of [] \<Rightarrow> db
        | c # _ \<Rightarrow> trim_log k bytes rows (b - lc_length c) (n - 1) (drop_oldest k c db)))"
  by pat_completeness auto

termination
  by (relation "measure (\<lambda>(k, bytes, rows, b, n, db). length (db_chunks db))") (auto intro: drop_oldest_fewer)

declare trim_log.simps [simp del]

definition enforce_log_caps :: "agent_config \<Rightarrow> agent_key \<Rightarrow> 'x agent_db \<Rightarrow> (agent_error, 'x agent_db) result" where
  "enforce_log_caps cfg k db = (case jget (db_marks db) k of
      None \<Rightarrow> Inl TypeFailed
    | Some m \<Rightarrow> Inr (trim_log k (byte_cap cfg k db) (row_cap cfg k db) (lm_bytes m) (lm_events m) db))"

section \<open>Appending\<close>

definition event_type_ok :: "string \<Rightarrow> bool" where
  "event_type_ok t = (case t of [] \<Rightarrow> False | c # cs \<Rightarrow> is_lower_char c \<and> length cs \<le> 63
     \<and> list_all (\<lambda>x. is_lower_char x \<or> is_digit_char x \<or> x \<in> set ''._-'') cs)"

record log_event =
  le_cursor :: int
  le_next :: int
  le_time :: int
  le_type :: string
  le_content :: string

text \<open>The event is written at the next cursor, and counted in the watermark and the usage.\<close>

definition log_appended :: "agent_key \<Rightarrow> int \<Rightarrow> string \<Rightarrow> string \<Rightarrow> int \<Rightarrow> log_mark \<Rightarrow> usage_row \<Rightarrow> 'x agent_db \<Rightarrow> 'x agent_db" where
  "log_appended k n type content now m u db = (case k of (owner, ws, i, g) \<Rightarrow>
     db\<lparr>db_chunks := db_chunks db @ [\<lparr>lc_owner = owner, lc_workspace = ws, lc_agent = i, lc_gen = g,
          lc_start = lm_next m, lc_end = lm_next m + n, lc_created = now, lc_type = type, lc_content = content, lc_length = n\<rparr>],
        db_marks := jset k (m\<lparr>lm_next := lm_next m + n, lm_bytes := lm_bytes m + n, lm_events := lm_events m + 1\<rparr>) (db_marks db),
        db_usage := jset k (u\<lparr>ug_bytes := ug_bytes u + n, ug_events := ug_events u + 1\<rparr>) (db_usage db)\<rparr>)"

definition log_transaction :: "agent_config \<Rightarrow> agent_key \<Rightarrow> int \<Rightarrow> string \<Rightarrow> string \<Rightarrow> int \<Rightarrow> 'x agent_db
    \<Rightarrow> (agent_error, log_event \<times> 'x agent_db) result" where
  "log_transaction cfg k n type content now db = (case k of (owner, ws, i, g) \<Rightarrow>
     (case find_agent_run owner ws i g db of
        None \<Rightarrow> Inl agent_not_found
      | Some r \<Rightarrow> ebind (usage_of k db) (\<lambda>u.
          if ab_output (ar_budget r) < ug_bytes u + n then Inl (limit_exceeded ''agent output byte budget is exhausted'' 429 False)
          else (case jget (db_marks db) k of
              None \<Rightarrow> Inl (internal_error ''agent log watermark is missing'')
            | Some m \<Rightarrow>
                if \<not> is_safe (lm_next m + n) then Inl (limit_exceeded ''agent log cursor capacity is exhausted'' 429 False)
                else if list_ex (\<lambda>c. chunk_key c = k \<and> lc_start c = lm_next m) (db_chunks db) then Inl ConstraintFailed
                else ebind (enforce_log_caps cfg k (log_appended k n type content now m u db))
                  (\<lambda>db'. Inr (\<lparr>le_cursor = lm_next m, le_next = lm_next m + n, le_time = now, le_type = type, le_content = content\<rparr>, db'))))))"

definition append_log :: "agent_config \<Rightarrow> string \<Rightarrow> string \<Rightarrow> string \<Rightarrow> int \<Rightarrow> string \<Rightarrow> string \<Rightarrow> int \<Rightarrow> 'x agent_db
    \<Rightarrow> (agent_error, log_event) result \<times> 'x agent_db" where
  "append_log cfg owner ws i g type content now db =
     (let redacted = redact_log_content content; n = ac_utf8 cfg redacted in
      if \<not> event_type_ok type then (Inl (invalid_input ''invalid agent log event type''), db)
      else if n = 0 then (Inl (invalid_input ''agent log event content cannot be empty''), db)
      else if al_log_event_bytes (ac_limits cfg) < n then (Inl (limit_exceeded ''agent log event exceeds configured size'' 413 False), db)
      else immediate (log_transaction cfg (owner, ws, i, g) n type redacted now) db)"

section \<open>Reading\<close>

text \<open>A cursor of the caller: a decimal numeral without leading zeros.\<close>

definition cursor_ok :: "string \<Rightarrow> bool" where
  "cursor_ok c = (c = ''0'' \<or> (c \<noteq> [] \<and> list_all is_digit_char c \<and> hd c \<noteq> CHR ''0'' \<and> dec_number c \<le> max_safe))"

definition show_cursor :: "int \<Rightarrow> string" where
  "show_cursor n = show_nat (nat n)"

fun page_chunks :: "int \<Rightarrow> nat \<Rightarrow> int \<Rightarrow> log_chunk list \<Rightarrow> log_chunk list" where
  "page_chunks limit n b [] = []"
| "page_chunks limit n b (c # cs) =
     (if 1000 \<le> n \<or> (0 < n \<and> limit < b + lc_length c) then [] else c # page_chunks limit (n + 1) (b + lc_length c) cs)"

record log_page =
  lp_cursor :: string
  lp_next :: string
  lp_base :: string
  lp_events :: "log_chunk list"
  lp_truncated :: bool
  lp_more :: bool

definition read_logs :: "string \<Rightarrow> string \<Rightarrow> string \<Rightarrow> int \<Rightarrow> string \<Rightarrow> int \<Rightarrow> 'x agent_db \<Rightarrow> (agent_error, log_page) result" where
  "read_logs owner ws i g cursor limit db =
     (if \<not> cursor_ok cursor then Inl (invalid_input ''agent log cursor is invalid'')
      else if limit < 1024 \<or> 262144 < limit then Inl (invalid_input ''agent log page size is out of bounds'')
      else (case find_agent_run owner ws i g db of
          None \<Rightarrow> Inl agent_not_found
        | Some r \<Rightarrow> (case jget (db_marks db) (owner, ws, i, g) of
            None \<Rightarrow> Inl TypeFailed
          | Some m \<Rightarrow>
              (let requested = dec_number cursor; start = max requested (lm_base m);
                   evs = page_chunks limit 0 0 (filter (\<lambda>c. start < lc_end c) (chunks_of (owner, ws, i, g) db));
                   nxt = (if evs = [] then start else lc_end (last evs))
               in Inr \<lparr>lp_cursor = show_cursor start, lp_next = show_cursor nxt, lp_base = show_cursor (lm_base m), lp_events = evs,
                    lp_truncated = (requested < lm_base m), lp_more = (nxt < lm_next m)\<rparr>))))"

section \<open>Cleanup retries\<close>

definition schedule_cleanup_retry :: "agent_config \<Rightarrow> agent_key \<Rightarrow> retry_row \<Rightarrow> 'x agent_db \<Rightarrow> (agent_error, unit) result \<times> 'x agent_db" where
  "schedule_cleanup_retry cfg k rt db =
     (if rt_attempts rt < 1 \<or> al_retries (ac_limits cfg) < rt_attempts rt then (Inl (limit_exceeded ''cleanup retry limit is exhausted'' 429 False), db)
      else if 2000 < ac_utf8 cfg (rt_error rt) then (Inl (invalid_input ''cleanup retry error is too large''), db)
      else immediate (\<lambda>db. case k of (owner, ws, i, g) \<Rightarrow>
        (if find_agent_run owner ws i g db = None then Inl agent_not_found
         else Inr ((), db\<lparr>db_retries := jset k rt (db_retries db)\<rparr>))) db)"

definition cleanup_retry :: "agent_key \<Rightarrow> 'x agent_db \<Rightarrow> retry_row option" where
  "cleanup_retry k db = jget (db_retries db) k"

definition list_cleanup_retries :: "string \<Rightarrow> string \<Rightarrow> int \<Rightarrow> int \<Rightarrow> 'x agent_db \<Rightarrow> (agent_error, (agent_key \<times> retry_row) list) result" where
  "list_cleanup_retries owner ws due limit db =
     (if limit < 1 \<or> 100 < limit then Inl (invalid_input ''cleanup retry page size is out of bounds'')
      else Inr (take (nat limit) (order_by (\<lambda>a b. rt_next (snd a) < rt_next (snd b)
             \<or> (rt_next (snd a) = rt_next (snd b) \<and> str_less (fst (snd (snd (fst a)))) (fst (snd (snd (fst b))))))
           (filter (\<lambda>p. fst (fst p) = owner \<and> fst (snd (fst p)) = ws \<and> rt_next (snd p) \<le> due) (db_retries db)))))"

definition clear_cleanup_retry :: "agent_key \<Rightarrow> 'x agent_db \<Rightarrow> bool \<times> 'x agent_db" where
  "clear_cleanup_retry k db = (jhas (db_retries db) k, db\<lparr>db_retries := jdel k (db_retries db)\<rparr>)"

end
