(* ===== verification/AgentEffects.thy ===== *)
theory AgentEffects
  imports AgentTables
begin

text \<open>
  The effect ledger: each tool effect of an agent is reserved under its lineage key before it is dispatched to the
  executor, and its outcome is recorded by the lineage's live owner only. The messages sent to an agent are here too.
\<close>

section \<open>Reserving\<close>

definition effect_request_ok :: "string \<Rightarrow> bool" where
  "effect_request_ok t = (case t of [] \<Rightarrow> False | c # cs \<Rightarrow> is_alnum_char c \<and> length cs \<le> 127
     \<and> list_all (\<lambda>x. is_alnum_char x \<or> x \<in> set ''._:-'') cs)"

definition sha256_hex :: "string \<Rightarrow> bool" where
  "sha256_hex s = (length s = 64 \<and> list_all (\<lambda>c. is_digit_char c \<or> c \<in> set ''abcdef'') s)"

definition optional_sha256 :: "string option \<Rightarrow> string \<Rightarrow> (agent_error, string option) result" where
  "optional_sha256 v name = (case v of None \<Rightarrow> Inr None
     | Some s \<Rightarrow> if sha256_hex s then Inr (Some s) else Inl (invalid_input (name @ '' must be a lowercase SHA-256 digest'')))"

record effect_key =
  ek_root :: string
  ek_request :: string
  ek_kind :: string

definition effect_at :: "effect_key \<Rightarrow> effect_row \<Rightarrow> bool" where
  "effect_at k e = (ef_root e = ek_root k \<and> ef_request e = ek_request k \<and> ef_kind e = ek_kind k)"

definition find_effect :: "effect_key \<Rightarrow> 'x agent_db \<Rightarrow> effect_row option" where
  "find_effect k db = find (effect_at k) (db_effects db)"

record effect_fence =
  fe_owner :: string
  fe_workspace :: string
  fe_agent :: string
  fe_gen :: int
  fe_epoch :: int

definition fence_lost :: "agent_config \<Rightarrow> effect_fence \<Rightarrow> agent_status list \<Rightarrow> 'x agent_db \<Rightarrow> bool" where
  "fence_lost cfg f statuses db = writer_fenced cfg (fe_owner f) (fe_workspace f) (fe_agent f) (fe_gen f) (fe_epoch f) (Some statuses) db"

record effect_input =
  ei_fence :: effect_fence
  ei_request :: string
  ei_kind :: string
  ei_payload :: string
  ei_class :: "string option"
  ei_pre :: "string option"
  ei_intended :: "string option"
  ei_fenced :: bool

definition new_effect :: "effect_input \<Rightarrow> string \<Rightarrow> int option \<Rightarrow> int \<Rightarrow> effect_row" where
  "new_effect x lroot ws_gen now = \<lparr>ef_owner = fe_owner (ei_fence x), ef_workspace = fe_workspace (ei_fence x), ef_agent = fe_agent (ei_fence x),
     ef_gen = fe_gen (ei_fence x), ef_epoch = fe_epoch (ei_fence x), ef_root = lroot, ef_request = ei_request x, ef_kind = ei_kind x,
     ef_payload = ei_payload x, ef_state = EffectIntent, ef_class = ei_class x, ef_pre = ei_pre x, ef_intended = ei_intended x,
     ef_entry = None, ef_result = None, ef_bytes = None, ef_sha = None, ef_reconciled = False, ef_executor = None,
     ef_ws_gen = ws_gen, ef_retain = None, ef_created = now, ef_updated = now\<rparr>"

text \<open>The primary key, the lineage key and the foreign keys of \<open>agent_effects\<close>.\<close>

definition effect_insertable :: "effect_row \<Rightarrow> 'x agent_db \<Rightarrow> bool" where
  "effect_insertable n db =
     (\<not> list_ex (\<lambda>e. (ef_agent e = ef_agent n \<and> ef_gen e = ef_gen n \<and> ef_request e = ef_request n \<and> ef_kind e = ef_kind n)
          \<or> (ef_root e = ef_root n \<and> ef_request e = ef_request n \<and> ef_kind e = ef_kind n)) (db_effects db)
      \<and> space_exists (ef_owner n) (ef_workspace n) db \<and> list_ex (\<lambda>r. ar_id r = ef_agent n) (db_agents db))"

definition reserve_effect :: "agent_config \<Rightarrow> effect_input \<Rightarrow> int \<Rightarrow> 'x agent_db \<Rightarrow> (agent_error, bool \<times> effect_row) result \<times> 'x agent_db" where
  "reserve_effect cfg x now db0 =
     (let f = ei_fence x in
      if \<not> effect_request_ok (ei_request x) then (Inl (invalid_input ''invalid effect request ID''), db0)
      else (case optional_sha256 (ei_pre x) ''pre-image digest'' of Inl e \<Rightarrow> (Inl e, db0) | Inr _ \<Rightarrow>
      (case optional_sha256 (ei_intended x) ''intended post-image digest'' of Inl e \<Rightarrow> (Inl e, db0) | Inr _ \<Rightarrow>
      immediate (\<lambda>db.
        if ei_fenced x \<and> fence_lost cfg f [Running] db
        then Inl (Refused (HarnessError ''EXPIRED'' ''agent tool execution lost its lifecycle fence'' 410 False))
        else (let lroot = lineage_root (fe_agent f) db in
          (case find_effect \<lparr>ek_root = lroot, ek_request = ei_request x, ek_kind = ei_kind x\<rparr> db of
             Some e \<Rightarrow>
               if ef_owner e \<noteq> fe_owner f \<or> ef_workspace e \<noteq> fe_workspace f \<or> ef_payload e \<noteq> ei_payload x
               then Inl (conflict ''effect request ID was used with a different payload'' False)
               else Inr ((True, e), db)
           | None \<Rightarrow>
               (let n = new_effect x lroot (map_option ar_ws_gen (find_agent (fe_owner f) (fe_workspace f) (fe_agent f) db)) now in
                if \<not> effect_insertable n db then Inl ConstraintFailed
                else Inr ((False, n), db\<lparr>db_effects := db_effects db @ [n]\<rparr>))))) db0)))"

section \<open>Dispatch and outcome\<close>

definition coalesce :: "'a option \<Rightarrow> 'a option \<Rightarrow> 'a option" where
  "coalesce a b = (case a of None \<Rightarrow> b | Some x \<Rightarrow> Some x)"

definition pre_entries :: "string list" where
  "pre_entries = [''file'', ''directory'', ''absent'']"

definition effect_writable :: "effect_key \<Rightarrow> effect_fence \<Rightarrow> effect_state list \<Rightarrow> effect_row \<Rightarrow> bool" where
  "effect_writable k f expected e =
     (effect_at k e \<and> ef_owner e = fe_owner f \<and> ef_workspace e = fe_workspace f \<and> ef_state e \<in> set expected)"

definition dispatch_effect :: "agent_config \<Rightarrow> effect_key \<Rightarrow> effect_fence \<Rightarrow> effect_state list \<Rightarrow> string option \<Rightarrow> string option
    \<Rightarrow> string option \<Rightarrow> int \<Rightarrow> 'x agent_db \<Rightarrow> (agent_error, bool) result \<times> 'x agent_db" where
  "dispatch_effect cfg k f expected pre intended entry now db0 =
     (case optional_sha256 pre ''pre-image digest'' of Inl e \<Rightarrow> (Inl e, db0) | Inr _ \<Rightarrow>
     (case optional_sha256 intended ''intended post-image digest'' of Inl e \<Rightarrow> (Inl e, db0) | Inr _ \<Rightarrow>
      if (case entry of None \<Rightarrow> False | Some t \<Rightarrow> t \<notin> set pre_entries) then (Inl (invalid_input ''invalid effect pre-entry''), db0)
      else if expected = [] then (Inl (invalid_input ''expected effect state set cannot be empty''), db0)
      else immediate (\<lambda>db.
        if fence_lost cfg f [Running] db then Inr (False, db)
        else Inr (count_where (effect_writable k f expected) (db_effects db) = 1,
          db\<lparr>db_effects := update_where (effect_writable k f expected)
            (\<lambda>e. e\<lparr>ef_state := EffectDispatched, ef_epoch := fe_epoch f, ef_updated := now, ef_pre := coalesce pre (ef_pre e),
               ef_intended := coalesce intended (ef_intended e), ef_entry := entry\<rparr>) (db_effects db)\<rparr>)) db0))"

definition receipt_limit :: int where
  "receipt_limit = 2 * 1024 * 1024"

definition held_bytes :: "string \<Rightarrow> 'x agent_db \<Rightarrow> int" where
  "held_bytes lroot db = sum_where (\<lambda>e. case ef_bytes e of None \<Rightarrow> 0 | Some b \<Rightarrow> b) (\<lambda>e. ef_root e = lroot \<and> ef_bytes e \<noteq> None) (db_effects db)"

definition retains_receipt_text :: "agent_config \<Rightarrow> string \<Rightarrow> string \<Rightarrow> int \<Rightarrow> 'x agent_db \<Rightarrow> bool" where
  "retains_receipt_text cfg i lroot b db = (records_session i db \<and> held_bytes lroot db + b \<le> al_receipts (ac_limits cfg))"

datatype outcome_state = OutcomeApplied | OutcomeRejected | OutcomeUnknown

definition outcome_effect :: "outcome_state \<Rightarrow> effect_state" where
  "outcome_effect s = (case s of OutcomeApplied \<Rightarrow> EffectApplied | OutcomeRejected \<Rightarrow> EffectRejected | OutcomeUnknown \<Rightarrow> EffectUnknown)"

definition complete_effect :: "agent_config \<Rightarrow> effect_key \<Rightarrow> effect_fence \<Rightarrow> effect_state list \<Rightarrow> outcome_state \<Rightarrow> (string \<times> bool) option
    \<Rightarrow> int \<Rightarrow> 'x agent_db \<Rightarrow> (agent_error, bool) result \<times> 'x agent_db" where
  "complete_effect cfg k f expected outcome receipt now db0 =
     (if expected = [] then (Inl (invalid_input ''expected effect state set cannot be empty''), db0)
      else if (case receipt of None \<Rightarrow> False | Some (t, _) \<Rightarrow> t = [] \<or> receipt_limit < ac_utf8 cfg t)
      then (Inl (limit_exceeded ''agent effect receipt exceeds the tool result bound'' 413 False), db0)
      else if receipt \<noteq> None \<and> outcome = OutcomeUnknown then (Inl (invalid_input ''an unknown effect has no receipt''), db0)
      else immediate (\<lambda>db.
        if fence_lost cfg f [Running, Cancelling] db then Inr (False, db)
        else (let stored = (case receipt of None \<Rightarrow> None
                | Some (t, _) \<Rightarrow> if retains_receipt_text cfg (fe_agent f) (ek_root k) (ac_utf8 cfg t) db then Some t else None) in
          Inr (count_where (effect_writable k f expected) (db_effects db) = 1,
            db\<lparr>db_effects := update_where (effect_writable k f expected)
              (\<lambda>e. e\<lparr>ef_state := outcome_effect outcome, ef_updated := now, ef_result := stored,
                 ef_bytes := map_option (\<lambda>t. ac_utf8 cfg t) stored, ef_sha := map_option (\<lambda>p. ac_sha cfg (fst p)) receipt,
                 ef_reconciled := (case receipt of None \<Rightarrow> False | Some (_, b) \<Rightarrow> b), ef_executor := map_option (\<lambda>_. fe_epoch f) receipt,
                 ef_retain := map_option (\<lambda>_. now + al_session_retention (ac_limits cfg)) stored\<rparr>) (db_effects db)\<rparr>))) db0)"

definition transition_effect :: "string \<Rightarrow> int \<Rightarrow> string \<Rightarrow> string \<Rightarrow> effect_state list \<Rightarrow> effect_state \<Rightarrow> int option \<Rightarrow> int \<Rightarrow> 'x agent_db
    \<Rightarrow> bool \<times> 'x agent_db" where
  "transition_effect i g req kind expected state epoch now db =
     (let c = (\<lambda>e. ef_agent e = i \<and> ef_gen e = g \<and> ef_request e = req \<and> ef_kind e = kind
         \<and> (case epoch of None \<Rightarrow> True | Some n \<Rightarrow> ef_epoch e = n) \<and> ef_state e \<in> set expected)
      in (count_where c (db_effects db) = 1, db\<lparr>db_effects := update_where c (\<lambda>e. e\<lparr>ef_state := state, ef_updated := now\<rparr>) (db_effects db)\<rparr>))"

section \<open>Receipts past their retention\<close>

definition receipt_due :: "int \<Rightarrow> effect_row \<Rightarrow> bool" where
  "receipt_due now e = (ef_result e \<noteq> None \<and> (case ef_retain e of None \<Rightarrow> False | Some t \<Rightarrow> t \<le> now))"

definition same_effect :: "effect_row \<Rightarrow> effect_row \<Rightarrow> bool" where
  "same_effect a b = (ef_agent a = ef_agent b \<and> ef_gen a = ef_gen b \<and> ef_request a = ef_request b \<and> ef_kind a = ef_kind b)"

definition purge_expired_receipts :: "int \<Rightarrow> int \<Rightarrow> 'x agent_db \<Rightarrow> (agent_error, int) result \<times> 'x agent_db" where
  "purge_expired_receipts now limit db =
     (if limit < 1 \<or> 100 < limit then (Inl (invalid_input ''receipt purge page size is out of bounds''), db)
      else (let due = take (nat limit) (order_by (\<lambda>a b. the (ef_retain a) < the (ef_retain b)) (filter (receipt_due now) (db_effects db))) in
        (Inr (int (length due)),
         db\<lparr>db_effects := update_where (\<lambda>e. list_ex (same_effect e) due)
           (\<lambda>e. e\<lparr>ef_result := None, ef_bytes := None, ef_sha := None, ef_retain := None\<rparr>) (db_effects db)\<rparr>)))"

section \<open>Messages\<close>

definition message_at :: "string \<Rightarrow> string \<Rightarrow> string \<Rightarrow> string \<Rightarrow> message_row \<Rightarrow> bool" where
  "message_at owner ws i k m = (mg_owner m = owner \<and> mg_workspace m = ws \<and> mg_agent m = i \<and> mg_key m = k)"

definition agent_space_open :: "agent_rec \<Rightarrow> 'x agent_db \<Rightarrow> bool" where
  "agent_space_open r db = list_ex (\<lambda>s. sp_id s = ar_workspace r \<and> sp_owner s = ar_owner r \<and> sp_status s = ''ACTIVE''
     \<and> sp_gen s = ar_ws_gen r \<and> sp_network s = ''network-none'') (db_spaces db)"

definition reserve_message :: "agent_config \<Rightarrow> string \<Rightarrow> string \<Rightarrow> string \<Rightarrow> int \<Rightarrow> int option \<Rightarrow> string \<Rightarrow> string \<Rightarrow> message_mode \<Rightarrow> int \<Rightarrow> 'x agent_db
    \<Rightarrow> (agent_error, bool \<times> message_row) result \<times> 'x agent_db" where
  "reserve_message cfg owner ws i g epoch k payload mode now = immediate (\<lambda>db.
     (case find_agent_run owner ws i g db of
        None \<Rightarrow> Inl agent_not_found
      | Some r \<Rightarrow>
          if \<not> agent_space_open r db then Inl agent_not_found
          else (case find (message_at owner ws i k) (db_messages db) of
              Some m \<Rightarrow>
                if mg_payload m \<noteq> payload \<or> mg_mode m \<noteq> mode
                then Inl (conflict ''message idempotency key was used with a different payload'' False) else Inr ((True, m), db)
            | None \<Rightarrow>
                if ar_status r \<noteq> Running \<or> \<not> ar_message_open r then Inl (conflict ''agent message admission is closed'' False)
                else (case jget (db_admissions db) (owner, ws) of
                    None \<Rightarrow> Inl (conflict ''workspace agent admission is closed'' False)
                  | Some a \<Rightarrow>
                      if \<not> wa_message a then Inl (conflict ''workspace agent admission is closed'' False)
                      else if al_lifetime (ac_limits cfg) \<le> wa_lifetime a
                      then Inl (limit_exceeded ''workspace agent lifetime record capacity is exhausted'' 429 False)
                      else (let m = \<lparr>mg_owner = owner, mg_workspace = ws, mg_agent = i, mg_gen = g,
                             mg_epoch = (case epoch of None \<Rightarrow> 1 | Some e \<Rightarrow> e), mg_key = k, mg_payload = payload, mg_mode = mode,
                             mg_state = MessageReserved, mg_created = now, mg_updated = now, mg_error = None\<rparr> in
                        Inr ((False, m), db\<lparr>db_messages := db_messages db @ [m],
                          db_admissions := jset (owner, ws) (a\<lparr>wa_lifetime := wa_lifetime a + 1, wa_updated := now\<rparr>) (db_admissions db)\<rparr>))))))"

definition transition_message :: "agent_config \<Rightarrow> string \<Rightarrow> string \<Rightarrow> string \<Rightarrow> int \<Rightarrow> string \<Rightarrow> message_state \<Rightarrow> message_state \<Rightarrow> int \<Rightarrow> string option
    \<Rightarrow> 'x agent_db \<Rightarrow> (agent_error, message_row option) result \<times> 'x agent_db" where
  "transition_message cfg owner ws i g k expected state now err db =
     (if (case err of None \<Rightarrow> False | Some e \<Rightarrow> 2000 < ac_utf8 cfg e) then (Inl (invalid_input ''message delivery error is too large''), db)
      else (let c = (\<lambda>m. message_at owner ws i k m \<and> mg_gen m = g \<and> mg_state m = expected);
                db' = db\<lparr>db_messages := update_where c (\<lambda>m. m\<lparr>mg_state := state, mg_updated := now, mg_error := err\<rparr>) (db_messages db)\<rparr>
        in if count_where c (db_messages db) \<noteq> 1 then (Inr None, db')
           else (Inr (find (message_at owner ws i k) (db_messages db')), db')))"

end
