(* ===== verification/AgentLifecycle.thy ===== *)
theory AgentLifecycle
  imports AgentSessions AgentLogs AgentEffects
begin

text \<open>
  The life of an agent record: spawn admission, status transitions with their terminal events, the admission of a
  workspace, the pages of agents, and what a restarted runner and a closed workspace do to the tables.
\<close>

section \<open>Spawn admission\<close>

definition spawn_lease_ok :: "string \<Rightarrow> bool" where
  "spawn_lease_ok s = (s \<noteq> [] \<and> length s \<le> 128 \<and> list_all (\<lambda>c. is_alnum_char c \<or> c \<in> set ''._:-'') s)"

definition proxy_operation_names :: "string list" where
  "proxy_operation_names = [''files_list'', ''files_read'', ''files_write'', ''files_apply_patch'', ''files_delete'', ''files_move'',
     ''files_mkdir'', ''grep_search'', ''symbols_search'', ''symbols_references'']"

text \<open>
  A spawn reservation. \<open>si_session\<close> is \<open>None\<close> without session persistence, and names the agent to continue,
  if any. The two callbacks run inside the transaction: \<open>admitContinuation\<close> may refuse, \<open>admit\<close> may refuse or write
  tables of other services.
\<close>

record 'x spawn_input =
  si_id :: string
  si_owner :: string
  si_workspace :: string
  si_ws_gen :: int
  si_parent :: "string option"
  si_key :: string
  si_payload :: string
  si_prompt :: string
  si_profile :: string
  si_ops :: "string list"
  si_budget :: agent_budget
  si_container :: string
  si_network :: string
  si_lease :: string
  si_epoch :: "int option"
  si_runtime :: "agent_runtime option"
  si_now :: int
  si_expires :: int
  si_session :: "string option option"
  si_admit_continuation :: "agent_rec \<Rightarrow> int \<Rightarrow> int \<Rightarrow> (agent_error, unit) result"
  si_admit :: "'x \<Rightarrow> (agent_error, 'x) result"

definition epoch_check :: "agent_config \<Rightarrow> 'x spawn_input \<Rightarrow> 'y agent_db \<Rightarrow> (agent_error, unit) result" where
  "epoch_check cfg x db = (case (si_epoch x, instance_of cfg) of
      (Some e, Some i) \<Rightarrow> echeck (current_epoch i db = 0 \<or> e = current_epoch i db) (conflict ''spawn request lost its runtime epoch fence'' True)
    | _ \<Rightarrow> Inr ())"

definition space_eligible :: "space_row \<Rightarrow> bool" where
  "space_eligible s = (sp_status s = ''ACTIVE'' \<and> sp_network s = ''network-none'')"

text \<open>\<open>INSERT OR IGNORE INTO agent_workspace_admission\<close>.\<close>

definition ensure_admission :: "string \<Rightarrow> string \<Rightarrow> int \<Rightarrow> int \<Rightarrow> 'x agent_db \<Rightarrow> 'x agent_db" where
  "ensure_admission owner ws g now db =
     (if jhas (db_admissions db) (owner, ws) then db
      else db\<lparr>db_admissions := jset (owner, ws)
        \<lparr>wa_gen = g, wa_spawn = True, wa_message = True, wa_lifetime = 0, wa_updated = now\<rparr> (db_admissions db)\<rparr>)"

definition used_key :: "agent_error" where
  "used_key = conflict ''spawn idempotency key was used with a different payload'' False"

definition retained_check :: "agent_limits \<Rightarrow> string \<Rightarrow> string \<Rightarrow> 'x agent_db \<Rightarrow> (agent_error, unit) result" where
  "retained_check l owner ws db = echeck
     (count_where (\<lambda>_. True) (db_agents db) + count_where (\<lambda>_. True) (db_tombs db) < al_global_rows l
      \<and> count_where (\<lambda>r. ar_owner r = owner) (db_agents db) + count_where (\<lambda>t. tb_owner t = owner) (db_tombs db) < al_principal_rows l
      \<and> count_where (in_space owner ws) (db_agents db) + count_where (\<lambda>t. tb_owner t = owner \<and> tb_workspace t = ws) (db_tombs db) < al_workspace_rows l)
     (limit_exceeded ''agent retained record capacity is exhausted'' 429 False)"

definition parent_check :: "'x spawn_input \<Rightarrow> 'y agent_db \<Rightarrow> (agent_error, int option) result" where
  "parent_check x db = (case si_parent x of None \<Rightarrow> Inr None | Some [] \<Rightarrow> Inr None
     | Some p \<Rightarrow> (case find (\<lambda>r. in_space (si_owner x) (si_workspace x) r \<and> ar_id r = p \<and> ar_status r = Running
           \<and> ar_spawn_open r \<and> ar_ws_gen r = si_ws_gen x) (db_agents db) of
         None \<Rightarrow> Inl agent_not_found
       | Some r \<Rightarrow> Inr (Some (ar_gen r))))"

definition active_check :: "agent_limits \<Rightarrow> 'x spawn_input \<Rightarrow> 'y agent_db \<Rightarrow> (agent_error, unit) result" where
  "active_check l x db = echeck
     (count_where is_active (db_agents db) < al_global_active l
      \<and> count_where (\<lambda>r. ar_owner r = si_owner x \<and> is_active r) (db_agents db) < al_principal_active l
      \<and> count_where (\<lambda>r. in_space (si_owner x) (si_workspace x) r \<and> is_active r) (db_agents db) < al_workspace_active l
      \<and> (si_parent x = None
         \<or> count_where (\<lambda>r. in_space (si_owner x) (si_workspace x) r \<and> ar_parent r = si_parent x \<and> is_active r) (db_agents db) < al_parent_active l))
     (limit_exceeded ''agent active capacity is exhausted'' 429 True)"

definition budget_check :: "agent_limits \<Rightarrow> 'x spawn_input \<Rightarrow> space_row \<Rightarrow> (agent_error, unit) result" where
  "budget_check l x s =
     ebind (echeck (ab_output (si_budget x) \<le> al_max_output l) (invalid_input ''agent output byte budget exceeds configured limit'')) (\<lambda>_.
     ebind (echeck (si_now x < si_expires x \<and> si_expires x \<le> sp_expires s \<and> si_expires x - si_now x \<le> ab_ttl (si_budget x) * 1000)
       (invalid_input ''agent expiry is outside its TTL budget'')) (\<lambda>_.
     ebind (echeck (al_min_ttl l \<le> ab_ttl (si_budget x) \<and> ab_ttl (si_budget x) \<le> al_max_ttl l)
       (invalid_input ''agent TTL is outside configured limits'')) (\<lambda>_.
     ebind (echeck (si_ops x \<noteq> [] \<and> length (si_ops x) \<le> length proxy_operation_names \<and> set (si_ops x) \<subseteq> set proxy_operation_names) SchemaFailed) (\<lambda>_.
     echeck (distinct (si_ops x)) (invalid_input ''agent proxy operations must be unique'')))))"

definition runtime_of :: "'x spawn_input \<Rightarrow> agent_runtime" where
  "runtime_of x = (case si_runtime x of None \<Rightarrow> PiCoding | Some k \<Rightarrow> k)"

definition continuation_check :: "agent_config \<Rightarrow> durable_storage \<Rightarrow> 'x spawn_input \<Rightarrow> 'y agent_db \<Rightarrow> (agent_error, (agent_rec \<times> session_row) option) result" where
  "continuation_check cfg du x db = (case si_session x of
      Some (Some p) \<Rightarrow>
        ebind (require_continuable (si_owner x) (si_workspace x) (si_ws_gen x) p db) (\<lambda>(r, s).
        ebind (echeck (ar_runtime r = runtime_of x)
          (invalid_input ''a continuation runs on the agent engine of the agent it continues; omit runtime or pass that engine'')) (\<lambda>_.
        ebind (load_session_log cfg (ar_id r) (ar_gen r) db) (\<lambda>(vs, head, b).
        ebind (si_admit_continuation x r b (int (length vs))) (\<lambda>_.
        (case exceeded_session_budget cfg du (si_owner x) (si_workspace x) b db of
           Some k \<Rightarrow> Inl (limit_exceeded (''persisted agent sessions would exceed the '' @ budget_text k
             @ '' session byte budget; start a fresh agent, or wait until retention or a workspace close frees stored sessions'') 429 False)
         | None \<Rightarrow> Inr (Some (r, s)))))))
    | _ \<Rightarrow> Inr None)"

definition next_rowid :: "agent_rec list \<Rightarrow> int" where
  "next_rowid rows = (if rows = [] then 1 else ar_rowid (last rows) + 1)"

definition new_agent :: "'x spawn_input \<Rightarrow> int option \<Rightarrow> int \<Rightarrow> agent_rec" where
  "new_agent x parent_gen rowid =
     \<lparr>ar_rowid = rowid, ar_id = si_id x, ar_owner = si_owner x, ar_workspace = si_workspace x, ar_ws_gen = si_ws_gen x, ar_parent = si_parent x,
      ar_parent_gen = parent_gen, ar_key = si_key x, ar_payload = si_payload x, ar_prompt = si_prompt x, ar_profile = si_profile x,
      ar_ops = si_ops x, ar_budget = si_budget x, ar_container = si_container x, ar_network = si_network x, ar_lease = si_lease x,
      ar_status = Spawning, ar_gen = 1, ar_epoch = (case si_epoch x of None \<Rightarrow> 1 | Some e \<Rightarrow> e), ar_spawn_open = True, ar_message_open = True,
      ar_created = si_now x, ar_started = None, ar_terminal = None, ar_expires = si_expires x, ar_reason = None, ar_cleanup = None,
      ar_unknown = False, ar_runtime = runtime_of x\<rparr>"

text \<open>The primary keys and unique columns an insertion meets.\<close>

definition agent_insertable :: "agent_rec \<Rightarrow> 'x agent_db \<Rightarrow> bool" where
  "agent_insertable n db =
     (\<not> list_ex (\<lambda>r. ar_id r = ar_id n \<or> ar_lease r = ar_lease n
          \<or> (ar_owner r = ar_owner n \<and> ar_workspace r = ar_workspace n \<and> ar_key r = ar_key n)) (db_agents db)
      \<and> \<not> jhas (db_usage db) (key_of n) \<and> \<not> jhas (db_marks db) (key_of n))"

definition insert_agent :: "agent_rec \<Rightarrow> 'x agent_db \<Rightarrow> (agent_error, 'x agent_db) result" where
  "insert_agent n db =
     (if \<not> agent_insertable n db then Inl ConstraintFailed
      else Inr (db\<lparr>db_agents := db_agents db @ [n], db_usage := jset (key_of n) empty_usage (db_usage db),
        db_marks := jset (key_of n) \<lparr>lm_base = 0, lm_next = 0, lm_bytes = 0, lm_events = 0\<rparr> (db_marks db)\<rparr>))"

definition count_lifetime :: "string \<Rightarrow> string \<Rightarrow> int \<Rightarrow> int \<Rightarrow> 'x agent_db \<Rightarrow> 'x agent_db" where
  "count_lifetime owner ws g now db = (case jget (db_admissions db) (owner, ws) of
      None \<Rightarrow> db
    | Some a \<Rightarrow> if wa_gen a = g \<and> wa_spawn a
        then db\<lparr>db_admissions := jset (owner, ws) (a\<lparr>wa_lifetime := wa_lifetime a + 1, wa_updated := now\<rparr>) (db_admissions db)\<rparr> else db)"

definition spawn_new :: "agent_config \<Rightarrow> durable_storage \<Rightarrow> 'x spawn_input \<Rightarrow> space_row \<Rightarrow> workspace_admission \<Rightarrow> 'x agent_db
    \<Rightarrow> (agent_error, (bool \<times> agent_rec) \<times> 'x agent_db) result" where
  "spawn_new cfg du x s a db =
     (let l = ac_limits cfg in
      ebind (echeck (wa_lifetime a < al_lifetime l) (limit_exceeded ''workspace agent lifetime record capacity is exhausted'' 429 False)) (\<lambda>_.
      ebind (retained_check l (si_owner x) (si_workspace x) db) (\<lambda>_.
      ebind (parent_check x db) (\<lambda>pg.
      ebind (active_check l x db) (\<lambda>_.
      ebind (budget_check l x s) (\<lambda>_.
      ebind (continuation_check cfg du x db) (\<lambda>source.
      ebind (si_admit x (db_other db)) (\<lambda>other.
      (let n = new_agent x pg (next_rowid (db_agents db)) in
      ebind (insert_agent n (db\<lparr>db_other := other\<rparr>)) (\<lambda>db1.
      (let db2 = count_lifetime (si_owner x) (si_workspace x) (si_ws_gen x) (si_now x) db1 in
      ebind (if si_session x = None then Inr db2
             else insert_session (si_id x) (si_owner x) (si_workspace x) (si_ws_gen x) (si_now x) source db2) (\<lambda>db3.
      Inr ((False, n), db3)))))))))))))"

definition reserve_spawn :: "agent_config \<Rightarrow> durable_storage \<Rightarrow> 'x spawn_input \<Rightarrow> 'x agent_db
    \<Rightarrow> (agent_error, bool \<times> agent_rec) result \<times> 'x agent_db" where
  "reserve_spawn cfg du x db0 =
     (if \<not> spawn_lease_ok (si_lease x) then (Inl (invalid_input ''invalid gateway lease identifier''), db0)
      else immediate (\<lambda>db.
        ebind (epoch_check cfg x db) (\<lambda>_.
        (case find_space (si_owner x) (si_workspace x) (si_ws_gen x) db of
           None \<Rightarrow> Inl (Refused (HarnessError ''NOT_FOUND'' ''workspace was not found'' 404 False))
         | Some s \<Rightarrow>
             if \<not> space_eligible s then Inl not_eligible_for_agents
             else (let db1 = ensure_admission (si_owner x) (si_workspace x) (si_ws_gen x) (si_now x) db in
               (case jget (db_admissions db1) (si_owner x, si_workspace x) of
                  None \<Rightarrow> Inl TypeFailed
                | Some a \<Rightarrow>
                    if wa_gen a \<noteq> si_ws_gen x \<or> \<not> wa_spawn a then Inl (conflict ''workspace agent admission is closed'' False)
                    else (case find_by_idempotency (si_owner x) (si_workspace x) (si_key x) db1 of
                        Some r \<Rightarrow> if ar_payload r \<noteq> si_payload x then Inl used_key else Inr ((True, r), db1)
                      | None \<Rightarrow> (case find (\<lambda>t. tb_owner t = si_owner x \<and> tb_workspace t = si_workspace x \<and> tb_key t = si_key x) (db_tombs db1) of
                            Some t \<Rightarrow> if tb_payload t \<noteq> si_payload x then Inl used_key
                              else Inl (conflict ''spawn replay is retained as a closed-workspace tombstone'' False)
                          | None \<Rightarrow> spawn_new cfg du x s a db1)))))) ) db0)"

section \<open>Transitions\<close>

record transition_input =
  ti_owner :: string
  ti_workspace :: string
  ti_agent :: string
  ti_gen :: int
  ti_epoch :: "int option"
  ti_expected :: "agent_status list"
  ti_status :: agent_status
  ti_now :: int
  ti_reason :: "string option"
  ti_cleanup :: "string option"
  ti_unknown :: "bool option"
  ti_resumable :: "bool option"

definition transition_check :: "agent_config \<Rightarrow> transition_input \<Rightarrow> (agent_error, unit) result" where
  "transition_check cfg x =
     ebind (echeck (ti_expected x \<noteq> []) (invalid_input ''expected status set cannot be empty'')) (\<lambda>_.
     ebind (echeck (\<not> (ti_status x = Interrupted \<and> ti_unknown x \<noteq> Some True)) (invalid_input ''interrupted agents must record an unknown outcome'')) (\<lambda>_.
     ebind (echeck (\<not> (ti_unknown x = Some True \<and> ti_status x \<noteq> Interrupted)) (invalid_input ''unknown outcome is only valid for interrupted agents'')) (\<lambda>_.
     ebind (echeck ((case ti_reason x of None \<Rightarrow> True | Some t \<Rightarrow> ac_utf8 cfg t \<le> 2000) \<and> (case ti_cleanup x of None \<Rightarrow> True | Some t \<Rightarrow> ac_utf8 cfg t \<le> 2000))
       (invalid_input ''agent terminal metadata is too large'')) (\<lambda>_.
     echeck (list_all (\<lambda>s. ti_status x \<in> set (status_transitions s)) (ti_expected x)) (invalid_input ''invalid agent status transition'')))))"

definition transition_applies :: "transition_input \<Rightarrow> agent_rec \<Rightarrow> bool" where
  "transition_applies x r = (in_space (ti_owner x) (ti_workspace x) r \<and> ar_id r = ti_agent x \<and> ar_gen r = ti_gen x
     \<and> (case ti_epoch x of None \<Rightarrow> True | Some e \<Rightarrow> ar_epoch r = e) \<and> ar_status r \<in> set (ti_expected x))"

definition transition_row :: "transition_input \<Rightarrow> agent_rec \<Rightarrow> agent_rec" where
  "transition_row x r =
     (let term = ti_status x \<in> set terminal_statuses; closes = term \<or> ti_status x = Cancelling in
      r\<lparr>ar_status := ti_status x,
        ar_started := (if ti_status x = Running \<and> ar_started r = None then Some (ti_now x) else ar_started r),
        ar_terminal := (if term then Some (ti_now x) else ar_terminal r),
        ar_reason := coalesce (ti_reason x) (ar_reason r), ar_cleanup := coalesce (ti_cleanup x) (ar_cleanup r),
        ar_unknown := (case ti_unknown x of None \<Rightarrow> ar_unknown r | Some b \<Rightarrow> b),
        ar_spawn_open := (if closes then False else ar_spawn_open r), ar_message_open := (if closes then False else ar_message_open r)\<rparr>)"

definition event_view :: "agent_rec \<Rightarrow> agent_row" where
  "event_view r = \<lparr>ag_id = ar_id r, ag_workspace = ar_workspace r, ag_owner = ar_owner r, ag_parent = ar_parent r,
     ag_status = status_text (ar_status r), ag_unknown = (if ar_unknown r then 1 else 0), ag_terminal = ar_terminal r\<rparr>"

text \<open>The terminal event is recorded in the same savepoint; the outbox reads the agents table as it stands.\<close>

definition emit_terminal :: "agent_config \<Rightarrow> (string \<Rightarrow> string) \<Rightarrow> string \<Rightarrow> string \<Rightarrow> string \<Rightarrow> int \<Rightarrow> 'x agent_db \<Rightarrow> 'x agent_db" where
  "emit_terminal cfg draw owner ws i now db =
     db\<lparr>db_events := emit_agent_terminal (ac_sha cfg) draw owner ws i now
       ((db_events db)\<lparr>tb_host := (tb_host (db_events db))\<lparr>ht_agents := map event_view (db_agents db)\<rparr>\<rparr>)\<rparr>"

definition transition_status :: "agent_config \<Rightarrow> (string \<Rightarrow> string) \<Rightarrow> transition_input \<Rightarrow> 'x agent_db
    \<Rightarrow> (agent_error, agent_rec option) result \<times> 'x agent_db" where
  "transition_status cfg draw x db =
     (case transition_check cfg x of
        Inl e \<Rightarrow> (Inl e, db)
      | Inr _ \<Rightarrow>
          (let changed = (count_where (transition_applies x) (db_agents db) = 1);
               db1 = db\<lparr>db_agents := update_where (transition_applies x) (transition_row x) (db_agents db)\<rparr>;
               db2 = (if changed \<and> ti_status x \<in> set terminal_statuses
                  then emit_terminal cfg draw (ti_owner x) (ti_workspace x) (ti_agent x) (ti_now x)
                    (seal_session cfg (ti_agent x) (ti_status x) (ti_now x) (ti_resumable x = Some True) db1)
                  else db1)
           in (Inr (if changed then find_agent (ti_owner x) (ti_workspace x) (ti_agent x) db2 else None), db2)))"

section \<open>Workspace admission\<close>

definition gen_matches :: "int option \<Rightarrow> int \<Rightarrow> bool" where
  "gen_matches g n = (case g of None \<Rightarrow> True | Some k \<Rightarrow> n = k)"

definition shut_agents :: "string \<Rightarrow> string \<Rightarrow> int option \<Rightarrow> 'x agent_db \<Rightarrow> 'x agent_db" where
  "shut_agents owner ws g db = db\<lparr>db_agents :=
     update_where (\<lambda>r. in_space owner ws r \<and> gen_matches g (ar_ws_gen r) \<and> is_active r)
       (\<lambda>r. r\<lparr>ar_spawn_open := False, ar_message_open := False\<rparr>) (db_agents db)\<rparr>"

definition shut_admission :: "string \<Rightarrow> string \<Rightarrow> int option \<Rightarrow> int \<Rightarrow> 'x agent_db \<Rightarrow> bool \<times> 'x agent_db" where
  "shut_admission owner ws g now db = (case jget (db_admissions db) (owner, ws) of
      None \<Rightarrow> (False, db)
    | Some a \<Rightarrow> if \<not> gen_matches g (wa_gen a) then (False, db)
        else (True, db\<lparr>db_admissions := jset (owner, ws) (a\<lparr>wa_spawn := False, wa_message := False, wa_updated := now\<rparr>) (db_admissions db)\<rparr>))"

definition close_workspace_admission :: "string \<Rightarrow> string \<Rightarrow> int \<Rightarrow> int option \<Rightarrow> 'x agent_db \<Rightarrow> bool \<times> 'x agent_db" where
  "close_workspace_admission owner ws now g db =
     (case shut_admission owner ws g now db of (changed, db1) \<Rightarrow> (changed, shut_agents owner ws g db1))"

definition open_workspace_admission :: "string \<Rightarrow> string \<Rightarrow> int \<Rightarrow> int \<Rightarrow> 'x agent_db \<Rightarrow> (agent_error, bool) result \<times> 'x agent_db" where
  "open_workspace_admission owner ws g now = immediate (\<lambda>db.
     (case find_space owner ws g db of
        None \<Rightarrow> Inl (Refused (HarnessError ''NOT_FOUND'' ''workspace was not found'' 404 False))
      | Some s \<Rightarrow>
          if \<not> space_eligible s then Inl not_eligible_for_agents
          else if count_where (\<lambda>r. in_space owner ws r \<and> ar_ws_gen r = g \<and> is_active r) (db_agents db) \<noteq> 0
          then Inl (conflict ''workspace still has unreconciled agents'' True)
          else (case jget (db_admissions db) (owner, ws) of
              None \<Rightarrow> Inr (False, db)
            | Some a \<Rightarrow> if wa_gen a \<noteq> g then Inr (False, db)
                else Inr (True, db\<lparr>db_admissions := jset (owner, ws) (a\<lparr>wa_spawn := True, wa_message := True, wa_updated := now\<rparr>) (db_admissions db)\<rparr>))))"

section \<open>Pages of agents\<close>

definition list_cursor_ok :: "string \<Rightarrow> bool" where
  "list_cursor_ok c = (c \<noteq> [] \<and> list_all is_digit_char c \<and> hd c \<noteq> CHR ''0'' \<and> dec_number c \<le> max_safe)"

definition option_is :: "'a option \<Rightarrow> ('a \<Rightarrow> bool) \<Rightarrow> bool" where
  "option_is v0 c = (case v0 of None \<Rightarrow> True | Some v \<Rightarrow> c v)"

definition list_agent_page :: "string \<Rightarrow> string \<Rightarrow> int \<Rightarrow> string option \<Rightarrow> string option \<Rightarrow> agent_status option \<Rightarrow> 'x agent_db
    \<Rightarrow> (agent_error, agent_rec list \<times> string option) result" where
  "list_agent_page owner ws limit cursor parent status db =
     (if limit < 1 \<or> 100 < limit then Inl (invalid_input ''agent list limit is out of bounds'')
      else if \<not> option_is cursor list_cursor_ok then Inl (invalid_input ''agent list cursor is invalid'')
      else (let rows = take (nat limit + 1) (order_by (\<lambda>a b. ar_rowid b < ar_rowid a)
              (filter (\<lambda>r. in_space owner ws r \<and> option_is parent (\<lambda>p. ar_parent r = Some p) \<and> option_is status (\<lambda>s. ar_status r = s)
                 \<and> option_is cursor (\<lambda>c. ar_rowid r < dec_number c)) (db_agents db)));
            page = take (nat limit) rows
        in Inr (page, if nat limit < length rows then Some (show_nat (nat (ar_rowid (last page)))) else None)))"

definition list_active_agents :: "agent_config \<Rightarrow> string \<Rightarrow> string \<Rightarrow> int option \<Rightarrow> 'x agent_db \<Rightarrow> (agent_error, agent_rec list) result" where
  "list_active_agents cfg owner ws g db =
     (let rows = take (nat (al_workspace_active (ac_limits cfg)) + 1)
           (order_by (\<lambda>a b. ar_created a < ar_created b \<or> (ar_created a = ar_created b \<and> str_less (ar_id a) (ar_id b)))
              (filter (\<lambda>r. in_space owner ws r \<and> gen_matches g (ar_ws_gen r) \<and> is_active r) (db_agents db)))
      in if al_workspace_active (ac_limits cfg) < int (length rows)
         then Inl (internal_error ''persisted active agent count exceeds configured workspace capacity'') else Inr rows)"

section \<open>Restart\<close>

fun enforce_all :: "agent_config \<Rightarrow> agent_rec list \<Rightarrow> 'x agent_db \<Rightarrow> (agent_error, 'x agent_db) result" where
  "enforce_all cfg [] db = Inr db"
| "enforce_all cfg (r # rs) db = ebind (enforce_log_caps cfg (key_of r) db) (enforce_all cfg rs)"

definition prepare_startup_repair :: "agent_config \<Rightarrow> string \<Rightarrow> string \<Rightarrow> int \<Rightarrow> int \<Rightarrow> 'x agent_db
    \<Rightarrow> (agent_error, agent_rec list) result \<times> 'x agent_db" where
  "prepare_startup_repair cfg owner ws g now = immediate (\<lambda>db.
     (let db1 = shut_agents owner ws (Some g) (snd (shut_admission owner ws (Some g) now db));
          gens = map ar_gen (filter (\<lambda>r. in_space owner ws r \<and> ar_ws_gen r = g) (db_agents db1));
          db2 = db1\<lparr>db_messages := update_where (\<lambda>m. mg_owner m = owner \<and> mg_workspace m = ws \<and> mg_gen m \<in> set gens \<and> mg_state m = MessageReserved)
                  (\<lambda>m. m\<lparr>mg_state := MessageUnknown, mg_updated := now, mg_error := Some ''runner restart interrupted delivery''\<rparr>) (db_messages db1),
                db_effects := update_where (\<lambda>e. ef_owner e = owner \<and> ef_workspace e = ws \<and> ef_gen e \<in> set gens \<and> ef_state e \<in> {EffectIntent, EffectDispatched})
                  (\<lambda>e. e\<lparr>ef_state := EffectUnknown, ef_updated := now\<rparr>) (db_effects db1)\<rparr>;
          rows = order_by (\<lambda>a b. ar_created a < ar_created b) (filter (\<lambda>r. in_space owner ws r \<and> ar_ws_gen r = g) (db_agents db2))
      in ebind (enforce_all cfg rows db2) (\<lambda>db3. Inr (filter is_active rows, db3))))"

section \<open>Closed workspaces\<close>

definition tombstone_of :: "agent_config \<Rightarrow> int \<Rightarrow> agent_rec \<Rightarrow> tombstone" where
  "tombstone_of cfg now r = \<lparr>tb_owner = ar_owner r, tb_workspace = ar_workspace r, tb_agent = ar_id r, tb_key = ar_key r, tb_payload = ar_payload r,
     tb_status = ar_status r, tb_gen = ar_gen r, tb_created = now,
     tb_expires = (case ar_terminal r of None \<Rightarrow> 0 | Some t \<Rightarrow> t) + al_horizon (ac_limits cfg) * 1000\<rparr>"

definition same_tombstone :: "tombstone \<Rightarrow> tombstone \<Rightarrow> bool" where
  "same_tombstone a b = (tb_owner a = tb_owner b \<and> tb_workspace a = tb_workspace b \<and> tb_agent a = tb_agent b)"

definition put_tombstone :: "tombstone \<Rightarrow> tombstone list \<Rightarrow> (agent_error, tombstone list) result" where
  "put_tombstone n ts =
     (if list_ex (same_tombstone n) ts
      then Inr (update_where (same_tombstone n) (\<lambda>t. t\<lparr>tb_status := tb_status n, tb_gen := tb_gen n, tb_expires := max (tb_expires t) (tb_expires n)\<rparr>) ts)
      else if list_ex (\<lambda>t. tb_owner t = tb_owner n \<and> tb_workspace t = tb_workspace n \<and> tb_key t = tb_key n) ts then Inl ConstraintFailed
      else Inr (ts @ [n]))"

fun put_tombstones :: "tombstone list \<Rightarrow> tombstone list \<Rightarrow> (agent_error, tombstone list) result" where
  "put_tombstones [] ts = Inr ts"
| "put_tombstones (n # ns) ts = ebind (put_tombstone n ts) (put_tombstones ns)"

definition drop_space_rows :: "string \<Rightarrow> string \<Rightarrow> 'x agent_db \<Rightarrow> 'x agent_db" where
  "drop_space_rows owner ws db = db\<lparr>
     db_chunks := filter (\<lambda>c. \<not> (lc_owner c = owner \<and> lc_workspace c = ws)) (db_chunks db),
     db_marks := filter (\<lambda>p. \<not> (fst (fst p) = owner \<and> fst (snd (fst p)) = ws)) (db_marks db),
     db_usage := filter (\<lambda>p. \<not> (fst (fst p) = owner \<and> fst (snd (fst p)) = ws)) (db_usage db),
     db_messages := filter (\<lambda>m. \<not> (mg_owner m = owner \<and> mg_workspace m = ws)) (db_messages db),
     db_retries := filter (\<lambda>p. \<not> (fst (fst p) = owner \<and> fst (snd (fst p)) = ws)) (db_retries db)\<rparr>"

text \<open>Deleting agents takes every row that refers to them along: the foreign keys cascade.\<close>

definition drop_agents :: "(agent_rec \<Rightarrow> bool) \<Rightarrow> 'x agent_db \<Rightarrow> 'x agent_db" where
  "drop_agents c db =
     (let gone = set (map ar_id (filter c (db_agents db))) in
      db\<lparr>db_agents := filter (\<lambda>r. \<not> c r) (db_agents db),
         db_chunks := filter (\<lambda>x. lc_agent x \<notin> gone) (db_chunks db),
         db_marks := filter (\<lambda>p. fst (snd (snd (fst p))) \<notin> gone) (db_marks db),
         db_usage := filter (\<lambda>p. fst (snd (snd (fst p))) \<notin> gone) (db_usage db),
         db_messages := filter (\<lambda>m. mg_agent m \<notin> gone) (db_messages db),
         db_retries := filter (\<lambda>p. fst (snd (snd (fst p))) \<notin> gone) (db_retries db),
         db_effects := filter (\<lambda>e. ef_agent e \<notin> gone) (db_effects db),
         db_sessions := filter (\<lambda>s. sr_agent s \<notin> gone) (db_sessions db),
         db_session_log := filter (\<lambda>m. sm_agent m \<notin> gone) (db_session_log db)\<rparr>)"

definition compact_closed_workspace :: "agent_config \<Rightarrow> string \<Rightarrow> string \<Rightarrow> int \<Rightarrow> int \<Rightarrow> 'x agent_db \<Rightarrow> (agent_error, int) result \<times> 'x agent_db" where
  "compact_closed_workspace cfg owner ws g now = immediate (\<lambda>db.
     (let cutoff = now - al_retention (ac_limits cfg) * 1000; rows = filter (in_space owner ws) (db_agents db) in
      if \<not> (case find_space owner ws g db of None \<Rightarrow> False | Some s \<Rightarrow> sp_status s = ''CLOSED'')
      then Inl (conflict ''workspace must be closed before agent state compaction'' False)
      else if list_ex is_active rows then Inl (conflict ''nonterminal agents prevent workspace compaction'' True)
      else if list_ex (\<lambda>r. case ar_terminal r of None \<Rightarrow> True | Some t \<Rightarrow> cutoff < t) rows
      then Inl (conflict ''closed workspace agent retention horizon has not elapsed'' True)
      else ebind (put_tombstones (map (tombstone_of cfg now) rows) (db_tombs db)) (\<lambda>ts.
        (let db1 = drop_agents (in_space owner ws) (snd (delete_session_rows owner ws (drop_space_rows owner ws (db\<lparr>db_tombs := ts\<rparr>))));
             db2 = (case jget (db_admissions db1) (owner, ws) of
                 None \<Rightarrow> db1
               | Some a \<Rightarrow> if wa_gen a = g then db1\<lparr>db_admissions := jdel (owner, ws) (db_admissions db1)\<rparr> else db1)
         in Inr (int (length rows), db2)))))"

definition purge_expired_tombstones :: "string \<Rightarrow> string \<Rightarrow> int \<Rightarrow> 'x agent_db \<Rightarrow> int \<times> 'x agent_db" where
  "purge_expired_tombstones owner ws now db =
     (let c = (\<lambda>t. tb_owner t = owner \<and> tb_workspace t = ws \<and> tb_expires t \<le> now
         \<and> list_ex (\<lambda>s. sp_owner s = owner \<and> sp_id s = ws \<and> sp_status s = ''CLOSED'') (db_spaces db))
      in (count_where c (db_tombs db), db\<lparr>db_tombs := filter (\<lambda>t. \<not> c t) (db_tombs db)\<rparr>))"

definition compactable :: "agent_config \<Rightarrow> int \<Rightarrow> 'x agent_db \<Rightarrow> space_row \<Rightarrow> bool" where
  "compactable cfg now db s =
     (let rows = filter (in_space (sp_owner s) (sp_id s)) (db_agents db); cutoff = now - al_retention (ac_limits cfg) * 1000 in
      rows \<noteq> [] \<and> \<not> list_ex (\<lambda>r. is_active r \<or> (case ar_terminal r of None \<Rightarrow> True | Some t \<Rightarrow> cutoff < t)) rows)"

definition purgeable :: "int \<Rightarrow> 'x agent_db \<Rightarrow> space_row \<Rightarrow> bool" where
  "purgeable now db s = list_ex (\<lambda>t. tb_owner t = sp_owner s \<and> tb_workspace t = sp_id s \<and> tb_expires t \<le> now) (db_tombs db)"

fun maintain_spaces :: "agent_config \<Rightarrow> int \<Rightarrow> (space_row \<times> bool \<times> bool) list \<Rightarrow> 'x agent_db \<Rightarrow> (agent_error, int \<times> int) result \<times> 'x agent_db" where
  "maintain_spaces cfg now [] db = (Inr (0, 0), db)"
| "maintain_spaces cfg now ((s, compacts, purge) # cs) db =
     (case (if compacts then compact_closed_workspace cfg (sp_owner s) (sp_id s) (sp_gen s) now db else (Inr 0, db)) of
        (Inl e, db1) \<Rightarrow> (Inl e, db1)
      | (Inr n, db1) \<Rightarrow>
          (case (if compacts \<or> purge then purge_expired_tombstones (sp_owner s) (sp_id s) now db1 else (0, db1)) of
             (p, db2) \<Rightarrow> (case maintain_spaces cfg now cs db2 of
                 (Inl e, db3) \<Rightarrow> (Inl e, db3)
               | (Inr (n', p'), db3) \<Rightarrow> (Inr (n + n', p + p'), db3))))"

definition maintain_closed_workspaces :: "agent_config \<Rightarrow> int \<Rightarrow> int \<Rightarrow> 'x agent_db \<Rightarrow> (agent_error, int \<times> int \<times> int) result \<times> 'x agent_db" where
  "maintain_closed_workspaces cfg now limit db =
     (if limit < 1 \<or> 100 < limit then (Inl (invalid_input ''closed workspace maintenance page size is out of bounds''), db)
      else (let cands = take (nat limit) (order_by (\<lambda>a b. sp_activity a < sp_activity b \<or> (sp_activity a = sp_activity b \<and> str_less (sp_id a) (sp_id b)))
              (filter (\<lambda>s. sp_status s = ''CLOSED'' \<and> (compactable cfg now db s \<or> purgeable now db s)) (db_spaces db)))
        in case maintain_spaces cfg now (map (\<lambda>s. (s, compactable cfg now db s, purgeable now db s)) cands) db of
             (Inl e, db') \<Rightarrow> (Inl e, db')
           | (Inr (n, p), db') \<Rightarrow> (Inr (int (length cands), n, p), db')))"

section \<open>Descendants\<close>

text \<open>
  The recursive query: the children of an agent, then theirs. Parents come before their children in the table, so the
  number of agents bounds the depth.
\<close>

fun descendants_at :: "string \<Rightarrow> string \<Rightarrow> string \<Rightarrow> nat \<Rightarrow> nat \<Rightarrow> agent_rec list \<Rightarrow> (nat \<times> agent_rec) list" where
  "descendants_at owner ws p d 0 rows = []"
| "descendants_at owner ws p d (Suc k) rows =
     concat (map (\<lambda>r. (d, r) # descendants_at owner ws (ar_id r) (d + 1) k rows)
       (filter (\<lambda>r. in_space owner ws r \<and> ar_parent r = Some p) rows))"

definition descendants :: "string \<Rightarrow> string \<Rightarrow> string \<Rightarrow> 'x agent_db \<Rightarrow> agent_rec list" where
  "descendants owner ws p db = map snd (order_by (\<lambda>a b. fst b < fst a
       \<or> (fst a = fst b \<and> (ar_created (snd b) < ar_created (snd a) \<or> (ar_created (snd a) = ar_created (snd b) \<and> str_less (ar_id (snd b)) (ar_id (snd a))))))
     (descendants_at owner ws p 1 (length (db_agents db)) (db_agents db)))"

end
