(* ===== verification/AgentSteps.thy ===== *)
theory AgentSteps
  imports AgentLifecycle
begin

text \<open>
  The repository in use: any sequence of its operations, whatever their arguments, and of changes other services make to the
  workspaces, the event tables and their own tables. Each operation is split into what it does to the agents table, to
  the sessions and their log, and to the agent logs; the invariants are proved over these moves.
\<close>

section \<open>Steps\<close>

inductive agent_step :: "agent_config \<Rightarrow> 'x agent_db \<Rightarrow> 'x agent_db \<Rightarrow> bool" for cfg where
  others: "agent_step cfg db (db\<lparr>db_spaces := ss, db_events := ev, db_other := y\<rparr>)"
| bumps: "agent_step cfg db (snd (bump_epoch i db))"
| spawns: "agent_step cfg db (snd (reserve_spawn cfg du x db))"
| transits: "agent_step cfg db (snd (transition_status cfg draw t db))"
| closes: "agent_step cfg db (snd (close_workspace_admission owner ws now g db))"
| opens: "agent_step cfg db (snd (open_workspace_admission owner ws n now db))"
| messages: "agent_step cfg db (snd (reserve_message cfg owner ws i n ep k p mode now db))"
| answers: "agent_step cfg db (snd (transition_message cfg owner ws i n k ms ms' now err db))"
| uses: "agent_step cfg db (snd (add_usage cfg owner ws i n d fence db))"
| reserves: "agent_step cfg db (snd (reserve_effect cfg ex now db))"
| dispatches: "agent_step cfg db (snd (dispatch_effect cfg ek f es pre intd ent now db))"
| completes: "agent_step cfg db (snd (complete_effect cfg ek f es oc rc now db))"
| changes: "agent_step cfg db (snd (transition_effect i n req kind es e' ep now db))"
| forgets: "agent_step cfg db (snd (purge_expired_receipts now lmt db))"
| logs: "agent_step cfg db (snd (append_log cfg owner ws i n ty content now db))"
| retries: "agent_step cfg db (snd (schedule_cleanup_retry cfg k3 rt db))"
| clears: "agent_step cfg db (snd (clear_cleanup_retry k3 db))"
| repairs: "agent_step cfg db (snd (prepare_startup_repair cfg owner ws n now db))"
| compacts: "agent_step cfg db (snd (compact_closed_workspace cfg owner ws n now db))"
| purges: "agent_step cfg db (snd (purge_expired_tombstones owner ws now db))"
| maintains: "agent_step cfg db (snd (maintain_closed_workspaces cfg now lmt db))"
| appends: "agent_step cfg db (snd (append_session_message cfg du owner ws i n e seq v now db))"
| discontinues: "agent_step cfg db (discontinue_session i now db)"
| retires: "agent_step cfg db (snd (purge_expired_sessions now lmt db))"
| deletes: "agent_step cfg db (snd (delete_workspace_sessions owner ws db))"

text \<open>A database before its first agent; the tables of other services hold anything.\<close>

definition fresh_db :: "space_row list \<Rightarrow> event_db \<Rightarrow> 'x \<Rightarrow> 'x agent_db" where
  "fresh_db ss ev y = \<lparr>db_epochs = [], db_spaces = ss, db_admissions = [], db_agents = [], db_usage = [], db_marks = [], db_chunks = [],
     db_messages = [], db_effects = [], db_sessions = [], db_session_log = [], db_tombs = [], db_retries = [], db_events = ev, db_other = y\<rparr>"

definition agent_reachable :: "agent_config \<Rightarrow> 'x agent_db \<Rightarrow> bool" where
  "agent_reachable cfg db = (\<exists>ss ev y. (agent_step cfg)\<^sup>*\<^sup>* (fresh_db ss ev y) db)"

lemma agent_reachable_invariant:
  assumes "agent_reachable cfg db" "\<And>ss ev y. J (fresh_db ss ev y)" "\<And>a b. agent_step cfg a b \<Longrightarrow> J a \<Longrightarrow> J b"
  shows "J db"
proof -
  obtain ss ev y where "(agent_step cfg)\<^sup>*\<^sup>* (fresh_db ss ev y) db" using assms(1) by (auto simp: agent_reachable_def)
  then show ?thesis by (induction rule: rtranclp_induct) (use assms(2,3) in blast)+
qed

lemma agent_reachable_step: "agent_reachable cfg a \<Longrightarrow> agent_step cfg a b \<Longrightarrow> agent_reachable cfg b"
  unfolding agent_reachable_def by (meson rtranclp.rtrancl_into_rtrancl)

lemma agent_reachable_run: "agent_reachable cfg a \<Longrightarrow> (agent_step cfg)\<^sup>*\<^sup>* a b \<Longrightarrow> agent_reachable cfg b"
  unfolding agent_reachable_def by (meson rtranclp_trans)

lemma snd_immediate: "snd (immediate act db) = (case act db of Inl e \<Rightarrow> db | Inr p \<Rightarrow> snd p)"
  by (auto simp: immediate_def split: sum.split)

lemma immediate_cases:
  assumes "P db" "\<And>a db'. act db = Inr (a, db') \<Longrightarrow> P db'"
  shows "P (snd (immediate act db))"
  using assms by (auto simp: snd_immediate split: sum.split)

section \<open>What an operation leaves alone\<close>

text \<open>The tables of agents, sessions and session logs, agent logs, effects and admissions, in turn.\<close>

definition keeps_agents :: "'x agent_db \<Rightarrow> 'x agent_db \<Rightarrow> bool" where
  "keeps_agents a b = (db_agents b = db_agents a \<and> db_tombs b = db_tombs a)"

definition keeps_sessions :: "'x agent_db \<Rightarrow> 'x agent_db \<Rightarrow> bool" where
  "keeps_sessions a b = (db_sessions b = db_sessions a \<and> db_session_log b = db_session_log a)"

definition keeps_logs :: "'x agent_db \<Rightarrow> 'x agent_db \<Rightarrow> bool" where
  "keeps_logs a b = (db_chunks b = db_chunks a \<and> db_marks b = db_marks a)"

definition keeps_effects :: "'x agent_db \<Rightarrow> 'x agent_db \<Rightarrow> bool" where
  "keeps_effects a b = (db_effects b = db_effects a)"

lemmas keeps_defs = keeps_agents_def keeps_sessions_def keeps_logs_def keeps_effects_def

lemma keeps_refl [simp]: "keeps_agents a a" "keeps_sessions a a" "keeps_logs a a" "keeps_effects a a"
  by (simp_all add: keeps_defs)

lemma others_keeps: "keeps_agents db (db\<lparr>db_spaces := ss, db_events := ev, db_other := y\<rparr>)"
    "keeps_sessions db (db\<lparr>db_spaces := ss, db_events := ev, db_other := y\<rparr>)" "keeps_logs db (db\<lparr>db_spaces := ss, db_events := ev, db_other := y\<rparr>)"
    "keeps_effects db (db\<lparr>db_spaces := ss, db_events := ev, db_other := y\<rparr>)"
  by (simp_all add: keeps_defs)

lemma bump_keeps: "keeps_agents db (snd (bump_epoch i db))" "keeps_sessions db (snd (bump_epoch i db))" "keeps_logs db (snd (bump_epoch i db))"
    "keeps_effects db (snd (bump_epoch i db))"
  by (simp_all add: keeps_defs bump_epoch_def Let_def)

lemma open_keeps: "keeps_agents db (snd (open_workspace_admission owner ws n now db))" "keeps_sessions db (snd (open_workspace_admission owner ws n now db))"
    "keeps_logs db (snd (open_workspace_admission owner ws n now db))" "keeps_effects db (snd (open_workspace_admission owner ws n now db))"
  by (auto simp: keeps_defs open_workspace_admission_def snd_immediate split: option.split)

lemma message_keeps: "keeps_agents db (snd (reserve_message cfg owner ws i n ep k p mode now db))" "keeps_sessions db (snd (reserve_message cfg owner ws i n ep k p mode now db))"
    "keeps_logs db (snd (reserve_message cfg owner ws i n ep k p mode now db))" "keeps_effects db (snd (reserve_message cfg owner ws i n ep k p mode now db))"
  by (auto simp: keeps_defs reserve_message_def snd_immediate Let_def split: option.split)

lemma answer_keeps: "keeps_agents db (snd (transition_message cfg owner ws i n k ms ms' now err db))" "keeps_sessions db (snd (transition_message cfg owner ws i n k ms ms' now err db))"
    "keeps_logs db (snd (transition_message cfg owner ws i n k ms ms' now err db))" "keeps_effects db (snd (transition_message cfg owner ws i n k ms ms' now err db))"
  by (auto simp: keeps_defs transition_message_def Let_def split: option.split)

lemma usage_keeps: "keeps_agents db (snd (add_usage cfg owner ws i n d fence db))" "keeps_sessions db (snd (add_usage cfg owner ws i n d fence db))"
    "keeps_logs db (snd (add_usage cfg owner ws i n d fence db))" "keeps_effects db (snd (add_usage cfg owner ws i n d fence db))"
  by (auto simp: keeps_defs add_usage_def Let_def split: option.split sum.split)

lemma reserve_keeps: "keeps_agents db (snd (reserve_effect cfg ex now db))" "keeps_sessions db (snd (reserve_effect cfg ex now db))" "keeps_logs db (snd (reserve_effect cfg ex now db))"
  by (auto simp: keeps_defs reserve_effect_def snd_immediate Let_def split: option.split sum.split)

lemma dispatch_keeps: "keeps_agents db (snd (dispatch_effect cfg ek f es pre intd ent now db))" "keeps_sessions db (snd (dispatch_effect cfg ek f es pre intd ent now db))"
    "keeps_logs db (snd (dispatch_effect cfg ek f es pre intd ent now db))"
  by (auto simp: keeps_defs dispatch_effect_def snd_immediate split: option.split sum.split)

lemma complete_keeps: "keeps_agents db (snd (complete_effect cfg ek f es oc rc now db))" "keeps_sessions db (snd (complete_effect cfg ek f es oc rc now db))"
    "keeps_logs db (snd (complete_effect cfg ek f es oc rc now db))"
  by (auto simp: keeps_defs complete_effect_def snd_immediate Let_def)

lemma change_keeps: "keeps_agents db (snd (transition_effect i n req kind es e' ep now db))" "keeps_sessions db (snd (transition_effect i n req kind es e' ep now db))"
    "keeps_logs db (snd (transition_effect i n req kind es e' ep now db))"
  by (auto simp: keeps_defs transition_effect_def Let_def)

lemma forget_keeps: "keeps_agents db (snd (purge_expired_receipts now lmt db))" "keeps_sessions db (snd (purge_expired_receipts now lmt db))"
    "keeps_logs db (snd (purge_expired_receipts now lmt db))"
  by (auto simp: keeps_defs purge_expired_receipts_def Let_def)

lemma retry_keeps: "keeps_agents db (snd (schedule_cleanup_retry cfg k rt db))" "keeps_sessions db (snd (schedule_cleanup_retry cfg k rt db))"
    "keeps_logs db (snd (schedule_cleanup_retry cfg k rt db))" "keeps_effects db (snd (schedule_cleanup_retry cfg k rt db))"
  by (auto simp: keeps_defs schedule_cleanup_retry_def snd_immediate split: prod.split)

lemma clear_keeps: "keeps_agents db (snd (clear_cleanup_retry k db))" "keeps_sessions db (snd (clear_cleanup_retry k db))" "keeps_logs db (snd (clear_cleanup_retry k db))"
    "keeps_effects db (snd (clear_cleanup_retry k db))"
  by (simp_all add: keeps_defs clear_cleanup_retry_def)

lemma trim_keeps: "keeps_agents db (trim_log k bytes rows b n db) \<and> keeps_sessions db (trim_log k bytes rows b n db) \<and> keeps_effects db (trim_log k bytes rows b n db)"
proof (induction k bytes rows b n db rule: trim_log.induct)
  case (1 k bytes rows b n db)
  show ?case
  proof (cases "b \<le> bytes \<and> n \<le> rows")
    case True
    then show ?thesis by (simp add: trim_log.simps)
  next
    case False
    then show ?thesis
      using 1 by (cases "chunks_of k db") (auto simp: trim_log.simps [of k bytes rows b n db] keeps_defs drop_oldest_def)
  qed
qed

lemma enforce_log_caps_Inr:
  "enforce_log_caps cfg k db = Inr db' \<longleftrightarrow> (\<exists>m. jget (db_marks db) k = Some m
     \<and> db' = trim_log k (byte_cap cfg k db) (row_cap cfg k db) (lm_bytes m) (lm_events m) db)"
  unfolding enforce_log_caps_def by (cases "jget (db_marks db) k") auto

lemma enforce_keeps: "enforce_log_caps cfg k db = Inr db' \<Longrightarrow> keeps_agents db db' \<and> keeps_sessions db db' \<and> keeps_effects db db'"
  unfolding enforce_log_caps_Inr using trim_keeps by blast

lemma keeps_trans:
  "keeps_agents a b \<and> keeps_sessions a b \<and> keeps_effects a b \<Longrightarrow> keeps_agents b c \<and> keeps_sessions b c \<and> keeps_effects b c
    \<Longrightarrow> keeps_agents a c \<and> keeps_sessions a c \<and> keeps_effects a c"
  by (simp add: keeps_defs)

lemma enforce_all_keeps: "enforce_all cfg rs db = Inr db' \<Longrightarrow> keeps_agents db db' \<and> keeps_sessions db db' \<and> keeps_effects db db'"
proof (induction rs arbitrary: db)
  case (Cons r rs)
  then obtain db1 where "enforce_log_caps cfg (key_of r) db = Inr db1" "enforce_all cfg rs db1 = Inr db'"
    by (auto simp: ebind_Inr_iff)
  then show ?case using keeps_trans [OF enforce_keeps Cons.IH] by blast
qed simp

text \<open>An event is either not written, or the log is trimmed after it.\<close>

lemma append_log_cases:
  assumes "P db"
    "\<And>r u m c. find_agent_run owner ws i n db = Some r \<Longrightarrow> jget (db_usage db) (owner, ws, i, n) = Some u \<Longrightarrow> jget (db_marks db) (owner, ws, i, n) = Some m
      \<Longrightarrow> ac_utf8 cfg c \<noteq> 0 \<Longrightarrow> c = redact_log_content content \<Longrightarrow> ug_bytes u + ac_utf8 cfg c \<le> ab_output (ar_budget r) \<Longrightarrow> is_safe (lm_next m + ac_utf8 cfg c)
      \<Longrightarrow> enforce_log_caps cfg (owner, ws, i, n) (log_appended (owner, ws, i, n) (ac_utf8 cfg c) ty c now m u db) = Inr db' \<Longrightarrow> P db'"
  shows "db' = snd (append_log cfg owner ws i n ty content now db) \<Longrightarrow> P db'"
proof -
  let ?k = "(owner, ws, i, n)" and ?c = "redact_log_content content"
  assume run: "db' = snd (append_log cfg owner ws i n ty content now db)"
  have "db' = db \<or> (ac_utf8 cfg ?c \<noteq> 0 \<and> (\<exists>ev. log_transaction cfg ?k (ac_utf8 cfg ?c) ty ?c now db = Inr (ev, db')))"
    using run by (auto simp: append_log_def Let_def snd_immediate split: if_splits sum.splits)
  then consider "db' = db"
    | r u m where "find_agent_run owner ws i n db = Some r" "usage_of ?k db = Inr u" "jget (db_marks db) ?k = Some m" "ac_utf8 cfg ?c \<noteq> 0"
        "ug_bytes u + ac_utf8 cfg ?c \<le> ab_output (ar_budget r)" "is_safe (lm_next m + ac_utf8 cfg ?c)"
        "enforce_log_caps cfg ?k (log_appended ?k (ac_utf8 cfg ?c) ty ?c now m u db) = Inr db'"
    by (cases "find_agent_run owner ws i n db"; cases "jget (db_marks db) ?k")
      (auto simp: log_transaction_def ebind_Inr_iff not_less split: if_splits)
  then show "P db'"
  proof cases
    case 2
    have "jget (db_usage db) ?k = Some u" using 2(2) by (cases "jget (db_usage db) ?k") (auto simp: usage_of_def)
    then show ?thesis using assms(2) [OF 2(1) _ 2(3,4) refl 2(5,6,7)] by simp
  qed (use assms(1) in simp)
qed

lemma log_appended_keeps: "keeps_agents db (log_appended k n ty c now m u db) \<and> keeps_sessions db (log_appended k n ty c now m u db)
    \<and> keeps_effects db (log_appended k n ty c now m u db)"
  by (cases k) (simp add: keeps_defs log_appended_def)

lemma log_keeps: "keeps_agents db (snd (append_log cfg owner ws i n ty content now db)) \<and> keeps_sessions db (snd (append_log cfg owner ws i n ty content now db))
    \<and> keeps_effects db (snd (append_log cfg owner ws i n ty content now db))"
proof (rule append_log_cases [OF _ _ refl, where P = "\<lambda>x. keeps_agents db x \<and> keeps_sessions db x \<and> keeps_effects db x"])
  fix r u m c
  assume "enforce_log_caps cfg (owner, ws, i, n) (log_appended (owner, ws, i, n) (ac_utf8 cfg c) ty c now m u db) = Inr (snd (append_log cfg owner ws i n ty content now db))"
  from keeps_trans [OF log_appended_keeps enforce_keeps [OF this]]
  show "keeps_agents db (snd (append_log cfg owner ws i n ty content now db)) \<and> keeps_sessions db (snd (append_log cfg owner ws i n ty content now db))
    \<and> keeps_effects db (snd (append_log cfg owner ws i n ty content now db))" .
qed simp

lemma purge_keeps: "keeps_sessions db (snd (purge_expired_tombstones owner ws now db))" "keeps_logs db (snd (purge_expired_tombstones owner ws now db))"
    "keeps_effects db (snd (purge_expired_tombstones owner ws now db))"
  by (simp_all add: keeps_defs purge_expired_tombstones_def Let_def)

lemma append_keeps: "keeps_agents db (snd (append_session_message cfg du owner ws i n e seq v now db))" "keeps_logs db (snd (append_session_message cfg du owner ws i n e seq v now db))"
    "keeps_effects db (snd (append_session_message cfg du owner ws i n e seq v now db))"
  by (auto simp: keeps_defs append_session_message_def snd_immediate set_session_def Let_def split: option.split)

lemma discontinue_keeps: "keeps_agents db (discontinue_session i now db)" "keeps_logs db (discontinue_session i now db)" "keeps_effects db (discontinue_session i now db)"
  by (simp_all add: keeps_defs discontinue_session_def)

lemma purge_sessions_keeps: "keeps_agents db (fold (purge_session now) js db) \<and> keeps_logs db (fold (purge_session now) js db) \<and> keeps_effects db (fold (purge_session now) js db)"
  by (induction js arbitrary: db) (auto simp: keeps_defs purge_session_def set_session_def)

lemma retire_keeps: "keeps_agents db (snd (purge_expired_sessions now lmt db))" "keeps_logs db (snd (purge_expired_sessions now lmt db))"
    "keeps_effects db (snd (purge_expired_sessions now lmt db))"
  using purge_sessions_keeps [of db now "due_sessions now lmt db"] by (simp_all add: purge_expired_sessions_def Let_def)

lemma delete_keeps: "keeps_agents db (snd (delete_workspace_sessions owner ws db))" "keeps_logs db (snd (delete_workspace_sessions owner ws db))"
  by (simp_all add: keeps_defs delete_workspace_sessions_def delete_session_rows_def Let_def)

lemma close_keeps: "keeps_sessions db (snd (close_workspace_admission owner ws now g db))" "keeps_logs db (snd (close_workspace_admission owner ws now g db))"
    "keeps_effects db (snd (close_workspace_admission owner ws now g db))"
  by (auto simp: keeps_defs close_workspace_admission_def shut_admission_def shut_agents_def split: option.split)

lemma transit_keeps: "keeps_logs db (snd (transition_status cfg draw t db))" "keeps_effects db (snd (transition_status cfg draw t db))"
  by (auto simp: keeps_defs transition_status_def Let_def emit_terminal_def seal_session_def split: sum.split)

end
