(* ===== verification/AgentFacts.thy ===== *)
theory AgentFacts
  imports AgentSteps
begin

text \<open>What the operations do to the agents and tombstones, and the invariant of these tables.\<close>

section \<open>Moves\<close>

definition space_key :: "agent_rec \<Rightarrow> string \<times> string \<times> string" where
  "space_key r = (ar_owner r, ar_workspace r, ar_key r)"

definition tomb_key :: "tombstone \<Rightarrow> string \<times> string \<times> string" where
  "tomb_key t = (tb_owner t, tb_workspace t, tb_key t)"

definition parent_slot :: "agent_rec \<Rightarrow> string \<times> string \<times> string option" where
  "parent_slot r = (ar_owner r, ar_workspace r, ar_parent r)"

definition room_for :: "agent_limits \<Rightarrow> agent_rec \<Rightarrow> agent_rec list \<Rightarrow> bool" where
  "room_for l n as =
     (count_where is_active as < al_global_active l
      \<and> count_where (\<lambda>r. ar_owner r = ar_owner n \<and> is_active r) as < al_principal_active l
      \<and> count_where (\<lambda>r. in_space (ar_owner n) (ar_workspace n) r \<and> is_active r) as < al_workspace_active l
      \<and> (ar_parent n = None \<or> count_where (\<lambda>r. in_space (ar_owner n) (ar_workspace n) r \<and> ar_parent r = ar_parent n \<and> is_active r) as < al_parent_active l))"

definition new_row :: "agent_rec \<Rightarrow> bool" where
  "new_row n = (ar_status n = Spawning \<and> ar_gen n = 1 \<and> ar_spawn_open n \<and> ar_message_open n \<and> ar_started n = None \<and> ar_terminal n = None \<and> \<not> ar_unknown n)"

inductive agents_write :: "agent_config \<Rightarrow> agent_rec list \<times> tombstone list \<Rightarrow> agent_rec list \<times> tombstone list \<Rightarrow> bool" for cfg where
  spawned: "new_row n \<Longrightarrow> ar_rowid n = next_rowid as \<Longrightarrow> ar_id n \<notin> ar_id ` set as \<Longrightarrow> ar_lease n \<notin> ar_lease ` set as \<Longrightarrow> space_key n \<notin> space_key ` set as
    \<Longrightarrow> space_key n \<notin> tomb_key ` set ts \<Longrightarrow> room_for (ac_limits cfg) n as \<Longrightarrow> agents_write cfg (as, ts) (as @ [n], ts)"
| moved: "transition_check cfg t = Inr () \<Longrightarrow> agents_write cfg (as, ts) (update_where (transition_applies t) (transition_row t) as, ts)"
| shut: "(\<And>r. c r \<Longrightarrow> is_active r) \<Longrightarrow> agents_write cfg (as, ts) (update_where c (\<lambda>r. r\<lparr>ar_spawn_open := False, ar_message_open := False\<rparr>) as, ts)"

inductive agents_clean :: "agent_config \<Rightarrow> agent_rec list \<times> tombstone list \<Rightarrow> agent_rec list \<times> tombstone list \<Rightarrow> bool" for cfg where
  compacted: "(\<And>r. r \<in> set as \<Longrightarrow> in_space owner ws r \<Longrightarrow> \<not> is_active r) \<Longrightarrow> put_tombstones (map (tombstone_of cfg now) (filter (in_space owner ws) as)) ts = Inr ts'
    \<Longrightarrow> agents_clean cfg (as, ts) (filter (\<lambda>r. \<not> in_space owner ws r) as, ts')"
| forgotten: "agents_clean cfg (as, ts) (as, filter c ts)"

definition agents_of :: "'x agent_db \<Rightarrow> agent_rec list \<times> tombstone list" where
  "agents_of db = (db_agents db, db_tombs db)"

lemma keeps_agents_of: "keeps_agents a b \<longleftrightarrow> agents_of b = agents_of a"
  by (simp add: keeps_agents_def agents_of_def)

section \<open>Spawning\<close>

text \<open>A reservation answers from a record that exists, or inserts one and nothing else of the agents.\<close>

lemma count_lifetime_agents [simp]: "db_agents (count_lifetime owner ws g now db) = db_agents db" "db_tombs (count_lifetime owner ws g now db) = db_tombs db"
    "db_sessions (count_lifetime owner ws g now db) = db_sessions db" "db_session_log (count_lifetime owner ws g now db) = db_session_log db"
    "db_chunks (count_lifetime owner ws g now db) = db_chunks db" "db_marks (count_lifetime owner ws g now db) = db_marks db"
    "db_effects (count_lifetime owner ws g now db) = db_effects db" "db_epochs (count_lifetime owner ws g now db) = db_epochs db"
  by (simp_all add: count_lifetime_def split: option.split)

lemma ensure_admission_tables [simp]: "db_agents (ensure_admission owner ws g now db) = db_agents db" "db_tombs (ensure_admission owner ws g now db) = db_tombs db"
    "db_sessions (ensure_admission owner ws g now db) = db_sessions db" "db_session_log (ensure_admission owner ws g now db) = db_session_log db"
    "db_chunks (ensure_admission owner ws g now db) = db_chunks db" "db_marks (ensure_admission owner ws g now db) = db_marks db"
    "db_effects (ensure_admission owner ws g now db) = db_effects db" "db_epochs (ensure_admission owner ws g now db) = db_epochs db"
  by (simp_all add: ensure_admission_def)

text \<open>The tables a spawn is decided on.\<close>

lemma ensure_admission_queries [simp]:
  "find_agent o' w i (ensure_admission owner ws g now db) = find_agent o' w i db"
  "find_session i (ensure_admission owner ws g now db) = find_session i db"
  "find_successor i (ensure_admission owner ws g now db) = find_successor i db"
  "log_rows i n (ensure_admission owner ws g now db) = log_rows i n db"
  by (simp_all add: find_agent_def find_session_def find_successor_def log_rows_def)

lemma load_session_log_cong:
  "db_sessions db' = db_sessions db \<Longrightarrow> db_session_log db' = db_session_log db \<Longrightarrow> load_session_log cfg i g db' = load_session_log cfg i g db"
proof -
  assume same: "db_sessions db' = db_sessions db" "db_session_log db' = db_session_log db"
  then have "find_session i db' = find_session i db" "log_rows i g db' = log_rows i g db" by (simp_all add: find_session_def log_rows_def)
  then show ?thesis by (simp only: load_session_log_def)
qed

lemma insert_agent_Inr:
  "insert_agent n db = Inr db' \<longleftrightarrow> agent_insertable n db \<and> db' = db\<lparr>db_agents := db_agents db @ [n], db_usage := jset (key_of n) empty_usage (db_usage db),
        db_marks := jset (key_of n) \<lparr>lm_base = 0, lm_next = 0, lm_bytes = 0, lm_events = 0\<rparr> (db_marks db)\<rparr>"
  by (auto simp: insert_agent_def)

lemma insert_session_Inr:
  "insert_session i owner ws g now source db = Inr db' \<longleftrightarrow>
     \<not> session_taken (new_session i owner ws g now (map_option snd source)) db
     \<and> db' = db\<lparr>db_sessions := db_sessions db @ [new_session i owner ws g now (map_option snd source)],
        db_session_log := db_session_log db @ (case source of None \<Rightarrow> []
          | Some (r, s) \<Rightarrow> map (\<lambda>m. m\<lparr>sm_agent := i, sm_gen := 1\<rparr>) (log_rows (ar_id r) (ar_gen r) db))\<rparr>"
  by (auto simp: insert_session_def Let_def)

lemma spawn_new_Inr:
  assumes "spawn_new cfg du x s a db = Inr ((replayed, n), db')"
  obtains pg source y where "\<not> replayed" "n = new_agent x pg (next_rowid (db_agents db))" "retained_check (ac_limits cfg) (si_owner x) (si_workspace x) db = Inr ()"
    "active_check (ac_limits cfg) x db = Inr ()" "agent_insertable n db" "continuation_check cfg du x db = Inr source"
    "db_agents db' = db_agents db @ [n]" "db_tombs db' = db_tombs db" "db_effects db' = db_effects db" "db_chunks db' = db_chunks db" "db_epochs db' = db_epochs db"
    "db_marks db' = jset (key_of n) \<lparr>lm_base = 0, lm_next = 0, lm_bytes = 0, lm_events = 0\<rparr> (db_marks db)"
    "if si_session x = None then db_sessions db' = db_sessions db \<and> db_session_log db' = db_session_log db
     else (let m = new_session (si_id x) (si_owner x) (si_workspace x) (si_ws_gen x) (si_now x) (map_option snd source) in
       \<not> session_taken m db \<and> db_sessions db' = db_sessions db @ [m]
       \<and> db_session_log db' = db_session_log db @ (case source of None \<Rightarrow> []
          | Some (r, s) \<Rightarrow> map (\<lambda>m. m\<lparr>sm_agent := si_id x, sm_gen := 1\<rparr>) (log_rows (ar_id r) (ar_gen r) db)))"
proof -
  obtain pg source y db3 where h: "retained_check (ac_limits cfg) (si_owner x) (si_workspace x) db = Inr ()" "active_check (ac_limits cfg) x db = Inr ()"
      "continuation_check cfg du x db = Inr source" and n: "\<not> replayed" "n = new_agent x pg (next_rowid (db_agents db))"
      and i: "agent_insertable n (db\<lparr>db_other := y\<rparr>)"
      and d: "(if si_session x = None then Inr (count_lifetime (si_owner x) (si_workspace x) (si_ws_gen x) (si_now x)
            (db\<lparr>db_other := y, db_agents := db_agents db @ [n], db_usage := jset (key_of n) empty_usage (db_usage db),
              db_marks := jset (key_of n) \<lparr>lm_base = 0, lm_next = 0, lm_bytes = 0, lm_events = 0\<rparr> (db_marks db)\<rparr>))
          else insert_session (si_id x) (si_owner x) (si_workspace x) (si_ws_gen x) (si_now x) source (count_lifetime (si_owner x) (si_workspace x) (si_ws_gen x) (si_now x)
            (db\<lparr>db_other := y, db_agents := db_agents db @ [n], db_usage := jset (key_of n) empty_usage (db_usage db),
              db_marks := jset (key_of n) \<lparr>lm_base = 0, lm_next = 0, lm_bytes = 0, lm_events = 0\<rparr> (db_marks db)\<rparr>))) = Inr db'"
    using assms unfolding spawn_new_def Let_def ebind_Inr_iff insert_agent_Inr by auto
  have ins: "agent_insertable n db" using i by (simp add: agent_insertable_def)
  let ?m = "new_session (si_id x) (si_owner x) (si_workspace x) (si_ws_gen x) (si_now x) (map_option snd source)"
  show ?thesis
  proof (cases "si_session x = None")
    case True
    then show ?thesis using d by (intro that [OF n h(1,2) ins h(3)]) auto
  next
    case False
    have "session_taken ?m (db\<lparr>db_other := z, db_agents := as, db_usage := u, db_marks := k\<rparr>) = session_taken ?m db"
      "log_rows j g (db\<lparr>db_other := z, db_agents := as, db_usage := u, db_marks := k\<rparr>) = log_rows j g db" for z as u k j g
      by (simp_all add: session_taken_def log_rows_def)
    moreover have "session_taken ?m (count_lifetime o1 w1 g1 t1 db2) = session_taken ?m db2" "log_rows j g (count_lifetime o1 w1 g1 t1 db2) = log_rows j g db2"
      for o1 w1 g1 t1 j g and db2 :: "'a agent_db" by (simp_all add: session_taken_def log_rows_def)
    ultimately show ?thesis using False d by (intro that [OF n h(1,2) ins h(3)]) (auto simp: insert_session_Inr Let_def split: option.split)
  qed
qed

lemma reserve_spawn_cases:
  assumes "reserve_spawn cfg du x db = (res, db')"
  obtains (refused) e where "res = Inl e" "db' = db"
  | (replay) r where "res = Inr (True, r)" "db' = ensure_admission (si_owner x) (si_workspace x) (si_ws_gen x) (si_now x) db"
      "find_by_idempotency (si_owner x) (si_workspace x) (si_key x) db = Some r" "ar_payload r = si_payload x"
  | (spawn) n s a where "res = Inr (False, n)" "spawn_new cfg du x s a (ensure_admission (si_owner x) (si_workspace x) (si_ws_gen x) (si_now x) db) = Inr ((False, n), db')"
      "find_by_idempotency (si_owner x) (si_workspace x) (si_key x) db = None"
      "find (\<lambda>t. tb_owner t = si_owner x \<and> tb_workspace t = si_workspace x \<and> tb_key t = si_key x) (db_tombs db) = None" "epoch_check cfg x db = Inr ()"
      "find_space (si_owner x) (si_workspace x) (si_ws_gen x) db = Some s" "space_eligible s"
proof (cases res)
  case (Inl e)
  then have "db' = db" using assms by (auto simp: reserve_spawn_def immediate_def split: if_splits sum.splits)
  then show ?thesis using refused Inl by blast
next
  case (Inr p)
  obtain b n where p: "p = (b, n)" by (cases p)
  let ?db1 = "ensure_admission (si_owner x) (si_workspace x) (si_ws_gen x) (si_now x) db"
  have idem: "find_by_idempotency o' w k ?db1 = find_by_idempotency o' w k db" for o' w k
    by (simp add: find_by_idempotency_def)
  from assms Inr p have run: "spawn_lease_ok (si_lease x)" "immediate (\<lambda>db.
        ebind (epoch_check cfg x db) (\<lambda>_.
        (case find_space (si_owner x) (si_workspace x) (si_ws_gen x) db of
           None \<Rightarrow> Inl (Refused (HarnessError ''NOT_FOUND'' ''workspace was not found'' 404 False))
         | Some s \<Rightarrow>
             if \<not> space_eligible s then Inl not_eligible_for_agents
             else (let db1 = ensure_admission (si_owner x) (si_workspace x) (si_ws_gen x) (si_now x) db in
               (case jget (db_admissions db1) (si_owner x, si_workspace x) of
                  None \<Rightarrow> Inl TypeFailed
                | Some a \<Rightarrow>
                    if wa_gen a \<noteq> si_ws_gen x \<or> \<not> wa_spawn a then Inl (conflict ''workspace agent admission is closed'' False)
                    else (case find_by_idempotency (si_owner x) (si_workspace x) (si_key x) db1 of
                        Some r \<Rightarrow> if ar_payload r \<noteq> si_payload x then Inl used_key else Inr ((True, r), db1)
                      | None \<Rightarrow> (case find (\<lambda>t. tb_owner t = si_owner x \<and> tb_workspace t = si_workspace x \<and> tb_key t = si_key x) (db_tombs db1) of
                            Some t \<Rightarrow> if tb_payload t \<noteq> si_payload x then Inl used_key
                              else Inl (conflict ''spawn replay is retained as a closed-workspace tombstone'' False)
                          | None \<Rightarrow> spawn_new cfg du x s a db1)))))) ) db = (Inr (b, n), db')"
    by (auto simp: reserve_spawn_def split: if_splits)
  have epoch: "epoch_check cfg x db = Inr ()"
    using run(2) by (cases "epoch_check cfg x db") (auto simp: immediate_def)
  obtain s where s: "find_space (si_owner x) (si_workspace x) (si_ws_gen x) db = Some s" "space_eligible s"
    using run(2) epoch by (cases "find_space (si_owner x) (si_workspace x) (si_ws_gen x) db") (auto simp: immediate_def split: if_splits)
  obtain a where a: "jget (db_admissions ?db1) (si_owner x, si_workspace x) = Some a" "wa_gen a = si_ws_gen x" "wa_spawn a"
    using run(2) epoch s by (cases "jget (db_admissions ?db1) (si_owner x, si_workspace x)") (auto simp: immediate_def Let_def split: if_splits)
  show ?thesis
  proof (cases "find_by_idempotency (si_owner x) (si_workspace x) (si_key x) db")
    case (Some r)
    then show ?thesis using replay [of r] run(2) epoch s a Inr p idem by (auto simp: immediate_def Let_def split: if_splits)
  next
    case None
    show ?thesis
    proof (cases "find (\<lambda>t. tb_owner t = si_owner x \<and> tb_workspace t = si_workspace x \<and> tb_key t = si_key x) (db_tombs db)")
      case (Some t)
      then show ?thesis using run(2) epoch s a None idem by (auto simp: immediate_def Let_def split: if_splits)
    next
      case no_tomb: None
      have "spawn_new cfg du x s a ?db1 = Inr ((b, n), db')"
        using run(2) epoch s a None no_tomb idem by (auto simp: immediate_def Let_def split: sum.splits)
      moreover from this have "\<not> b" by (rule spawn_new_Inr)
      ultimately show ?thesis using spawn [of n s a] None no_tomb epoch s Inr p by simp
    qed
  qed
qed

section \<open>Every step is a move\<close>

lemma spawn_agents: "agents_of (snd (reserve_spawn cfg du x db)) = agents_of db \<or> agents_write cfg (agents_of db) (agents_of (snd (reserve_spawn cfg du x db)))"
proof -
  obtain res db' where run: "reserve_spawn cfg du x db = (res, db')" by (cases "reserve_spawn cfg du x db")
  then show ?thesis
  proof (cases rule: reserve_spawn_cases)
    case (spawn n s a)
    let ?db1 = "ensure_admission (si_owner x) (si_workspace x) (si_ws_gen x) (si_now x) db"
    from spawn(2) obtain pg where n: "n = new_agent x pg (next_rowid (db_agents db))" and active: "active_check (ac_limits cfg) x ?db1 = Inr ()"
      and ins: "agent_insertable n ?db1" and tables: "db_agents db' = db_agents db @ [n]" "db_tombs db' = db_tombs db"
      by (rule spawn_new_Inr) simp
    have row: "new_row n" "ar_rowid n = next_rowid (db_agents db)" "ar_owner n = si_owner x" "ar_workspace n = si_workspace x" "ar_key n = si_key x" "ar_parent n = si_parent x"
      by (simp_all add: n new_row_def new_agent_def)
    have "room_for (ac_limits cfg) n (db_agents db)"
      using active by (auto simp: active_check_def echeck_Inr_iff room_for_def row)
    moreover have "ar_id n \<notin> ar_id ` set (db_agents db)" "ar_lease n \<notin> ar_lease ` set (db_agents db)" "space_key n \<notin> space_key ` set (db_agents db)"
      using ins by (auto simp: agent_insertable_def list_ex_iff space_key_def)
    moreover have "space_key n \<notin> tomb_key ` set (db_tombs db)"
      using spawn(4) by (auto simp: find_None_iff space_key_def tomb_key_def row)
    ultimately have "agents_write cfg (db_agents db, db_tombs db) (db_agents db @ [n], db_tombs db)"
      using row(1,2) by (intro spawned)
    then show ?thesis by (simp add: run agents_of_def tables)
  qed (simp_all add: run agents_of_def)
qed

lemma emit_terminal_tables [simp]: "db_agents (emit_terminal cfg draw owner ws i now db) = db_agents db" "db_tombs (emit_terminal cfg draw owner ws i now db) = db_tombs db"
  "db_sessions (emit_terminal cfg draw owner ws i now db) = db_sessions db" "db_session_log (emit_terminal cfg draw owner ws i now db) = db_session_log db"
  by (simp_all add: emit_terminal_def)

lemma seal_session_tables [simp]: "db_agents (seal_session cfg i st now rs db) = db_agents db" "db_tombs (seal_session cfg i st now rs db) = db_tombs db"
  "db_session_log (seal_session cfg i st now rs db) = db_session_log db"
  by (simp_all add: seal_session_def)

lemma transit_cases:
  obtains (refused) e where "transition_check cfg t = Inl e" "snd (transition_status cfg draw t db) = db"
  | (applied) "transition_check cfg t = Inr ()" "db_agents (snd (transition_status cfg draw t db)) = update_where (transition_applies t) (transition_row t) (db_agents db)"
      "db_tombs (snd (transition_status cfg draw t db)) = db_tombs db"
proof (cases "transition_check cfg t")
  case (Inr u)
  then show ?thesis using applied by (simp add: transition_status_def Let_def)
qed (use refused in \<open>simp add: transition_status_def\<close>)

lemma transit_agents: "agents_of (snd (transition_status cfg draw t db)) = agents_of db \<or> agents_write cfg (agents_of db) (agents_of (snd (transition_status cfg draw t db)))"
  by (rule transit_cases [of cfg t draw db]) (auto simp: agents_of_def intro: moved)

lemma shut_admission_agents [simp]: "db_agents (snd (shut_admission owner ws g now db)) = db_agents db" "db_tombs (snd (shut_admission owner ws g now db)) = db_tombs db"
  "db_sessions (snd (shut_admission owner ws g now db)) = db_sessions db" "db_session_log (snd (shut_admission owner ws g now db)) = db_session_log db"
  "db_chunks (snd (shut_admission owner ws g now db)) = db_chunks db" "db_marks (snd (shut_admission owner ws g now db)) = db_marks db"
  by (simp_all add: shut_admission_def split: option.split)

lemma shut_agents_write: "agents_write cfg (agents_of db) (agents_of (shut_agents owner ws g (snd (shut_admission owner ws g' now db))))"
  unfolding agents_of_def shut_agents_def by (simp, rule shut) simp

lemma close_agents: "agents_write cfg (agents_of db) (agents_of (snd (close_workspace_admission owner ws now g db)))"
  using shut_agents_write [of cfg db owner ws g g now] by (simp add: close_workspace_admission_def case_prod_beta)

lemma repair_cases:
  assumes "P db" "\<And>db' rows dm. snd (prepare_startup_repair cfg owner ws g now db) = db' \<Longrightarrow>
      db_agents dm = db_agents (shut_agents owner ws (Some g) (snd (shut_admission owner ws (Some g) now db))) \<Longrightarrow> db_tombs dm = db_tombs db
      \<Longrightarrow> db_sessions dm = db_sessions db \<Longrightarrow> db_session_log dm = db_session_log db \<Longrightarrow> db_chunks dm = db_chunks db \<Longrightarrow> db_marks dm = db_marks db
      \<Longrightarrow> enforce_all cfg rows dm = Inr db' \<Longrightarrow> P db'"
  shows "P (snd (prepare_startup_repair cfg owner ws g now db))"
proof -
  let ?db1 = "shut_agents owner ws (Some g) (snd (shut_admission owner ws (Some g) now db))"
  let ?gens = "set (map ar_gen (filter (\<lambda>r. in_space owner ws r \<and> ar_ws_gen r = g) (db_agents ?db1)))"
  let ?db2 = "?db1\<lparr>db_messages := update_where (\<lambda>m. mg_owner m = owner \<and> mg_workspace m = ws \<and> mg_gen m \<in> ?gens \<and> mg_state m = MessageReserved)
                  (\<lambda>m. m\<lparr>mg_state := MessageUnknown, mg_updated := now, mg_error := Some ''runner restart interrupted delivery''\<rparr>) (db_messages ?db1),
                db_effects := update_where (\<lambda>e. ef_owner e = owner \<and> ef_workspace e = ws \<and> ef_gen e \<in> ?gens \<and> ef_state e \<in> {EffectIntent, EffectDispatched})
                  (\<lambda>e. e\<lparr>ef_state := EffectUnknown, ef_updated := now\<rparr>) (db_effects ?db1)\<rparr>"
  let ?rows = "order_by (\<lambda>a b. ar_created a < ar_created b) (filter (\<lambda>r. in_space owner ws r \<and> ar_ws_gen r = g) (db_agents ?db1))"
  have run: "snd (prepare_startup_repair cfg owner ws g now db) = (case enforce_all cfg ?rows ?db2 of Inl e \<Rightarrow> db | Inr db3 \<Rightarrow> db3)"
    by (cases "enforce_all cfg ?rows ?db2") (auto simp: prepare_startup_repair_def snd_immediate Let_def)
  show ?thesis
  proof (cases "enforce_all cfg ?rows ?db2")
    case (Inl e)
    then show ?thesis using assms(1) run by simp
  next
    case (Inr db3)
    show ?thesis unfolding run by (rule assms(2) [where dm = ?db2 and rows = ?rows]) (use run Inr in \<open>simp_all add: shut_agents_def\<close>)
  qed
qed

lemma repair_agents: "agents_of (snd (prepare_startup_repair cfg owner ws g now db)) = agents_of db \<or> agents_write cfg (agents_of db) (agents_of (snd (prepare_startup_repair cfg owner ws g now db)))"
proof (rule repair_cases [where P = "\<lambda>x. agents_of x = agents_of db \<or> agents_write cfg (agents_of db) (agents_of x)"])
  fix db' rows db2
  assume "db_agents db2 = db_agents (shut_agents owner ws (Some g) (snd (shut_admission owner ws (Some g) now db)))" "db_tombs db2 = db_tombs db"
    and run: "enforce_all cfg rows db2 = Inr db'"
  then have "agents_of db2 = agents_of (shut_agents owner ws (Some g) (snd (shut_admission owner ws (Some g) now db)))"
    by (simp add: agents_of_def shut_agents_def)
  moreover have "agents_of db' = agents_of db2" using enforce_all_keeps [OF run] by (simp add: keeps_agents_of)
  ultimately show "agents_of db' = agents_of db \<or> agents_write cfg (agents_of db) (agents_of db')" using shut_agents_write by metis
qed simp

lemma drop_agents_tables [simp]: "db_agents (drop_agents c db) = filter (\<lambda>r. \<not> c r) (db_agents db)" "db_tombs (drop_agents c db) = db_tombs db"
  by (simp_all add: drop_agents_def Let_def)

lemma drop_space_tables [simp]: "db_agents (drop_space_rows owner ws db) = db_agents db" "db_tombs (drop_space_rows owner ws db) = db_tombs db"
  "db_sessions (drop_space_rows owner ws db) = db_sessions db" "db_session_log (drop_space_rows owner ws db) = db_session_log db"
  by (simp_all add: drop_space_rows_def)

lemma delete_rows_tables [simp]: "db_agents (snd (delete_session_rows owner ws db)) = db_agents db" "db_tombs (snd (delete_session_rows owner ws db)) = db_tombs db"
  by (simp_all add: delete_session_rows_def Let_def)

text \<open>A compaction refuses, or takes the workspace's ended agents out.\<close>

definition compacted_tables :: "string \<Rightarrow> string \<Rightarrow> 'x agent_db \<Rightarrow> 'x agent_db" where
  "compacted_tables owner ws db = drop_agents (in_space owner ws) (snd (delete_session_rows owner ws (drop_space_rows owner ws db)))"

lemma compact_cases:
  assumes "P db" "\<And>ts adm. \<forall>r \<in> set (db_agents db). in_space owner ws r \<longrightarrow> \<not> is_active r
      \<Longrightarrow> put_tombstones (map (tombstone_of cfg now) (filter (in_space owner ws) (db_agents db))) (db_tombs db) = Inr ts
      \<Longrightarrow> P ((compacted_tables owner ws (db\<lparr>db_tombs := ts\<rparr>))\<lparr>db_admissions := adm\<rparr>)"
  shows "P (snd (compact_closed_workspace cfg owner ws g now db))"
proof -
  let ?rows = "filter (in_space owner ws) (db_agents db)"
  have same: "d = d\<lparr>db_admissions := db_admissions d\<rparr>" for d :: "'a agent_db" by simp
  consider "snd (compact_closed_workspace cfg owner ws g now db) = db"
    | ts adm where "\<not> list_ex is_active ?rows" "put_tombstones (map (tombstone_of cfg now) ?rows) (db_tombs db) = Inr ts"
        "snd (compact_closed_workspace cfg owner ws g now db) = (compacted_tables owner ws (db\<lparr>db_tombs := ts\<rparr>))\<lparr>db_admissions := adm\<rparr>"
  proof (cases "put_tombstones (map (tombstone_of cfg now) ?rows) (db_tombs db)")
    case (Inl e)
    then show ?thesis using that(1) by (simp add: compact_closed_workspace_def snd_immediate Let_def)
  next
    case (Inr ts)
    show ?thesis
    proof (cases "list_ex is_active ?rows")
      case True
      then show ?thesis using that(1) by (simp add: compact_closed_workspace_def snd_immediate Let_def)
    next
      case False
      let ?d = "compacted_tables owner ws (db\<lparr>db_tombs := ts\<rparr>)"
      have "snd (compact_closed_workspace cfg owner ws g now db) = db
          \<or> snd (compact_closed_workspace cfg owner ws g now db) = ?d \<or> snd (compact_closed_workspace cfg owner ws g now db) = ?d\<lparr>db_admissions := jdel (owner, ws) (db_admissions ?d)\<rparr>"
        using Inr by (auto simp: compact_closed_workspace_def snd_immediate Let_def compacted_tables_def [symmetric] split: option.split)
      then show ?thesis using that(1) that(2) [OF False Inr] same by metis
    qed
  qed
  then show ?thesis
  proof cases
    case (2 ts adm)
    then show ?thesis using assms(2) [of ts adm] by (auto simp: list_ex_iff)
  qed (use assms(1) in simp)
qed

lemma compact_agents: "(agents_clean cfg)\<^sup>*\<^sup>* (agents_of db) (agents_of (snd (compact_closed_workspace cfg owner ws g now db)))"
proof (rule compact_cases [where P = "\<lambda>x. (agents_clean cfg)\<^sup>*\<^sup>* (agents_of db) (agents_of x)"])
  fix ts adm
  assume "\<forall>r \<in> set (db_agents db). in_space owner ws r \<longrightarrow> \<not> is_active r"
    "put_tombstones (map (tombstone_of cfg now) (filter (in_space owner ws) (db_agents db))) (db_tombs db) = Inr ts"
  then have "agents_clean cfg (agents_of db) (agents_of ((compacted_tables owner ws (db\<lparr>db_tombs := ts\<rparr>))\<lparr>db_admissions := adm\<rparr>))"
    unfolding agents_of_def compacted_tables_def by simp (rule compacted, auto)
  then show "(agents_clean cfg)\<^sup>*\<^sup>* (agents_of db) (agents_of ((compacted_tables owner ws (db\<lparr>db_tombs := ts\<rparr>))\<lparr>db_admissions := adm\<rparr>))" by blast
qed simp

lemma purge_agents: "(agents_clean cfg)\<^sup>*\<^sup>* (agents_of db) (agents_of (snd (purge_expired_tombstones owner ws now db)))"
  by (rule r_into_rtranclp) (simp add: agents_of_def purge_expired_tombstones_def Let_def forgotten)

text \<open>Maintenance is compactions and purges in turn.\<close>

lemma maintain_spaces_cases:
  assumes "P db" and compact: "\<And>d owner ws g. P d \<Longrightarrow> P (snd (compact_closed_workspace cfg owner ws g now d))"
    and purge: "\<And>d owner ws. P d \<Longrightarrow> P (snd (purge_expired_tombstones owner ws now d))"
  shows "P (snd (maintain_spaces cfg now cs db))"
  using assms(1)
proof (induction cs arbitrary: db)
  case (Cons c cs)
  obtain s cm pg where c: "c = (s, cm, pg)" by (cases c)
  obtain r1 d1 where first: "(if cm then compact_closed_workspace cfg (sp_owner s) (sp_id s) (sp_gen s) now db else (Inr 0, db)) = (r1, d1)" by fastforce
  obtain n d2 where second: "(if cm \<or> pg then purge_expired_tombstones (sp_owner s) (sp_id s) now d1 else (0, d1)) = (n, d2)" by fastforce
  have "P d1" using first Cons.prems compact [of db "sp_owner s" "sp_id s" "sp_gen s"] by (auto split: if_splits)
  moreover from this have "P d2" using second purge [of d1 "sp_owner s" "sp_id s"] by (auto split: if_splits)
  moreover have "snd (maintain_spaces cfg now (c # cs) db) \<in> {d1, snd (maintain_spaces cfg now cs d2)}"
    unfolding c maintain_spaces.simps first by (cases r1) (auto simp only: second prod.case sum.case split: sum.split prod.split, auto)
  ultimately show ?case using Cons.IH [of d2] by auto
qed simp

lemma maintain_cases:
  assumes "P db" and "\<And>d owner ws g. P d \<Longrightarrow> P (snd (compact_closed_workspace cfg owner ws g now d))"
    and "\<And>d owner ws. P d \<Longrightarrow> P (snd (purge_expired_tombstones owner ws now d))"
  shows "P (snd (maintain_closed_workspaces cfg now lmt db))"
proof (cases "lmt < 1 \<or> 100 < lmt")
  case False
  have "\<exists>cs. snd (maintain_closed_workspaces cfg now lmt db) = snd (maintain_spaces cfg now cs db)"
    by (rule exI, cases "fst (maintain_spaces cfg now (map (\<lambda>s. (s, compactable cfg now db s, purgeable now db s))
        (take (nat lmt) (order_by (\<lambda>a b. sp_activity a < sp_activity b \<or> (sp_activity a = sp_activity b \<and> str_less (sp_id a) (sp_id b)))
          (filter (\<lambda>s. sp_status s = ''CLOSED'' \<and> (compactable cfg now db s \<or> purgeable now db s)) (db_spaces db))))) db)")
      (use False in \<open>auto simp: maintain_closed_workspaces_def case_prod_beta\<close>)
  then show ?thesis using maintain_spaces_cases [of P db cfg now] assms by metis
qed (use assms(1) in \<open>auto simp: maintain_closed_workspaces_def\<close>)

lemma maintain_agents: "(agents_clean cfg)\<^sup>*\<^sup>* (agents_of db) (agents_of (snd (maintain_closed_workspaces cfg now lmt db)))"
  by (rule maintain_cases [where P = "\<lambda>x. (agents_clean cfg)\<^sup>*\<^sup>* (agents_of db) (agents_of x)"])
    (simp, erule rtranclp_trans [OF _ compact_agents], erule rtranclp_trans [OF _ purge_agents])

lemma step_agents:
  assumes "agent_step cfg a b"
  shows "agents_of b = agents_of a \<or> agents_write cfg (agents_of a) (agents_of b) \<or> (agents_clean cfg)\<^sup>*\<^sup>* (agents_of a) (agents_of b)"
  using assms
proof cases
  case (spawns du x)
  then show ?thesis using spawn_agents by metis
next
  case (transits draw t)
  then show ?thesis using transit_agents by metis
next
  case (closes owner ws now g)
  then show ?thesis using close_agents by metis
next
  case (repairs owner ws n now)
  then show ?thesis using repair_agents by metis
next
  case (compacts owner ws n now)
  then show ?thesis using compact_agents by metis
next
  case (purges owner ws now)
  then show ?thesis using purge_agents by metis
next
  case (maintains now lmt)
  then show ?thesis using maintain_agents by metis
next
  case (logs owner ws i n ty content now)
  then show ?thesis using log_keeps [of a] by (simp add: keeps_agents_of)
qed (simp_all add: keeps_agents_of [symmetric] others_keeps bump_keeps open_keeps message_keeps answer_keeps usage_keeps reserve_keeps dispatch_keeps
    complete_keeps change_keeps forget_keeps retry_keeps clear_keeps append_keeps discontinue_keeps retire_keeps delete_keeps)

end
