(* ===== verification/AgentInvariant.thy ===== *)
theory AgentInvariant
  imports AgentFacts
begin

text \<open>
  The invariant of the agents and tombstones tables, the capacity bounds, and the life of one agent record: what holds
  in every database the repository can reach.
\<close>

section \<open>One row\<close>

definition row_ok :: "agent_rec \<Rightarrow> bool" where
  "row_ok r = (ar_gen r = 1 \<and> (is_active r \<longleftrightarrow> ar_terminal r = None)
     \<and> (ar_status r \<noteq> Spawning \<and> ar_status r \<noteq> Running \<longrightarrow> \<not> ar_spawn_open r \<and> \<not> ar_message_open r)
     \<and> (ar_unknown r \<longleftrightarrow> ar_status r = Interrupted)
     \<and> (ar_status r = Spawning \<longrightarrow> ar_started r = None) \<and> (ar_status r = Running \<longrightarrow> ar_started r \<noteq> None))"

lemma status_cases: "is_active r \<longleftrightarrow> ar_status r \<notin> set terminal_statuses"
  by (cases "ar_status r") (simp_all add: is_active_def active_statuses_def terminal_statuses_def)

lemma transition_check_Inr:
  assumes "transition_check cfg t = Inr ()"
  shows "ti_expected t \<noteq> []" "ti_unknown t = Some True \<longleftrightarrow> ti_status t = Interrupted"
    "s \<in> set (ti_expected t) \<Longrightarrow> ti_status t \<in> set (status_transitions s)"
  using assms by (auto simp: transition_check_def ebind_Inr_iff echeck_Inr_iff list_all_iff)

lemma transitions_from:
  "u \<in> set (status_transitions s) \<Longrightarrow> s \<in> set active_statuses"
  "Running \<in> set (status_transitions s) \<Longrightarrow> s = Spawning"
  "Spawning \<notin> set (status_transitions s)"
  by (cases s; auto simp: status_transitions_def active_statuses_def)+

lemma transition_row_fields [simp]:
  "ar_rowid (transition_row t r) = ar_rowid r" "ar_id (transition_row t r) = ar_id r" "ar_owner (transition_row t r) = ar_owner r"
  "ar_workspace (transition_row t r) = ar_workspace r" "ar_lease (transition_row t r) = ar_lease r" "ar_key (transition_row t r) = ar_key r"
  "ar_gen (transition_row t r) = ar_gen r" "ar_parent (transition_row t r) = ar_parent r" "ar_status (transition_row t r) = ti_status t"
  "ar_payload (transition_row t r) = ar_payload r" "ar_epoch (transition_row t r) = ar_epoch r" "ar_budget (transition_row t r) = ar_budget r"
  "ar_created (transition_row t r) = ar_created r" "ar_ws_gen (transition_row t r) = ar_ws_gen r"
  by (simp_all add: transition_row_def Let_def)

lemma new_row_ok: "new_row n \<Longrightarrow> row_ok n"
  by (simp add: new_row_def row_ok_def is_active_def active_statuses_def)

lemma transition_row_ok:
  assumes "row_ok r" "transition_check cfg t = Inr ()" "transition_applies t r"
  shows "row_ok (transition_row t r)"
proof -
  note c = transition_check_Inr [OF assms(2)]
  have s: "ti_status t \<in> set (status_transitions (ar_status r))" using c(3) assms(3) by (simp add: transition_applies_def)
  then have "is_active r" "ti_status t \<noteq> Spawning" using transitions_from by (auto simp: is_active_def)
  moreover from this have "ar_terminal r = None" "\<not> ar_unknown r" using assms(1) by (auto simp: row_ok_def is_active_def active_statuses_def)
  ultimately show ?thesis
    using assms(1) c(2) unfolding row_ok_def status_cases
    by (cases "ti_status t"; cases "ti_unknown t") (auto simp: transition_row_def Let_def terminal_statuses_def)
qed

lemma shut_row_ok: "row_ok r \<Longrightarrow> row_ok (r\<lparr>ar_spawn_open := False, ar_message_open := False\<rparr>)"
  by (simp add: row_ok_def is_active_def)

section \<open>The tables\<close>

definition agents_sound :: "agent_rec list \<times> tombstone list \<Rightarrow> bool" where
  "agents_sound p = (case p of (as, ts) \<Rightarrow>
     sorted_wrt (<) (map ar_rowid as) \<and> distinct (map ar_id as) \<and> distinct (map ar_lease as)
     \<and> distinct (map space_key as @ map tomb_key ts)
     \<and> list_all row_ok as \<and> list_all (\<lambda>t. tb_status t \<in> set terminal_statuses) ts)"

lemma map_update_where: "(\<And>r. g (f r) = g r) \<Longrightarrow> map g (update_where c f rows) = map g rows"
  by (simp add: update_where_def)

lemma list_all_update_where: "list_all P rows \<Longrightarrow> (\<And>r. P r \<Longrightarrow> c r \<Longrightarrow> P (f r)) \<Longrightarrow> list_all P (update_where c f rows)"
  by (auto simp: update_where_def list_all_iff)

lemma next_rowid_above:
  assumes "sorted_wrt (<) (map ar_rowid as)" "r \<in> set as"
  shows "ar_rowid r < next_rowid as"
proof -
  obtain bs b where as: "as = bs @ [b]" using assms(2) by (cases as rule: rev_cases) auto
  then show ?thesis using assms by (auto simp: next_rowid_def sorted_wrt_append)
qed

lemma put_tombstone_keys:
  assumes "put_tombstone n ts = Inr ts'" "distinct (map tomb_key ts)" "list_all (\<lambda>t. tb_status t \<in> S) ts" "tb_status n \<in> S"
  shows "distinct (map tomb_key ts') \<and> list_all (\<lambda>t. tb_status t \<in> S) ts' \<and> tomb_key ` set ts' \<subseteq> insert (tomb_key n) (tomb_key ` set ts)"
proof (cases "list_ex (same_tombstone n) ts")
  case True
  then have ts': "ts' = update_where (same_tombstone n) (\<lambda>t. t\<lparr>tb_status := tb_status n, tb_gen := tb_gen n, tb_expires := max (tb_expires t) (tb_expires n)\<rparr>) ts"
    using assms(1) by (simp add: put_tombstone_def)
  have "map tomb_key ts' = map tomb_key ts" unfolding ts' by (rule map_update_where) (simp add: tomb_key_def)
  moreover have "list_all (\<lambda>t. tb_status t \<in> S) ts'" unfolding ts' by (rule list_all_update_where [OF assms(3)]) (simp add: assms(4))
  ultimately show ?thesis using assms(2) by (metis list.set_map subset_insertI)
next
  case False
  then have "ts' = ts @ [n]" "tomb_key n \<notin> tomb_key ` set ts"
    using assms(1) by (auto simp: put_tombstone_def tomb_key_def list_ex_iff split: if_splits)
  then show ?thesis using assms(2-4) by auto
qed

lemma put_tombstones_keys:
  assumes "put_tombstones ns ts = Inr ts'" "distinct (map tomb_key ts)" "list_all (\<lambda>t. tb_status t \<in> S) ts" "list_all (\<lambda>t. tb_status t \<in> S) ns"
  shows "distinct (map tomb_key ts') \<and> list_all (\<lambda>t. tb_status t \<in> S) ts' \<and> tomb_key ` set ts' \<subseteq> tomb_key ` set ns \<union> tomb_key ` set ts"
  using assms
proof (induction ns arbitrary: ts)
  case (Cons n ns)
  then obtain t1 where t1: "put_tombstone n ts = Inr t1" "put_tombstones ns t1 = Inr ts'" by (auto simp: ebind_Inr_iff)
  have "tb_status n \<in> S" "list_all (\<lambda>t. tb_status t \<in> S) ns" using Cons.prems(4) by auto
  then have first: "distinct (map tomb_key t1)" "list_all (\<lambda>t. tb_status t \<in> S) t1" "tomb_key ` set t1 \<subseteq> insert (tomb_key n) (tomb_key ` set ts)"
    and rest: "list_all (\<lambda>t. tb_status t \<in> S) ns"
    using put_tombstone_keys [OF t1(1) Cons.prems(2,3)] by simp_all
  show ?case using Cons.IH [OF t1(2) first(1,2) rest] first(3) unfolding list.set image_insert by blast
qed auto

lemma write_sound: "agents_write cfg p q \<Longrightarrow> agents_sound p \<Longrightarrow> agents_sound q"
proof (induction rule: agents_write.induct)
  case (spawned n as ts)
  then show ?case using next_rowid_above [of as] new_row_ok [of n] by (auto simp: agents_sound_def sorted_wrt_append)
next
  case (moved t as ts)
  let ?as = "update_where (transition_applies t) (transition_row t) as"
  have "map ar_rowid ?as = map ar_rowid as" "map ar_id ?as = map ar_id as" "map ar_lease ?as = map ar_lease as" "map space_key ?as = map space_key as"
    by (rule map_update_where, simp add: space_key_def)+
  moreover have "list_all row_ok as \<Longrightarrow> list_all row_ok ?as" by (rule list_all_update_where) (use transition_row_ok moved in blast)+
  ultimately show ?case using moved unfolding agents_sound_def by (simp only: prod.case)
next
  case (shut c as ts)
  let ?as = "update_where c (\<lambda>r. r\<lparr>ar_spawn_open := False, ar_message_open := False\<rparr>) as"
  have "map ar_rowid ?as = map ar_rowid as" "map ar_id ?as = map ar_id as" "map ar_lease ?as = map ar_lease as" "map space_key ?as = map space_key as"
    by (rule map_update_where, simp add: space_key_def)+
  moreover have "list_all row_ok as \<Longrightarrow> list_all row_ok ?as" by (rule list_all_update_where) (use shut_row_ok in blast)+
  ultimately show ?case using shut unfolding agents_sound_def by (simp only: prod.case)
qed

lemma clean_sound: "agents_clean cfg p q \<Longrightarrow> agents_sound p \<Longrightarrow> agents_sound q"
proof (induction rule: agents_clean.induct)
  case (compacted as owner ws now ts ts')
  let ?ns = "map (tombstone_of cfg now) (filter (in_space owner ws) as)"
  have "list_all (\<lambda>t. tb_status t \<in> set terminal_statuses) ?ns" using compacted(1) status_cases by (auto simp: list_all_iff tombstone_of_def)
  moreover have "distinct (map tomb_key ts)" "list_all (\<lambda>t. tb_status t \<in> set terminal_statuses) ts" using compacted(3) by (simp_all add: agents_sound_def)
  ultimately have ts: "distinct (map tomb_key ts') \<and> list_all (\<lambda>t. tb_status t \<in> set terminal_statuses) ts' \<and> tomb_key ` set ts' \<subseteq> tomb_key ` set ?ns \<union> tomb_key ` set ts"
    using put_tombstones_keys [OF compacted(2)] by blast
  have "tomb_key ` set ?ns = space_key ` {r \<in> set as. in_space owner ws r}"
    by (force simp: tomb_key_def space_key_def tombstone_of_def image_iff)
  moreover have "space_key r \<notin> tomb_key ` set ts" if "r \<in> set as" for r using compacted(3) that by (auto simp: agents_sound_def)
  moreover have "space_key r \<notin> space_key ` {r \<in> set as. in_space owner ws r}" if "\<not> in_space owner ws r" for r
    using that by (auto simp: space_key_def in_space_def)
  ultimately have "space_key r \<notin> tomb_key ` set ts'" if "r \<in> set as" "\<not> in_space owner ws r" for r
    using ts that by blast
  then have "space_key ` set (filter (\<lambda>r. \<not> in_space owner ws r) as) \<inter> tomb_key ` set ts' = {}" unfolding set_filter by blast
  then show ?case using ts compacted(3)
    by (simp add: agents_sound_def distinct_map_filter sorted_wrt_map sorted_wrt_filter list_all_iff)
next
  case (forgotten as ts c)
  then show ?case by (auto simp: agents_sound_def distinct_map_filter list_all_iff)
qed

lemma cleans_sound: "(agents_clean cfg)\<^sup>*\<^sup>* p q \<Longrightarrow> agents_sound p \<Longrightarrow> agents_sound q"
  by (induction rule: rtranclp_induct) (blast intro: clean_sound)+

lemma step_sound: "agent_step cfg a b \<Longrightarrow> agents_sound (agents_of a) \<Longrightarrow> agents_sound (agents_of b)"
  using step_agents write_sound cleans_sound by metis

lemma reachable_sound: "agent_reachable cfg db \<Longrightarrow> agents_sound (agents_of db)"
  by (rule agent_reachable_invariant [where J = "\<lambda>d. agents_sound (agents_of d)"], assumption, simp add: agents_sound_def agents_of_def fresh_db_def)
    (rule step_sound)

section \<open>Capacity\<close>

definition active_count :: "(agent_rec \<Rightarrow> bool) \<Rightarrow> agent_rec list \<Rightarrow> int" where
  "active_count c as = count_where (\<lambda>r. c r \<and> is_active r) as"

lemma active_count_append: "active_count c (as @ [n]) = active_count c as + (if c n \<and> is_active n then 1 else 0)"
  by (simp add: active_count_def count_where_def)

lemma active_count_filter: "active_count c (filter d as) \<le> active_count c as"
  unfolding active_count_def count_where_def by (induction as) auto

lemma active_count_update: "(\<And>r. d r \<Longrightarrow> c (f r) \<Longrightarrow> is_active (f r) \<Longrightarrow> c r \<and> is_active r) \<Longrightarrow> active_count c (update_where d f as) \<le> active_count c as"
  unfolding active_count_def count_where_def update_where_def by (induction as) auto

lemma active_before: "transition_check cfg t = Inr () \<Longrightarrow> transition_applies t r \<Longrightarrow> is_active r"
  using transition_check_Inr(3) transitions_from(1) unfolding transition_applies_def is_active_def by blast

text \<open>A slot is a set of agents that no later write moves an agent into.\<close>

definition slot :: "(agent_rec \<Rightarrow> bool) \<Rightarrow> bool" where
  "slot c = (\<forall>r t. (c (transition_row t r) \<longrightarrow> c r) \<and> (c (r\<lparr>ar_spawn_open := False, ar_message_open := False\<rparr>) \<longrightarrow> c r))"

lemma write_capacity:
  assumes "agents_write cfg p q" "slot c" "\<And>n as. room_for (ac_limits cfg) n as \<Longrightarrow> c n \<Longrightarrow> active_count c as < k"
    "active_count c (fst p) \<le> max 0 k"
  shows "active_count c (fst q) \<le> max 0 k"
  using assms(1,4)
proof (induction rule: agents_write.induct)
  case (spawned n as ts)
  then show ?case using assms(3) [of n as] by (auto simp: active_count_append)
next
  case (moved t as ts)
  have "active_count c (update_where (transition_applies t) (transition_row t) as) \<le> active_count c as"
    by (rule active_count_update) (use active_before [OF moved(1)] assms(2) [unfolded slot_def] in blast)
  then show ?case using moved by simp
next
  case (shut d as ts)
  have "active_count c (update_where d (\<lambda>r. r\<lparr>ar_spawn_open := False, ar_message_open := False\<rparr>) as) \<le> active_count c as"
    by (rule active_count_update) (use shut(1) assms(2) [unfolded slot_def] in blast)
  then show ?case using shut by simp
qed

lemma clean_capacity: "agents_clean cfg p q \<Longrightarrow> active_count c (fst q) \<le> active_count c (fst p)"
  by (induction rule: agents_clean.induct) (simp_all add: active_count_filter)

lemma cleans_capacity: "(agents_clean cfg)\<^sup>*\<^sup>* p q \<Longrightarrow> active_count c (fst q) \<le> active_count c (fst p)"
  by (induction rule: rtranclp_induct) (use clean_capacity order_trans in blast)+

lemma reachable_capacity:
  assumes "agent_reachable cfg db" "slot c" "\<And>n as. room_for (ac_limits cfg) n as \<Longrightarrow> c n \<Longrightarrow> active_count c as < k"
  shows "active_count c (db_agents db) \<le> max 0 k"
proof (rule agent_reachable_invariant [OF assms(1)])
  fix a b :: "'a agent_db"
  assume "agent_step cfg a b" "active_count c (db_agents a) \<le> max 0 k"
  moreover have "db_agents d = fst (agents_of d)" for d :: "'a agent_db" by (simp add: agents_of_def)
  ultimately show "active_count c (db_agents b) \<le> max 0 k"
    using step_agents [of cfg a b] write_capacity [OF _ assms(2,3), where p = "agents_of a" and q = "agents_of b"] cleans_capacity [of cfg "agents_of a" "agents_of b" c]
    by auto
qed (simp add: active_count_def count_where_def fresh_db_def)

lemma slots: "slot (\<lambda>_. True)" "slot (\<lambda>r. ar_owner r = owner)" "slot (in_space owner ws)" "slot (\<lambda>r. in_space owner ws r \<and> ar_parent r = Some p)"
  by (simp_all add: slot_def in_space_def)

section \<open>The life of a record\<close>

definition gone_space :: "agent_rec \<Rightarrow> agent_rec list \<Rightarrow> bool" where
  "gone_space r as = (\<not> is_active r \<and> (\<forall>r' \<in> set as. \<not> in_space (ar_owner r) (ar_workspace r) r'))"

definition same_agent :: "agent_rec \<Rightarrow> agent_rec \<Rightarrow> bool" where
  "same_agent r r' = (ar_id r' = ar_id r \<and> ar_rowid r' = ar_rowid r \<and> space_key r' = space_key r \<and> ar_payload r' = ar_payload r
     \<and> ar_gen r' = ar_gen r \<and> ar_epoch r' = ar_epoch r \<and> ar_lease r' = ar_lease r \<and> ar_budget r' = ar_budget r)"

definition agent_moves :: "agent_rec \<Rightarrow> agent_rec \<Rightarrow> bool" where
  "agent_moves r r' = (is_active r \<and> same_agent r r' \<and> (ar_status r' = ar_status r \<or> ar_status r' \<in> set (status_transitions (ar_status r)))
     \<and> (ar_spawn_open r' \<longrightarrow> ar_spawn_open r) \<and> (ar_message_open r' \<longrightarrow> ar_message_open r))"

definition lives_on :: "agent_rec \<Rightarrow> agent_rec list \<Rightarrow> bool" where
  "lives_on r as = (\<exists>r' \<in> set as. r' = r \<or> agent_moves r r')"

lemma lives_update:
  assumes "r \<in> set as" "\<And>r. c r \<Longrightarrow> agent_moves r (f r)"
  shows "lives_on r (update_where c f as)"
  using assms by (auto simp: lives_on_def update_where_def)

lemma write_lives: "agents_write cfg p q \<Longrightarrow> r \<in> set (fst p) \<Longrightarrow> lives_on r (fst q)"
proof (induction rule: agents_write.induct)
  case (moved t as ts)
  have "agent_moves r (transition_row t r)" if "transition_applies t r" for r
    using that active_before [OF moved(1) that] transition_check_Inr(3) [OF moved(1), of "ar_status r"]
    by (auto simp: agent_moves_def same_agent_def space_key_def transition_applies_def) (auto simp: transition_row_def Let_def split: if_splits)
  then show ?case using lives_update moved(2) by simp
next
  case (shut c as ts)
  then show ?case by (auto intro!: lives_update simp: agent_moves_def same_agent_def space_key_def)
qed (auto simp: lives_on_def)

lemma clean_lives: "agents_clean cfg p q \<Longrightarrow> r \<in> set (fst p) \<Longrightarrow> r \<in> set (fst q) \<or> gone_space r (fst q)"
  by (induction rule: agents_clean.induct) (auto simp: gone_space_def in_space_def)

lemma clean_gone: "agents_clean cfg p q \<Longrightarrow> gone_space r (fst p) \<Longrightarrow> gone_space r (fst q)"
  by (induction rule: agents_clean.induct) (auto simp: gone_space_def)

lemma cleans_lives: "(agents_clean cfg)\<^sup>*\<^sup>* p q \<Longrightarrow> r \<in> set (fst p) \<Longrightarrow> r \<in> set (fst q) \<or> gone_space r (fst q)"
  by (induction rule: rtranclp_induct) (use clean_lives clean_gone in blast)+

lemma step_lives:
  assumes "agent_step cfg a b" "r \<in> set (db_agents a)"
  shows "lives_on r (db_agents b) \<or> gone_space r (db_agents b)"
proof -
  have "db_agents d = fst (agents_of d)" for d :: "'a agent_db" by (simp add: agents_of_def)
  then show ?thesis using step_agents [OF assms(1)] write_lives [of cfg "agents_of a" "agents_of b" r] cleans_lives [of cfg "agents_of a" "agents_of b" r] assms(2)
    by (metis lives_on_def)
qed

section \<open>Epochs\<close>

lemma trim_epochs: "db_epochs (trim_log k bytes rows b n db) = db_epochs db"
proof (induction k bytes rows b n db rule: trim_log.induct)
  case (1 k bytes rows b n db)
  then show ?case by (cases "chunks_of k db") (auto simp: trim_log.simps [of k bytes rows b n db] drop_oldest_def)
qed

lemma enforce_epochs: "enforce_log_caps cfg k db = Inr db' \<Longrightarrow> db_epochs db' = db_epochs db"
  unfolding enforce_log_caps_Inr using trim_epochs by blast

lemma enforce_all_epochs: "enforce_all cfg rs db = Inr db' \<Longrightarrow> db_epochs db' = db_epochs db"
  by (induction rs arbitrary: db) (auto simp: ebind_Inr_iff dest: enforce_epochs)

lemma spawn_epochs: "db_epochs (snd (reserve_spawn cfg du x db)) = db_epochs db"
proof -
  obtain res db' where run: "reserve_spawn cfg du x db = (res, db')" by (cases "reserve_spawn cfg du x db")
  then show ?thesis
  proof (cases rule: reserve_spawn_cases)
    case (spawn n s a)
    then have "db_epochs db' = db_epochs (ensure_admission (si_owner x) (si_workspace x) (si_ws_gen x) (si_now x) db)" by (auto elim: spawn_new_Inr)
    then show ?thesis by (simp add: run)
  qed (simp_all add: run)
qed

lemma transit_epochs: "db_epochs (snd (transition_status cfg draw t db)) = db_epochs db"
  by (auto simp: transition_status_def Let_def emit_terminal_def seal_session_def split: sum.split)

lemma close_epochs: "db_epochs (shut_agents owner ws g' (snd (shut_admission owner ws g now db))) = db_epochs db"
  by (auto simp: shut_admission_def shut_agents_def split: option.split)

lemma log_epochs: "db_epochs (snd (append_log cfg owner ws i n ty content now db)) = db_epochs db"
  by (rule append_log_cases [OF _ _ refl, where P = "\<lambda>x. db_epochs x = db_epochs db"]) (simp_all add: enforce_epochs log_appended_def)

lemma compact_epochs: "db_epochs (snd (compact_closed_workspace cfg owner ws g now db)) = db_epochs db"
  by (rule compact_cases [where P = "\<lambda>x. db_epochs x = db_epochs db"])
    (simp_all add: compacted_tables_def drop_agents_def Let_def delete_session_rows_def drop_space_rows_def)

lemma purge_epochs: "db_epochs (snd (purge_expired_tombstones owner ws now db)) = db_epochs db"
  by (simp add: purge_expired_tombstones_def Let_def)

lemma repair_epochs: "db_epochs (snd (prepare_startup_repair cfg owner ws g now db)) = db_epochs db"
  by (auto simp: prepare_startup_repair_def snd_immediate Let_def close_epochs ebind_Inr_iff split: sum.split dest: enforce_all_epochs)

lemma retire_epochs: "db_epochs (snd (purge_expired_sessions now lmt db)) = db_epochs db"
proof -
  have "db_epochs (fold (purge_session now) js d) = db_epochs d" for js and d :: "'a agent_db"
    by (induction js arbitrary: d) (auto simp: purge_session_def set_session_def)
  then show ?thesis by (simp add: purge_expired_sessions_def Let_def)
qed

lemma step_epochs:
  assumes "agent_step cfg a b"
  shows "db_epochs b = db_epochs a \<or> (\<exists>i. b = snd (bump_epoch i a))"
  using assms
proof cases
  case (logs owner ws i n ty content now)
  then show ?thesis using log_epochs by metis
next
  case (maintains now lmt)
  have "db_epochs (snd (maintain_closed_workspaces cfg now lmt a)) = db_epochs a"
    by (rule maintain_cases [where P = "\<lambda>x. db_epochs x = db_epochs a"]) (simp_all add: compact_epochs purge_epochs)
  then show ?thesis using maintains by simp
next
  case (appends du owner ws i n e seq v now)
  then show ?thesis by (auto simp: append_session_message_def snd_immediate set_session_def Let_def split: option.split)
next
  case (closes owner ws now g)
  then show ?thesis by (simp add: close_epochs close_workspace_admission_def case_prod_beta)
qed (auto simp: spawn_epochs transit_epochs compact_epochs purge_epochs repair_epochs retire_epochs open_workspace_admission_def snd_immediate
    reserve_message_def transition_message_def add_usage_def reserve_effect_def dispatch_effect_def complete_effect_def transition_effect_def purge_expired_receipts_def
    schedule_cleanup_retry_def clear_cleanup_retry_def discontinue_session_def delete_workspace_sessions_def delete_session_rows_def Let_def
    split: option.split sum.split prod.split)

end
