(* ===== verification/AgentEffectFacts.thy ===== *)
theory AgentEffectFacts
  imports AgentInvariant
begin

text \<open>The effect ledger in use: one row per lineage key, and a fenced runner that writes nothing.\<close>

section \<open>One row per key\<close>

definition effect_ids :: "effect_row list \<Rightarrow> (string \<times> string \<times> string) list" where
  "effect_ids es = map (\<lambda>e. (ef_root e, ef_request e, ef_kind e)) es"

definition effects_sound :: "'x agent_db \<Rightarrow> bool" where
  "effects_sound db = distinct (effect_ids (db_effects db))"

lemma effect_ids_update: "(\<And>e. ef_root (f e) = ef_root e \<and> ef_request (f e) = ef_request e \<and> ef_kind (f e) = ef_kind e) \<Longrightarrow> effect_ids (update_where c f es) = effect_ids es"
  by (simp add: effect_ids_def update_where_def)

lemma effect_ids_filter: "distinct (effect_ids es) \<Longrightarrow> distinct (effect_ids (filter c es))"
  by (simp add: effect_ids_def distinct_map_filter)

lemma effect_ids_append: "effect_insertable n db \<Longrightarrow> distinct (effect_ids (db_effects db)) \<Longrightarrow> distinct (effect_ids (db_effects db @ [n]))"
  by (auto simp: effect_ids_def effect_insertable_def list_ex_iff)

lemma reserve_sound: "effects_sound db \<Longrightarrow> effects_sound (snd (reserve_effect cfg x now db))"
  by (auto simp: effects_sound_def reserve_effect_def snd_immediate Let_def effect_ids_append split: option.split sum.split)

lemma compact_effects: "effects_sound db \<Longrightarrow> effects_sound (snd (compact_closed_workspace cfg owner ws g now db))"
  by (rule compact_cases [where P = effects_sound])
    (simp_all add: effects_sound_def compacted_tables_def drop_agents_def Let_def delete_session_rows_def drop_space_rows_def effect_ids_filter)

lemma repair_effects: "effects_sound db \<Longrightarrow> effects_sound (snd (prepare_startup_repair cfg owner ws g now db))"
proof -
  have shut: "db_effects (shut_agents owner ws g' (snd (shut_admission owner ws g'' now db))) = db_effects db" for g' g''
    by (auto simp: shut_admission_def shut_agents_def split: option.split)
  assume "effects_sound db"
  then show ?thesis
    by (auto simp: effects_sound_def prepare_startup_repair_def snd_immediate Let_def ebind_Inr_iff shut keeps_effects_def effect_ids_update
        split: sum.split dest!: enforce_all_keeps)
qed

lemma spawn_effects: "db_effects (snd (reserve_spawn cfg du x db)) = db_effects db"
proof -
  obtain res db' where run: "reserve_spawn cfg du x db = (res, db')" by (cases "reserve_spawn cfg du x db")
  then show ?thesis
  proof (cases rule: reserve_spawn_cases)
    case (spawn n s a)
    then have "db_effects db' = db_effects (ensure_admission (si_owner x) (si_workspace x) (si_ws_gen x) (si_now x) db)" by (auto elim: spawn_new_Inr)
    then show ?thesis by (simp add: run)
  qed (simp_all add: run)
qed

lemma step_effects:
  assumes "agent_step cfg a b" "effects_sound a"
  shows "effects_sound b"
proof -
  have keep: "effects_sound d" if "db_effects d = db_effects a" for d using that assms(2) by (simp add: effects_sound_def)
  show ?thesis using assms(1)
  proof cases
    case (logs owner ws i n ty content now)
    then show ?thesis using log_keeps [of a] by (simp add: keep keeps_effects_def)
  next
    case (maintains now lmt)
    have "effects_sound (snd (maintain_closed_workspaces cfg now lmt a))"
    proof (rule maintain_cases [where P = effects_sound])
      show "effects_sound (snd (purge_expired_tombstones owner ws now d))" if "effects_sound d" for d :: "'a agent_db" and owner ws
        using that purge_keeps [of d owner ws now] by (simp add: effects_sound_def keeps_effects_def)
    qed (use assms(2) compact_effects in blast)+
    then show ?thesis using maintains by simp
  next
    case (reserves ex now)
    then show ?thesis using reserve_sound assms(2) by blast
  next
    case (repairs owner ws n now)
    then show ?thesis using repair_effects assms(2) by blast
  next
    case (compacts owner ws n now)
    then show ?thesis using compact_effects assms(2) by blast
  next
    case (dispatches ek f es pre intd ent now)
    then show ?thesis using assms(2)
      by (auto simp: effects_sound_def dispatch_effect_def snd_immediate effect_ids_update split: option.split sum.split)
  next
    case (completes ek f es oc rc now)
    then show ?thesis using assms(2) by (auto simp: effects_sound_def complete_effect_def snd_immediate Let_def effect_ids_update)
  next
    case (changes i n req kind es e' ep now)
    then show ?thesis using assms(2) by (auto simp: effects_sound_def transition_effect_def Let_def effect_ids_update)
  next
    case (forgets now lmt)
    then show ?thesis using assms(2) by (auto simp: effects_sound_def purge_expired_receipts_def Let_def effect_ids_update)
  next
    case (deletes owner ws)
    then show ?thesis using assms(2) by (simp add: effects_sound_def delete_workspace_sessions_def delete_session_rows_def Let_def effect_ids_filter)
  next
    case (spawns du x)
    then show ?thesis by (simp add: keep spawn_effects)
  qed (simp_all add: keep others_keeps [unfolded keeps_effects_def] bump_keeps [unfolded keeps_effects_def] open_keeps [unfolded keeps_effects_def]
      message_keeps [unfolded keeps_effects_def] answer_keeps [unfolded keeps_effects_def] usage_keeps [unfolded keeps_effects_def]
      retry_keeps [unfolded keeps_effects_def] clear_keeps [unfolded keeps_effects_def] append_keeps [unfolded keeps_effects_def]
      discontinue_keeps [unfolded keeps_effects_def] retire_keeps [unfolded keeps_effects_def] close_keeps [unfolded keeps_effects_def]
      transit_keeps [unfolded keeps_effects_def] purge_keeps [unfolded keeps_effects_def])
qed

lemma reachable_effects: "agent_reachable cfg db \<Longrightarrow> effects_sound db"
  by (rule agent_reachable_invariant [where J = effects_sound], assumption, simp add: effects_sound_def effect_ids_def fresh_db_def, rule step_effects)

text \<open>The row a reservation answers with is the row under its key.\<close>

lemma find_effect_unique:
  assumes "effects_sound db" "e \<in> set (db_effects db)" "effect_at k e"
  shows "find_effect k db = Some e"
proof -
  have "e' = e" if "e' \<in> set (db_effects db)" "effect_at k e'" for e'
    using assms that unfolding effects_sound_def effect_ids_def effect_at_def by (metis (no_types, lifting) distinct_map inj_onD)
  then show ?thesis using assms(2,3) unfolding find_effect_def
    by (metis (mono_tags, lifting) find_None_iff find_Some_iff nth_mem option.exhaust)
qed

section \<open>Lost epochs\<close>

lemma bump_rises: "current_epoch j (snd (bump_epoch i db)) = current_epoch j db + (if j = i then 1 else 0)"
  by (cases "jget (db_epochs db) i") (auto simp: current_epoch_def bump_epoch_def Let_def)

lemma epochs_rise: "agent_step cfg a b \<Longrightarrow> current_epoch i a \<le> current_epoch i b"
proof (drule step_epochs, elim disjE exE)
  show "current_epoch i a \<le> current_epoch i b" if "db_epochs b = db_epochs a" using that by (simp add: current_epoch_def)
  show "current_epoch i a \<le> current_epoch i b" if "b = snd (bump_epoch j a)" for j using that by (simp add: bump_rises)
qed

lemma epochs_rise_run: "(agent_step cfg)\<^sup>*\<^sup>* a b \<Longrightarrow> current_epoch i a \<le> current_epoch i b"
  by (induction rule: rtranclp_induct) (use epochs_rise order_trans in blast)+

lemma epochs_nonneg: "agent_reachable cfg db \<Longrightarrow> 0 \<le> current_epoch i db"
  by (rule agent_reachable_invariant [where J = "\<lambda>d. 0 \<le> current_epoch i d"], assumption, simp add: current_epoch_def fresh_db_def)
    (use epochs_rise order_trans in blast)

lemma lost_writer: "epoch_lost cfg e db \<Longrightarrow> writer_fenced cfg owner ws i g e ss db"
  by (simp add: writer_fenced_def)

lemma lost_append: "epoch_lost cfg e db \<Longrightarrow> append_session_message cfg du owner ws i g e seq v now db = (Inr SessionFenced, db)"
  by (simp add: append_session_message_def immediate_def append_fenced_def)

lemma lost_dispatch: "epoch_lost cfg (fe_epoch f) db \<Longrightarrow> fst (dispatch_effect cfg k f es pre intd ent now db) \<noteq> Inr True \<and> snd (dispatch_effect cfg k f es pre intd ent now db) = db"
  by (simp add: dispatch_effect_def immediate_def fence_lost_def lost_writer split: sum.split)

lemma lost_complete: "epoch_lost cfg (fe_epoch f) db \<Longrightarrow> fst (complete_effect cfg k f es oc rc now db) \<noteq> Inr True \<and> snd (complete_effect cfg k f es oc rc now db) = db"
  by (simp add: complete_effect_def immediate_def fence_lost_def lost_writer)

lemma lost_reserve: "epoch_lost cfg (fe_epoch (ei_fence x)) db \<Longrightarrow> ei_fenced x \<Longrightarrow> \<exists>err. reserve_effect cfg x now db = (Inl err, db)"
  unfolding reserve_effect_def
  by (cases "optional_sha256 (ei_pre x) ''pre-image digest''"; cases "optional_sha256 (ei_intended x) ''intended post-image digest''")
    (auto simp: Let_def immediate_def fence_lost_def lost_writer)

lemma lost_usage: "epoch_lost cfg e db \<Longrightarrow> snd (add_usage cfg owner ws i g d (Some e) db) = db"
  by (simp add: add_usage_def lost_writer)

lemma lost_spawn: "epoch_lost cfg e db \<Longrightarrow> si_epoch x = Some e \<Longrightarrow> (\<And>i. instance_of cfg = Some i \<Longrightarrow> current_epoch i db \<noteq> 0) \<Longrightarrow> \<exists>err. reserve_spawn cfg du x db = (Inl err, db)"
  by (auto simp: epoch_lost_def reserve_spawn_def epoch_check_def immediate_def echeck_def split: option.splits)

end
