(* ===== verification/AgentSessionFacts.thy ===== *)
theory AgentSessionFacts
  imports AgentEffectFacts
begin

text \<open>
  The session tables in use: every log that is kept verifies against the head of its row, a message is appended at the
  end of its chain, and each session is continued at most once.
\<close>

section \<open>Logs\<close>

definition rows_of :: "string \<Rightarrow> session_message list \<Rightarrow> session_message list" where
  "rows_of i ms = filter (\<lambda>m. sm_agent m = i) ms"

lemma order_by_sorted: "sorted_wrt (\<lambda>a b. \<not> prior b a) xs \<Longrightarrow> order_by prior xs = xs"
proof (induction xs)
  case (Cons x xs)
  then show ?case by (cases xs) (auto simp: order_by_Cons)
qed (simp add: order_by_def)

lemma verify_log_Cons:
  "verify_log cfg n h b (m # ms) = Inr (ws, h', b') \<longleftrightarrow>
     (\<exists>v vs. sm_seq m = n \<and> sm_sha m = ac_sha cfg (sm_json m) \<and> sm_bytes m = ac_utf8 cfg (sm_json m) \<and> ac_parse cfg (sm_json m) = Some v
       \<and> verify_log cfg (n + 1) (chain_head cfg h (ac_sha cfg (sm_json m))) (b + sm_bytes m) ms = Inr (vs, h', b') \<and> ws = v # vs)"
  by (auto simp: Let_def split: option.split sum.split)

lemma verify_log_append:
  assumes "verify_log cfg n h b ms = Inr (vs, h', b')" "sm_seq m = n + int (length ms)" "sm_sha m = ac_sha cfg (sm_json m)"
    "sm_bytes m = ac_utf8 cfg (sm_json m)" "ac_parse cfg (sm_json m) = Some v"
  shows "verify_log cfg n h b (ms @ [m]) = Inr (vs @ [v], chain_head cfg h' (sm_sha m), b' + sm_bytes m)"
  using assms
proof (induction ms arbitrary: n h b vs)
  case Nil
  then show ?case by (simp add: Let_def)
next
  case (Cons k ms)
  then obtain w ws where k: "sm_seq k = n" "sm_sha k = ac_sha cfg (sm_json k)" "sm_bytes k = ac_utf8 cfg (sm_json k)" "ac_parse cfg (sm_json k) = Some w"
    "verify_log cfg (n + 1) (chain_head cfg h (ac_sha cfg (sm_json k))) (b + sm_bytes k) ms = Inr (ws, h', b')" "vs = w # ws"
    by (auto simp only: verify_log_Cons)
  then show ?case using Cons.IH [OF k(5)] Cons.prems(2-5) by (simp only: append_Cons verify_log_Cons) simp
qed

lemma verify_log_length: "verify_log cfg n h b ms = Inr (vs, h', b') \<Longrightarrow> length vs = length ms"
  by (induction ms arbitrary: n h b vs) (auto simp: verify_log_Cons simp del: verify_log.simps(2))

lemma verify_log_seqs: "verify_log cfg n h b ms = Inr (vs, h', b') \<Longrightarrow> sorted_wrt (<) (map sm_seq ms) \<and> (\<forall>m \<in> set ms. n \<le> sm_seq m)"
  by (induction ms arbitrary: n h b vs) (fastforce simp: verify_log_Cons simp del: verify_log.simps(2))+

lemma verify_log_sorted: "verify_log cfg n h b ms = Inr (vs, h', b') \<Longrightarrow> order_by (\<lambda>a b. sm_seq a < sm_seq b) ms = ms"
  by (rule order_by_sorted) (drule verify_log_seqs, auto simp: sorted_wrt_map elim!: sorted_wrt_mono_rel [rotated])

lemma verify_log_copy: "verify_log cfg n h b (map (\<lambda>m. m\<lparr>sm_agent := i, sm_gen := g\<rparr>) ms) = verify_log cfg n h b ms"
proof (induction ms arbitrary: n h b)
  case (Cons m ms)
  then show ?case by (cases "ac_parse cfg (sm_json m)") (simp_all add: Let_def)
qed simp

section \<open>The tables\<close>

definition session_ok :: "agent_config \<Rightarrow> session_message list \<Rightarrow> session_row \<Rightarrow> bool" where
  "session_ok cfg ms s =
     ((if sr_state s = SessionPurged then rows_of (sr_agent s) ms = [] \<and> sr_count s = 0 \<and> sr_bytes s = 0
       else sr_count s = int (length (rows_of (sr_agent s) ms))
         \<and> (\<exists>vs. verify_log cfg 0 genesis_head 0 (rows_of (sr_agent s) ms) = Inr (vs, sr_head s, sr_bytes s)))
      \<and> sr_count s \<le> max 0 (al_messages (ac_limits cfg)) \<and> sr_bytes s \<le> max 0 (al_session_bytes (ac_limits cfg)))"

definition sessions_sound :: "agent_config \<Rightarrow> session_row list \<Rightarrow> session_message list \<Rightarrow> bool" where
  "sessions_sound cfg ss ms =
     (distinct (map sr_agent ss) \<and> distinct (map sr_from (filter (\<lambda>s. sr_from s \<noteq> None) ss))
      \<and> list_all (\<lambda>m. sm_gen m = 1 \<and> sm_agent m \<in> sr_agent ` set ss) ms \<and> list_all (session_ok cfg ms) ss)"

lemma session_unique: "sessions_sound cfg ss ms \<Longrightarrow> s \<in> set ss \<Longrightarrow> s' \<in> set ss \<Longrightarrow> sr_agent s' = sr_agent s \<Longrightarrow> s' = s"
  by (auto simp: sessions_sound_def distinct_map inj_on_def)

lemma sessions_map:
  assumes "sessions_sound cfg ss ms" "\<And>s. sr_agent (g s) = sr_agent s \<and> sr_from (g s) = sr_from s"
    "\<And>s. s \<in> set ss \<Longrightarrow> session_ok cfg ms s \<Longrightarrow> session_ok cfg ms' (g s)" "\<And>m. m \<in> set ms' \<Longrightarrow> sm_gen m = 1 \<and> sm_agent m \<in> sr_agent ` set ss"
  shows "sessions_sound cfg (map g ss) ms'"
proof -
  have "map sr_agent (map g ss) = map sr_agent ss" "sr_agent ` set (map g ss) = sr_agent ` set ss"
    "map sr_from (filter (\<lambda>s. sr_from s \<noteq> None) (map g ss)) = map sr_from (filter (\<lambda>s. sr_from s \<noteq> None) ss)"
    using assms(2) by (simp_all add: image_image filter_map o_def)
  moreover from this have "distinct (map sr_agent (map g ss))" "distinct (map sr_from (filter (\<lambda>s. sr_from s \<noteq> None) (map g ss)))"
    using assms(1) unfolding sessions_sound_def by presburger+
  moreover have "list_all (session_ok cfg ms') (map g ss)" using assms(1,3) by (auto simp: sessions_sound_def list_all_iff)
  moreover have "list_all (\<lambda>m. sm_gen m = 1 \<and> sm_agent m \<in> sr_agent ` set ss) ms'" using assms(4) by (simp add: list_all_iff)
  ultimately show ?thesis unfolding sessions_sound_def by presburger
qed

lemma sessions_relabel:
  assumes "sessions_sound cfg ss ms"
    "\<And>s. sr_agent (f s) = sr_agent s \<and> sr_from (f s) = sr_from s \<and> sr_count (f s) = sr_count s \<and> sr_bytes (f s) = sr_bytes s \<and> sr_head (f s) = sr_head s"
    "\<And>s. c s \<Longrightarrow> sr_state (f s) = SessionPurged \<longleftrightarrow> sr_state s = SessionPurged"
  shows "sessions_sound cfg (update_where c f ss) ms"
  unfolding update_where_def
proof (rule sessions_map [OF assms(1)])
  show "session_ok cfg ms (if c s then f s else s)" if "session_ok cfg ms s" for s
    using that assms(2) [of s] assms(3) [of s] unfolding session_ok_def by (cases "c s"; cases "sr_state s = SessionPurged") auto
qed (use assms(1,2) in \<open>auto simp: sessions_sound_def list_all_iff\<close>)

lemma sessions_filter:
  assumes "sessions_sound cfg ss ms" "\<And>s m. s \<in> set ss \<Longrightarrow> sm_agent m = sr_agent s \<Longrightarrow> d m \<longleftrightarrow> c s"
  shows "sessions_sound cfg (filter c ss) (filter d ms)"
proof -
  have "rows_of (sr_agent s) (filter d ms) = rows_of (sr_agent s) ms" if "s \<in> set ss" "c s" for s
    unfolding rows_of_def filter_filter using assms(2) [OF that(1)] that(2) by (intro filter_cong) auto
  then have "session_ok cfg (filter d ms) s" if "s \<in> set (filter c ss)" for s
    using assms(1) that by (auto simp: sessions_sound_def session_ok_def list_all_iff)
  moreover have "filter (\<lambda>s. sr_from s \<noteq> None) (filter c ss) = filter c (filter (\<lambda>s. sr_from s \<noteq> None) ss)" by (simp add: conj_commute)
  moreover have "sm_agent m \<in> sr_agent ` set (filter c ss)" if "m \<in> set ms" "d m" for m
    using assms that by (auto simp: sessions_sound_def list_all_iff)
  ultimately show ?thesis using assms(1) unfolding sessions_sound_def by (simp add: distinct_map_filter list_all_iff del: filter_filter)
qed

lemma rows_of_append: "rows_of i (ms @ rows) = rows_of i ms @ rows_of i rows"
  by (simp add: rows_of_def)

lemma rows_of_copy: "rows_of i (map (\<lambda>m. m\<lparr>sm_agent := i, sm_gen := g\<rparr>) ms) = map (\<lambda>m. m\<lparr>sm_agent := i, sm_gen := g\<rparr>) ms"
  by (induction ms) (simp_all add: rows_of_def)

lemma sessions_insert:
  assumes "sessions_sound cfg ss ms" "sr_agent n \<notin> sr_agent ` set ss" "sr_from n \<noteq> None \<Longrightarrow> sr_from n \<notin> sr_from ` set ss"
    "\<And>m. m \<in> set rows \<Longrightarrow> sm_gen m = 1 \<and> sm_agent m = sr_agent n" "session_ok cfg rows n"
  shows "sessions_sound cfg (ss @ [n]) (ms @ rows)"
proof -
  have agents: "sm_gen m = 1 \<and> sm_agent m \<in> sr_agent ` set ss" if "m \<in> set ms" for m
    using assms(1) that by (simp add: sessions_sound_def list_all_iff)
  have "rows_of (sr_agent n) ms = []" unfolding rows_of_def filter_empty_conv using agents assms(2) by metis
  then have "session_ok cfg (ms @ rows) n" using assms(5) by (simp add: session_ok_def rows_of_append)
  moreover have "session_ok cfg (ms @ rows) s" if "s \<in> set ss" for s
  proof -
    have "sr_agent s \<noteq> sr_agent n" using that assms(2) by (metis image_eqI)
    then have "rows_of (sr_agent s) rows = []" unfolding rows_of_def filter_empty_conv using assms(4) by metis
    moreover have "session_ok cfg ms s" using assms(1) that by (simp add: sessions_sound_def list_all_iff)
    ultimately show ?thesis by (simp add: session_ok_def rows_of_append)
  qed
  moreover have "distinct (map sr_agent ss)" "distinct (map sr_from (filter (\<lambda>s. sr_from s \<noteq> None) ss))" using assms(1) by (simp_all add: sessions_sound_def)
  moreover from this have "distinct (map sr_from (filter (\<lambda>s. sr_from s \<noteq> None) (ss @ [n])))"
    using assms(3) by (cases "sr_from n = None") auto
  ultimately show ?thesis using agents assms(2,4) unfolding sessions_sound_def list_all_iff by auto
qed

lemma sessions_purge:
  assumes "sessions_sound cfg (db_sessions db) (db_session_log db)"
  shows "sessions_sound cfg (db_sessions (purge_session now i db)) (db_session_log (purge_session now i db))"
proof -
  let ?ms' = "filter (\<lambda>m. sm_agent m \<noteq> i) (db_session_log db)"
  have rows: "rows_of j ?ms' = (if j = i then [] else rows_of j (db_session_log db))" for j by (auto simp: rows_of_def filter_empty_conv intro: filter_cong)
  show ?thesis unfolding purge_session_def set_session_def update_where_def
    by (simp, rule sessions_map [OF assms]) (use assms rows in \<open>auto simp: session_ok_def sessions_sound_def list_all_iff\<close>)
qed

lemma sessions_purges:
  "sessions_sound cfg (db_sessions db) (db_session_log db) \<Longrightarrow> sessions_sound cfg (db_sessions (fold (purge_session now) js db)) (db_session_log (fold (purge_session now) js db))"
  by (induction js arbitrary: db) (simp_all add: sessions_purge)

section \<open>Appending\<close>

lemma append_cases:
  assumes "append_session_message cfg du owner ws i g e seq v now db = (res, db')"
  obtains (kept) "db' = db" "res \<noteq> Inr SessionAppended"
  | (ends) "res = Inr SessionDiscontinued" "db' = set_session i (\<lambda>s. s\<lparr>sr_continuable := False, sr_updated := now\<rparr>) db"
  | (appended) r s where "res = Inr SessionAppended" "find_agent owner ws i db = Some r" "ar_gen r = g" "ar_status r = Running" "s \<in> set (db_sessions db)" "sr_agent s = i"
      "sr_owner s = owner" "sr_workspace s = ws" "sr_state s = SessionActive" "sr_continuable s" "message_valid v seq" "seq = sr_count s" "sr_count s + 1 \<le> al_messages (ac_limits cfg)"
      "sr_bytes s + ac_utf8 cfg (ac_text cfg v) \<le> al_session_bytes (ac_limits cfg)" "exceeded_session_budget cfg du owner ws (ac_utf8 cfg (ac_text cfg v)) db = None"
      "db' = set_session i (\<lambda>x. x\<lparr>sr_count := sr_count x + 1, sr_bytes := sr_bytes x + ac_utf8 cfg (ac_text cfg v),
                    sr_head := chain_head cfg (sr_head s) (ac_sha cfg (ac_text cfg v)), sr_updated := now\<rparr>)
                  (db\<lparr>db_session_log := db_session_log db @ [\<lparr>sm_agent = i, sm_gen = g, sm_seq = seq,
                       sm_role = (case message_role v of None \<Rightarrow> [] | Some r \<Rightarrow> r), sm_json = ac_text cfg v, sm_bytes = ac_utf8 cfg (ac_text cfg v),
                       sm_sha = ac_sha cfg (ac_text cfg v), sm_created = now\<rparr>]\<rparr>)"
proof (cases "append_fenced cfg owner ws i g e db")
  case True
  then show ?thesis using assms kept by (auto simp: append_session_message_def immediate_def)
next
  case False
  then obtain r where r: "find_agent owner ws i db = Some r" "ar_gen r = g" "ar_status r = Running" by (auto simp: append_fenced_def split: option.splits)
  show ?thesis
  proof (cases "find (\<lambda>s. sr_agent s = i \<and> sr_owner s = owner \<and> sr_workspace s = ws) (db_sessions db)")
    case None
    then show ?thesis using assms kept False by (auto simp: append_session_message_def immediate_def)
  next
    case (Some s)
    then have s: "s \<in> set (db_sessions db)" "sr_agent s = i" "sr_owner s = owner" "sr_workspace s = ws" by (auto simp: find_Some_iff)
    consider "sr_state s \<noteq> SessionActive \<or> \<not> sr_continuable s"
      | "sr_state s = SessionActive" "sr_continuable s" "\<not> message_valid v seq \<or> seq \<noteq> sr_count s \<or> al_messages (ac_limits cfg) < sr_count s + 1
          \<or> al_session_bytes (ac_limits cfg) < sr_bytes s + ac_utf8 cfg (if message_valid v seq then ac_text cfg v else [])
          \<or> exceeded_session_budget cfg du owner ws (ac_utf8 cfg (if message_valid v seq then ac_text cfg v else [])) db \<noteq> None"
      | "sr_state s = SessionActive" "sr_continuable s" "message_valid v seq" "seq = sr_count s" "sr_count s + 1 \<le> al_messages (ac_limits cfg)"
          "sr_bytes s + ac_utf8 cfg (ac_text cfg v) \<le> al_session_bytes (ac_limits cfg)" "exceeded_session_budget cfg du owner ws (ac_utf8 cfg (ac_text cfg v)) db = None"
      by (metis linorder_not_less)
    then show ?thesis
    proof cases
      case 1
      then show ?thesis using assms kept False Some by (auto simp: append_session_message_def immediate_def)
    next
      case 2
      then show ?thesis using assms ends False Some by (auto simp: append_session_message_def immediate_def Let_def)
    next
      case 3
      then show ?thesis using assms kept appended [OF _ r s 3] False Some
        by (cases "list_ex (\<lambda>m. sm_agent m = i \<and> sm_gen m = g \<and> sm_seq m = seq) (db_session_log db)")
          (auto simp: append_session_message_def immediate_def Let_def)
    qed
  qed
qed

text \<open>What was stringified can be parsed again.\<close>

definition json_readable :: "agent_config \<Rightarrow> bool" where
  "json_readable cfg = (\<forall>v. ac_parse cfg (ac_text cfg v) \<noteq> None)"

lemma sessions_append:
  assumes "sessions_sound cfg (db_sessions db) (db_session_log db)" "agents_sound (agents_of db)" "json_readable cfg"
  shows "sessions_sound cfg (db_sessions (snd (append_session_message cfg du owner ws i g e seq v now db))) (db_session_log (snd (append_session_message cfg du owner ws i g e seq v now db)))"
proof -
  obtain res db' where run: "append_session_message cfg du owner ws i g e seq v now db = (res, db')" by fastforce
  then show ?thesis
  proof (cases rule: append_cases)
    case kept
    then show ?thesis using assms(1) by (simp add: run)
  next
    case ends
    show ?thesis unfolding run ends set_session_def by (simp, rule sessions_relabel [OF assms(1)]) simp_all
  next
    case (appended r s)
    let ?t = "ac_text cfg v"
    let ?m = "\<lparr>sm_agent = i, sm_gen = g, sm_seq = seq, sm_role = (case message_role v of None \<Rightarrow> [] | Some r \<Rightarrow> r), sm_json = ?t,
      sm_bytes = ac_utf8 cfg ?t, sm_sha = ac_sha cfg ?t, sm_created = now\<rparr>"
    let ?f = "\<lambda>x. x\<lparr>sr_count := sr_count x + 1, sr_bytes := sr_bytes x + ac_utf8 cfg ?t, sr_head := chain_head cfg (sr_head s) (ac_sha cfg ?t), sr_updated := now\<rparr>"
    have "r \<in> set (db_agents db)" using appended(2) by (auto simp: find_agent_def find_Some_iff)
    then have g: "g = 1" using assms(2) appended(3) by (auto simp: agents_sound_def agents_of_def list_all_iff row_ok_def)
    have only: "s' = s" if "s' \<in> set (db_sessions db)" "sr_agent s' = i" for s'
      using session_unique [OF assms(1)] appended(5,6) that by simp
    have rows: "rows_of j (db_session_log db @ [?m]) = (if j = i then rows_of i (db_session_log db) @ [?m] else rows_of j (db_session_log db))" for j
      by (simp add: rows_of_def)
    have "session_ok cfg (db_session_log db) s" using assms(1) appended(5) by (simp add: sessions_sound_def list_all_iff)
    then obtain vs where vs: "verify_log cfg 0 genesis_head 0 (rows_of i (db_session_log db)) = Inr (vs, sr_head s, sr_bytes s)"
      "sr_count s = int (length (rows_of i (db_session_log db)))" using appended(6,9) by (auto simp: session_ok_def)
    obtain w where w: "ac_parse cfg ?t = Some w" using assms(3) by (auto simp: json_readable_def)
    have "verify_log cfg 0 genesis_head 0 (rows_of i (db_session_log db) @ [?m]) = Inr (vs @ [w], chain_head cfg (sr_head s) (ac_sha cfg ?t), sr_bytes s + ac_utf8 cfg ?t)"
      using verify_log_append [OF vs(1), of ?m w] w appended(12) vs(2) by simp
    then have new: "session_ok cfg (db_session_log db @ [?m]) (?f s)"
      using appended(6,9,13,14) vs(2) by (simp add: session_ok_def rows)
    show ?thesis unfolding run appended(16) set_session_def update_where_def
    proof (simp, rule sessions_map [OF assms(1)])
      fix s'
      assume s': "s' \<in> set (db_sessions db)" "session_ok cfg (db_session_log db) s'"
      show "session_ok cfg (db_session_log db @ [?m]) (if sr_agent s' = i then ?f s' else s')"
      proof (cases "sr_agent s' = i")
        case True
        then show ?thesis using only [OF s'(1)] new by simp
      next
        case False
        then show ?thesis using s'(2) by (simp add: session_ok_def rows)
      qed
    next
      fix m
      assume "m \<in> set (db_session_log db @ [?m])"
      then show "sm_gen m = 1 \<and> sm_agent m \<in> sr_agent ` set (db_sessions db)"
        using assms(1) appended(5,6) g by (auto simp: sessions_sound_def list_all_iff)
    qed simp
  qed
qed

section \<open>Loading\<close>

lemma log_rows_sound:
  assumes "sessions_sound cfg (db_sessions db) (db_session_log db)" "s \<in> set (db_sessions db)"
  shows "log_rows (sr_agent s) 1 db = rows_of (sr_agent s) (db_session_log db)"
proof -
  have "filter (\<lambda>m. sm_agent m = sr_agent s \<and> sm_gen m = 1) (db_session_log db) = rows_of (sr_agent s) (db_session_log db)"
    unfolding rows_of_def using assms(1) by (intro filter_cong) (auto simp: sessions_sound_def list_all_iff)
  moreover have "session_ok cfg (db_session_log db) s" using assms by (simp add: sessions_sound_def list_all_iff)
  then have "order_by (\<lambda>a b. sm_seq a < sm_seq b) (rows_of (sr_agent s) (db_session_log db)) = rows_of (sr_agent s) (db_session_log db)"
    using verify_log_sorted by (auto simp: session_ok_def order_by_def split: if_splits)
  ultimately show ?thesis by (simp add: log_rows_def)
qed

lemma find_snoc: "find c xs = None \<Longrightarrow> c x \<Longrightarrow> find c (xs @ [x]) = Some x"
  by (induction xs) (auto split: if_splits)

lemma find_session_unique:
  assumes "sessions_sound cfg (db_sessions db) (db_session_log db)" "s \<in> set (db_sessions db)" "sr_agent s = i"
  shows "find_session i db = Some s"
proof -
  obtain s' where "find_session i db = Some s'" using assms(2,3) by (cases "find_session i db") (auto simp: find_session_def find_None_iff)
  then show ?thesis using session_unique [OF assms(1,2)] find_session_agent assms(3) by fastforce
qed

lemma load_Inr:
  "load_session_log cfg i g db = Inr (vs, h, b) \<longleftrightarrow> (\<exists>s. find_session i db = Some s \<and> sr_state s \<noteq> SessionPurged \<and> int (length (log_rows i g db)) = sr_count s
     \<and> verify_log cfg 0 genesis_head 0 (log_rows i g db) = Inr (vs, h, b) \<and> h = sr_head s \<and> b = sr_bytes s)"
  by (auto simp: load_session_log_def Let_def ebind_Inr_iff split: option.split)

lemma load_sound:
  assumes "sessions_sound cfg (db_sessions db) (db_session_log db)" "find_session i db = Some s" "sr_state s \<noteq> SessionPurged"
  shows "\<exists>vs. load_session_log cfg i 1 db = Inr (vs, sr_head s, sr_bytes s) \<and> int (length vs) = sr_count s"
proof -
  have s: "s \<in> set (db_sessions db)" "sr_agent s = i" using find_session_agent [OF assms(2)] by auto
  then have "session_ok cfg (db_session_log db) s" using assms(1) by (simp add: sessions_sound_def list_all_iff)
  then obtain vs where "verify_log cfg 0 genesis_head 0 (rows_of i (db_session_log db)) = Inr (vs, sr_head s, sr_bytes s)"
    "sr_count s = int (length (rows_of i (db_session_log db)))" using assms(3) s(2) by (auto simp: session_ok_def)
  then show ?thesis using log_rows_sound [OF assms(1) s(1)] s(2) assms(2,3) verify_log_length by (auto simp: load_Inr)
qed

section \<open>Continuing\<close>

lemma continuation_Inr:
  assumes "continuation_check cfg du x db = Inr (Some (r, s))"
  obtains p vs h b where "si_session x = Some (Some p)" "find_agent (si_owner x) (si_workspace x) p db = Some r" "ar_ws_gen r = si_ws_gen x" "\<not> is_active r"
    "find_session p db = Some s" "sr_state s = SessionSealed" "sr_continuable s" "find_successor p db = None" "ar_runtime r = runtime_of x"
    "load_session_log cfg (ar_id r) (ar_gen r) db = Inr (vs, h, b)"
proof -
  obtain p where p: "si_session x = Some (Some p)" using assms by (auto simp: continuation_check_def split: option.splits)
  then obtain r0 s0 where chk0: "require_continuable (si_owner x) (si_workspace x) (si_ws_gen x) p db = Inr (r0, s0)"
    using assms by (auto simp: continuation_check_def ebind_Inr_iff)
  then have "r0 = r" "s0 = s" using assms p by (auto simp: continuation_check_def ebind_Inr_iff split: option.splits)
  then have chk: "require_continuable (si_owner x) (si_workspace x) (si_ws_gen x) p db = Inr (r, s)" using chk0 by simp
  obtain vs h b where "load_session_log cfg (ar_id r) (ar_gen r) db = Inr (vs, h, b)" "ar_runtime r = runtime_of x"
    using assms p chk by (auto simp: continuation_check_def ebind_Inr_iff echeck_Inr_iff)
  moreover have "find_agent (si_owner x) (si_workspace x) p db = Some r \<and> ar_ws_gen r = si_ws_gen x \<and> ar_status r \<in> set terminal_statuses \<and>
    find_session p db = Some s \<and> sr_state s = SessionSealed \<and> sr_continuable s \<and> find_successor p db = None"
    using chk unfolding require_continuable_def
    by (cases "find_agent (si_owner x) (si_workspace x) p db"; cases "find_session p db"; cases "find_successor p db") (auto split: if_splits)
  ultimately show ?thesis using that p status_cases by blast
qed

lemma continuation_none: "continuation_check cfg du x db = Inr None \<Longrightarrow> si_session x \<noteq> Some (Some p)"
  by (auto simp: continuation_check_def ebind_Inr_iff split: option.splits)

text \<open>A spawn adds no session, an empty one, or a copy of the log it continues.\<close>

lemma spawn_sessions:
  assumes "sessions_sound cfg (db_sessions db) (db_session_log db)"
  shows "sessions_sound cfg (db_sessions (snd (reserve_spawn cfg du x db))) (db_session_log (snd (reserve_spawn cfg du x db)))"
proof -
  obtain res db' where run: "reserve_spawn cfg du x db = (res, db')" by fastforce
  let ?db1 = "ensure_admission (si_owner x) (si_workspace x) (si_ws_gen x) (si_now x) db"
  let ?ss = "db_sessions db" and ?ms = "db_session_log db"
  show ?thesis using run
  proof (cases rule: reserve_spawn_cases)
    case (spawn n s0 a)
    from spawn(2) obtain source where check: "continuation_check cfg du x ?db1 = Inr source"
      and tables: "if si_session x = None then db_sessions db' = db_sessions ?db1 \<and> db_session_log db' = db_session_log ?db1
        else (let m = new_session (si_id x) (si_owner x) (si_workspace x) (si_ws_gen x) (si_now x) (map_option snd source) in
          \<not> session_taken m ?db1 \<and> db_sessions db' = db_sessions ?db1 @ [m]
          \<and> db_session_log db' = db_session_log ?db1 @ (case source of None \<Rightarrow> []
             | Some (r, s) \<Rightarrow> map (\<lambda>m. m\<lparr>sm_agent := si_id x, sm_gen := 1\<rparr>) (log_rows (ar_id r) (ar_gen r) ?db1)))"
      by (rule spawn_new_Inr) blast
    show ?thesis
    proof (cases "si_session x = None")
      case True
      then show ?thesis using tables assms run by simp
    next
      case False
      let ?n = "new_session (si_id x) (si_owner x) (si_workspace x) (si_ws_gen x) (si_now x) (map_option snd source)"
      let ?rows = "case source of None \<Rightarrow> [] | Some (r, s) \<Rightarrow> map (\<lambda>m. m\<lparr>sm_agent := si_id x, sm_gen := 1\<rparr>) (log_rows (ar_id r) (ar_gen r) db)"
      have t: "\<not> session_taken ?n ?db1" "db_sessions db' = ?ss @ [?n]" "db_session_log db' = ?ms @ ?rows"
        using tables unfolding if_not_P [OF False] Let_def by (cases source; auto)+
      have free: "si_id x \<notin> sr_agent ` set ?ss" "sr_from ?n \<noteq> None \<Longrightarrow> sr_from ?n \<notin> sr_from ` set ?ss"
        using t(1) by (auto simp: session_taken_def list_ex_iff new_session_def)
      have ok: "session_ok cfg ?rows ?n"
      proof (cases source)
        case None
        then show ?thesis by (simp add: session_ok_def rows_of_def new_session_def)
      next
        case (Some rs)
        obtain r s where rs: "rs = (r, s)" by (cases rs)
        from check Some rs obtain p vs h b where load: "find_session p ?db1 = Some s" "sr_state s = SessionSealed"
          "find_agent (si_owner x) (si_workspace x) p ?db1 = Some r" "load_session_log cfg (ar_id r) (ar_gen r) ?db1 = Inr (vs, h, b)"
          by (metis continuation_Inr)
        have "ar_id r = p" using load(3) by (auto simp: find_agent_def find_Some_iff)
        then have v: "verify_log cfg 0 genesis_head 0 (log_rows (ar_id r) (ar_gen r) db) = Inr (vs, sr_head s, sr_bytes s)" "sr_count s = int (length (log_rows (ar_id r) (ar_gen r) db))"
          using load by (auto simp: load_Inr)
        have "s \<in> set ?ss" using load(1) find_session_agent by fastforce
        then have "session_ok cfg ?ms s" using assms by (simp add: sessions_sound_def list_all_iff)
        then show ?thesis using v unfolding Some rs
          by (simp only: session_ok_def new_session_def option.case prod.case option.map snd_conv session_row.select_convs rows_of_copy verify_log_copy length_map) simp
      qed
      have n: "sr_agent ?n = si_id x" by (simp add: new_session_def)
      have rows: "sm_gen m = 1 \<and> sm_agent m = sr_agent ?n" if "m \<in> set ?rows" for m using that unfolding n by (auto split: option.splits)
      have "sessions_sound cfg (?ss @ [?n]) (?ms @ ?rows)"
        by (rule sessions_insert [OF assms _ free(2) rows ok]) (simp_all only: n free(1) not_False_eq_True)
      then show ?thesis by (simp add: run t)
    qed
  qed (use assms run in simp_all)
qed

section \<open>Every database reached\<close>

lemma transit_sessions:
  "sessions_sound cfg (db_sessions db) (db_session_log db) \<Longrightarrow>
   sessions_sound cfg (db_sessions (snd (transition_status cfg' draw t db))) (db_session_log (snd (transition_status cfg' draw t db)))"
  unfolding transition_status_def Let_def
  by (auto simp: seal_session_def split: sum.split intro!: sessions_relabel)

lemma delete_sessions:
  assumes "sessions_sound cfg (db_sessions db) (db_session_log db)"
  shows "sessions_sound cfg (db_sessions (snd (delete_session_rows owner ws db))) (db_session_log (snd (delete_session_rows owner ws db)))"
  unfolding delete_session_rows_def Let_def
  by (simp, rule sessions_filter [OF assms]) (use session_unique [OF assms] in fastforce)

lemma drop_sessions:
  assumes "sessions_sound cfg (db_sessions db) (db_session_log db)"
  shows "sessions_sound cfg (db_sessions (drop_agents c db)) (db_session_log (drop_agents c db))"
  unfolding drop_agents_def Let_def by (simp, rule sessions_filter [OF assms]) simp

lemma compact_sessions:
  assumes "sessions_sound cfg (db_sessions db) (db_session_log db)"
  shows "sessions_sound cfg (db_sessions (snd (compact_closed_workspace cfg' owner ws g now db))) (db_session_log (snd (compact_closed_workspace cfg' owner ws g now db)))"
proof (rule compact_cases [where P = "\<lambda>d. sessions_sound cfg (db_sessions d) (db_session_log d)"])
  fix ts adm
  have "sessions_sound cfg (db_sessions (drop_space_rows owner ws (db\<lparr>db_tombs := ts\<rparr>))) (db_session_log (drop_space_rows owner ws (db\<lparr>db_tombs := ts\<rparr>)))"
    using assms by simp
  from drop_sessions [OF delete_sessions [OF this]]
  show "sessions_sound cfg (db_sessions ((compacted_tables owner ws (db\<lparr>db_tombs := ts\<rparr>))\<lparr>db_admissions := adm\<rparr>))
      (db_session_log ((compacted_tables owner ws (db\<lparr>db_tombs := ts\<rparr>))\<lparr>db_admissions := adm\<rparr>))"
    by (simp add: compacted_tables_def)
qed (rule assms)

lemma retire_sessions:
  "sessions_sound cfg (db_sessions db) (db_session_log db) \<Longrightarrow>
   sessions_sound cfg (db_sessions (snd (purge_expired_sessions now lmt db))) (db_session_log (snd (purge_expired_sessions now lmt db)))"
  by (auto simp: purge_expired_sessions_def Let_def sessions_purges)

definition sessions_inv :: "agent_config \<Rightarrow> 'x agent_db \<Rightarrow> bool" where
  "sessions_inv cfg db = (agents_sound (agents_of db) \<and> sessions_sound cfg (db_sessions db) (db_session_log db))"

lemma step_sessions:
  assumes "agent_step cfg a b" "json_readable cfg" "sessions_inv cfg a"
  shows "sessions_inv cfg b"
proof -
  have inv: "agents_sound (agents_of a)" "sessions_sound cfg (db_sessions a) (db_session_log a)" using assms(3) by (simp_all add: sessions_inv_def)
  have keep: "sessions_sound cfg (db_sessions d) (db_session_log d)" if "keeps_sessions a d" for d
    using inv(2) that by (simp add: keeps_sessions_def)
  have "sessions_sound cfg (db_sessions b) (db_session_log b)" using assms(1)
  proof cases
    case (spawns du x)
    then show ?thesis using spawn_sessions [OF inv(2)] by blast
  next
    case (transits draw t)
    then show ?thesis using transit_sessions [OF inv(2)] by blast
  next
    case (logs owner ws i n ty content now)
    then show ?thesis using keep log_keeps [of a] by blast
  next
    case (repairs owner ws n now)
    have "keeps_sessions a (snd (prepare_startup_repair cfg owner ws n now a))"
      by (rule repair_cases [where P = "\<lambda>d. keeps_sessions a d"], simp) (drule enforce_all_keeps, simp add: keeps_sessions_def)
    then show ?thesis using keep repairs by blast
  next
    case (maintains now lmt)
    have "sessions_sound cfg (db_sessions (snd (maintain_closed_workspaces cfg now lmt a))) (db_session_log (snd (maintain_closed_workspaces cfg now lmt a)))"
    proof (rule maintain_cases [where P = "\<lambda>d. sessions_sound cfg (db_sessions d) (db_session_log d)"])
      show "sessions_sound cfg (db_sessions (snd (purge_expired_tombstones owner ws now d))) (db_session_log (snd (purge_expired_tombstones owner ws now d)))"
        if "sessions_sound cfg (db_sessions d) (db_session_log d)" for d :: "'a agent_db" and owner ws
        using that purge_keeps(1) [of d owner ws now] by (simp add: keeps_sessions_def)
    qed (use inv(2) compact_sessions in blast)+
    then show ?thesis using maintains by simp
  next
    case (compacts owner ws n now)
    then show ?thesis using compact_sessions [OF inv(2)] by blast
  next
    case (appends du owner ws i n e seq v now)
    then show ?thesis using sessions_append [OF inv(2,1) assms(2)] by blast
  next
    case (discontinues i now)
    show ?thesis unfolding discontinues discontinue_session_def by (simp, rule sessions_relabel [OF inv(2)]) simp_all
  next
    case (retires now lmt)
    then show ?thesis using retire_sessions [OF inv(2)] by blast
  next
    case (deletes owner ws)
    then show ?thesis using delete_sessions [OF inv(2)] by (simp add: delete_workspace_sessions_def)
  qed (simp_all add: keep others_keeps bump_keeps open_keeps message_keeps answer_keeps usage_keeps reserve_keeps dispatch_keeps complete_keeps change_keeps
      forget_keeps retry_keeps clear_keeps close_keeps purge_keeps)
  then show ?thesis using step_sound [OF assms(1) inv(1)] by (simp add: sessions_inv_def)
qed

lemma reachable_sessions: "agent_reachable cfg db \<Longrightarrow> json_readable cfg \<Longrightarrow> sessions_inv cfg db"
  by (rule agent_reachable_invariant [where J = "sessions_inv cfg"], assumption,
      simp add: sessions_inv_def sessions_sound_def agents_sound_def agents_of_def fresh_db_def) (rule step_sessions)

end
