(* ===== verification/AgentLogFacts.thy ===== *)
theory AgentLogFacts
  imports AgentSessionFacts
begin

text \<open>
  The agent logs in use: the chunks of a log cover its bytes from the base cursor to the next one without a gap, its
  watermark counts them, and what is retained stays within the caps.
\<close>

section \<open>Chains of chunks\<close>

fun covers :: "int \<Rightarrow> log_chunk list \<Rightarrow> int \<Rightarrow> bool" where
  "covers a [] b = (a = b)"
| "covers a (c # cs) b = (lc_start c = a \<and> lc_end c = a + lc_length c \<and> 0 < lc_length c \<and> covers (lc_end c) cs b)"

lemma covers_append: "covers a (cs @ ds) b \<longleftrightarrow> (\<exists>m. covers a cs m \<and> covers m ds b)"
  by (induction cs arbitrary: a) auto

lemma covers_le: "covers a cs b \<Longrightarrow> a \<le> b"
  by (induction cs arbitrary: a) fastforce+

lemma covers_bounds: "covers a cs b \<Longrightarrow> c \<in> set cs \<Longrightarrow> a \<le> lc_start c \<and> lc_start c < lc_end c \<and> lc_end c \<le> b \<and> 0 < lc_length c"
proof (induction cs arbitrary: a)
  case (Cons d cs)
  then show ?case using covers_le [of "lc_end d" cs b] by fastforce
qed simp

lemma covers_starts: "covers a cs b \<Longrightarrow> sorted_wrt (\<lambda>c d. lc_end c \<le> lc_start d) cs"
  using covers_bounds by (induction cs arbitrary: a) fastforce+

lemma covers_order: "covers a cs b \<Longrightarrow> order_by (\<lambda>a b. lc_start a < lc_start b) cs = cs"
proof (rule order_by_sorted)
  assume cov: "covers a cs b"
  then have "sorted_wrt (\<lambda>c d. lc_end c \<le> lc_start d \<and> lc_start c < lc_end c) cs"
    using covers_starts [OF cov] covers_bounds [OF cov] by (fastforce simp: sorted_wrt_iff_nth_less)
  then show "sorted_wrt (\<lambda>a b. \<not> lc_start b < lc_start a) cs" by (rule sorted_wrt_mono_rel [rotated]) auto
qed

lemma covers_ends: "covers a (c # cs) b \<Longrightarrow> filter (\<lambda>x. lc_end x \<noteq> lc_end c) (c # cs) = cs"
  using covers_bounds [of "lc_end c" cs b] by (fastforce simp: filter_id_conv)

lemma covers_total: "covers a cs b \<Longrightarrow> sum_list (map lc_length cs) = b - a"
  by (induction cs arbitrary: a) fastforce+

section \<open>One log\<close>

definition own :: "agent_key \<Rightarrow> log_chunk list \<Rightarrow> log_chunk list" where
  "own k cs = filter (\<lambda>c. chunk_key c = k) cs"

definition log_ok :: "log_chunk list \<Rightarrow> log_mark \<Rightarrow> bool" where
  "log_ok cs m = (0 \<le> lm_base m \<and> covers (lm_base m) cs (lm_next m) \<and> lm_bytes m = lm_next m - lm_base m \<and> lm_events m = int (length cs)
     \<and> lm_next m \<le> max_safe)"

definition logs_sound :: "log_chunk list \<Rightarrow> (agent_key, log_mark) jmap \<Rightarrow> bool" where
  "logs_sound cs ms = ((\<forall>c \<in> set cs. jhas ms (chunk_key c)) \<and> (\<forall>k m. jget ms k = Some m \<longrightarrow> log_ok (own k cs) m))"

lemma logs_soundD: "logs_sound cs ms \<Longrightarrow> jget ms k = Some m \<Longrightarrow> log_ok (own k cs) m"
  unfolding logs_sound_def by blast

lemma chunks_of_own: "logs_sound (db_chunks db) (db_marks db) \<Longrightarrow> jget (db_marks db) k = Some m \<Longrightarrow> chunks_of k db = own k (db_chunks db)"
  using covers_order unfolding chunks_of_def own_def [symmetric] by (fastforce dest: logs_soundD simp: log_ok_def)

lemma logs_length: "logs_sound cs ms \<Longrightarrow> c \<in> set cs \<Longrightarrow> 0 < lc_length c"
proof -
  assume sound: "logs_sound cs ms" and c: "c \<in> set cs"
  then obtain m where "jget ms (chunk_key c) = Some m" by (auto simp: logs_sound_def jhas_def)
  then have "covers (lm_base m) (own (chunk_key c) cs) (lm_next m)" using logs_soundD [OF sound] by (simp add: log_ok_def)
  then show ?thesis using covers_bounds c by (simp add: own_def)
qed

lemma own_filter: "own k (filter d cs) = filter d (own k cs)"
  by (simp add: own_def conj_commute)

lemma jget_filter_keys: "jget (filter (\<lambda>p. P (fst p)) m) k = (if P k then jget m k else None)"
  unfolding jget_def by (induction m) auto

lemma logs_filter:
  assumes "logs_sound cs ms"
  shows "logs_sound (filter (\<lambda>c. P (chunk_key c)) cs) (filter (\<lambda>p. P (fst p)) ms)"
proof -
  have "own k (filter (\<lambda>c. P (chunk_key c)) cs) = own k cs" if "P k" for k
    unfolding own_def filter_filter using that by (intro filter_cong) auto
  then show ?thesis using assms by (auto simp: logs_sound_def jget_filter_keys jhas_def split: if_splits)
qed

text \<open>A new agent's log is empty.\<close>

lemma logs_start:
  assumes "logs_sound cs ms" "\<not> jhas ms k"
  shows "logs_sound cs (jset k \<lparr>lm_base = 0, lm_next = 0, lm_bytes = 0, lm_events = 0\<rparr> ms)"
proof -
  have "own k cs = []" using assms by (auto simp: own_def filter_empty_conv logs_sound_def)
  then show ?thesis using assms(1) by (auto simp: logs_sound_def log_ok_def max_safe_def)
qed

section \<open>Trimming\<close>

lemma logs_drop:
  assumes "logs_sound (db_chunks db) (db_marks db)" "jget (db_marks db) k = Some m" "chunks_of k db = c # cs"
  shows "logs_sound (db_chunks (drop_oldest k c db)) (db_marks (drop_oldest k c db))"
    and "jget (db_marks (drop_oldest k c db)) k = Some (m\<lparr>lm_base := lc_end c, lm_bytes := lm_bytes m - lc_length c, lm_events := lm_events m - 1\<rparr>)"
    and "own k (db_chunks (drop_oldest k c db)) = cs"
proof -
  have own: "own k (db_chunks db) = c # cs" using chunks_of_own [OF assms(1,2)] assms(3) by simp
  have ok: "log_ok (c # cs) m" using logs_soundD [OF assms(1,2)] own by simp
  show mark: "jget (db_marks (drop_oldest k c db)) k = Some (m\<lparr>lm_base := lc_end c, lm_bytes := lm_bytes m - lc_length c, lm_events := lm_events m - 1\<rparr>)"
    using assms(2) by (simp add: drop_oldest_def)
  have "own k (db_chunks (drop_oldest k c db)) = filter (\<lambda>x. lc_end x \<noteq> lc_end c) (own k (db_chunks db))"
    unfolding own_def drop_oldest_def by (simp, intro filter_cong) auto
  then show own': "own k (db_chunks (drop_oldest k c db)) = cs"
    using covers_ends ok own unfolding log_ok_def by metis
  have others: "own j (db_chunks (drop_oldest k c db)) = own j (db_chunks db)" if "j \<noteq> k" for j
    unfolding own_def drop_oldest_def using that by (simp, intro filter_cong) auto
  have "log_ok cs (m\<lparr>lm_base := lc_end c, lm_bytes := lm_bytes m - lc_length c, lm_events := lm_events m - 1\<rparr>)"
    using ok by (auto simp: log_ok_def)
  moreover have "jget (db_marks (drop_oldest k c db)) j = jget (db_marks db) j" if "j \<noteq> k" for j using that assms(2) by (simp add: drop_oldest_def)
  ultimately have "log_ok (own j (db_chunks (drop_oldest k c db))) m'" if "jget (db_marks (drop_oldest k c db)) j = Some m'" for j m'
    using that mark own' others logs_soundD [OF assms(1)] by (cases "j = k") auto
  moreover have "\<forall>x \<in> set (db_chunks (drop_oldest k c db)). jhas (db_marks (drop_oldest k c db)) (chunk_key x)"
    using assms(1,2) by (auto simp: drop_oldest_def logs_sound_def)
  ultimately show "logs_sound (db_chunks (drop_oldest k c db)) (db_marks (drop_oldest k c db))" by (simp add: logs_sound_def)
qed

text \<open>Trimming ends within the caps, and takes chunks of this log only, from its front.\<close>

definition trimmed :: "agent_key \<Rightarrow> int \<Rightarrow> int \<Rightarrow> 'x agent_db \<Rightarrow> 'x agent_db \<Rightarrow> bool" where
  "trimmed k bytes rows db db' =
     (logs_sound (db_chunks db') (db_marks db')
      \<and> (\<exists>m. jget (db_marks db') k = Some m \<and> lm_bytes m \<le> bytes \<and> lm_events m \<le> rows)
      \<and> (\<exists>d. db_chunks db' = filter d (db_chunks db) \<and> (\<forall>c. chunk_key c \<noteq> k \<longrightarrow> d c)))"

lemma trim_trimmed:
  assumes "logs_sound (db_chunks db) (db_marks db)" "jget (db_marks db) k = Some m" "b = lm_bytes m" "n = lm_events m" "0 \<le> bytes" "0 \<le> rows"
  shows "trimmed k bytes rows db (trim_log k bytes rows b n db)"
  using assms
proof (induction k bytes rows b n db arbitrary: m rule: trim_log.induct)
  case (1 k bytes rows b n db)
  have same: "\<exists>d. db_chunks db = filter d (db_chunks db) \<and> (\<forall>c. chunk_key c \<noteq> k \<longrightarrow> d c)" by (rule exI [of _ "\<lambda>_. True"]) simp
  show ?case
  proof (cases "b \<le> bytes \<and> n \<le> rows")
    case True
    then show ?thesis using 1(2-5) same by (simp add: trim_log.simps trimmed_def)
  next
    case False
    show ?thesis
    proof (cases "chunks_of k db")
      case Nil
      then have "own k (db_chunks db) = []" using chunks_of_own 1(2,3) by metis
      then have "b = 0 \<and> n = 0" using logs_soundD [OF 1(2,3)] 1(4,5) by (simp add: log_ok_def)
      then show ?thesis using False 1(6,7) by simp
    next
      case (Cons c cs)
      note d = logs_drop [OF 1(2,3) Cons]
      have "trimmed k bytes rows (drop_oldest k c db) (trim_log k bytes rows (b - lc_length c) (n - 1) (drop_oldest k c db))"
        using 1(1) [OF False Cons d(1,2)] 1(4-7) by simp
      moreover have "\<exists>d'. filter d (db_chunks (drop_oldest k c db)) = filter d' (db_chunks db) \<and> (\<forall>x. chunk_key x \<noteq> k \<longrightarrow> d' x)"
        if "\<forall>x. chunk_key x \<noteq> k \<longrightarrow> d x" for d
        by (rule exI [of _ "\<lambda>x. d x \<and> \<not> (chunk_key x = k \<and> lc_end x = lc_end c)"]) (use that in \<open>auto simp: drop_oldest_def intro: filter_cong\<close>)
      ultimately have "trimmed k bytes rows db (trim_log k bytes rows (b - lc_length c) (n - 1) (drop_oldest k c db))"
        unfolding trimmed_def by metis
      then show ?thesis using False Cons by (auto simp: trim_log.simps [of k bytes rows b n db])
    qed
  qed
qed

lemma enforce_trimmed:
  assumes "enforce_log_caps cfg k db = Inr db'" "logs_sound (db_chunks db) (db_marks db)"
  shows "trimmed k (byte_cap cfg k db) (row_cap cfg k db) db db'"
proof -
  obtain m where m: "jget (db_marks db) k = Some m" "db' = trim_log k (byte_cap cfg k db) (row_cap cfg k db) (lm_bytes m) (lm_events m) db"
    using assms(1) by (auto simp: enforce_log_caps_Inr)
  have "0 \<le> byte_cap cfg k db" "0 \<le> row_cap cfg k db" by (simp_all add: byte_cap_def row_cap_def Let_def split: prod.split)
  then show ?thesis using trim_trimmed [OF assms(2) m(1) refl refl] m(2) by simp
qed

section \<open>Appending\<close>

lemma logs_append:
  assumes "logs_sound (db_chunks db) (db_marks db)" "jget (db_marks db) k = Some m" "0 < n" "is_safe (lm_next m + n)"
  shows "logs_sound (db_chunks (log_appended k n ty c now m u db)) (db_marks (log_appended k n ty c now m u db))"
proof -
  obtain owner ws i g where k: "k = (owner, ws, i, g)" by (cases k) auto
  let ?c = "\<lparr>lc_owner = owner, lc_workspace = ws, lc_agent = i, lc_gen = g, lc_start = lm_next m, lc_end = lm_next m + n, lc_created = now,
    lc_type = ty, lc_content = c, lc_length = n\<rparr>" and ?m = "m\<lparr>lm_next := lm_next m + n, lm_bytes := lm_bytes m + n, lm_events := lm_events m + 1\<rparr>"
  have key: "chunk_key ?c = k" by (simp add: chunk_key_def k)
  have tables: "db_chunks (log_appended k n ty c now m u db) = db_chunks db @ [?c]" "db_marks (log_appended k n ty c now m u db) = jset k ?m (db_marks db)"
    by (simp_all add: log_appended_def k)
  have "own j (db_chunks db @ [?c]) = own j (db_chunks db) @ (if j = k then [?c] else [])" for j by (auto simp: own_def key)
  moreover have "log_ok (own k (db_chunks db) @ [?c]) ?m" using logs_soundD [OF assms(1,2)] assms(3,4) by (auto simp: log_ok_def covers_append is_safe_def)
  ultimately have "log_ok (own j (db_chunks db @ [?c])) m'" if "jget (jset k ?m (db_marks db)) j = Some m'" for j m'
    using that logs_soundD [OF assms(1), of j] by (auto split: if_splits)
  then show ?thesis using assms(1) by (auto simp: tables logs_sound_def key)
qed

section \<open>The caps\<close>

text \<open>What a scope of logs holds: all of them, an owner's, a workspace's or one; in bytes, or in rows.\<close>

definition held :: "(log_chunk \<Rightarrow> int) \<Rightarrow> (agent_key \<Rightarrow> bool) \<Rightarrow> log_chunk list \<Rightarrow> int" where
  "held f P cs = sum_where f (\<lambda>c. P (chunk_key c)) cs"

definition one_row :: "log_chunk \<Rightarrow> int" where
  "one_row c = 1"

definition of_owner :: "string \<Rightarrow> agent_key \<Rightarrow> bool" where
  "of_owner owner k = (fst k = owner)"

definition of_space :: "string \<Rightarrow> string \<Rightarrow> agent_key \<Rightarrow> bool" where
  "of_space owner ws k = (fst k = owner \<and> fst (snd k) = ws)"

definition caps_kept :: "agent_limits \<Rightarrow> log_chunk list \<Rightarrow> bool" where
  "caps_kept l cs =
     (held lc_length (\<lambda>_. True) cs \<le> max 0 (al_global_bytes l) \<and> held one_row (\<lambda>_. True) cs \<le> max 0 (al_global_rows l)
      \<and> (\<forall>owner. held lc_length (of_owner owner) cs \<le> max 0 (al_principal_bytes l) \<and> held one_row (of_owner owner) cs \<le> max 0 (al_principal_rows l))
      \<and> (\<forall>owner ws. held lc_length (of_space owner ws) cs \<le> max 0 (al_workspace_bytes l) \<and> held one_row (of_space owner ws) cs \<le> max 0 (al_workspace_rows l))
      \<and> (\<forall>k. held lc_length (\<lambda>j. j = k) cs \<le> max 0 (al_log_bytes l) \<and> held one_row (\<lambda>j. j = k) cs \<le> max 0 (al_log_events l)))"

lemma held_simps: "held f P [] = 0" "held f P (c # cs) = (if P (chunk_key c) then f c else 0) + held f P cs"
    "held f P (cs @ ds) = held f P cs + held f P ds"
  by (simp_all add: held_def sum_where_def)

lemma held_nonneg: "(\<And>c. c \<in> set cs \<Longrightarrow> 0 \<le> f c) \<Longrightarrow> 0 \<le> held f P cs"
  by (induction cs) (auto simp: held_simps)

lemma held_filter: "(\<And>c. c \<in> set cs \<Longrightarrow> 0 \<le> f c) \<Longrightarrow> held f P (filter d cs) \<le> held f P cs"
proof (induction cs)
  case (Cons c cs)
  then have "held f P (filter d cs) \<le> held f P cs" "0 \<le> f c" by simp_all
  then show ?case by (auto simp: held_simps)
qed (simp add: held_simps)

lemma held_kept: "(\<And>c. c \<in> set cs \<Longrightarrow> P (chunk_key c) \<Longrightarrow> d c) \<Longrightarrow> held f P (filter d cs) = held f P cs"
  by (induction cs) (auto simp: held_simps)

lemma held_split: "P k \<Longrightarrow> held f P cs = held f (\<lambda>j. j = k) cs + held f (\<lambda>j. P j \<and> j \<noteq> k) cs"
  by (induction cs) (auto simp: held_simps)

lemma one_row_sum: "sum_list (map one_row cs) = int (length cs)"
  by (induction cs) (simp_all add: one_row_def)

lemma held_own: "held f (\<lambda>j. j = k) cs = sum_list (map f (own k cs))"
  by (simp add: held_def sum_where_def own_def)

lemma caps_filter:
  assumes "caps_kept l cs" "\<And>c. c \<in> set cs \<Longrightarrow> 0 \<le> lc_length c"
  shows "caps_kept l (filter d cs)"
proof -
  have "held lc_length P (filter d cs) \<le> held lc_length P cs" "held one_row P (filter d cs) \<le> held one_row P cs" for P
    by (rule held_filter, rule assms(2), assumption) (rule held_filter, simp add: one_row_def)
  then show ?thesis using assms(1) unfolding caps_kept_def by (meson order_trans)
qed

text \<open>After an event, each scope it counts in is within its cap again, and the other scopes are as they were.\<close>

lemma scope_capped:
  assumes "db_chunks d1 = db_chunks d @ [c]" "chunk_key c = k" "db_chunks d' = filter keep (db_chunks d1)" "\<And>x. chunk_key x \<noteq> k \<Longrightarrow> keep x"
    "\<And>x. x \<in> set (db_chunks d) \<Longrightarrow> 0 \<le> f x" "held f P (db_chunks d) \<le> max 0 cap" "held f (\<lambda>j. j = k) (db_chunks d') \<le> b"
    "P k \<Longrightarrow> b \<le> max 0 (cap - held f (\<lambda>j. P j \<and> j \<noteq> k) (db_chunks d1))"
  shows "held f P (db_chunks d') \<le> max 0 cap"
proof -
  have same: "held f (\<lambda>j. Q j \<and> j \<noteq> k) (db_chunks d') = held f (\<lambda>j. Q j \<and> j \<noteq> k) (db_chunks d)"
      "held f (\<lambda>j. Q j \<and> j \<noteq> k) (db_chunks d1) = held f (\<lambda>j. Q j \<and> j \<noteq> k) (db_chunks d)" for Q
    unfolding assms(3) using assms(4) by (subst held_kept, simp_all add: assms(1,2) held_simps)
  show ?thesis
  proof (cases "P k")
    case True
    have "0 \<le> held f (\<lambda>j. j = k) (db_chunks d)" by (rule held_nonneg) (rule assms(5))
    then have "held f (\<lambda>j. P j \<and> j \<noteq> k) (db_chunks d) \<le> max 0 cap" using held_split [of P k f "db_chunks d"] assms(6) True by simp
    then show ?thesis using assms(7) assms(8) [OF True] same [of P] held_split [of P k f "db_chunks d'"] True by simp
  next
    case False
    then have "(\<lambda>j. P j \<and> j \<noteq> k) = P" by auto
    then show ?thesis using same [of P] assms(6) by simp
  qed
qed

lemma enforce_caps:
  assumes "enforce_log_caps cfg k d1 = Inr d'" "db_chunks d1 = db_chunks d @ [c]" "chunk_key c = k" "logs_sound (db_chunks d1) (db_marks d1)"
    "caps_kept (ac_limits cfg) (db_chunks d)" "\<And>x. x \<in> set (db_chunks d) \<Longrightarrow> 0 \<le> lc_length x"
  shows "caps_kept (ac_limits cfg) (db_chunks d')"
proof -
  let ?l = "ac_limits cfg"
  obtain m keep where t: "logs_sound (db_chunks d') (db_marks d')" "jget (db_marks d') k = Some m" "lm_bytes m \<le> byte_cap cfg k d1" "lm_events m \<le> row_cap cfg k d1"
      "db_chunks d' = filter keep (db_chunks d1)" "\<And>x. chunk_key x \<noteq> k \<Longrightarrow> keep x"
    using enforce_trimmed [OF assms(1,4)] unfolding trimmed_def by blast
  have "log_ok (own k (db_chunks d')) m" by (rule logs_soundD [OF t(1,2)])
  then have "held lc_length (\<lambda>j. j = k) (db_chunks d') = lm_bytes m" "held one_row (\<lambda>j. j = k) (db_chunks d') = lm_events m"
    using covers_total by (simp_all add: log_ok_def held_own one_row_sum)
  then have own: "held lc_length (\<lambda>j. j = k) (db_chunks d') \<le> byte_cap cfg k d1" "held one_row (\<lambda>j. j = k) (db_chunks d') \<le> row_cap cfg k d1"
    using t(3,4) by simp_all
  note bytes = scope_capped [OF assms(2,3) t(5,6) assms(6) _ own(1)]
  note rows = scope_capped [OF assms(2,3) t(5,6) _ _ own(2)]
  have eqs: "others_bytes (\<lambda>_. True) k d1 = held lc_length (\<lambda>j. True \<and> j \<noteq> k) (db_chunks d1)" "others_rows (\<lambda>_. True) k d1 = held one_row (\<lambda>j. True \<and> j \<noteq> k) (db_chunks d1)"
    "others_bytes (\<lambda>c. lc_owner c = owner) k d1 = held lc_length (\<lambda>j. of_owner owner j \<and> j \<noteq> k) (db_chunks d1)"
    "others_rows (\<lambda>c. lc_owner c = owner) k d1 = held one_row (\<lambda>j. of_owner owner j \<and> j \<noteq> k) (db_chunks d1)"
    "others_bytes (\<lambda>c. lc_owner c = owner \<and> lc_workspace c = ws) k d1 = held lc_length (\<lambda>j. of_space owner ws j \<and> j \<noteq> k) (db_chunks d1)"
    "others_rows (\<lambda>c. lc_owner c = owner \<and> lc_workspace c = ws) k d1 = held one_row (\<lambda>j. of_space owner ws j \<and> j \<noteq> k) (db_chunks d1)" for owner ws
    by (simp_all add: others_bytes_def others_rows_def held_def sum_where_def count_where_def one_row_sum of_owner_def of_space_def chunk_key_def)
  obtain owner ws i g where k: "k = (owner, ws, i, g)" by (cases k) auto
  have nonneg: "0 \<le> one_row x" for x by (simp add: one_row_def)
  have caps: "byte_cap cfg k d1 \<le> max 0 (al_log_bytes ?l)" "row_cap cfg k d1 \<le> max 0 (al_log_events ?l)"
    "byte_cap cfg k d1 \<le> max 0 (al_global_bytes ?l - held lc_length (\<lambda>j. True \<and> j \<noteq> k) (db_chunks d1))"
    "row_cap cfg k d1 \<le> max 0 (al_global_rows ?l - held one_row (\<lambda>j. True \<and> j \<noteq> k) (db_chunks d1))"
    "byte_cap cfg k d1 \<le> max 0 (al_principal_bytes ?l - held lc_length (\<lambda>j. of_owner owner j \<and> j \<noteq> k) (db_chunks d1))"
    "row_cap cfg k d1 \<le> max 0 (al_principal_rows ?l - held one_row (\<lambda>j. of_owner owner j \<and> j \<noteq> k) (db_chunks d1))"
    "byte_cap cfg k d1 \<le> max 0 (al_workspace_bytes ?l - held lc_length (\<lambda>j. of_space owner ws j \<and> j \<noteq> k) (db_chunks d1))"
    "row_cap cfg k d1 \<le> max 0 (al_workspace_rows ?l - held one_row (\<lambda>j. of_space owner ws j \<and> j \<noteq> k) (db_chunks d1))"
    unfolding eqs [symmetric] by (simp_all add: byte_cap_def row_cap_def k Let_def)
  have "held f (\<lambda>j. j = i \<and> j \<noteq> i) (db_chunks d1) = 0" for f i by (simp add: held_def sum_where_def)
  then have none: "held f (\<lambda>j. j = k \<and> j \<noteq> k) (db_chunks d1) = 0" for f by simp
  have old: "caps_kept ?l (db_chunks d)" by (rule assms(5))
  have one: "held lc_length (\<lambda>j. j = k') (db_chunks d) \<le> max 0 (al_log_bytes ?l)" "held one_row (\<lambda>j. j = k') (db_chunks d) \<le> max 0 (al_log_events ?l)" for k'
    using old unfolding caps_kept_def by blast+
  show ?thesis unfolding caps_kept_def
  proof (intro conjI allI)
    show "held lc_length (\<lambda>_. True) (db_chunks d') \<le> max 0 (al_global_bytes ?l)" by (rule bytes) (use old caps(3) in \<open>auto simp: caps_kept_def\<close>)
    show "held one_row (\<lambda>_. True) (db_chunks d') \<le> max 0 (al_global_rows ?l)" by (rule rows) (use old caps(4) nonneg in \<open>auto simp: caps_kept_def\<close>)
    show "held lc_length (of_owner o') (db_chunks d') \<le> max 0 (al_principal_bytes ?l)" for o'
      by (rule bytes) (use old caps(5) in \<open>auto simp: caps_kept_def of_owner_def k\<close>)
    show "held one_row (of_owner o') (db_chunks d') \<le> max 0 (al_principal_rows ?l)" for o'
      by (rule rows) (use old caps(6) nonneg in \<open>auto simp: caps_kept_def of_owner_def k\<close>)
    show "held lc_length (of_space o' w) (db_chunks d') \<le> max 0 (al_workspace_bytes ?l)" for o' w
      by (rule bytes) (use old caps(7) in \<open>auto simp: caps_kept_def of_space_def k\<close>)
    show "held one_row (of_space o' w) (db_chunks d') \<le> max 0 (al_workspace_rows ?l)" for o' w
      by (rule rows) (use old caps(8) nonneg in \<open>auto simp: caps_kept_def of_space_def k\<close>)
    show "held lc_length (\<lambda>j. j = k') (db_chunks d') \<le> max 0 (al_log_bytes ?l)" for k'
      by (rule bytes) (use one caps(1) none in \<open>simp_all\<close>)
    show "held one_row (\<lambda>j. j = k') (db_chunks d') \<le> max 0 (al_log_events ?l)" for k'
      by (rule rows) (use one caps(2) nonneg none in \<open>simp_all\<close>)
  qed
qed

section \<open>Every database reached\<close>

definition logs_inv :: "agent_limits \<Rightarrow> log_chunk list \<Rightarrow> (agent_key, log_mark) jmap \<Rightarrow> bool" where
  "logs_inv l cs ms = (logs_sound cs ms \<and> caps_kept l cs)"

lemma logs_inv_length: "logs_inv l cs ms \<Longrightarrow> c \<in> set cs \<Longrightarrow> 0 \<le> lc_length c"
  unfolding logs_inv_def using logs_length by (meson less_imp_le)

lemma logs_inv_filter: "logs_inv l cs ms \<Longrightarrow> logs_inv l (filter (\<lambda>c. P (chunk_key c)) cs) (filter (\<lambda>p. P (fst p)) ms)"
  using logs_filter caps_filter logs_inv_length unfolding logs_inv_def by metis

lemma enforce_inv:
  assumes "enforce_log_caps cfg k db = Inr db'" "logs_inv l (db_chunks db) (db_marks db)"
  shows "logs_inv l (db_chunks db') (db_marks db')"
proof -
  obtain keep where "logs_sound (db_chunks db') (db_marks db')" "db_chunks db' = filter keep (db_chunks db)"
    using enforce_trimmed [OF assms(1)] assms(2) unfolding trimmed_def logs_inv_def by blast
  then show ?thesis using assms(2) caps_filter [of l "db_chunks db" keep] logs_inv_length [OF assms(2)] by (simp add: logs_inv_def)
qed

lemma enforce_all_inv: "enforce_all cfg rs db = Inr db' \<Longrightarrow> logs_inv l (db_chunks db) (db_marks db) \<Longrightarrow> logs_inv l (db_chunks db') (db_marks db')"
  by (induction rs arbitrary: db) (auto simp: ebind_Inr_iff dest: enforce_inv)

definition utf8_counts :: "agent_config \<Rightarrow> bool" where
  "utf8_counts cfg = (\<forall>s. 0 \<le> ac_utf8 cfg s)"

lemma append_log_inv:
  assumes "logs_inv (ac_limits cfg) (db_chunks db) (db_marks db)" "utf8_counts cfg"
  shows "logs_inv (ac_limits cfg) (db_chunks (snd (append_log cfg owner ws i n ty content now db))) (db_marks (snd (append_log cfg owner ws i n ty content now db)))"
proof (rule append_log_cases [OF _ _ refl, where P = "\<lambda>d. logs_inv (ac_limits cfg) (db_chunks d) (db_marks d)"])
  fix r u m c
  let ?k = "(owner, ws, i, n)"
  let ?d1 = "log_appended ?k (ac_utf8 cfg c) ty c now m u db" and ?d' = "snd (append_log cfg owner ws i n ty content now db)"
  assume m: "jget (db_marks db) ?k = Some m" and c: "ac_utf8 cfg c \<noteq> 0" and safe: "is_safe (lm_next m + ac_utf8 cfg c)" and run: "enforce_log_caps cfg ?k ?d1 = Inr ?d'"
  have "0 < ac_utf8 cfg c" using c assms(2) by (simp add: utf8_counts_def order_less_le)
  then have sound: "logs_sound (db_chunks ?d1) (db_marks ?d1)" using logs_append [OF _ m _ safe] assms(1) by (simp add: logs_inv_def)
  obtain x where x: "db_chunks ?d1 = db_chunks db @ [x]" "chunk_key x = ?k" by (simp add: log_appended_def chunk_key_def)
  have "caps_kept (ac_limits cfg) (db_chunks ?d')"
    by (rule enforce_caps [OF run x sound]) (use assms(1) logs_inv_length in \<open>auto simp: logs_inv_def\<close>)
  moreover have "logs_sound (db_chunks ?d') (db_marks ?d')" using enforce_trimmed [OF run sound] by (simp add: trimmed_def)
  ultimately show "logs_inv (ac_limits cfg) (db_chunks ?d') (db_marks ?d')" by (simp add: logs_inv_def)
qed (rule assms(1))

lemma compact_inv:
  assumes "logs_inv l (db_chunks db) (db_marks db)"
  shows "logs_inv l (db_chunks (snd (compact_closed_workspace cfg owner ws g now db))) (db_marks (snd (compact_closed_workspace cfg owner ws g now db)))"
proof (rule compact_cases [where P = "\<lambda>d. logs_inv l (db_chunks d) (db_marks d)"])
  fix ts adm
  let ?gone = "set (map ar_id (filter (in_space owner ws) (db_agents db)))"
  let ?d = "(compacted_tables owner ws (db\<lparr>db_tombs := ts\<rparr>))\<lparr>db_admissions := adm\<rparr>"
  have "db_chunks ?d = filter (\<lambda>c. fst (snd (snd (chunk_key c))) \<notin> ?gone) (filter (\<lambda>c. \<not> (fst (chunk_key c) = owner \<and> fst (snd (chunk_key c)) = ws)) (db_chunks db))"
    "db_marks ?d = filter (\<lambda>p. fst (snd (snd (fst p))) \<notin> ?gone) (filter (\<lambda>p. \<not> (fst (fst p) = owner \<and> fst (snd (fst p)) = ws)) (db_marks db))"
    by (simp_all add: compacted_tables_def drop_agents_def Let_def delete_session_rows_def drop_space_rows_def chunk_key_def)
  then show "logs_inv l (db_chunks ?d) (db_marks ?d)"
    using logs_inv_filter [OF logs_inv_filter [OF assms], of "\<lambda>k. fst (snd (snd k)) \<notin> ?gone" "\<lambda>k. \<not> (fst k = owner \<and> fst (snd k) = ws)"] by simp
qed (rule assms)

lemma spawn_logs:
  assumes "logs_inv l (db_chunks db) (db_marks db)"
  shows "logs_inv l (db_chunks (snd (reserve_spawn cfg du x db))) (db_marks (snd (reserve_spawn cfg du x db)))"
proof -
  obtain res db' where run: "reserve_spawn cfg du x db = (res, db')" by fastforce
  then show ?thesis
  proof (cases rule: reserve_spawn_cases)
    case (spawn n s a)
    from spawn(2) have "agent_insertable n (ensure_admission (si_owner x) (si_workspace x) (si_ws_gen x) (si_now x) db)"
      and tables: "db_chunks db' = db_chunks (ensure_admission (si_owner x) (si_workspace x) (si_ws_gen x) (si_now x) db)"
        "db_marks db' = jset (key_of n) \<lparr>lm_base = 0, lm_next = 0, lm_bytes = 0, lm_events = 0\<rparr> (db_marks (ensure_admission (si_owner x) (si_workspace x) (si_ws_gen x) (si_now x) db))"
      by (auto elim: spawn_new_Inr)
    then have "\<not> jhas (db_marks db) (key_of n)" by (simp add: agent_insertable_def)
    then show ?thesis using assms logs_start by (simp add: run tables logs_inv_def)
  qed (use assms run in simp_all)
qed

lemma step_logs:
  assumes "agent_step cfg a b" "utf8_counts cfg" "logs_inv (ac_limits cfg) (db_chunks a) (db_marks a)"
  shows "logs_inv (ac_limits cfg) (db_chunks b) (db_marks b)"
proof -
  have keep: "logs_inv (ac_limits cfg) (db_chunks d) (db_marks d)" if "keeps_logs a d" for d using assms(3) that by (simp add: keeps_logs_def)
  show ?thesis using assms(1)
  proof cases
    case (spawns du x)
    then show ?thesis using spawn_logs [OF assms(3)] by blast
  next
    case (logs owner ws i n ty content now)
    then show ?thesis using append_log_inv [OF assms(3,2)] by blast
  next
    case (compacts owner ws n now)
    then show ?thesis using compact_inv [OF assms(3)] by blast
  next
    case (maintains now lmt)
    have "logs_inv (ac_limits cfg) (db_chunks (snd (maintain_closed_workspaces cfg now lmt a))) (db_marks (snd (maintain_closed_workspaces cfg now lmt a)))"
    proof (rule maintain_cases [where P = "\<lambda>d. logs_inv (ac_limits cfg) (db_chunks d) (db_marks d)"])
      show "logs_inv (ac_limits cfg) (db_chunks (snd (purge_expired_tombstones owner ws now d))) (db_marks (snd (purge_expired_tombstones owner ws now d)))"
        if "logs_inv (ac_limits cfg) (db_chunks d) (db_marks d)" for d :: "'a agent_db" and owner ws
        using that purge_keeps(2) [of d owner ws now] by (simp add: keeps_logs_def)
    qed (use assms(3) compact_inv in blast)+
    then show ?thesis using maintains by simp
  next
    case (repairs owner ws n now)
    have "logs_inv (ac_limits cfg) (db_chunks (snd (prepare_startup_repair cfg owner ws n now a))) (db_marks (snd (prepare_startup_repair cfg owner ws n now a)))"
      by (rule repair_cases [where P = "\<lambda>d. logs_inv (ac_limits cfg) (db_chunks d) (db_marks d)"], rule assms(3)) (erule enforce_all_inv, simp add: assms(3))
    then show ?thesis using repairs by simp
  qed (simp_all add: keep others_keeps bump_keeps open_keeps message_keeps answer_keeps usage_keeps reserve_keeps dispatch_keeps complete_keeps change_keeps
      forget_keeps retry_keeps clear_keeps close_keeps purge_keeps append_keeps discontinue_keeps retire_keeps delete_keeps transit_keeps)
qed

lemma reachable_logs: "agent_reachable cfg db \<Longrightarrow> utf8_counts cfg \<Longrightarrow> logs_inv (ac_limits cfg) (db_chunks db) (db_marks db)"
  by (rule agent_reachable_invariant [where J = "\<lambda>d. logs_inv (ac_limits cfg) (db_chunks d) (db_marks d)"], assumption,
      simp add: logs_inv_def logs_sound_def caps_kept_def fresh_db_def held_simps) (rule step_logs)

end
