(* ===== verification/AgentTheorems.thy ===== *)
theory AgentTheorems
  imports AgentLogFacts
begin

text \<open>What the agent repository promises of every database it can reach.\<close>

section \<open>A run of the repository\<close>

lemma run_lives:
  assumes "(agent_step cfg)\<^sup>*\<^sup>* a b" "r \<in> set (db_agents a)"
  shows "(\<exists>r' \<in> set (db_agents b). same_agent r r') \<or> (\<exists>m. (agent_step cfg)\<^sup>*\<^sup>* a m \<and> (agent_step cfg)\<^sup>*\<^sup>* m b \<and> (\<forall>r' \<in> set (db_agents m). \<not> in_space (ar_owner r) (ar_workspace r) r'))"
  using assms(1)
proof (induction rule: rtranclp_induct)
  case base
  then show ?case using assms(2) by (auto simp: same_agent_def)
next
  case (step b c)
  show ?case
  proof (cases "\<exists>r' \<in> set (db_agents b). same_agent r r'")
    case True
    then obtain r' where r': "r' \<in> set (db_agents b)" "same_agent r r'" by blast
    have trans: "same_agent r r'' " if "same_agent r' r''" for r'' using r'(2) that by (simp add: same_agent_def)
    have space: "ar_owner r' = ar_owner r" "ar_workspace r' = ar_workspace r" using r'(2) by (auto simp: same_agent_def space_key_def)
    have "lives_on r' (db_agents c) \<or> gone_space r' (db_agents c)" by (rule step_lives [OF step(2) r'(1)])
    moreover have "(agent_step cfg)\<^sup>*\<^sup>* a c" using step(1,2) by (rule rtranclp.rtrancl_into_rtrancl)
    ultimately show ?thesis using trans r'(2) space unfolding lives_on_def agent_moves_def gone_space_def by (metis rtranclp.rtrancl_refl)
  next
    case False
    then show ?thesis using step by (metis rtranclp.rtrancl_into_rtrancl)
  qed
qed

lemma replay_only:
  assumes "agent_reachable cfg c" "r \<in> set (db_agents c)" "space_key r = (si_owner y, si_workspace y, si_key y)" "reserve_spawn cfg du y c = (res, d)"
  shows "(\<exists>e. res = Inl e) \<and> d = c \<or> res = Inr (True, r) \<and> ar_payload r = si_payload y \<and> agents_of d = agents_of c"
proof -
  have "distinct (map space_key (db_agents c))" using reachable_sound [OF assms(1)] by (simp add: agents_sound_def agents_of_def)
  then have "r' = r" if "r' \<in> set (db_agents c)" "in_space (si_owner y) (si_workspace y) r'" "ar_key r' = si_key y" for r'
    using that assms(2,3) by (auto simp: distinct_map inj_on_def space_key_def in_space_def)
  then have found: "find_by_idempotency (si_owner y) (si_workspace y) (si_key y) c = Some r"
  proof -
    assume only: "\<And>r'. r' \<in> set (db_agents c) \<Longrightarrow> in_space (si_owner y) (si_workspace y) r' \<Longrightarrow> ar_key r' = si_key y \<Longrightarrow> r' = r"
    have "in_space (si_owner y) (si_workspace y) r \<and> ar_key r = si_key y" using assms(3) by (simp add: space_key_def in_space_def)
    then obtain r' where "find_by_idempotency (si_owner y) (si_workspace y) (si_key y) c = Some r'"
      using assms(2) by (cases "find_by_idempotency (si_owner y) (si_workspace y) (si_key y) c") (auto simp: find_by_idempotency_def find_None_iff)
    moreover from this have "r' \<in> set (db_agents c) \<and> in_space (si_owner y) (si_workspace y) r' \<and> ar_key r' = si_key y"
      by (auto simp: find_by_idempotency_def find_Some_iff)
    ultimately show ?thesis using only by simp
  qed
  show ?thesis using assms(4) by (cases rule: reserve_spawn_cases) (use found in \<open>auto simp: agents_of_def\<close>)
qed

lemma spawned_row:
  assumes "reserve_spawn cfg du x a = (Inr (p, n), b)"
  shows "n \<in> set (db_agents b) \<and> space_key n = (si_owner x, si_workspace x, si_key x) \<and> ar_payload n = si_payload x"
  using assms
proof (cases rule: reserve_spawn_cases)
  case (replay r)
  then show ?thesis by (auto simp: find_by_idempotency_def find_Some_iff space_key_def in_space_def)
next
  case (spawn m s c)
  from spawn(2) obtain pg where "m = new_agent x pg (next_rowid (db_agents a))" "db_agents b = db_agents a @ [m]"
    by (rule spawn_new_Inr) simp
  then show ?thesis using spawn(1) by (auto simp: new_agent_def space_key_def)
qed auto

section \<open>Reading pages\<close>

lemma page_prefix: "\<exists>ds. cs = page_chunks limit n b cs @ ds"
  by (induction limit n b cs rule: page_chunks.induct) auto

lemma page_nonempty: "cs \<noteq> [] \<Longrightarrow> page_chunks limit 0 b cs \<noteq> []"
  by (cases cs) simp_all

lemma covers_last: "covers a cs b \<Longrightarrow> cs \<noteq> [] \<Longrightarrow> lc_end (last cs) = b"
  by (induction cs arbitrary: a) auto

lemma covers_after:
  "covers a (cs @ ds) b \<Longrightarrow> cs \<noteq> [] \<Longrightarrow> filter (\<lambda>c. lc_end (last cs) < lc_end c) (cs @ ds) = ds"
proof -
  assume cov: "covers a (cs @ ds) b" and ne: "cs \<noteq> []"
  then obtain m where m: "covers a cs m" "covers m ds b" by (auto simp: covers_append)
  have "lc_end (last cs) = m" by (rule covers_last [OF m(1) ne])
  then have "filter (\<lambda>c. lc_end (last cs) < lc_end c) cs = []" "filter (\<lambda>c. lc_end (last cs) < lc_end c) ds = ds"
    using covers_bounds [OF m(1)] covers_bounds [OF m(2)] by (fastforce simp: filter_id_conv filter_empty_conv)+
  then show ?thesis by simp
qed

lemma covers_from: "covers a cs b \<Longrightarrow> \<exists>xs m. cs = xs @ filter (\<lambda>c. s < lc_end c) cs \<and> covers m (filter (\<lambda>c. s < lc_end c) cs) b"
proof (induction cs arbitrary: a)
  case (Cons c cs)
  show ?case
  proof (cases "s < lc_end c")
    case True
    have "covers (lc_end c) cs b" using Cons.prems unfolding covers.simps by blast
    from covers_bounds [OF this] have "s < lc_end d" if "d \<in> set cs" for d using True that by force
    then have "filter (\<lambda>c. s < lc_end c) (c # cs) = c # cs" using True by (simp add: filter_id_conv)
    then show ?thesis using Cons.prems by (metis append_Nil)
  next
    case False
    have "covers (lc_end c) cs b" using Cons.prems unfolding covers.simps by blast
    then obtain xs m where "cs = xs @ filter (\<lambda>c. s < lc_end c) cs" "covers m (filter (\<lambda>c. s < lc_end c) cs) b" using Cons.IH by blast
    then show ?thesis using False by (intro exI [of _ "c # xs"] exI [of _ m]) simp
  qed
qed auto

text \<open>A client that follows the cursors.\<close>

fun read_pages :: "nat \<Rightarrow> string \<Rightarrow> string \<Rightarrow> string \<Rightarrow> int \<Rightarrow> string \<Rightarrow> int \<Rightarrow> 'x agent_db \<Rightarrow> log_chunk list option" where
  "read_pages 0 owner ws i g cursor limit db = None"
| "read_pages (Suc n) owner ws i g cursor limit db = (case read_logs owner ws i g cursor limit db of
      Inl e \<Rightarrow> None
    | Inr p \<Rightarrow> if lp_more p then map_option ((@) (lp_events p)) (read_pages n owner ws i g (lp_next p) limit db) else Some (lp_events p))"

lemma cursor_ok_show: "0 \<le> n \<Longrightarrow> n \<le> max_safe \<Longrightarrow> cursor_ok (show_cursor n) \<and> dec_number (show_cursor n) = n"
proof -
  assume n: "0 \<le> n" "n \<le> max_safe"
  have d: "dec_number (show_cursor n) = n" using n by (simp add: show_cursor_def dec_number_show)
  have digits: "list_all is_digit_char (show_cursor n)" "show_cursor n \<noteq> []" by (simp_all add: show_cursor_def list_all_iff show_nat_digits)
  have "show_cursor n = ''0''" if "n = 0" using that by (simp add: show_cursor_def) code_simp
  moreover have "hd (show_cursor n) \<noteq> CHR ''0''" if "n \<noteq> 0" using that n show_nat_leading [of "nat n"] by (simp add: show_cursor_def)
  ultimately show ?thesis using d digits n by (cases "n = 0") (auto simp: cursor_ok_def)
qed

lemma cursor_nonneg: "list_all is_digit_char s \<Longrightarrow> 0 \<le> dec_number s"
proof (induction s rule: rev_induct)
  case (snoc c s)
  then show ?case by (auto simp: dec_number_snoc digit_value_def is_digit_char_def)
qed (simp add: dec_number_def)

lemma read_logs_Inr:
  assumes "read_logs owner ws i g cursor limit db = Inr p"
  obtains m start evs nxt where "cursor_ok cursor" "1024 \<le> limit" "limit \<le> 262144" "find_agent_run owner ws i g db \<noteq> None" "jget (db_marks db) (owner, ws, i, g) = Some m"
    "start = max (dec_number cursor) (lm_base m)" "evs = page_chunks limit 0 0 (filter (\<lambda>c. start < lc_end c) (chunks_of (owner, ws, i, g) db))"
    "nxt = (if evs = [] then start else lc_end (last evs))" "lp_next p = show_cursor nxt" "lp_events p = evs" "lp_more p \<longleftrightarrow> nxt < lm_next m"
proof -
  have c: "cursor_ok cursor" "1024 \<le> limit" "limit \<le> 262144" "find_agent_run owner ws i g db \<noteq> None"
    using assms by (auto simp: read_logs_def split: if_splits option.splits)
  then obtain m where m: "jget (db_marks db) (owner, ws, i, g) = Some m"
    using assms by (cases "jget (db_marks db) (owner, ws, i, g)") (auto simp: read_logs_def)
  then show ?thesis using assms c by (intro that [OF c m refl refl refl]) (auto simp: read_logs_def Let_def)
qed

lemma read_logs_again:
  assumes "read_logs owner ws i g cursor limit db = Inr p" "cursor_ok cursor'"
  shows "\<exists>q. read_logs owner ws i g cursor' limit db = Inr q"
  using assms by (auto simp: read_logs_def Let_def split: if_splits option.splits)

text \<open>One page: it is never empty while something is left, and the next cursor leaves exactly the rest.\<close>

lemma page_step:
  assumes "logs_sound (db_chunks db) (db_marks db)" "read_logs owner ws i g cursor limit db = Inr p"
    "cs = filter (\<lambda>c. dec_number cursor < lc_end c) (own (owner, ws, i, g) (db_chunks db))"
  shows "\<exists>rest. cs = lp_events p @ rest \<and> (lp_more p \<longleftrightarrow> rest \<noteq> []) \<and> (rest \<noteq> [] \<longrightarrow> lp_events p \<noteq> [] \<and> cursor_ok (lp_next p)
    \<and> rest = filter (\<lambda>c. dec_number (lp_next p) < lc_end c) (own (owner, ws, i, g) (db_chunks db)))"
proof -
  let ?own = "own (owner, ws, i, g) (db_chunks db)"
  obtain m start evs nxt where r: "cursor_ok cursor" "jget (db_marks db) (owner, ws, i, g) = Some m" "start = max (dec_number cursor) (lm_base m)"
      "evs = page_chunks limit 0 0 (filter (\<lambda>c. start < lc_end c) (chunks_of (owner, ws, i, g) db))" "nxt = (if evs = [] then start else lc_end (last evs))"
      "lp_next p = show_cursor nxt" "lp_events p = evs" "lp_more p \<longleftrightarrow> nxt < lm_next m"
    using assms(2) by (rule read_logs_Inr)
  have ok: "0 \<le> lm_base m" "covers (lm_base m) ?own (lm_next m)" "lm_next m \<le> max_safe" using logs_soundD [OF assms(1) r(2)] by (simp_all add: log_ok_def)
  have "start < lc_end c \<longleftrightarrow> dec_number cursor < lc_end c" if "c \<in> set ?own" for c using covers_bounds [OF ok(2) that] r(3) by auto
  then have cs: "cs = filter (\<lambda>c. start < lc_end c) ?own" unfolding assms(3) by (intro filter_cong) auto
  then have evs: "evs = page_chunks limit 0 0 cs" using r(4) chunks_of_own [OF assms(1) r(2)] by simp
  obtain rest where rest: "cs = evs @ rest" using page_prefix evs by metis
  obtain xs k where k: "?own = xs @ cs" "covers k cs (lm_next m)" using covers_from [OF ok(2), of start] cs by auto
  show ?thesis
  proof (cases "cs = []")
    case True
    then have "evs = []" using rest by simp
    moreover have "lm_next m \<le> start"
    proof (cases "?own = []")
      case True
      then show ?thesis using ok(2) r(3) by simp
    next
      case False
      have "\<forall>c \<in> set ?own. \<not> start < lc_end c" using True unfolding cs filter_empty_conv .
      then have "\<not> start < lc_end (last ?own)" using False last_in_set by blast
      then show ?thesis using covers_last [OF ok(2) False] by simp
    qed
    ultimately show ?thesis using True r(5,7,8) by simp
  next
    case False
    then have ne: "evs \<noteq> []" using evs page_nonempty by metis
    have cov: "covers (lm_base m) ((xs @ evs) @ rest) (lm_next m)" using ok(2) k(1) rest by simp
    have nxt: "nxt = lc_end (last (xs @ evs))" using r(5) ne by simp
    have after: "filter (\<lambda>c. nxt < lc_end c) ?own = rest" using covers_after [OF cov] ne k(1) rest nxt by simp
    have "last (xs @ evs) \<in> set ?own" using ne k(1) rest by simp
    then have b: "0 \<le> nxt" "nxt \<le> max_safe" using covers_bounds [OF ok(2)] ok(1,3) nxt by fastforce+
    have "rest = [] \<Longrightarrow> nxt = lm_next m" using covers_last [OF cov] ne nxt by simp
    moreover have "nxt < lm_next m" if "rest \<noteq> []"
    proof -
      have "hd rest \<in> set (filter (\<lambda>c. nxt < lc_end c) ?own)" using that unfolding after by simp
      then show ?thesis using covers_bounds [OF ok(2)] by force
    qed
    ultimately have "lp_more p \<longleftrightarrow> rest \<noteq> []" unfolding r(8) by (cases "rest = []") simp_all
    then show ?thesis using ne r(6) cursor_ok_show [OF b] after rest unfolding r(7) by (intro exI [of _ rest]) simp
  qed
qed

lemma read_pages_all:
  assumes "logs_sound (db_chunks db) (db_marks db)" "read_logs owner ws i g cursor limit db = Inr p"
    "length (filter (\<lambda>c. dec_number cursor < lc_end c) (own (owner, ws, i, g) (db_chunks db))) < n"
  shows "read_pages n owner ws i g cursor limit db = Some (filter (\<lambda>c. dec_number cursor < lc_end c) (own (owner, ws, i, g) (db_chunks db)))"
  using assms(2,3)
proof (induction n arbitrary: cursor p)
  case (Suc n)
  let ?own = "own (owner, ws, i, g) (db_chunks db)"
  obtain rest where rest: "filter (\<lambda>c. dec_number cursor < lc_end c) ?own = lp_events p @ rest" "lp_more p \<longleftrightarrow> rest \<noteq> []" "rest \<noteq> [] \<longrightarrow> lp_events p \<noteq> []
      \<and> cursor_ok (lp_next p) \<and> rest = filter (\<lambda>c. dec_number (lp_next p) < lc_end c) ?own"
    using page_step [OF assms(1) Suc.prems(1) refl] by blast
  show ?case
  proof (cases "rest = []")
    case True
    then show ?thesis using rest(1,2) Suc.prems(1) by simp
  next
    case False
    obtain q where q: "read_logs owner ws i g (lp_next p) limit db = Inr q" using read_logs_again [OF Suc.prems(1)] rest(3) False by blast
    have "length rest < n" using Suc.prems(2) rest(1,3) False by (cases "lp_events p") auto
    then have "read_pages n owner ws i g (lp_next p) limit db = Some rest" using Suc.IH [OF q] rest(3) False by simp
    then show ?thesis using rest(1,2) False Suc.prems(1) by simp
  qed
qed simp

end
