(* ===== verification/AgentProperties.thy ===== *)
theory AgentProperties
  imports AgentTheorems
begin

text \<open>The properties of the agent repository, over every database its operations reach, with a small database to apply them at.\<close>

section \<open>A small database\<close>

definition sample_agent_limits :: agent_limits where
  "sample_agent_limits = \<lparr>al_global_active = 3, al_principal_active = 2, al_workspace_active = 2, al_parent_active = 1, al_lifetime = 10,
     al_min_ttl = 1, al_max_ttl = 100, al_max_output = 1000, al_log_bytes = 10, al_log_events = 5, al_log_event_bytes = 8,
     al_global_rows = 20, al_principal_rows = 20, al_workspace_rows = 20, al_global_bytes = 50, al_principal_bytes = 50, al_workspace_bytes = 50,
     al_retries = 3, al_retention = 10, al_horizon = 10, al_messages = 4, al_session_bytes = 100, al_session_retention = 1000,
     al_global_session = 1000, al_principal_session = 1000, al_workspace_session = 1000, al_receipts = 100\<rparr>"

definition sample_agent_config :: agent_config where
  "sample_agent_config = \<lparr>ac_limits = sample_agent_limits, ac_instance = Some ''runner'', ac_sha = (\<lambda>s. ''#'' @ s), ac_utf8 = (\<lambda>s. int (length s)),
     ac_text = (\<lambda>v. ''{}''), ac_parse = (\<lambda>s. Some (JStr s))\<rparr>"

definition sample_budget :: agent_budget where
  "sample_budget = \<lparr>ab_ttl = 50, ab_output = 100, ab_input_tokens = 0, ab_output_tokens = 0, ab_cost = 0\<rparr>"

definition sample_spawn :: "string \<Rightarrow> string option \<Rightarrow> int \<Rightarrow> unit spawn_input" where
  "sample_spawn i source now = \<lparr>si_id = i, si_owner = ''o'', si_workspace = ''w'', si_ws_gen = 1, si_parent = None, si_key = ''k'' @ i, si_payload = ''h'' @ i,
     si_prompt = ''p'', si_profile = ''d'', si_ops = [''files_read''], si_budget = sample_budget, si_container = ''c'', si_network = ''n'',
     si_lease = ''l'' @ i, si_epoch = Some 1, si_runtime = None, si_now = now, si_expires = now + 1000, si_session = Some source,
     si_admit_continuation = (\<lambda>_ _ _. Inr ()), si_admit = (\<lambda>x. Inr x)\<rparr>"

definition sample_space :: space_row where
  "sample_space = \<lparr>sp_owner = ''o'', sp_id = ''w'', sp_gen = 1, sp_status = ''ACTIVE'', sp_network = ''network-none'', sp_expires = 100000, sp_activity = 0\<rparr>"

definition no_events :: event_db where
  "no_events = \<lparr>tb_host = \<lparr>ht_workspaces = [], ht_tasks = [], ht_agents = [], ht_api_keys = None\<rparr>, tb_subs = [], tb_verified = [], tb_events = [], tb_deliveries = []\<rparr>"

definition sample_start :: "unit agent_db" where
  "sample_start = snd (bump_epoch ''runner'' (fresh_db [sample_space] no_events ()))"

definition sample_spawned :: "unit agent_db" where
  "sample_spawned = snd (reserve_spawn sample_agent_config None (sample_spawn ''a'' None 5) sample_start)"

definition sample_move :: "agent_status list \<Rightarrow> agent_status \<Rightarrow> int \<Rightarrow> transition_input" where
  "sample_move from to now = \<lparr>ti_owner = ''o'', ti_workspace = ''w'', ti_agent = ''a'', ti_gen = 1, ti_epoch = None, ti_expected = from, ti_status = to, ti_now = now,
     ti_reason = None, ti_cleanup = None, ti_unknown = None, ti_resumable = None\<rparr>"

definition sample_running :: "unit agent_db" where
  "sample_running = snd (transition_status sample_agent_config (\<lambda>s. s) (sample_move [Spawning] Running 6) sample_spawned)"

lemma sample_reachable: "agent_reachable sample_agent_config sample_start" "agent_reachable sample_agent_config sample_spawned"
    "agent_reachable sample_agent_config sample_running"
proof -
  have "agent_step sample_agent_config (fresh_db [sample_space] no_events ()) sample_start" unfolding sample_start_def by (rule bumps)
  then show a: "agent_reachable sample_agent_config sample_start" unfolding agent_reachable_def by (meson r_into_rtranclp)
  show b: "agent_reachable sample_agent_config sample_spawned" unfolding sample_spawned_def by (rule agent_reachable_step [OF a spawns])
  show "agent_reachable sample_agent_config sample_running" unfolding sample_running_def by (rule agent_reachable_step [OF b transits])
qed

lemma sample_readable: "json_readable sample_agent_config" "utf8_counts sample_agent_config"
  by (simp_all add: json_readable_def utf8_counts_def sample_agent_config_def)

definition sample_row :: agent_rec where
  "sample_row = new_agent (sample_spawn ''a'' None 5) None 1"

lemma sample_spawn_run: "reserve_spawn sample_agent_config None (sample_spawn ''a'' None 5) sample_start = (Inr (False, sample_row), sample_spawned)"
  "db_agents sample_spawned = [sample_row]" "db_tombs sample_spawned = []"
  by code_simp+

section \<open>Agents\<close>

text \<open>
  C30: In every database the repository reaches, whatever operations ran in whatever order: agent ids, gateway leases and the
  (owner, workspace, idempotency key) triples of agents and tombstones together are distinct, rowids ascend, and each row is
  consistent: an agent is active exactly as long as it has no terminal time, its admissions are closed from the moment it is
  cancelled or ends, its outcome is unknown exactly when it was interrupted, and it has a start time when it runs; a
  tombstone keeps a terminal status.
\<close>
theorem agent_tables_sound: "agent_reachable cfg db \<Longrightarrow> agents_sound (agents_of db)"
  by (rule reachable_sound)

theorem agent_tables_sound_witness: "agents_sound (agents_of sample_running) \<and> map ar_status (db_agents sample_running) = [Running]"
proof
  show "agents_sound (agents_of sample_running)" by (rule agent_tables_sound [OF sample_reachable(3)])
  show "map ar_status (db_agents sample_running) = [Running]" by code_simp
qed

text \<open>
  C31: The number of active agents (spawning, running or cancelling) never passes the configured capacity: in the whole runner, of a
  principal, of a workspace, and under a parent agent.
\<close>
theorem active_agents_bounded:
  assumes "agent_reachable cfg db"
  shows "active_count (\<lambda>_. True) (db_agents db) \<le> max 0 (al_global_active (ac_limits cfg))
    \<and> active_count (\<lambda>r. ar_owner r = owner) (db_agents db) \<le> max 0 (al_principal_active (ac_limits cfg))
    \<and> active_count (in_space owner ws) (db_agents db) \<le> max 0 (al_workspace_active (ac_limits cfg))
    \<and> active_count (\<lambda>r. in_space owner ws r \<and> ar_parent r = Some p) (db_agents db) \<le> max 0 (al_parent_active (ac_limits cfg))"
proof (intro conjI)
  show "active_count (\<lambda>_. True) (db_agents db) \<le> max 0 (al_global_active (ac_limits cfg))"
    by (rule reachable_capacity [OF assms slots(1)]) (simp add: room_for_def active_count_def)
  show "active_count (\<lambda>r. ar_owner r = owner) (db_agents db) \<le> max 0 (al_principal_active (ac_limits cfg))"
    by (rule reachable_capacity [OF assms slots(2)]) (auto simp: room_for_def active_count_def)
  show "active_count (in_space owner ws) (db_agents db) \<le> max 0 (al_workspace_active (ac_limits cfg))"
    by (rule reachable_capacity [OF assms slots(3)]) (auto simp: room_for_def active_count_def in_space_def)
  show "active_count (\<lambda>r. in_space owner ws r \<and> ar_parent r = Some p) (db_agents db) \<le> max 0 (al_parent_active (ac_limits cfg))"
    by (rule reachable_capacity [OF assms slots(4)]) (auto simp: room_for_def active_count_def in_space_def)
qed

theorem active_agents_bounded_witness: "active_count (in_space ''o'' ''w'') (db_agents sample_running) = 1
    \<and> active_count (in_space ''o'' ''w'') (db_agents sample_running) \<le> 2"
proof
  show "active_count (in_space ''o'' ''w'') (db_agents sample_running) = 1" by code_simp
  show "active_count (in_space ''o'' ''w'') (db_agents sample_running) \<le> 2"
    using active_agents_bounded [OF sample_reachable(3), of "''o''" "''w''"] by (simp add: sample_agent_config_def sample_agent_limits_def)
qed

text \<open>
  C32: The life of an agent: an operation leaves an active agent in the table, in its status or one its status
  may move to, with its identity, payload, epoch and budget as they were and no admission reopened; the row of an ended
  agent is not changed by anything until its workspace is compacted, and then no agent of that workspace is left.
\<close>
theorem agent_life:
  assumes "agent_step cfg a b" "r \<in> set (db_agents a)"
  shows "if is_active r then lives_on r (db_agents b) else r \<in> set (db_agents b) \<or> gone_space r (db_agents b)"
  using step_lives [OF assms] by (auto simp: lives_on_def agent_moves_def gone_space_def)

theorem agent_life_witness: "lives_on sample_row (db_agents sample_running)"
proof -
  have "agent_step sample_agent_config sample_spawned sample_running" unfolding sample_running_def by (rule transits)
  from agent_life [OF this, of sample_row] show ?thesis by (simp add: sample_spawn_run(2)) (simp add: sample_row_def new_agent_def is_active_def active_statuses_def)
qed

text \<open>
  C33: A spawn is made once: after a spawn request was answered with an agent, and as long as its workspace was not emptied by a
  compaction, any request of the same owner, workspace and idempotency key is refused without an effect, or is answered
  with that same agent, for the same payload only, and inserts nothing.
\<close>
theorem spawn_made_once:
  assumes "agent_reachable cfg a" "reserve_spawn cfg du x a = (Inr (p, n), b)" "(agent_step cfg)\<^sup>*\<^sup>* b c"
    "si_owner y = si_owner x" "si_workspace y = si_workspace x" "si_key y = si_key x" "reserve_spawn cfg du' y c = (res, d)"
  shows "(\<exists>m. (agent_step cfg)\<^sup>*\<^sup>* b m \<and> (agent_step cfg)\<^sup>*\<^sup>* m c \<and> (\<forall>r \<in> set (db_agents m). \<not> in_space (si_owner x) (si_workspace x) r))
    \<or> ((\<exists>e. res = Inl e) \<and> d = c)
    \<or> (\<exists>r. res = Inr (True, r) \<and> same_agent n r \<and> si_payload y = si_payload x \<and> agents_of d = agents_of c)"
proof -
  have n: "n \<in> set (db_agents b)" "space_key n = (si_owner x, si_workspace x, si_key x)" "ar_payload n = si_payload x"
    using spawned_row [OF assms(2)] by simp_all
  have "agent_step cfg a b" using spawns [of cfg a du x] assms(2) by simp
  then have c: "agent_reachable cfg c" using agent_reachable_step [OF assms(1)] agent_reachable_run assms(3) by blast
  from run_lives [OF assms(3) n(1)] show ?thesis
  proof
    assume "\<exists>r' \<in> set (db_agents c). same_agent n r'"
    then obtain r where r: "r \<in> set (db_agents c)" "same_agent n r" by blast
    then have "space_key r = (si_owner y, si_workspace y, si_key y)" using n(2) assms(4-6) by (simp add: same_agent_def)
    from replay_only [OF c r(1) this assms(7)] show ?thesis using r(2) n(3) by (auto simp: same_agent_def)
  qed (use n(2) in \<open>auto simp: space_key_def\<close>)
qed

theorem spawn_made_once_witness:
  "fst (reserve_spawn sample_agent_config None (sample_spawn ''a'' None 7) sample_running) = Inr (True, hd (db_agents sample_running))
    \<and> ((\<exists>m. (agent_step sample_agent_config)\<^sup>*\<^sup>* sample_spawned m \<and> (agent_step sample_agent_config)\<^sup>*\<^sup>* m sample_running \<and> (\<forall>r \<in> set (db_agents m). \<not> in_space ''o'' ''w'' r))
      \<or> agents_of (snd (reserve_spawn sample_agent_config None (sample_spawn ''a'' None 7) sample_running)) = agents_of sample_running)"
proof -
  have step: "(agent_step sample_agent_config)\<^sup>*\<^sup>* sample_spawned sample_running" unfolding sample_running_def by (rule r_into_rtranclp, rule transits)
  obtain res d where run: "reserve_spawn sample_agent_config None (sample_spawn ''a'' None 7) sample_running = (res, d)" by fastforce
  have "fst (reserve_spawn sample_agent_config None (sample_spawn ''a'' None 7) sample_running) = Inr (True, hd (db_agents sample_running))" by code_simp
  then have res: "res = Inr (True, hd (db_agents sample_running))" by (simp add: run)
  have key: "si_owner (sample_spawn ''a'' None 7) = si_owner (sample_spawn ''a'' None 5)" "si_workspace (sample_spawn ''a'' None 7) = si_workspace (sample_spawn ''a'' None 5)"
    "si_key (sample_spawn ''a'' None 7) = si_key (sample_spawn ''a'' None 5)" "si_owner (sample_spawn ''a'' None 5) = ''o''" "si_workspace (sample_spawn ''a'' None 5) = ''w''"
    by (simp_all add: sample_spawn_def)
  show ?thesis using spawn_made_once [OF sample_reachable(1) sample_spawn_run(1) step key(1-3) run] unfolding run key(4,5) by (auto simp: res)
qed

section \<open>Epochs\<close>

text \<open>
  C34: A runner whose epoch was superseded writes nothing any more: from the moment the epoch of its instance is raised, in every
  database reached later, its session messages are answered as fenced, its usage is not counted, its effects are neither reserved nor
  dispatched nor completed, and its spawns are refused, with nothing changed.
\<close>
theorem superseded_epoch_writes_nothing:
  assumes "agent_reachable cfg a" "instance_of cfg = Some inst" "b = snd (bump_epoch inst a)" "(agent_step cfg)\<^sup>*\<^sup>* b c" "e = current_epoch inst a"
  shows "append_session_message cfg du owner ws i g e seq v now c = (Inr SessionFenced, c)
    \<and> snd (add_usage cfg owner ws i g usage (Some e) c) = c
    \<and> (fe_epoch (ei_fence x) = e \<longrightarrow> ei_fenced x \<longrightarrow> (\<exists>err. reserve_effect cfg x now c = (Inl err, c)))
    \<and> (fe_epoch f = e \<longrightarrow> fst (dispatch_effect cfg k f es pre intd entry now c) \<noteq> Inr True \<and> snd (dispatch_effect cfg k f es pre intd entry now c) = c)
    \<and> (fe_epoch f = e \<longrightarrow> fst (complete_effect cfg k f es outcome receipt now c) \<noteq> Inr True \<and> snd (complete_effect cfg k f es outcome receipt now c) = c)
    \<and> (si_epoch y = Some e \<longrightarrow> (\<exists>err. reserve_spawn cfg du y c = (Inl err, c)))"
proof -
  have "current_epoch inst b = e + 1" using assms(3,5) by (simp add: bump_rises)
  then have later: "e + 1 \<le> current_epoch inst c" using epochs_rise_run [OF assms(4), of inst] by simp
  then have lost: "epoch_lost cfg e c" using assms(2) by (simp add: epoch_lost_def)
  have "0 \<le> e" using epochs_nonneg [OF assms(1)] assms(5) by simp
  then have spawn: "si_epoch y = Some e \<Longrightarrow> \<exists>err. reserve_spawn cfg du y c = (Inl err, c)" using lost_spawn [OF lost] later assms(2) by fastforce
  show ?thesis
    using lost_append [OF lost] lost_usage [OF lost] lost_reserve [of cfg x c] lost_dispatch [of cfg f c] lost_complete [of cfg f c] lost spawn by simp
qed

theorem superseded_epoch_writes_nothing_witness:
  "append_session_message sample_agent_config None ''o'' ''w'' ''a'' 1 1 0 JNull 9 (snd (bump_epoch ''runner'' sample_running)) = (Inr SessionFenced, snd (bump_epoch ''runner'' sample_running))"
proof -
  have inst: "instance_of sample_agent_config = Some ''runner''" by (simp add: instance_of_def sample_agent_config_def)
  have "current_epoch ''runner'' sample_running = 1" by code_simp
  then show ?thesis using superseded_epoch_writes_nothing [OF sample_reachable(3) inst refl rtranclp.rtrancl_refl refl] by simp
qed

section \<open>Effects\<close>

text \<open>
  C35: An effect is recorded once: the ledger never holds two effects of a lineage under one request identifier and kind, and a
  reservation under a key it holds, by any agent of the lineage, is refused or answered with the recorded effect, whose owner,
  workspace and payload are the request's; it writes nothing.
\<close>
theorem effect_reserved_once:
  assumes "agent_reachable cfg db" "e \<in> set (db_effects db)" "ef_root e = lineage_root (fe_agent (ei_fence x)) db" "ef_request e = ei_request x" "ef_kind e = ei_kind x"
    "reserve_effect cfg x now db = (res, db')"
  shows "db' = db \<and> distinct (effect_ids (db_effects db)) \<and> ((\<exists>err. res = Inl err)
    \<or> (res = Inr (True, e) \<and> ef_owner e = fe_owner (ei_fence x) \<and> ef_workspace e = fe_workspace (ei_fence x) \<and> ef_payload e = ei_payload x))"
proof -
  have sound: "effects_sound db" by (rule reachable_effects [OF assms(1)])
  have "find_effect \<lparr>ek_root = lineage_root (fe_agent (ei_fence x)) db, ek_request = ei_request x, ek_kind = ei_kind x\<rparr> db = Some e"
    by (rule find_effect_unique [OF sound assms(2)]) (simp add: effect_at_def assms(3-5))
  then show ?thesis using assms(6) sound unfolding reserve_effect_def effects_sound_def
    by (cases "optional_sha256 (ei_pre x) ''pre-image digest''"; cases "optional_sha256 (ei_intended x) ''intended post-image digest''")
      (auto simp: Let_def immediate_def split: if_splits)
qed

definition sample_effect :: effect_input where
  "sample_effect = \<lparr>ei_fence = \<lparr>fe_owner = ''o'', fe_workspace = ''w'', fe_agent = ''a'', fe_gen = 1, fe_epoch = 0\<rparr>, ei_request = ''r'', ei_kind = ''write'', ei_payload = ''h'',
     ei_class = None, ei_pre = None, ei_intended = None, ei_fenced = False\<rparr>"

definition sample_reserved :: "unit agent_db" where
  "sample_reserved = snd (reserve_effect sample_agent_config sample_effect 8 sample_running)"

theorem effect_reserved_once_witness:
  "length (db_effects sample_reserved) = 1 \<and> reserve_effect sample_agent_config sample_effect 9 sample_reserved = (Inr (True, hd (db_effects sample_reserved)), sample_reserved)"
proof -
  have r: "agent_reachable sample_agent_config sample_reserved" unfolding sample_reserved_def by (rule agent_reachable_step [OF sample_reachable(3) reserves])
  obtain res db' where run: "reserve_effect sample_agent_config sample_effect 9 sample_reserved = (res, db')" by fastforce
  have len: "length (db_effects sample_reserved) = 1" by code_simp
  then have mem: "hd (db_effects sample_reserved) \<in> set (db_effects sample_reserved)" by (cases "db_effects sample_reserved") auto
  have key: "ef_root (hd (db_effects sample_reserved)) = lineage_root (fe_agent (ei_fence sample_effect)) sample_reserved"
    "ef_request (hd (db_effects sample_reserved)) = ei_request sample_effect" "ef_kind (hd (db_effects sample_reserved)) = ei_kind sample_effect" by code_simp+
  have "\<not> isl (fst (reserve_effect sample_agent_config sample_effect 9 sample_reserved))" by code_simp
  then show ?thesis using effect_reserved_once [OF r mem key run] run len by auto
qed

section \<open>Sessions\<close>

text \<open>
  C36: Every session log the repository keeps passes its own integrity check: whatever was done before, a session that was not
  purged loads, with as many messages as its row counts and the head and bytes its row records; the counts stay within the
  configured bounds, and no session is continued twice.
\<close>
theorem session_logs_verify:
  assumes "agent_reachable cfg db" "json_readable cfg" "find_session i db = Some s" "sr_state s \<noteq> SessionPurged"
  shows "\<exists>vs. load_session_log cfg i 1 db = Inr (vs, sr_head s, sr_bytes s) \<and> int (length vs) = sr_count s
    \<and> sr_count s \<le> max 0 (al_messages (ac_limits cfg)) \<and> sr_bytes s \<le> max 0 (al_session_bytes (ac_limits cfg))
    \<and> distinct (map sr_from (filter (\<lambda>s. sr_from s \<noteq> None) (db_sessions db)))"
proof -
  have sound: "sessions_sound cfg (db_sessions db) (db_session_log db)" using reachable_sessions [OF assms(1,2)] by (simp add: sessions_inv_def)
  have "s \<in> set (db_sessions db)" using find_session_agent [OF assms(3)] by simp
  then have "session_ok cfg (db_session_log db) s" "distinct (map sr_from (filter (\<lambda>s. sr_from s \<noteq> None) (db_sessions db)))"
    using sound unfolding sessions_sound_def list_all_iff by blast+
  then show ?thesis using load_sound [OF sound assms(3,4)] unfolding session_ok_def by blast
qed

definition sample_message :: json where
  "sample_message = JObj [(''role'', JStr ''user'')]"

definition sample_appended :: "unit agent_db" where
  "sample_appended = snd (append_session_message sample_agent_config None ''o'' ''w'' ''a'' 1 1 0 sample_message 9 sample_running)"

lemma sample_appended_reachable: "agent_reachable sample_agent_config sample_appended"
  unfolding sample_appended_def by (rule agent_reachable_step [OF sample_reachable(3) appends])

theorem session_logs_verify_witness: "\<exists>vs. load_session_log sample_agent_config ''a'' 1 sample_appended = Inr (vs, ''#'' @ replicate 64 CHR ''0'' @ ''#{}'', 2) \<and> length vs = 1"
proof -
  obtain s where s: "find_session ''a'' sample_appended = Some s" "sr_state s = SessionActive" "sr_head s = ''#'' @ replicate 64 CHR ''0'' @ ''#{}''" "sr_bytes s = 2" "sr_count s = 1"
  proof -
    have "(case find_session ''a'' sample_appended of None \<Rightarrow> False | Some s \<Rightarrow> sr_state s = SessionActive \<and> sr_head s = ''#'' @ replicate 64 CHR ''0'' @ ''#{}'' \<and> sr_bytes s = 2 \<and> sr_count s = 1)"
      by code_simp
    then show ?thesis using that by (cases "find_session ''a'' sample_appended") auto
  qed
  have "sr_state s \<noteq> SessionPurged" by (simp add: s(2))
  from session_logs_verify [OF sample_appended_reachable sample_readable(1) s(1) this] show ?thesis by (auto simp: s(3-5))
qed

text \<open>
  C37: A message appended is a message loaded: when an append is accepted, the log loads as it did before with the message
  behind it, parsed back from its stored text; the new head chains the message's digest to the old one, and the message carried the
  next sequence number.
\<close>
theorem appended_message_loads:
  assumes "agent_reachable cfg a" "json_readable cfg" "append_session_message cfg du owner ws i g e seq v now a = (Inr SessionAppended, b)"
  shows "\<exists>vs h n w. load_session_log cfg i 1 a = Inr (vs, h, n) \<and> ac_parse cfg (ac_text cfg v) = Some w \<and> int (length vs) = seq
    \<and> load_session_log cfg i 1 b = Inr (vs @ [w], chain_head cfg h (ac_sha cfg (ac_text cfg v)), n + ac_utf8 cfg (ac_text cfg v))"
  using assms(3)
proof (cases rule: append_cases)
  case (appended r s)
  have "agent_step cfg a b" using appends [of cfg a du owner ws i g e seq v now] assms(3) by simp
  then have sound: "sessions_sound cfg (db_sessions a) (db_session_log a)" "sessions_sound cfg (db_sessions b) (db_session_log b)" "agents_sound (agents_of a)"
    using reachable_sessions [OF _ assms(2)] assms(1) agent_reachable_step by (auto simp: sessions_inv_def)
  have "r \<in> set (db_agents a)" using appended(2) by (auto simp: find_agent_def find_Some_iff)
  then have g: "g = 1" using sound(3) appended(3) by (auto simp: agents_sound_def agents_of_def list_all_iff row_ok_def)
  obtain w where w: "ac_parse cfg (ac_text cfg v) = Some w" using assms(2) by (auto simp: json_readable_def)
  let ?t = "ac_text cfg v" and ?rows = "rows_of i (db_session_log a)"
  let ?m = "\<lparr>sm_agent = i, sm_gen = g, sm_seq = seq, sm_role = (case message_role v of None \<Rightarrow> [] | Some r \<Rightarrow> r), sm_json = ?t, sm_bytes = ac_utf8 cfg ?t, sm_sha = ac_sha cfg ?t, sm_created = now\<rparr>"
  have "session_ok cfg (db_session_log a) s" using sound(1) appended(5) by (simp add: sessions_sound_def list_all_iff)
  then obtain vs where vs: "verify_log cfg 0 genesis_head 0 ?rows = Inr (vs, sr_head s, sr_bytes s)" "sr_count s = int (length ?rows)"
    using appended(6,9) by (auto simp: session_ok_def)
  let ?s = "s\<lparr>sr_count := sr_count s + 1, sr_bytes := sr_bytes s + ac_utf8 cfg ?t, sr_head := chain_head cfg (sr_head s) (ac_sha cfg ?t), sr_updated := now\<rparr>"
  have b: "?s \<in> set (db_sessions b)" "db_session_log b = db_session_log a @ [?m]"
    unfolding appended(16) set_session_def update_where_def using appended(5,6) by (auto intro!: image_eqI [of _ _ s])
  have rows: "log_rows i 1 a = ?rows" "log_rows i 1 b = ?rows @ [?m]"
    using log_rows_sound [OF sound(1) appended(5)] log_rows_sound [OF sound(2) b(1)] appended(6) unfolding b(2) by (simp_all add: rows_of_def)
  have "verify_log cfg 0 genesis_head 0 (?rows @ [?m]) = Inr (vs @ [w], chain_head cfg (sr_head s) (ac_sha cfg ?t), sr_bytes s + ac_utf8 cfg ?t)"
    using verify_log_append [OF vs(1), of ?m w] w appended(12) vs(2) by simp
  then have "load_session_log cfg i 1 b = Inr (vs @ [w], chain_head cfg (sr_head s) (ac_sha cfg ?t), sr_bytes s + ac_utf8 cfg ?t)"
    using find_session_unique [OF sound(2) b(1), of i] appended(6,9) vs(2) unfolding load_Inr rows by simp
  moreover have "load_session_log cfg i 1 a = Inr (vs, sr_head s, sr_bytes s)"
    using find_session_unique [OF sound(1) appended(5,6)] appended(6,9) vs unfolding load_Inr rows by simp
  moreover have "int (length vs) = seq" using verify_log_length [OF vs(1)] vs(2) appended(12) by simp
  ultimately show ?thesis using w by blast
qed simp_all

theorem appended_message_loads_witness:
  "\<exists>vs. load_session_log sample_agent_config ''a'' 1 sample_appended = Inr (vs @ [JStr ''{}''], ''#'' @ replicate 64 CHR ''0'' @ ''#{}'', 2) \<and> vs = []"
proof -
  have "fst (append_session_message sample_agent_config None ''o'' ''w'' ''a'' 1 1 0 sample_message 9 sample_running) = Inr SessionAppended" by code_simp
  then have "append_session_message sample_agent_config None ''o'' ''w'' ''a'' 1 1 0 sample_message 9 sample_running = (Inr SessionAppended, sample_appended)"
    by (metis prod.collapse sample_appended_def)
  from appended_message_loads [OF sample_reachable(3) sample_readable(1) this] obtain vs h n w where
    l: "load_session_log sample_agent_config ''a'' 1 sample_running = Inr (vs, h, n)" "ac_parse sample_agent_config (ac_text sample_agent_config sample_message) = Some w"
    "int (length vs) = 0" "load_session_log sample_agent_config ''a'' 1 sample_appended
      = Inr (vs @ [w], chain_head sample_agent_config h (ac_sha sample_agent_config (ac_text sample_agent_config sample_message)), n + ac_utf8 sample_agent_config (ac_text sample_agent_config sample_message))"
    by blast
  have "(case load_session_log sample_agent_config ''a'' 1 sample_running of Inl e \<Rightarrow> False | Inr (x, h', n') \<Rightarrow> h' = replicate 64 CHR ''0'' \<and> n' = 0)" by code_simp
  then have "h = replicate 64 CHR ''0''" "n = 0" by (simp_all add: l(1))
  then show ?thesis using l by (simp add: sample_agent_config_def chain_head_def)
qed

text \<open>The tables after a continuation was admitted, and the check its predecessor passed.\<close>

lemma continued_tables:
  assumes "si_session x = Some (Some i)" "reserve_spawn cfg du x a = (Inr (False, n), b)"
  obtains r s vs h k where "find_agent (si_owner x) (si_workspace x) i a = Some r" "find_session i a = Some s" "sr_state s = SessionSealed" "find_successor i a = None"
    "load_session_log cfg i (ar_gen r) a = Inr (vs, h, k)" "si_id x \<notin> sr_agent ` set (db_sessions a)"
    "db_sessions b = db_sessions a @ [new_session (si_id x) (si_owner x) (si_workspace x) (si_ws_gen x) (si_now x) (Some s)]"
    "db_session_log b = db_session_log a @ map (\<lambda>m. m\<lparr>sm_agent := si_id x, sm_gen := 1\<rparr>) (log_rows i (ar_gen r) a)"
  using assms(2)
proof (cases rule: reserve_spawn_cases)
  case (spawn n' s0 c)
  let ?db1 = "ensure_admission (si_owner x) (si_workspace x) (si_ws_gen x) (si_now x) a"
  from spawn(2) obtain source where check: "continuation_check cfg du x ?db1 = Inr source"
    and tables: "if si_session x = None then db_sessions b = db_sessions ?db1 \<and> db_session_log b = db_session_log ?db1
        else (let m = new_session (si_id x) (si_owner x) (si_workspace x) (si_ws_gen x) (si_now x) (map_option snd source) in
          \<not> session_taken m ?db1 \<and> db_sessions b = db_sessions ?db1 @ [m]
          \<and> db_session_log b = db_session_log ?db1 @ (case source of None \<Rightarrow> []
             | Some (r, s) \<Rightarrow> map (\<lambda>m. m\<lparr>sm_agent := si_id x, sm_gen := 1\<rparr>) (log_rows (ar_id r) (ar_gen r) ?db1)))"
    by (rule spawn_new_Inr) blast
  obtain r s where source: "source = Some (r, s)" using check continuation_none assms(1) by (cases source) (auto, blast)
  from check source obtain j vs h k where j: "si_session x = Some (Some j)" "find_agent (si_owner x) (si_workspace x) j ?db1 = Some r"
    "find_session j ?db1 = Some s" "sr_state s = SessionSealed" "find_successor j ?db1 = None" "load_session_log cfg (ar_id r) (ar_gen r) ?db1 = Inr (vs, h, k)"
    by (metis continuation_Inr)
  have ji: "j = i" using j(1) assms(1) by simp
  have r: "ar_id r = i" using j(2) ji by (auto simp: find_agent_def find_Some_iff)
  let ?n = "new_session (si_id x) (si_owner x) (si_workspace x) (si_ws_gen x) (si_now x) (Some s)"
  have t: "\<not> session_taken ?n ?db1" "db_sessions b = db_sessions a @ [?n]"
    "db_session_log b = db_session_log a @ map (\<lambda>m. m\<lparr>sm_agent := si_id x, sm_gen := 1\<rparr>) (log_rows i (ar_gen r) a)"
    using tables assms(1) by (simp_all add: source Let_def r)
  have "si_id x \<notin> sr_agent ` set (db_sessions a)" using t(1) by (auto simp: session_taken_def list_ex_iff new_session_def)
  then show ?thesis using that t(2,3) j(2-6) ji r load_session_log_cong [of ?db1 a cfg i "ar_gen r"] by simp
qed auto

lemma continued_once:
  assumes "find_successor i b \<noteq> None" "si_session y = Some (Some i)"
  shows "fst (reserve_spawn cfg du y b) \<noteq> Inr (False, m)"
proof
  assume "fst (reserve_spawn cfg du y b) = Inr (False, m)"
  then have "reserve_spawn cfg du y b = (Inr (False, m), snd (reserve_spawn cfg du y b))" by (metis prod.collapse)
  from continued_tables [OF assms(2) this] assms(1) show False by metis
qed

text \<open>
  C38: A continuation starts from its predecessor's log: the new agent's session loads with exactly the messages, head and bytes
  of the session it continues, which is left as it was; it joins the predecessor's lineage and is recorded as its only
  successor, and no further spawn from that predecessor is admitted.
\<close>
theorem continuation_reads_predecessor:
  assumes "agent_reachable cfg a" "json_readable cfg" "si_session x = Some (Some i)" "reserve_spawn cfg du x a = (Inr (False, n), b)"
  shows "\<exists>vs h k. load_session_log cfg i 1 a = Inr (vs, h, k) \<and> load_session_log cfg (si_id x) 1 b = Inr (vs, h, k) \<and> load_session_log cfg i 1 b = Inr (vs, h, k)
    \<and> lineage_root (si_id x) b = lineage_root i a \<and> find_successor i a = None \<and> find_successor i b = Some (si_id x)
    \<and> (\<forall>y du' m. si_session y = Some (Some i) \<longrightarrow> fst (reserve_spawn cfg du' y b) \<noteq> Inr (False, m))"
proof -
  have "agent_step cfg a b" using spawns [of cfg a du x] assms(4) by simp
  then have sound: "sessions_sound cfg (db_sessions a) (db_session_log a)" "sessions_sound cfg (db_sessions b) (db_session_log b)" "agents_sound (agents_of a)"
    using reachable_sessions [OF _ assms(2)] assms(1) agent_reachable_step by (auto simp: sessions_inv_def)
  obtain r s vs h k where c: "find_agent (si_owner x) (si_workspace x) i a = Some r" "find_session i a = Some s" "sr_state s = SessionSealed" "find_successor i a = None"
    "load_session_log cfg i (ar_gen r) a = Inr (vs, h, k)" "si_id x \<notin> sr_agent ` set (db_sessions a)"
    "db_sessions b = db_sessions a @ [new_session (si_id x) (si_owner x) (si_workspace x) (si_ws_gen x) (si_now x) (Some s)]"
    "db_session_log b = db_session_log a @ map (\<lambda>m. m\<lparr>sm_agent := si_id x, sm_gen := 1\<rparr>) (log_rows i (ar_gen r) a)"
    by (rule continued_tables [OF assms(3,4)])
  have "r \<in> set (db_agents a)" using c(1) by (auto simp: find_agent_def find_Some_iff)
  then have gen: "ar_gen r = 1" using sound(3) by (auto simp: agents_sound_def agents_of_def list_all_iff row_ok_def)
  have s: "s \<in> set (db_sessions a)" "sr_agent s = i" using find_session_agent [OF c(2)] by simp_all
  let ?n = "new_session (si_id x) (si_owner x) (si_workspace x) (si_ws_gen x) (si_now x) (Some s)" and ?rows = "map (\<lambda>m. m\<lparr>sm_agent := si_id x, sm_gen := 1\<rparr>) (log_rows i 1 a)"
  have n: "sr_agent ?n = si_id x" "sr_from ?n = Some i" "sr_root ?n = sr_root s" "sr_count ?n = sr_count s" "sr_head ?n = sr_head s" "sr_bytes ?n = sr_bytes s" "sr_state ?n = SessionActive"
    by (simp_all add: new_session_def s(2))
  have b: "?n \<in> set (db_sessions b)" "s \<in> set (db_sessions b)" using c(7) s(1) by simp_all
  have find: "find_session (si_id x) b = Some ?n" "find_session i b = Some s"
    using find_session_unique [OF sound(2) b(1) n(1)] find_session_unique [OF sound(2) b(2) s(2)] by simp_all
  have load: "load_session_log cfg i 1 a = Inr (vs, h, k)" using c(5) gen by simp
  have v: "verify_log cfg 0 genesis_head 0 (log_rows i 1 a) = Inr (vs, h, k)" "h = sr_head s" "k = sr_bytes s" "int (length (log_rows i 1 a)) = sr_count s"
    using load c(2) by (auto simp: load_Inr)
  have ne: "i \<noteq> si_id x" using c(6) s by (metis image_eqI)
  then have "rows_of i ?rows = []" by (auto simp: rows_of_def filter_empty_conv)
  then have rows_i: "log_rows i 1 b = log_rows i 1 a"
    using log_rows_sound [OF sound(1) s(1)] log_rows_sound [OF sound(2) b(2)] s(2) by (simp add: c(8) gen rows_of_append)
  have "rows_of (si_id x) (db_session_log a) = []"
    using sound(1) c(6) unfolding rows_of_def filter_empty_conv sessions_sound_def list_all_iff by metis
  then have rows_n: "log_rows (si_id x) 1 b = ?rows"
    using log_rows_sound [OF sound(2) b(1)] unfolding n(1) c(8) gen rows_of_append rows_of_copy by simp
  have "load_session_log cfg i 1 b = Inr (vs, h, k)" unfolding load_Inr rows_i using find(2) c(3) v by simp
  moreover have "load_session_log cfg (si_id x) 1 b = Inr (vs, h, k)" unfolding load_Inr rows_n verify_log_copy length_map using find(1) n(4-7) v by simp
  moreover have "lineage_root (si_id x) b = lineage_root i a" by (simp add: lineage_root_def find c(2) n(3))
  moreover have "find_successor i b = Some (si_id x)"
    using c(4) n(1,2) find_snoc [of "\<lambda>s. sr_from s = Some i" "db_sessions a" ?n] by (simp add: find_successor_def c(7))
  moreover from this have "\<forall>y du' m. si_session y = Some (Some i) \<longrightarrow> fst (reserve_spawn cfg du' y b) \<noteq> Inr (False, m)" using continued_once by (metis option.distinct(1))
  ultimately show ?thesis using load c(4) by blast
qed

definition sample_ended :: "unit agent_db" where
  "sample_ended = snd (transition_status sample_agent_config (\<lambda>s. s) (sample_move [Cancelling] Succeeded 11)
     (snd (transition_status sample_agent_config (\<lambda>s. s) (sample_move [Running] Cancelling 10) sample_appended)))"

definition sample_continued :: "unit agent_db" where
  "sample_continued = snd (reserve_spawn sample_agent_config None (sample_spawn ''b'' (Some ''a'') 12) sample_ended)"

lemma sample_ended_reachable: "agent_reachable sample_agent_config sample_ended"
  unfolding sample_ended_def by (rule agent_reachable_step [OF agent_reachable_step [OF sample_appended_reachable transits] transits])

theorem continuation_reads_predecessor_witness:
  "load_session_log sample_agent_config ''b'' 1 sample_continued = load_session_log sample_agent_config ''a'' 1 sample_ended \<and> find_successor ''a'' sample_continued = Some ''b''"
proof -
  have "(case fst (reserve_spawn sample_agent_config None (sample_spawn ''b'' (Some ''a'') 12) sample_ended) of Inl e \<Rightarrow> False | Inr (p, n) \<Rightarrow> \<not> p)" by code_simp
  then obtain n where "reserve_spawn sample_agent_config None (sample_spawn ''b'' (Some ''a'') 12) sample_ended = (Inr (False, n), sample_continued)"
    by (cases "reserve_spawn sample_agent_config None (sample_spawn ''b'' (Some ''a'') 12) sample_ended") (auto simp: sample_continued_def split: sum.splits)
  from continuation_reads_predecessor [OF sample_ended_reachable sample_readable(1) _ this, of "''a''"] show ?thesis by (auto simp: sample_spawn_def)
qed

section \<open>Logs\<close>

text \<open>
  C39: The logs retained are within every cap at all times: per agent, workspace, principal and in the whole runner, in bytes and in rows;
  and each log is gapless: its chunks cover the bytes from its base cursor to its next cursor, each starting where the one before
  ended, and its watermark counts their bytes and their number exactly.
\<close>
theorem retained_logs_bounded:
  assumes "agent_reachable cfg db" "utf8_counts cfg"
  shows "caps_kept (ac_limits cfg) (db_chunks db) \<and> (\<forall>k m. jget (db_marks db) k = Some m \<longrightarrow> log_ok (own k (db_chunks db)) m)"
  using reachable_logs [OF assms] logs_soundD unfolding logs_inv_def by blast

definition sample_log :: "nat \<Rightarrow> unit agent_db" where
  "sample_log n = ((\<lambda>d. snd (append_log sample_agent_config ''o'' ''w'' ''a'' 1 ''out'' ''abcd'' 10 d)) ^^ n) sample_running"

lemma sample_log_reachable: "agent_reachable sample_agent_config (sample_log n)"
  by (induction n) (auto simp: sample_log_def sample_reachable intro: agent_reachable_step logs)

theorem retained_logs_bounded_witness:
  "map lc_start (db_chunks (sample_log 3)) = [4, 8] \<and> held lc_length (\<lambda>_. True) (db_chunks (sample_log 3)) = 8 \<and> caps_kept sample_agent_limits (db_chunks (sample_log 3))"
proof (intro conjI)
  show "map lc_start (db_chunks (sample_log 3)) = [4, 8]" "held lc_length (\<lambda>_. True) (db_chunks (sample_log 3)) = 8" by code_simp+
  show "caps_kept sample_agent_limits (db_chunks (sample_log 3))"
    using retained_logs_bounded [OF sample_log_reachable sample_readable(2)] by (simp add: sample_agent_config_def)
qed

text \<open>
  C40: Reading a log page by page loses and repeats nothing: a client that starts at any cursor the repository accepts and
  follows the next cursors while more is announced receives, whatever page size it asks for, exactly the retained
  chunks that end after its cursor, in order; it needs no more pages than there are such chunks, plus one.
\<close>
theorem log_pages_complete:
  assumes "agent_reachable cfg db" "utf8_counts cfg" "read_logs owner ws i g cursor limit db = Inr p"
    "length (filter (\<lambda>c. dec_number cursor < lc_end c) (own (owner, ws, i, g) (db_chunks db))) < n"
  shows "read_pages n owner ws i g cursor limit db = Some (filter (\<lambda>c. dec_number cursor < lc_end c) (own (owner, ws, i, g) (db_chunks db)))"
proof -
  have "logs_sound (db_chunks db) (db_marks db)" using reachable_logs [OF assms(1,2)] by (simp add: logs_inv_def)
  then show ?thesis by (rule read_pages_all [OF _ assms(3,4)])
qed

theorem log_pages_complete_witness: "map_option length (read_pages 3 ''o'' ''w'' ''a'' 1 ''0'' 1024 (sample_log 3)) = Some 2"
proof -
  have "\<not> isl (read_logs ''o'' ''w'' ''a'' 1 ''0'' 1024 (sample_log 3))" by code_simp
  then obtain p where p: "read_logs ''o'' ''w'' ''a'' 1 ''0'' 1024 (sample_log 3) = Inr p" by (auto simp: isl_def sum.case_eq_if) (metis sum.collapse(2) isl_def)
  have len: "length (filter (\<lambda>c. dec_number ''0'' < lc_end c) (own (''o'', ''w'', ''a'', 1) (db_chunks (sample_log 3)))) = 2" by code_simp
  show ?thesis using log_pages_complete [OF sample_log_reachable sample_readable(2) p, of 3] len by simp
qed

end
