(* ===== verification/Spec2Isabelle.thy ===== *)
theory Spec2Isabelle
  imports PricingProperties GatewayTheorems StreamTheorems AddressTheorems SpendTheorems DiffTheorems FramingTheorems EventTheorems SessionTheorems RedactorTheorems AgentProperties
begin

text \<open>
  Cloud Harness MCP: a verification of its accounting, security and delivery core.

  The repository runs coding agents in containers on behalf of remote clients. This development models the
  parts that decide money, credentials and delivery, translated from the TypeScript under \<open>src/\<close>; every
  definition names its source in PROJECT.json.

  The program's parts and where they are modelled.

  \<^item> Shared vocabulary: \<open>Prelude\<close> (results that may be thrown errors, insertion-ordered maps behind the locale
    \<open>finite_map\<close>, safe integers, string tests, ordered queries), \<open>Json\<close> (values of \<open>JSON.parse\<close>),
    \<open>Decimals\<close> (decimal texts).
  \<^item> The model gateway (\<open>apps/model-gateway/src\<close>): an agent's model requests pass through it under a lease with
    token and cost budgets. \<open>Pricing\<close>, \<open>GatewayPricing\<close> (\<open>packages/contracts/src/model-pricing.ts\<close>,
    \<open>config.ts\<close>), \<open>UsageNormalizer\<close> (\<open>usage-normalizer.ts\<close>), \<open>Budget\<close> (\<open>budget.ts\<close>, \<open>types.ts\<close>),
    \<open>LeaseRegistry\<close> (\<open>lease-registry.ts\<close>), \<open>GatewayControl\<close> (\<open>control.ts\<close>), \<open>GatewayRequests\<close>
    (\<open>gateway.ts\<close>), \<open>AddressPolicy\<close> and \<open>UpstreamStream\<close> (\<open>upstream.ts\<close>).
  \<^item> The runner's money (\<open>apps/runner/src\<close>): \<open>RunnerSettlement\<close> (the answers of the gateway,
    \<open>agent-gateway-control.ts\<close>), \<open>SpendCalendar\<close> and \<open>SpendLedger\<close> (\<open>model-spend-ledger.ts\<close>).
  \<^item> MCP Events: \<open>SecretKeyring\<close> (\<open>secret-keyring.ts\<close>), \<open>EventStore\<close> (the tables and
    \<open>event-outbox.ts\<close>), \<open>EventService\<close> and \<open>EventDeliveries\<close> (\<open>mcp-event-service.ts\<close>),
    \<open>EventDispatch\<close> (its request channel and \<open>apps/api/src/events/event-delivery-worker.ts\<close>).
  \<^item> The framed protocol between runner and agent runtime: \<open>LineFraming\<close> (locale \<open>framed_receiver\<close>),
    \<open>RecordQueue\<close> (\<open>apps/agent-runtime/src/jsonl.ts\<close>), \<open>AgentChannel\<close> (\<open>apps/runner/src/agent-protocol.ts\<close>).
  \<^item> Revision diffs: \<open>RevisionDiff\<close> (\<open>apps/runner/src/revision-diff.ts\<close>).
  \<^item> The durable session store (\<open>apps/runner/src/durable-session-store.ts\<close>): each agent's session database has one
    owner at a time, whose claim fences older ones. \<open>SessionStore\<close> (state, marks, tokens, remembered responses),
    \<open>SessionOperations\<close> (claims, requests, seals, deletion and the steps they interleave in).
  \<^item> Output redaction (\<open>apps/runner/src/output-redactor.ts\<close>): \<open>RedactorTrie\<close> (the automaton), \<open>Redactor\<close> (the
    stream with its hold-back, one-shot redaction).
  \<^item> Agents (\<open>apps/runner/src/agent-state-repository.ts\<close>, tables in \<open>principal-store.ts\<close>): \<open>AgentTables\<close> (rows, limits, shared
    queries, runner epochs, the fence), \<open>AgentRedaction\<close> and \<open>AgentLogs\<close> (logs with their caps, usage, cleanup retries),
    \<open>AgentSessions\<close> (persisted conversations with their digest chain), \<open>AgentEffects\<close> (tool effects, receipts, messages),
    \<open>AgentLifecycle\<close> (spawn admission, status transitions, restart, compaction), \<open>AgentSteps\<close> (any order of the operations,
    and of what other services do to the shared tables).

  How state and operations correspond to the code. A class with mutable fields is a record and each method a
  function returning the new record; a method that throws returns \<open>Inl\<close>. The lease registry shares grant objects
  with the requests in flight, so it keeps an explicit heap. Requests interleave at the code's await points: the
  gateway is a step relation (\<open>GatewayAccounting\<close>) over accept, reserve, complete, fail, cancel, revoke, freeze.
  SQLite tables are lists of rows, a query a comprehension, and a transaction that throws returns the database it
  was given. Clock values, random tokens, delivery order and chunk boundaries are arguments, so the theorems hold for
  every choice of them.

  What the lemma groups show. \<open>BudgetProperties\<close>: a reservation is bounded and covers what it can be charged, and
  settlements never refund too much. \<open>PricingProperties\<close>: pricing survives its export to the gateway; usage is
  charged at its most expensive reading. \<open>LeaseTheorems\<close>: revoked leases stay refused and settlements frozen.
  \<open>GatewayTheorems\<close>: over every interleaving a settlement is exactly what was charged; snapshots are atomic.
  \<open>StreamTheorems\<close>: no credential is forwarded, usage does not depend on chunking. \<open>AddressTheorems\<close>
  (over \<open>AddressSpellings\<close>, the text forms of an IPv6 address): an IPv6 literal in any spelling is refused exactly
  when it lies in a refused network. \<open>SpendTheorems\<close>: admissions respect policies, closed rows are final,
  reported totals are the enforced ones. \<open>DiffTheorems\<close>: an untruncated diff replays to the whole of both
  revisions, the truncated flag is exact, and the diff is minimal.
  \<open>FramingTheorems\<close>: chunk boundaries are invisible and records arrive unchanged. \<open>EventTheorems\<close>: the event tables
  refine an abstract delivery life cycle, deliveries are leased, bounded, drained and signed as promised.
  \<open>SessionTheorems\<close> (over \<open>SessionFacts\<close>, \<open>SessionLinks\<close>, \<open>SessionMemo\<close>, \<open>SessionHistory\<close>, \<open>SessionCommits\<close>): the
  session store keeps its invariant in every interleaving, owner marks rise, lost claims stay fenced, a repeated
  commit is answered from memory; a commit already waiting for a measurement escapes the fence.
  \<open>RedactorTheorems\<close> (over \<open>RedactorLinks\<close>, \<open>RedactorScan\<close>, \<open>RedactorReference\<close>, \<open>RedactorStream\<close>): the automaton's
  links are the longest suffixes, a redaction ends and only replaces, it equals a left-to-right reference under stated
  conditions on the secrets, and lets secrets through where they fail.
  \<open>AgentProperties\<close> (over \<open>AgentFacts\<close>, \<open>AgentInvariant\<close>, \<open>AgentEffectFacts\<close>, \<open>AgentSessionFacts\<close>, \<open>AgentLogFacts\<close>,
  \<open>AgentTheorems\<close>): the agent tables keep their invariant and every capacity, an agent's row only moves along its life, spawns
  and effects are made once, a superseded runner writes nothing, session logs verify and continuations read their
  predecessor's, logs stay within their caps without gaps and are paged completely.

  Parameters and bounds. SHA-256 digests, AES-256-GCM (\<open>aead_ok\<close> states its documented laws), URL host parsing, JSON
  texts and their parsing, UTF-8 lengths (\<open>utf8_counts\<close>: never negative; \<open>json_readable\<close>: what is printed can be parsed), DNS answers and the webhook transport are arguments of the definitions that use
  them. Numbers are mathematical integers where the code's checks keep them in the safe range, with saturation written
  out where the code saturates. The climb along fail links takes the length of the node's path as fuel, which is enough because every
  link is shorter than its node (a lemma); the redactor's scan is a \<open>while_option\<close> proved to end. Every other recursion terminates by its own measure. The stream and framing loops
  terminate because each round consumes input; the delivery loop is bounded by time, not by a counter, and that bound
  is a theorem.

  Not modelled: the dashboards, HTTP servers and routers, Docker, git and terminal effects, third-party protocols
  (OAuth, GitHub, MCP proxying, agent libraries), SQLite migrations and the wide persistence of workspaces and tasks. They are effects or glue around the components above; PROJECT.json lists each with its reason.
\<close>

end
